(* ===== verification/SS_Prelude.thy ===== *)
theory SS_Prelude
  imports Main "HOL-Library.Word" "HOL-Library.Sublist"
begin

text \<open>
  Shared vocabulary of the development: the Python data the server works on (byte strings, text
  as lists of code points, numbers in decimal), the exceptions the library code can raise, and the
  generic facts on lists, searching and splitting that the component theories use.

  A Python \<open>bytes\<close> object is a list of 8-bit words. A Python \<open>str\<close> is the list of its code points,
  so \<open>length\<close> is Python's \<open>len\<close> on both. \<open>lit\<close> turns a HOL string literal into such a list.
\<close>

unbundle bit_operations_syntax

named_theorems wf_intros \<open>introduction rules for the well-formedness invariants\<close>
named_theorems py_text \<open>evaluation of the text primitives\<close>

type_synonym byte = "8 word"
type_synonym bytes = "byte list"
type_synonym pystr = "nat list"

definition lit :: "string \<Rightarrow> pystr" where
  "lit s = map of_char s"

lemma lit_simps [py_text]:
  "lit [] = []"
  "lit (c # cs) = of_char c # lit cs"
  by (simp_all add: lit_def)

lemma lit_Nil_iff [simp]: "lit s = [] \<longleftrightarrow> s = []" "[] = lit s \<longleftrightarrow> s = []"
  by (simp_all add: lit_def)

lemma lit_inject [simp]: "lit s = lit t \<longleftrightarrow> s = t"
  unfolding lit_def by (rule inj_map_eq_map) (auto intro: injI)

text \<open>The built-in exceptions that library code raises and its callers tell apart.\<close>

datatype py_error =
    ValueError pystr
  | TypeError pystr
  | KeyError pystr
  | RuntimeError pystr

section \<open>Sums as results\<close>

definition bind_sum :: "'e + 'a \<Rightarrow> ('a \<Rightarrow> 'e + 'b) \<Rightarrow> 'e + 'b" where
  "bind_sum r f = (case r of Inl e \<Rightarrow> Inl e | Inr a \<Rightarrow> f a)"

lemma bind_sum_simps [simp]:
  "bind_sum (Inl e) f = Inl e"
  "bind_sum (Inr a) f = f a"
  by (simp_all add: bind_sum_def)

lemma bind_sum_Inr_iff: "bind_sum r f = Inr b \<longleftrightarrow> (\<exists>a. r = Inr a \<and> f a = Inr b)"
  by (cases r) auto

lemma bind_sum_Inl_iff:
  "bind_sum r f = Inl e \<longleftrightarrow> r = Inl e \<or> (\<exists>a. r = Inr a \<and> f a = Inl e)"
  by (cases r) auto

lemma bind_sum_assoc: "bind_sum (bind_sum r f) g = bind_sum r (\<lambda>a. bind_sum (f a) g)"
  by (cases r) auto

lemma bind_sum_Inr_id [simp]: "bind_sum r Inr = r"
  by (cases r) auto

definition guard_err :: "bool \<Rightarrow> 'e \<Rightarrow> 'e + unit" where
  "guard_err b e = (if b then Inr () else Inl e)"

section \<open>Searching and splitting\<close>

text \<open>\<open>find_sub pat s\<close> is Python's \<open>s.find(pat)\<close>: the least index where \<open>pat\<close> occurs, or \<open>None\<close>
  for \<open>-1\<close>.\<close>

fun find_sub :: "'a list \<Rightarrow> 'a list \<Rightarrow> nat option" where
  "find_sub pat [] = (if pat = [] then Some 0 else None)"
| "find_sub pat (x # xs) =
     (if take (length pat) (x # xs) = pat then Some 0 else map_option Suc (find_sub pat xs))"

text \<open>\<open>s.split(c)\<close> for a one-character separator.\<close>

fun split_on :: "'a \<Rightarrow> 'a list \<Rightarrow> 'a list list" where
  "split_on c [] = [[]]"
| "split_on c (x # xs) =
     (if x = c then [] # split_on c xs
      else (case split_on c xs of [] \<Rightarrow> [[x]] | y # ys \<Rightarrow> (x # y) # ys))"

text \<open>\<open>s.split(\<close>CR LF\<open>)\<close>, for the two-character separator of header lines.\<close>

fun split_crlf :: "pystr \<Rightarrow> pystr list" where
  "split_crlf [] = [[]]"
| "split_crlf [x] = [[x]]"
| "split_crlf (x # y # zs) =
     (if x = 13 \<and> y = 10 then [] # split_crlf zs
      else (case split_crlf (y # zs) of [] \<Rightarrow> [[x]] | l # ls \<Rightarrow> (x # l) # ls))"

text \<open>\<open>s.partition(c)\<close>: the part before the first \<open>c\<close>, whether \<open>c\<close> occurs, the part after it.\<close>

fun partition_at :: "'a \<Rightarrow> 'a list \<Rightarrow> 'a list \<times> bool \<times> 'a list" where
  "partition_at c [] = ([], False, [])"
| "partition_at c (x # xs) =
     (if x = c then ([], True, xs)
      else (case partition_at c xs of (h, b, t) \<Rightarrow> (x # h, b, t)))"

definition strip_with :: "('a \<Rightarrow> bool) \<Rightarrow> 'a list \<Rightarrow> 'a list" where
  "strip_with p s = rev (dropWhile p (rev (dropWhile p s)))"

definition rstrip_with :: "('a \<Rightarrow> bool) \<Rightarrow> 'a list \<Rightarrow> 'a list" where
  "rstrip_with p s = rev (dropWhile p (rev s))"

definition join_with :: "'a list \<Rightarrow> 'a list list \<Rightarrow> 'a list" where
  "join_with sep xss = (case xss of [] \<Rightarrow> [] | y # ys \<Rightarrow> y @ concat (map (\<lambda>l. sep @ l) ys))"

lemma join_with_simps [simp]:
  "join_with sep [] = []"
  "join_with sep [x] = x"
  "join_with sep (x # y # ys) = x @ sep @ join_with sep (y # ys)"
  by (simp_all add: join_with_def)

lemma join_with_Cons: "xs \<noteq> [] \<Longrightarrow> join_with sep (x # xs) = x @ sep @ join_with sep xs"
  by (cases xs) auto

section \<open>Facts about searching\<close>

lemma find_sub_Some_iff:
  "find_sub pat xs = Some n \<longleftrightarrow>
     n + length pat \<le> length xs \<and> take (length pat) (drop n xs) = pat \<and>
     (\<forall>m < n. take (length pat) (drop m xs) \<noteq> pat)"
proof (induction xs arbitrary: n)
  case Nil
  then show ?case by auto
next
  case (Cons x xs)
  show ?case
  proof (cases "take (length pat) (x # xs) = pat")
    case True
    then have "length pat \<le> length (x # xs)"
      by (metis length_take min.absorb_iff2)
    with True show ?thesis by (cases n) auto
  next
    case False
    then show ?thesis
      by (cases n) (auto simp: Cons.IH less_Suc_eq_0_disj)
  qed
qed

lemma find_sub_None_iff:
  "find_sub pat xs = None \<longleftrightarrow> (\<forall>n. n + length pat \<le> length xs \<longrightarrow> take (length pat) (drop n xs) \<noteq> pat)"
proof
  assume "find_sub pat xs = None"
  then show "\<forall>n. n + length pat \<le> length xs \<longrightarrow> take (length pat) (drop n xs) \<noteq> pat"
  proof (induction xs)
    case Nil
    then show ?case by (auto split: if_splits)
  next
    case (Cons x xs)
    then have step: "take (length pat) (x # xs) \<noteq> pat" "find_sub pat xs = None"
      by (auto split: if_splits)
    show ?case
    proof (intro allI impI)
      fix n assume "n + length pat \<le> length (x # xs)"
      with Cons.IH[OF step(2)] step(1) show "take (length pat) (drop n (x # xs)) \<noteq> pat"
        by (cases n) auto
    qed
  qed
next
  assume none: "\<forall>n. n + length pat \<le> length xs \<longrightarrow> take (length pat) (drop n xs) \<noteq> pat"
  show "find_sub pat xs = None"
  proof (rule ccontr)
    assume "find_sub pat xs \<noteq> None"
    then obtain n where "find_sub pat xs = Some n" by auto
    with none show False by (auto simp: find_sub_Some_iff)
  qed
qed

lemma find_sub_bound: "find_sub pat xs = Some n \<Longrightarrow> n + length pat \<le> length xs"
  by (simp add: find_sub_Some_iff)

lemma find_sub_append_Some:
  assumes "find_sub pat xs = Some n"
  shows "find_sub pat (xs @ ys) = Some n"
  using assms by (auto simp: find_sub_Some_iff)

lemma find_sub_append_None:
  assumes none: "find_sub pat xs = None" and found: "find_sub pat (xs @ ys) = Some n"
  shows "length xs < n + length pat"
proof (rule ccontr)
  assume "\<not> length xs < n + length pat"
  then have le: "n + length pat \<le> length xs" by simp
  then have "take (length pat) (drop n (xs @ ys)) = take (length pat) (drop n xs)"
    by simp
  with found have "take (length pat) (drop n xs) = pat"
    by (simp add: find_sub_Some_iff)
  with none le show False by (simp add: find_sub_None_iff)
qed

lemma find_sub_map_inj:
  assumes "inj f"
  shows "find_sub (map f pat) (map f xs) = find_sub pat xs"
proof (induction xs)
  case Nil
  then show ?case by simp
next
  case (Cons x xs)
  have "take (length pat) (map f (x # xs)) = map f pat \<longleftrightarrow> take (length pat) (x # xs) = pat"
    using assms by (simp only: take_map inj_map_eq_map)
  with Cons show ?case by simp
qed

lemma find_sub_skip:
  "c \<notin> set l \<Longrightarrow> find_sub (c # p) (l @ xs) = map_option (\<lambda>n. length l + n) (find_sub (c # p) xs)"
proof (induction l)
  case Nil
  then show ?case by (simp add: option.map_ident)
next
  case (Cons x l)
  then show ?case by (auto simp: option.map_comp comp_def)
qed

section \<open>Facts about splitting\<close>

lemma partition_at_eq:
  "partition_at c xs = (takeWhile (\<lambda>x. x \<noteq> c) xs, c \<in> set xs, tl (dropWhile (\<lambda>x. x \<noteq> c) xs))"
  by (induction xs) auto

lemma partition_at_parts:
  assumes "partition_at c xs = (h, b, t)"
  shows "c \<notin> set h" and "xs = h @ (if b then c # t else [])" and "\<not> b \<Longrightarrow> t = []"
  using assms
proof (induction xs arbitrary: h b t)
  case Nil
  { case 1 then show ?case by simp next
    case 2 then show ?case by simp next
    case 3 then show ?case by simp }
next
  case (Cons x xs)
  { case 1 with Cons show ?case by (auto split: if_splits prod.splits) next
    case 2 with Cons show ?case by (fastforce split: if_splits prod.splits) next
    case 3 with Cons show ?case by (fastforce split: if_splits prod.splits) }
qed

lemma partition_at_append:
  "c \<notin> set h \<Longrightarrow> partition_at c (h @ c # t) = (h, True, t)"
  by (induction h) auto

lemma partition_at_absent: "c \<notin> set h \<Longrightarrow> partition_at c h = (h, False, [])"
  by (induction h) auto

lemma split_on_not_Nil [simp]: "split_on c xs \<noteq> []"
  by (induction xs) (auto split: list.splits)

lemma split_on_absent: "c \<notin> set xs \<Longrightarrow> split_on c xs = [xs]"
  by (induction xs) auto

lemma split_on_append: "c \<notin> set xs \<Longrightarrow> split_on c (xs @ c # ys) = xs # split_on c ys"
  by (induction xs) auto

lemma join_split_on: "join_with [c] (split_on c xs) = xs"
proof (induction xs)
  case Nil
  then show ?case by simp
next
  case (Cons x xs)
  show ?case
  proof (cases "split_on c xs")
    case Nil
    then show ?thesis by simp
  next
    case (Cons y ys)
    with Cons.IH show ?thesis
      by (cases ys) (auto simp: join_with_Cons)
  qed
qed

lemma split_crlf_absent: "13 \<notin> set l \<Longrightarrow> split_crlf l = [l]"
  by (induction l rule: split_crlf.induct) auto

lemma split_crlf_append: "13 \<notin> set l \<Longrightarrow> split_crlf (l @ 13 # 10 # xs) = l # split_crlf xs"
proof (induction l)
  case Nil
  then show ?case by simp
next
  case (Cons a l)
  then have "split_crlf ((a # l) @ 13 # 10 # xs) = (a # l) # split_crlf xs"
    by (cases l) auto
  then show ?case .
qed

lemma split_crlf_join:
  "ls \<noteq> [] \<Longrightarrow> \<forall>l \<in> set ls. 13 \<notin> set l \<Longrightarrow> split_crlf (join_with [13, 10] ls) = ls"
proof (induction ls)
  case Nil
  then show ?case by simp
next
  case (Cons l ls)
  then show ?case
    by (cases "ls = []") (auto simp: split_crlf_absent join_with_Cons split_crlf_append)
qed

text \<open>The blank line that ends a head built from non-empty lines without CR is the one added at
  its end, whatever follows.\<close>

lemma find_sub_marker:
  fixes ls :: "nat list list"
  assumes "ls \<noteq> []" and "\<forall>l \<in> set ls. 13 \<notin> set l \<and> l \<noteq> []"
  shows "find_sub [13, 10, 13, 10] (join_with [13, 10] ls @ [13, 10, 13, 10] @ body)
         = Some (length (join_with [13, 10] ls))"
  using assms
proof (induction ls)
  case Nil
  then show ?case by simp
next
  case (Cons l ls)
  show ?case
  proof (cases "ls = []")
    case True
    with Cons.prems show ?thesis by (simp add: find_sub_skip)
  next
    case False
    let ?rest = "join_with [13, 10] ls @ [13, 10, 13, 10] @ body"
    from False Cons.prems have IH: "find_sub [13, 10, 13, 10] ?rest
        = Some (length (join_with [13, 10] ls))"
      by (intro Cons.IH) auto
    from False obtain m ms where ls: "ls = m # ms" by (cases ls) auto
    with Cons.prems obtain c cs where m: "m = c # cs" and c: "c \<noteq> 13"
      by (cases m) auto
    then obtain r where rest: "?rest = c # r"
      using ls by (cases ms) auto
    have "find_sub [13, 10, 13, 10] (13 # 10 # ?rest) = map_option (\<lambda>n. Suc (Suc n)) (find_sub [13, 10, 13, 10] ?rest)"
      unfolding rest using c by (simp add: option.map_comp comp_def)
    with IH False Cons.prems show ?thesis
      by (simp add: join_with_Cons find_sub_skip)
  qed
qed

end
