(* ===== verification/SS_Text.thy ===== *)
theory SS_Text
  imports SS_Prelude
begin

text \<open>
  The Python text operations the server uses, on code-point lists: case mapping, the character
  classes it tests, the Latin-1, ASCII and UTF-8 codecs, and decimal numbers in both directions.

  Case mapping is Python's on Latin-1. Above U+00FF \<open>py_lower\<close> leaves a code point as it is: its
  results are only compared with ASCII literals or checked by the header rules, which reject such
  a name whatever its case. \<open>py_upper\<close> also has the nine code points above U+00FF that map to
  ASCII letters alone (U+0131, U+017F, U+FB00 to U+FB06), since its results are compared with method names.
\<close>

section \<open>Case mapping and character classes\<close>

definition lower1 :: "nat \<Rightarrow> nat" where
  "lower1 c = (if 65 \<le> c \<and> c \<le> 90 \<or> 192 \<le> c \<and> c \<le> 222 \<and> c \<noteq> 215 then c + 32 else c)"

definition py_lower :: "pystr \<Rightarrow> pystr" where
  "py_lower s = map lower1 s"

definition upper1 :: "nat \<Rightarrow> pystr" where
  "upper1 c =
     (if 97 \<le> c \<and> c \<le> 122 \<or> 224 \<le> c \<and> c \<le> 254 \<and> c \<noteq> 247 then [c - 32]
      else if c = 181 then [924]
      else if c = 223 then [83, 83]
      else if c = 255 then [376]
      else if c = 305 then [73]
      else if c = 383 then [83]
      else if c = 64256 then [70, 70]
      else if c = 64257 then [70, 73]
      else if c = 64258 then [70, 76]
      else if c = 64259 then [70, 70, 73]
      else if c = 64260 then [70, 70, 76]
      else if c = 64261 \<or> c = 64262 then [83, 84]
      else [c])"

definition py_upper :: "pystr \<Rightarrow> pystr" where
  "py_upper s = concat (map upper1 s)"

definition is_ascii :: "pystr \<Rightarrow> bool" where
  "is_ascii s = list_all (\<lambda>c. c < 128) s"

text \<open>\<open>value.isascii() and value.isdecimal()\<close>: non-empty and ASCII digits only.\<close>

definition is_ascii_decimal :: "pystr \<Rightarrow> bool" where
  "is_ascii_decimal s = (s \<noteq> [] \<and> list_all (\<lambda>c. 48 \<le> c \<and> c \<le> 57) s)"

text \<open>\<open>str.isspace\<close> below U+0100, the characters \<open>str.strip()\<close> and \<open>str.rstrip()\<close> remove.\<close>

definition py_space :: "nat \<Rightarrow> bool" where
  "py_space c = (9 \<le> c \<and> c \<le> 13 \<or> 28 \<le> c \<and> c \<le> 32 \<or> c = 133 \<or> c = 160)"

definition starts_with :: "pystr \<Rightarrow> pystr \<Rightarrow> bool" where
  "starts_with p s = (take (length p) s = p)"

lemma lower1_idem [simp]: "lower1 (lower1 c) = lower1 c"
  by (auto simp: lower1_def)

lemma py_lower_idem [simp]: "py_lower (py_lower s) = py_lower s"
  by (simp add: py_lower_def)

lemma length_py_lower [simp]: "length (py_lower s) = length s"
  by (simp add: py_lower_def)

lemma py_lower_Nil_iff [simp]: "py_lower s = [] \<longleftrightarrow> s = []"
  by (simp add: py_lower_def)

lemma lower1_lit [simp]: "lower1 c = c" if "\<not> (65 \<le> c \<and> c \<le> 90)" "c < 192"
  using that by (auto simp: lower1_def)

section \<open>Codecs\<close>

definition latin1_decode :: "bytes \<Rightarrow> pystr" where
  "latin1_decode bs = map unat bs"

text \<open>\<open>s.encode("latin-1")\<close>: \<open>None\<close> stands for UnicodeEncodeError.\<close>

definition latin1_encode :: "pystr \<Rightarrow> bytes option" where
  "latin1_encode s = (if list_all (\<lambda>c. c < 256) s then Some (map of_nat s) else None)"

definition ascii_encode :: "pystr \<Rightarrow> bytes option" where
  "ascii_encode s = (if is_ascii s then Some (map of_nat s) else None)"

text \<open>UTF-8, code point by code point; a surrogate has no encoding.\<close>

definition utf8_char :: "nat \<Rightarrow> nat list option" where
  "utf8_char c =
     (if c < 128 then Some [c]
      else if c < 2048 then Some [192 + c div 64, 128 + c mod 64]
      else if 55296 \<le> c \<and> c \<le> 57343 then None
      else if c < 65536 then Some [224 + c div 4096, 128 + c div 64 mod 64, 128 + c mod 64]
      else if c < 1114112 then
        Some [240 + c div 262144, 128 + c div 4096 mod 64, 128 + c div 64 mod 64, 128 + c mod 64]
      else None)"

fun utf8_encode :: "pystr \<Rightarrow> bytes option" where
  "utf8_encode [] = Some []"
| "utf8_encode (c # cs) =
     (case utf8_char c of None \<Rightarrow> None
      | Some b \<Rightarrow> (case utf8_encode cs of None \<Rightarrow> None | Some bs \<Rightarrow> Some (map of_nat b @ bs)))"

definition utf8_len :: "pystr \<Rightarrow> nat option" where
  "utf8_len s = map_option length (utf8_encode s)"

lemma latin1_decode_append [simp]: "latin1_decode (xs @ ys) = latin1_decode xs @ latin1_decode ys"
  by (simp add: latin1_decode_def)

lemma byte_less_256 [simp]: "unat (b :: byte) < 256"
  using unsigned_less [of b] by simp

lemma latin1_decode_less: "c \<in> set (latin1_decode bs) \<Longrightarrow> c < 256"
  by (auto simp: latin1_decode_def)

lemma length_latin1_decode [simp]: "length (latin1_decode bs) = length bs"
  by (simp add: latin1_decode_def)

lemma unat_of_nat_byte: "c < 256 \<Longrightarrow> unat (of_nat c :: byte) = c"
  by (simp add: unat_of_nat take_bit_eq_mod)

lemma latin1_decode_of_nat: "list_all (\<lambda>c. c < 256) s \<Longrightarrow> latin1_decode (map of_nat s) = s"
  by (induction s) (auto simp: latin1_decode_def unat_of_nat_byte)

lemma latin1_encode_decode [simp]: "latin1_encode (latin1_decode bs) = Some bs"
  by (simp add: latin1_decode_def latin1_encode_def list_all_iff comp_def)

lemma latin1_encode_Some_iff:
  "latin1_encode s = Some bs \<longleftrightarrow> list_all (\<lambda>c. c < 256) s \<and> bs = map of_nat s"
  by (auto simp: latin1_encode_def)

lemma latin1_decode_encode: "latin1_encode s = Some bs \<Longrightarrow> latin1_decode bs = s"
  by (auto simp: latin1_encode_Some_iff latin1_decode_of_nat)

lemma latin1_encode_append:
  "latin1_encode (s @ t) =
     (case (latin1_encode s, latin1_encode t) of (Some a, Some b) \<Rightarrow> Some (a @ b) | _ \<Rightarrow> None)"
  by (auto simp: latin1_encode_def)

lemma utf8_encode_ascii: "is_ascii s \<Longrightarrow> utf8_encode s = Some (map of_nat s)"
  by (induction s) (auto simp: is_ascii_def utf8_char_def)

lemma utf8_encode_append:
  "utf8_encode (s @ t) =
     (case (utf8_encode s, utf8_encode t) of (Some a, Some b) \<Rightarrow> Some (a @ b) | _ \<Rightarrow> None)"
  by (induction s) (auto split: option.splits)

lemma utf8_len_ge: "utf8_encode s = Some bs \<Longrightarrow> length s \<le> length bs"
proof (induction s arbitrary: bs)
  case Nil
  then show ?case by simp
next
  case (Cons c cs)
  then obtain b bs' where b: "utf8_char c = Some b" and bs': "utf8_encode cs = Some bs'"
    and bs: "bs = map of_nat b @ bs'"
    by (auto split: option.splits)
  from b have "1 \<le> length b" by (auto simp: utf8_char_def split: if_splits)
  with Cons.IH[OF bs'] bs show ?case by simp
qed

section \<open>Decimal numbers\<close>

text \<open>\<open>str(n)\<close> for a non-negative number.\<close>

fun nat_str :: "nat \<Rightarrow> pystr" where
  "nat_str n = (if n < 10 then [48 + n] else nat_str (n div 10) @ [48 + n mod 10])"

declare nat_str.simps [simp del]

definition int_str :: "int \<Rightarrow> pystr" where
  "int_str i = (if i < 0 then 45 # nat_str (nat (- i)) else nat_str (nat i))"

text \<open>
  \<open>int(s)\<close> on a string of ASCII digits. CPython refuses more than 4300 digits with a ValueError
  (\<open>sys.int_info.default_max_str_digits\<close>); leading zeros count.
\<close>

definition max_str_digits :: nat where
  "max_str_digits = 4300"

definition digits_value :: "pystr \<Rightarrow> nat" where
  "digits_value s = foldl (\<lambda>n c. 10 * n + (c - 48)) 0 s"

definition py_int :: "pystr \<Rightarrow> py_error + nat" where
  "py_int s =
     (if length s > max_str_digits then Inl (ValueError (lit ''Exceeds the limit for integer string conversion''))
      else Inr (digits_value s))"

lemma digits_value_snoc [simp]: "digits_value (s @ [c]) = 10 * digits_value s + (c - 48)"
  by (simp add: digits_value_def)

lemma nat_str_digits: "list_all (\<lambda>c. 48 \<le> c \<and> c \<le> 57) (nat_str n)"
proof (induction n rule: nat_str.induct)
  case (1 n)
  then show ?case
    by (cases "n < 10") (auto simp: nat_str.simps [of n])
qed

lemma nat_str_not_Nil [simp]: "nat_str n \<noteq> []"
  by (subst nat_str.simps) simp

lemma nat_str_decimal: "is_ascii_decimal (nat_str n)"
  by (simp add: is_ascii_decimal_def nat_str_digits)

lemma digits_value_nat_str [simp]: "digits_value (nat_str n) = n"
proof (induction n rule: nat_str.induct)
  case (1 n)
  show ?case
  proof (cases "n < 10")
    case True
    then show ?thesis by (simp add: nat_str.simps [of n] digits_value_def)
  next
    case False
    with 1 have "digits_value (nat_str (n div 10)) = n div 10" by simp
    with False show ?thesis
      by (simp add: nat_str.simps [of n])
  qed
qed

lemma nat_str_inject [simp]: "nat_str m = nat_str n \<longleftrightarrow> m = n"
  by (metis digits_value_nat_str)

lemma length_nat_str_le: "n < 10 ^ k \<Longrightarrow> 0 < k \<Longrightarrow> length (nat_str n) \<le> k"
proof (induction n arbitrary: k rule: nat_str.induct)
  case (1 n)
  show ?case
  proof (cases "n < 10")
    case True
    with 1 show ?thesis by (simp add: nat_str.simps [of n])
  next
    case False
    from "1.prems" obtain j where k: "k = Suc j"
      by (cases k) auto
    with False "1.prems" have j: "0 < j"
      by (cases j) auto
    from "1.prems" k have "n div 10 < 10 ^ j" by (simp add: less_mult_imp_div_less mult.commute)
    with False j have "length (nat_str (n div 10)) \<le> j" by (intro "1.IH") auto
    with False k show ?thesis by (simp add: nat_str.simps [of n])
  qed
qed

lemma nat_str_elem: "c \<in> set (nat_str n) \<Longrightarrow> 48 \<le> c \<and> c \<le> 57"
  using nat_str_digits [of n] by (auto simp: list_all_iff)

end
