(* ===== verification/Http_Values.thy ===== *)
theory Http_Values
  imports SS_Text
begin

text \<open>
  The value objects of \<open>smallserver/http.py\<close>: \<open>Headers\<close>, \<open>Request\<close> and \<open>Response\<close>.

  \<open>Headers._values\<close> is a dict from the lower-cased name to the (name, value) pair; dicts keep
  insertion order, so it is an association list here. A constructor that validates is a function
  into \<open>py_error + value\<close>. Arguments of a wrong Python type have no counterpart: the types of the
  model rule them out.

  The lemmas show when construction succeeds and what it establishes, that lookup ignores case,
  and that a serialised response cannot be split: its head ends at the first blank line, and the
  lines of the head are the ones the response holds.
\<close>

section \<open>Tokens and header values\<close>

definition token_char :: "nat \<Rightarrow> bool" where
  "token_char c =
     (c \<in> set [33, 35, 36, 37, 38, 39, 42, 43, 46, 94, 95, 96, 124, 126] \<or>
      48 \<le> c \<and> c \<le> 57 \<or> 65 \<le> c \<and> c \<le> 90 \<or> 97 \<le> c \<and> c \<le> 122 \<or> c = 45)"

definition is_token :: "pystr \<Rightarrow> bool" where
  "is_token s = (s \<noteq> [] \<and> list_all token_char s)"

definition header_value_ok :: "pystr \<Rightarrow> bool" where
  "header_value_ok v = list_all (\<lambda>c. \<not> (c \<noteq> 9 \<and> (c < 32 \<or> c = 127 \<or> c > 255))) v"

section \<open>Headers\<close>

type_synonym headers = "(pystr \<times> pystr \<times> pystr) list"

fun headers_loop :: "headers \<Rightarrow> (pystr \<times> pystr) list \<Rightarrow> py_error + headers" where
  "headers_loop norm [] = Inr norm"
| "headers_loop norm ((name, value) # items) =
     (if \<not> is_token name then Inl (ValueError (lit ''invalid HTTP header name''))
      else if \<not> header_value_ok value then Inl (ValueError (lit ''invalid HTTP header value''))
      else if py_lower name \<in> set (map fst norm)
      then Inl (ValueError (lit ''duplicate HTTP header: '' @ name))
      else headers_loop (norm @ [(py_lower name, name, value)]) items)"

definition headers_init :: "(pystr \<times> pystr) list \<Rightarrow> py_error + headers" where
  "headers_init items = headers_loop [] items"

definition headers_getitem :: "headers \<Rightarrow> pystr \<Rightarrow> py_error + pystr" where
  "headers_getitem h name =
     (case map_of h (py_lower name) of None \<Rightarrow> Inl (KeyError (py_lower name)) | Some e \<Rightarrow> Inr (snd e))"

definition headers_get :: "headers \<Rightarrow> pystr \<Rightarrow> pystr option" where
  "headers_get h name = map_option snd (map_of h (py_lower name))"

definition headers_items :: "headers \<Rightarrow> (pystr \<times> pystr) list" where
  "headers_items h = map snd h"

definition headers_names :: "headers \<Rightarrow> pystr list" where
  "headers_names h = map (\<lambda>e. fst (snd e)) h"

definition headers_len :: "headers \<Rightarrow> nat" where
  "headers_len h = length h"

definition headers_wf :: "headers \<Rightarrow> bool" where
  "headers_wf h = (distinct (map fst h) \<and>
     list_all (\<lambda>(k, n, v). is_token n \<and> k = py_lower n \<and> header_value_ok v) h)"

section \<open>Request\<close>

record request =
  req_method :: pystr
  req_path :: pystr
  req_headers :: headers
  req_body :: bytes
  req_version :: pystr
  req_raw_target :: pystr
  req_query_string :: pystr
  req_path_params :: "(pystr \<times> pystr) list"
  req_route_pattern :: "pystr option"

text \<open>The dataclass constructor with its \<open>__post_init__\<close>; \<open>raw_target\<close> is \<open>None\<close> when not given.\<close>

definition request_init ::
  "pystr \<Rightarrow> pystr \<Rightarrow> headers \<Rightarrow> bytes \<Rightarrow> pystr \<Rightarrow> pystr option \<Rightarrow> pystr \<Rightarrow>
   (pystr \<times> pystr) list \<Rightarrow> pystr option \<Rightarrow> py_error + request" where
  "request_init method path headers body version raw_target query_string path_params route_pattern =
     (if \<not> is_token method then Inl (ValueError (lit ''invalid HTTP method''))
      else
        let target =
              (if raw_target = None \<and> 63 \<notin> set path \<and> query_string \<noteq> []
               then path @ [63] @ query_string
               else (case raw_target of None \<Rightarrow> path | Some t \<Rightarrow> t))
        in if \<not> starts_with (lit ''/'') target
           then Inl (ValueError (lit ''request path/target must start with '' @ [39, 47, 39]))
           else
             let (target_path, separator, after) = partition_at 63 target;
                 target_query = (if separator then after else [])
             in if raw_target = None
                then (if query_string \<noteq> [] \<and> query_string \<noteq> target_query
                      then Inl (ValueError (lit ''request target fields are inconsistent''))
                      else if \<not> starts_with (lit ''/'') target_path
                      then Inl (ValueError (lit ''request path must start with '' @ [39, 47, 39]))
                      else Inr \<lparr>req_method = method, req_path = target_path, req_headers = headers,
                        req_body = body, req_version = version, req_raw_target = target,
                        req_query_string = target_query, req_path_params = path_params,
                        req_route_pattern = route_pattern\<rparr>)
                else (if path \<noteq> target_path \<or> query_string \<noteq> target_query
                      then Inl (ValueError (lit ''request target fields are inconsistent''))
                      else if \<not> starts_with (lit ''/'') path
                      then Inl (ValueError (lit ''request path must start with '' @ [39, 47, 39]))
                      else Inr \<lparr>req_method = method, req_path = path, req_headers = headers,
                        req_body = body, req_version = version, req_raw_target = target,
                        req_query_string = query_string, req_path_params = path_params,
                        req_route_pattern = route_pattern\<rparr>))"

text \<open>\<open>dataclasses.replace(request, path_params=..., route_pattern=...)\<close> runs the constructor again.\<close>

definition request_replace ::
  "request \<Rightarrow> (pystr \<times> pystr) list \<Rightarrow> pystr option \<Rightarrow> py_error + request" where
  "request_replace r params pattern =
     request_init (req_method r) (req_path r) (req_headers r) (req_body r) (req_version r)
       (Some (req_raw_target r)) (req_query_string r) params pattern"

definition request_wf :: "request \<Rightarrow> bool" where
  "request_wf r = (is_token (req_method r) \<and> starts_with (lit ''/'') (req_raw_target r) \<and>
     (case partition_at 63 (req_raw_target r) of (p, sep, q) \<Rightarrow>
        req_path r = p \<and> req_query_string r = (if sep then q else [])) \<and>
     headers_wf (req_headers r))"

section \<open>Response\<close>

record response =
  resp_status :: int
  resp_body :: bytes
  resp_headers :: headers

definition content_length_ok :: "headers \<Rightarrow> bytes \<Rightarrow> bool" where
  "content_length_ok h body =
     (case headers_get h (lit ''content-length'') of None \<Rightarrow> True
      | Some v \<Rightarrow> v = nat_str (length body))"

definition response_init :: "int \<Rightarrow> bytes \<Rightarrow> headers \<Rightarrow> py_error + response" where
  "response_init status body headers =
     (if \<not> (100 \<le> status \<and> status \<le> 599)
      then Inl (ValueError (lit ''response status must be between 100 and 599''))
      else if \<not> content_length_ok headers body
      then Inl (ValueError (lit ''content-length does not match response body''))
      else Inr \<lparr>resp_status = status, resp_body = body, resp_headers = headers\<rparr>)"

text \<open>\<open>combined = dict(headers or {})\<close>; \<open>combined.setdefault(...)\<close>: dict keys compare case and all.\<close>

definition dict_setdefault :: "'k \<Rightarrow> 'v \<Rightarrow> ('k \<times> 'v) list \<Rightarrow> ('k \<times> 'v) list" where
  "dict_setdefault k v d = (if k \<in> set (map fst d) then d else d @ [(k, v)])"

definition response_text :: "pystr \<Rightarrow> int \<Rightarrow> (pystr \<times> pystr) list \<Rightarrow> py_error + response" where
  "response_text value status headers =
     (let combined = dict_setdefault (lit ''Content-Type'') (lit ''text/plain; charset=utf-8'') headers
      in case utf8_encode value of
           None \<Rightarrow> Inl (ValueError (lit ''surrogates not allowed''))
         | Some body \<Rightarrow> bind_sum (headers_init combined) (\<lambda>h. response_init status body h))"

text \<open>\<open>json.dumps\<close> is a parameter: it returns the text of the value or raises.\<close>

definition response_json ::
  "('v \<Rightarrow> py_error + pystr) \<Rightarrow> 'v \<Rightarrow> int \<Rightarrow> (pystr \<times> pystr) list \<Rightarrow> py_error + response" where
  "response_json dumps value status headers =
     (let combined = dict_setdefault (lit ''Content-Type'') (lit ''application/json'') headers
      in bind_sum (dumps value) (\<lambda>text. case utf8_encode text of
           None \<Rightarrow> Inl (ValueError (lit ''surrogates not allowed''))
         | Some body \<Rightarrow> bind_sum (headers_init combined) (\<lambda>h. response_init status body h)))"

definition reasons :: "(int \<times> pystr) list" where
  "reasons =
     [(101, lit ''Switching Protocols''), (200, lit ''OK''), (201, lit ''Created''),
      (204, lit ''No Content''), (400, lit ''Bad Request''), (403, lit ''Forbidden''),
      (404, lit ''Not Found''), (405, lit ''Method Not Allowed''),
      (413, lit ''Payload Too Large''), (414, lit ''URI Too Long''),
      (408, lit ''Request Timeout''), (426, lit ''Upgrade Required''),
      (500, lit ''Internal Server Error''), (503, lit ''Service Unavailable'')]"

definition reason_of :: "int \<Rightarrow> pystr" where
  "reason_of status = (case map_of reasons status of None \<Rightarrow> [] | Some r \<Rightarrow> r)"

definition status_line :: "int \<Rightarrow> pystr" where
  "status_line status =
     rstrip_with py_space (lit ''HTTP/1.1 '' @ int_str status @ lit '' '' @ reason_of status)"

definition header_line :: "pystr \<times> pystr \<Rightarrow> pystr" where
  "header_line e = fst e @ lit '': '' @ snd e"

definition response_lines :: "response \<Rightarrow> pystr list" where
  "response_lines r =
     [status_line (resp_status r)] @
     (if headers_get (resp_headers r) (lit ''content-length'') = None
      then [lit ''Content-Length: '' @ nat_str (length (resp_body r))] else []) @
     map header_line (headers_items (resp_headers r))"

definition crlf :: pystr where
  "crlf = [13, 10]"

definition to_http1 :: "response \<Rightarrow> py_error + bytes" where
  "to_http1 r =
     (case latin1_encode (join_with crlf (response_lines r) @ crlf @ crlf) of
        None \<Rightarrow> Inl (ValueError (lit ''ordinal not in range(256)''))
      | Some head \<Rightarrow> Inr (head @ resp_body r))"

definition response_wf :: "response \<Rightarrow> bool" where
  "response_wf r = (100 \<le> resp_status r \<and> resp_status r \<le> 599 \<and> headers_wf (resp_headers r) \<and>
     content_length_ok (resp_headers r) (resp_body r))"


section \<open>Properties of headers\<close>

definition header_entry :: "pystr \<times> pystr \<Rightarrow> pystr \<times> pystr \<times> pystr" where
  "header_entry e = (py_lower (fst e), fst e, snd e)"

lemma headers_loop_Inr_iff:
  "headers_loop norm items = Inr h \<longleftrightarrow>
     list_all (\<lambda>(n, v). is_token n \<and> header_value_ok v) items \<and>
     distinct (map (\<lambda>e. py_lower (fst e)) items) \<and>
     set (map (\<lambda>e. py_lower (fst e)) items) \<inter> set (map fst norm) = {} \<and>
     h = norm @ map header_entry items"
proof (induction norm items rule: headers_loop.induct)
  case (1 norm)
  then show ?case by auto
next
  case (2 norm name val items)
  show ?case
  proof (cases "is_token name \<and> header_value_ok val \<and> py_lower name \<notin> set (map fst norm)")
    case True
    then have step: "headers_loop norm ((name, val) # items)
        = headers_loop (norm @ [(py_lower name, name, val)]) items"
      by simp
    from 2 True have IH: "headers_loop (norm @ [(py_lower name, name, val)]) items = Inr h \<longleftrightarrow>
       list_all (\<lambda>(n, v). is_token n \<and> header_value_ok v) items \<and>
       distinct (map (\<lambda>e. py_lower (fst e)) items) \<and>
       set (map (\<lambda>e. py_lower (fst e)) items) \<inter>
         set (map fst (norm @ [(py_lower name, name, val)])) = {} \<and>
       h = (norm @ [(py_lower name, name, val)]) @ map header_entry items"
      by simp
    show ?thesis
      unfolding step IH using True by (auto simp: header_entry_def)
  next
    case False
    then show ?thesis by auto
  qed
qed

lemma headers_init_Inr_iff:
  "headers_init items = Inr h \<longleftrightarrow>
     list_all (\<lambda>(n, v). is_token n \<and> header_value_ok v) items \<and>
     distinct (map (\<lambda>e. py_lower (fst e)) items) \<and> h = map header_entry items"
  by (simp add: headers_init_def headers_loop_Inr_iff)

lemma headers_loop_Inl: "headers_loop norm items = Inl e \<Longrightarrow> \<exists>m. e = ValueError m"
  by (induction norm items rule: headers_loop.induct) (auto split: if_splits)

lemma headers_init_Inl: "headers_init items = Inl e \<Longrightarrow> \<exists>m. e = ValueError m"
  by (simp add: headers_init_def headers_loop_Inl)

lemma headers_init_wf [wf_intros]: "headers_init items = Inr h \<Longrightarrow> headers_wf h"
  unfolding headers_init_Inr_iff headers_wf_def
  by (auto simp: header_entry_def list_all_iff comp_def)

lemma headers_init_items: "headers_init items = Inr h \<Longrightarrow> headers_items h = items"
  by (auto simp: headers_init_Inr_iff headers_items_def header_entry_def comp_def)

lemma headers_wf_init: "headers_wf h \<Longrightarrow> headers_init (headers_items h) = Inr h"
proof -
  assume wf: "headers_wf h"
  then have key: "(k, n, v) \<in> set h \<Longrightarrow> is_token n \<and> k = py_lower n \<and> header_value_ok v" for k n v
    by (auto simp: headers_wf_def list_all_iff)
  then have names: "map (\<lambda>e. py_lower (fst e)) (headers_items h) = map fst h"
    and entries: "map header_entry (headers_items h) = h"
    by (auto simp: headers_items_def header_entry_def comp_def intro!: map_idI)
  have "list_all (\<lambda>(n, v). is_token n \<and> header_value_ok v) (headers_items h)"
    using key by (auto simp: headers_items_def list_all_iff)
  with wf show ?thesis
    unfolding headers_init_Inr_iff names entries by (simp add: headers_wf_def)
qed

lemma headers_get_cong: "py_lower a = py_lower b \<Longrightarrow> headers_get h a = headers_get h b"
  by (simp add: headers_get_def)

lemma headers_get_Some_iff:
  assumes "headers_wf h"
  shows "headers_get h name = Some v \<longleftrightarrow> (\<exists>n. (n, v) \<in> set (headers_items h) \<and> py_lower n = py_lower name)"
proof -
  from assms have d: "distinct (map fst h)"
    and key: "\<forall>(k, n, v) \<in> set h. k = py_lower n"
    by (auto simp: headers_wf_def list_all_iff)
  have "headers_get h name = Some v \<longleftrightarrow> (\<exists>n. (py_lower name, n, v) \<in> set h)"
    using d by (auto simp: headers_get_def map_of_eq_Some_iff)
  also have "\<dots> \<longleftrightarrow> (\<exists>n. (n, v) \<in> set (headers_items h) \<and> py_lower n = py_lower name)"
    using key by (force simp: headers_items_def)
  finally show ?thesis .
qed

lemma headers_get_None_iff:
  assumes "headers_wf h"
  shows "headers_get h name = None \<longleftrightarrow> (\<forall>(n, v) \<in> set (headers_items h). py_lower n \<noteq> py_lower name)"
  using headers_get_Some_iff [OF assms, of name] by (auto split: prod.splits) (metis not_None_eq)

lemma headers_wf_item:
  "headers_wf h \<Longrightarrow> (n, v) \<in> set (headers_items h) \<Longrightarrow> is_token n \<and> header_value_ok v"
  by (auto simp: headers_wf_def headers_items_def list_all_iff)

lemma headers_wf_get_ok: "headers_wf h \<Longrightarrow> headers_get h name = Some v \<Longrightarrow> header_value_ok v"
  by (auto simp: headers_get_Some_iff dest: headers_wf_item)

section \<open>Properties of requests\<close>

lemma starts_with_takeWhile:
  "starts_with [c] s \<Longrightarrow> c \<noteq> d \<Longrightarrow> starts_with [c] (takeWhile (\<lambda>x. x \<noteq> d) s)"
  by (cases s) (auto simp: starts_with_def)

lemma request_init_Inl: "request_init m p h b v rt q ps pat = Inl e \<Longrightarrow> \<exists>msg. e = ValueError msg"
  by (auto simp: request_init_def Let_def split: if_splits prod.splits)

lemma request_init_wf [wf_intros]:
  "headers_wf h \<Longrightarrow> request_init m p h b v rt q ps pat = Inr r \<Longrightarrow> request_wf r"
  by (auto simp: request_init_def request_wf_def Let_def split: if_splits prod.splits)

lemma request_init_fields:
  "request_init m p h b v rt q ps pat = Inr r \<Longrightarrow>
     req_method r = m \<and> req_headers r = h \<and> req_body r = b \<and> req_version r = v \<and>
     req_path_params r = ps \<and> req_route_pattern r = pat"
  by (auto simp: request_init_def Let_def split: if_splits prod.splits)

text \<open>With the raw target given, as the parser and \<open>replace\<close> do, construction succeeds exactly
  when the method is a token, the target starts with a slash and the fields agree.\<close>

lemma request_init_raw_iff:
  "request_init m p h b v (Some t) q ps pat = Inr r \<longleftrightarrow>
     is_token m \<and> starts_with (lit ''/'') t \<and>
     (case partition_at 63 t of (tp, sep, tq) \<Rightarrow> p = tp \<and> q = (if sep then tq else [])) \<and>
     r = \<lparr>req_method = m, req_path = p, req_headers = h, req_body = b, req_version = v,
          req_raw_target = t, req_query_string = q, req_path_params = ps, req_route_pattern = pat\<rparr>"
proof -
  have "starts_with [47] t \<Longrightarrow> starts_with [47] (fst (partition_at 63 t))"
    by (simp add: partition_at_eq starts_with_takeWhile)
  then show ?thesis
    by (auto simp: request_init_def Let_def py_text split: prod.splits)
qed

lemma request_replace_ok:
  "request_wf r \<Longrightarrow>
     request_replace r ps pat = Inr (r\<lparr>req_path_params := ps, req_route_pattern := pat\<rparr>)"
  by (auto simp: request_replace_def request_init_raw_iff request_wf_def)


section \<open>Serialised responses\<close>

lemma token_char_range: "token_char c \<Longrightarrow> 33 \<le> c \<and> c \<le> 126 \<and> c \<noteq> 58"
  by (auto simp: token_char_def)

lemma is_token_chars: "is_token n \<Longrightarrow> c \<in> set n \<Longrightarrow> 33 \<le> c \<and> c \<le> 126 \<and> c \<noteq> 58"
  by (auto simp: is_token_def list_all_iff dest!: token_char_range)

lemma header_value_chars: "header_value_ok v \<Longrightarrow> c \<in> set v \<Longrightarrow> c < 256 \<and> c \<noteq> 13 \<and> c \<noteq> 10"
  by (fastforce simp: header_value_ok_def list_all_iff)

lemma set_rstrip_with: "c \<in> set (rstrip_with p s) \<Longrightarrow> c \<in> set s"
  by (auto simp: rstrip_with_def dest: set_dropWhileD)

lemma rstrip_with_not_Nil: "c \<in> set s \<Longrightarrow> \<not> p c \<Longrightarrow> rstrip_with p s \<noteq> []"
  by (auto simp: rstrip_with_def)

lemma reason_of_chars: "c \<in> set (reason_of st) \<Longrightarrow> 32 \<le> c \<and> c \<le> 126"
proof (cases "map_of reasons st")
  case None
  moreover assume "c \<in> set (reason_of st)"
  ultimately show ?thesis by (simp add: reason_of_def)
next
  case (Some r)
  moreover assume "c \<in> set (reason_of st)"
  ultimately have "(st, r) \<in> set reasons" and c: "c \<in> set r"
    by (auto simp: reason_of_def dest: map_of_SomeD)
  moreover have "\<forall>(k, r) \<in> set reasons. \<forall>c \<in> set r. 32 \<le> c \<and> c \<le> 126"
    by (simp add: reasons_def py_text)
  ultimately show ?thesis by auto
qed

lemma int_str_chars: "c \<in> set (int_str i) \<Longrightarrow> 45 \<le> c \<and> c \<le> 57"
  using nat_str_elem by (fastforce simp: int_str_def split: if_splits)

lemma status_line_chars: "c \<in> set (status_line st) \<Longrightarrow> 32 \<le> c \<and> c \<le> 126"
  unfolding status_line_def
  by (drule set_rstrip_with) (auto simp: py_text dest!: reason_of_chars int_str_chars)

lemma status_line_not_Nil [simp]: "status_line st \<noteq> []"
  unfolding status_line_def by (rule rstrip_with_not_Nil [of 72]) (auto simp: py_space_def py_text)

text \<open>Every line of a response head is non-empty Latin-1 text without a line break.\<close>

definition clean_line :: "pystr \<Rightarrow> bool" where
  "clean_line l = (l \<noteq> [] \<and> (\<forall>c \<in> set l. c < 256 \<and> c \<noteq> 13 \<and> c \<noteq> 10))"

lemma clean_status_line: "clean_line (status_line st)"
  using status_line_chars by (fastforce simp: clean_line_def)

lemma clean_header_line:
  "is_token (fst e) \<Longrightarrow> header_value_ok (snd e) \<Longrightarrow> clean_line (header_line e)"
  by (auto simp: clean_line_def header_line_def py_text dest: is_token_chars header_value_chars)

lemma clean_content_length: "clean_line (lit ''Content-Length: '' @ nat_str n)"
  using nat_str_elem by (fastforce simp: clean_line_def py_text)

lemma response_lines_clean:
  assumes "headers_wf (resp_headers r)"
  shows "\<forall>l \<in> set (response_lines r). clean_line l"
  using assms
  by (auto simp: response_lines_def clean_status_line clean_content_length
      intro!: clean_header_line dest: headers_wf_item)

lemma response_lines_not_Nil [simp]: "response_lines r \<noteq> []"
  by (simp add: response_lines_def)

lemma join_clean:
  "\<forall>l \<in> set ls. clean_line l \<Longrightarrow> list_all (\<lambda>c. c < 256) (join_with crlf ls)"
  by (induction ls) (auto simp: clean_line_def crlf_def join_with_def list_all_iff split: list.splits)

lemma to_http1_eq:
  assumes "headers_wf (resp_headers r)"
  shows "to_http1 r = Inr (map of_nat (join_with crlf (response_lines r)) @ [13, 10, 13, 10] @ resp_body r)"
proof -
  have "list_all (\<lambda>c. c < 256) (join_with crlf (response_lines r) @ crlf @ crlf)"
    using join_clean [OF response_lines_clean [OF assms]] by (simp add: crlf_def)
  then show ?thesis
    by (simp add: to_http1_def latin1_encode_def crlf_def)
qed

lemma inj_unat_byte: "inj (unat :: byte \<Rightarrow> nat)"
  by (rule inj_unsigned)

lemma find_marker_bytes:
  "find_sub [13, 10, 13, 10] (w :: bytes) = find_sub [13, 10, 13, 10] (latin1_decode w)"
  using find_sub_map_inj [OF inj_unat_byte, of "[13, 10, 13, 10]" w] by (simp add: latin1_decode_def)

lemma head_of_clean_lines:
  assumes ls: "ls \<noteq> []" "\<forall>l \<in> set ls. clean_line l"
    and w: "w = map of_nat (join_with crlf ls) @ [13, 10, 13, 10] @ body"
  shows "find_sub [13, 10, 13, 10] w = Some (length (join_with crlf ls))"
    and "split_crlf (latin1_decode (take (length (join_with crlf ls)) w)) = ls"
    and "drop (length (join_with crlf ls) + 4) w = body"
proof -
  have dec: "latin1_decode (map of_nat (join_with crlf ls)) = join_with crlf ls"
    using join_clean [OF ls(2)] by (rule latin1_decode_of_nat)
  have cr: "\<forall>l \<in> set ls. 13 \<notin> set l \<and> l \<noteq> []"
    using ls(2) by (auto simp: clean_line_def)
  have "latin1_decode w = join_with crlf ls @ [13, 10, 13, 10] @ latin1_decode body"
    using dec by (simp add: w) (simp add: latin1_decode_def)
  with find_sub_marker [OF ls(1) cr] show "find_sub [13, 10, 13, 10] w = Some (length (join_with crlf ls))"
    by (simp add: find_marker_bytes crlf_def)
  show "split_crlf (latin1_decode (take (length (join_with crlf ls)) w)) = ls"
    using dec cr split_crlf_join [OF ls(1)] by (simp add: w crlf_def)
  show "drop (length (join_with crlf ls) + 4) w = body"
    by (simp add: w)
qed


text \<open>The name of a header line, as a client reads it.\<close>

definition line_name :: "pystr \<Rightarrow> pystr" where
  "line_name l = py_lower (fst (partition_at 58 l))"

lemma line_name_header_line: "is_token n \<Longrightarrow> line_name (header_line (n, v)) = py_lower n"
proof -
  assume "is_token n"
  then have "58 \<notin> set n" by (auto dest: is_token_chars)
  then have "partition_at 58 (n @ 58 # 32 # v) = (n, True, 32 # v)" by (rule partition_at_append)
  then show ?thesis by (simp add: line_name_def header_line_def py_text)
qed

lemma filter_named_lines:
  assumes wf: "headers_wf h"
  shows "filter (\<lambda>l. line_name l = name) (map header_line (headers_items h))
      = map header_line (filter (\<lambda>e. py_lower (fst e) = name) (headers_items h))"
  using headers_wf_item [OF wf]
  by (auto simp: filter_map comp_def line_name_header_line intro!: arg_cong [of _ _ "map header_line"] filter_cong)

lemma headers_wf_distinct_names:
  "headers_wf h \<Longrightarrow> distinct (map (\<lambda>e. py_lower (fst e)) (headers_items h))"
  using headers_wf_init headers_init_Inr_iff by blast

lemma filter_distinct_le_1: "distinct (map f xs) \<Longrightarrow> length (filter (\<lambda>x. f x = y) xs) \<le> 1"
proof (induction xs)
  case (Cons x xs)
  show ?case
  proof (cases "f x = y")
    case True
    with Cons.prems have "y \<notin> f ` set xs" by simp
    then have "filter (\<lambda>x. f x = y) xs = []" by (auto simp: filter_empty_conv)
    with True show ?thesis by simp
  qed (use Cons in simp)
qed simp

lemma named_line_unique:
  assumes wf: "headers_wf h" and low: "py_lower name = name"
  shows "case headers_get h name of
      None \<Rightarrow> filter (\<lambda>l. line_name l = name) (map header_line (headers_items h)) = []
    | Some v \<Rightarrow> \<exists>n. filter (\<lambda>l. line_name l = name) (map header_line (headers_items h))
        = [header_line (n, v)] \<and> py_lower n = name"
proof (cases "headers_get h name")
  case None
  then have "\<forall>e \<in> set (headers_items h). py_lower (fst e) \<noteq> name"
    using headers_get_None_iff [OF wf, of name] low by auto
  with None show ?thesis by (simp add: filter_named_lines [OF wf] filter_empty_conv)
next
  case (Some v)
  let ?es = "filter (\<lambda>e. py_lower (fst e) = name) (headers_items h)"
  have "length ?es \<le> 1"
    by (rule filter_distinct_le_1 [OF headers_wf_distinct_names [OF wf]])
  moreover obtain n where n: "(n, v) \<in> set ?es"
    using Some headers_get_Some_iff [OF wf, of name] low by auto
  ultimately have "?es = [(n, v)]"
    by (cases ?es) auto
  moreover from n have "py_lower n = name" by simp
  ultimately show ?thesis
    using Some by (auto simp: filter_named_lines [OF wf] intro!: exI [of _ n])
qed

section \<open>The contract of the value objects\<close>

text \<open>\<open>Headers\<close> construction: a list of pairs is accepted exactly when every name is a token,
  every value is free of control characters and inside Latin-1, and no two names differ in case
  only; the headers then list the pairs as given, and lookup finds a value under any spelling of
  its name.\<close>

theorem headers_init_correct:
  "(\<exists>h. headers_init items = Inr h) =
     (list_all (\<lambda>(n, v). is_token n \<and> header_value_ok v) items \<and>
      distinct (map (\<lambda>e. py_lower (fst e)) items))
   \<and> (case headers_init items of
        Inl e \<Rightarrow> \<exists>m. e = ValueError m
      | Inr h \<Rightarrow> headers_items h = items \<and>
          (\<forall>name v. headers_get h name = Some v \<longleftrightarrow> (\<exists>n. (n, v) \<in> set items \<and> py_lower n = py_lower name)))"
proof (intro conjI)
  show "(\<exists>h. headers_init items = Inr h) =
     (list_all (\<lambda>(n, v). is_token n \<and> header_value_ok v) items \<and>
      distinct (map (\<lambda>e. py_lower (fst e)) items))"
    by (simp add: headers_init_Inr_iff)
  show "case headers_init items of
        Inl e \<Rightarrow> \<exists>m. e = ValueError m
      | Inr h \<Rightarrow> headers_items h = items \<and>
          (\<forall>name v. headers_get h name = Some v \<longleftrightarrow> (\<exists>n. (n, v) \<in> set items \<and> py_lower n = py_lower name))"
    using headers_init_items headers_init_wf headers_get_Some_iff headers_init_Inl
    by (fastforce split: sum.splits)
qed

text \<open>C12. A response cannot be split by its headers or its body: it serialises without error, the
  first blank line of the output is the one that ends the head, cutting the head at CR LF gives
  back the status line and the header lines one by one, and what follows the blank line is the
  body.\<close>

theorem to_http1_framing:
  assumes "response_wf r"
  shows "\<exists>w n. to_http1 r = Inr w \<and> find_sub [13, 10, 13, 10] w = Some n \<and>
    split_crlf (latin1_decode (take n w)) = response_lines r \<and> drop (n + 4) w = resp_body r"
proof -
  from assms have wf: "headers_wf (resp_headers r)" by (simp add: response_wf_def)
  note head = head_of_clean_lines [OF response_lines_not_Nil response_lines_clean [OF wf] refl]
  from to_http1_eq [OF wf] head [of "resp_body r"] show ?thesis by blast
qed

definition sample_response :: response where
  "sample_response = \<lparr>resp_status = 200, resp_body = [104, 105],
     resp_headers = [(lit ''x-a'', lit ''X-A'', lit ''b'')]\<rparr>"

lemma sample_response_wf: "response_wf sample_response"
  by (simp add: sample_response_def response_wf_def headers_wf_def content_length_ok_def headers_get_def
      is_token_def header_value_ok_def token_char_def py_lower_def lower1_def py_text)

theorem to_http1_framing_witness:
  "\<exists>w n. to_http1 sample_response = Inr w \<and> find_sub [13, 10, 13, 10] w = Some n \<and>
    split_crlf (latin1_decode (take n w)) = response_lines sample_response \<and>
    drop (n + 4) w = resp_body sample_response"
  by (rule to_http1_framing [OF sample_response_wf])

text \<open>Every serialised response frames its body: after the status line there is exactly one
  Content-Length line, in whatever case it was written, and its value is the length of the body.\<close>

theorem one_content_length:
  assumes "response_wf r"
  shows "\<exists>l. filter (\<lambda>l. line_name l = lit ''content-length'') (tl (response_lines r)) = [l] \<and>
    snd (snd (partition_at 58 l)) = 32 # nat_str (length (resp_body r))"
proof -
  from assms have wf: "headers_wf (resp_headers r)" and ok: "content_length_ok (resp_headers r) (resp_body r)"
    by (simp_all add: response_wf_def)
  have low: "py_lower (lit ''content-length'') = lit ''content-length''"
    by (simp add: py_lower_def py_text lower1_def)
  have eq: "lit ''Content-Length: '' @ v = header_line (lit ''Content-Length'', v)" for v
    by (simp add: header_line_def py_text)
  have name: "line_name (header_line (n, v)) = py_lower n \<and> snd (snd (partition_at 58 (header_line (n, v)))) = 32 # v"
    if "58 \<notin> set n" for n v
    using partition_at_append [OF that, of "32 # v"] by (simp add: line_name_def header_line_def py_text)
  have cl: "58 \<notin> set (lit ''Content-Length'')" "py_lower (lit ''Content-Length'') = lit ''content-length''"
    by (simp_all add: py_text py_lower_def lower1_def)
  from named_line_unique [OF wf low] show ?thesis
  proof (cases "headers_get (resp_headers r) (lit ''content-length'')")
    case None
    with named_line_unique [OF wf low] cl name [OF cl(1)] show ?thesis
      by (auto simp: response_lines_def eq)
  next
    case (Some v)
    with ok have v: "v = nat_str (length (resp_body r))" by (simp add: content_length_ok_def)
    from Some named_line_unique [OF wf low] obtain n where
      f: "filter (\<lambda>l. line_name l = lit ''content-length'') (map header_line (headers_items (resp_headers r)))
          = [header_line (n, v)]" and n: "py_lower n = lit ''content-length''" by auto
    have "58 \<notin> set n"
    proof
      assume "58 \<in> set n"
      then have "lower1 58 \<in> set (py_lower n)" unfolding py_lower_def set_map by (rule imageI)
      then show False by (simp add: n py_text)
    qed
    from name [OF this, of v] f Some v show ?thesis
      by (auto simp: response_lines_def)
  qed
qed

theorem one_content_length_witness:
  "\<exists>l. filter (\<lambda>l. line_name l = lit ''content-length'') (tl (response_lines sample_response)) = [l] \<and>
    snd (snd (partition_at 58 l)) = 32 # nat_str (length (resp_body sample_response))"
  by (rule one_content_length [OF sample_response_wf])

text \<open>\<open>Response.text\<close> compares header names with case when it supplies its default: a caller who
  passes a \<open>content-type\<close> header in lower case gets a duplicate-header ValueError and no response,
  though header names are case-insensitive everywhere else.\<close>

theorem text_rejects_lowercase_content_type:
  "response_text (lit ''hi'') 200 [(lit ''content-type'', lit ''text/html'')] =
     Inl (ValueError (lit ''duplicate HTTP header: Content-Type''))
   \<and> (\<exists>r. response_text (lit ''hi'') 200 [(lit ''Content-Type'', lit ''text/html'')] = Inr r)"
  by (simp add: response_text_def dict_setdefault_def headers_init_def is_token_def token_char_def
      header_value_ok_def py_lower_def lower1_def py_text utf8_char_def response_init_def
      content_length_ok_def headers_get_def)

end
