(* ===== verification/Incremental.thy ===== *)
theory Incremental
  imports SS_Prelude
begin

text \<open>
  The interface between a connection loop and an incremental reader. A TCP stream arrives in
  chunks whose boundaries mean nothing; the loop feeds each chunk to a reader that keeps its own
  buffer and answers with an error, a finished result, or \<open>None\<close> (more input needed). The HTTP/1.1
  request parser, the HTTP/2 frame splitter and the WebSocket frame guard are such readers.

  The locale states what makes the boundaries irrelevant, one chunk at a time, and proves once that
  the verdict on a stream depends on its bytes only. Every reader of the program interprets it.
\<close>

text \<open>The loop: feed chunk after chunk until the reader fails or finishes.\<close>

fun run_chunks :: "('s \<Rightarrow> 'b list \<Rightarrow> ('e + 'r option) \<times> 's) \<Rightarrow> 's \<Rightarrow> 'b list list \<Rightarrow> ('e + 'r option) \<times> 's" where
  "run_chunks feed s [] = (Inr None, s)"
| "run_chunks feed s (c # cs) =
     (case feed s c of
        (Inr None, s') \<Rightarrow> run_chunks feed s' cs
      | result \<Rightarrow> result)"

lemma run_chunks_Cons_None:
  "feed s c = (Inr None, s') \<Longrightarrow> run_chunks feed s (c # cs) = run_chunks feed s' cs"
  by simp

lemma run_chunks_Cons_done:
  "feed s c = (v, s') \<Longrightarrow> v \<noteq> Inr None \<Longrightarrow> run_chunks feed s (c # cs) = (v, s')"
  by (auto split: sum.splits option.splits)

locale incremental_reader =
  fixes feed :: "'s \<Rightarrow> 'b list \<Rightarrow> ('e + 'r option) \<times> 's"
    and pending :: "'s \<Rightarrow> bool"
  assumes feed_nothing: "pending s \<Longrightarrow> feed s [] = (Inr None, s)"
    and feed_pending: "pending s \<Longrightarrow> feed s xs = (Inr None, s') \<Longrightarrow> pending s'"
    and feed_more: "pending s \<Longrightarrow> feed s xs = (Inr None, s') \<Longrightarrow>
      fst (feed s (xs @ ys)) = fst (feed s' ys) \<and> (fst (feed s' ys) = Inr None \<longrightarrow> feed s (xs @ ys) = feed s' ys)"
    and feed_verdict: "pending s \<Longrightarrow> feed s xs = (v, s') \<Longrightarrow> v \<noteq> Inr None \<Longrightarrow> fst (feed s (xs @ ys)) = v"
begin

lemma run_chunks_verdict:
  "pending s \<Longrightarrow> fst (run_chunks feed s cs) = fst (feed s (concat cs))"
proof (induction cs arbitrary: s)
  case Nil
  then show ?case by (simp add: feed_nothing)
next
  case (Cons c cs)
  obtain v s' where fc: "feed s c = (v, s')" by (cases "feed s c")
  show ?case
  proof (cases "v = Inr None")
    case True
    with fc Cons.prems have "pending s'" and more: "fst (feed s (c @ concat cs)) = fst (feed s' (concat cs))"
      using feed_pending feed_more by blast+
    with Cons.IH fc True show ?thesis by simp
  next
    case False
    with fc Cons.prems show ?thesis
      by (simp add: run_chunks_Cons_done feed_verdict del: run_chunks.simps)
  qed
qed

lemma run_chunks_undecided:
  "pending s \<Longrightarrow> fst (run_chunks feed s cs) = Inr None \<Longrightarrow> run_chunks feed s cs = feed s (concat cs)"
proof (induction cs arbitrary: s)
  case Nil
  then show ?case by (simp add: feed_nothing)
next
  case (Cons c cs)
  obtain v s' where fc: "feed s c = (v, s')" by (cases "feed s c")
  with Cons.prems have "v = Inr None"
    by (cases "v = Inr None") (auto simp: run_chunks_Cons_done simp del: run_chunks.simps)
  with fc Cons.prems have "pending s'" using feed_pending by blast
  moreover have "fst (run_chunks feed s' cs) = Inr None"
    using Cons.prems(2) fc \<open>v = Inr None\<close> by simp
  ultimately have rest: "run_chunks feed s' cs = feed s' (concat cs)" "fst (feed s' (concat cs)) = Inr None"
    using Cons.IH by auto
  with feed_more [OF Cons.prems(1), of c s' "concat cs"] fc \<open>v = Inr None\<close> show ?case by simp
qed

lemma segmentation_irrelevant:
  "pending s \<Longrightarrow> concat cs = concat ds \<Longrightarrow> fst (run_chunks feed s cs) = fst (run_chunks feed s ds)"
  by (simp add: run_chunks_verdict)

end


section \<open>Readers that are bytewise in disguise\<close>

text \<open>A splitter that works on whole chunks, with slices and inner loops, is right when it computes what a
  machine with one step per byte computes. \<open>steps\<close> runs such a machine; its output is a list.\<close>

fun steps :: "('g \<Rightarrow> 'b \<Rightarrow> 'e + 'g \<times> 'o list) \<Rightarrow> 'g \<Rightarrow> 'b list \<Rightarrow> 'e + 'g \<times> 'o list" where
  "steps step g [] = Inr (g, [])"
| "steps step g (b # bs) =
     bind_sum (step g b) (\<lambda>(g1, out1). bind_sum (steps step g1 bs) (\<lambda>(g2, out2). Inr (g2, out1 @ out2)))"

lemma steps_append:
  "steps step g (xs @ ys) =
     bind_sum (steps step g xs) (\<lambda>(g1, out1). bind_sum (steps step g1 ys) (\<lambda>(g2, out2). Inr (g2, out1 @ out2)))"
proof (induction xs arbitrary: g)
  case Nil
  show ?case by (cases "steps step g ys") auto
next
  case (Cons x xs)
  show ?case
    by (cases "step g x") (auto simp: Cons.IH bind_sum_assoc case_prod_unfold)
qed

text \<open>The reader loop keeps what the splitter has put out so far.\<close>

definition collect_stream ::
  "('g \<Rightarrow> 'b list \<Rightarrow> 'e + 'g \<times> 'o list) \<Rightarrow> 'g \<times> 'o list \<Rightarrow> 'b list \<Rightarrow> ('e + unit option) \<times> 'g \<times> 'o list" where
  "collect_stream stream s bs =
     (case stream (fst s) bs of
        Inl e \<Rightarrow> (Inl e, s)
      | Inr (g, out) \<Rightarrow> (Inr None, (g, snd s @ out)))"

locale bytewise_reader =
  fixes step :: "'g \<Rightarrow> 'b \<Rightarrow> 'e + 'g \<times> 'o list"
    and stream :: "'g \<Rightarrow> 'b list \<Rightarrow> 'e + 'g \<times> 'o list"
    and wf :: "'g \<Rightarrow> bool"
  assumes stream_steps: "wf g \<Longrightarrow> stream g bs = steps step g bs"
    and wf_step: "wf g \<Longrightarrow> step g b = Inr (g', out) \<Longrightarrow> wf g'"
begin

lemma wf_stream: "wf g \<Longrightarrow> stream g bs = Inr (g', out) \<Longrightarrow> wf g'"
proof (induction bs arbitrary: g g' out)
  case Nil
  then show ?case by (simp add: stream_steps)
next
  case (Cons b bs)
  from Cons.prems obtain g1 o1 o2 where "step g b = Inr (g1, o1)" "steps step g1 bs = Inr (g', o2)"
    by (auto simp: stream_steps bind_sum_Inr_iff)
  with Cons.IH Cons.prems(1) wf_step stream_steps show ?case by metis
qed

lemma stream_append:
  "wf g \<Longrightarrow> stream g (xs @ ys) =
     bind_sum (stream g xs) (\<lambda>(g1, out1). bind_sum (stream g1 ys) (\<lambda>(g2, out2). Inr (g2, out1 @ out2)))"
proof -
  assume wf: "wf g"
  show ?thesis
  proof (cases "stream g xs")
    case (Inl e)
    with wf show ?thesis by (simp add: stream_steps steps_append)
  next
    case (Inr r)
    obtain g1 out1 where r: "r = (g1, out1)" by (cases r)
    with wf Inr wf_stream have "wf g1" by blast
    with wf Inr r show ?thesis by (simp add: stream_steps steps_append)
  qed
qed

lemma stream_output_induct:
  assumes wf: "wf g" and run: "stream g bs = Inr (g', out)" and start: "P g []"
    and step: "\<And>g1 b g2 o1 o2. wf g1 \<Longrightarrow> P g1 o1 \<Longrightarrow> step g1 b = Inr (g2, o2) \<Longrightarrow> P g2 (o1 @ o2)"
  shows "P g' out"
  using run
proof (induction bs arbitrary: g' out rule: rev_induct)
  case Nil
  with wf start show ?case by (simp add: stream_steps)
next
  case (snoc b bs)
  from snoc.prems wf obtain g1 o1 o2 where one: "stream g bs = Inr (g1, o1)"
    and "stream g1 [b] = Inr (g', o2)" and out: "out = o1 @ o2"
    by (auto simp: stream_append bind_sum_Inr_iff)
  moreover have "wf g1" using wf one by (rule wf_stream)
  ultimately have "step g1 b = Inr (g', o2)" by (auto simp: stream_steps bind_sum_Inr_iff)
  with step [OF \<open>wf g1\<close> snoc.IH [OF one]] out show ?case by simp
qed

end

sublocale bytewise_reader \<subseteq> reader: incremental_reader "collect_stream stream" "\<lambda>s. wf (fst s)"
proof unfold_locales
  fix s :: "'g \<times> 'o list" assume "wf (fst s)"
  then show "collect_stream stream s [] = (Inr None, s)"
    by (simp add: collect_stream_def stream_steps)
next
  fix s xs s' assume "wf (fst s)" "collect_stream stream s xs = (Inr None, s')"
  then show "wf (fst s')"
    by (auto simp: collect_stream_def split: sum.splits dest: wf_stream)
next
  fix s xs s' ys assume "wf (fst s)" "collect_stream stream s xs = (Inr None, s')"
  then show "fst (collect_stream stream s (xs @ ys)) = fst (collect_stream stream s' ys) \<and>
      (fst (collect_stream stream s' ys) = Inr None \<longrightarrow> collect_stream stream s (xs @ ys) = collect_stream stream s' ys)"
    by (auto simp: collect_stream_def stream_append bind_sum_def split: sum.splits)
next
  fix s xs v s' ys assume "wf (fst s)" "collect_stream stream s xs = (v, s')" "v \<noteq> Inr None"
  then show "fst (collect_stream stream s (xs @ ys)) = v"
    by (auto simp: collect_stream_def stream_append bind_sum_def split: sum.splits)
qed

end
