(* ===== verification/Http1_Parser.thy ===== *)
theory Http1_Parser
  imports Http_Values Incremental
begin

text \<open>
  \<open>HTTPRequestParser\<close> of \<open>smallserver/server.py\<close>: one bounded HTTP/1.1 request, parsed from chunks
  as they arrive. \<open>h1_feed\<close> returns what the method returns or raises, together with the parser
  object after the call (a call that raises has already extended the buffer).

  The lemmas show what an accepted request satisfies, that every request the grammar and the limits
  allow is accepted and read back exactly, and that the verdict does not depend on how the
  connection cut the bytes into chunks.
\<close>

section \<open>The parser object\<close>

text \<open>Content-Length, the number of header lines and so on are compared with configured limits,
  which are Python integers. \<open>HTTPParseError\<close> carries the status of the response the server sends;
  \<open>Escaped\<close> is any other exception, which the connection loop does not turn into a response.\<close>

datatype parse_error = HTTPParseError int pystr | Escaped py_error

type_synonym request_head = "pystr \<times> pystr \<times> headers \<times> nat"

record h1_parser =
  hp_max_header_bytes :: int
  hp_max_header_count :: int
  hp_max_body_bytes :: int
  hp_max_target_bytes :: int
  hp_preserve_trailing :: bool
  hp_buffer :: bytes
  hp_head :: "request_head option"
  hp_trailing :: bytes

definition h1_init :: "int \<Rightarrow> int \<Rightarrow> int \<Rightarrow> int \<Rightarrow> bool \<Rightarrow> h1_parser" where
  "h1_init header_bytes header_count body_bytes target_bytes preserve =
     \<lparr>hp_max_header_bytes = header_bytes, hp_max_header_count = header_count,
      hp_max_body_bytes = body_bytes, hp_max_target_bytes = target_bytes,
      hp_preserve_trailing = preserve, hp_buffer = [], hp_head = None, hp_trailing = []\<rparr>"

lemma h1_init_fields [simp]:
  "hp_max_header_bytes (h1_init hb hc bb tb pt) = hb"
  "hp_buffer (h1_init hb hc bb tb pt) = []"
  "hp_head (h1_init hb hc bb tb pt) = None"
  by (simp_all add: h1_init_def)

section \<open>The head of a request\<close>

definition blank :: "nat \<Rightarrow> bool" where
  "blank c = (c = 32 \<or> c = 9)"

text \<open>The loop over the header lines: the (name, value) pairs and the Content-Length values.\<close>

fun header_pairs ::
  "pystr list \<Rightarrow> (pystr \<times> pystr) list \<Rightarrow> pystr list \<Rightarrow> parse_error + ((pystr \<times> pystr) list \<times> pystr list)" where
  "header_pairs [] pairs lengths = Inr (pairs, lengths)"
| "header_pairs (l # ls) pairs lengths =
     (case partition_at 58 l of
        (name, colon, after) \<Rightarrow>
          if \<not> colon then Inl (HTTPParseError 400 (lit ''malformed request header''))
          else
            let v = strip_with blank after
            in if py_lower name = lit ''transfer-encoding''
               then Inl (HTTPParseError 400 (lit ''transfer-encoding is not supported''))
               else header_pairs ls (pairs @ [(name, v)])
                      (if py_lower name = lit ''content-length'' then lengths @ [v] else lengths))"

definition target_char :: "nat \<Rightarrow> bool" where
  "target_char c = (33 \<le> c \<and> c \<le> 126)"

definition content_length_value :: "int \<Rightarrow> pystr list \<Rightarrow> parse_error + nat" where
  "content_length_value max_body lengths =
     (case lengths of
        [] \<Rightarrow> Inr 0
      | v # _ \<Rightarrow>
          if \<not> is_ascii_decimal v then Inl (HTTPParseError 400 (lit ''invalid content-length''))
          else (case py_int v of
                  Inl e \<Rightarrow> Inl (Escaped e)
                | Inr n \<Rightarrow> if int n > max_body
                          then Inl (HTTPParseError 413 (lit ''request body is too large''))
                          else Inr n))"

definition parse_head :: "h1_parser \<Rightarrow> bytes \<Rightarrow> parse_error + request_head" where
  "parse_head p raw =
     (case split_crlf (latin1_decode raw) of
        [] \<Rightarrow> Inl (HTTPParseError 400 (lit ''malformed request line''))
      | line # lines \<Rightarrow>
          (case split_on 32 line of
             [method, raw_target, version] \<Rightarrow>
               if version \<noteq> lit ''HTTP/1.1'' \<or> \<not> starts_with (lit ''/'') raw_target
               then Inl (HTTPParseError 400 (lit ''only origin-form HTTP/1.1 requests are supported''))
               else if int (length raw_target) > hp_max_target_bytes p
               then Inl (HTTPParseError 414 (lit ''request target is too large''))
               else if 35 \<in> set raw_target \<or> \<not> list_all target_char raw_target
               then Inl (HTTPParseError 400 (lit ''request target is not valid origin-form''))
               else if int (length lines) > hp_max_header_count p
               then Inl (HTTPParseError 413 (lit ''too many request headers''))
               else bind_sum (header_pairs lines [] []) (\<lambda>(pairs, lengths).
                 if length lengths > 1
                 then Inl (HTTPParseError 400 (lit ''multiple content-length headers are not supported''))
                 else (case headers_init pairs of
                         Inl (ValueError msg) \<Rightarrow> Inl (HTTPParseError 400 msg)
                       | Inl e \<Rightarrow> Inl (Escaped e)
                       | Inr headers \<Rightarrow>
                           bind_sum (content_length_value (hp_max_body_bytes p) lengths) (\<lambda>n.
                             if headers_get headers (lit ''host'') = None \<or>
                                headers_get headers (lit ''host'') = Some []
                             then Inl (HTTPParseError 400 (lit ''HTTP/1.1 requests require a Host header''))
                             else Inr (method, raw_target, headers, n))))
           | _ \<Rightarrow> Inl (HTTPParseError 400 (lit ''malformed request line''))))"

section \<open>Feeding chunks\<close>

definition feed_body :: "h1_parser \<Rightarrow> request_head \<Rightarrow> (parse_error + request option) \<times> h1_parser" where
  "feed_body p rh =
     (case rh of (method, raw_target, headers, n) \<Rightarrow>
        if length (hp_buffer p) > n \<and> \<not> hp_preserve_trailing p
        then (Inl (HTTPParseError 400 (lit ''pipelined requests are not supported'')), p)
        else if length (hp_buffer p) < n then (Inr None, p)
        else
          (case partition_at 63 raw_target of (path, separator, query) \<Rightarrow>
             let p' = p\<lparr>hp_trailing := drop n (hp_buffer p)\<rparr>
             in case request_init method path headers (take n (hp_buffer p)) (lit ''HTTP/1.1'')
                       (Some raw_target) (if separator then query else []) [] None of
                  Inr r \<Rightarrow> (Inr (Some r), p')
                | Inl (ValueError msg) \<Rightarrow> (Inl (HTTPParseError 400 msg), p')
                | Inl e \<Rightarrow> (Inl (Escaped e), p')))"

definition h1_feed :: "h1_parser \<Rightarrow> bytes \<Rightarrow> (parse_error + request option) \<times> h1_parser" where
  "h1_feed p0 data =
     (let p = p0\<lparr>hp_buffer := hp_buffer p0 @ data\<rparr>
      in case hp_head p of
           Some rh \<Rightarrow> feed_body p rh
         | None \<Rightarrow>
             (case find_sub [13, 10, 13, 10] (hp_buffer p) of
                None \<Rightarrow>
                  if int (length (hp_buffer p)) > hp_max_header_bytes p
                  then (Inl (HTTPParseError 413 (lit ''request headers are too large'')), p)
                  else (Inr None, p)
              | Some marker \<Rightarrow>
                  if int (marker + 4) > hp_max_header_bytes p
                  then (Inl (HTTPParseError 413 (lit ''request headers are too large'')), p)
                  else (case parse_head p (take marker (hp_buffer p)) of
                          Inl e \<Rightarrow> (Inl e, p)
                        | Inr rh \<Rightarrow>
                            feed_body (p\<lparr>hp_head := Some rh,
                              hp_buffer := drop (marker + 4) (hp_buffer p)\<rparr>) rh)))"


section \<open>Chunk boundaries do not matter\<close>

text \<open>A parser that waits for more input: it has not seen the blank line and is below the header
  limit, or it has the head and not yet the whole body.\<close>

definition h1_pending :: "h1_parser \<Rightarrow> bool" where
  "h1_pending p = (hp_preserve_trailing p \<and>
     (case hp_head p of
        None \<Rightarrow> find_sub [13, 10, 13, 10] (hp_buffer p) = None \<and>
                int (length (hp_buffer p)) \<le> hp_max_header_bytes p
      | Some (m, t, h, n) \<Rightarrow> length (hp_buffer p) < n))"

lemma h1_pending_init: "0 \<le> hb \<Longrightarrow> h1_pending (h1_init hb hc bb tb True)"
  by (simp add: h1_pending_def h1_init_def)

lemma feed_body_short: "length (hp_buffer p) < n \<Longrightarrow> feed_body p (m, t, h, n) = (Inr None, p)"
  by (simp add: feed_body_def)

lemma feed_body_full:
  assumes "hp_preserve_trailing p" and "n \<le> length (hp_buffer p)"
  shows "fst (feed_body (p\<lparr>hp_buffer := hp_buffer p @ ys\<rparr>) (m, t, h, n)) = fst (feed_body p (m, t, h, n))"
    and "fst (feed_body p (m, t, h, n)) \<noteq> Inr None"
  using assms by (auto simp: feed_body_def Let_def split: prod.splits sum.splits py_error.splits)

lemma feed_body_None_iff:
  "hp_preserve_trailing p \<Longrightarrow>
     feed_body p (m, t, h, n) = (Inr None, p') \<longleftrightarrow> length (hp_buffer p) < n \<and> p' = p"
  using feed_body_full(2) [of p n m t h] feed_body_short [of p n m t h]
  by (cases "length (hp_buffer p) < n") auto

lemma parse_head_cong:
  assumes "hp_max_target_bytes p = hp_max_target_bytes q"
    and "hp_max_header_count p = hp_max_header_count q"
    and "hp_max_body_bytes p = hp_max_body_bytes q"
  shows "parse_head p raw = parse_head q raw"
  unfolding parse_head_def assms by (rule refl)

lemma parse_head_buffer [simp]: "parse_head (p\<lparr>hp_buffer := b\<rparr>) raw = parse_head p raw"
  by (rule parse_head_cong) simp_all

lemma h1_feed_nothing: "h1_pending p \<Longrightarrow> h1_feed p [] = (Inr None, p)"
  by (auto simp: h1_feed_def h1_pending_def Let_def feed_body_short split: option.splits)

lemma h1_feed_pending:
  "h1_pending p \<Longrightarrow> h1_feed p xs = (Inr None, p') \<Longrightarrow> h1_pending p'"
  by (auto simp: h1_feed_def h1_pending_def Let_def feed_body_None_iff
      split: option.splits if_splits sum.splits)

lemma h1_feed_more:
  assumes "h1_pending p" and "h1_feed p xs = (Inr None, p')"
  shows "h1_feed p (xs @ ys) = h1_feed p' ys"
proof (cases "hp_head p")
  case (Some rh)
  with assms show ?thesis
    by (cases rh) (auto simp: h1_feed_def h1_pending_def Let_def feed_body_None_iff)
next
  case None
  show ?thesis
  proof (cases "find_sub [13, 10, 13, 10] (hp_buffer p @ xs)")
    case none: None
    with None assms have "p' = p\<lparr>hp_buffer := hp_buffer p @ xs\<rparr>"
      by (auto simp: h1_feed_def Let_def split: if_splits)
    with None show ?thesis by (simp add: h1_feed_def Let_def)
  next
    case (Some m)
    with find_sub_append_Some [OF Some, of ys] None assms find_sub_bound [OF Some] show ?thesis
      by (auto simp: h1_feed_def h1_pending_def Let_def feed_body_None_iff
          split: if_splits sum.splits)
  qed
qed

lemma h1_feed_verdict:
  assumes pend: "h1_pending p" and feed: "h1_feed p xs = (v, p')" and v: "v \<noteq> Inr None"
  shows "fst (h1_feed p (xs @ ys)) = v"
proof (cases "hp_head p")
  case (Some rh)
  obtain m t h n where rh: "rh = (m, t, h, n)" by (cases rh)
  let ?q = "p\<lparr>hp_buffer := hp_buffer p @ xs\<rparr>"
  from Some feed have fb: "feed_body ?q rh = (v, p')" by (simp add: h1_feed_def Let_def)
  moreover have pres: "hp_preserve_trailing ?q" using pend by (simp add: h1_pending_def)
  ultimately have "n \<le> length (hp_buffer ?q)"
    using v rh feed_body_short [of ?q n m t h] by (cases "length (hp_buffer ?q) < n") auto
  from feed_body_full(1) [OF pres this, of ys m t h] fb Some show ?thesis
    by (simp add: h1_feed_def Let_def rh)
next
  case None
  show ?thesis
  proof (cases "find_sub [13, 10, 13, 10] (hp_buffer p @ xs)")
    case none: None
    with None feed v have v413: "v = Inl (HTTPParseError 413 (lit ''request headers are too large''))"
      and big: "int (length (hp_buffer p @ xs)) > hp_max_header_bytes p"
      by (auto simp: h1_feed_def Let_def split: if_splits)
    show ?thesis
    proof (cases "find_sub [13, 10, 13, 10] ((hp_buffer p @ xs) @ ys)")
      case none': None
      with None v413 big show ?thesis by (simp add: h1_feed_def Let_def)
    next
      case (Some m)
      with find_sub_append_None [OF none Some] None v413 big show ?thesis
        by (simp add: h1_feed_def Let_def)
    qed
  next
    case (Some m)
    let ?q = "\<lambda>rh. p\<lparr>hp_head := Some rh, hp_buffer := drop (m + 4) (hp_buffer p @ xs)\<rparr>"
    have pres: "hp_preserve_trailing (?q rh)" for rh using pend by (simp add: h1_pending_def)
    have full: "fst (feed_body (?q (a, t, h, n)) (a, t, h, n)) \<noteq> Inr None \<Longrightarrow>
        fst (feed_body (?q (a, t, h, n) \<lparr>hp_buffer := hp_buffer (?q (a, t, h, n)) @ ys\<rparr>) (a, t, h, n))
        = fst (feed_body (?q (a, t, h, n)) (a, t, h, n))" for a t h n
      using feed_body_full(1) [OF pres] feed_body_short by (metis fst_conv not_less)
    from find_sub_append_Some [OF Some, of ys] find_sub_bound [OF Some] Some None feed v full
    show ?thesis
      by (auto simp: h1_feed_def Let_def split: if_splits sum.splits)
  qed
qed

interpretation h1: incremental_reader h1_feed h1_pending
  by unfold_locales (auto intro: h1_feed_nothing h1_feed_pending h1_feed_verdict simp: h1_feed_more)


section \<open>What an accepted head says\<close>

definition line_pair :: "pystr \<Rightarrow> pystr \<times> pystr" where
  "line_pair l = (case partition_at 58 l of (name, _, after) \<Rightarrow> (name, strip_with blank after))"

definition is_length_name :: "pystr \<times> pystr \<Rightarrow> bool" where
  "is_length_name e = (py_lower (fst e) = lit ''content-length'')"

definition line_ok :: "pystr \<Rightarrow> bool" where
  "line_ok l = (58 \<in> set l \<and> py_lower (fst (line_pair l)) \<noteq> lit ''transfer-encoding'')"

lemma header_pairs_Inr_iff:
  "header_pairs ls pairs lengths = Inr r \<longleftrightarrow>
     list_all line_ok ls \<and>
     r = (pairs @ map line_pair ls, lengths @ map snd (filter is_length_name (map line_pair ls)))"
proof (induction ls pairs lengths rule: header_pairs.induct)
  case (1 pairs lengths)
  then show ?case by auto
next
  case (2 l ls pairs lengths)
  obtain name colon after where part: "partition_at 58 l = (name, colon, after)"
    by (cases "partition_at 58 l")
  then have colon: "colon \<longleftrightarrow> 58 \<in> set l"
    by (simp add: partition_at_eq)
  show ?case
  proof (cases "colon \<and> py_lower name \<noteq> lit ''transfer-encoding''")
    case True
    with part have "header_pairs (l # ls) pairs lengths
        = header_pairs ls (pairs @ [(name, strip_with blank after)])
            (if py_lower name = lit ''content-length'' then lengths @ [strip_with blank after] else lengths)"
      by (simp add: Let_def)
    moreover from True part colon have "line_ok l" and "line_pair l = (name, strip_with blank after)"
      by (simp_all add: line_ok_def line_pair_def)
    moreover note "2" [OF part [symmetric] refl] True
    ultimately show ?thesis
      by (cases "py_lower name = lit ''content-length''") (auto simp: is_length_name_def)
  next
    case False
    with part colon show ?thesis
      by (auto simp: line_ok_def line_pair_def Let_def)
  qed
qed

lemma header_pairs_Inl: "header_pairs ls pairs lengths = Inl e \<Longrightarrow> \<exists>msg. e = HTTPParseError 400 msg"
  by (induction ls pairs lengths rule: header_pairs.induct)
    (auto simp: Let_def split: if_splits prod.splits)

text \<open>The rules a stored head obeys, in terms of the limits of the parser.\<close>

definition length_header_ok :: "int \<Rightarrow> headers \<Rightarrow> nat \<Rightarrow> bool" where
  "length_header_ok max_body h n =
     (case headers_get h (lit ''content-length'') of
        None \<Rightarrow> n = 0
      | Some v \<Rightarrow> is_ascii_decimal v \<and> length v \<le> max_str_digits \<and> n = digits_value v \<and> int n \<le> max_body)"

definition host_ok :: "headers \<Rightarrow> bool" where
  "host_ok h = (case headers_get h (lit ''host'') of None \<Rightarrow> False | Some v \<Rightarrow> v \<noteq> [])"

definition head_ok :: "h1_parser \<Rightarrow> request_head \<Rightarrow> bool" where
  "head_ok p rh =
     (case rh of (m, t, h, n) \<Rightarrow>
        starts_with (lit ''/'') t \<and> int (length t) \<le> hp_max_target_bytes p \<and>
        35 \<notin> set t \<and> list_all target_char t \<and>
        headers_wf h \<and> int (headers_len h) \<le> hp_max_header_count p \<and>
        headers_get h (lit ''transfer-encoding'') = None \<and>
        length_header_ok (hp_max_body_bytes p) h n \<and> host_ok h)"

lemma content_length_value_Inr_iff:
  "content_length_value mb lengths = Inr n \<longleftrightarrow>
     (case lengths of [] \<Rightarrow> n = 0
      | v # _ \<Rightarrow> is_ascii_decimal v \<and> length v \<le> max_str_digits \<and> n = digits_value v \<and> int n \<le> mb)"
  by (auto simp: content_length_value_def py_int_def split: list.splits)

text \<open>The Content-Length values the loop collects are the ones the headers hold.\<close>

lemma length_values_of_headers:
  assumes init: "headers_init pairs = Inr h"
  shows "map snd (filter is_length_name pairs) =
    (case headers_get h (lit ''content-length'') of None \<Rightarrow> [] | Some v \<Rightarrow> [v])"
proof -
  have wf: "headers_wf h" and items: "headers_items h = pairs"
    using init by (simp_all add: headers_init_wf headers_init_items)
  have distinct: "distinct (map (\<lambda>e. py_lower (fst e)) pairs)"
    using init by (simp add: headers_init_Inr_iff)
  have low: "py_lower (lit ''content-length'') = lit ''content-length''"
    by (simp add: py_lower_def py_text lower1_def)
  show ?thesis
  proof (cases "headers_get h (lit ''content-length'')")
    case None
    then have "filter is_length_name pairs = []"
      using headers_get_None_iff [OF wf] items low
      by (auto simp: is_length_name_def filter_empty_conv)
    with None show ?thesis by simp
  next
    case (Some v)
    then obtain n where nv: "(n, v) \<in> set pairs" and n: "py_lower n = lit ''content-length''"
      using headers_get_Some_iff [OF wf] items low by auto
    then obtain as bs where pairs: "pairs = as @ (n, v) # bs"
      by (auto simp: in_set_conv_decomp)
    with distinct n have "filter is_length_name as = []" "filter is_length_name bs = []"
      by (auto simp: is_length_name_def filter_empty_conv image_iff)
    with pairs n Some show ?thesis by (simp add: is_length_name_def)
  qed
qed

text \<open>Exactly which heads are accepted.\<close>

lemma parse_head_Inr_iff:
  "parse_head p raw = Inr (m, t, h, n) \<longleftrightarrow>
     (\<exists>line lines. split_crlf (latin1_decode raw) = line # lines \<and>
        split_on 32 line = [m, t, lit ''HTTP/1.1''] \<and> starts_with (lit ''/'') t \<and>
        int (length t) \<le> hp_max_target_bytes p \<and> 35 \<notin> set t \<and> list_all target_char t \<and>
        int (length lines) \<le> hp_max_header_count p \<and>
        list_all line_ok lines \<and> headers_init (map line_pair lines) = Inr h \<and>
        length_header_ok (hp_max_body_bytes p) h n \<and> host_ok h)"
  (is "?L \<longleftrightarrow> ?R")
proof -
  have len: "headers_init (map line_pair lines) = Inr h \<Longrightarrow>
      length_header_ok (hp_max_body_bytes p) h n \<longleftrightarrow>
        length (map snd (filter is_length_name (map line_pair lines))) \<le> 1 \<and>
        content_length_value (hp_max_body_bytes p) (map snd (filter is_length_name (map line_pair lines))) = Inr n"
    for lines
    by (auto simp: length_values_of_headers length_header_ok_def content_length_value_Inr_iff
        split: option.splits)
  show ?thesis
  proof
    assume ?L
    then obtain line lines where sp: "split_crlf (latin1_decode raw) = line # lines"
      and "split_on 32 line = [m, t, lit ''HTTP/1.1'']" "starts_with (lit ''/'') t"
        "int (length t) \<le> hp_max_target_bytes p" "35 \<notin> set t" "list_all target_char t"
        "int (length lines) \<le> hp_max_header_count p" "list_all line_ok lines"
      and init: "headers_init (map line_pair lines) = Inr h"
      and cl: "length (map snd (filter is_length_name (map line_pair lines))) \<le> 1"
        "content_length_value (hp_max_body_bytes p) (map snd (filter is_length_name (map line_pair lines))) = Inr n"
      and "host_ok h"
      by (auto simp: parse_head_def bind_sum_Inr_iff header_pairs_Inr_iff host_ok_def
          split: list.splits if_splits sum.splits py_error.splits option.splits)
    with len show ?R by blast
  next
    assume ?R
    then obtain line lines where R: "split_crlf (latin1_decode raw) = line # lines"
      "split_on 32 line = [m, t, lit ''HTTP/1.1'']" "starts_with (lit ''/'') t"
      "int (length t) \<le> hp_max_target_bytes p" "35 \<notin> set t" "list_all target_char t"
      "int (length lines) \<le> hp_max_header_count p" "list_all line_ok lines"
      "headers_init (map line_pair lines) = Inr h"
      "length_header_ok (hp_max_body_bytes p) h n" "host_ok h"
      by blast
    then have "header_pairs lines [] [] =
        Inr (map line_pair lines, map snd (filter is_length_name (map line_pair lines)))"
      by (simp add: header_pairs_Inr_iff)
    with R len show ?L
      by (auto simp: parse_head_def host_ok_def split: option.splits)
  qed
qed


section \<open>Soundness\<close>

lemma py_lower_header_names [simp]:
  "py_lower (lit ''transfer-encoding'') = lit ''transfer-encoding''"
  "py_lower (lit ''content-length'') = lit ''content-length''"
  "py_lower (lit ''host'') = lit ''host''"
  by (simp_all add: py_lower_def py_text lower1_def)

lemma parse_head_ok: "parse_head p raw = Inr rh \<Longrightarrow> head_ok p rh"
proof -
  obtain m t h n where rh: "rh = (m, t, h, n)" by (cases rh)
  assume "parse_head p raw = Inr rh"
  with rh obtain lines where R: "starts_with (lit ''/'') t"
    "int (length t) \<le> hp_max_target_bytes p" "35 \<notin> set t" "list_all target_char t"
    "int (length lines) \<le> hp_max_header_count p" "list_all line_ok lines"
    "length_header_ok (hp_max_body_bytes p) h n" "host_ok h"
    and init: "headers_init (map line_pair lines) = Inr h"
    by (auto simp: parse_head_Inr_iff)
  from init have wf: "headers_wf h" and items: "headers_items h = map line_pair lines"
    by (simp_all add: headers_init_wf headers_init_items)
  from items have "headers_len h = length lines"
    by (metis headers_items_def headers_len_def length_map)
  moreover have "headers_get h (lit ''transfer-encoding'') = None"
    using R(6) items by (auto simp: headers_get_None_iff [OF wf] line_ok_def list_all_iff)
  ultimately show ?thesis
    using R wf by (simp add: head_ok_def rh)
qed

definition h1_inv :: "h1_parser \<Rightarrow> bool" where
  "h1_inv p = (case hp_head p of None \<Rightarrow> True | Some rh \<Rightarrow> head_ok p rh)"

definition request_ok :: "h1_parser \<Rightarrow> request \<Rightarrow> bool" where
  "request_ok p r =
     (request_wf r \<and> head_ok p (req_method r, req_raw_target r, req_headers r, length (req_body r)) \<and>
      req_version r = lit ''HTTP/1.1'' \<and> req_path_params r = [] \<and> req_route_pattern r = None)"

lemma head_ok_cong:
  "hp_max_target_bytes p = hp_max_target_bytes q \<Longrightarrow> hp_max_header_count p = hp_max_header_count q \<Longrightarrow>
   hp_max_body_bytes p = hp_max_body_bytes q \<Longrightarrow> head_ok p rh = head_ok q rh"
  by (cases rh) (simp add: head_ok_def)

lemma head_ok_updates [simp]:
  "head_ok (p\<lparr>hp_buffer := b\<rparr>) rh = head_ok p rh"
  "head_ok (p\<lparr>hp_trailing := b\<rparr>) rh = head_ok p rh"
  "head_ok (p\<lparr>hp_head := hh\<rparr>) rh = head_ok p rh"
  "head_ok (p\<lparr>hp_head := hh, hp_buffer := b\<rparr>) rh = head_ok p rh"
  by (rule head_ok_cong; simp)+

lemma feed_body_request:
  assumes "feed_body p (m, t, h, n) = (Inr (Some r), p')"
  shows "n \<le> length (hp_buffer p)" and "req_body r = take n (hp_buffer p)"
    and "hp_trailing p' = drop n (hp_buffer p)" and "req_method r = m" and "req_raw_target r = t"
    and "req_headers r = h" and "req_version r = lit ''HTTP/1.1''" and "req_path_params r = []"
    and "req_route_pattern r = None" and "headers_wf h \<Longrightarrow> request_wf r"
  using assms
  by (auto simp: feed_body_def Let_def request_init_raw_iff request_wf_def
      split: prod.splits sum.splits py_error.splits if_splits)

lemma feed_body_sound:
  assumes "feed_body p (m, t, h, n) = (Inr (Some r), p')" and "head_ok p (m, t, h, n)"
  shows "request_ok p r"
  using feed_body_request [OF assms(1)] assms(2) by (simp add: request_ok_def head_ok_def)

lemma request_ok_cong:
  "hp_max_target_bytes p = hp_max_target_bytes q \<Longrightarrow> hp_max_header_count p = hp_max_header_count q \<Longrightarrow>
   hp_max_body_bytes p = hp_max_body_bytes q \<Longrightarrow> request_ok p r = request_ok q r"
  by (simp add: request_ok_def head_ok_cong [of p q])

lemma feed_body_inv:
  "feed_body p (m, t, h, n) = (v, p') \<Longrightarrow> hp_head p' = hp_head p \<and> hp_max_target_bytes p' = hp_max_target_bytes p \<and>
     hp_max_header_count p' = hp_max_header_count p \<and> hp_max_body_bytes p' = hp_max_body_bytes p"
  by (auto simp: feed_body_def Let_def split: prod.splits sum.splits py_error.splits if_splits)

lemma h1_feed_inv:
  assumes inv: "h1_inv p" and feed: "h1_feed p xs = (v, p')"
  shows "h1_inv p'" and "v = Inr (Some r) \<Longrightarrow> request_ok p r"
    and "hp_max_target_bytes p' = hp_max_target_bytes p \<and> hp_max_header_count p' = hp_max_header_count p \<and>
         hp_max_body_bytes p' = hp_max_body_bytes p"
proof -
  have body: "h1_inv p' \<and> (v = Inr (Some r) \<longrightarrow> request_ok p r) \<and>
      hp_max_target_bytes p' = hp_max_target_bytes p \<and> hp_max_header_count p' = hp_max_header_count p \<and>
      hp_max_body_bytes p' = hp_max_body_bytes p"
    if fb: "feed_body q rh = (v, p')" and head: "hp_head q = Some rh" and ok: "head_ok p rh"
      and q: "hp_max_target_bytes q = hp_max_target_bytes p" "hp_max_header_count q = hp_max_header_count p"
        "hp_max_body_bytes q = hp_max_body_bytes p" for q rh
  proof -
    obtain m t h n where rh: "rh = (m, t, h, n)" by (cases rh)
    note keep = feed_body_inv [OF fb [unfolded rh]]
    have "head_ok q rh" "head_ok p' rh"
      using ok keep q head_ok_cong [of q p rh] head_ok_cong [of p' p rh] by simp_all
    moreover from this(1) fb have "v = Inr (Some r) \<longrightarrow> request_ok q r"
      using feed_body_sound by (auto simp: rh)
    moreover have "request_ok q r = request_ok p r"
      using q by (intro request_ok_cong)
    ultimately show ?thesis
      using keep q head by (simp add: h1_inv_def)
  qed
  have "h1_inv p' \<and> (v = Inr (Some r) \<longrightarrow> request_ok p r) \<and>
      hp_max_target_bytes p' = hp_max_target_bytes p \<and> hp_max_header_count p' = hp_max_header_count p \<and>
      hp_max_body_bytes p' = hp_max_body_bytes p"
  proof (cases "hp_head p")
    case (Some rh)
    with feed inv show ?thesis
      by (intro body [of "p\<lparr>hp_buffer := hp_buffer p @ xs\<rparr>" rh]) (simp_all add: h1_feed_def Let_def h1_inv_def)
  next
    case None
    show ?thesis
    proof (cases "\<exists>mk rh. find_sub [13, 10, 13, 10] (hp_buffer p @ xs) = Some mk \<and>
        int (mk + 4) \<le> hp_max_header_bytes p \<and> parse_head p (take mk (hp_buffer p @ xs)) = Inr rh")
      case True
      then obtain mk rh where found: "find_sub [13, 10, 13, 10] (hp_buffer p @ xs) = Some mk"
        "int (mk + 4) \<le> hp_max_header_bytes p" "parse_head p (take mk (hp_buffer p @ xs)) = Inr rh"
        by blast
      with None feed show ?thesis
        by (intro body [of "p\<lparr>hp_head := Some rh, hp_buffer := drop (mk + 4) (hp_buffer p @ xs)\<rparr>" rh])
          (simp_all add: h1_feed_def Let_def parse_head_ok)
    next
      case False
      with None feed have "\<exists>b. p' = p\<lparr>hp_buffer := b\<rparr>" "v \<noteq> Inr (Some r)"
        by (auto simp: h1_feed_def Let_def split: option.splits if_splits sum.splits)
      with None show ?thesis by (auto simp: h1_inv_def)
    qed
  qed
  then show "h1_inv p'" and "v = Inr (Some r) \<Longrightarrow> request_ok p r"
    and "hp_max_target_bytes p' = hp_max_target_bytes p \<and> hp_max_header_count p' = hp_max_header_count p \<and>
         hp_max_body_bytes p' = hp_max_body_bytes p"
    by blast+
qed


section \<open>Completeness: the wire form of a request\<close>

text \<open>The reference printer: the request line, one line per header, a blank line, the body.\<close>

definition request_line :: "request \<Rightarrow> pystr" where
  "request_line r = req_method r @ [32] @ req_raw_target r @ [32] @ lit ''HTTP/1.1''"

definition wire_lines :: "request \<Rightarrow> pystr list" where
  "wire_lines r = request_line r # map header_line (headers_items (req_headers r))"

definition wire_head :: "request \<Rightarrow> bytes" where
  "wire_head r = map of_nat (join_with crlf (wire_lines r))"

definition wire :: "request \<Rightarrow> bytes" where
  "wire r = wire_head r @ [13, 10, 13, 10] @ req_body r"

definition trimmed :: "pystr \<Rightarrow> bool" where
  "trimmed v = (strip_with blank v = v)"

lemma strip_with_Cons: "p x \<Longrightarrow> strip_with p (x # xs) = strip_with p xs"
  by (simp add: strip_with_def)

lemma line_pair_header_line:
  assumes "is_token n" and "trimmed v"
  shows "line_pair (header_line (n, v)) = (n, v)"
proof -
  have "58 \<notin> set n" using assms(1) by (auto dest: is_token_chars)
  then have "partition_at 58 (n @ 58 # 32 # v) = (n, True, 32 # v)"
    by (rule partition_at_append)
  with assms(2) show ?thesis
    by (simp add: line_pair_def header_line_def py_text trimmed_def strip_with_Cons blank_def)
qed

lemma header_line_colon [simp]: "58 \<in> set (header_line e)"
  by (simp add: header_line_def py_text)

lemma line_ok_header_line:
  "is_token n \<Longrightarrow> trimmed v \<Longrightarrow> py_lower n \<noteq> lit ''transfer-encoding'' \<Longrightarrow> line_ok (header_line (n, v))"
  using line_pair_header_line [of n v] by (simp add: line_ok_def)

lemma split_request_line:
  assumes "is_token (req_method r)" and "list_all target_char (req_raw_target r)"
  shows "split_on 32 (request_line r) = [req_method r, req_raw_target r, lit ''HTTP/1.1'']"
proof -
  have "32 \<notin> set (req_method r)" and "32 \<notin> set (req_raw_target r)"
    using assms by (auto simp: list_all_iff target_char_def dest: is_token_chars)
  then show ?thesis
    by (simp add: request_line_def split_on_append) (simp add: py_text)
qed

lemma clean_request_line:
  assumes "is_token (req_method r)" and "list_all target_char (req_raw_target r)"
  shows "clean_line (request_line r)"
  using assms
  by (auto simp: clean_line_def request_line_def py_text list_all_iff target_char_def dest: is_token_chars)

lemma wire_lines_clean:
  assumes "is_token (req_method r)" and "list_all target_char (req_raw_target r)"
    and "headers_wf (req_headers r)"
  shows "\<forall>l \<in> set (wire_lines r). clean_line l"
  using clean_request_line [OF assms(1,2)] assms(3)
  by (auto simp: wire_lines_def intro!: clean_header_line dest: headers_wf_item)

lemma parse_head_wire:
  assumes ok: "request_ok p r" and trim: "\<forall>(n, v) \<in> set (headers_items (req_headers r)). trimmed v"
  shows "parse_head p (wire_head r)
    = Inr (req_method r, req_raw_target r, req_headers r, length (req_body r))"
proof -
  let ?lines = "map header_line (headers_items (req_headers r))"
  have tok: "is_token (req_method r)" and tgt: "list_all target_char (req_raw_target r)"
    and wf: "headers_wf (req_headers r)"
    and te: "headers_get (req_headers r) (lit ''transfer-encoding'') = None"
    and count: "int (length ?lines) \<le> hp_max_header_count p"
    using ok by (auto simp: request_ok_def request_wf_def head_ok_def headers_len_def headers_items_def)
  have clean: "\<forall>l \<in> set (wire_lines r). clean_line l"
    using tok tgt wf by (rule wire_lines_clean)
  then have "latin1_decode (wire_head r) = join_with crlf (wire_lines r)"
    unfolding wire_head_def by (intro latin1_decode_of_nat join_clean)
  moreover have "split_crlf (join_with crlf (wire_lines r)) = wire_lines r"
    using clean unfolding crlf_def by (intro split_crlf_join) (auto simp: wire_lines_def clean_line_def)
  ultimately have sp: "split_crlf (latin1_decode (wire_head r)) = request_line r # ?lines"
    by (simp add: wire_lines_def)
  have "\<forall>e \<in> set (headers_items (req_headers r)). line_pair (header_line e) = e \<and> line_ok (header_line e)"
    using headers_wf_item [OF wf] trim te
    by (auto simp: headers_get_None_iff [OF wf] intro!: line_pair_header_line line_ok_header_line)
  then have "map line_pair ?lines = headers_items (req_headers r)" and "list_all line_ok ?lines"
    by (auto simp: list_all_iff comp_def intro: map_idI)
  with sp split_request_line [OF tok tgt] headers_wf_init [OF wf] count ok show ?thesis
    unfolding parse_head_Inr_iff by (auto simp: request_ok_def head_ok_def)
qed

lemma wire_marker:
  assumes "request_ok p r"
  shows "find_sub [13, 10, 13, 10] (wire r @ extra) = Some (length (wire_head r))"
    and "take (length (wire_head r)) (wire r @ extra) = wire_head r"
    and "drop (length (wire_head r) + 4) (wire r @ extra) = req_body r @ extra"
proof -
  have ne: "wire_lines r \<noteq> []" by (simp add: wire_lines_def)
  have "\<forall>l \<in> set (wire_lines r). clean_line l"
    using assms by (intro wire_lines_clean) (auto simp: request_ok_def request_wf_def head_ok_def)
  moreover have "wire r @ extra = map of_nat (join_with crlf (wire_lines r)) @ [13, 10, 13, 10] @ req_body r @ extra"
    by (simp add: wire_def wire_head_def)
  ultimately show "find_sub [13, 10, 13, 10] (wire r @ extra) = Some (length (wire_head r))"
    using head_of_clean_lines(1) [OF ne] by (simp add: wire_head_def)
  show "take (length (wire_head r)) (wire r @ extra) = wire_head r"
    and "drop (length (wire_head r) + 4) (wire r @ extra) = req_body r @ extra"
    by (simp_all add: wire_def)
qed

lemma h1_feed_wire:
  assumes ok: "request_ok p r" and trim: "\<forall>(n, v) \<in> set (headers_items (req_headers r)). trimmed v"
    and fresh: "hp_head p = None" "hp_buffer p = []" "hp_preserve_trailing p"
    and fits: "int (length (wire_head r) + 4) \<le> hp_max_header_bytes p"
  shows "\<exists>p'. h1_feed p (wire r @ extra) = (Inr (Some r), p') \<and> hp_trailing p' = extra"
proof -
  have "request_init (req_method r) (req_path r) (req_headers r) (req_body r) (lit ''HTTP/1.1'')
      (Some (req_raw_target r)) (req_query_string r) [] None = Inr r"
    using ok by (auto simp: request_ok_def request_wf_def request_init_raw_iff)
  moreover obtain tp sep tq where "partition_at 63 (req_raw_target r) = (tp, sep, tq)"
    by (cases "partition_at 63 (req_raw_target r)")
  moreover from this ok have "req_path r = tp" "req_query_string r = (if sep then tq else [])"
    by (auto simp: request_ok_def request_wf_def)
  ultimately show ?thesis
    using fresh fits parse_head_wire [OF ok trim] wire_marker [OF ok, of extra]
    by (simp add: h1_feed_def feed_body_def Let_def)
qed


section \<open>Where the bytes go\<close>

text \<open>What a parser that waits for more has read: either everything is still in the buffer, which has
  no blank line and is within the header limit, or the head has been read, within its limit, and
  less of the body is buffered than the head declares.\<close>

definition h1_seen :: "h1_parser \<Rightarrow> bytes \<Rightarrow> h1_parser \<Rightarrow> bool" where
  "h1_seen p0 d p =
     (hp_max_header_bytes p = hp_max_header_bytes p0 \<and> hp_max_target_bytes p = hp_max_target_bytes p0 \<and>
      hp_max_header_count p = hp_max_header_count p0 \<and> hp_max_body_bytes p = hp_max_body_bytes p0 \<and>
      (case hp_head p of
         None \<Rightarrow> find_sub [13, 10, 13, 10] d = None \<and> hp_buffer p = d \<and>
                 int (length d) \<le> max 0 (hp_max_header_bytes p0)
       | Some (m, t, h, n) \<Rightarrow>
           (\<exists>head. find_sub [13, 10, 13, 10] d = Some (length head) \<and>
              int (length head + 4) \<le> hp_max_header_bytes p0 \<and>
              d = head @ [13, 10, 13, 10] @ hp_buffer p \<and> parse_head p0 head = Inr (m, t, h, n) \<and>
              length (hp_buffer p) < n)))"

definition request_bytes :: "h1_parser \<Rightarrow> bytes \<Rightarrow> request \<Rightarrow> bytes \<Rightarrow> bool" where
  "request_bytes p0 d r rest =
     (\<exists>head. find_sub [13, 10, 13, 10] d = Some (length head) \<and>
        int (length head + 4) \<le> hp_max_header_bytes p0 \<and>
        d = head @ [13, 10, 13, 10] @ req_body r @ rest \<and>
        parse_head p0 head = Inr (req_method r, req_raw_target r, req_headers r, length (req_body r)))"

lemma h1_seen_init: "h1_seen (h1_init hb hc bb tb pt) [] (h1_init hb hc bb tb pt)"
  by (simp add: h1_seen_def h1_init_def)

lemma marker_splits:
  assumes mk: "find_sub [13, 10, 13, 10] d = Some mk"
  shows "d = take mk d @ [13, 10, 13, 10] @ drop (mk + 4) d" and "length (take mk d) = mk"
proof -
  have "take 4 (drop mk d) = [13, 10, 13, 10]"
    using mk by (simp add: find_sub_Some_iff eval_nat_numeral)
  then show "d = take mk d @ [13, 10, 13, 10] @ drop (mk + 4) d"
    by (metis add.commute append_take_drop_id drop_drop)
  show "length (take mk d) = mk" using find_sub_bound [OF mk] by simp
qed

lemma feed_body_waits:
  "feed_body p (m, t, h, n) = (Inr None, p') \<Longrightarrow> length (hp_buffer p) < n \<and> p' = p"
  by (auto simp: feed_body_def Let_def split: prod.splits sum.splits py_error.splits if_splits)

lemma parse_head_limit: "parse_head p raw = Inr (m, t, h, n) \<Longrightarrow> 0 < n \<Longrightarrow> int n \<le> hp_max_body_bytes p"
  by (auto dest!: parse_head_ok simp: head_ok_def length_header_ok_def split: option.splits)

text \<open>The body of a head that has been read: the parser waits or the request is complete.\<close>

lemma feed_body_seen:
  assumes fb: "feed_body q (m, t, h, n) = (v, p')" and d: "d = head @ [13, 10, 13, 10] @ hp_buffer q"
    and found: "find_sub [13, 10, 13, 10] d = Some (length head)"
    and small: "int (length head + 4) \<le> hp_max_header_bytes p0"
    and ph: "parse_head p0 head = Inr (m, t, h, n)" and hq: "hp_head q = Some (m, t, h, n)"
    and lims: "hp_max_header_bytes q = hp_max_header_bytes p0" "hp_max_target_bytes q = hp_max_target_bytes p0"
      "hp_max_header_count q = hp_max_header_count p0" "hp_max_body_bytes q = hp_max_body_bytes p0"
  shows "v = Inr None \<Longrightarrow> h1_seen p0 d p'" and "v = Inr (Some r) \<Longrightarrow> request_bytes p0 d r (hp_trailing p')"
proof -
  show "h1_seen p0 d p'" if "v = Inr None"
    using feed_body_waits [OF fb [unfolded that]] d found small ph hq lims by (auto simp: h1_seen_def)
  show "request_bytes p0 d r (hp_trailing p')" if "v = Inr (Some r)"
  proof -
    note b = feed_body_request [OF fb [unfolded that]]
    have "d = head @ [13, 10, 13, 10] @ req_body r @ hp_trailing p'" "length (req_body r) = n"
      using d b(1-3) by simp_all
    with found small ph b(4-6) show ?thesis
      unfolding request_bytes_def by (intro exI [of _ head]) simp
  qed
qed

lemma h1_feed_seen:
  assumes seen: "h1_seen p0 d p" and feed: "h1_feed p xs = (v, p')"
  shows "v = Inr None \<Longrightarrow> h1_seen p0 (d @ xs) p'"
    and "v = Inr (Some r) \<Longrightarrow> request_bytes p0 (d @ xs) r (hp_trailing p')"
proof -
  have "(v = Inr None \<longrightarrow> h1_seen p0 (d @ xs) p') \<and>
    (v = Inr (Some r) \<longrightarrow> request_bytes p0 (d @ xs) r (hp_trailing p'))"
  proof (cases "hp_head p")
    case (Some rh)
    obtain m t h n where rh: "rh = (m, t, h, n)" by (cases rh)
    with Some seen obtain head where head: "find_sub [13, 10, 13, 10] d = Some (length head)"
      "int (length head + 4) \<le> hp_max_header_bytes p0" "d = head @ [13, 10, 13, 10] @ hp_buffer p"
      "parse_head p0 head = Inr (m, t, h, n)"
      by (auto simp: h1_seen_def)
    from feed Some rh have fb: "feed_body (p\<lparr>hp_buffer := hp_buffer p @ xs\<rparr>) (m, t, h, n) = (v, p')"
      by (simp add: h1_feed_def Let_def)
    from feed_body_seen [OF fb _ find_sub_append_Some [OF head(1), of xs] head(2,4)] head(3) Some rh seen
    show ?thesis by (auto simp: h1_seen_def)
  next
    case None
    with seen have b: "hp_buffer p = d" and lims: "hp_max_header_bytes p = hp_max_header_bytes p0"
      "hp_max_target_bytes p = hp_max_target_bytes p0" "hp_max_header_count p = hp_max_header_count p0"
      "hp_max_body_bytes p = hp_max_body_bytes p0"
      by (auto simp: h1_seen_def)
    show ?thesis
    proof (cases "find_sub [13, 10, 13, 10] (d @ xs)")
      case none: None
      with None feed seen b show ?thesis
        by (auto simp: h1_feed_def Let_def h1_seen_def split: if_splits)
    next
      case (Some mk)
      note split = marker_splits [OF Some]
      show ?thesis
      proof (cases "int (mk + 4) \<le> hp_max_header_bytes p \<and> (\<exists>rh. parse_head p (take mk (d @ xs)) = Inr rh)")
        case True
        then obtain m t h n where rh: "parse_head p (take mk (d @ xs)) = Inr (m, t, h, n)"
          and small: "int (mk + 4) \<le> hp_max_header_bytes p"
          by auto
        from None feed Some rh small b
        have fb: "feed_body (p\<lparr>hp_head := Some (m, t, h, n), hp_buffer := drop (mk + 4) (d @ xs)\<rparr>) (m, t, h, n) = (v, p')"
          by (simp add: h1_feed_def Let_def)
        have "parse_head p0 (take mk (d @ xs)) = Inr (m, t, h, n)"
          using rh lims parse_head_cong [of p0 p] by simp
        note rest = feed_body_seen [OF fb _ _ _ this, of "d @ xs", unfolded split(2)]
        have q: "hp_buffer (p\<lparr>hp_head := Some (m, t, h, n), hp_buffer := drop (mk + 4) (d @ xs)\<rparr>) =
            drop (mk + 4) (d @ xs)" by simp
        have "d @ xs = take mk (d @ xs) @ [13, 10, 13, 10] @
            hp_buffer (p\<lparr>hp_head := Some (m, t, h, n), hp_buffer := drop (mk + 4) (d @ xs)\<rparr>)"
          unfolding q by (rule split(1))
        from rest [OF this Some] small lims show ?thesis by simp
      next
        case False
        with None feed Some b show ?thesis
          by (auto simp: h1_feed_def Let_def split: if_splits sum.splits)
      qed
    qed
  qed
  then show "v = Inr None \<Longrightarrow> h1_seen p0 (d @ xs) p'"
    and "v = Inr (Some r) \<Longrightarrow> request_bytes p0 (d @ xs) r (hp_trailing p')"
    by blast+
qed

lemma h1_feed_fresh_request:
  assumes fresh: "hp_head p = None" "hp_buffer p = []"
    and feed: "h1_feed p d = (Inr (Some r), p')"
  shows "request_bytes p d r (hp_trailing p')"
  using h1_feed_seen(2) [OF _ feed, of p "[]" r] fresh by (simp add: h1_seen_def)

lemma h1_run_seen:
  assumes "h1_seen p0 d p" and "run_chunks h1_feed p cs = (v, p')"
  shows "v = Inr None \<Longrightarrow> h1_seen p0 (d @ concat cs) p'"
    and "v = Inr (Some r) \<Longrightarrow> \<exists>rest. request_bytes p0 (d @ concat cs) r rest"
proof -
  have "(v = Inr None \<longrightarrow> h1_seen p0 (d @ concat cs) p') \<and>
    (v = Inr (Some r) \<longrightarrow> (\<exists>rest. request_bytes p0 (d @ concat cs) r rest))"
    using assms
  proof (induction cs arbitrary: d p)
    case (Cons c cs)
    obtain w q where fc: "h1_feed p c = (w, q)" by (cases "h1_feed p c")
    note step = h1_feed_seen [OF Cons.prems(1) fc]
    show ?case
    proof (cases "w = Inr None")
      case True
      with step(1) have seen: "h1_seen p0 (d @ c) q" by blast
      from True fc Cons.prems(2) have "run_chunks h1_feed q cs = (v, p')" by simp
      from Cons.IH [OF seen this] show ?thesis by simp
    next
      case False
      with fc Cons.prems(2) have w: "w = v" by (simp add: run_chunks_Cons_done del: run_chunks.simps)
      show ?thesis
      proof (cases "v = Inr (Some r)")
        case True
        with step(2) w have "request_bytes p0 (d @ c) r (hp_trailing q)" by blast
        then obtain head where "find_sub [13, 10, 13, 10] (d @ c) = Some (length head)"
          "int (length head + 4) \<le> hp_max_header_bytes p0"
          "d @ c = head @ [13, 10, 13, 10] @ req_body r @ hp_trailing q"
          "parse_head p0 head = Inr (req_method r, req_raw_target r, req_headers r, length (req_body r))"
          by (auto simp: request_bytes_def)
        then have "request_bytes p0 ((d @ c) @ concat cs) r (hp_trailing q @ concat cs)"
          using find_sub_append_Some [of "[13, 10, 13, 10]" "d @ c" "length head" "concat cs"]
          unfolding request_bytes_def by (intro exI [of _ head]) simp
        with True show ?thesis by auto
      qed (use False w in auto)
    qed
  qed auto
  then show "v = Inr None \<Longrightarrow> h1_seen p0 (d @ concat cs) p'"
    and "v = Inr (Some r) \<Longrightarrow> \<exists>rest. request_bytes p0 (d @ concat cs) r rest"
    by blast+
qed

lemma h1_run_request_ok:
  assumes "h1_inv p" and "run_chunks h1_feed p cs = (Inr (Some r), p')"
  shows "request_ok p r"
  using assms
proof (induction cs arbitrary: p)
  case Nil
  then show ?case by simp
next
  case (Cons c cs)
  obtain v q where fc: "h1_feed p c = (v, q)" by (cases "h1_feed p c")
  note inv = h1_feed_inv [OF Cons.prems(1) fc]
  show ?case
  proof (cases "v = Inr None")
    case True
    with fc Cons.prems Cons.IH inv(1) have "request_ok q r" by simp
    with inv(3) show ?thesis using request_ok_cong [of p q r] by simp
  next
    case False
    with fc Cons.prems inv(2) show ?thesis
      by (simp add: run_chunks_Cons_done del: run_chunks.simps)
  qed
qed


section \<open>The contract of the parser\<close>

text \<open>C1. Soundness: a request that the parser hands to the application, after any sequence of
  chunks, obeys every limit and rule: its head with the blank line is within the header-byte limit
  and is what the method, target and headers were parsed from, its target is origin-form ASCII within
  the target limit, its headers are well-formed and within the header-count limit, it has a non-empty
  Host and no Transfer-Encoding, its body is the bytes after the blank line, exactly as many as its
  Content-Length says (none without one) and within the body limit, and its path and query are the
  two halves of the target. A parser that waits for more never holds more than the limits allow: as
  long as no blank line has come all that was received fits the header-byte limit (it is empty when
  that limit is negative), and after it fewer bytes are buffered than the declared length, which is
  within the body limit.\<close>

theorem parsed_request_ok:
  assumes "run_chunks h1_feed (h1_init hb hc bb tb pt) cs = (verdict, p')"
  shows "case verdict of
      Inl e \<Rightarrow> True
    | Inr (Some r) \<Rightarrow> request_ok (h1_init hb hc bb tb pt) r \<and>
        (\<exists>head rest. find_sub [13, 10, 13, 10] (concat cs) = Some (length head) \<and> int (length head + 4) \<le> hb \<and>
           concat cs = head @ [13, 10, 13, 10] @ req_body r @ rest \<and>
           parse_head (h1_init hb hc bb tb pt) head =
             Inr (req_method r, req_raw_target r, req_headers r, length (req_body r)))
    | Inr None \<Rightarrow>
        (case hp_head p' of
           None \<Rightarrow> find_sub [13, 10, 13, 10] (concat cs) = None \<and> hp_buffer p' = concat cs \<and>
             int (length (concat cs)) \<le> max 0 hb
         | Some (m, t, h, n) \<Rightarrow>
             (\<exists>head. concat cs = head @ [13, 10, 13, 10] @ hp_buffer p' \<and> int (length head + 4) \<le> hb \<and>
                parse_head (h1_init hb hc bb tb pt) head = Inr (m, t, h, n)) \<and>
             length (hp_buffer p') < n \<and> int n \<le> bb)"
proof (cases "\<exists>r. verdict = Inr (Some r)")
  case True
  then obtain r where r: "verdict = Inr (Some r)" by blast
  have "request_ok (h1_init hb hc bb tb pt) r"
    using assms r by (intro h1_run_request_ok) (simp_all add: h1_inv_def)
  with h1_run_seen(2) [OF h1_seen_init assms r] r show ?thesis
    by (simp add: request_bytes_def) blast
next
  case False
  show ?thesis
  proof (cases "verdict = Inr None")
    case True
    from h1_run_seen(1) [OF h1_seen_init assms this] have seen: "h1_seen (h1_init hb hc bb tb pt) (concat cs) p'"
      by simp
    show ?thesis
    proof (cases "hp_head p'")
      case (Some rh)
      obtain m t h n where rh: "rh = (m, t, h, n)" by (cases rh)
      with seen Some obtain head where ph: "parse_head (h1_init hb hc bb tb pt) head = Inr (m, t, h, n)"
        and rest: "concat cs = head @ [13, 10, 13, 10] @ hp_buffer p'" "int (length head + 4) \<le> hb"
          "length (hp_buffer p') < n"
        by (auto simp: h1_seen_def)
      from parse_head_limit [OF ph] rest(3) have "int n \<le> bb" by (simp add: h1_init_def)
      with ph rest True Some rh show ?thesis by auto
    qed (use seen True in \<open>simp add: h1_seen_def\<close>)
  next
    case none: False
    with False show ?thesis by (auto split: sum.splits option.splits)
  qed
qed

definition sample_request :: request where
  "sample_request = \<lparr>req_method = lit ''PUT'', req_path = lit ''/a'',
     req_headers = [(lit ''host'', lit ''Host'', lit ''x''), (lit ''content-length'', lit ''Content-Length'', lit ''2'')],
     req_body = [104, 105], req_version = lit ''HTTP/1.1'', req_raw_target = lit ''/a?b'',
     req_query_string = lit ''b'', req_path_params = [], req_route_pattern = None\<rparr>"

lemma sample_request_ok: "request_ok (h1_init 64 4 8 16 True) sample_request"
  by (simp add: request_ok_def request_wf_def head_ok_def sample_request_def h1_init_def headers_wf_def
      is_token_def header_value_ok_def token_char_def py_lower_def lower1_def py_text starts_with_def
      target_char_def headers_len_def headers_get_def length_header_ok_def host_ok_def
      is_ascii_decimal_def max_str_digits_def digits_value_def)

lemma sample_request_fits:
  "int (length (wire_head sample_request) + 4) \<le> hp_max_header_bytes (h1_init 64 4 8 16 True)"
  "\<forall>(n, v) \<in> set (headers_items (req_headers sample_request)). trimmed v"
  by (simp_all add: wire_head_def wire_lines_def request_line_def sample_request_def headers_items_def
      header_line_def crlf_def py_text h1_init_def trimmed_def strip_with_def blank_def)

lemma sample_request_parsed:
  "\<exists>p'. run_chunks h1_feed (h1_init 64 4 8 16 True) [wire sample_request] = (Inr (Some sample_request), p')"
  using h1_feed_wire [OF sample_request_ok sample_request_fits(2) _ _ _ sample_request_fits(1), of "[]"]
  by (auto simp: h1_init_def)

theorem parsed_request_ok_witness:
  "(\<exists>p' head rest. run_chunks h1_feed (h1_init 64 4 8 16 True) [wire sample_request] = (Inr (Some sample_request), p') \<and>
      request_ok (h1_init 64 4 8 16 True) sample_request \<and> int (length head + 4) \<le> 64 \<and>
      wire sample_request = head @ [13, 10, 13, 10] @ req_body sample_request @ rest)"
proof -
  obtain p' where p': "run_chunks h1_feed (h1_init 64 4 8 16 True) [wire sample_request]
      = (Inr (Some sample_request), p')"
    using sample_request_parsed by blast
  from parsed_request_ok [OF p'] obtain head rest where
    "request_ok (h1_init 64 4 8 16 True) sample_request" "int (length head + 4) \<le> 64"
    "wire sample_request = head @ [13, 10, 13, 10] @ req_body sample_request @ rest"
    by (simp del: append_Cons) blast
  with p' show ?thesis by blast
qed

text \<open>C3. Completeness and round trip: every request that the rules and limits allow, printed with one
  line per header and followed by anything, is parsed back to exactly that request, and the bytes
  after its body are kept for the protocol that takes the connection over.\<close>

theorem wire_roundtrip:
  assumes "request_ok (h1_init hb hc bb tb True) r"
    and "\<forall>(n, v) \<in> set (headers_items (req_headers r)). trimmed v"
    and "int (length (wire_head r) + 4) \<le> hb"
  shows "\<exists>p'. h1_feed (h1_init hb hc bb tb True) (wire r @ extra) = (Inr (Some r), p') \<and> hp_trailing p' = extra"
  using assms by (intro h1_feed_wire) (simp_all add: h1_init_def)

theorem wire_roundtrip_witness:
  "\<exists>p'. h1_feed (h1_init 64 4 8 16 True) (wire sample_request @ [1, 2]) = (Inr (Some sample_request), p')
     \<and> hp_trailing p' = [1, 2]"
  by (rule wire_roundtrip [OF sample_request_ok sample_request_fits(2)])
    (use sample_request_fits(1) in \<open>simp add: h1_init_def\<close>)

text \<open>C2. Segmentation does not matter: with trailing data preserved, as the connection loop runs the
  parser, the verdict on a stream (the request, the rejection or \<open>need more\<close>) is the verdict on its
  bytes in one piece, however the network cut them.\<close>

theorem parser_segmentation:
  assumes "0 \<le> hb"
  shows "fst (run_chunks h1_feed (h1_init hb hc bb tb True) cs) = fst (h1_feed (h1_init hb hc bb tb True) (concat cs))"
  by (rule h1.run_chunks_verdict [OF h1_pending_init [OF assms]])

theorem parser_segmentation_witness:
  "fst (run_chunks h1_feed (h1_init 64 4 8 16 True) [take 5 (wire sample_request), drop 5 (wire sample_request)])
     = Inr (Some sample_request)"
proof -
  have "(0::int) \<le> 64" by simp
  from parser_segmentation [OF this, of 4 8 16 "[take 5 (wire sample_request), drop 5 (wire sample_request)]"]
    sample_request_parsed
  show ?thesis by (auto split: sum.splits option.splits prod.splits)
qed

text \<open>No byte is lost, invented or read twice: the bytes of an accepted request are its head, the
  first blank line, its body and the trailing data, in this order, with the head inside its limit.\<close>

theorem accepted_bytes_accounted:
  assumes "h1_feed (h1_init hb hc bb tb True) d = (Inr (Some r), p')"
  shows "\<exists>head. find_sub [13, 10, 13, 10] d = Some (length head) \<and> int (length head + 4) \<le> hb \<and>
    d = head @ [13, 10, 13, 10] @ req_body r @ hp_trailing p' \<and>
    parse_head (h1_init hb hc bb tb True) head =
      Inr (req_method r, req_raw_target r, req_headers r, length (req_body r))"
  using h1_feed_fresh_request [OF _ _ assms] by (simp add: request_bytes_def)

theorem accepted_bytes_accounted_witness:
  "\<exists>head p'. h1_feed (h1_init 64 4 8 16 True) (wire sample_request @ [1, 2]) = (Inr (Some sample_request), p') \<and>
    wire sample_request @ [1, 2] = head @ [13, 10, 13, 10] @ req_body sample_request @ hp_trailing p'"
proof -
  obtain p' where p': "h1_feed (h1_init 64 4 8 16 True) (wire sample_request @ [1, 2]) = (Inr (Some sample_request), p')"
    using h1_feed_wire [OF sample_request_ok sample_request_fits(2) _ _ _ sample_request_fits(1), of "[1, 2]"]
    by (auto simp: h1_init_def)
  from accepted_bytes_accounted [OF p'] p' show ?thesis by blast
qed

text \<open>The head that escapes: a Content-Length of more digits than CPython converts.\<close>

definition escape_lines :: "pystr \<Rightarrow> pystr list" where
  "escape_lines ds =
     [lit ''POST / HTTP/1.1'', header_line (lit ''Host'', lit ''x''), header_line (lit ''Content-Length'', ds)]"

definition escape_wire :: "pystr \<Rightarrow> bytes" where
  "escape_wire ds = map of_nat (join_with crlf (escape_lines ds)) @ [13, 10, 13, 10]"

text \<open>C35. A Content-Length that is within the header limit but longer than the 4300 digits CPython
  converts makes the parser raise a plain ValueError instead of an HTTPParseError, so the connection
  loop sends no 400 or 413 response for it.\<close>

theorem long_content_length_escapes:
  assumes digits: "list_all (\<lambda>c. 48 \<le> c \<and> c \<le> 57) ds" and long: "max_str_digits < length ds"
    and fits: "int (length ds + 46) \<le> hb" and lim: "2 \<le> hc" "1 \<le> tb"
  shows "\<exists>msg. fst (h1_feed (h1_init hb hc bb tb True) (escape_wire ds)) = Inl (Escaped (ValueError msg))"
proof -
  let ?p = "h1_init hb hc bb tb True" and ?n = "length (join_with crlf (escape_lines ds))"
  have ds: "is_ascii_decimal ds" "ds \<noteq> []"
    using digits long by (auto simp: is_ascii_decimal_def max_str_digits_def)
  have val: "header_value_ok ds"
    using digits by (auto simp: header_value_ok_def list_all_iff)
  have clean: "\<forall>l \<in> set (escape_lines ds). clean_line l"
  proof -
    have "is_token (lit ''Host'')" "is_token (lit ''Content-Length'')" "header_value_ok (lit ''x'')"
      by (simp_all add: is_token_def token_char_def header_value_ok_def py_text)
    with val have "clean_line (header_line (lit ''Host'', lit ''x''))"
      "clean_line (header_line (lit ''Content-Length'', ds))"
      by (auto intro!: clean_header_line)
    moreover have "clean_line (lit ''POST / HTTP/1.1'')" by (simp add: clean_line_def py_text)
    ultimately show ?thesis by (simp add: escape_lines_def)
  qed
  have ne: "escape_lines ds \<noteq> []" by (simp add: escape_lines_def)
  have wire: "escape_wire ds = map of_nat (join_with crlf (escape_lines ds)) @ [13, 10, 13, 10] @ []"
    by (simp add: escape_wire_def)
  note head = head_of_clean_lines [OF ne clean wire]
  have n: "?n + 4 = length ds + 46"
    by (simp add: escape_lines_def header_line_def crlf_def py_text)
  have trim: "trimmed ds"
  proof -
    have nb: "c \<in> set ds \<Longrightarrow> \<not> blank c" for c
      using digits by (auto simp: list_all_iff blank_def)
    have "dropWhile blank xs = xs" if "set xs \<subseteq> set ds" for xs
      using that nb by (cases xs) auto
    then show ?thesis by (simp add: trimmed_def strip_with_def)
  qed
  have pair: "line_pair (header_line (lit ''Host'', lit ''x'')) = (lit ''Host'', lit ''x'')"
    "line_pair (header_line (lit ''Content-Length'', ds)) = (lit ''Content-Length'', ds)"
    using trim by (auto intro!: line_pair_header_line simp: is_token_def token_char_def py_text
        trimmed_def strip_with_def blank_def)
  have low: "py_lower (lit ''Host'') = lit ''host''" "py_lower (lit ''Content-Length'') = lit ''content-length''"
    by (simp_all add: py_lower_def lower1_def py_text)
  have hp: "header_pairs (tl (escape_lines ds)) [] [] =
      Inr ([(lit ''Host'', lit ''x''), (lit ''Content-Length'', ds)], [ds])"
    unfolding header_pairs_Inr_iff using pair low
    by (simp add: escape_lines_def line_ok_def is_length_name_def)
  have "headers_init [(lit ''Host'', lit ''x''), (lit ''Content-Length'', ds)] =
      Inr [(lit ''host'', lit ''Host'', lit ''x''), (lit ''content-length'', lit ''Content-Length'', ds)]"
    using val low by (simp add: headers_init_Inr_iff header_entry_def)
      (simp add: is_token_def token_char_def header_value_ok_def py_text)
  moreover have "split_on 32 (lit ''POST / HTTP/1.1'') = [lit ''POST'', lit ''/'', lit ''HTTP/1.1'']"
    by (simp add: py_text)
  moreover have "starts_with (lit ''/'') (lit ''/'')" "length (lit ''/'') = 1" "35 \<notin> set (lit ''/'')"
    "list_all target_char (lit ''/'')"
    by (simp_all add: starts_with_def target_char_def py_text)
  moreover have "\<exists>msg. content_length_value bb [ds] = Inl (Escaped (ValueError msg))"
    using ds long by (simp add: content_length_value_def py_int_def)
  ultimately have "\<exists>msg. parse_head ?p (take ?n (escape_wire ds)) = Inl (Escaped (ValueError msg))"
    using head(2) hp lim by (auto simp: parse_head_def escape_lines_def h1_init_def)
  with head(1) n fits show ?thesis
    by (auto simp: h1_feed_def Let_def)
qed

theorem long_content_length_escapes_witness:
  "\<exists>msg. fst (h1_feed (h1_init 16384 100 1048576 8192 True) (escape_wire (replicate 4301 57)))
     = Inl (Escaped (ValueError msg))"
  by (rule long_content_length_escapes) (simp_all add: max_str_digits_def list_all_iff)

end
