(* ===== verification/Registry.thy ===== *)
theory Registry
  imports SS_Prelude
begin

text \<open>
  Dicts and the interface of a registry. A Python dict keeps insertion order, so it is an
  association list with distinct keys; \<open>dict_set\<close>, \<open>dict_pop\<close> and \<open>map_of\<close> are item assignment,
  \<open>pop\<close> with a default and lookup.

  The static routes and the WebSocket routes of the server are registries: a name is registered once, a
  second registration is refused, and what is registered stays. The locale states that contract; its
  lemmas are about any sequence of registrations.
\<close>

section \<open>Dicts\<close>

fun dict_set :: "'k \<Rightarrow> 'v \<Rightarrow> ('k \<times> 'v) list \<Rightarrow> ('k \<times> 'v) list" where
  "dict_set k v [] = [(k, v)]"
| "dict_set k v ((k', v') # d) = (if k' = k then (k, v) # d else (k', v') # dict_set k v d)"

definition dict_pop :: "'k \<Rightarrow> ('k \<times> 'v) list \<Rightarrow> ('k \<times> 'v) list" where
  "dict_pop k d = filter (\<lambda>e. fst e \<noteq> k) d"

definition dict_wf :: "('k \<times> 'v) list \<Rightarrow> bool" where
  "dict_wf d = distinct (map fst d)"

lemma map_of_dict_set [simp]: "map_of (dict_set k v d) = (map_of d)(k \<mapsto> v)"
  by (induction k v d rule: dict_set.induct) auto

lemma keys_dict_set [simp]: "fst ` set (dict_set k v d) = insert k (fst ` set d)"
  by (induction k v d rule: dict_set.induct) auto

lemma dict_set_new: "k \<notin> fst ` set d \<Longrightarrow> dict_set k v d = d @ [(k, v)]"
  by (induction k v d rule: dict_set.induct) auto

lemma dict_wf_Nil [simp]: "dict_wf []"
  by (simp add: dict_wf_def)

lemma dict_wf_set [wf_intros]: "dict_wf d \<Longrightarrow> dict_wf (dict_set k v d)"
  by (induction k v d rule: dict_set.induct) (auto simp: dict_wf_def)

lemma set_dict_set:
  "dict_wf d \<Longrightarrow> set (dict_set k v d) = insert (k, v) {e \<in> set d. fst e \<noteq> k}"
  by (induction k v d rule: dict_set.induct) (auto simp: dict_wf_def rev_image_eqI)

lemma map_of_dict_pop [simp]: "map_of (dict_pop k d) = (map_of d)(k := None)"
  by (induction d) (auto simp: dict_pop_def fun_eq_iff)

lemma keys_dict_pop [simp]: "fst ` set (dict_pop k d) = fst ` set d - {k}"
  by (auto simp: dict_pop_def)

lemma set_dict_pop: "set (dict_pop k d) = {e \<in> set d. fst e \<noteq> k}"
  by (auto simp: dict_pop_def)

lemma dict_wf_pop [wf_intros]: "dict_wf d \<Longrightarrow> dict_wf (dict_pop k d)"
  by (simp add: dict_wf_def dict_pop_def distinct_map_filter)

lemma dict_pop_absent: "k \<notin> fst ` set d \<Longrightarrow> dict_pop k d = d"
  by (auto simp: dict_pop_def filter_id_conv)

lemma map_of_None_keys: "map_of d k = None \<longleftrightarrow> k \<notin> fst ` set d"
  by (simp add: map_of_eq_None_iff)

lemma dict_wf_map_of: "dict_wf d \<Longrightarrow> map_of d k = Some v \<longleftrightarrow> (k, v) \<in> set d"
  by (simp add: dict_wf_def map_of_eq_Some_iff)

text \<open>\<open>dict.fromkeys(xs)\<close>: the first occurrence of each element, in order.\<close>

definition dedup :: "'a list \<Rightarrow> 'a list" where
  "dedup xs = rev (remdups (rev xs))"

lemma set_dedup [simp]: "set (dedup xs) = set xs"
  by (simp add: dedup_def)

lemma distinct_dedup [simp]: "distinct (dedup xs)"
  by (simp add: dedup_def)

lemma dedup_distinct: "distinct xs \<Longrightarrow> dedup xs = xs"
  by (simp add: dedup_def distinct_remdups_id)

lemma dedup_Nil_iff [simp]: "dedup xs = [] \<longleftrightarrow> xs = []"
  by (simp add: dedup_def)

section \<open>Sums of weights over a dict\<close>

lemma sum_list_dict_set_new:
  "k \<notin> fst ` set d \<Longrightarrow> sum_list (map f (dict_set k v d)) = sum_list (map f d) + (f (k, v) :: int)"
  by (simp add: dict_set_new)

lemma sum_list_dict_pop:
  "dict_wf d \<Longrightarrow> sum_list (map f (dict_pop k d)) =
     sum_list (map f d) - (case map_of d k of None \<Rightarrow> 0 | Some v \<Rightarrow> (f (k, v) :: int))"
proof (induction d)
  case Nil
  then show ?case by (simp add: dict_pop_def)
next
  case (Cons e d)
  obtain k' v' where e: "e = (k', v')" by (cases e)
  from Cons.prems e have wf: "dict_wf d" and new: "k' \<notin> fst ` set d"
    by (auto simp: dict_wf_def)
  show ?case
  proof (cases "k' = k")
    case True
    with new have "dict_pop k d = d" by (simp add: dict_pop_absent)
    with True e show ?thesis by (simp add: dict_pop_def)
  next
    case False
    with Cons.IH [OF wf] e show ?thesis by (simp add: dict_pop_def)
  qed
qed

lemma sum_list_dict_set:
  "dict_wf d \<Longrightarrow> sum_list (map f (dict_set k v d)) =
     sum_list (map f d) + (f (k, v) :: int) - (case map_of d k of None \<Rightarrow> 0 | Some v' \<Rightarrow> f (k, v'))"
  by (induction k v d rule: dict_set.induct) (auto simp: dict_wf_def split: option.splits)

section \<open>Registries\<close>

text \<open>Registering one (name, value) pair after the other; the first refusal stops.\<close>

fun add_all :: "('s \<Rightarrow> 'k \<Rightarrow> 'v \<Rightarrow> 'e + 's) \<Rightarrow> 's \<Rightarrow> ('k \<times> 'v) list \<Rightarrow> 'e + 's" where
  "add_all add s [] = Inr s"
| "add_all add s ((k, v) # kvs) = bind_sum (add s k v) (\<lambda>s'. add_all add s' kvs)"

locale registry =
  fixes lookup :: "'s \<Rightarrow> 'k \<Rightarrow> 'v option"
    and add :: "'s \<Rightarrow> 'k \<Rightarrow> 'v \<Rightarrow> 'e + 's"
    and acceptable :: "'k \<Rightarrow> 'v \<Rightarrow> bool"
    and invar :: "'s \<Rightarrow> bool"
  assumes add_refused: "invar s \<Longrightarrow> lookup s k = Some w \<Longrightarrow> \<exists>e. add s k v = Inl e"
    and add_accepted: "invar s \<Longrightarrow> lookup s k = None \<Longrightarrow> acceptable k v \<Longrightarrow> \<exists>s'. add s k v = Inr s'"
    and add_acceptable: "invar s \<Longrightarrow> add s k v = Inr s' \<Longrightarrow> acceptable k v"
    and lookup_add: "invar s \<Longrightarrow> add s k v = Inr s' \<Longrightarrow> lookup s' = (lookup s)(k \<mapsto> v)"
    and invar_add: "invar s \<Longrightarrow> add s k v = Inr s' \<Longrightarrow> invar s'"
begin

lemma add_Inr_new: "invar s \<Longrightarrow> add s k v = Inr s' \<Longrightarrow> lookup s k = None"
  using add_refused [of s k _ v] by (cases "lookup s k") auto

lemma invar_add_all: "invar s \<Longrightarrow> add_all add s kvs = Inr s' \<Longrightarrow> invar s'"
proof (induction kvs arbitrary: s)
  case Nil
  then show ?case by simp
next
  case (Cons kv kvs)
  then show ?case by (cases kv) (auto simp: bind_sum_Inr_iff dest: invar_add [OF Cons.prems(1)])
qed

lemma registered_stays:
  "invar s \<Longrightarrow> lookup s k = Some v \<Longrightarrow> add_all add s kvs = Inr s' \<Longrightarrow> lookup s' k = Some v"
proof (induction kvs arbitrary: s)
  case Nil
  then show ?case by simp
next
  case (Cons kv kvs)
  obtain a b where kv: "kv = (a, b)" by (cases kv)
  with Cons.prems obtain t where t: "add s a b = Inr t" and rest: "add_all add t kvs = Inr s'"
    by (auto simp: bind_sum_Inr_iff)
  from add_Inr_new [OF Cons.prems(1) t] Cons.prems(2) have "a \<noteq> k" by auto
  with lookup_add [OF Cons.prems(1) t] Cons.prems(2) have "lookup t k = Some v" by simp
  with Cons.IH invar_add [OF Cons.prems(1) t] rest show ?case by blast
qed

lemma add_all_iff:
  "invar s \<Longrightarrow> (\<exists>s'. add_all add s kvs = Inr s') \<longleftrightarrow>
     distinct (map fst kvs) \<and> (\<forall>(k, v) \<in> set kvs. lookup s k = None \<and> acceptable k v)"
proof (induction kvs arbitrary: s)
  case Nil
  then show ?case by simp
next
  case (Cons kv kvs)
  obtain a b where kv: "kv = (a, b)" by (cases kv)
  show ?case
  proof (cases "lookup s a = None \<and> acceptable a b")
    case True
    then obtain t where t: "add s a b = Inr t" using add_accepted Cons.prems by blast
    note IH = Cons.IH [OF invar_add [OF Cons.prems t]]
    have "lookup t k = None \<longleftrightarrow> k \<noteq> a \<and> lookup s k = None" for k
      by (simp add: lookup_add [OF Cons.prems t])
    with IH True t kv show ?thesis by (auto simp: image_iff)
  next
    case False
    then have "\<exists>e. add s a b = Inl e"
      using add_refused [OF Cons.prems, of a _ b] add_acceptable [OF Cons.prems, of a b]
      by (cases "lookup s a"; cases "add s a b") auto
    with False kv show ?thesis by auto
  qed
qed

lemma lookup_add_all:
  "invar s \<Longrightarrow> add_all add s kvs = Inr s' \<Longrightarrow> lookup s' = lookup s ++ map_of (rev kvs)"
proof (induction kvs arbitrary: s)
  case Nil
  then show ?case by simp
next
  case (Cons kv kvs)
  obtain a b where kv: "kv = (a, b)" by (cases kv)
  with Cons.prems obtain t where t: "add s a b = Inr t" and rest: "add_all add t kvs = Inr s'"
    by (auto simp: bind_sum_Inr_iff)
  from Cons.IH [OF invar_add [OF Cons.prems(1) t] rest] lookup_add [OF Cons.prems(1) t] kv
  show ?case by (auto simp: fun_eq_iff map_add_def split: option.splits)
qed

end

end
