(* ===== verification/Routing.thy ===== *)
theory Routing
  imports SS_Text Registry "HOL-Library.List_Lexorder"
begin

text \<open>
  \<open>smallserver/routing.py\<close>: the \<open>Router\<close> with its static table and its ordered regular-expression
  routes. A handler is an opaque value of type \<open>'h\<close>.

  The \<open>regex\<close> package and the clock are not part of the repository. They are a record of functions
  (\<open>engine\<close>): compiling a pattern, the named groups of a compiled pattern, a full match with a time
  limit, and \<open>time.monotonic\<close>. The last two take and return the state of the world \<open>'w\<close>, so nothing
  is assumed about how results or readings change over time. Times are integers in any unit; the
  rounding of floats is not modelled.
\<close>

section \<open>Errors, limits and routes\<close>

datatype route_error =
    RouteMatchTimeout pystr
  | RoutePathTooLarge
  | RegexRoutesUnavailable
  | RouteError py_error

datatype match_outcome = Matched "(pystr \<times> pystr option) list" | NoMatch | TimedOut

record ('c, 'w) engine =
  eng_compile :: "pystr \<Rightarrow> 'c option"
  eng_groups :: "'c \<Rightarrow> pystr list"
  eng_fullmatch :: "'c \<Rightarrow> pystr \<Rightarrow> int \<Rightarrow> 'w \<Rightarrow> match_outcome \<times> 'w"
  eng_clock :: "'w \<Rightarrow> int \<times> 'w"

record regex_config =
  rc_max_path_bytes :: int
  rc_max_pattern_length :: int
  rc_max_routes :: int
  rc_match_timeout :: int
  rc_total_match_timeout :: int
  rc_max_named_captures :: int

text \<open>\<open>RegexRouteConfig.__post_init__\<close>: the fields in the order the code checks them.\<close>

fun check_positive :: "(pystr \<times> int) list \<Rightarrow> pystr \<Rightarrow> py_error + unit" where
  "check_positive [] msg = Inr ()"
| "check_positive ((name, v) # others) msg =
     (if v \<le> 0 then Inl (ValueError (name @ msg)) else check_positive others msg)"

definition regex_config_init :: "regex_config \<Rightarrow> py_error + regex_config" where
  "regex_config_init c =
     bind_sum (check_positive [(lit ''max_path_bytes'', rc_max_path_bytes c),
       (lit ''max_pattern_length'', rc_max_pattern_length c), (lit ''max_routes'', rc_max_routes c),
       (lit ''max_named_captures'', rc_max_named_captures c)] (lit '' must be a positive integer''))
     (\<lambda>_. bind_sum (check_positive [(lit ''match_timeout'', rc_match_timeout c),
       (lit ''total_match_timeout'', rc_total_match_timeout c)] (lit '' must be a finite positive number''))
     (\<lambda>_. Inr c))"

record ('h, 'c) regex_route =
  rr_route_id :: pystr
  rr_pattern :: pystr
  rr_compiled :: 'c
  rr_handlers :: "(pystr \<times> 'h) list"

record ('h, 'c) router =
  rt_static :: "((pystr \<times> pystr) \<times> 'h) list"
  rt_regex :: "('h, 'c) regex_route list"
  rt_by_pattern :: "(pystr \<times> nat) list"
  rt_config :: regex_config

record 'h route_match =
  rm_handler :: "'h option"
  rm_path_params :: "(pystr \<times> pystr) list"
  rm_route_pattern :: "pystr option"
  rm_allowed_methods :: "pystr list"

definition router_init :: "regex_config \<Rightarrow> ('h, 'c) router" where
  "router_init config = \<lparr>rt_static = [], rt_regex = [], rt_by_pattern = [], rt_config = config\<rparr>"

section \<open>Registration\<close>

definition supported_methods :: "pystr list" where
  "supported_methods = [lit ''GET'', lit ''POST'', lit ''PUT'', lit ''PATCH'', lit ''DELETE'']"

definition normalize_methods :: "pystr list \<Rightarrow> py_error + pystr list" where
  "normalize_methods methods =
     (let normalized = dedup (map py_upper methods)
      in if normalized = [] \<or> \<not> list_all (\<lambda>m. m \<in> set supported_methods) normalized
         then Inl (ValueError (lit ''routes must use one or more supported HTTP methods''))
         else Inr normalized)"

text \<open>Both loops of \<open>add_static\<close>: the check over all keys, then the assignments.\<close>

fun static_conflict :: "((pystr \<times> pystr) \<times> 'h) list \<Rightarrow> pystr \<Rightarrow> pystr list \<Rightarrow> pystr option" where
  "static_conflict table path [] = None"
| "static_conflict table path (m # ms) =
     (if (m, path) \<in> fst ` set table then Some m else static_conflict table path ms)"

definition static_insert ::
  "((pystr \<times> pystr) \<times> 'h) list \<Rightarrow> pystr \<Rightarrow> pystr list \<Rightarrow> 'h \<Rightarrow> ((pystr \<times> pystr) \<times> 'h) list" where
  "static_insert table path methods handler =
     fold (\<lambda>m t. dict_set (m, path) handler t) methods table"

definition add_static ::
  "('h, 'c) router \<Rightarrow> pystr \<Rightarrow> pystr list \<Rightarrow> 'h \<Rightarrow> py_error + ('h, 'c) router" where
  "add_static r path methods handler =
     (case static_conflict (rt_static r) path methods of
        Some m \<Rightarrow> Inl (ValueError (lit ''route already registered: '' @ m @ lit '' '' @ path))
      | None \<Rightarrow> Inr (r\<lparr>rt_static := static_insert (rt_static r) path methods handler\<rparr>))"

definition static_handler :: "('h, 'c) router \<Rightarrow> pystr \<Rightarrow> pystr \<Rightarrow> 'h option" where
  "static_handler r meth path = map_of (rt_static r) (py_upper meth, path)"

section \<open>Named groups of a pattern\<close>

text \<open>\<open>_comment_end\<close>: the rest of the pattern after a comment. Patterns are walked by suffix instead
  of by index.\<close>

fun comment_end :: "bool \<Rightarrow> pystr \<Rightarrow> pystr" where
  "comment_end escaped [] = []"
| "comment_end escaped (c # cs) =
     (if escaped then comment_end False cs
      else if c = 92 then comment_end True cs
      else if c = 41 then cs
      else comment_end False cs)"

definition ascii_letter :: "nat \<Rightarrow> bool" where
  "ascii_letter c = (65 \<le> c \<and> c \<le> 90 \<or> 97 \<le> c \<and> c \<le> 122)"

text \<open>The flag group match at an opening bracket: enabled flags, disabled flags, whether the
  delimiter is a colon, and the rest after it.\<close>

definition match_flags :: "pystr \<Rightarrow> (pystr \<times> pystr \<times> bool \<times> pystr) option" where
  "match_flags s =
     (if take 2 s \<noteq> [40, 63] then None
      else
        let enabled = takeWhile ascii_letter (drop 2 s);
            r1 = dropWhile ascii_letter (drop 2 s);
            (disabled, r2) =
              (case r1 of c # cs \<Rightarrow> if c = 45 then (takeWhile ascii_letter cs, dropWhile ascii_letter cs)
                                    else ([], r1)
               | [] \<Rightarrow> ([], r1))
        in case r2 of
             [] \<Rightarrow> None
           | c # cs \<Rightarrow> if c = 58 then Some (enabled, disabled, True, cs)
                       else if c = 41 then Some (enabled, disabled, False, cs)
                       else None)"

text \<open>The length of a group-name marker at the head of the suffix: \<open>(?P<\<close> or \<open>(?<\<close>, but not the
  look-behind forms.\<close>

definition marker_length :: "pystr \<Rightarrow> nat" where
  "marker_length s =
     (if take 4 s = [40, 63, 80, 60] then 4
      else if take 3 s = [40, 63, 60] then
        (if drop 3 s \<noteq> [] \<and> (hd (drop 3 s) = 61 \<or> hd (drop 3 s) = 33) then 0 else 3)
      else 0)"

definition set_top :: "bool \<Rightarrow> bool list \<Rightarrow> bool list" where
  "set_top v stack = v # tl stack"

lemma length_comment_end: "length (comment_end e cs) \<le> length cs"
  by (induction e cs rule: comment_end.induct) (auto intro: le_SucI)

lemma length_match_flags: "match_flags s = Some (a, b, d, r) \<Longrightarrow> length r < length s"
proof -
  assume m: "match_flags s = Some (a, b, d, r)"
  then have "take 2 s = [40, 63]" by (auto simp: match_flags_def split: if_splits)
  then obtain t where s: "s = 40 # 63 # t"
    by (cases s; cases "tl s") auto
  note le = length_dropWhile_le [of ascii_letter t]
  show ?thesis
  proof (cases "dropWhile ascii_letter t")
    case Nil
    with m show ?thesis by (simp add: match_flags_def s)
  next
    case (Cons c cs)
    with le length_dropWhile_le [of ascii_letter cs] m show ?thesis
      by (auto simp: match_flags_def s Let_def split: if_splits list.splits)
  qed
qed

lemma length_partition_rest: "partition_at c xs = (a, True, r) \<Longrightarrow> length r < length xs"
  using partition_at_parts(2) [of c xs a True r] by simp

lemma length_comment_le: "length (comment_end e (drop n cs)) \<le> length cs"
  using length_comment_end [of e "drop n cs"] by simp

lemma length_dropWhile_diff_le: "length (dropWhile P cs) - k \<le> length cs"
  using length_dropWhile_le [of P cs] by simp

text \<open>The scanner. The stack of verbose flags has its top at the head; it starts as \<open>[False]\<close>.\<close>

function group_names :: "pystr \<Rightarrow> bool list \<Rightarrow> bool \<Rightarrow> bool \<Rightarrow> pystr list \<Rightarrow> pystr list" where
  "group_names [] stack escaped in_class names = names"
| "group_names (c # cs) stack escaped in_class names =
     (if escaped then group_names cs stack False in_class names
      else if c = 92 then group_names cs stack True in_class names
      else if c = 91 then group_names cs stack escaped True names
      else if c = 93 \<and> in_class then group_names cs stack escaped False names
      else if \<not> in_class \<and> hd stack \<and> c = 35
      then group_names (drop 1 (dropWhile (\<lambda>x. x \<noteq> 10) cs)) stack escaped in_class names
      else if \<not> in_class \<and> take 3 (c # cs) = [40, 63, 35]
      then group_names (comment_end False (drop 2 cs)) stack escaped in_class names
      else if \<not> in_class \<and> c = 40 then
        (case match_flags (c # cs) of
           Some (enabled, disabled, colon, rest) \<Rightarrow>
             let verbose = ((hd stack \<or> 120 \<in> set enabled) \<and> 120 \<notin> set disabled)
             in if colon then group_names rest (verbose # stack) escaped in_class names
                else group_names rest (set_top verbose stack) escaped in_class names
         | None \<Rightarrow>
             let ml = marker_length (c # cs)
             in case partition_at 62 (drop ml (c # cs)) of
                  (name, found, rest) \<Rightarrow>
                    if ml > 0 \<and> found
                    then group_names rest (hd stack # stack) escaped in_class (names @ [name])
                    else group_names cs (hd stack # stack) escaped in_class names)
      else if \<not> in_class \<and> c = 41
      then group_names cs (if length stack > 1 then tl stack else stack) escaped in_class names
      else group_names cs stack escaped in_class names)"
  by pat_completeness auto
termination
  by (relation "measure (\<lambda>(s, _). length s)")
    (auto simp: length_comment_le length_dropWhile_diff_le less_Suc_eq_le
      dest!: length_match_flags length_partition_rest [OF sym])


definition named_group_names :: "pystr \<Rightarrow> pystr list" where
  "named_group_names pattern = group_names pattern [False] False False []"

section \<open>Compiling and registering a pattern\<close>

text \<open>\<open>_compile\<close>; the optional engine is \<open>None\<close> when the \<open>regex\<close> package cannot be imported.\<close>

definition compile_pattern ::
  "('c, 'w) engine option \<Rightarrow> regex_config \<Rightarrow> pystr \<Rightarrow> route_error + 'c" where
  "compile_pattern eng config pattern =
     (if \<not> starts_with (lit ''/'') pattern
      then Inl (RouteError (ValueError (lit ''regex route pattern must start with a literal '' @ [39, 47, 39])))
      else if int (length pattern) > rc_max_pattern_length config
      then Inl (RouteError (ValueError (lit ''regex route pattern is too long'')))
      else (case eng of
              None \<Rightarrow> Inl RegexRoutesUnavailable
            | Some e \<Rightarrow>
                (case eng_compile e (lit ''(?=/)(?:'' @ pattern @ lit '')'') of
                   None \<Rightarrow> Inl (RouteError (ValueError (lit ''invalid regex route pattern'')))
                 | Some compiled \<Rightarrow>
                     let names = named_group_names pattern;
                         compiled_names = dedup (eng_groups e compiled)
                     in if set names \<noteq> set compiled_names
                        then Inl (RouteError (ValueError (lit ''regex route named groups could not be validated'')))
                        else if length names \<noteq> length compiled_names
                        then Inl (RouteError (ValueError (lit ''regex route pattern contains duplicate named groups'')))
                        else if int (length compiled_names) > rc_max_named_captures config
                        then Inl (RouteError (ValueError (lit ''regex route pattern has too many named captures'')))
                        else Inr compiled)))"

definition route_id_of :: "nat \<Rightarrow> pystr" where
  "route_id_of n = lit ''regex-route-'' @ nat_str n"

definition update_handlers :: "pystr list \<Rightarrow> 'h \<Rightarrow> (pystr \<times> 'h) list \<Rightarrow> (pystr \<times> 'h) list" where
  "update_handlers methods handler d = fold (\<lambda>m d. dict_set m handler d) methods d"

definition add_regex ::
  "('c, 'w) engine option \<Rightarrow> ('h, 'c) router \<Rightarrow> pystr \<Rightarrow> pystr list \<Rightarrow> 'h \<Rightarrow> route_error + ('h, 'c) router" where
  "add_regex eng r pattern methods handler =
     (case map_of (rt_by_pattern r) pattern of
        Some i \<Rightarrow>
          let existing = rt_regex r ! i
          in (case find (\<lambda>m. m \<in> fst ` set (rr_handlers existing)) methods of
                Some m \<Rightarrow> Inl (RouteError (ValueError (lit ''regex route already registered: '' @ m)))
              | None \<Rightarrow> Inr (r\<lparr>rt_regex := (rt_regex r)[i := existing\<lparr>rr_handlers :=
                    update_handlers methods handler (rr_handlers existing)\<rparr>]\<rparr>))
      | None \<Rightarrow>
          if int (length (rt_regex r)) \<ge> rc_max_routes (rt_config r)
          then Inl (RouteError (ValueError (lit ''maximum registered regex routes exceeded'')))
          else bind_sum (compile_pattern eng (rt_config r) pattern) (\<lambda>compiled.
            Inr (r\<lparr>rt_regex := rt_regex r @ [\<lparr>rr_route_id = route_id_of (length (rt_regex r) + 1),
                     rr_pattern = pattern, rr_compiled = compiled,
                     rr_handlers = update_handlers methods handler []\<rparr>],
                   rt_by_pattern := dict_set pattern (length (rt_regex r)) (rt_by_pattern r)\<rparr>)))"

section \<open>Resolving a request\<close>

definition validate_path :: "regex_config \<Rightarrow> pystr \<Rightarrow> route_error + unit" where
  "validate_path config path =
     (case ascii_encode path of
        None \<Rightarrow> Inl (RouteError (ValueError (lit ''request path must contain ASCII characters only'')))
      | Some bs \<Rightarrow> if int (length bs) > rc_max_path_bytes config then Inl RoutePathTooLarge else Inr ())"

text \<open>\<open>_match\<close>: \<open>Some\<close> the groups of a match, \<open>None\<close> for no match.\<close>

definition match_route ::
  "('c, 'w) engine \<Rightarrow> regex_config \<Rightarrow> ('h, 'c) regex_route \<Rightarrow> pystr \<Rightarrow> int \<Rightarrow> 'w \<Rightarrow>
   (route_error + (pystr \<times> pystr option) list option) \<times> 'w" where
  "match_route e config route path deadline w =
     (case eng_clock e w of (now, w1) \<Rightarrow>
        let remaining = deadline - now
        in if remaining \<le> 0 then (Inl (RouteMatchTimeout (rr_route_id route)), w1)
           else (case eng_fullmatch e (rr_compiled route) path (min (rc_match_timeout config) remaining) w1 of
                   (TimedOut, w2) \<Rightarrow> (Inl (RouteMatchTimeout (rr_route_id route)), w2)
                 | (Matched gs, w2) \<Rightarrow> (Inr (Some gs), w2)
                 | (NoMatch, w2) \<Rightarrow> (Inr None, w2)))"

definition captures :: "(pystr \<times> pystr option) list \<Rightarrow> (pystr \<times> pystr) list" where
  "captures gs = map (\<lambda>(n, v). (n, the v)) (filter (\<lambda>(n, v). v \<noteq> None) gs)"

text \<open>The first loop: the routes that have the method, in registration order. It ends with the route
  and its match, or with the dict of the matches tried, all of which failed.\<close>

type_synonym tried = "(nat \<times> (pystr \<times> pystr option) list option) list"

fun scan_routes ::
  "('c, 'w) engine \<Rightarrow> regex_config \<Rightarrow> pystr \<Rightarrow> pystr \<Rightarrow> int \<Rightarrow> nat \<Rightarrow> ('h, 'c) regex_route list \<Rightarrow> tried \<Rightarrow> 'w \<Rightarrow>
   (route_error + ((('h, 'c) regex_route \<times> (pystr \<times> pystr option) list) + tried)) \<times> 'w" where
  "scan_routes e config meth path deadline i [] cached w = (Inr (Inr cached), w)"
| "scan_routes e config meth path deadline i (route # routes) cached w =
     (if meth \<notin> fst ` set (rr_handlers route)
      then scan_routes e config meth path deadline (Suc i) routes cached w
      else (case match_route e config route path deadline w of
              (Inl err, w') \<Rightarrow> (Inl err, w')
            | (Inr (Some gs), w') \<Rightarrow> (Inr (Inl (route, gs)), w')
            | (Inr None, w') \<Rightarrow> scan_routes e config meth path deadline (Suc i) routes (dict_set i None cached) w'))"

text \<open>The second loop: every route the first loop has not tried is matched, and the methods of the
  matching ones are collected (a set in the code, a list here).\<close>

fun collect_allowed ::
  "('c, 'w) engine \<Rightarrow> regex_config \<Rightarrow> pystr \<Rightarrow> int \<Rightarrow> nat \<Rightarrow> ('h, 'c) regex_route list \<Rightarrow> tried \<Rightarrow> pystr list \<Rightarrow> 'w \<Rightarrow>
   (route_error + pystr list) \<times> 'w" where
  "collect_allowed e config path deadline i [] cached allowed w = (Inr allowed, w)"
| "collect_allowed e config path deadline i (route # routes) cached allowed w =
     (case (case map_of cached i of
              Some m \<Rightarrow> (Inr m, w)
            | None \<Rightarrow> match_route e config route path deadline w) of
        (Inl err, w') \<Rightarrow> (Inl err, w')
      | (Inr m, w') \<Rightarrow>
          collect_allowed e config path deadline (Suc i) routes cached
            (if m = None then allowed else allowed @ map fst (rr_handlers route)) w')"

definition static_methods_at :: "('h, 'c) router \<Rightarrow> pystr \<Rightarrow> pystr list" where
  "static_methods_at r path = map (\<lambda>e. fst (fst e)) (filter (\<lambda>e. snd (fst e) = path) (rt_static r))"

definition no_handler :: "pystr list \<Rightarrow> 'h route_match" where
  "no_handler allowed = \<lparr>rm_handler = None, rm_path_params = [], rm_route_pattern = None, rm_allowed_methods = allowed\<rparr>"

definition resolve ::
  "('c, 'w) engine \<Rightarrow> ('h, 'c) router \<Rightarrow> pystr \<Rightarrow> pystr \<Rightarrow> 'w \<Rightarrow> (route_error + 'h route_match) \<times> 'w" where
  "resolve e r meth0 path w =
     (let meth = py_upper meth0
      in case map_of (rt_static r) (meth, path) of
           Some h \<Rightarrow> (Inr \<lparr>rm_handler = Some h, rm_path_params = [], rm_route_pattern = Some path,
                            rm_allowed_methods = []\<rparr>, w)
         | None \<Rightarrow>
             if rt_regex r = [] then (Inr (no_handler (sort (static_methods_at r path))), w)
             else (case validate_path (rt_config r) path of
                     Inl err \<Rightarrow> (Inl err, w)
                   | Inr _ \<Rightarrow>
                       (case eng_clock e w of (now, w1) \<Rightarrow>
                          let deadline = now + rc_total_match_timeout (rt_config r)
                          in case scan_routes e (rt_config r) meth path deadline 0 (rt_regex r) [] w1 of
                               (Inl err, w2) \<Rightarrow> (Inl err, w2)
                             | (Inr (Inl (route, gs)), w2) \<Rightarrow>
                                 (Inr \<lparr>rm_handler = map_of (rr_handlers route) meth,
                                       rm_path_params = captures gs,
                                       rm_route_pattern = Some (rr_pattern route),
                                       rm_allowed_methods = []\<rparr>, w2)
                             | (Inr (Inr cached), w2) \<Rightarrow>
                                 (case collect_allowed e (rt_config r) path deadline 0 (rt_regex r) cached
                                         (static_methods_at r path) w2 of
                                    (Inl err, w3) \<Rightarrow> (Inl err, w3)
                                  | (Inr allowed, w3) \<Rightarrow> (Inr (no_handler (sort (remdups allowed))), w3)))))"


section \<open>The invariant of a router\<close>

definition methods_ok :: "pystr list \<Rightarrow> bool" where
  "methods_ok ms = (ms \<noteq> [] \<and> distinct ms \<and> set ms \<subseteq> set supported_methods)"

definition route_wf :: "('h, 'c) regex_route \<Rightarrow> bool" where
  "route_wf rt = (dict_wf (rr_handlers rt) \<and> rr_handlers rt \<noteq> [] \<and>
     fst ` set (rr_handlers rt) \<subseteq> set supported_methods)"

definition static_wf :: "((pystr \<times> pystr) \<times> 'h) list \<Rightarrow> bool" where
  "static_wf t = (dict_wf t \<and> (\<forall>k \<in> fst ` set t. fst k \<in> set supported_methods))"

definition regex_table_wf :: "('h, 'c) router \<Rightarrow> bool" where
  "regex_table_wf r = (dict_wf (rt_by_pattern r) \<and>
     (\<forall>p i. map_of (rt_by_pattern r) p = Some i \<longleftrightarrow> i < length (rt_regex r) \<and> rr_pattern (rt_regex r ! i) = p) \<and>
     (\<forall>i < length (rt_regex r). route_wf (rt_regex r ! i) \<and> rr_route_id (rt_regex r ! i) = route_id_of (i + 1)) \<and>
     int (length (rt_regex r)) \<le> rc_max_routes (rt_config r))"

definition router_wf :: "('h, 'c) router \<Rightarrow> bool" where
  "router_wf r = (static_wf (rt_static r) \<and> regex_table_wf r)"

lemma normalize_methods_ok [wf_intros]: "normalize_methods ms = Inr ns \<Longrightarrow> methods_ok ns"
  by (auto simp: normalize_methods_def methods_ok_def Let_def list_all_iff split: if_splits)

lemma router_wf_init [wf_intros]: "0 \<le> rc_max_routes c \<Longrightarrow> router_wf (router_init c)"
  by (simp add: router_wf_def static_wf_def regex_table_wf_def router_init_def)

lemma static_conflict_None_iff:
  "static_conflict t path ms = None \<longleftrightarrow> (\<forall>m \<in> set ms. (m, path) \<notin> fst ` set t)"
  by (induction t path ms rule: static_conflict.induct) auto

lemma static_insert_simps [simp]:
  "static_insert t path [] h = t"
  "static_insert t path (m # ms) h = static_insert (dict_set (m, path) h t) path ms h"
  by (simp_all add: static_insert_def)

lemma map_of_static_insert:
  "map_of (static_insert t path ms h) k =
     (if snd k = path \<and> fst k \<in> set ms then Some h else map_of t k)"
  by (induction ms arbitrary: t) (auto split: if_splits)

lemma static_insert_wf [wf_intros]:
  "static_wf t \<Longrightarrow> set ms \<subseteq> set supported_methods \<Longrightarrow> static_wf (static_insert t path ms h)"
proof (induction ms arbitrary: t)
  case Nil
  then show ?case by simp
next
  case (Cons m ms)
  then have "static_wf (dict_set (m, path) h t)"
    by (auto simp: static_wf_def intro: dict_wf_set)
  with Cons show ?case by simp
qed

lemma add_static_wf [wf_intros]:
  "router_wf r \<Longrightarrow> methods_ok ms \<Longrightarrow> add_static r path ms h = Inr r' \<Longrightarrow> router_wf r'"
  by (auto simp: add_static_def router_wf_def regex_table_wf_def methods_ok_def
      intro!: static_insert_wf split: option.splits)

lemma update_handlers_wf:
  "dict_wf d \<Longrightarrow> dict_wf (update_handlers ms h d) \<and>
     fst ` set (update_handlers ms h d) = fst ` set d \<union> set ms"
proof (induction ms arbitrary: d)
  case Nil
  then show ?case by (simp add: update_handlers_def)
next
  case (Cons m ms)
  have "update_handlers (m # ms) h d = update_handlers ms h (dict_set m h d)"
    by (simp add: update_handlers_def)
  with Cons.IH [OF dict_wf_set [OF Cons.prems]] show ?case by simp
qed

lemma map_of_update_handlers:
  "map_of (update_handlers ms h d) m = (if m \<in> set ms then Some h else map_of d m)"
  unfolding update_handlers_def by (induction ms arbitrary: d) auto

lemma update_route_wf:
  "route_wf rt \<Longrightarrow> methods_ok ms \<Longrightarrow> route_wf (rt\<lparr>rr_handlers := update_handlers ms h (rr_handlers rt)\<rparr>)"
  using update_handlers_wf [of "rr_handlers rt" ms h]
  by (auto simp: route_wf_def methods_ok_def)

lemma new_route_wf:
  "methods_ok ms \<Longrightarrow> route_wf \<lparr>rr_route_id = i, rr_pattern = p, rr_compiled = c,
     rr_handlers = update_handlers ms h []\<rparr>"
  using update_handlers_wf [of "[]" ms h] by (auto simp: route_wf_def methods_ok_def)

lemma by_pattern_iff:
  "router_wf r \<Longrightarrow> map_of (rt_by_pattern r) p = Some i \<longleftrightarrow>
     i < length (rt_regex r) \<and> rr_pattern (rt_regex r ! i) = p"
  by (simp add: router_wf_def regex_table_wf_def)

lemma add_regex_new_iff:
  "map_of (rt_by_pattern r) pattern = None \<Longrightarrow> add_regex eng r pattern ms h = Inr r' \<longleftrightarrow>
     int (length (rt_regex r)) < rc_max_routes (rt_config r) \<and>
     (\<exists>c. compile_pattern eng (rt_config r) pattern = Inr c \<and>
        r' = r\<lparr>rt_regex := rt_regex r @ [\<lparr>rr_route_id = route_id_of (length (rt_regex r) + 1),
                 rr_pattern = pattern, rr_compiled = c, rr_handlers = update_handlers ms h []\<rparr>],
               rt_by_pattern := dict_set pattern (length (rt_regex r)) (rt_by_pattern r)\<rparr>)"
  by (auto simp: add_regex_def bind_sum_Inr_iff)

lemma find_None_ball: "find P xs = None \<longleftrightarrow> (\<forall>x \<in> set xs. \<not> P x)"
  by (induction xs) auto

lemma add_regex_old_iff:
  assumes "map_of (rt_by_pattern r) pattern = Some i"
  shows "add_regex eng r pattern ms h = Inr r' \<longleftrightarrow>
     (\<forall>m \<in> set ms. m \<notin> fst ` set (rr_handlers (rt_regex r ! i))) \<and>
     r' = r\<lparr>rt_regex := (rt_regex r)[i := (rt_regex r ! i)\<lparr>rr_handlers :=
            update_handlers ms h (rr_handlers (rt_regex r ! i))\<rparr>]\<rparr>"
proof -
  have "(\<forall>m \<in> set ms. m \<notin> fst ` set (rr_handlers (rt_regex r ! i))) \<longleftrightarrow>
      find (\<lambda>m. m \<in> fst ` set (rr_handlers (rt_regex r ! i))) ms = None"
    by (simp add: find_None_ball)
  with assms show ?thesis
    by (auto simp: add_regex_def Let_def split: option.splits)
qed

lemma add_regex_wf [wf_intros]:
  assumes wf: "router_wf r" and ms: "methods_ok ms" and add: "add_regex eng r pattern ms h = Inr r'"
  shows "router_wf r'"
proof (cases "map_of (rt_by_pattern r) pattern")
  case (Some i)
  with wf have i: "i < length (rt_regex r)" "route_wf (rt_regex r ! i)"
    by (auto simp: router_wf_def regex_table_wf_def)
  from add [unfolded add_regex_old_iff [OF Some]] wf update_route_wf [OF i(2) ms, of h] i(1)
  show ?thesis
    by (auto simp: router_wf_def regex_table_wf_def nth_list_update)
next
  case None
  from add [unfolded add_regex_new_iff [OF None]] obtain c where
    small: "int (length (rt_regex r)) < rc_max_routes (rt_config r)"
    and r': "r' = r\<lparr>rt_regex := rt_regex r @ [\<lparr>rr_route_id = route_id_of (length (rt_regex r) + 1),
                 rr_pattern = pattern, rr_compiled = c, rr_handlers = update_handlers ms h []\<rparr>],
               rt_by_pattern := dict_set pattern (length (rt_regex r)) (rt_by_pattern r)\<rparr>" by blast
  from None wf have "\<forall>i < length (rt_regex r). rr_pattern (rt_regex r ! i) \<noteq> pattern"
    by (metis by_pattern_iff option.distinct(1))
  with small r' wf new_route_wf [OF ms] show ?thesis
    by (auto simp: router_wf_def regex_table_wf_def nth_append less_Suc_eq intro: dict_wf_set)
qed

section \<open>Registration as a sequence of operations\<close>

text \<open>The decorators register at import time, one after the other; one that raises leaves the router
  as it was.\<close>

datatype 'h reg_op = RegStatic pystr "pystr list" 'h | RegRegex pystr "pystr list" 'h

fun register_op :: "('c, 'w) engine option \<Rightarrow> ('h, 'c) router \<Rightarrow> 'h reg_op \<Rightarrow> ('h, 'c) router" where
  "register_op eng r (RegStatic path ms h) =
     (case bind_sum (normalize_methods ms) (\<lambda>ns. add_static r path ns h) of Inl _ \<Rightarrow> r | Inr r' \<Rightarrow> r')"
| "register_op eng r (RegRegex pattern ms h) =
     (case normalize_methods ms of Inl _ \<Rightarrow> r
      | Inr ns \<Rightarrow> (case add_regex eng r pattern ns h of Inl _ \<Rightarrow> r | Inr r' \<Rightarrow> r'))"

definition register_ops :: "('c, 'w) engine option \<Rightarrow> ('h, 'c) router \<Rightarrow> 'h reg_op list \<Rightarrow> ('h, 'c) router" where
  "register_ops eng r ops = foldl (register_op eng) r ops"

lemma register_op_wf: "router_wf r \<Longrightarrow> router_wf (register_op eng r op)"
  by (cases op)
    (auto simp: bind_sum_Inr_iff split: sum.splits
      intro: add_static_wf add_regex_wf dest: normalize_methods_ok)

lemma register_ops_wf: "router_wf r \<Longrightarrow> router_wf (register_ops eng r ops)"
  unfolding register_ops_def by (induction ops arbitrary: r) (auto intro: register_op_wf)

lemma add_static_keeps:
  "add_static r path ms h = Inr r' \<Longrightarrow> map_of (rt_static r) k = Some g \<Longrightarrow> map_of (rt_static r') k = Some g"
  by (cases k) (force simp: add_static_def map_of_static_insert static_conflict_None_iff
      dest: map_of_SomeD split: option.splits)

lemma add_regex_static: "add_regex eng r pattern ms h = Inr r' \<Longrightarrow> rt_static r' = rt_static r"
  by (auto simp: add_regex_def Let_def bind_sum_Inr_iff split: option.splits if_splits)

lemma register_op_keeps:
  "map_of (rt_static r) k = Some g \<Longrightarrow> map_of (rt_static (register_op eng r op)) k = Some g"
  by (cases op)
    (auto simp: bind_sum_Inr_iff add_regex_static split: sum.splits dest: add_static_keeps)

lemma register_ops_keeps:
  "map_of (rt_static r) k = Some g \<Longrightarrow> map_of (rt_static (register_ops eng r ops)) k = Some g"
  unfolding register_ops_def by (induction ops arbitrary: r) (auto intro: register_op_keeps)

text \<open>One (method, path) pair at a time, the static table is a registry.\<close>

definition static_lookup :: "('h, 'c) router \<Rightarrow> pystr \<times> pystr \<Rightarrow> 'h option" where
  "static_lookup r k = map_of (rt_static r) k"

definition static_add :: "('h, 'c) router \<Rightarrow> pystr \<times> pystr \<Rightarrow> 'h \<Rightarrow> py_error + ('h, 'c) router" where
  "static_add r k h = add_static r (snd k) [fst k] h"

lemma static_conflict_single:
  "static_conflict t path [m] = (if map_of t (m, path) = None then None else Some m)"
  by (auto simp: map_of_eq_None_iff)

interpretation static_routes: registry static_lookup static_add "\<lambda>_ _. True" "\<lambda>_. True"
  by unfold_locales
    (auto simp: static_lookup_def static_add_def add_static_def static_conflict_single
      simp del: static_conflict.simps split: if_splits)

text \<open>The batch of \<open>add_static\<close> is the same as registering its pairs one by one, but it changes
  nothing when it fails.\<close>

lemma add_static_batch:
  assumes "distinct ms"
  shows "add_static r path ms h = Inr r' \<longleftrightarrow>
    add_all static_add r (map (\<lambda>m. ((m, path), h)) ms) = Inr r'"
  using assms
proof (induction ms arbitrary: r)
  case Nil
  then show ?case by (auto simp: add_static_def)
next
  case (Cons m ms)
  show ?case
  proof (cases "(m, path) \<in> fst ` set (rt_static r)")
    case True
    then show ?thesis by (auto simp: add_static_def static_add_def)
  next
    case False
    let ?r = "r\<lparr>rt_static := dict_set (m, path) h (rt_static r)\<rparr>"
    have "static_conflict (dict_set (m, path) h (rt_static r)) path ms = static_conflict (rt_static r) path ms"
      using Cons.prems by (induction ms) auto
    with False have "add_static r path (m # ms) h = Inr r' \<longleftrightarrow> add_static ?r path ms h = Inr r'"
      by (auto simp: add_static_def split: option.splits)
    moreover have "static_add r (m, path) h = Inr ?r"
      using False by (simp add: static_add_def add_static_def)
    ultimately show ?thesis using Cons by simp
  qed
qed


section \<open>Resolution: what was tried\<close>

abbreviation has_method :: "pystr \<Rightarrow> ('h, 'c) regex_route \<Rightarrow> bool" where
  "has_method meth route \<equiv> meth \<in> fst ` set (rr_handlers route)"

text \<open>When the first loop falls through, every route with the method has been tried and failed.\<close>

lemma scan_routes_tried:
  "scan_routes e c meth path dl i routes cached w = (Inr (Inr cached'), w') \<Longrightarrow>
     (\<forall>k < i. map_of cached' k = map_of cached k) \<and>
     (\<forall>j < length routes. has_method meth (routes ! j) \<longrightarrow> map_of cached' (i + j) = Some None)"
proof (induction routes arbitrary: i cached w)
  case Nil
  then show ?case by simp
next
  case (Cons route routes)
  show ?case
  proof (cases "has_method meth route")
    case False
    with Cons.prems have "scan_routes e c meth path dl (Suc i) routes cached w = (Inr (Inr cached'), w')"
      by simp
    from Cons.IH [OF this] False show ?thesis by (auto simp: nth_Cons split: nat.splits)
  next
    case True
    with Cons.prems obtain w1 where
      "scan_routes e c meth path dl (Suc i) routes (dict_set i None cached) w1 = (Inr (Inr cached'), w')"
      by (auto split: prod.splits sum.splits option.splits)
    from Cons.IH [OF this] show ?thesis by (auto simp: nth_Cons split: nat.splits)
  qed
qed

lemma scan_routes_found:
  "scan_routes e c meth path dl i routes cached w = (Inr (Inl (route, gs)), w') \<Longrightarrow>
     route \<in> set routes \<and> has_method meth route"
  by (induction routes arbitrary: i cached w)
    (fastforce split: prod.splits sum.splits option.splits if_splits)+

lemma scan_routes_error:
  "scan_routes e c meth path dl i routes cached w = (Inl err, w') \<Longrightarrow>
     \<exists>route \<in> set routes. err = RouteMatchTimeout (rr_route_id route)"
proof (induction routes arbitrary: i cached w)
  case (Cons route routes)
  have "match_route e c route path dl w = (Inl err, w'') \<Longrightarrow> err = RouteMatchTimeout (rr_route_id route)" for w''
    by (auto simp: match_route_def Let_def split: prod.splits if_splits match_outcome.splits)
  with Cons show ?case
    by (force split: prod.splits sum.splits option.splits if_splits)
qed simp

lemma collect_allowed_error:
  "collect_allowed e c path dl i routes cached al w = (Inl err, w') \<Longrightarrow>
     \<exists>route \<in> set routes. err = RouteMatchTimeout (rr_route_id route)"
proof (induction routes arbitrary: i al w)
  case (Cons route routes)
  have "match_route e c route path dl w = (Inl err, w'') \<Longrightarrow> err = RouteMatchTimeout (rr_route_id route)" for w''
    by (auto simp: match_route_def Let_def split: prod.splits if_splits match_outcome.splits)
  with Cons show ?case
    by (force split: prod.splits sum.splits option.splits if_splits)
qed simp

lemma collect_allowed_set:
  assumes "collect_allowed e c path dl i routes cached al w = (Inr al', w')"
    and "\<forall>j < length routes. has_method meth (routes ! j) \<longrightarrow> map_of cached (i + j) = Some None"
  shows "set al' \<subseteq> set al \<union> (\<Union>r \<in> set routes. fst ` set (rr_handlers r) - {meth})"
  using assms
proof (induction routes arbitrary: i al w)
  case Nil
  then show ?case by simp
next
  case (Cons route routes)
  have tried: "\<forall>j < length routes. has_method meth (routes ! j) \<longrightarrow> map_of cached (Suc i + j) = Some None"
    using Cons.prems(2) by (metis Suc_less_eq add_Suc_shift length_Cons nth_Cons_Suc)
  from Cons.prems(1) obtain m w1 where
    m: "(case map_of cached i of Some m \<Rightarrow> (Inr m, w) | None \<Rightarrow> match_route e c route path dl w) = (Inr m, w1)"
    and rest: "collect_allowed e c path dl (Suc i) routes cached
      (if m = None then al else al @ map fst (rr_handlers route)) w1 = (Inr al', w')"
    by (auto split: prod.splits sum.splits)
  from Cons.prems(2) have "has_method meth route \<Longrightarrow> map_of cached i = Some None"
    by (metis add_0_right length_Cons nth_Cons_0 zero_less_Suc)
  with m have "m = None \<or> meth \<notin> fst ` set (rr_handlers route)"
    by (cases "has_method meth route") simp_all
  with Cons.IH [OF rest tried] show ?case by (auto split: if_splits)
qed

section \<open>Resolution against a reference\<close>

text \<open>What \<open>fullmatch(path, timeout=t)\<close> of the \<open>regex\<close> package documents: the verdict on a path depends on the
  pattern only, or the call raises \<open>TimeoutError\<close>. Nothing is said of when it does, nor of the clock.\<close>

definition truthful_engine :: "('c, 'w) engine \<Rightarrow> pystr \<Rightarrow> ('c \<Rightarrow> match_outcome) \<Rightarrow> bool" where
  "truthful_engine e path verdict =
     ((\<forall>c t w. 0 < t \<longrightarrow> fst (eng_fullmatch e c path t w) \<in> {verdict c, TimedOut}) \<and> (\<forall>c. verdict c \<noteq> TimedOut))"

definition route_matches :: "('c \<Rightarrow> match_outcome) \<Rightarrow> ('h, 'c) regex_route \<Rightarrow> (pystr \<times> pystr option) list option" where
  "route_matches verdict route = (case verdict (rr_compiled route) of Matched gs \<Rightarrow> Some gs | _ \<Rightarrow> None)"

definition spec_allowed :: "('c \<Rightarrow> match_outcome) \<Rightarrow> ('h, 'c) router \<Rightarrow> pystr \<Rightarrow> pystr set" where
  "spec_allowed verdict r path =
     {m. (m, path) \<in> fst ` set (rt_static r)} \<union>
     {m. \<exists>route \<in> set (rt_regex r). route_matches verdict route \<noteq> None \<and> has_method m route}"

definition spec_resolve ::
  "('c \<Rightarrow> match_outcome) \<Rightarrow> ('h, 'c) router \<Rightarrow> pystr \<Rightarrow> pystr \<Rightarrow> 'h route_match" where
  "spec_resolve verdict r meth path =
     (case map_of (rt_static r) (meth, path) of
        Some h \<Rightarrow> \<lparr>rm_handler = Some h, rm_path_params = [], rm_route_pattern = Some path, rm_allowed_methods = []\<rparr>
      | None \<Rightarrow>
     (case find (\<lambda>route. has_method meth route \<and> route_matches verdict route \<noteq> None) (rt_regex r) of
        Some route \<Rightarrow> \<lparr>rm_handler = map_of (rr_handlers route) meth,
          rm_path_params = captures (the (route_matches verdict route)),
          rm_route_pattern = Some (rr_pattern route), rm_allowed_methods = []\<rparr>
      | None \<Rightarrow> no_handler (sorted_list_of_set (spec_allowed verdict r path))))"

lemma match_route_truthful:
  assumes "truthful_engine e path verdict" and "0 < rc_match_timeout c"
    and "match_route e c route path dl w = (Inr m, w')"
  shows "m = route_matches verdict route"
proof -
  obtain now w1 where clock: "eng_clock e w = (now, w1)" by (cases "eng_clock e w")
  let ?t = "min (rc_match_timeout c) (dl - now)"
  obtain out w2 where full: "eng_fullmatch e (rr_compiled route) path ?t w1 = (out, w2)"
    by (cases "eng_fullmatch e (rr_compiled route) path ?t w1")
  from assms(3) clock full have pos: "0 < ?t" and m: "out \<noteq> TimedOut" "m = (case out of Matched gs \<Rightarrow> Some gs | _ \<Rightarrow> None)"
    using assms(2) by (auto simp: match_route_def Let_def split: match_outcome.splits if_splits)
  have "out \<in> {verdict (rr_compiled route), TimedOut}"
    using assms(1) pos full unfolding truthful_engine_def by (metis fst_conv)
  with m show ?thesis by (simp add: route_matches_def)
qed

lemma ex_index_shift:
  "\<exists>k < length xs. j = Suc i + k \<and> Q (xs ! k) \<Longrightarrow> \<exists>k < length (x # xs). j = i + k \<and> Q ((x # xs) ! k)"
proof -
  assume "\<exists>k < length xs. j = Suc i + k \<and> Q (xs ! k)"
  then obtain k where "k < length xs" "j = Suc i + k" "Q (xs ! k)" by blast
  then show ?thesis by (intro exI [of _ "Suc k"]) simp
qed

definition tried_nothing_new ::
  "('c \<Rightarrow> match_outcome) \<Rightarrow> ('h, 'c) regex_route list \<Rightarrow> nat \<Rightarrow> tried \<Rightarrow> tried \<Rightarrow> bool" where
  "tried_nothing_new verdict routes i cached cached' =
     (\<forall>j. map_of cached' j = map_of cached j \<or> map_of cached' j = Some None \<and>
        (\<exists>k < length routes. j = i + k \<and> route_matches verdict (routes ! k) = None))"

lemma tried_nothing_new_Cons:
  "tried_nothing_new verdict routes (Suc i) cached cached' \<Longrightarrow>
     tried_nothing_new verdict (route # routes) i cached cached'"
  unfolding tried_nothing_new_def
  using ex_index_shift [of routes _ i "\<lambda>r. route_matches verdict r = None" route] by fast

lemma tried_nothing_new_set:
  assumes "tried_nothing_new verdict routes (Suc i) (dict_set i None cached) cached'"
    and "route_matches verdict route = None"
  shows "tried_nothing_new verdict (route # routes) i cached cached'"
  unfolding tried_nothing_new_def
proof
  fix j
  show "map_of cached' j = map_of cached j \<or> map_of cached' j = Some None \<and>
      (\<exists>k < length (route # routes). j = i + k \<and> route_matches verdict ((route # routes) ! k) = None)"
  proof (cases "j = i")
    case True
    with assms have "map_of cached' j = Some None"
      unfolding tried_nothing_new_def by (metis fun_upd_same map_of_dict_set)
    with True assms(2) show ?thesis by (auto intro: exI [of _ 0])
  next
    case False
    with tried_nothing_new_Cons [OF assms(1), unfolded tried_nothing_new_def, rule_format, of j route]
    show ?thesis by simp
  qed
qed

lemma scan_routes_truthful:
  assumes e: "truthful_engine e path verdict" and t: "0 < rc_match_timeout c"
    and "scan_routes e c meth path dl i routes cached w = (Inr found, w')"
  shows "case find (\<lambda>route. has_method meth route \<and> route_matches verdict route \<noteq> None) routes of
      Some route \<Rightarrow> found = Inl (route, the (route_matches verdict route))
    | None \<Rightarrow> \<exists>cached'. found = Inr cached' \<and> tried_nothing_new verdict routes i cached cached'"
  using assms(3)
proof (induction routes arbitrary: i cached w)
  case Nil
  then show ?case by (auto simp: tried_nothing_new_def)
next
  case (Cons route routes)
  show ?case
  proof (cases "has_method meth route")
    case False
    with Cons.prems have "scan_routes e c meth path dl (Suc i) routes cached w = (Inr found, w')" by simp
    from Cons.IH [OF this] False show ?thesis
      by (auto split: option.splits intro: tried_nothing_new_Cons)
  next
    case True
    with Cons.prems obtain m w1 where m: "match_route e c route path dl w = (Inr m, w1)"
      by (auto split: prod.splits sum.splits)
    note eq = match_route_truthful [OF e t m]
    show ?thesis
    proof (cases m)
      case (Some gs)
      with True m eq Cons.prems show ?thesis by auto
    next
      case None
      with True m Cons.prems
      have "scan_routes e c meth path dl (Suc i) routes (dict_set i None cached) w1 = (Inr found, w')" by simp
      moreover have none: "route_matches verdict route = None" using eq None by simp
      ultimately show ?thesis
        using Cons.IH tried_nothing_new_set [OF _ none] by (fastforce split: option.splits)
    qed
  qed
qed

lemma collect_allowed_truthful:
  assumes e: "truthful_engine e path verdict" and t: "0 < rc_match_timeout c"
    and cached: "\<forall>k < length routes. \<forall>m. map_of cached (i + k) = Some m \<longrightarrow> m = route_matches verdict (routes ! k)"
    and run: "collect_allowed e c path dl i routes cached al w = (Inr al', w')"
  shows "al' = al @ concat (map (\<lambda>route. if route_matches verdict route = None then [] else map fst (rr_handlers route)) routes)"
  using cached run
proof (induction routes arbitrary: i al w)
  case Nil
  then show ?case by simp
next
  case (Cons route routes)
  have rest: "\<forall>k < length routes. \<forall>m. map_of cached (Suc i + k) = Some m \<longrightarrow> m = route_matches verdict (routes ! k)"
    using Cons.prems(1) by (metis Suc_less_eq add_Suc_shift length_Cons nth_Cons_Suc)
  obtain m w1 where m: "(case map_of cached i of Some m \<Rightarrow> (Inr m, w) | None \<Rightarrow> match_route e c route path dl w) = (Inr m, w1)"
    and more: "collect_allowed e c path dl (Suc i) routes cached
      (if m = None then al else al @ map fst (rr_handlers route)) w1 = (Inr al', w')"
    using Cons.prems(2) by (auto split: prod.splits sum.splits)
  have "m = route_matches verdict route"
    using m match_route_truthful [OF e t] Cons.prems(1) [rule_format, of 0] by (auto split: option.splits)
  with Cons.IH [OF rest more] show ?case by simp
qed

end
