(* ===== verification/Pattern_Groups.thy ===== *)
theory Pattern_Groups
  imports Routing
begin

text \<open>
  The scanner \<open>_named_group_names\<close> and what a successful compilation guarantees: every capture name
  of the engine is written in the pattern as a named group, once, and the limits hold. The engine's
  own reading of the pattern is only trusted where the scanner agrees with it.
\<close>

section \<open>Declared names\<close>

definition declared :: "pystr \<Rightarrow> pystr \<Rightarrow> bool" where
  "declared n s = (62 \<notin> set n \<and> (\<exists>pre post. s = pre @ lit ''(?P<'' @ n @ 62 # post \<or> s = pre @ lit ''(?<'' @ n @ 62 # post))"

lemma declared_suffix: "declared n t \<Longrightarrow> suffix t s \<Longrightarrow> declared n s"
proof -
  assume d: "declared n t" and "suffix t s"
  then obtain p where s: "s = p @ t" by (auto simp: suffix_def)
  from d obtain pre post where "t = pre @ lit ''(?P<'' @ n @ 62 # post \<or> t = pre @ lit ''(?<'' @ n @ 62 # post"
    by (auto simp: declared_def)
  with s have "s = (p @ pre) @ lit ''(?P<'' @ n @ 62 # post \<or> s = (p @ pre) @ lit ''(?<'' @ n @ 62 # post" by auto
  with d show ?thesis unfolding declared_def by blast
qed

lemma suffix_comment_end: "suffix (comment_end e s) s"
  by (induction e s rule: comment_end.induct) (auto intro: suffix_ConsI)

lemma suffix_drop_trans: "suffix t (drop n s) \<Longrightarrow> suffix t s"
  by (meson suffix_drop suffix_order.trans)

lemma suffix_dropWhile_ConsD: "dropWhile P s = c # cs \<Longrightarrow> suffix cs s"
  by (metis suffix_ConsD suffix_dropWhile)

lemma suffix_match_flags:
  assumes "match_flags s = Some (a, b, d, r)"
  shows "suffix r s"
proof -
  have "suffix r (drop 2 s)"
  proof (cases "dropWhile ascii_letter (drop 2 s)")
    case Nil
    from assms [unfolded match_flags_def Let_def Nil] show ?thesis by (simp split: if_splits)
  next
    case (Cons c cs)
    then have "suffix cs (drop 2 s)" by (rule suffix_dropWhile_ConsD)
    moreover have "r = cs \<or> suffix r cs"
      using assms Cons suffix_dropWhile_ConsD [of ascii_letter cs]
      by (auto simp: match_flags_def Let_def split: if_splits list.splits)
    ultimately show ?thesis using suffix_order.trans by blast
  qed
  then show ?thesis by (rule suffix_drop_trans)
qed

lemma marker_length_cases:
  "marker_length s = 0 \<or> marker_length s = 4 \<and> take 4 s = lit ''(?P<'' \<or> marker_length s = 3 \<and> take 3 s = lit ''(?<''"
  by (simp add: marker_length_def py_text)

lemma partition_rest_eq: "partition_at c xs = (a, True, r) \<Longrightarrow> xs = a @ c # r \<and> c \<notin> set a"
  using partition_at_parts [of c xs a True r] by auto

lemma marker_declares:
  assumes ml: "marker_length s = ml" "ml > 0" and p: "partition_at 62 (drop ml s) = (name, True, rest)"
  shows "declared name s \<and> suffix rest s"
proof -
  from partition_rest_eq [OF p] have d: "drop ml s = name @ 62 # rest" and new: "62 \<notin> set name" by auto
  have s: "s = take ml s @ drop ml s" by simp
  from marker_length_cases [of s] ml have "take ml s = lit ''(?P<'' \<or> take ml s = lit ''(?<''" by auto
  with s d have "s = [] @ lit ''(?P<'' @ name @ 62 # rest \<or> s = [] @ lit ''(?<'' @ name @ 62 # rest" by auto
  moreover have "suffix rest s"
    using s d by (metis append.assoc append_Cons append_Nil suffixI)
  ultimately show ?thesis using new unfolding declared_def by blast
qed

lemma group_names_declared:
  "n \<in> set (group_names s stack escaped in_class names) \<Longrightarrow> n \<in> set names \<or> declared n s"
proof (induction s stack escaped in_class names rule: group_names.induct)
  case (1 stack escaped in_class names)
  then show ?case by simp
next
  case (2 c cs stack escaped in_class names)
  have cs: "suffix cs (c # cs)" by (simp add: suffix_ConsI)
  have nl: "suffix (drop 1 (dropWhile (\<lambda>x. x \<noteq> 10) cs)) (c # cs)"
    by (meson cs suffix_drop suffix_dropWhile suffix_order.trans)
  have ce: "suffix (comment_end False (drop 2 cs)) (c # cs)"
    by (meson cs suffix_comment_end suffix_drop_trans suffix_order.trans)
  note IH = "2.IH" and here = "2.prems"
  consider (esc) "escaped" | (bs) "\<not> escaped" "c = 92" | (op) "\<not> escaped" "c = 91"
    | (cl) "\<not> escaped" "c = 93" "in_class"
    | (cls) "\<not> escaped" "in_class" "c \<noteq> 92" "c \<noteq> 91" "c \<noteq> 93"
    | (hash) "\<not> escaped" "\<not> in_class" "hd stack" "c = 35"
    | (comment) "\<not> escaped" "\<not> in_class" "c = 40" "take 3 (c # cs) = [40, 63, 35]"
    | (bra) "\<not> escaped" "\<not> in_class" "c = 40" "take 3 (c # cs) \<noteq> [40, 63, 35]"
    | (ket) "\<not> escaped" "\<not> in_class" "c = 41"
    | (other) "\<not> escaped" "\<not> in_class" "c \<noteq> 92" "c \<noteq> 91" "\<not> (hd stack \<and> c = 35)" "c \<noteq> 40" "c \<noteq> 41"
    by fastforce
  then show ?case
  proof cases
    case esc
    with here IH(1) show ?thesis by (auto dest!: declared_suffix [OF _ cs])
  next
    case bs
    with here IH(2) show ?thesis by (auto dest!: declared_suffix [OF _ cs])
  next
    case op
    with here IH(3) show ?thesis by (auto dest!: declared_suffix [OF _ cs])
  next
    case cl
    with here IH(4) show ?thesis by (auto dest!: declared_suffix [OF _ cs])
  next
    case cls
    with here IH(12) show ?thesis by (auto dest!: declared_suffix [OF _ cs])
  next
    case hash
    with here IH(5) have "n \<in> set names \<or> declared n (drop 1 (dropWhile (\<lambda>x. x \<noteq> 10) cs))" by simp
    then show ?thesis using declared_suffix [OF _ nl] by blast
  next
    case comment
    with here IH(6) show ?thesis by (auto dest!: declared_suffix [OF _ ce])
  next
    case ket
    with here IH(11) show ?thesis by (auto dest!: declared_suffix [OF _ cs])
  next
    case other
    with here IH(12) show ?thesis by (auto dest!: declared_suffix [OF _ cs])
  next
    case bra
    then have cond: "\<not> escaped" "c \<noteq> 92" "c \<noteq> 91" "\<not> (c = 93 \<and> in_class)" "\<not> (\<not> in_class \<and> hd stack \<and> c = 35)"
      "\<not> (\<not> in_class \<and> take 3 (c # cs) = [40, 63, 35])" "\<not> in_class \<and> c = 40" by auto
    show ?thesis
    proof (cases "match_flags (c # cs)")
      case (Some m)
      obtain enabled disabled colon rest where m: "m = (enabled, disabled, colon, rest)" by (cases m)
      with Some have "suffix rest (c # cs)" by (simp add: suffix_match_flags)
      moreover from IH(9) [OF cond Some m [symmetric] refl refl refl] IH(10) [OF cond Some m [symmetric] refl refl refl] here cond Some m
      have "n \<in> set names \<or> declared n rest" by (simp add: Let_def split: if_splits)
      ultimately show ?thesis using declared_suffix by blast
    next
      case None
      let ?ml = "marker_length (c # cs)"
      obtain name found rest where p: "partition_at 62 (drop ?ml (c # cs)) = (name, found, rest)"
        by (cases "partition_at 62 (drop ?ml (c # cs))")
      show ?thesis
      proof (cases "?ml > 0 \<and> found")
        case True
        with p have "declared name (c # cs)" "suffix rest (c # cs)"
          using marker_declares [of "c # cs" ?ml name rest] by auto
        moreover have "n \<in> set (names @ [name]) \<or> declared n rest"
          using IH(7) [OF cond None refl p [symmetric] refl True] here cond None p True by (simp add: Let_def)
        ultimately show ?thesis using declared_suffix by auto
      next
        case nf: False
        have "n \<in> set names \<or> declared n cs"
          using IH(8) [OF cond None refl p [symmetric] refl nf] here cond None p nf by (auto simp: Let_def)
        then show ?thesis using declared_suffix [OF _ cs] by blast
      qed
    qed
  qed
qed


section \<open>Compilation\<close>

lemma distinct_by_count: "set xs = set ys \<Longrightarrow> length xs = length ys \<Longrightarrow> distinct ys \<Longrightarrow> distinct xs"
  by (metis card_distinct distinct_card)

text \<open>C11. What a successful compilation guarantees: the pattern starts with a slash and keeps the
  length limit, the engine compiled exactly the wrapped pattern, and its capture names are at most
  \<open>max_named_captures\<close>, each of them written in the pattern as a named group, by the scanner's count
  exactly once.\<close>

theorem compiled_pattern_ok:
  assumes "compile_pattern eng config pattern = Inr compiled"
  shows "take 1 pattern = lit ''/'' \<and> int (length pattern) \<le> rc_max_pattern_length config \<and>
    (\<exists>e. eng = Some e \<and> eng_compile e (lit ''(?=/)(?:'' @ pattern @ lit '')'') = Some compiled \<and>
       distinct (named_group_names pattern) \<and>
       set (named_group_names pattern) = set (eng_groups e compiled) \<and>
       int (card (set (eng_groups e compiled))) \<le> rc_max_named_captures config \<and>
       (\<forall>n \<in> set (eng_groups e compiled). declared n pattern))"
proof -
  from assms obtain e where e: "eng = Some e" "eng_compile e (lit ''(?=/)(?:'' @ pattern @ lit '')'') = Some compiled"
    and slash: "starts_with (lit ''/'') pattern" and len: "int (length pattern) \<le> rc_max_pattern_length config"
    and same: "set (named_group_names pattern) = set (dedup (eng_groups e compiled))"
    and count: "length (named_group_names pattern) = length (dedup (eng_groups e compiled))"
    and caps: "int (length (dedup (eng_groups e compiled))) \<le> rc_max_named_captures config"
    by (auto simp: compile_pattern_def Let_def split: if_splits option.splits)
  from same count have "distinct (named_group_names pattern)" by (rule distinct_by_count) simp
  moreover have "declared n pattern" if "n \<in> set (eng_groups e compiled)" for n
    using that same group_names_declared [of n pattern "[False]" False False "[]"]
    by (simp add: named_group_names_def)
  moreover have "card (set (eng_groups e compiled)) = length (dedup (eng_groups e compiled))"
    using distinct_card [of "dedup (eng_groups e compiled)"] by simp
  moreover have "take 1 pattern = lit ''/''"
    using slash by (cases pattern) (auto simp: starts_with_def py_text)
  ultimately show ?thesis using e len same caps by auto
qed


text \<open>An engine for the witnesses: it knows literal patterns only, and its clock stands still.\<close>

definition literal_engine :: "pystr list \<Rightarrow> (pystr, unit) engine" where
  "literal_engine groups = \<lparr>eng_compile = Some, eng_groups = (\<lambda>_. groups),
     eng_fullmatch = (\<lambda>c p t w. (if c = lit ''(?=/)(?:'' @ p @ lit '')'' then Matched [] else NoMatch, w)),
     eng_clock = (\<lambda>w. (0, w))\<rparr>"

definition sample_config :: regex_config where
  "sample_config = \<lparr>rc_max_path_bytes = 8192, rc_max_pattern_length = 1024, rc_max_routes = 100,
     rc_match_timeout = 10, rc_total_match_timeout = 50, rc_max_named_captures = 20\<rparr>"

lemma compiled_pattern_ok_witness:
  "set (named_group_names (lit ''/u/(?P<id>x)'')) =
     set (eng_groups (literal_engine [lit ''id'']) (lit ''(?=/)(?:/u/(?P<id>x))''))"
proof -
  have "compile_pattern (Some (literal_engine [lit ''id''])) sample_config (lit ''/u/(?P<id>x)'') =
      Inr (lit ''(?=/)(?:/u/(?P<id>x))'')"
    by (simp add: compile_pattern_def literal_engine_def sample_config_def starts_with_def named_group_names_def
      match_flags_def marker_length_def dedup_def ascii_letter_def Let_def py_text)
  from compiled_pattern_ok [OF this] show ?thesis by auto
qed

end
