(* ===== verification/Resolution.thy ===== *)
theory Resolution
  imports Pattern_Groups
begin

text \<open>
  What \<open>Router.resolve\<close> promises to \<open>SmallServer.dispatch\<close>: static routes win and never touch the
  engine, the answer is that of the reference \<open>spec_resolve\<close> unless the time budget runs out, the
  methods reported for a 405 are right whatever the engine does, matching stays inside its time
  budget, and the errors are the documented ones.
\<close>

section \<open>Shared facts\<close>

lemma static_methods_set: "set (static_methods_at r path) = {m. (m, path) \<in> fst ` set (rt_static r)}"
  by (force simp: static_methods_at_def)

lemma static_methods_distinct:
  assumes "router_wf r" shows "distinct (static_methods_at r path)"
proof -
  have "distinct (map fst (rt_static r))" using assms by (simp add: router_wf_def static_wf_def dict_wf_def)
  then show ?thesis
    unfolding static_methods_at_def distinct_map by (force simp: inj_on_def)
qed

lemma static_methods_supported: "router_wf r \<Longrightarrow> set (static_methods_at r path) \<subseteq> set supported_methods"
  by (force simp: static_methods_set router_wf_def static_wf_def)

lemma no_handler_sel [simp]:
  "rm_handler (no_handler al) = None" "rm_allowed_methods (no_handler al) = al"
  "rm_path_params (no_handler al) = []" "rm_route_pattern (no_handler al) = None"
  by (simp_all add: no_handler_def)

lemma sort_distinct_set: "distinct xs \<Longrightarrow> sort xs = sorted_list_of_set (set (xs :: 'a :: linorder list))"
  by (simp add: sorted_list_of_set_sort_remdups distinct_remdups_id)

lemma collect_allowed_all:
  assumes "collect_allowed e c path dl i routes cached al w = (Inr al', w')"
  shows "set al' \<subseteq> set al \<union> (\<Union>r \<in> set routes. fst ` set (rr_handlers r))"
  using assms
proof (induction routes arbitrary: i al w)
  case (Cons route routes)
  obtain res w1 where m: "(case map_of cached i of Some m \<Rightarrow> (Inr m, w) | None \<Rightarrow> match_route e c route path dl w) = (res, w1)"
    by (cases "case map_of cached i of Some m \<Rightarrow> (Inr m, w) | None \<Rightarrow> match_route e c route path dl w")
  show ?case
  proof (cases res)
    case (Inl err)
    with Cons.prems m show ?thesis by simp
  next
    case (Inr o1)
    with Cons.prems m have "collect_allowed e c path dl (Suc i) routes cached
      (if o1 = None then al else al @ map fst (rr_handlers route)) w1 = (Inr al', w')" by simp
    from Cons.IH [OF this] show ?thesis by (auto split: if_splits)
  qed
qed simp

lemma collect_allowed_grows:
  assumes "collect_allowed e c path dl i routes cached al w = (Inr al', w')"
  shows "set al \<subseteq> set al'"
  using assms
proof (induction routes arbitrary: i al w)
  case (Cons route routes)
  obtain res w1 where m: "(case map_of cached i of Some m \<Rightarrow> (Inr m, w) | None \<Rightarrow> match_route e c route path dl w) = (res, w1)"
    by (cases "case map_of cached i of Some m \<Rightarrow> (Inr m, w) | None \<Rightarrow> match_route e c route path dl w")
  show ?case
  proof (cases res)
    case (Inl err)
    with Cons.prems m show ?thesis by simp
  next
    case (Inr o1)
    with Cons.prems m have "collect_allowed e c path dl (Suc i) routes cached
      (if o1 = None then al else al @ map fst (rr_handlers route)) w1 = (Inr al', w')" by simp
    from Cons.IH [OF this] show ?thesis by (auto split: if_splits)
  qed
qed simp

lemma regex_methods_supported:
  assumes "router_wf r" shows "(\<Union>rt \<in> set (rt_regex r). fst ` set (rr_handlers rt)) \<subseteq> set supported_methods"
proof -
  have "route_wf rt" if "rt \<in> set (rt_regex r)" for rt
    using assms that by (auto simp: router_wf_def regex_table_wf_def in_set_conv_nth)
  then show ?thesis by (force simp: route_wf_def)
qed

section \<open>The five ways a resolution ends\<close>

lemma resolve_cases:
  assumes "resolve e r meth path w = (res, w')"
  obtains
    (static) h where "map_of (rt_static r) (py_upper meth, path) = Some h" "w' = w"
      "res = Inr \<lparr>rm_handler = Some h, rm_path_params = [], rm_route_pattern = Some path, rm_allowed_methods = []\<rparr>"
  | (no_regex) "map_of (rt_static r) (py_upper meth, path) = None" "rt_regex r = []" "w' = w"
      "res = Inr (no_handler (sort (static_methods_at r path)))"
  | (bad_path) err where "validate_path (rt_config r) path = Inl err" "rt_regex r \<noteq> []" "w' = w" "res = Inl err"
  | (timeout) route where "route \<in> set (rt_regex r)" "res = Inl (RouteMatchTimeout (rr_route_id route))"
      "validate_path (rt_config r) path = Inr ()"
  | (regex) route gs dl w1 where "map_of (rt_static r) (py_upper meth, path) = None" "route \<in> set (rt_regex r)"
      "has_method (py_upper meth) route"
      "scan_routes e (rt_config r) (py_upper meth) path dl 0 (rt_regex r) [] w1 = (Inr (Inl (route, gs)), w')"
      "res = Inr \<lparr>rm_handler = map_of (rr_handlers route) (py_upper meth), rm_path_params = captures gs,
         rm_route_pattern = Some (rr_pattern route), rm_allowed_methods = []\<rparr>"
  | (unmatched) cached allowed dl w1 w2 where "map_of (rt_static r) (py_upper meth, path) = None"
      "scan_routes e (rt_config r) (py_upper meth) path dl 0 (rt_regex r) [] w1 = (Inr (Inr cached), w2)"
      "collect_allowed e (rt_config r) path dl 0 (rt_regex r) cached (static_methods_at r path) w2 = (Inr allowed, w')"
      "res = Inr (no_handler (sort (remdups allowed)))"
proof (cases "map_of (rt_static r) (py_upper meth, path)")
  case (Some h)
  with assms static show ?thesis by (auto simp: resolve_def)
next
  case st: None
  show ?thesis
  proof (cases "rt_regex r = []")
    case True
    with assms st no_regex show ?thesis by (auto simp: resolve_def)
  next
    case regexes: False
    show ?thesis
    proof (cases "validate_path (rt_config r) path")
      case (Inl err)
      with assms st regexes bad_path show ?thesis by (auto simp: resolve_def)
    next
      case (Inr u)
      obtain now w1 where clk: "eng_clock e w = (now, w1)" by (cases "eng_clock e w")
      let ?dl = "now + rc_total_match_timeout (rt_config r)"
      obtain s w2 where sc: "scan_routes e (rt_config r) (py_upper meth) path ?dl 0 (rt_regex r) [] w1 = (s, w2)"
        by (cases "scan_routes e (rt_config r) (py_upper meth) path ?dl 0 (rt_regex r) [] w1")
      show ?thesis
      proof (cases s)
        case (Inl err)
        from scan_routes_error [OF sc [unfolded this]] obtain route
          where "route \<in> set (rt_regex r)" "err = RouteMatchTimeout (rr_route_id route)" by blast
        with assms st regexes \<open>validate_path _ _ = Inr u\<close> clk sc Inl timeout show ?thesis
          by (auto simp: resolve_def)
      next
        case s: (Inr q)
        show ?thesis
        proof (cases q)
          case (Inl rg)
          obtain route gs where rg: "rg = (route, gs)" by (cases rg)
          from scan_routes_found [OF sc [unfolded s Inl rg]]
          have "route \<in> set (rt_regex r)" "has_method (py_upper meth) route" by blast+
          with assms st regexes Inr clk sc s Inl rg regex show ?thesis by (auto simp: resolve_def)
        next
          case cached: (Inr cached)
          obtain a w3 where ca: "collect_allowed e (rt_config r) path ?dl 0 (rt_regex r) cached (static_methods_at r path) w2 = (a, w3)"
            by (cases "collect_allowed e (rt_config r) path ?dl 0 (rt_regex r) cached (static_methods_at r path) w2")
          show ?thesis
          proof (cases a)
            case (Inl err)
            from collect_allowed_error [OF ca [unfolded this]] obtain route
              where "route \<in> set (rt_regex r)" "err = RouteMatchTimeout (rr_route_id route)" by blast
            with assms st regexes \<open>validate_path _ _ = Inr u\<close> clk sc s cached ca Inl timeout show ?thesis
              by (auto simp: resolve_def)
          next
            case (Inr allowed)
            with assms st regexes \<open>validate_path _ _ = Inr u\<close> clk sc s cached ca
            have answer: "res = Inr (no_handler (sort (remdups allowed)))" and final: "w3 = w'"
              by (auto simp: resolve_def)
            show ?thesis by (rule unmatched [OF st sc [unfolded s cached] ca [unfolded Inr final] answer])
          qed
        qed
      qed
    qed
  qed
qed


section \<open>Agreement with the reference\<close>

lemma spec_allowed_eq:
  "spec_allowed verdict r path = set (static_methods_at r path @ concat (map (\<lambda>route.
     if route_matches verdict route = None then [] else map fst (rr_handlers route)) (rt_regex r)))"
proof -
  have "m \<in> (\<Union>route \<in> set (rt_regex r). set (if route_matches verdict route = None then [] else map fst (rr_handlers route)))
      \<longleftrightarrow> (\<exists>route \<in> set (rt_regex r). route_matches verdict route \<noteq> None \<and> has_method m route)" for m
    by (intro iffI; force split: if_splits)
  then show ?thesis by (simp only: spec_allowed_def static_methods_set set_append set_concat set_map image_image) blast
qed

lemma spec_resolve_no_regex:
  "router_wf r \<Longrightarrow> rt_regex r = [] \<Longrightarrow> map_of (rt_static r) (meth, path) = None \<Longrightarrow>
     spec_resolve verdict r meth path = no_handler (sort (static_methods_at r path))"
  by (simp add: spec_resolve_def spec_allowed_eq sort_distinct_set static_methods_distinct)

lemma resolve_truthful:
  assumes wf: "router_wf r" and e: "truthful_engine e path verdict" and t: "0 < rc_match_timeout (rt_config r)"
    and run: "resolve e r meth path w = (Inr rm, w')"
  shows "rm = spec_resolve verdict r (py_upper meth) path"
  using run
proof (cases rule: resolve_cases)
  case (regex route gs dl w1)
  from scan_routes_truthful [OF e t regex(4)] regex(1,5) show ?thesis
    by (auto simp: spec_resolve_def split: option.splits)
next
  case (unmatched cached allowed dl w1 w2)
  from scan_routes_truthful [OF e t unmatched(2)]
  have none: "find (\<lambda>route. has_method (py_upper meth) route \<and> route_matches verdict route \<noteq> None) (rt_regex r) = None"
    and new: "tried_nothing_new verdict (rt_regex r) 0 [] cached"
    by (auto split: option.splits)
  have "\<forall>k < length (rt_regex r). \<forall>m. map_of cached (0 + k) = Some m \<longrightarrow> m = route_matches verdict (rt_regex r ! k)"
    using new unfolding tried_nothing_new_def by (metis add_0 map_of.simps(1) option.distinct(1) option.inject)
  from collect_allowed_truthful [OF e t this unmatched(3)] none unmatched(1,4) show ?thesis
    unfolding spec_resolve_def spec_allowed_eq
    by (simp add: sorted_list_of_set_sort_remdups del: set_append set_concat)
next
  case no_regex
  with spec_resolve_no_regex [OF wf] show ?thesis by simp
qed (simp_all add: spec_resolve_def)

section \<open>Time budgets\<close>

text \<open>The engine with a log: the clock readings so far and, for every match, the pattern, the last
  reading before it and the time it was given (latest first).\<close>

type_synonym ('c, 'w) logged_world = "'w \<times> int list \<times> ('c \<times> int \<times> int) list"

definition logged :: "('c, 'w) engine \<Rightarrow> ('c, ('c, 'w) logged_world) engine" where
  "logged e = \<lparr>eng_compile = eng_compile e, eng_groups = eng_groups e,
     eng_fullmatch = (\<lambda>c p t (w, reads, log). case eng_fullmatch e c p t w of (out, w') \<Rightarrow> (out, (w', reads, (c, hd reads, t) # log))),
     eng_clock = (\<lambda>(w, reads, log). case eng_clock e w of (n, w') \<Rightarrow> (n, (w', n # reads, log)))\<rparr>"

definition within_budget :: "regex_config \<Rightarrow> int \<Rightarrow> ('c, 'w) logged_world \<Rightarrow> bool" where
  "within_budget c dl lw = (\<forall>(p, now, t) \<in> set (snd (snd lw)). 0 < t \<and> t \<le> rc_match_timeout c \<and> now + t \<le> dl)"

abbreviation matches_made :: "('c, 'w) logged_world \<Rightarrow> nat" where
  "matches_made lw \<equiv> length (snd (snd lw))"

definition log_step :: "regex_config \<Rightarrow> int \<Rightarrow> nat \<Rightarrow> ('c, 'w) logged_world \<Rightarrow> ('c, 'w) logged_world \<Rightarrow> bool" where
  "log_step c dl n lw lw' = ((within_budget c dl lw \<longrightarrow> within_budget c dl lw') \<and>
     matches_made lw' \<le> matches_made lw + n \<and> (\<exists>reads. fst (snd lw') = reads @ fst (snd lw)))"

lemma log_step_refl: "log_step c dl n lw lw"
  by (simp add: log_step_def)

lemma log_step_trans:
  assumes "log_step c dl n lw lw1" and "log_step c dl m lw1 lw2" and "n + m \<le> k"
  shows "log_step c dl k lw lw2"
proof -
  have "\<exists>reads. fst (snd lw2) = reads @ fst (snd lw)"
    using assms(1,2) unfolding log_step_def by (metis append.assoc)
  moreover have "matches_made lw2 \<le> matches_made lw + k"
    using assms by (auto simp: log_step_def)
  ultimately show ?thesis using assms(1,2) unfolding log_step_def by blast
qed

lemma log_step_mono: "log_step c dl n lw lw' \<Longrightarrow> n \<le> k \<Longrightarrow> log_step c dl k lw lw'"
  by (auto simp: log_step_def)

lemma match_route_logged:
  assumes "match_route (logged e) c route path dl lw = (res, lw')" and "0 < rc_match_timeout c"
  shows "log_step c dl 1 lw lw'"
proof -
  obtain w reads log where lw: "lw = (w, reads, log)" by (cases lw)
  obtain now w1 where clk: "eng_clock e w = (now, w1)" by (cases "eng_clock e w")
  let ?t = "min (rc_match_timeout c) (dl - now)"
  obtain out w2 where fm: "eng_fullmatch e (rr_compiled route) path ?t w1 = (out, w2)"
    by (cases "eng_fullmatch e (rr_compiled route) path ?t w1")
  have "lw' = (if dl - now \<le> 0 then (w1, now # reads, log) else (w2, now # reads, (rr_compiled route, now, ?t) # log))"
    using assms(1) clk fm by (auto simp: match_route_def lw logged_def Let_def split: match_outcome.splits if_splits)
  with assms(2) show ?thesis by (auto simp: within_budget_def log_step_def lw)
qed

lemma scan_routes_logged:
  assumes "scan_routes (logged e) c meth path dl i routes cached lw = (res, lw')" and "0 < rc_match_timeout c"
  shows "log_step c dl (length (filter (has_method meth) routes)) lw lw'"
  using assms(1)
proof (induction routes arbitrary: i cached lw)
  case Nil
  then show ?case by (simp add: log_step_refl)
next
  case (Cons route routes)
  show ?case
  proof (cases "has_method meth route")
    case False
    with Cons show ?thesis by auto
  next
    case True
    obtain m lw1 where m: "match_route (logged e) c route path dl lw = (m, lw1)"
      by (cases "match_route (logged e) c route path dl lw")
    note one = match_route_logged [OF m assms(2)]
    consider "m = Inr None" | "lw' = lw1" using Cons.prems True m by (auto split: sum.splits option.splits)
    then show ?thesis
    proof cases
      case 1
      with Cons.prems True m
      have "scan_routes (logged e) c meth path dl (Suc i) routes (dict_set i None cached) lw1 = (res, lw')" by simp
      from log_step_trans [OF one Cons.IH [OF this]] True show ?thesis by simp
    next
      case 2
      from log_step_mono [OF one] True 2 show ?thesis by simp
    qed
  qed
qed

lemma collect_allowed_logged:
  assumes "collect_allowed (logged e) c path dl i routes cached al lw = (res, lw')" and "0 < rc_match_timeout c"
    and "\<forall>j < length routes. has_method meth (routes ! j) \<longrightarrow> map_of cached (i + j) = Some None"
  shows "log_step c dl (length (filter (\<lambda>r. \<not> has_method meth r) routes)) lw lw'"
  using assms(1,3)
proof (induction routes arbitrary: i al lw)
  case Nil
  then show ?case by (simp add: log_step_refl)
next
  case (Cons route routes)
  have tried: "\<forall>j < length routes. has_method meth (routes ! j) \<longrightarrow> map_of cached (Suc i + j) = Some None"
    using Cons.prems(2) by (metis Suc_less_eq add_Suc_shift length_Cons nth_Cons_Suc)
  have first: "has_method meth route \<Longrightarrow> map_of cached i = Some None"
    using Cons.prems(2) by (metis add_0_right length_Cons nth_Cons_0 zero_less_Suc)
  let ?step = "case map_of cached i of Some m \<Rightarrow> (Inr m, lw) | None \<Rightarrow> match_route (logged e) c route path dl lw"
  obtain m lw1 where m: "?step = (m, lw1)" by (cases ?step)
  have one: "log_step c dl (if has_method meth route then 0 else 1) lw lw1"
  proof (cases "map_of cached i")
    case None
    with first match_route_logged [of e c route path dl lw m lw1] m assms(2) show ?thesis by auto
  next
    case (Some x)
    with m show ?thesis by (simp add: log_step_refl)
  qed
  show ?case
  proof (cases m)
    case (Inl err)
    with Cons.prems(1) m have "lw' = lw1" by simp
    with log_step_mono [OF one] show ?thesis by simp
  next
    case (Inr o1)
    with Cons.prems(1) m have "collect_allowed (logged e) c path dl (Suc i) routes cached
      (if o1 = None then al else al @ map fst (rr_handlers route)) lw1 = (res, lw')" by simp
    from log_step_trans [OF one Cons.IH [OF this tried]] show ?thesis by simp
  qed
qed

section \<open>The logging engine changes nothing\<close>

lemma match_route_transparent:
  "match_route e c route path dl (fst lw) = map_prod id fst (match_route (logged e) c route path dl lw)"
  by (cases lw) (auto simp: match_route_def logged_def Let_def split: prod.splits match_outcome.splits)

lemma scan_routes_transparent:
  "scan_routes e c meth path dl i routes cached (fst lw) =
     map_prod id fst (scan_routes (logged e) c meth path dl i routes cached lw)"
proof (induction routes arbitrary: i cached lw)
  case (Cons route routes)
  obtain m lw1 where "match_route (logged e) c route path dl lw = (m, lw1)"
    by (cases "match_route (logged e) c route path dl lw")
  with Cons.IH match_route_transparent [of e c route path dl lw] show ?case
    by (auto split: sum.splits option.splits)
qed simp

lemma collect_allowed_transparent:
  "collect_allowed e c path dl i routes cached al (fst lw) =
     map_prod id fst (collect_allowed (logged e) c path dl i routes cached al lw)"
proof (induction routes arbitrary: i al lw)
  case (Cons route routes)
  obtain m lw1 where "match_route (logged e) c route path dl lw = (m, lw1)"
    by (cases "match_route (logged e) c route path dl lw")
  with Cons.IH match_route_transparent [of e c route path dl lw] show ?case
    by (auto split: sum.splits option.splits)
qed simp

lemma resolve_transparent:
  "resolve e r meth path (fst lw) = map_prod id fst (resolve (logged e) r meth path lw)"
proof -
  obtain now lw1 where clk: "eng_clock (logged e) lw = (now, lw1)" by (cases "eng_clock (logged e) lw")
  then have clk': "eng_clock e (fst lw) = (now, fst lw1)" by (cases lw) (auto simp: logged_def split: prod.splits)
  let ?dl = "now + rc_total_match_timeout (rt_config r)"
  obtain s lw2 where sc: "scan_routes (logged e) (rt_config r) (py_upper meth) path ?dl 0 (rt_regex r) [] lw1 = (s, lw2)"
    by (cases "scan_routes (logged e) (rt_config r) (py_upper meth) path ?dl 0 (rt_regex r) [] lw1")
  have sc': "scan_routes e (rt_config r) (py_upper meth) path ?dl 0 (rt_regex r) [] (fst lw1) = (s, fst lw2)"
    using sc by (simp add: scan_routes_transparent)
  show ?thesis
    by (simp add: resolve_def Let_def clk clk' sc sc' collect_allowed_transparent split: option.split sum.split prod.split)
qed

section \<open>Why a resolution times out\<close>

text \<open>The deadline had passed at the last clock reading, or the last match was of this route's pattern and
  the engine gave it up.\<close>

definition timed_out :: "('c, 'w) engine \<Rightarrow> pystr \<Rightarrow> int \<Rightarrow> ('h, 'c) regex_route \<Rightarrow> ('c, 'w) logged_world \<Rightarrow> bool" where
  "timed_out e path dl route lw =
     (dl \<le> hd (fst (snd lw)) \<or>
      (\<exists>now t rest w1. snd (snd lw) = (rr_compiled route, now, t) # rest \<and>
         eng_fullmatch e (rr_compiled route) path t w1 = (TimedOut, fst lw)))"

definition times_out_for :: "('c, 'w) engine \<Rightarrow> pystr \<Rightarrow> int \<Rightarrow> ('h, 'c) regex_route list \<Rightarrow> route_error \<Rightarrow> ('c, 'w) logged_world \<Rightarrow> bool" where
  "times_out_for e path dl routes err lw =
     (\<exists>route \<in> set routes. err = RouteMatchTimeout (rr_route_id route) \<and> timed_out e path dl route lw)"

lemma match_route_times_out:
  assumes "match_route (logged e) c route path dl lw = (Inl err, lw')"
  shows "times_out_for e path dl (route # routes) err lw'"
proof -
  obtain w reads log where lw: "lw = (w, reads, log)" by (cases lw)
  obtain now w1 where clk: "eng_clock e w = (now, w1)" by (cases "eng_clock e w")
  let ?t = "min (rc_match_timeout c) (dl - now)"
  obtain out w2 where fm: "eng_fullmatch e (rr_compiled route) path ?t w1 = (out, w2)"
    by (cases "eng_fullmatch e (rr_compiled route) path ?t w1")
  have "err = RouteMatchTimeout (rr_route_id route)"
    using assms by (auto simp: match_route_def Let_def split: prod.splits if_splits match_outcome.splits)
  moreover have "timed_out e path dl route lw'"
    using assms clk fm
    by (auto simp: timed_out_def match_route_def lw logged_def Let_def split: match_outcome.splits if_splits)
  ultimately show ?thesis by (auto simp: times_out_for_def)
qed

lemma times_out_for_Cons: "times_out_for e path dl routes err lw \<Longrightarrow> times_out_for e path dl (route # routes) err lw"
  by (auto simp: times_out_for_def)

lemma scan_routes_times_out:
  "scan_routes (logged e) c meth path dl i routes cached lw = (Inl err, lw') \<Longrightarrow> times_out_for e path dl routes err lw'"
proof (induction routes arbitrary: i cached lw)
  case (Cons route routes)
  obtain m lw1 where m: "match_route (logged e) c route path dl lw = (m, lw1)"
    by (cases "match_route (logged e) c route path dl lw")
  show ?case
  proof (cases "\<exists>j cached' lw2. scan_routes (logged e) c meth path dl j routes cached' lw2 = (Inl err, lw')")
    case True
    with Cons.IH times_out_for_Cons show ?thesis by blast
  next
    case False
    then have none: "scan_routes (logged e) c meth path dl j routes cached' lw2 \<noteq> (Inl err, lw')" for j cached' lw2
      by blast
    with Cons.prems m have "m = Inl err \<and> lw1 = lw'" by (simp split: sum.splits option.splits if_splits)
    with m match_route_times_out show ?thesis by blast
  qed
qed simp

lemma collect_allowed_times_out:
  "collect_allowed (logged e) c path dl i routes cached al lw = (Inl err, lw') \<Longrightarrow> times_out_for e path dl routes err lw'"
proof (induction routes arbitrary: i al lw)
  case (Cons route routes)
  obtain m lw1 where m: "(case map_of cached i of Some m \<Rightarrow> (Inr m, lw)
      | None \<Rightarrow> match_route (logged e) c route path dl lw) = (m, lw1)"
    by (cases "case map_of cached i of Some m \<Rightarrow> (Inr m, lw) | None \<Rightarrow> match_route (logged e) c route path dl lw")
  show ?case
  proof (cases m)
    case (Inl err')
    with m Cons.prems show ?thesis by (auto intro: match_route_times_out split: option.splits)
  next
    case (Inr o1)
    with m Cons.prems have "collect_allowed (logged e) c path dl (Suc i) routes cached
      (if o1 = None then al else al @ map fst (rr_handlers route)) lw1 = (Inl err, lw')" by simp
    from times_out_for_Cons [OF Cons.IH [OF this]] show ?thesis .
  qed
qed simp

lemma resolve_times_out:
  assumes run: "resolve (logged e) r meth path (w, [], []) = (Inl err, lw')" and t: "0 < rc_match_timeout (rt_config r)"
    and path: "validate_path (rt_config r) path = Inr ()"
  shows "\<exists>dl. times_out_for e path dl (rt_regex r) err lw' \<and>
    dl = last (fst (snd lw')) + rc_total_match_timeout (rt_config r)"
proof -
  let ?c = "rt_config r" and ?m = "py_upper meth"
  obtain now w1 where clk: "eng_clock e w = (now, w1)" by (cases "eng_clock e w")
  have clk': "eng_clock (logged e) (w, [], []) = (now, (w1, [now], []))" by (simp add: logged_def clk)
  define dl where "dl = now + rc_total_match_timeout ?c"
  have more: "map_of (rt_static r) (?m, path) = None" "rt_regex r \<noteq> []"
    using run by (auto simp: resolve_def Let_def split: option.splits if_splits)
  obtain s lw2 where sc: "scan_routes (logged e) ?c ?m path dl 0 (rt_regex r) [] (w1, [now], []) = (s, lw2)"
    by (cases "scan_routes (logged e) ?c ?m path dl 0 (rt_regex r) [] (w1, [now], [])")
  note one = scan_routes_logged [OF sc t]
  have "times_out_for e path dl (rt_regex r) err lw' \<and> (\<exists>n. log_step ?c dl n (w1, [now], []) lw')"
  proof (cases s)
    case (Inl err')
    with run more path clk' sc have "err' = err \<and> lw2 = lw'" by (auto simp: resolve_def dl_def)
    with scan_routes_times_out Inl sc one show ?thesis by blast
  next
    case (Inr found)
    with run more path clk' sc obtain cached where found: "found = Inr cached"
      by (auto simp: resolve_def dl_def split: sum.splits)
    have tried: "\<forall>j < length (rt_regex r). has_method ?m (rt_regex r ! j) \<longrightarrow> map_of cached (0 + j) = Some None"
      using scan_routes_tried [OF sc [unfolded Inr found]] by blast
    from run more path clk' sc Inr found
    have ca: "collect_allowed (logged e) ?c path dl 0 (rt_regex r) cached (static_methods_at r path) lw2 = (Inl err, lw')"
      by (auto simp: resolve_def dl_def split: prod.splits sum.splits)
    from collect_allowed_times_out [OF ca] log_step_trans [OF one collect_allowed_logged [OF ca t tried] order.refl]
    show ?thesis by blast
  qed
  then have "times_out_for e path dl (rt_regex r) err lw'" "last (fst (snd lw')) = now"
    by (auto simp: log_step_def)
  then show ?thesis by (auto simp: dl_def)
qed

section \<open>The properties\<close>

text \<open>Static routes win and stay: once a registration of a handler for a path and method has
  succeeded, then whatever is registered afterwards (successfully or not), every request for that
  method, in any case, and path resolves to that handler without captures, and resolving it touches
  neither the engine nor the clock.\<close>

theorem static_route_stays:
  assumes "bind_sum (normalize_methods ms) (\<lambda>ns. add_static r path ns h) = Inr r'"
    and "py_upper m \<in> py_upper ` set ms"
  shows "resolve e (register_ops eng r' ops) m path w =
    (Inr \<lparr>rm_handler = Some h, rm_path_params = [], rm_route_pattern = Some path, rm_allowed_methods = []\<rparr>, w)"
proof -
  from assms(1) obtain ns where ns: "normalize_methods ms = Inr ns" and add: "add_static r path ns h = Inr r'"
    by (auto simp: bind_sum_Inr_iff)
  from ns assms(2) have "py_upper m \<in> set ns"
    by (auto simp: normalize_methods_def Let_def split: if_splits)
  with add have "map_of (rt_static r') (py_upper m, path) = Some h"
    by (auto simp: add_static_def map_of_static_insert split: option.splits)
  then have "map_of (rt_static (register_ops eng r' ops)) (py_upper m, path) = Some h"
    by (rule register_ops_keeps)
  then show ?thesis by (simp add: resolve_def)
qed

text \<open>C10. The router invariant: whatever sequence of registrations is tried from an empty router, the
  tables stay consistent - no key twice, only supported methods, at most \<open>max_routes\<close> regex routes,
  the pattern index pointing exactly at the routes, and route ids numbered in order.\<close>

theorem router_invariant:
  assumes "regex_config_init c0 = Inr c"
  shows "router_wf (register_ops eng (router_init c) ops)"
proof -
  from assms have "0 \<le> rc_max_routes c"
    by (auto simp: regex_config_init_def bind_sum_Inr_iff split: if_splits)
  then show ?thesis by (intro register_ops_wf router_wf_init)
qed

text \<open>A 405 is right: when a resolution finds no handler, whatever the engine answered and
  however long it took, the reported methods are sorted, without duplicates, supported, contain every
  static method of the path, and never the method that was asked for.\<close>

theorem allowed_methods_right:
  assumes wf: "router_wf r" and res: "resolve e r meth path w = (Inr rm, w')" and none: "rm_handler rm = None"
  shows "sorted (rm_allowed_methods rm) \<and> distinct (rm_allowed_methods rm) \<and>
    set (rm_allowed_methods rm) \<subseteq> set supported_methods \<and>
    {m. (m, path) \<in> fst ` set (rt_static r)} \<subseteq> set (rm_allowed_methods rm) \<and>
    py_upper meth \<notin> set (rm_allowed_methods rm)"
  using res
proof (cases rule: resolve_cases)
  case (no_regex)
  with static_methods_distinct [OF wf, of path] static_methods_supported [OF wf, of path] show ?thesis
    by (auto simp: static_methods_set map_of_None_keys)
next
  case (regex route gs dl w1)
  with none show ?thesis by (auto simp: map_of_None_keys)
next
  case (unmatched cached allowed dl w1 w2)
  have "\<forall>j < length (rt_regex r). has_method (py_upper meth) (rt_regex r ! j) \<longrightarrow> map_of cached (0 + j) = Some None"
    using scan_routes_tried [OF unmatched(2)] by blast
  from collect_allowed_set [OF unmatched(3) this] unmatched(1) have new: "py_upper meth \<notin> set allowed"
    by (auto simp: static_methods_set map_of_None_keys)
  have "set allowed \<subseteq> set supported_methods"
    using collect_allowed_all [OF unmatched(3)] static_methods_supported [OF wf, of path]
      regex_methods_supported [OF wf] by blast
  moreover have "set (static_methods_at r path) \<subseteq> set allowed"
    using unmatched(3) by (rule collect_allowed_grows)
  ultimately show ?thesis using new unmatched(4) by (simp add: static_methods_set)
qed (use none in auto)


text \<open>C8. Resolution is the reference. Given only that the engine's verdict on a path is a function of the
  pattern unless the engine times out, and for any clock, a resolution that returns has the answer of
  \<open>spec_resolve\<close>, a function of the tables and of which patterns match the path - the static handler if
  there is one, else the first registered regex route that has the method and matches, with its
  captures, else no handler and exactly the methods under which some route would have answered. The
  order of the two loops, the cache and the deadlines do not show. A resolution that raises has no
  static handler and either refuses the path or times out on a registered route, and then, as the log
  of its calls shows, its last clock reading is \<open>total_match_timeout\<close> or more after its first, or the
  engine's last call was a match of that route's pattern that timed out. (Seen through the logging
  engine, which does not change the resolution.)\<close>

theorem resolve_is_reference:
  assumes "router_wf r" and "truthful_engine e path verdict" and "0 < rc_match_timeout (rt_config r)"
    and "resolve (logged e) r meth path (w, [], []) = (res, (w', reads, log))"
  shows "resolve e r meth path w = (res, w') \<and>
    (case res of
       Inr answer \<Rightarrow> answer = spec_resolve verdict r (py_upper meth) path
     | Inl err \<Rightarrow> map_of (rt_static r) (py_upper meth, path) = None \<and> rt_regex r \<noteq> [] \<and>
         (validate_path (rt_config r) path = Inl err \<or>
          validate_path (rt_config r) path = Inr () \<and>
          (\<exists>route \<in> set (rt_regex r). err = RouteMatchTimeout (rr_route_id route) \<and>
             (rc_total_match_timeout (rt_config r) \<le> hd reads - last reads \<or>
              (\<exists>now t rest w1. log = (rr_compiled route, now, t) # rest \<and>
                 eng_fullmatch e (rr_compiled route) path t w1 = (TimedOut, w'))))))"
proof -
  have same: "resolve e r meth path w = (res, w')"
    using resolve_transparent [of e r meth path "(w, [], [])"] assms(4) by simp
  show ?thesis
  proof (cases res)
    case (Inr answer)
    with same resolve_truthful [OF assms(1-3)] show ?thesis by simp
  next
    case (Inl err)
    with same have "map_of (rt_static r) (py_upper meth, path) = None" "rt_regex r \<noteq> []"
      by (auto simp: resolve_def Let_def split: option.splits if_splits)
    moreover have "validate_path (rt_config r) path = Inl err \<or> validate_path (rt_config r) path = Inr ()"
      using same Inl by (auto simp: resolve_def Let_def split: option.splits if_splits sum.splits)
    moreover have "\<exists>route \<in> set (rt_regex r). err = RouteMatchTimeout (rr_route_id route) \<and>
        (rc_total_match_timeout (rt_config r) \<le> hd reads - last reads \<or>
         (\<exists>now t rest w1. log = (rr_compiled route, now, t) # rest \<and>
            eng_fullmatch e (rr_compiled route) path t w1 = (TimedOut, w')))"
      if "validate_path (rt_config r) path = Inr ()"
    proof -
      from resolve_times_out [OF assms(4) [unfolded Inl] assms(3) that] obtain route
        where route: "route \<in> set (rt_regex r)" "err = RouteMatchTimeout (rr_route_id route)"
          "timed_out e path (last reads + rc_total_match_timeout (rt_config r)) route (w', reads, log)"
        by (auto simp: times_out_for_def)
      have "rc_total_match_timeout (rt_config r) \<le> hd reads - last reads \<longleftrightarrow>
          last reads + rc_total_match_timeout (rt_config r) \<le> hd reads" by linarith
      with route show ?thesis unfolding timed_out_def by auto
    qed
    ultimately show ?thesis using same Inl by auto
  qed
qed

text \<open>The errors of a resolution: it raises only when regex routes are registered, and then only the
  timeout of a registered route, the path-too-large error for a path over the limit, or the
  \<open>ValueError\<close> for a path that is not ASCII.\<close>

theorem resolve_errors:
  assumes "resolve e r meth path w = (Inl err, w')"
  shows "rt_regex r \<noteq> [] \<and>
    ((\<exists>route \<in> set (rt_regex r). err = RouteMatchTimeout (rr_route_id route)) \<or>
     (err = RoutePathTooLarge \<and> is_ascii path \<and> int (length path) > rc_max_path_bytes (rt_config r)) \<or>
     (err = RouteError (ValueError (lit ''request path must contain ASCII characters only'')) \<and> \<not> is_ascii path))"
  using assms
proof (cases rule: resolve_cases)
  case (bad_path err')
  then show ?thesis
    by (auto simp: validate_path_def ascii_encode_def split: option.splits if_splits)
next
  case (timeout route)
  then show ?thesis by auto
qed auto


text \<open>C9. Matching a hostile path is bounded: seen through the logging engine, a resolution matches each
  registered pattern at most once, gives every match a positive time of at most \<open>match_timeout\<close>, and
  no match may run past the first clock reading plus \<open>total_match_timeout\<close> - for any engine, any
  clock and any number of routes.\<close>

theorem match_time_bounded:
  assumes "resolve (logged e) r meth path (w, [], []) = (res, (w', reads, log))"
    and "0 < rc_match_timeout (rt_config r)"
  shows "length log \<le> length (rt_regex r) \<and>
    (\<forall>(p, now, t) \<in> set log. 0 < t \<and> t \<le> rc_match_timeout (rt_config r) \<and>
       now + t \<le> last reads + rc_total_match_timeout (rt_config r))"
proof (cases "map_of (rt_static r) (py_upper meth, path) = None \<and> rt_regex r \<noteq> [] \<and> validate_path (rt_config r) path = Inr ()")
  case False
  with assms(1) have "log = []"
    unfolding resolve_def Let_def by (auto split: option.splits if_splits sum.splits prod.splits)
  then show ?thesis by simp
next
  case True
  let ?c = "rt_config r" and ?m = "py_upper meth"
  obtain now w1 where clk: "eng_clock e w = (now, w1)" by (cases "eng_clock e w")
  define dl where "dl = now + rc_total_match_timeout ?c"
  have clk': "eng_clock (logged e) (w, [], []) = (now, (w1, [now], []))" by (simp add: logged_def clk)
  obtain s lw2 where sc: "scan_routes (logged e) ?c ?m path dl 0 (rt_regex r) [] (w1, [now], []) = (s, lw2)"
    by (cases "scan_routes (logged e) ?c ?m path dl 0 (rt_regex r) [] (w1, [now], [])")
  note one = scan_routes_logged [OF sc assms(2)]
  have count: "length (filter (has_method ?m) (rt_regex r)) + length (filter (\<lambda>r. \<not> has_method ?m r) (rt_regex r)) =
      length (rt_regex r)" by (rule sum_length_filter_compl)
  have final: "within_budget ?c dl (w', reads, log) \<and> length log \<le> length (rt_regex r) \<and> (\<exists>rs. reads = rs @ [now])"
  proof (cases "\<exists>cached. s = Inr (Inr cached)")
    case False
    with assms(1) True clk' sc have "lw2 = (w', reads, log)"
      unfolding resolve_def dl_def by (auto split: sum.splits)
    with one count show ?thesis by (auto simp: within_budget_def log_step_def)
  next
    case True2: True
    then obtain cached where s: "s = Inr (Inr cached)" by blast
    have tried: "\<forall>j < length (rt_regex r). has_method ?m (rt_regex r ! j) \<longrightarrow> map_of cached (0 + j) = Some None"
      using scan_routes_tried [OF sc [unfolded s]] by blast
    obtain a lw3 where ca: "collect_allowed (logged e) ?c path dl 0 (rt_regex r) cached (static_methods_at r path) lw2 = (a, lw3)"
      by (cases "collect_allowed (logged e) ?c path dl 0 (rt_regex r) cached (static_methods_at r path) lw2")
    with assms(1) True clk' sc s have "lw3 = (w', reads, log)"
      unfolding resolve_def dl_def by (auto split: sum.splits)
    with log_step_trans [OF one collect_allowed_logged [OF ca assms(2) tried] order.refl] count
    show ?thesis by (auto simp: within_budget_def log_step_def)
  qed
  then show ?thesis by (auto simp: within_budget_def dl_def)
qed


section \<open>Witnesses\<close>

definition sample_router :: "(nat, pystr) router" where
  "sample_router = register_ops (Some (literal_engine [])) (router_init sample_config)
     [RegStatic (lit ''/a'') [lit ''get''] 1, RegRegex (lit ''/b'') [lit ''POST''] 2]"

lemmas registration_eval = register_ops_def normalize_methods_def add_static_def router_init_def py_upper_def
  upper1_def dedup_def supported_methods_def add_regex_def compile_pattern_def literal_engine_def
  sample_config_def starts_with_def named_group_names_def route_id_of_def nat_str.simps update_handlers_def
  match_flags_def marker_length_def set_top_def Let_def py_text

lemmas resolution_eval = resolve_def validate_path_def ascii_encode_def is_ascii_def match_route_def captures_def
  static_methods_at_def no_handler_def literal_engine_def sample_config_def py_upper_def upper1_def Let_def py_text

lemma sample_router_eq:
  "sample_router = \<lparr>rt_static = [((lit ''GET'', lit ''/a''), 1)],
     rt_regex = [\<lparr>rr_route_id = lit ''regex-route-1'', rr_pattern = lit ''/b'',
                  rr_compiled = lit ''(?=/)(?:/b)'', rr_handlers = [(lit ''POST'', 2)]\<rparr>],
     rt_by_pattern = [(lit ''/b'', 0)], rt_config = sample_config\<rparr>"
  unfolding sample_router_def by (simp add: registration_eval)

lemma sample_router_wf: "router_wf sample_router"
  by (simp add: sample_router_def register_ops_wf router_wf_init sample_config_def)

lemma static_route_stays_witness:
  "resolve (literal_engine []) (register_ops (Some (literal_engine []))
       ((router_init sample_config)\<lparr>rt_static := [((lit ''GET'', lit ''/a''), 1 :: nat)]\<rparr>)
       [RegStatic (lit ''/a'') [lit ''GET''] 9]) (lit ''get'') (lit ''/a'') () =
    (Inr \<lparr>rm_handler = Some 1, rm_path_params = [], rm_route_pattern = Some (lit ''/a''), rm_allowed_methods = []\<rparr>, ())"
proof (rule static_route_stays)
  show "bind_sum (normalize_methods [lit ''get'']) (\<lambda>ns. add_static (router_init sample_config) (lit ''/a'') ns (1 :: nat)) =
      Inr ((router_init sample_config)\<lparr>rt_static := [((lit ''GET'', lit ''/a''), 1)]\<rparr>)"
    by (simp add: registration_eval)
  show "py_upper (lit ''get'') \<in> py_upper ` set [lit ''get'']" by simp
qed

lemma router_invariant_witness: "router_wf sample_router"
  unfolding sample_router_def
  by (rule router_invariant [of sample_config]) (simp add: regex_config_init_def sample_config_def)

lemma allowed_methods_right_witness:
  "py_upper (lit ''get'') \<notin> set (rm_allowed_methods (no_handler [lit ''POST'']))"
proof -
  have "resolve (literal_engine []) sample_router (lit ''get'') (lit ''/b'') () = (Inr (no_handler [lit ''POST'']), ())"
    by (simp add: sample_router_eq resolution_eval)
  from allowed_methods_right [OF sample_router_wf this] show ?thesis by simp
qed

text \<open>A clock that advances by one at every reading: the request is answered within the budget of fifty, and
  a budget of one is used up at the second reading.\<close>

definition ticking :: "(pystr, int) engine" where
  "ticking = \<lparr>eng_compile = Some, eng_groups = (\<lambda>c. []),
     eng_fullmatch = (\<lambda>c path t w. (if c = lit ''(?=/)(?:/b)'' then Matched [] else NoMatch, w)), eng_clock = (\<lambda>w. (w, w + 1))\<rparr>"

lemma ticking_truthful:
  "truthful_engine ticking path (\<lambda>c. if c = lit ''(?=/)(?:/b)'' then Matched [] else NoMatch)"
  by (simp add: truthful_engine_def ticking_def)

definition hasty_router :: "(nat, pystr) router" where
  "hasty_router = sample_router\<lparr>rt_config := sample_config\<lparr>rc_total_match_timeout := 1\<rparr>\<rparr>"

lemma router_wf_config:
  "router_wf r \<Longrightarrow> rc_max_routes c = rc_max_routes (rt_config r) \<Longrightarrow> router_wf (r\<lparr>rt_config := c\<rparr>)"
  by (simp add: router_wf_def regex_table_wf_def)

lemma hasty_router_wf: "router_wf hasty_router"
  unfolding hasty_router_def by (rule router_wf_config [OF sample_router_wf]) (simp add: sample_router_eq)

lemma resolve_is_reference_witness:
  "(\<exists>w'. resolve ticking sample_router (lit ''post'') (lit ''/b'') 7 =
      (Inr (spec_resolve (\<lambda>c. if c = lit ''(?=/)(?:/b)'' then Matched [] else NoMatch) sample_router (py_upper (lit ''post'')) (lit ''/b'')), w')) \<and>
   (\<exists>w'. resolve ticking hasty_router (lit ''post'') (lit ''/b'') 7 = (Inl (RouteMatchTimeout (lit ''regex-route-1'')), w'))"
proof (intro conjI)
  have t: "0 < rc_match_timeout (rt_config sample_router)" by (simp add: sample_router_eq sample_config_def)
  have run: "resolve (logged ticking) sample_router (lit ''post'') (lit ''/b'') (7, [], []) =
      (Inr \<lparr>rm_handler = Some 2, rm_path_params = [], rm_route_pattern = Some (lit ''/b''), rm_allowed_methods = []\<rparr>,
       (9, [8, 7], [(lit ''(?=/)(?:/b)'', 8, 10)]))"
    by (simp add: sample_router_eq logged_def ticking_def resolution_eval)
  from resolve_is_reference [OF sample_router_wf ticking_truthful t run]
  show "\<exists>w'. resolve ticking sample_router (lit ''post'') (lit ''/b'') 7 =
      (Inr (spec_resolve (\<lambda>c. if c = lit ''(?=/)(?:/b)'' then Matched [] else NoMatch) sample_router (py_upper (lit ''post'')) (lit ''/b'')), w')"
    by auto
next
  have t: "0 < rc_match_timeout (rt_config hasty_router)" by (simp add: hasty_router_def sample_config_def)
  have run: "resolve (logged ticking) hasty_router (lit ''post'') (lit ''/b'') (7, [], []) =
      (Inl (RouteMatchTimeout (lit ''regex-route-1'')), (9, [8, 7], []))"
    by (simp add: hasty_router_def sample_router_eq logged_def ticking_def resolution_eval)
  from resolve_is_reference [OF hasty_router_wf ticking_truthful t run]
  show "\<exists>w'. resolve ticking hasty_router (lit ''post'') (lit ''/b'') 7 = (Inl (RouteMatchTimeout (lit ''regex-route-1'')), w')"
    by blast
qed

lemma resolve_errors_witness: "rt_regex sample_router \<noteq> []"
proof -
  have "resolve (literal_engine []) sample_router (lit ''get'') [47, 233] () =
      (Inl (RouteError (ValueError (lit ''request path must contain ASCII characters only''))), ())"
    by (simp add: sample_router_eq resolution_eval)
  from resolve_errors [OF this] show ?thesis by blast
qed

lemma match_time_bounded_witness:
  "length [(lit ''(?=/)(?:/b)'', 0 :: int, 10 :: int)] \<le> length (rt_regex sample_router)"
proof -
  have run: "resolve (logged (literal_engine [])) sample_router (lit ''post'') (lit ''/b'') ((), [], []) =
      (Inr \<lparr>rm_handler = Some 2, rm_path_params = [], rm_route_pattern = Some (lit ''/b''), rm_allowed_methods = []\<rparr>,
       ((), [0, 0], [(lit ''(?=/)(?:/b)'', 0, 10)]))"
    by (simp add: sample_router_eq logged_def resolution_eval)
  have "0 < rc_match_timeout (rt_config sample_router)" by (simp add: sample_router_eq sample_config_def)
  from match_time_bounded [OF run this] show ?thesis by blast
qed

end
