(* ===== verification/Cleanup.thy ===== *)
theory Cleanup
  imports SS_Text Registry
begin

text \<open>
  \<open>smallserver/errors.py\<close>: the cleanup transaction that owns what a failed start or stop could not
  release, and the lifecycle error that hands it to the caller for retries.

  A cleanup action is a closure; running it changes the world \<open>'w\<close> and either succeeds or raises an
  error \<open>'e\<close>. The lock makes every method atomic, so a method is one step.
\<close>

section \<open>The transaction\<close>

type_synonym ('e, 'w) action = "'w \<Rightarrow> 'e option \<times> 'w"

record ('e, 'w) cleanup =
  cl_actions :: "(pystr \<times> ('e, 'w) action) list"
  cl_errors :: "(pystr \<times> 'e) list"

definition cleanup_init :: "('e, 'w) cleanup" where
  "cleanup_init = \<lparr>cl_actions = [], cl_errors = []\<rparr>"

text \<open>The keys tried by \<open>add\<close>: the name, then name:2, name:3 and so on.\<close>

definition suffixed :: "pystr \<Rightarrow> nat \<Rightarrow> pystr" where
  "suffixed name n = (if n \<le> 1 then name else name @ lit '':'' @ nat_str n)"

lemma suffixed_inject: "1 \<le> m \<Longrightarrow> 1 \<le> n \<Longrightarrow> suffixed name m = suffixed name n \<longleftrightarrow> m = n"
  by (auto simp: suffixed_def)

function free_key :: "pystr list \<Rightarrow> pystr \<Rightarrow> nat \<Rightarrow> pystr" where
  "free_key keys name n =
     (if suffixed name (Suc n) \<in> set keys then free_key keys name (Suc n) else suffixed name (Suc n))"
  by pat_completeness auto
termination
proof (relation "measure (\<lambda>(keys, name, n). card {k \<in> set keys. \<exists>m > n. k = suffixed name m})", simp)
  fix keys name and n :: nat
  assume here: "suffixed name (Suc n) \<in> set keys"
  have "{k \<in> set keys. \<exists>m > Suc n. k = suffixed name m} \<subset> {k \<in> set keys. \<exists>m > n. k = suffixed name m}"
  proof (rule psubsetI)
    show "{k \<in> set keys. \<exists>m > Suc n. k = suffixed name m} \<subseteq> {k \<in> set keys. \<exists>m > n. k = suffixed name m}"
      by (auto intro: Suc_lessD)
    have "suffixed name (Suc n) \<notin> {k \<in> set keys. \<exists>m > Suc n. k = suffixed name m}"
      using suffixed_inject [of "Suc n" _ name] by auto
    with here show "{k \<in> set keys. \<exists>m > Suc n. k = suffixed name m} \<noteq> {k \<in> set keys. \<exists>m > n. k = suffixed name m}"
      by blast
  qed
  then show "((keys, name, Suc n), keys, name, n) \<in> measure (\<lambda>(keys, name, n). card {k \<in> set keys. \<exists>m > n. k = suffixed name m})"
    by (simp add: psubset_card_mono)
qed

declare free_key.simps [simp del]

lemma free_key_fresh: "free_key keys name n \<notin> set keys"
  by (induction keys name n rule: free_key.induct) (simp add: free_key.simps)

definition cleanup_add ::
  "pystr \<Rightarrow> ('e, 'w) action \<Rightarrow> 'e option \<Rightarrow> ('e, 'w) cleanup \<Rightarrow> ('e, 'w) cleanup" where
  "cleanup_add name action err t =
     (let key = free_key (map fst (cl_actions t)) name 0
      in t\<lparr>cl_actions := dict_set key action (cl_actions t),
           cl_errors := (case err of None \<Rightarrow> cl_errors t | Some e \<Rightarrow> dict_set key e (cl_errors t))\<rparr>)"

text \<open>The loop of \<open>retry\<close> walks a snapshot of the actions.\<close>

fun retry_loop ::
  "(pystr \<times> ('e, 'w) action) list \<Rightarrow> ('e, 'w) cleanup \<Rightarrow> 'w \<Rightarrow> ('e, 'w) cleanup \<times> 'w" where
  "retry_loop [] t w = (t, w)"
| "retry_loop ((name, action) # snapshot) t w =
     (case action w of
        (Some e, w') \<Rightarrow> retry_loop snapshot (t\<lparr>cl_errors := dict_set name e (cl_errors t)\<rparr>) w'
      | (None, w') \<Rightarrow> retry_loop snapshot (t\<lparr>cl_actions := dict_pop name (cl_actions t),
                                              cl_errors := dict_pop name (cl_errors t)\<rparr>) w')"

definition cleanup_retry :: "('e, 'w) cleanup \<Rightarrow> 'w \<Rightarrow> 'e list \<times> ('e, 'w) cleanup \<times> 'w" where
  "cleanup_retry t w =
     (case retry_loop (cl_actions t) t w of (t', w') \<Rightarrow> (map snd (cl_errors t'), t', w'))"

definition cleanup_transfer :: "('e, 'w) cleanup \<Rightarrow> ('e, 'w) cleanup" where
  "cleanup_transfer t = t\<lparr>cl_actions := [], cl_errors := []\<rparr>"

definition cleanup_errors :: "('e, 'w) cleanup \<Rightarrow> 'e list" where
  "cleanup_errors t = map snd (cl_errors t)"

definition cleanup_complete :: "('e, 'w) cleanup \<Rightarrow> bool" where
  "cleanup_complete t = (cl_actions t = [])"

section \<open>Its invariant\<close>

definition cleanup_wf :: "('e, 'w) cleanup \<Rightarrow> bool" where
  "cleanup_wf t = (dict_wf (cl_actions t) \<and> dict_wf (cl_errors t) \<and>
     fst ` set (cl_errors t) \<subseteq> fst ` set (cl_actions t))"

lemma cleanup_wf_init [wf_intros]: "cleanup_wf cleanup_init"
  by (simp add: cleanup_wf_def cleanup_init_def)

lemma cleanup_wf_add [wf_intros]: "cleanup_wf t \<Longrightarrow> cleanup_wf (cleanup_add name action err t)"
  by (auto simp: cleanup_wf_def cleanup_add_def Let_def intro: dict_wf_set split: option.splits)

lemma cleanup_wf_transfer [wf_intros]: "cleanup_wf (cleanup_transfer t)"
  by (simp add: cleanup_wf_def cleanup_transfer_def)

text \<open>One round of the loop, with the outcome of its action.\<close>

definition after_run :: "pystr \<Rightarrow> 'e option \<Rightarrow> ('e, 'w) cleanup \<Rightarrow> ('e, 'w) cleanup" where
  "after_run name out t =
     (case out of
        Some e \<Rightarrow> t\<lparr>cl_errors := dict_set name e (cl_errors t)\<rparr>
      | None \<Rightarrow> t\<lparr>cl_actions := dict_pop name (cl_actions t), cl_errors := dict_pop name (cl_errors t)\<rparr>)"

lemma retry_loop_Cons:
  "retry_loop ((name, action) # snapshot) t w =
     (case action w of (out, w') \<Rightarrow> retry_loop snapshot (after_run name out t) w')"
  by (simp add: after_run_def split: prod.splits option.splits)

lemma after_run_wf:
  "cleanup_wf t \<Longrightarrow> name \<in> fst ` set (cl_actions t) \<Longrightarrow> cleanup_wf (after_run name out t)"
  by (cases out) (auto simp: cleanup_wf_def after_run_def intro!: dict_wf_pop dict_wf_set)

lemma after_run_actions:
  "cl_actions (after_run name out t) = (if out = None then dict_pop name (cl_actions t) else cl_actions t)"
  by (cases out) (simp_all add: after_run_def)

lemma after_run_errors: "map_of (cl_errors (after_run name out t)) = (map_of (cl_errors t))(name := out)"
  by (cases out) (simp_all add: after_run_def)

lemma retry_loop_wf:
  "cleanup_wf t \<Longrightarrow> fst ` set snapshot \<subseteq> fst ` set (cl_actions t) \<Longrightarrow> dict_wf snapshot \<Longrightarrow>
     retry_loop snapshot t w = (t', w') \<Longrightarrow> cleanup_wf t'"
proof (induction snapshot arbitrary: t w)
  case Nil
  then show ?case by simp
next
  case (Cons entry snapshot)
  obtain name action where entry: "entry = (name, action)" by (cases entry)
  obtain out w1 where run: "action w = (out, w1)" by (cases "action w")
  have "name \<notin> fst ` set snapshot" "dict_wf snapshot" using Cons.prems(3) entry by (auto simp: dict_wf_def)
  moreover have "cleanup_wf (after_run name out t)" using Cons.prems entry by (intro after_run_wf) auto
  moreover have "fst ` set snapshot \<subseteq> fst ` set (cl_actions (after_run name out t))"
    using Cons.prems(2) entry \<open>name \<notin> _\<close> by (simp add: after_run_actions) blast
  ultimately show ?case using Cons.IH [of "after_run name out t" w1] Cons.prems(4) entry run
    by (simp add: retry_loop_Cons del: retry_loop.simps(2))
qed

section \<open>What a retry does\<close>

text \<open>The reference: run every owned action once, in order.\<close>

fun run_actions :: "(pystr \<times> ('e, 'w) action) list \<Rightarrow> 'w \<Rightarrow> (pystr \<times> 'e option) list \<times> 'w" where
  "run_actions [] w = ([], w)"
| "run_actions ((name, action) # actions) w =
     (case action w of (out, w1) \<Rightarrow> case run_actions actions w1 of (outs, w2) \<Rightarrow> ((name, out) # outs, w2))"

lemma run_actions_keys: "run_actions actions w = (outs, w') \<Longrightarrow> map fst outs = map fst actions"
  by (induction actions arbitrary: w outs) (auto split: prod.splits)

lemma run_actions_length: "run_actions actions w = (outs, w') \<Longrightarrow> length outs = length actions"
  using run_actions_keys by (metis length_map)

definition failed :: "(pystr \<times> 'e option) list \<Rightarrow> pystr \<Rightarrow> bool" where
  "failed outs name = (\<exists>e. map_of outs name = Some (Some e))"

lemma retry_loop_spec:
  assumes "retry_loop snapshot t w = (t', w')" and "dict_wf snapshot"
  shows "\<exists>outs. run_actions snapshot w = (outs, w') \<and>
    cl_actions t' = filter (\<lambda>(n, _). map_of outs n \<noteq> Some None) (cl_actions t) \<and>
    map_of (cl_errors t') = (\<lambda>n. case map_of outs n of Some out \<Rightarrow> out | None \<Rightarrow> map_of (cl_errors t) n)"
  using assms
proof (induction snapshot arbitrary: t w)
  case Nil
  then show ?case by (simp add: case_prod_unfold)
next
  case (Cons entry snapshot)
  obtain name action where entry: "entry = (name, action)" by (cases entry)
  obtain out w1 where run: "action w = (out, w1)" by (cases "action w")
  have new: "name \<notin> fst ` set snapshot" and wf: "dict_wf snapshot"
    using Cons.prems(2) entry by (auto simp: dict_wf_def)
  have "retry_loop snapshot (after_run name out t) w1 = (t', w')"
    using Cons.prems(1) entry run by (simp add: retry_loop_Cons del: retry_loop.simps(2))
  from Cons.IH [OF this wf] obtain outs where outs: "run_actions snapshot w1 = (outs, w')"
    and acts: "cl_actions t' = filter (\<lambda>(n, _). map_of outs n \<noteq> Some None) (cl_actions (after_run name out t))"
    and errs: "map_of (cl_errors t') = (\<lambda>n. case map_of outs n of Some out \<Rightarrow> out
      | None \<Rightarrow> map_of (cl_errors (after_run name out t)) n)" by blast
  have absent: "map_of outs name = None"
    using run_actions_keys [OF outs] new by (metis map_of_None_keys set_map)
  have "cl_actions t' = filter (\<lambda>(n, _). map_of ((name, out) # outs) n \<noteq> Some None) (cl_actions t)"
    unfolding acts after_run_actions
    by (cases out) (auto simp: dict_pop_def absent case_prod_unfold intro!: filter_cong)
  moreover have "map_of (cl_errors t') = (\<lambda>n. case map_of ((name, out) # outs) n of Some out \<Rightarrow> out
      | None \<Rightarrow> map_of (cl_errors t) n)"
    unfolding errs after_run_errors by (auto simp: fun_eq_iff absent split: option.splits)
  moreover have "run_actions (entry # snapshot) w = ((name, out) # outs, w')"
    using run outs entry by simp
  ultimately show ?case by blast
qed

text \<open>Nothing owned is overwritten by an addition.\<close>

lemma cleanup_add_owns:
  "\<exists>key. key \<notin> fst ` set (cl_actions t) \<and>
     cl_actions (cleanup_add name action err t) = cl_actions t @ [(key, action)]"
proof -
  have "free_key (map fst (cl_actions t)) name 0 \<notin> fst ` set (cl_actions t)"
    using free_key_fresh [of "map fst (cl_actions t)" name 0] by simp
  then show ?thesis by (auto simp: cleanup_add_def Let_def dict_set_new)
qed

lemma retry_core:
  assumes "cleanup_wf t" and "cleanup_retry t w = (errs, t', w')"
  shows "\<exists>outs. run_actions (cl_actions t) w = (outs, w') \<and> cleanup_wf t' \<and>
    cl_actions t' = filter (\<lambda>(n, _). failed outs n) (cl_actions t) \<and>
    (\<forall>n. map_of (cl_errors t') n = (case map_of outs n of Some out \<Rightarrow> out | None \<Rightarrow> None)) \<and>
    errs = map snd (cl_errors t') \<and> (errs = [] \<longleftrightarrow> cleanup_complete t')"
proof -
  from assms(2) have loop: "retry_loop (cl_actions t) t w = (t', w')" and errs: "errs = map snd (cl_errors t')"
    by (auto simp: cleanup_retry_def split: prod.splits)
  from assms(1) have wf: "dict_wf (cl_actions t)" "fst ` set (cl_errors t) \<subseteq> fst ` set (cl_actions t)"
    by (auto simp: cleanup_wf_def)
  from retry_loop_spec [OF loop wf(1)] obtain outs where outs: "run_actions (cl_actions t) w = (outs, w')"
    and acts: "cl_actions t' = filter (\<lambda>(n, _). map_of outs n \<noteq> Some None) (cl_actions t)"
    and es: "map_of (cl_errors t') = (\<lambda>n. case map_of outs n of Some out \<Rightarrow> out | None \<Rightarrow> map_of (cl_errors t) n)" by blast
  have keys: "fst ` set outs = fst ` set (cl_actions t)"
    using run_actions_keys [OF outs] by (metis set_map)
  have "cleanup_wf t'" using retry_loop_wf [OF assms(1) order.refl wf(1) loop] .
  have owned: "cl_actions t' = filter (\<lambda>(n, _). failed outs n) (cl_actions t)"
    unfolding acts failed_def
  proof (rule filter_cong [OF refl])
    fix e assume "e \<in> set (cl_actions t)"
    then have "fst e \<in> fst ` set outs" unfolding keys by (rule imageI)
    then have "map_of outs (fst e) \<noteq> None" by (simp only: map_of_None_keys) simp
    then show "(case e of (n, _) \<Rightarrow> map_of outs n \<noteq> Some None) = (case e of (n, _) \<Rightarrow> \<exists>e. map_of outs n = Some (Some e))"
      by (cases e) auto
  qed
  have answered: "map_of (cl_errors t') n = (case map_of outs n of Some out \<Rightarrow> out | None \<Rightarrow> None)" for n
  proof (cases "map_of outs n")
    case None
    with keys wf(2) have "map_of (cl_errors t) n = None" by (auto simp: map_of_None_keys)
    with None es show ?thesis by simp
  qed (simp add: es)
  have "errs = [] \<longleftrightarrow> cleanup_complete t'"
  proof
    assume "cleanup_complete t'"
    with \<open>cleanup_wf t'\<close> errs show "errs = []" by (auto simp: cleanup_wf_def cleanup_complete_def)
  next
    assume none: "errs = []"
    have "\<not> failed outs n" for n
      using none errs answered [of n] by (auto simp: failed_def)
    with owned show "cleanup_complete t'" by (simp add: cleanup_complete_def case_prod_unfold)
  qed
  with outs errs owned answered \<open>cleanup_wf t'\<close> show ?thesis by (intro exI [of _ outs]) simp
qed


section \<open>The lifecycle error\<close>

record ('e, 'w) cleanup_error =
  ce_transaction :: "('e, 'w) cleanup"
  ce_callback :: "('e, 'w) action option"
  ce_notified :: bool

definition cleanup_error_init :: "('e, 'w) cleanup \<Rightarrow> ('e, 'w) action option \<Rightarrow> ('e, 'w) cleanup_error" where
  "cleanup_error_init t cb = \<lparr>ce_transaction = t, ce_callback = cb, ce_notified = False\<rparr>"

text \<open>\<open>_notify_cleanup_complete\<close>: \<open>Some\<close> the exception the callback raised.\<close>

definition notify_complete ::
  "('e, 'w) cleanup_error \<Rightarrow> 'w \<Rightarrow> 'e option \<times> ('e, 'w) cleanup_error \<times> 'w" where
  "notify_complete ce w =
     (if ce_notified ce then (None, ce, w)
      else let ce' = ce\<lparr>ce_notified := True, ce_callback := None\<rparr>
           in case ce_callback ce of
                None \<Rightarrow> (None, ce', w)
              | Some callback \<Rightarrow> (case callback w of (out, w') \<Rightarrow> (out, ce', w')))"

definition retry_cleanup ::
  "('e, 'w) cleanup_error \<Rightarrow> 'w \<Rightarrow> ('e + bool) \<times> ('e, 'w) cleanup_error \<times> 'w" where
  "retry_cleanup ce w =
     (case cleanup_retry (ce_transaction ce) w of (_, t, w1) \<Rightarrow>
        let ce1 = ce\<lparr>ce_transaction := t\<rparr>
        in if cleanup_complete t
           then (case notify_complete ce1 w1 of
                   (Some e, ce2, w2) \<Rightarrow> (Inl e, ce2, w2)
                 | (None, ce2, w2) \<Rightarrow> (Inr True, ce2, w2))
           else (Inr False, ce1, w1))"

text \<open>\<open>__del__\<close>: whether a warning is issued. Exceptions are swallowed.\<close>

definition finalizer :: "('e, 'w) cleanup_error \<Rightarrow> 'w \<Rightarrow> bool \<times> ('e, 'w) cleanup_error \<times> 'w" where
  "finalizer ce w =
     (if cleanup_complete (ce_transaction ce) then (False, ce, w)
      else (case retry_cleanup ce w of
              (Inr False, ce', w') \<Rightarrow> (True, ce', w')
            | (_, ce', w') \<Rightarrow> (False, ce', w')))"

text \<open>The caller retries some number of times, then the error object is dropped or not.\<close>

fun retry_times :: "nat \<Rightarrow> ('e, 'w) cleanup_error \<Rightarrow> 'w \<Rightarrow> ('e, 'w) cleanup_error \<times> 'w" where
  "retry_times 0 ce w = (ce, w)"
| "retry_times (Suc n) ce w = (case retry_cleanup ce w of (_, ce', w') \<Rightarrow> retry_times n ce' w')"

definition quiet :: "('w \<Rightarrow> nat) \<Rightarrow> ('e, 'w) action \<Rightarrow> bool" where
  "quiet calls action = (\<forall>w. calls (snd (action w)) = calls w)"

definition counts_one :: "('w \<Rightarrow> nat) \<Rightarrow> ('e, 'w) action \<Rightarrow> bool" where
  "counts_one calls action = (\<forall>w. calls (snd (action w)) = Suc (calls w))"

definition counts_calls :: "('w \<Rightarrow> nat) \<Rightarrow> ('e, 'w) cleanup_error \<Rightarrow> bool" where
  "counts_calls calls ce =
     ((\<forall>entry \<in> set (cl_actions (ce_transaction ce)). quiet calls (snd entry)) \<and>
      (\<forall>cb. ce_callback ce = Some cb \<longrightarrow> counts_one calls cb))"

definition error_wf :: "('e, 'w) cleanup_error \<Rightarrow> bool" where
  "error_wf ce = (cleanup_wf (ce_transaction ce) \<and>
     (ce_notified ce \<longrightarrow> cleanup_complete (ce_transaction ce) \<and> ce_callback ce = None))"

lemma run_actions_calls:
  "run_actions actions w = (outs, w') \<Longrightarrow> \<forall>entry \<in> set actions. quiet calls (snd entry) \<Longrightarrow>
     calls w' = (calls w :: nat)"
proof (induction actions arbitrary: w outs)
  case (Cons entry actions)
  obtain name action where entry: "entry = (name, action)" by (cases entry)
  obtain out w1 where run: "action w = (out, w1)" by (cases "action w")
  from Cons.prems(2) entry have "quiet calls action" by simp
  with run have "calls w1 = calls w" unfolding quiet_def by (metis snd_conv)
  moreover obtain outs' where "run_actions actions w1 = (outs', w')"
    using Cons.prems(1) entry run by (auto split: prod.splits)
  moreover have "\<forall>entry \<in> set actions. quiet calls (snd entry)" using Cons.prems(2) by simp
  ultimately show ?case using Cons.IH by metis
qed simp

lemma retry_complete_stays: "cleanup_complete t \<Longrightarrow> cleanup_retry t w = (map snd (cl_errors t), t, w)"
  by (simp add: cleanup_retry_def cleanup_complete_def)

lemma retry_cleanup_step:
  assumes wf: "error_wf ce" and calls: "counts_calls calls ce" and run: "retry_cleanup ce w = (res, ce', w')"
  shows "error_wf ce' \<and> counts_calls calls ce' \<and> (\<not> ce_notified ce' \<longrightarrow> ce_callback ce' = ce_callback ce) \<and>
    (ce_notified ce' \<longleftrightarrow> cleanup_complete (ce_transaction ce')) \<and> (ce_notified ce \<longrightarrow> ce_notified ce') \<and>
    (res = Inr False \<longrightarrow> \<not> cleanup_complete (ce_transaction ce')) \<and>
    calls w' = calls w + (if ce_notified ce' \<and> \<not> ce_notified ce \<and> ce_callback ce \<noteq> None then 1 else 0)"
proof -
  obtain errs t w1 where retry: "cleanup_retry (ce_transaction ce) w = (errs, t, w1)"
    by (cases "cleanup_retry (ce_transaction ce) w") auto
  from wf have twf: "cleanup_wf (ce_transaction ce)" by (simp add: error_wf_def)
  from retry_core [OF twf retry] obtain outs where outs: "run_actions (cl_actions (ce_transaction ce)) w = (outs, w1)"
    and twf': "cleanup_wf t" and acts: "set (cl_actions t) \<subseteq> set (cl_actions (ce_transaction ce))" by auto
  from calls have "calls w1 = calls w"
    by (intro run_actions_calls [OF outs]) (auto simp: counts_calls_def)
  moreover have "counts_calls calls (ce\<lparr>ce_transaction := t\<rparr>)"
    using calls acts by (simp add: counts_calls_def) blast
  moreover have "ce_notified ce \<Longrightarrow> t = ce_transaction ce \<and> w1 = w"
    using retry wf retry_complete_stays [of "ce_transaction ce" w] by (auto simp: error_wf_def)
  moreover have "ce_callback ce = Some cb \<Longrightarrow> calls (snd (cb w1)) = Suc (calls w1)" for cb
    using calls by (simp add: counts_calls_def counts_one_def)
  ultimately show ?thesis
    using run retry wf twf'
    by (auto simp: retry_cleanup_def notify_complete_def error_wf_def counts_calls_def Let_def
        split: if_splits option.splits prod.splits)
qed

definition told :: "('w \<Rightarrow> nat) \<Rightarrow> nat \<Rightarrow> ('e, 'w) cleanup_error \<Rightarrow> 'w \<Rightarrow> bool" where
  "told calls c0 ce w = (error_wf ce \<and> counts_calls calls ce \<and> (\<not> ce_notified ce \<longrightarrow> ce_callback ce \<noteq> None) \<and>
     calls w = (if ce_notified ce then Suc c0 else c0))"

lemma told_retry:
  assumes "told calls c0 ce w" and run: "retry_cleanup ce w = (res, ce', w')"
  shows "told calls c0 ce' w' \<and> (ce_notified ce' \<longleftrightarrow> cleanup_complete (ce_transaction ce')) \<and>
    (res = Inr False \<longrightarrow> \<not> cleanup_complete (ce_transaction ce'))"
  using assms(1) retry_cleanup_step [OF _ _ run, of calls] unfolding told_def by (cases "ce_notified ce") auto

lemma told_retry_times:
  "told calls c0 ce w \<Longrightarrow> retry_times n ce w = (ce', w') \<Longrightarrow>
     told calls c0 ce' w' \<and> (0 < n \<longrightarrow> (ce_notified ce' \<longleftrightarrow> cleanup_complete (ce_transaction ce')))"
proof (induction n arbitrary: ce w)
  case (Suc n)
  obtain res ce1 w1 where run: "retry_cleanup ce w = (res, ce1, w1)" by (cases "retry_cleanup ce w") auto
  with Suc.prems(2) have "retry_times n ce1 w1 = (ce', w')" by simp
  with Suc.IH told_retry [OF Suc.prems(1) run] show ?case by (cases n) auto
qed simp

section \<open>The properties\<close>

text \<open>A retry loses no resource: it runs every owned action exactly once, in the order of addition;
  exactly the actions that failed stay owned, in order, each with the error it raised in this very
  retry; the errors returned are those, and they are empty exactly when the transaction is complete.\<close>

theorem retry_keeps_failed:
  assumes "cleanup_wf t" and "cleanup_retry t w = (errs, t', w')"
  shows "\<exists>outs. run_actions (cl_actions t) w = (outs, w') \<and> cleanup_wf t' \<and>
    cl_actions t' = filter (\<lambda>(n, _). failed outs n) (cl_actions t) \<and>
    (\<forall>n. map_of (cl_errors t') n = (case map_of outs n of Some out \<Rightarrow> out | None \<Rightarrow> None)) \<and>
    errs = map snd (cl_errors t') \<and> (errs = [] \<longleftrightarrow> cleanup_complete t')"
  using assms by (rule retry_core)

text \<open>The owner is told once: however often the caller retries, and whether or not the error object
  is then dropped, the completion callback runs at most once; it runs only when every resource has
  been released; and after a retry that leaves nothing owned it has run.\<close>

theorem callback_runs_once:
  assumes "cleanup_wf t" and "counts_calls calls (cleanup_error_init t (Some cb))"
    and "retry_times n (cleanup_error_init t (Some cb)) w = (ce, w1)" and "finalizer ce w1 = (warned, ce', w2)"
  shows "calls w2 \<le> Suc (calls w) \<and> (calls w1 = Suc (calls w) \<longleftrightarrow> ce_notified ce) \<and>
    (ce_notified ce \<longrightarrow> cleanup_complete (ce_transaction ce)) \<and>
    (0 < n \<longrightarrow> cleanup_complete (ce_transaction ce) \<longrightarrow> calls w1 = Suc (calls w)) \<and>
    (warned \<longrightarrow> \<not> cleanup_complete (ce_transaction ce'))"
proof -
  have "told calls (calls w) (cleanup_error_init t (Some cb)) w"
    using assms(1,2) by (simp add: told_def error_wf_def cleanup_error_init_def)
  from told_retry_times [OF this assms(3)] have told: "told calls (calls w) ce w1"
    and finished: "0 < n \<longrightarrow> (ce_notified ce \<longleftrightarrow> cleanup_complete (ce_transaction ce))" by auto
  obtain res ce2 w3 where again: "retry_cleanup ce w1 = (res, ce2, w3)" by (cases "retry_cleanup ce w1") auto
  from told_retry [OF told again] assms(4) told again
  have "calls w2 \<le> Suc (calls w)" and "warned \<longrightarrow> \<not> cleanup_complete (ce_transaction ce')"
    by (auto simp: finalizer_def told_def split: if_splits sum.splits bool.splits)
  with told finished show ?thesis by (auto simp: told_def error_wf_def split: if_splits)
qed


text \<open>The witnesses: an action that fails the first time, on a world that counts attempts and calls.\<close>

definition flaky :: "(unit, nat \<times> nat) action" where
  "flaky w = (case w of (attempts, calls) \<Rightarrow> (if attempts = 0 then Some () else None, (Suc attempts, calls)))"

definition count_call :: "(unit, nat \<times> nat) action" where
  "count_call w = (None, (fst w, Suc (snd w)))"

definition flaky_cleanup :: "(unit, nat \<times> nat) cleanup" where
  "flaky_cleanup = cleanup_add (lit ''listener'') flaky None cleanup_init"

lemma flaky_cleanup_wf: "cleanup_wf flaky_cleanup"
  by (simp add: flaky_cleanup_def cleanup_wf_add cleanup_wf_init)

lemma flaky_cleanup_eq: "flaky_cleanup = \<lparr>cl_actions = [(lit ''listener'', flaky)], cl_errors = []\<rparr>"
  by (simp add: flaky_cleanup_def cleanup_add_def cleanup_init_def free_key.simps suffixed_def)

lemma retry_keeps_failed_witness:
  "\<exists>outs. run_actions (cl_actions flaky_cleanup) (0, 0) = (outs, (1, 0)) \<and> failed outs (lit ''listener'')"
proof -
  have "cleanup_retry flaky_cleanup (0, 0) =
      ([()], \<lparr>cl_actions = [(lit ''listener'', flaky)], cl_errors = [(lit ''listener'', ())]\<rparr>, (1, 0))"
    by (simp add: cleanup_retry_def flaky_cleanup_eq flaky_def)
  from retry_keeps_failed [OF flaky_cleanup_wf this] show ?thesis by (auto simp: flaky_cleanup_eq split: if_splits)
qed

lemma callback_runs_once_witness:
  "snd (snd (retry_times 2 (cleanup_error_init flaky_cleanup (Some count_call)) (0, 0))) = Suc 0"
proof -
  let ?ce = "\<lparr>ce_transaction = \<lparr>cl_actions = [], cl_errors = []\<rparr>, ce_callback = None, ce_notified = True\<rparr>"
  have run: "retry_times 2 (cleanup_error_init flaky_cleanup (Some count_call)) (0, 0) = (?ce, (2, 1))"
    by (simp add: numeral_2_eq_2 retry_cleanup_def notify_complete_def cleanup_error_init_def cleanup_retry_def
        flaky_cleanup_eq cleanup_complete_def flaky_def count_call_def dict_pop_def)
  have calls: "counts_calls snd (cleanup_error_init flaky_cleanup (Some count_call))"
    by (simp add: counts_calls_def quiet_def counts_one_def cleanup_error_init_def flaky_cleanup_eq flaky_def
      count_call_def split: prod.splits)
  have "finalizer ?ce (2, 1) = (False, ?ce, (2, 1))" by (simp add: finalizer_def cleanup_complete_def)
  from callback_runs_once [OF flaky_cleanup_wf calls run this] run show ?thesis by simp
qed

end
