(* ===== verification/H2_Frames.thy ===== *)
theory H2_Frames
  imports SS_Text Incremental
begin

text \<open>
  \<open>_FrameBudget\<close> of \<open>smallserver/http2.py\<close>: it collects the client preface and whole frames from the
  byte stream and enforces the frame-size and header-block bounds before hyper-h2 sees a byte. As for
  the WebSocket guard, the chunked loop is shown to be a one-byte-at-a-time machine.
\<close>

section \<open>The budget\<close>

definition client_preface :: bytes where
  "client_preface = [0x50, 0x52, 0x49, 0x20, 0x2A, 0x20, 0x48, 0x54, 0x54, 0x50, 0x2F, 0x32, 0x2E, 0x30,
     0x0D, 0x0A, 0x0D, 0x0A, 0x53, 0x4D, 0x0D, 0x0A, 0x0D, 0x0A]"

record budget =
  fb_max_frame_size :: int
  fb_max_header_block :: int
  fb_preface :: bytes
  fb_header :: bytes
  fb_payload :: bytes
  fb_frame_length :: nat
  fb_frame_type :: byte
  fb_frame_flags :: byte
  fb_frame_stream :: nat
  fb_preface_received :: bool
  fb_header_stream :: "nat option"
  fb_header_bytes :: nat
  fb_ready :: "bytes list"

definition budget_init :: "int \<Rightarrow> int \<Rightarrow> budget" where
  "budget_init max_frame max_block =
     \<lparr>fb_max_frame_size = max_frame, fb_max_header_block = max_block, fb_preface = [], fb_header = [],
      fb_payload = [], fb_frame_length = 0, fb_frame_type = 0, fb_frame_flags = 0, fb_frame_stream = 0,
      fb_preface_received = False, fb_header_stream = None, fb_header_bytes = 0, fb_ready = []\<rparr>"

definition nat_of_be :: "bytes \<Rightarrow> nat" where
  "nat_of_be bs = foldl (\<lambda>n b. n * 256 + unat b) 0 bs"

text \<open>\<open>_start_frame\<close>; after an error the connection is given up, so the error carries no state.\<close>

definition start_frame :: "budget \<Rightarrow> py_error + budget" where
  "start_frame g =
     (let len = nat_of_be (take 3 (fb_header g));
          typ = fb_header g ! 3;
          stream = take_bit 31 (nat_of_be (take 4 (drop 5 (fb_header g))))
      in if int len > fb_max_frame_size g then Inl (ValueError (lit ''HTTP/2 frame exceeds configured maximum''))
         else let g1 = g\<lparr>fb_frame_length := len, fb_frame_type := typ, fb_frame_flags := fb_header g ! 4,
                         fb_frame_stream := stream\<rparr>
              in bind_sum
                (if typ = 1 then
                   (if fb_header_stream g1 \<noteq> None then Inl (ValueError (lit ''interleaved HTTP/2 header blocks are invalid''))
                    else Inr (g1\<lparr>fb_header_stream := Some stream, fb_header_bytes := len\<rparr>))
                 else if typ = 9 then
                   (if fb_header_stream g1 \<noteq> Some stream then Inl (ValueError (lit ''invalid HTTP/2 continuation stream''))
                    else Inr (g1\<lparr>fb_header_bytes := fb_header_bytes g1 + len\<rparr>))
                 else Inr g1)
                (\<lambda>g2. if int (fb_header_bytes g2) > fb_max_header_block g2
                      then Inl (ValueError (lit ''HTTP/2 compressed header block is too large''))
                      else Inr g2))"

definition finish_frame :: "budget \<Rightarrow> budget" where
  "finish_frame g =
     (let g1 = g\<lparr>fb_ready := fb_ready g @ [fb_header g @ fb_payload g]\<rparr>;
          g2 = (if (fb_frame_type g1 = 1 \<or> fb_frame_type g1 = 9) \<and> fb_frame_flags g1 AND 4 \<noteq> 0
                then g1\<lparr>fb_header_stream := None, fb_header_bytes := 0\<rparr> else g1)
      in g2\<lparr>fb_header := [], fb_payload := [], fb_frame_length := 0\<rparr>)"

text \<open>The part of a round after the header is complete.\<close>

definition payload_round :: "budget \<Rightarrow> bytes \<Rightarrow> budget \<times> bytes" where
  "payload_round g data =
     (let n = min (fb_frame_length g - length (fb_payload g)) (length data);
          g1 = g\<lparr>fb_payload := fb_payload g @ take n data\<rparr>
      in (if length (fb_payload g1) = fb_frame_length g1 then finish_frame g1 else g1, drop n data))"

lemma payload_round_length: "payload_round g data = (g3, data3) \<Longrightarrow> length data3 \<le> length data"
  by (auto simp: payload_round_def Let_def)

text \<open>The loop over the view. A round that neither consumes a byte nor finishes a frame cannot come
  from a reachable state; the model stops there.\<close>

function budget_loop :: "budget \<Rightarrow> bytes \<Rightarrow> py_error + budget" where
  "budget_loop g data =
     (if data = [] then Inr g
      else if length (fb_header g) < 9 then
        let n = min (9 - length (fb_header g)) (length data);
            g1 = g\<lparr>fb_header := fb_header g @ take n data\<rparr>
        in if length (fb_header g1) < 9 then Inr g1
           else (case start_frame g1 of
                   Inl e \<Rightarrow> Inl e
                 | Inr g2 \<Rightarrow>
                     if fb_frame_length g2 = 0 then budget_loop (finish_frame g2) (drop n data)
                     else (case payload_round g2 (drop n data) of (g3, data3) \<Rightarrow> budget_loop g3 data3))
      else (case payload_round g data of (g3, data3) \<Rightarrow>
              if length data3 < length data \<or> fb_header g3 = [] then budget_loop g3 data3 else Inr g3))"
  by pat_completeness auto

termination
proof (relation "measures [\<lambda>(g, data). length data, \<lambda>(g, data). length (fb_header g)]", goal_cases)
  case 1
  then show ?case by simp
next
  case 2
  then show ?case by auto
next
  case (3 g data n g1 g2 g3 data3)
  then have "length data3 \<le> length (drop n data)" using payload_round_length by metis
  also have "length (drop n data) < length data" using 3(1,2,3) by simp
  finally show ?case by simp
next
  case (4 g data g3 data3)
  then have "length data3 \<le> length data" using payload_round_length by metis
  with 4(2,4) show ?case by (cases "length data3 < length data") auto
qed

declare budget_loop.simps [simp del]

definition budget_feed :: "budget \<Rightarrow> bytes \<Rightarrow> py_error + budget" where
  "budget_feed g data =
     (if fb_preface_received g then budget_loop g data
      else let n = min (length client_preface - length (fb_preface g)) (length data);
               preface = fb_preface g @ take n data
           in if preface \<noteq> take (length preface) client_preface
              then Inl (ValueError (lit ''invalid HTTP/2 client preface''))
              else if length preface < length client_preface then Inr (g\<lparr>fb_preface := preface\<rparr>)
              else budget_loop (g\<lparr>fb_ready := fb_ready g @ [preface], fb_preface := [],
                                 fb_preface_received := True\<rparr>) (drop n data))"

definition budget_take :: "nat \<Rightarrow> budget \<Rightarrow> bytes list \<times> budget" where
  "budget_take limit g = (take limit (fb_ready g), g\<lparr>fb_ready := drop limit (fb_ready g)\<rparr>)"

definition has_ready_frames :: "budget \<Rightarrow> bool" where
  "has_ready_frames g = (fb_ready g \<noteq> [])"

section \<open>The bytewise machine\<close>

text \<open>Its states have no ready frames: they are its output.\<close>

definition emit :: "budget \<Rightarrow> budget \<times> bytes list" where
  "emit g = (g\<lparr>fb_ready := []\<rparr>, fb_ready g)"

definition header_complete :: "budget \<Rightarrow> py_error + budget \<times> bytes list" where
  "header_complete g =
     (if length (fb_header g) < 9 then Inr (g, [])
      else bind_sum (start_frame g) (\<lambda>g2. Inr (if fb_frame_length g2 = 0 then emit (finish_frame g2) else (g2, []))))"

definition payload_complete :: "budget \<Rightarrow> budget \<times> bytes list" where
  "payload_complete g = (if length (fb_payload g) = fb_frame_length g then emit (finish_frame g) else (g, []))"

definition budget_step :: "budget \<Rightarrow> byte \<Rightarrow> py_error + budget \<times> bytes list" where
  "budget_step g b =
     (if \<not> fb_preface_received g then
        let preface = fb_preface g @ [b]
        in if preface \<noteq> take (length preface) client_preface
           then Inl (ValueError (lit ''invalid HTTP/2 client preface''))
           else if length preface < length client_preface then Inr (g\<lparr>fb_preface := preface\<rparr>, [])
           else Inr (g\<lparr>fb_preface := [], fb_preface_received := True\<rparr>, [preface])
      else if length (fb_header g) < 9 then header_complete (g\<lparr>fb_header := fb_header g @ [b]\<rparr>)
      else Inr (payload_complete (g\<lparr>fb_payload := fb_payload g @ [b]\<rparr>)))"

definition budget_wf :: "budget \<Rightarrow> bool" where
  "budget_wf g = (fb_ready g = [] \<and>
     (if fb_preface_received g
      then fb_preface g = [] \<and>
           (if length (fb_header g) < 9 then fb_payload g = [] else length (fb_header g) = 9 \<and> length (fb_payload g) < fb_frame_length g)
      else length (fb_preface g) < length client_preface \<and> fb_header g = [] \<and> fb_payload g = [] \<and>
           fb_preface g = take (length (fb_preface g)) client_preface))"

lemma budget_wf_init [wf_intros]: "budget_wf (budget_init mf mb)"
  by (simp add: budget_wf_def budget_init_def client_preface_def)

lemma start_frame_Inr:
  assumes "start_frame g = Inr g'"
  shows "fb_header g' = fb_header g \<and> fb_payload g' = fb_payload g \<and> fb_ready g' = fb_ready g \<and>
    fb_preface g' = fb_preface g \<and> fb_preface_received g' = fb_preface_received g \<and>
    fb_max_frame_size g' = fb_max_frame_size g \<and> fb_max_header_block g' = fb_max_header_block g \<and>
    fb_frame_length g' = nat_of_be (take 3 (fb_header g)) \<and> int (fb_frame_length g') \<le> fb_max_frame_size g \<and>
    fb_frame_type g' = fb_header g ! 3 \<and> fb_frame_flags g' = fb_header g ! 4 \<and>
    int (fb_header_bytes g') \<le> fb_max_header_block g \<and>
    fb_header_bytes g' = (if fb_header g ! 3 = 1 then nat_of_be (take 3 (fb_header g))
      else if fb_header g ! 3 = 9 then fb_header_bytes g + nat_of_be (take 3 (fb_header g)) else fb_header_bytes g)"
  using assms by (auto simp: start_frame_def Let_def bind_sum_Inr_iff split: if_splits)

lemma finish_frame_sel:
  "fb_header (finish_frame g) = []" "fb_payload (finish_frame g) = []" "fb_frame_length (finish_frame g) = 0"
  "fb_ready (finish_frame g) = fb_ready g @ [fb_header g @ fb_payload g]"
  "fb_preface (finish_frame g) = fb_preface g" "fb_preface_received (finish_frame g) = fb_preface_received g"
  "fb_max_frame_size (finish_frame g) = fb_max_frame_size g" "fb_max_header_block (finish_frame g) = fb_max_header_block g"
  by (simp_all add: finish_frame_def Let_def)

lemma header_complete_wf:
  assumes "header_complete g = Inr (g', out)" and "fb_preface_received g" and "fb_preface g = []" and "fb_payload g = []"
    and "length (fb_header g) \<le> 9" and "fb_ready g = []"
  shows "budget_wf g'"
  using assms
  by (auto simp: header_complete_def budget_wf_def emit_def bind_sum_Inr_iff finish_frame_sel
      split: if_splits dest!: start_frame_Inr)

lemma budget_step_wf: "budget_wf g \<Longrightarrow> budget_step g b = Inr (g', out) \<Longrightarrow> budget_wf g'"
proof -
  assume wf: "budget_wf g" and step: "budget_step g b = Inr (g', out)"
  show "budget_wf g'"
  proof (cases "fb_preface_received g \<and> length (fb_header g) < 9")
    case True
    with step have "header_complete (g\<lparr>fb_header := fb_header g @ [b]\<rparr>) = Inr (g', out)" by (simp add: budget_step_def)
    then show ?thesis by (rule header_complete_wf) (use wf True in \<open>simp_all add: budget_wf_def\<close>)
  next
    case False
    with wf step show ?thesis
      by (auto simp: budget_step_def budget_wf_def payload_complete_def emit_def finish_frame_sel Let_def split: if_splits)
  qed
qed

section \<open>The chunked loop is the bytewise machine\<close>

abbreviation clean :: "budget \<Rightarrow> budget" where
  "clean g \<equiv> g\<lparr>fb_ready := []\<rparr>"

lemma start_frame_clean: "start_frame (clean g) = bind_sum (start_frame g) (\<lambda>g'. Inr (clean g'))"
  by (simp add: start_frame_def Let_def)

lemma finish_frame_clean: "clean (finish_frame g) = clean (finish_frame (clean g))"
  "fb_ready (finish_frame (clean g)) = [fb_header g @ fb_payload g]"
  by (simp_all add: finish_frame_def Let_def)

lemma steps_one: "steps step g [b] = step g b"
  by (cases "step g b") (auto simp: case_prod_unfold)

lemma header_bytes_steps:
  "fb_preface_received g \<Longrightarrow> length (fb_header g) < 9 \<Longrightarrow> xs \<noteq> [] \<Longrightarrow> length (fb_header g) + length xs \<le> 9 \<Longrightarrow>
     steps budget_step g xs = header_complete (g\<lparr>fb_header := fb_header g @ xs\<rparr>)"
proof (induction xs arbitrary: g)
  case (Cons x xs)
  have step: "budget_step g x = header_complete (g\<lparr>fb_header := fb_header g @ [x]\<rparr>)"
    using Cons.prems by (simp add: budget_step_def)
  show ?case
  proof (cases "xs = []")
    case True
    with step show ?thesis by (simp add: steps_one del: steps.simps)
  next
    case False
    let ?g = "g\<lparr>fb_header := fb_header g @ [x]\<rparr>"
    have "0 < length xs" using False by simp
    moreover have "length (fb_header g) + Suc (length xs) \<le> 9" using Cons.prems(4) by simp
    ultimately have lt: "length (fb_header g) < 8" by linarith
    then have "header_complete ?g = Inr (?g, [])" by (simp add: header_complete_def)
    moreover have "steps budget_step ?g xs = header_complete (?g\<lparr>fb_header := fb_header ?g @ xs\<rparr>)"
      by (rule Cons.IH) (use Cons.prems False lt in simp_all)
    ultimately show ?thesis using step
      by (cases "header_complete (g\<lparr>fb_header := fb_header g @ x # xs\<rparr>)") auto
  qed
qed simp

lemma payload_bytes_steps:
  "fb_preface_received g \<Longrightarrow> length (fb_header g) = 9 \<Longrightarrow> xs \<noteq> [] \<Longrightarrow> length (fb_payload g) + length xs \<le> fb_frame_length g \<Longrightarrow>
     steps budget_step g xs = Inr (payload_complete (g\<lparr>fb_payload := fb_payload g @ xs\<rparr>))"
proof (induction xs arbitrary: g)
  case (Cons x xs)
  have step: "budget_step g x = Inr (payload_complete (g\<lparr>fb_payload := fb_payload g @ [x]\<rparr>))"
    using Cons.prems by (simp add: budget_step_def)
  show ?case
  proof (cases "xs = []")
    case True
    with step show ?thesis by (simp add: steps_one del: steps.simps)
  next
    case False
    let ?g = "g\<lparr>fb_payload := fb_payload g @ [x]\<rparr>"
    have "0 < length xs" using False by simp
    moreover have "length (fb_payload g) + Suc (length xs) \<le> fb_frame_length g" using Cons.prems(4) by simp
    ultimately have "Suc (length (fb_payload g)) \<noteq> fb_frame_length g" by linarith
    then have "payload_complete ?g = (?g, [])" by (simp add: payload_complete_def)
    moreover have "steps budget_step ?g xs = Inr (payload_complete (?g\<lparr>fb_payload := fb_payload ?g @ xs\<rparr>))"
      by (rule Cons.IH) (use Cons.prems False in simp_all)
    ultimately show ?thesis using step by (simp add: case_prod_unfold)
  qed
qed simp

definition loop_ok :: "budget \<Rightarrow> bytes \<Rightarrow> bool" where
  "loop_ok g data =
     (case budget_loop g data of
        Inl e \<Rightarrow> steps budget_step (clean g) data = Inl e
      | Inr g' \<Rightarrow> \<exists>out. steps budget_step (clean g) data = Inr (clean g', out) \<and> fb_ready g' = fb_ready g @ out)"

lemma loop_ok_after:
  assumes "budget_loop g data = budget_loop g1 data1" and "loop_ok g1 data1"
    and "steps budget_step (clean g) data = bind_sum (steps budget_step (clean g1) data1) (\<lambda>(g', o2). Inr (g', out @ o2))"
    and "fb_ready g1 = fb_ready g @ out"
  shows "loop_ok g data"
  using assms unfolding loop_ok_def by (cases "budget_loop g1 data1") auto

text \<open>The payload part of a round.\<close>

lemma payload_stage:
  assumes "budget_wf (clean g)" and "fb_preface_received g" and "length (fb_header g) = 9" and "payload_round g d = (g3, d3)"
  shows "\<exists>out. fb_ready g3 = fb_ready g @ out \<and> budget_wf (clean g3) \<and> fb_preface_received g3 \<and>
    (d = [] \<or> length d3 < length d) \<and>
    steps budget_step (clean g) d = bind_sum (steps budget_step (clean g3) d3) (\<lambda>(g', o2). Inr (g', out @ o2))"
proof -
  have small: "length (fb_payload g) < fb_frame_length g" using assms(1-3) by (simp add: budget_wf_def)
  define n where "n = min (fb_frame_length g - length (fb_payload g)) (length d)"
  define g1 where "g1 = g\<lparr>fb_payload := fb_payload g @ take n d\<rparr>"
  have g3: "g3 = (if length (fb_payload g1) = fb_frame_length g1 then finish_frame g1 else g1)" and d3: "d3 = drop n d"
    using assms(4) by (auto simp: payload_round_def Let_def n_def g1_def)
  show ?thesis
  proof (cases "d = []")
    case True
    then have "g1 = g" by (simp add: g1_def)
    with g3 d3 True small assms show ?thesis by auto
  next
    case False
    then have n: "0 < n" "take n d \<noteq> []" "length (take n d) = n" using small by (auto simp: n_def)
    have "steps budget_step (clean g) (take n d) = Inr (payload_complete (clean g\<lparr>fb_payload := fb_payload (clean g) @ take n d\<rparr>))"
      by (rule payload_bytes_steps) (use assms n small in \<open>simp_all add: n_def\<close>)
    then have st: "steps budget_step (clean g) (take n d) = Inr (payload_complete (clean g1))"
      by (cases g) (simp add: g1_def)
    have pc: "payload_complete (clean g1) = (clean g3, drop (length (fb_ready g)) (fb_ready g3))"
      using finish_frame_clean [of g1] by (simp add: payload_complete_def g3 emit_def finish_frame_sel) (simp add: g1_def)
    have "fb_ready g3 = fb_ready g @ drop (length (fb_ready g)) (fb_ready g3)"
      by (simp add: g3 finish_frame_sel g1_def)
    moreover have "budget_wf (clean g3)"
      using assms(1-3) n small by (auto simp: budget_wf_def g3 finish_frame_sel g1_def n_def)
    moreover have "fb_preface_received g3" using assms(2) by (simp add: g3 finish_frame_sel g1_def)
    moreover have "length d3 < length d" using n(1) False d3 by (simp add: n_def)
    moreover have "steps budget_step (clean g) d = bind_sum (steps budget_step (clean g3) d3)
        (\<lambda>(g', o2). Inr (g', drop (length (fb_ready g)) (fb_ready g3) @ o2))"
      using steps_append [of budget_step "clean g" "take n d" "drop n d"] st pc d3 by simp
    ultimately show ?thesis by blast
  qed
qed


text \<open>The header part of a round.\<close>

lemma frame_header_stage:
  assumes "budget_wf (clean g)" and "fb_preface_received g" and "length (fb_header g) < 9" and "data \<noteq> []"
    and n: "n = min (9 - length (fb_header g)) (length data)" and g1: "g1 = g\<lparr>fb_header := fb_header g @ take n data\<rparr>"
  shows "steps budget_step (clean g) data = bind_sum (header_complete (clean g1))
      (\<lambda>(g2, out1). bind_sum (steps budget_step g2 (drop n data)) (\<lambda>(g3, out2). Inr (g3, out1 @ out2)))
    \<and> length (fb_header g1) \<le> 9 \<and> fb_payload g1 = [] \<and> fb_preface g1 = [] \<and> fb_preface_received g1 \<and> fb_ready g1 = fb_ready g"
proof -
  have pos: "take n data \<noteq> []" using assms(3,4) n by auto
  have len: "length (fb_header g) + length (take n data) \<le> 9" using assms(3) n by simp
  have "steps budget_step (clean g) (take n data) =
      header_complete (clean g\<lparr>fb_header := fb_header (clean g) @ take n data\<rparr>)"
    by (rule header_bytes_steps) (use assms(2,3) pos len in simp_all)
  then have "steps budget_step (clean g) (take n data) = header_complete (clean g1)"
    by (cases g) (simp add: g1)
  with steps_append [of budget_step "clean g" "take n data" "drop n data"] len assms(1-3) show ?thesis
    by (simp add: g1 budget_wf_def)
qed

lemma budget_loop_ok: "budget_wf (clean g) \<Longrightarrow> fb_preface_received g \<Longrightarrow> loop_ok g data"
proof (induction g data rule: budget_loop.induct)
  case (1 g data)
  note finish_IH = "1.IH"(1) and payload_IH = "1.IH"(2) and rest_IH = "1.IH"(3)
  consider (empty) "data = []" | (header) "data \<noteq> []" "length (fb_header g) < 9"
    | (payload) "data \<noteq> []" "\<not> length (fb_header g) < 9" by blast
  then show ?case
  proof cases
    case empty
    then show ?thesis by (simp add: loop_ok_def budget_loop.simps)
  next
    case payload
    then have nine: "length (fb_header g) = 9" using 1(4,5) by (simp add: budget_wf_def)
    obtain g3 d3 where round: "payload_round g data = (g3, d3)" by (cases "payload_round g data")
    from payload_stage [OF "1.prems"(1,2) nine round] payload(1) obtain out where out: "fb_ready g3 = fb_ready g @ out"
      and wf: "budget_wf (clean g3)" "fb_preface_received g3" and less: "length d3 < length data"
      and eq: "steps budget_step (clean g) data = bind_sum (steps budget_step (clean g3) d3) (\<lambda>(g', o2). Inr (g', out @ o2))"
      by blast
    have ok: "loop_ok g3 d3" by (rule rest_IH [OF payload round [symmetric] _ wf]) (use less in simp)
    have "budget_loop g data = budget_loop g3 d3"
      using payload round less by (simp add: budget_loop.simps [of g])
    then show ?thesis by (rule loop_ok_after [OF _ ok eq out])
  next
    case header
    define n where "n = min (9 - length (fb_header g)) (length data)"
    define g1 where "g1 = g\<lparr>fb_header := fb_header g @ take n data\<rparr>"
    note stage = frame_header_stage [OF "1.prems" header(2,1) n_def g1_def, THEN conjunct1]
      and side = frame_header_stage [OF "1.prems" header(2,1) n_def g1_def, THEN conjunct2]
    have loop: "budget_loop g data =
        (if length (fb_header g1) < 9 then Inr g1
         else (case start_frame g1 of
                 Inl e \<Rightarrow> Inl e
               | Inr g2 \<Rightarrow>
                   if fb_frame_length g2 = 0 then budget_loop (finish_frame g2) (drop n data)
                   else (case payload_round g2 (drop n data) of (g3, data3) \<Rightarrow> budget_loop g3 data3)))"
      using header by (simp only: budget_loop.simps [of g] Let_def n_def g1_def if_False if_True)
    show ?thesis
    proof (cases "length (fb_header g1) < 9")
      case True
      then have "n = length data" by (simp add: g1_def n_def min_def split: if_splits)
      with True loop stage side show ?thesis by (simp add: loop_ok_def header_complete_def)
    next
      case False
      with side have nine: "length (fb_header g1) = 9" by simp
      show ?thesis
      proof (cases "start_frame g1")
        case (Inl e)
        with False loop stage show ?thesis by (simp add: loop_ok_def header_complete_def start_frame_clean)
      next
        case (Inr g2)
        note sel = start_frame_Inr [OF Inr]
        show ?thesis
        proof (cases "fb_frame_length g2 = 0")
          case True
          let ?g3 = "finish_frame g2"
          have "header_complete (clean g1) = Inr (clean ?g3, [fb_header g2 @ fb_payload g2])"
            using nine Inr True by (simp add: header_complete_def start_frame_clean emit_def finish_frame_clean [of g2])
          with stage have eq: "steps budget_step (clean g) data =
              bind_sum (steps budget_step (clean ?g3) (drop n data)) (\<lambda>(g', o2). Inr (g', [fb_header g2 @ fb_payload g2] @ o2))"
            by simp
          have out: "fb_ready ?g3 = fb_ready g @ [fb_header g2 @ fb_payload g2]"
            using sel side by (simp add: finish_frame_sel)
          have wf: "budget_wf (clean ?g3)" "fb_preface_received ?g3"
            using sel side by (simp_all add: budget_wf_def finish_frame_sel)
          have ok: "loop_ok ?g3 (drop n data)" by (rule finish_IH [OF header n_def g1_def False Inr True wf])
          have "budget_loop g data = budget_loop ?g3 (drop n data)" using loop False Inr True by simp
          then show ?thesis by (rule loop_ok_after [OF _ ok eq out])
        next
          case pos: False
          obtain g3 d3 where round: "payload_round g2 (drop n data) = (g3, d3)" by (cases "payload_round g2 (drop n data)")
          have wf2: "budget_wf (clean g2)" "fb_preface_received g2" "length (fb_header g2) = 9"
            using sel side nine pos by (simp_all add: budget_wf_def)
          from payload_stage [OF wf2 round] obtain out where out: "fb_ready g3 = fb_ready g2 @ out"
            and wf: "budget_wf (clean g3)" "fb_preface_received g3"
            and eq: "steps budget_step (clean g2) (drop n data) = bind_sum (steps budget_step (clean g3) d3) (\<lambda>(g', o2). Inr (g', out @ o2))"
            by blast
          have "header_complete (clean g1) = Inr (clean g2, [])"
            using nine Inr pos by (simp add: header_complete_def start_frame_clean)
          with stage eq have eq': "steps budget_step (clean g) data = bind_sum (steps budget_step (clean g3) d3) (\<lambda>(g', o2). Inr (g', out @ o2))"
            by (simp add: bind_sum_assoc case_prod_unfold)
          have ok: "loop_ok g3 d3" by (rule payload_IH [OF header n_def g1_def False Inr pos round [symmetric] wf])
          have out': "fb_ready g3 = fb_ready g @ out" using out sel side by simp
          have "budget_loop g data = budget_loop g3 d3" using loop False Inr pos round by simp
          then show ?thesis by (rule loop_ok_after [OF _ ok eq' out'])
        qed
      qed
    qed
  qed
qed

text \<open>The preface.\<close>

lemma take_prefix_part:
  assumes "p @ xs = take (length (p @ xs)) c" shows "p = take (length p) c"
proof -
  have "p = take (length p) (p @ xs)" by simp
  also have "\<dots> = take (length p) (take (length (p @ xs)) c)" by (rule arg_cong [OF assms])
  also have "\<dots> = take (length p) c" by (simp add: min_def)
  finally show ?thesis .
qed

lemma preface_steps:
  "\<not> fb_preface_received g \<Longrightarrow> xs \<noteq> [] \<Longrightarrow> length (fb_preface g) + length xs \<le> length client_preface \<Longrightarrow>
     steps budget_step g xs =
       (let preface = fb_preface g @ xs
        in if preface \<noteq> take (length preface) client_preface
           then Inl (ValueError (lit ''invalid HTTP/2 client preface''))
           else if length preface < length client_preface then Inr (g\<lparr>fb_preface := preface\<rparr>, [])
           else Inr (g\<lparr>fb_preface := [], fb_preface_received := True\<rparr>, [preface]))"
proof (induction xs arbitrary: g)
  case (Cons x xs)
  let ?p = "fb_preface g @ [x]"
  have prefix: "?p @ xs = take (length (?p @ xs)) client_preface \<Longrightarrow> ?p = take (length ?p) client_preface"
    by (rule take_prefix_part)
  show ?case
  proof (cases "xs = []")
    case True
    show ?thesis unfolding True steps_one budget_step_def
      by (simp only: Cons.prems(1) not_False_eq_True if_True)
  next
    case False
    then have "0 < length xs" by simp
    moreover have "length ?p + length xs \<le> length client_preface" using Cons.prems(3) by simp
    ultimately have short: "length ?p < length client_preface" by linarith
    show ?thesis
    proof (cases "?p = take (length ?p) client_preface")
      case ok: False
      then have "budget_step g x = Inl (ValueError (lit ''invalid HTTP/2 client preface''))"
        using Cons.prems(1) by (simp add: budget_step_def Let_def)
      moreover have "\<not> (?p @ xs = take (length (?p @ xs)) client_preface)" using prefix ok by blast
      ultimately show ?thesis by (simp add: Let_def)
    next
      case True
      let ?g = "g\<lparr>fb_preface := ?p\<rparr>"
      have step: "budget_step g x = Inr (?g, [])"
        using Cons.prems(1) True short by (simp add: budget_step_def Let_def)
      have "steps budget_step ?g xs =
         (let preface = fb_preface ?g @ xs
          in if preface \<noteq> take (length preface) client_preface
             then Inl (ValueError (lit ''invalid HTTP/2 client preface''))
             else if length preface < length client_preface then Inr (?g\<lparr>fb_preface := preface\<rparr>, [])
             else Inr (?g\<lparr>fb_preface := [], fb_preface_received := True\<rparr>, [preface]))"
        by (rule Cons.IH) (use Cons.prems False in simp_all)
      with step show ?thesis by (simp add: Let_def)
    qed
  qed
qed simp

text \<open>What \<open>receive_data\<close> sees of one read when it takes every ready chunk.\<close>

definition budget_stream :: "budget \<Rightarrow> bytes \<Rightarrow> py_error + budget \<times> bytes list" where
  "budget_stream g data = bind_sum (budget_feed g data) (\<lambda>g'. Inr (emit g'))"

lemma wf_clean: "budget_wf g \<Longrightarrow> clean g = g"
  by (simp add: budget_wf_def)

lemma loop_ok_stream:
  "loop_ok g data \<Longrightarrow> bind_sum (budget_loop g data) (\<lambda>g'. Inr (emit g')) =
     bind_sum (steps budget_step (clean g) data) (\<lambda>(g', o2). Inr (g', fb_ready g @ o2))"
  by (cases "budget_loop g data") (auto simp: loop_ok_def emit_def)

lemma budget_stream_steps:
  assumes wf: "budget_wf g"
  shows "budget_stream g data = steps budget_step g data"
proof (cases "fb_preface_received g")
  case True
  have "fb_ready g = []" using wf by (simp add: budget_wf_def)
  moreover have "budget_wf (clean g)" using wf wf_clean by simp
  note loop_ok_stream [OF budget_loop_ok [OF this True], of data]
  ultimately show ?thesis using True wf_clean [OF wf]
    by (simp add: budget_stream_def budget_feed_def case_prod_unfold)
next
  case False
  define n where "n = min (length client_preface - length (fb_preface g)) (length data)"
  define p where "p = fb_preface g @ take n data"
  define bad where "bad = (p \<noteq> take (length p) client_preface)"
  have short: "length (fb_preface g) < length client_preface" and empty: "fb_header g = []" "fb_payload g = []" "fb_ready g = []"
    using wf False by (simp_all add: budget_wf_def)
  have feed: "budget_feed g data =
      (if bad then Inl (ValueError (lit ''invalid HTTP/2 client preface''))
       else if length p < length client_preface then Inr (g\<lparr>fb_preface := p\<rparr>)
       else budget_loop (g\<lparr>fb_ready := fb_ready g @ [p], fb_preface := [], fb_preface_received := True\<rparr>) (drop n data))"
    using False unfolding bad_def p_def n_def by (simp only: budget_feed_def Let_def if_False)
  show ?thesis
  proof (cases "data = []")
    case True
    then have p: "p = fb_preface g" by (simp add: p_def)
    moreover have "\<not> bad" unfolding bad_def p using wf False by (simp add: budget_wf_def)
    ultimately show ?thesis using feed short empty True by (simp add: budget_stream_def emit_def)
  next
    case data: False
    then have pos: "take n data \<noteq> []" using short by (auto simp: n_def)
    have first: "steps budget_step g (take n data) =
       (if bad then Inl (ValueError (lit ''invalid HTTP/2 client preface''))
        else if length p < length client_preface then Inr (g\<lparr>fb_preface := p\<rparr>, [])
        else Inr (g\<lparr>fb_preface := [], fb_preface_received := True\<rparr>, [p]))"
      using preface_steps [OF False pos] short unfolding bad_def p_def by (simp add: Let_def n_def)
    have all: "steps budget_step g data = bind_sum (steps budget_step g (take n data))
        (\<lambda>(g1, o1). bind_sum (steps budget_step g1 (drop n data)) (\<lambda>(g2, o2). Inr (g2, o1 @ o2)))"
      using steps_append [of budget_step g "take n data" "drop n data"] by simp
    show ?thesis
    proof (cases "\<not> bad \<and> \<not> length p < length client_preface")
      case True
      let ?g = "g\<lparr>fb_ready := fb_ready g @ [p], fb_preface := [], fb_preface_received := True\<rparr>"
      have "budget_wf (clean ?g)" using empty by (simp add: budget_wf_def)
      from loop_ok_stream [OF budget_loop_ok [OF this]]
      have loop: "bind_sum (budget_loop ?g (drop n data)) (\<lambda>g'. Inr (emit g')) =
          bind_sum (steps budget_step (clean ?g) (drop n data)) (\<lambda>(g', o2). Inr (g', [p] @ o2))" by (simp add: empty)
      have "clean ?g = g\<lparr>fb_preface := [], fb_preface_received := True\<rparr>" using empty by (cases g) simp
      with loop True first all feed show ?thesis unfolding budget_stream_def by simp
    next
      case stop: False
      have "drop n data = []" if "length p < length client_preface"
        using that by (auto simp: p_def n_def)
      with stop first all feed empty show ?thesis
        by (auto simp: budget_stream_def emit_def budget_wf_def split: if_splits)
    qed
  qed
qed

interpretation h2_budget: bytewise_reader budget_step budget_stream budget_wf
  by unfold_locales (auto simp: budget_stream_steps intro: budget_step_wf)

section \<open>What comes out\<close>

definition held_bytes :: "budget \<Rightarrow> bytes" where
  "held_bytes g = fb_preface g @ fb_header g @ fb_payload g"

text \<open>Frames as the wire has them: nine bytes of header, then the payload.\<close>

definition frame_payload_length :: "bytes \<Rightarrow> nat" where
  "frame_payload_length f = nat_of_be (take 3 f)"

definition whole_frame :: "int \<Rightarrow> bytes \<Rightarrow> bool" where
  "whole_frame max_frame f = (length f = 9 + frame_payload_length f \<and> int (frame_payload_length f) \<le> max_frame)"

text \<open>The bytes of the header block a frame leaves open, and the block with this frame counted in.\<close>

definition block_with :: "nat \<Rightarrow> bytes \<Rightarrow> nat" where
  "block_with n f =
     (if f ! 3 = 1 then frame_payload_length f else if f ! 3 = 9 then n + frame_payload_length f else n)"

definition block_after :: "nat \<Rightarrow> bytes \<Rightarrow> nat" where
  "block_after n f = (if (f ! 3 = 1 \<or> f ! 3 = 9) \<and> f ! 4 AND 4 \<noteq> 0 then 0 else block_with n f)"

definition open_block :: "bytes list \<Rightarrow> nat" where
  "open_block fs = foldl block_after 0 fs"

definition blocks_bounded :: "int \<Rightarrow> bytes list \<Rightarrow> bool" where
  "blocks_bounded max_block fs =
     (\<forall>i < length fs. int (block_with (open_block (take i fs)) (fs ! i)) \<le> max_block)"

lemma open_block_snoc: "open_block (fs @ [f]) = block_after (open_block fs) f"
  by (simp add: open_block_def)

lemma blocks_bounded_snoc:
  "blocks_bounded m fs \<Longrightarrow> int (block_with (open_block fs) f) \<le> m \<Longrightarrow> blocks_bounded m (fs @ [f])"
  by (auto simp: blocks_bounded_def nth_append less_Suc_eq)

definition budget_inv :: "int \<Rightarrow> int \<Rightarrow> budget \<Rightarrow> bytes list \<Rightarrow> bool" where
  "budget_inv mf mb g out =
     (fb_max_frame_size g = mf \<and> fb_max_header_block g = mb \<and>
      (if fb_preface_received g
       then \<exists>fs. out = client_preface # fs \<and> (\<forall>f \<in> set fs. whole_frame mf f) \<and> blocks_bounded mb fs \<and>
              (if length (fb_header g) < 9 then fb_header_bytes g = open_block fs
               else fb_frame_length g = nat_of_be (take 3 (fb_header g)) \<and> int (fb_frame_length g) \<le> mf \<and>
                    fb_frame_type g = fb_header g ! 3 \<and> fb_frame_flags g = fb_header g ! 4 \<and>
                    int (fb_header_bytes g) \<le> mb \<and> fb_header_bytes g = block_with (open_block fs) (fb_header g))
       else out = [] \<and> fb_header_bytes g = 0 \<and> fb_header g = []))"

lemma budget_inv_init: "budget_inv mf mb (budget_init mf mb) []"
  by (simp add: budget_inv_def budget_init_def)

lemma block_with_header:
  "length h = 9 \<Longrightarrow> block_with n (h @ p) = block_with n h \<and> frame_payload_length (h @ p) = nat_of_be (take 3 h)"
  by (simp add: block_with_def frame_payload_length_def nth_append)

lemma finish_frame_bytes:
  "fb_header_bytes (finish_frame g) =
     (if (fb_frame_type g = 1 \<or> fb_frame_type g = 9) \<and> fb_frame_flags g AND 4 \<noteq> 0 then 0 else fb_header_bytes g)"
  by (simp add: finish_frame_def Let_def)

text \<open>A frame is finished when its payload has the declared length.\<close>

lemma budget_inv_finish:
  assumes "fb_max_frame_size g = mf" "fb_max_header_block g = mb" "fb_preface_received g" "length (fb_header g) = 9"
    and "length (fb_payload g) = fb_frame_length g" "fb_frame_length g = nat_of_be (take 3 (fb_header g))"
    and "int (fb_frame_length g) \<le> mf" "fb_frame_type g = fb_header g ! 3" "fb_frame_flags g = fb_header g ! 4"
    and "int (fb_header_bytes g) \<le> mb" "fb_header_bytes g = block_with (open_block fs) (fb_header g)"
    and "\<forall>f \<in> set fs. whole_frame mf f" "blocks_bounded mb fs" "fb_ready g = []"
  shows "budget_inv mf mb (fst (emit (finish_frame g))) ((client_preface # fs) @ snd (emit (finish_frame g)))"
proof -
  let ?f = "fb_header g @ fb_payload g"
  note wh = block_with_header [OF assms(4), of "open_block fs" "fb_payload g"]
  have new: "whole_frame mf ?f" using assms(4,5,6,7) wh by (simp add: whole_frame_def)
  have bounded: "blocks_bounded mb (fs @ [?f])"
    by (rule blocks_bounded_snoc) (use assms wh in simp_all)
  have nth: "?f ! 3 = fb_header g ! 3" "?f ! 4 = fb_header g ! 4" using assms(4) by (simp_all add: nth_append)
  have after: "fb_header_bytes (finish_frame g) = open_block (fs @ [?f])"
    using assms wh nth by (simp add: finish_frame_bytes open_block_snoc block_after_def)
  show ?thesis
    unfolding budget_inv_def
    using assms(1-3,12,14) new bounded after by (simp add: emit_def finish_frame_sel)
qed

lemma budget_inv_step:
  assumes wf: "budget_wf g" and inv: "budget_inv mf mb g out" and step: "budget_step g b = Inr (g', out')"
  shows "budget_inv mf mb g' (out @ out')"
proof (cases "fb_preface_received g")
  case False
  with wf inv step show ?thesis
    by (auto simp: budget_step_def budget_wf_def budget_inv_def Let_def open_block_def blocks_bounded_def split: if_splits)
next
  case True
  from inv True obtain fs where out: "out = client_preface # fs" and fs: "\<forall>f \<in> set fs. whole_frame mf f" "blocks_bounded mb fs"
    and lim: "fb_max_frame_size g = mf" "fb_max_header_block g = mb"
    and st: "if length (fb_header g) < 9 then fb_header_bytes g = open_block fs
               else fb_frame_length g = nat_of_be (take 3 (fb_header g)) \<and> int (fb_frame_length g) \<le> mf \<and>
                    fb_frame_type g = fb_header g ! 3 \<and> fb_frame_flags g = fb_header g ! 4 \<and>
                    int (fb_header_bytes g) \<le> mb \<and> fb_header_bytes g = block_with (open_block fs) (fb_header g)"
    by (auto simp: budget_inv_def)
  have ready: "fb_ready g = []" using wf by (simp add: budget_wf_def)
  show ?thesis
  proof (cases "length (fb_header g) < 9")
    case False
    with wf True have nine: "length (fb_header g) = 9" by (simp add: budget_wf_def)
    let ?g = "g\<lparr>fb_payload := fb_payload g @ [b]\<rparr>"
    from step True False have g': "(g', out') = payload_complete ?g" by (simp add: budget_step_def)
    show ?thesis
    proof (cases "length (fb_payload ?g) = fb_frame_length ?g")
      case True2: True
      have "budget_inv mf mb (fst (emit (finish_frame ?g))) ((client_preface # fs) @ snd (emit (finish_frame ?g)))"
        by (rule budget_inv_finish) (use True2 lim True nine st False fs ready in simp_all)
      with g' True2 out show ?thesis by (simp add: payload_complete_def) (metis fst_conv snd_conv)
    next
      case False2: False
      with g' have "g' = ?g" "out' = []" by (simp_all add: payload_complete_def)
      with lim True out fs st False show ?thesis by (simp add: budget_inv_def)
    qed
  next
    case lt: True
    let ?g = "g\<lparr>fb_header := fb_header g @ [b]\<rparr>"
    from step True lt have hc: "header_complete ?g = Inr (g', out')" by (simp add: budget_step_def)
    show ?thesis
    proof (cases "length (fb_header ?g) < 9")
      case True2: True
      with hc have "g' = ?g" "out' = []" by (simp_all add: header_complete_def)
      with lim True out fs st lt True2 show ?thesis by (simp add: budget_inv_def)
    next
      case False2: False
      with lt have nine: "length (fb_header ?g) = 9" by simp
      from hc False2 obtain g2 where g2: "start_frame ?g = Inr g2"
        and res: "(g', out') = (if fb_frame_length g2 = 0 then emit (finish_frame g2) else (g2, []))"
        by (auto simp: header_complete_def bind_sum_Inr_iff split: if_splits)
      note sel = start_frame_Inr [OF g2]
      have bytes: "fb_header_bytes g2 = block_with (open_block fs) (fb_header g2)"
        using sel st lt by (simp add: block_with_def frame_payload_length_def)
      have l2: "int (block_with (open_block fs) (fb_header g @ [b])) \<le> mb"
      proof -
        have "int (fb_header_bytes g2) \<le> mb" and "fb_header g2 = fb_header g @ [b]" using sel lim by simp_all
        with bytes show ?thesis by simp
      qed
      have nopay: "fb_payload g2 = []" using sel wf True lt by (simp add: budget_wf_def)
      show ?thesis
      proof (cases "fb_frame_length g2 = 0")
        case zero: True
        have "budget_inv mf mb (fst (emit (finish_frame g2))) ((client_preface # fs) @ snd (emit (finish_frame g2)))"
          by (rule budget_inv_finish) (use zero lim True nine sel bytes nopay fs ready l2 in simp_all)
        with res zero out show ?thesis by simp (metis fst_conv snd_conv)
      next
        case pos: False
        with res have "g' = g2" "out' = []" by simp_all
        with lim True out fs sel bytes nine l2 show ?thesis by (simp add: budget_inv_def)
      qed
    qed
  qed
qed

lemma header_complete_bytes:
  "header_complete g = Inr (g', out) \<Longrightarrow> fb_ready g = [] \<Longrightarrow> fb_payload g = [] \<Longrightarrow> fb_preface g = [] \<Longrightarrow>
     concat out @ held_bytes g' = fb_header g"
  by (auto simp: header_complete_def held_bytes_def bind_sum_Inr_iff emit_def finish_frame_sel
      split: if_splits dest!: start_frame_Inr)

lemma budget_step_bytes:
  assumes wf: "budget_wf g" and step: "budget_step g b = Inr (g', out)"
  shows "concat out @ held_bytes g' = held_bytes g @ [b]"
proof (cases "fb_preface_received g \<and> length (fb_header g) < 9")
  case True
  with wf step header_complete_bytes [of "g\<lparr>fb_header := fb_header g @ [b]\<rparr>" g' out] show ?thesis
    by (simp add: budget_step_def budget_wf_def held_bytes_def)
next
  case False
  with wf step show ?thesis
    by (auto simp: budget_step_def budget_wf_def held_bytes_def payload_complete_def emit_def finish_frame_sel Let_def
        split: if_splits)
qed

lemma budget_steps_bytes:
  "budget_wf g \<Longrightarrow> steps budget_step g bs = Inr (g', out) \<Longrightarrow> concat out @ held_bytes g' = held_bytes g @ bs"
proof (induction bs arbitrary: g out)
  case (Cons b bs)
  from Cons.prems(2) obtain g1 o1 o2 where "budget_step g b = Inr (g1, o1)" "steps budget_step g1 bs = Inr (g', o2)" "out = o1 @ o2"
    by (auto simp: bind_sum_Inr_iff)
  with Cons.IH [of g1 o2] budget_step_bytes [OF Cons.prems(1)] budget_step_wf [OF Cons.prems(1)] show ?case
    by (metis append.assoc append_Cons append_Nil concat_append)
qed simp

section \<open>The properties\<close>

text \<open>C14. The splitter does not depend on how TCP cuts the stream: verdict, state and frames are those of
  the whole stream, for any two ways of cutting; and when no bound is hit, the chunks it made ready,
  one after the other, followed by the bytes it still holds, are the bytes it was fed.\<close>

theorem budget_segmentation:
  assumes "concat cs = concat ds"
  shows "fst (run_chunks (collect_stream budget_stream) (budget_init mf mb, []) cs) =
      fst (run_chunks (collect_stream budget_stream) (budget_init mf mb, []) ds) \<and>
    (\<forall>g out. run_chunks (collect_stream budget_stream) (budget_init mf mb, []) cs = (Inr None, (g, out)) \<longrightarrow>
       run_chunks (collect_stream budget_stream) (budget_init mf mb, []) ds = (Inr None, (g, out)) \<and>
       concat out @ held_bytes g = concat cs)"
proof (intro conjI allI impI)
  have wf: "budget_wf (fst (budget_init mf mb, [] :: bytes list))" by (simp add: budget_wf_init)
  show same: "fst (run_chunks (collect_stream budget_stream) (budget_init mf mb, []) cs) =
      fst (run_chunks (collect_stream budget_stream) (budget_init mf mb, []) ds)"
    by (rule h2_budget.reader.segmentation_irrelevant [OF wf assms])
  fix g out
  assume run: "run_chunks (collect_stream budget_stream) (budget_init mf mb, []) cs = (Inr None, (g, out))"
  with h2_budget.reader.run_chunks_undecided [OF wf, of cs]
  have one: "collect_stream budget_stream (budget_init mf mb, []) (concat cs) = (Inr None, (g, out))" by simp
  from run same have "fst (run_chunks (collect_stream budget_stream) (budget_init mf mb, []) ds) = Inr None" by simp
  from h2_budget.reader.run_chunks_undecided [OF wf this] one assms
  show "run_chunks (collect_stream budget_stream) (budget_init mf mb, []) ds = (Inr None, (g, out))" by simp
  from one have "steps budget_step (budget_init mf mb) (concat cs) = Inr (g, out)"
    by (auto simp: collect_stream_def budget_stream_steps budget_wf_init split: sum.splits)
  from budget_steps_bytes [OF budget_wf_init this] show "concat out @ held_bytes g = concat cs"
    by (simp add: held_bytes_def budget_init_def)
qed

text \<open>C13. hyper-h2 sees bounded frames only: whatever bytes arrive, what the splitter makes ready is
  nothing, or the client preface followed by whole frames, each with a payload of the declared length
  and at most \<open>max_frame_size\<close>, and such that no header block, counted over its HEADERS frame and all its
  CONTINUATION frames, exceeds \<open>max_compressed_header_bytes\<close>.\<close>

theorem budget_frames_bounded:
  assumes "budget_stream (budget_init mf mb) bs = Inr (g, out)"
  shows "out = [] \<or> (\<exists>fs. out = client_preface # fs \<and> (\<forall>f \<in> set fs. whole_frame mf f) \<and> blocks_bounded mb fs)"
proof -
  have "budget_inv mf mb g out"
    by (rule h2_budget.stream_output_induct [OF budget_wf_init assms, of "budget_inv mf mb"])
      (auto intro: budget_inv_init budget_inv_step)
  then show ?thesis by (auto simp: budget_inv_def split: if_splits)
qed

lemma budget_segmentation_witness:
  "fst (run_chunks (collect_stream budget_stream) (budget_init 16384 100, []) [[0x50], [0x52, 0x49]]) =
     fst (run_chunks (collect_stream budget_stream) (budget_init 16384 100, []) [[0x50, 0x52, 0x49]])"
  using budget_segmentation [of "[[0x50], [0x52, 0x49]]" "[[0x50, 0x52, 0x49]]" 16384 100] by simp

text \<open>An empty SETTINGS frame after the preface.\<close>

lemma budget_frames_bounded_witness:
  "\<exists>fs. [client_preface, [0, 0, 0, 4, 0, 0, 0, 0, 0]] = client_preface # fs \<and> blocks_bounded 100 fs"
proof -
  have "\<exists>g. budget_stream (budget_init 16384 100) (client_preface @ [0, 0, 0, 4, 0, 0, 0, 0, 0]) =
      Inr (g, [client_preface, [0, 0, 0, 4, 0, 0, 0, 0, 0]])"
    by (simp add: budget_stream_def budget_feed_def budget_init_def client_preface_def budget_loop.simps
        start_frame_def nat_of_be_def finish_frame_def emit_def)
  then obtain g where "budget_stream (budget_init 16384 100) (client_preface @ [0, 0, 0, 4, 0, 0, 0, 0, 0]) =
      Inr (g, [client_preface, [0, 0, 0, 4, 0, 0, 0, 0, 0]])" by blast
  from budget_frames_bounded [OF this] show ?thesis by auto
qed

end
