(* ===== verification/H2_Protocol.thy ===== *)
theory H2_Protocol
  imports Http_Values Registry H2_Frames
begin

text \<open>
  \<open>H2Protocol\<close> of \<open>smallserver/http2.py\<close>: the bounded stream state of one HTTP/2 connection. hyper-h2
  is not part of the repository: its connection object is a state of type \<open>'w\<close> and its methods are
  the fields of \<open>h2lib\<close>, arbitrary functions on that state. Header fields arrive as text
  (\<open>header_encoding="utf-8"\<close>). An operation that raises returns the error with the state it left.
\<close>

section \<open>hyper-h2 and the state\<close>

datatype h2_event =
    RequestReceived nat "(pystr \<times> pystr) list"
  | DataReceived nat bytes nat
  | StreamEnded nat
  | StreamReset nat
  | TrailersReceived nat
  | ConnectionTerminated
  | OtherEvent

datatype h2_code = NO_ERROR | PROTOCOL_ERROR | INTERNAL_ERROR | STREAM_CLOSED | REFUSED_STREAM | ENHANCE_YOUR_CALM

datatype h2_failure = H2Error py_error | H2Library

text \<open>A method that can raise returns \<open>False\<close> or \<open>Inl\<close> when it does.\<close>

record 'w h2lib =
  lib_receive :: "bytes \<Rightarrow> 'w \<Rightarrow> (unit + h2_event list) \<times> 'w"
  lib_data_to_send :: "'w \<Rightarrow> bytes \<times> 'w"
  lib_acknowledge :: "nat \<Rightarrow> nat \<Rightarrow> 'w \<Rightarrow> bool \<times> 'w"
  lib_reset :: "nat \<Rightarrow> h2_code \<Rightarrow> 'w \<Rightarrow> bool \<times> 'w"
  lib_send_headers :: "nat \<Rightarrow> (pystr \<times> pystr) list \<Rightarrow> bool \<Rightarrow> 'w \<Rightarrow> bool \<times> 'w"
  lib_send_data :: "nat \<Rightarrow> bytes \<Rightarrow> bool \<Rightarrow> 'w \<Rightarrow> bool \<times> 'w"
  lib_window :: "nat \<Rightarrow> 'w \<Rightarrow> int option \<times> 'w"
  lib_max_outbound :: "'w \<Rightarrow> int"
  lib_close :: "h2_code \<Rightarrow> nat \<Rightarrow> 'w \<Rightarrow> bool \<times> 'w"
  lib_initiate :: "'w \<Rightarrow> 'w"

record h2_config =
  hc_max_concurrent_streams :: int
  hc_max_header_count :: int
  hc_max_header_bytes :: int
  hc_max_compressed_header_bytes :: int
  hc_max_body_bytes :: int
  hc_max_connection_buffer_bytes :: int
  hc_max_pending_output_bytes :: int
  hc_max_response_body_bytes :: int
  hc_max_control_output_bytes :: int
  hc_max_frame_size :: int
  hc_reader_frame_batch_size :: int
  hc_handshake_timeout :: int
  hc_idle_timeout :: int

fun first_not_positive :: "(pystr \<times> int) list \<Rightarrow> pystr option" where
  "first_not_positive [] = None"
| "first_not_positive ((name, v) # fs) = (if v \<le> 0 then Some name else first_not_positive fs)"

definition h2_config_init :: "h2_config \<Rightarrow> py_error + h2_config" where
  "h2_config_init c =
     (case first_not_positive
         [(lit ''max_concurrent_streams'', hc_max_concurrent_streams c), (lit ''max_header_count'', hc_max_header_count c),
          (lit ''max_header_bytes'', hc_max_header_bytes c), (lit ''max_compressed_header_bytes'', hc_max_compressed_header_bytes c),
          (lit ''max_body_bytes'', hc_max_body_bytes c), (lit ''max_connection_buffer_bytes'', hc_max_connection_buffer_bytes c),
          (lit ''max_pending_output_bytes'', hc_max_pending_output_bytes c), (lit ''max_response_body_bytes'', hc_max_response_body_bytes c),
          (lit ''max_control_output_bytes'', hc_max_control_output_bytes c), (lit ''max_frame_size'', hc_max_frame_size c),
          (lit ''reader_frame_batch_size'', hc_reader_frame_batch_size c)] of
        Some name \<Rightarrow> Inl (ValueError (name @ lit '' must be a positive integer''))
      | None \<Rightarrow>
     (case first_not_positive [(lit ''handshake_timeout'', hc_handshake_timeout c), (lit ''idle_timeout'', hc_idle_timeout c)] of
        Some name \<Rightarrow> Inl (ValueError (name @ lit '' must be a positive number''))
      | None \<Rightarrow>
          if \<not> (16384 \<le> hc_max_frame_size c \<and> hc_max_frame_size c \<le> 16777215)
          then Inl (ValueError (lit ''max_frame_size must be between 16384 and 16777215''))
          else if hc_max_body_bytes c > hc_max_connection_buffer_bytes c
          then Inl (ValueError (lit ''max_body_bytes cannot exceed max_connection_buffer_bytes''))
          else if hc_max_response_body_bytes c > hc_max_pending_output_bytes c
          then Inl (ValueError (lit ''max_response_body_bytes cannot exceed max_pending_output_bytes''))
          else if hc_max_control_output_bytes c > hc_max_pending_output_bytes c
          then Inl (ValueError (lit ''max_control_output_bytes cannot exceed max_pending_output_bytes''))
          else if hc_max_control_output_bytes c < 51
          then Inl (ValueError (lit ''max_control_output_bytes must allow initial HTTP/2 settings''))
          else Inr c))"

text \<open>\<open>_InboundStream\<close>; \<open>in_dispatched\<close> also stands for the body having become immutable \<open>bytes\<close>.\<close>

record inbound =
  in_method :: pystr
  in_path :: pystr
  in_headers :: headers
  in_body :: bytes
  in_expected :: "nat option"
  in_dispatched :: bool

record outbound =
  ob_body :: bytes
  ob_offset :: nat

record 'w h2_state =
  h2_config :: h2_config
  h2_conn :: 'w
  h2_frames :: budget
  h2_inbound :: "(nat \<times> inbound) list"
  h2_active :: "nat list"
  h2_outbound :: "(nat \<times> outbound) list"
  h2_commands :: "(nat \<times> response option) list"
  h2_buffered :: int
  h2_pending :: int
  h2_control :: bytes
  h2_cancelled :: "nat list"
  h2_ready :: "(nat \<times> request) list"
  h2_last_processed :: nat
  h2_remote_closed :: bool
  h2_local_closed :: bool

definition h2_init :: "h2_config \<Rightarrow> 'w \<Rightarrow> 'w h2_state" where
  "h2_init c w =
     \<lparr>h2_config = c, h2_conn = w,
      h2_frames = budget_init (hc_max_frame_size c) (hc_max_compressed_header_bytes c),
      h2_inbound = [], h2_active = [], h2_outbound = [], h2_commands = [], h2_buffered = 0, h2_pending = 0,
      h2_control = [], h2_cancelled = [], h2_ready = [], h2_last_processed = 0, h2_remote_closed = False,
      h2_local_closed = False\<rparr>"

text \<open>The observers of the state.\<close>

definition active_stream_count :: "'w h2_state \<Rightarrow> nat" where
  "active_stream_count s = length (h2_active s)"

definition pending_output_bytes :: "'w h2_state \<Rightarrow> int" where
  "pending_output_bytes s = h2_pending s + int (length (h2_control s))"

definition buffered_request_bytes :: "'w h2_state \<Rightarrow> int" where
  "buffered_request_bytes s = h2_buffered s"

definition preface_received :: "'w h2_state \<Rightarrow> bool" where
  "preface_received s = fb_preface_received (h2_frames s)"

definition has_pending_input :: "'w h2_state \<Rightarrow> bool" where
  "has_pending_input s = has_ready_frames (h2_frames s)"

section \<open>Dropping a stream\<close>

definition release_inbound :: "nat \<Rightarrow> 'w h2_state \<Rightarrow> 'w h2_state" where
  "release_inbound sid s =
     (case map_of (h2_inbound s) sid of
        None \<Rightarrow> s
      | Some st \<Rightarrow> s\<lparr>h2_inbound := dict_pop sid (h2_inbound s), h2_buffered := h2_buffered s - int (length (in_body st))\<rparr>)"

definition drop_outbound :: "nat \<Rightarrow> 'w h2_state \<Rightarrow> 'w h2_state" where
  "drop_outbound sid s =
     (case map_of (h2_outbound s) sid of
        None \<Rightarrow> s
      | Some ob \<Rightarrow> s\<lparr>h2_outbound := dict_pop sid (h2_outbound s),
                      h2_pending := h2_pending s - (int (length (ob_body ob)) - int (ob_offset ob))\<rparr>)"

fun drop_commands :: "nat \<Rightarrow> (nat \<times> response option) list \<Rightarrow> int \<Rightarrow> (nat \<times> response option) list \<Rightarrow> (nat \<times> response option) list \<times> int" where
  "drop_commands sid [] pending kept = (kept, pending)"
| "drop_commands sid ((i, r) # cmds) pending kept =
     (case r of
        Some resp \<Rightarrow>
          if i = sid then drop_commands sid cmds (pending - int (length (resp_body resp))) kept
          else drop_commands sid cmds pending (kept @ [(i, r)])
      | None \<Rightarrow> drop_commands sid cmds pending (kept @ [(i, r)]))"

definition drop_stream :: "nat \<Rightarrow> 'w h2_state \<Rightarrow> 'w h2_state" where
  "drop_stream sid s =
     (let s1 = release_inbound sid s;
          s2 = s1\<lparr>h2_ready := filter (\<lambda>item. fst item \<noteq> sid) (h2_ready s1)\<rparr>;
          s3 = drop_outbound sid s2
      in case drop_commands sid (h2_commands s3) (h2_pending s3) [] of
           (kept, pending) \<Rightarrow> s3\<lparr>h2_commands := kept, h2_pending := pending,
                                h2_active := removeAll sid (h2_active s3)\<rparr>)"

definition reset_stream :: "'w h2lib \<Rightarrow> h2_code \<Rightarrow> nat \<Rightarrow> 'w h2_state \<Rightarrow> 'w h2_state" where
  "reset_stream lib code sid s = drop_stream sid (s\<lparr>h2_conn := snd (lib_reset lib sid code (h2_conn s))\<rparr>)"

section \<open>Control output\<close>

definition capture_control :: "'w h2lib \<Rightarrow> 'w h2_state \<Rightarrow> (h2_failure + unit) \<times> 'w h2_state" where
  "capture_control lib s =
     (case lib_data_to_send lib (h2_conn s) of (produced, w) \<Rightarrow>
        let s1 = s\<lparr>h2_conn := w\<rparr>;
            next_size = int (length (h2_control s1)) + int (length produced)
        in if next_size > hc_max_control_output_bytes (h2_config s) \<or>
              next_size + h2_pending s1 > hc_max_pending_output_bytes (h2_config s)
           then (Inl (H2Error (ValueError (lit ''HTTP/2 control output exceeds configured maximum''))), s1)
           else (Inr (), s1\<lparr>h2_control := h2_control s1 @ produced\<rparr>))"

definition wire_output_ok :: "'w h2_state \<Rightarrow> nat \<Rightarrow> nat \<Rightarrow> bool" where
  "wire_output_ok s new already = (int new + int already + h2_pending s \<le> hc_max_pending_output_bytes (h2_config s))"

definition h2_initiate :: "'w h2lib \<Rightarrow> 'w h2_state \<Rightarrow> (h2_failure + bytes) \<times> 'w h2_state" where
  "h2_initiate lib s =
     (case lib_data_to_send lib (lib_initiate lib (h2_conn s)) of (output, w) \<Rightarrow>
        let s1 = s\<lparr>h2_conn := w\<rparr>
        in if int (length output) > hc_max_control_output_bytes (h2_config s)
           then (Inl (H2Error (ValueError (lit ''HTTP/2 control output exceeds configured maximum''))), s1)
           else if \<not> wire_output_ok s1 (length output) 0
           then (Inl (H2Error (ValueError (lit ''HTTP/2 generated output exceeds configured maximum''))), s1)
           else (Inr output, s1))"

section \<open>Request headers\<close>

definition forbidden_headers :: "pystr list" where
  "forbidden_headers = [lit ''connection'', lit ''keep-alive'', lit ''proxy-connection'',
     lit ''transfer-encoding'', lit ''upgrade'']"

record decode_state =
  dec_size :: int
  dec_pseudo :: "(pystr \<times> pystr) list"
  dec_regular :: "(pystr \<times> pystr) list"
  dec_cookies :: "pystr list"
  dec_seen_regular :: bool

fun decode_loop :: "h2_config \<Rightarrow> (pystr \<times> pystr) list \<Rightarrow> decode_state \<Rightarrow> py_error + decode_state" where
  "decode_loop c [] d = Inr d"
| "decode_loop c ((name, value) # raw) d =
     (case (utf8_len name, utf8_len value) of
        (Some n, Some v) \<Rightarrow>
          let size = dec_size d + int n + int v + 32
          in if size > hc_max_header_bytes c then Inl (ValueError (lit ''HTTP/2 decoded headers are too large''))
             else if starts_with (lit '':'') name then
               (if dec_seen_regular d \<or> name \<in> fst ` set (dec_pseudo d)
                then Inl (ValueError (lit ''invalid HTTP/2 pseudo-header ordering''))
                else decode_loop c raw (d\<lparr>dec_size := size, dec_pseudo := dict_set name value (dec_pseudo d)\<rparr>))
             else if name \<noteq> py_lower name \<or> py_lower name \<in> set forbidden_headers
             then Inl (ValueError (lit ''forbidden HTTP/2 request header''))
             else if py_lower name = lit ''te'' \<and> py_lower value \<noteq> lit ''trailers''
             then Inl (ValueError (lit ''invalid HTTP/2 TE header''))
             else if py_lower name = lit ''cookie''
             then decode_loop c raw (d\<lparr>dec_size := size, dec_seen_regular := True, dec_cookies := dec_cookies d @ [value]\<rparr>)
             else decode_loop c raw (d\<lparr>dec_size := size, dec_seen_regular := True, dec_regular := dec_regular d @ [(name, value)]\<rparr>)
      | _ \<Rightarrow> Inl (ValueError (lit ''surrogates not allowed'')))"

definition h2_method_char :: "nat \<Rightarrow> bool" where
  "h2_method_char c = token_char c"

definition path_char :: "nat \<Rightarrow> bool" where
  "path_char c = (33 \<le> c \<and> c \<le> 126)"

definition pseudo_get :: "decode_state \<Rightarrow> pystr \<Rightarrow> pystr" where
  "pseudo_get d name = (case map_of (dec_pseudo d) name of None \<Rightarrow> [] | Some v \<Rightarrow> v)"

text \<open>The value of \<open>content-length\<close>: \<open>Inr None\<close> when there is none.\<close>

definition h2_content_length :: "h2_config \<Rightarrow> headers \<Rightarrow> py_error + nat option" where
  "h2_content_length c h =
     (case headers_get h (lit ''content-length'') of
        None \<Rightarrow> Inr None
      | Some raw \<Rightarrow>
          if \<not> is_ascii_decimal raw then Inl (ValueError (lit ''invalid HTTP/2 content-length''))
          else bind_sum (py_int raw) (\<lambda>n.
            if int n > hc_max_body_bytes c then Inl (ValueError (lit ''HTTP/2 content-length exceeds configured maximum''))
            else Inr (Some n)))"

definition decode_request_headers ::
  "h2_config \<Rightarrow> (pystr \<times> pystr) list \<Rightarrow> py_error + pystr \<times> pystr \<times> headers \<times> nat option" where
  "decode_request_headers c raw =
     (if int (length raw) > hc_max_header_count c then Inl (ValueError (lit ''too many HTTP/2 request headers''))
      else bind_sum (decode_loop c raw \<lparr>dec_size = 0, dec_pseudo = [], dec_regular = [], dec_cookies = [], dec_seen_regular = False\<rparr>)
        (\<lambda>d.
          let allowed = [lit '':method'', lit '':scheme'', lit '':authority'', lit '':path''];
              meth = pseudo_get d (lit '':method'');
              path = pseudo_get d (lit '':path'');
              authority = pseudo_get d (lit '':authority'');
              existing_host = lit ''host'' \<in> fst ` set (dec_regular d);
              regular = dec_regular d
                @ (if authority \<noteq> [] then [(lit ''host'', authority)] else [])
                @ (if dec_cookies d \<noteq> [] then [(lit ''cookie'', join_with (lit ''; '') (dec_cookies d))] else [])
          in if \<not> list_all (\<lambda>e. fst e \<in> set allowed) (dec_pseudo d)
             then Inl (ValueError (lit ''unknown HTTP/2 pseudo-header''))
             else if map_of (dec_pseudo d) (lit '':method'') = Some (lit ''CONNECT'')
             then Inl (ValueError (lit ''HTTP/2 CONNECT is not supported''))
             else if meth = [] \<or> pseudo_get d (lit '':scheme'') = [] \<or> path = []
             then Inl (ValueError (lit ''missing required HTTP/2 pseudo-header''))
             else if \<not> list_all h2_method_char meth then Inl (ValueError (lit ''invalid HTTP/2 method''))
             else if \<not> starts_with (lit ''/'') path \<or> 35 \<in> set path \<or> \<not> list_all path_char path
             then Inl (ValueError (lit ''invalid HTTP/2 origin-form path''))
             else if authority \<noteq> [] \<and> existing_host
             then Inl (ValueError (lit ''HTTP/2 authority and host must not both be supplied''))
             else if authority = [] \<and> \<not> existing_host
             then Inl (ValueError (lit ''HTTP/2 requests require :authority or host''))
             else bind_sum (headers_init regular) (\<lambda>h.
               bind_sum (h2_content_length c h) (\<lambda>cl. Inr (meth, path, h, cl)))))"

section \<open>Receiving\<close>

definition request_received :: "'w h2lib \<Rightarrow> nat \<Rightarrow> (pystr \<times> pystr) list \<Rightarrow> 'w h2_state \<Rightarrow> 'w h2_state" where
  "request_received lib sid raw s =
     (if int (length (h2_active s)) \<ge> hc_max_concurrent_streams (h2_config s)
      then reset_stream lib REFUSED_STREAM sid s
      else case decode_request_headers (h2_config s) raw of
             Inl _ \<Rightarrow> reset_stream lib PROTOCOL_ERROR sid s
           | Inr (meth, path, h, cl) \<Rightarrow>
               s\<lparr>h2_active := List.insert sid (h2_active s),
                 h2_inbound := dict_set sid \<lparr>in_method = meth, in_path = path, in_headers = h, in_body = [],
                   in_expected = cl, in_dispatched = False\<rparr> (h2_inbound s)\<rparr>)"

definition data_received :: "'w h2lib \<Rightarrow> nat \<Rightarrow> bytes \<Rightarrow> nat \<Rightarrow> 'w h2_state \<Rightarrow> (h2_failure + unit) \<times> 'w h2_state" where
  "data_received lib sid data flow s0 =
     (case lib_acknowledge lib flow sid (h2_conn s0) of (ok, w) \<Rightarrow>
        let s = s0\<lparr>h2_conn := w\<rparr>
        in if \<not> ok then (Inl H2Library, s)
           else (case map_of (h2_inbound s) sid of
                   None \<Rightarrow> (Inr (), s)
                 | Some st \<Rightarrow>
                     let next_stream = length (in_body st) + length data;
                         next_connection = h2_buffered s + int (length data)
                     in if int next_stream > hc_max_body_bytes (h2_config s) \<or>
                           (case in_expected st of None \<Rightarrow> False | Some n \<Rightarrow> next_stream > n) \<or>
                           next_connection > hc_max_connection_buffer_bytes (h2_config s)
                        then (Inr (), reset_stream lib ENHANCE_YOUR_CALM sid s)
                        else if in_dispatched st then (Inr (), reset_stream lib STREAM_CLOSED sid s)
                        else (Inr (), s\<lparr>h2_inbound := dict_set sid (st\<lparr>in_body := in_body st @ data\<rparr>) (h2_inbound s),
                                        h2_buffered := next_connection\<rparr>)))"

definition stream_ended :: "'w h2lib \<Rightarrow> nat \<Rightarrow> 'w h2_state \<Rightarrow> (h2_failure + (nat \<times> request) option) \<times> 'w h2_state" where
  "stream_ended lib sid s =
     (case map_of (h2_inbound s) sid of
        None \<Rightarrow> (Inr None, s)
      | Some st \<Rightarrow>
          if (case in_expected st of None \<Rightarrow> False | Some n \<Rightarrow> length (in_body st) \<noteq> n)
          then (Inr None, reset_stream lib PROTOCOL_ERROR sid s)
          else let s1 = s\<lparr>h2_inbound := dict_set sid (st\<lparr>in_dispatched := True\<rparr>) (h2_inbound s),
                          h2_last_processed := max (h2_last_processed s) sid\<rparr>
               in case request_init (in_method st) (in_path st) (in_headers st) (in_body st) (lit ''HTTP/2'') None [] [] None of
                    Inl e \<Rightarrow> (Inl (H2Error e), s1)
                  | Inr req \<Rightarrow> (Inr (Some (sid, req)), s1))"

definition handle_event :: "'w h2lib \<Rightarrow> h2_event \<Rightarrow> 'w h2_state \<Rightarrow> (h2_failure + unit) \<times> 'w h2_state" where
  "handle_event lib ev s =
     (case ev of
        RequestReceived sid raw \<Rightarrow> (Inr (), request_received lib sid raw s)
      | DataReceived sid data flow \<Rightarrow> data_received lib sid data flow s
      | StreamEnded sid \<Rightarrow>
          (case stream_ended lib sid s of
             (Inl e, s1) \<Rightarrow> (Inl e, s1)
           | (Inr None, s1) \<Rightarrow> (Inr (), s1)
           | (Inr (Some item), s1) \<Rightarrow> (Inr (), s1\<lparr>h2_ready := h2_ready s1 @ [item]\<rparr>))
      | StreamReset sid \<Rightarrow> (Inr (), drop_stream sid (s\<lparr>h2_cancelled := h2_cancelled s @ [sid]\<rparr>))
      | TrailersReceived sid \<Rightarrow> (Inr (), reset_stream lib PROTOCOL_ERROR sid s)
      | ConnectionTerminated \<Rightarrow> (Inr (), s\<lparr>h2_remote_closed := True\<rparr>)
      | OtherEvent \<Rightarrow> (Inr (), s))"

fun handle_events :: "'w h2lib \<Rightarrow> h2_event list \<Rightarrow> 'w h2_state \<Rightarrow> (h2_failure + unit) \<times> 'w h2_state" where
  "handle_events lib [] s = (Inr (), s)"
| "handle_events lib (ev # evs) s =
     (case handle_event lib ev s of
        (Inl e, s1) \<Rightarrow> (Inl e, s1)
      | (Inr _, s1) \<Rightarrow> handle_events lib evs s1)"

fun receive_chunks :: "'w h2lib \<Rightarrow> bytes list \<Rightarrow> 'w h2_state \<Rightarrow> (h2_failure + unit) \<times> 'w h2_state" where
  "receive_chunks lib [] s = (Inr (), s)"
| "receive_chunks lib (chunk # chunks) s =
     (case lib_receive lib chunk (h2_conn s) of
        (Inl _, w) \<Rightarrow> (Inl H2Library, s\<lparr>h2_conn := w\<rparr>)
      | (Inr evs, w) \<Rightarrow>
          (case handle_events lib evs (s\<lparr>h2_conn := w\<rparr>) of
             (Inl e, s1) \<Rightarrow> (Inl e, s1)
           | (Inr _, s1) \<Rightarrow>
               (case capture_control lib s1 of
                  (Inl e, s2) \<Rightarrow> (Inl e, s2)
                | (Inr _, s2) \<Rightarrow> receive_chunks lib chunks s2)))"

definition receive_data :: "'w h2lib \<Rightarrow> bytes \<Rightarrow> 'w h2_state \<Rightarrow> (h2_failure + (nat \<times> request) list) \<times> 'w h2_state" where
  "receive_data lib data s =
     (case budget_feed (h2_frames s) data of
        Inl e \<Rightarrow> (Inl (H2Error e), s)
      | Inr fr \<Rightarrow>
          (case budget_take (nat (hc_reader_frame_batch_size (h2_config s))) fr of (chunks, fr1) \<Rightarrow>
             (case receive_chunks lib chunks (s\<lparr>h2_frames := fr1\<rparr>) of
                (Inl e, s1) \<Rightarrow> (Inl e, s1)
              | (Inr _, s1) \<Rightarrow>
                  if has_ready_frames (h2_frames s1) then (Inr [], s1)
                  else (Inr (filter (\<lambda>item. fst item \<notin> set (h2_cancelled s1) \<and> fst item \<in> set (h2_active s1)) (h2_ready s1)),
                        s1\<lparr>h2_ready := []\<rparr>))))"

definition take_cancelled :: "'w h2_state \<Rightarrow> nat list \<times> 'w h2_state" where
  "take_cancelled s = (h2_cancelled s, s\<lparr>h2_cancelled := []\<rparr>)"

definition is_stream_active :: "nat \<Rightarrow> 'w h2_state \<Rightarrow> bool" where
  "is_stream_active sid s = (sid \<in> set (h2_active s))"

section \<open>Sending\<close>

definition queue_response :: "'w h2lib \<Rightarrow> nat \<Rightarrow> response \<Rightarrow> 'w h2_state \<Rightarrow> bool \<times> 'w h2_state" where
  "queue_response lib sid resp s0 =
     (if sid \<notin> set (h2_active s0) then (False, s0)
      else
        let s = release_inbound sid s0;
            size = int (length (resp_body resp))
        in if size > hc_max_response_body_bytes (h2_config s) \<or>
              int (length (h2_control s)) + h2_pending s + size > hc_max_pending_output_bytes (h2_config s)
           then (False, if sid \<in> fst ` set (h2_commands s) then s
                        else s\<lparr>h2_commands := h2_commands s @ [(sid, None)]\<rparr>)
           else if int (length (h2_commands s)) \<ge> hc_max_concurrent_streams (h2_config s) * 2
           then (False, reset_stream lib ENHANCE_YOUR_CALM sid s)
           else (True, s\<lparr>h2_pending := h2_pending s + size, h2_commands := h2_commands s @ [(sid, Some resp)]\<rparr>))"

definition response_fields :: "response \<Rightarrow> (pystr \<times> pystr) list" where
  "response_fields resp =
     [(lit '':status'', int_str (resp_status resp))]
     @ map (\<lambda>(n, v). (py_lower n, v))
         (filter (\<lambda>(n, v). py_lower n \<notin> set forbidden_headers \<and> py_lower n \<noteq> lit ''te'') (headers_items (resp_headers resp)))
     @ (if headers_get (resp_headers resp) (lit ''content-length'') = None
        then [(lit ''content-length'', nat_str (length (resp_body resp)))] else [])"

text \<open>\<open>sum(len(name.encode()) + len(value.encode()) + 32)\<close>; header text of a \<open>Headers\<close> always encodes.\<close>

definition encoded_len :: "pystr \<Rightarrow> nat" where
  "encoded_len t = (case utf8_len t of None \<Rightarrow> 0 | Some n \<Rightarrow> n)"

definition fields_size :: "(pystr \<times> pystr) list \<Rightarrow> int" where
  "fields_size fs = sum_list (map (\<lambda>(n, v). int (encoded_len n) + int (encoded_len v) + 32) fs)"

definition start_response :: "'w h2lib \<Rightarrow> nat \<Rightarrow> response \<Rightarrow> 'w h2_state \<Rightarrow> 'w h2_state" where
  "start_response lib sid resp s =
     (let fs = response_fields resp;
          size = int (length (resp_body resp))
      in if fields_size fs > hc_max_header_bytes (h2_config s)
         then reset_stream lib INTERNAL_ERROR sid (s\<lparr>h2_pending := h2_pending s - size\<rparr>)
         else (case lib_send_headers lib sid fs (resp_body resp = []) (h2_conn s) of (ok, w) \<Rightarrow>
                 let s1 = s\<lparr>h2_conn := w\<rparr>
                 in if \<not> ok then drop_stream sid (s1\<lparr>h2_pending := h2_pending s1 - size\<rparr>)
                    else if resp_body resp \<noteq> []
                    then s1\<lparr>h2_outbound := dict_set sid \<lparr>ob_body = resp_body resp, ob_offset = 0\<rparr> (h2_outbound s1)\<rparr>
                    else s1\<lparr>h2_active := removeAll sid (h2_active s1)\<rparr>))"

fun run_commands :: "'w h2lib \<Rightarrow> (nat \<times> response option) list \<Rightarrow> 'w h2_state \<Rightarrow> (h2_failure + unit) \<times> 'w h2_state" where
  "run_commands lib [] s = (Inr (), s)"
| "run_commands lib ((sid, r) # cmds) s =
     (case capture_control lib
             (case r of None \<Rightarrow> reset_stream lib ENHANCE_YOUR_CALM sid s | Some resp \<Rightarrow> start_response lib sid resp s) of
        (Inl e, s1) \<Rightarrow> (Inl e, s1)
      | (Inr _, s1) \<Rightarrow> run_commands lib cmds s1)"

text \<open>One round of the second loop of \<open>flush\<close>, for one entry of the snapshot. The entry itself is read
  through the snapshot's object, which is the one in the dict unless the stream was dropped.\<close>

definition finish_outbound :: "nat \<Rightarrow> 'w h2_state \<Rightarrow> 'w h2_state" where
  "finish_outbound sid s = s\<lparr>h2_outbound := dict_pop sid (h2_outbound s), h2_active := removeAll sid (h2_active s)\<rparr>"

definition flush_one ::
  "'w h2lib \<Rightarrow> nat \<times> outbound \<Rightarrow> bytes \<Rightarrow> 'w h2_state \<Rightarrow> (h2_failure + bytes) \<times> 'w h2_state" where
  "flush_one lib entry output s =
     (let sid = fst entry;
          ob = snd entry;
          remaining = int (length (ob_body ob)) - int (ob_offset ob)
      in if remaining \<le> 0 then (Inr output, finish_outbound sid s)
         else (case lib_window lib sid (h2_conn s) of
                 (None, w) \<Rightarrow> (Inr output, drop_stream sid (s\<lparr>h2_conn := w\<rparr>))
               | (Some window, w) \<Rightarrow>
                   let s1 = s\<lparr>h2_conn := w\<rparr>;
                       chunk_size = min remaining (min (max 0 window) (lib_max_outbound lib w))
                   in if chunk_size \<le> 0 then (Inr output, s1)
                      else
                        let end_stream = (chunk_size = remaining);
                            chunk = take (nat chunk_size) (drop (ob_offset ob) (ob_body ob))
                        in case lib_send_data lib sid chunk end_stream w of
                             (False, w2) \<Rightarrow> (Inr output, drop_stream sid (s1\<lparr>h2_conn := w2\<rparr>))
                           | (True, w2) \<Rightarrow>
                               let s2 = s1\<lparr>h2_conn := w2,
                                          h2_outbound := dict_set sid (ob\<lparr>ob_offset := ob_offset ob + nat chunk_size\<rparr>) (h2_outbound s1),
                                          h2_pending := h2_pending s1 - chunk_size\<rparr>
                               in case lib_data_to_send lib w2 of (generated, w3) \<Rightarrow>
                                    let s3 = s2\<lparr>h2_conn := w3\<rparr>
                                    in if \<not> wire_output_ok s3 (length generated) (length output)
                                       then (Inl (H2Error (ValueError (lit ''HTTP/2 generated output exceeds configured maximum''))), s3)
                                       else (Inr (output @ generated), if end_stream then finish_outbound sid s3 else s3)))"

fun flush_streams :: "'w h2lib \<Rightarrow> (nat \<times> outbound) list \<Rightarrow> bytes \<Rightarrow> 'w h2_state \<Rightarrow> (h2_failure + bytes) \<times> 'w h2_state" where
  "flush_streams lib [] output s = (Inr output, s)"
| "flush_streams lib (entry # entries) output s =
     (case flush_one lib entry output s of
        (Inl e, s1) \<Rightarrow> (Inl e, s1)
      | (Inr output1, s1) \<Rightarrow> flush_streams lib entries output1 s1)"

definition h2_flush :: "'w h2lib \<Rightarrow> 'w h2_state \<Rightarrow> (h2_failure + bytes) \<times> 'w h2_state" where
  "h2_flush lib s =
     (case run_commands lib (h2_commands s) (s\<lparr>h2_commands := []\<rparr>) of
        (Inl e, s1) \<Rightarrow> (Inl e, s1)
      | (Inr _, s1) \<Rightarrow>
          (case flush_streams lib (h2_outbound s1) (h2_control s1) (s1\<lparr>h2_control := []\<rparr>) of
             (Inl e, s2) \<Rightarrow> (Inl e, s2)
           | (Inr output, s2) \<Rightarrow>
               (case lib_data_to_send lib (h2_conn s2) of (generated, w) \<Rightarrow>
                  let s3 = s2\<lparr>h2_conn := w\<rparr>
                  in if \<not> wire_output_ok s3 (length generated) (length output)
                     then (Inl (H2Error (ValueError (lit ''HTTP/2 generated output exceeds configured maximum''))), s3)
                     else (Inr (output @ generated), s3))))"

definition h2_close :: "'w h2lib \<Rightarrow> h2_code \<Rightarrow> 'w h2_state \<Rightarrow> bytes \<times> 'w h2_state" where
  "h2_close lib code s =
     (let s1 = (if h2_local_closed s then s
                else s\<lparr>h2_local_closed := True, h2_conn := snd (lib_close lib code (h2_last_processed s) (h2_conn s))\<rparr>);
          s2 = s1\<lparr>h2_inbound := [], h2_outbound := [], h2_commands := [], h2_ready := [], h2_active := [],
                  h2_buffered := 0, h2_pending := 0, h2_control := []\<rparr>;
          control = h2_control s1
      in case lib_data_to_send lib (h2_conn s2) of (generated, w) \<Rightarrow>
           let s3 = s2\<lparr>h2_conn := w\<rparr>
           in if \<not> wire_output_ok s3 (length generated) (length control) \<or>
                 int (length control) + int (length generated) > hc_max_control_output_bytes (h2_config s)
              then ([], s3) else (control @ generated, s3))"

end
