(* ===== verification/H2_Accounting.thy ===== *)
theory H2_Accounting
  imports H2_Protocol
begin

text \<open>
  The byte accounting of \<open>H2Protocol\<close>. The counters \<open>_buffered_request_bytes\<close> and
  \<open>_pending_output_bytes\<close> are maintained incrementally in a dozen places; the invariant says that they
  equal what they count, and that what they count stays inside the configured limits. One preservation
  lemma per operation; hyper-h2 may do anything, except report a second request on a stream id it has
  reported before.
\<close>

section \<open>The invariant\<close>

definition inbound_total :: "(nat \<times> inbound) list \<Rightarrow> int" where
  "inbound_total d = sum_list (map (\<lambda>e. int (length (in_body (snd e)))) d)"

definition outbound_left :: "outbound \<Rightarrow> int" where
  "outbound_left ob = int (length (ob_body ob)) - int (ob_offset ob)"

definition outbound_total :: "(nat \<times> outbound) list \<Rightarrow> int" where
  "outbound_total d = sum_list (map (\<lambda>e. outbound_left (snd e)) d)"

definition command_size :: "nat \<times> response option \<Rightarrow> int" where
  "command_size c = (case snd c of None \<Rightarrow> 0 | Some r \<Rightarrow> int (length (resp_body r)))"

definition command_total :: "(nat \<times> response option) list \<Rightarrow> int" where
  "command_total cs = sum_list (map command_size cs)"

definition in_ok :: "'w h2_state \<Rightarrow> bool" where
  "in_ok s = (dict_wf (h2_inbound s) \<and> h2_buffered s = inbound_total (h2_inbound s) \<and>
     h2_buffered s \<le> hc_max_connection_buffer_bytes (h2_config s) \<and>
     (\<forall>e \<in> set (h2_inbound s). int (length (in_body (snd e))) \<le> hc_max_body_bytes (h2_config s) \<and>
        (\<forall>n. in_expected (snd e) = Some n \<longrightarrow> length (in_body (snd e)) \<le> n)))"

text \<open>\<open>local\<close> is the size of the commands that \<open>flush\<close> has taken out of the state and not yet run.\<close>

definition out_ok :: "int \<Rightarrow> 'w h2_state \<Rightarrow> bool" where
  "out_ok local s = (dict_wf (h2_outbound s) \<and>
     h2_pending s = outbound_total (h2_outbound s) + command_total (h2_commands s) + local \<and>
     (\<forall>e \<in> set (h2_outbound s). 0 \<le> outbound_left (snd e)) \<and>
     int (length (h2_control s)) \<le> hc_max_control_output_bytes (h2_config s) \<and>
     int (length (h2_control s)) + h2_pending s \<le> hc_max_pending_output_bytes (h2_config s))"

definition active_ok :: "'w h2_state \<Rightarrow> bool" where
  "active_ok s = (distinct (h2_active s) \<and> int (length (h2_active s)) \<le> hc_max_concurrent_streams (h2_config s))"

definition limits_ok :: "h2_config \<Rightarrow> bool" where
  "limits_ok c = (0 < hc_max_concurrent_streams c \<and> 0 < hc_max_body_bytes c \<and> 0 < hc_max_connection_buffer_bytes c \<and>
     0 < hc_max_pending_output_bytes c \<and> 0 < hc_max_control_output_bytes c)"

definition acct :: "int \<Rightarrow> 'w h2_state \<Rightarrow> bool" where
  "acct local s = (limits_ok (h2_config s) \<and> in_ok s \<and> out_ok local s \<and> active_ok s)"

lemma first_not_positive_None: "first_not_positive fs = None \<longleftrightarrow> (\<forall>(n, v) \<in> set fs. 0 < v)"
  by (induction fs rule: first_not_positive.induct) auto

lemma h2_config_limits: "h2_config_init c = Inr c' \<Longrightarrow> c' = c \<and> limits_ok c"
  by (auto simp: h2_config_init_def limits_ok_def first_not_positive_None split: option.splits if_splits
      simp del: first_not_positive.simps)

lemma acct_init: "limits_ok c \<Longrightarrow> acct 0 (h2_init c w)"
  by (simp add: acct_def in_ok_def out_ok_def active_ok_def limits_ok_def h2_init_def inbound_total_def
      outbound_total_def command_total_def)

text \<open>Only these fields matter to the invariant.\<close>

definition same_books :: "'w h2_state \<Rightarrow> 'w h2_state \<Rightarrow> bool" where
  "same_books s t = (h2_config t = h2_config s \<and> h2_inbound t = h2_inbound s \<and> h2_active t = h2_active s \<and>
     h2_outbound t = h2_outbound s \<and> h2_commands t = h2_commands s \<and> h2_buffered t = h2_buffered s \<and>
     h2_pending t = h2_pending s \<and> h2_control t = h2_control s)"

lemma acct_same: "acct l s \<Longrightarrow> same_books s t \<Longrightarrow> acct l t"
  by (simp add: acct_def in_ok_def out_ok_def active_ok_def same_books_def)

section \<open>Dropping\<close>

lemma inbound_total_nonneg: "0 \<le> inbound_total d"
  by (induction d) (auto simp: inbound_total_def)

lemma command_total_nonneg: "0 \<le> command_total cs"
  by (induction cs) (auto simp: command_total_def command_size_def split: option.splits)

lemma outbound_total_nonneg: "\<forall>e \<in> set d. 0 \<le> outbound_left (snd e) \<Longrightarrow> 0 \<le> outbound_total d"
  by (induction d) (auto simp: outbound_total_def)

lemma inbound_total_pop:
  "dict_wf d \<Longrightarrow> inbound_total (dict_pop k d) =
     inbound_total d - (case map_of d k of None \<Rightarrow> 0 | Some st \<Rightarrow> int (length (in_body st)))"
  unfolding inbound_total_def by (subst sum_list_dict_pop) (auto split: option.splits)

lemma outbound_total_pop:
  "dict_wf d \<Longrightarrow> outbound_total (dict_pop k d) =
     outbound_total d - (case map_of d k of None \<Rightarrow> 0 | Some ob \<Rightarrow> outbound_left ob)"
  unfolding outbound_total_def by (subst sum_list_dict_pop) (auto split: option.splits)

lemma inbound_total_set:
  "dict_wf d \<Longrightarrow> inbound_total (dict_set k st d) =
     inbound_total d + int (length (in_body st)) - (case map_of d k of None \<Rightarrow> 0 | Some st' \<Rightarrow> int (length (in_body st')))"
  unfolding inbound_total_def by (subst sum_list_dict_set) (auto split: option.splits)

lemma outbound_total_set:
  "dict_wf d \<Longrightarrow> outbound_total (dict_set k ob d) =
     outbound_total d + outbound_left ob - (case map_of d k of None \<Rightarrow> 0 | Some ob' \<Rightarrow> outbound_left ob')"
  unfolding outbound_total_def by (subst sum_list_dict_set) (auto split: option.splits)

lemma release_inbound_fields:
  "h2_config (release_inbound sid s) = h2_config s" "h2_outbound (release_inbound sid s) = h2_outbound s"
  "h2_commands (release_inbound sid s) = h2_commands s" "h2_pending (release_inbound sid s) = h2_pending s"
  "h2_control (release_inbound sid s) = h2_control s" "h2_active (release_inbound sid s) = h2_active s"
  "h2_conn (release_inbound sid s) = h2_conn s"
  "h2_inbound (release_inbound sid s) = dict_pop sid (h2_inbound s)"
  by (auto simp: release_inbound_def map_of_None_keys dict_pop_absent split: option.splits)

lemma release_inbound_ok:
  assumes "in_ok s" shows "in_ok (release_inbound sid s)"
proof (cases "map_of (h2_inbound s) sid")
  case None
  with assms show ?thesis by (simp add: release_inbound_def)
next
  case (Some st)
  with assms show ?thesis
    by (auto simp: release_inbound_def in_ok_def inbound_total_pop set_dict_pop intro: dict_wf_pop)
qed

lemma release_inbound_acct: "acct l s \<Longrightarrow> acct l (release_inbound sid s)"
  using release_inbound_ok [of s sid]
  by (simp add: acct_def out_ok_def active_ok_def release_inbound_fields)

lemma drop_commands_spec:
  "drop_commands sid cmds p kept = (kept', p') \<Longrightarrow>
     kept' = kept @ filter (\<lambda>c. snd c = None \<or> fst c \<noteq> sid) cmds \<and>
     p' = p - (command_total cmds - command_total (filter (\<lambda>c. snd c = None \<or> fst c \<noteq> sid) cmds))"
  by (induction sid cmds p kept rule: drop_commands.induct)
    (auto simp: command_total_def command_size_def split: option.splits if_splits)

lemma command_total_filter_le: "command_total (filter P cs) \<le> command_total cs"
  by (induction cs) (auto simp: command_total_def command_size_def split: option.splits)

lemma drop_outbound_fields:
  "h2_config (drop_outbound sid s) = h2_config s" "h2_inbound (drop_outbound sid s) = h2_inbound s"
  "h2_commands (drop_outbound sid s) = h2_commands s" "h2_buffered (drop_outbound sid s) = h2_buffered s"
  "h2_control (drop_outbound sid s) = h2_control s" "h2_active (drop_outbound sid s) = h2_active s"
  "h2_conn (drop_outbound sid s) = h2_conn s"
  by (auto simp: drop_outbound_def split: option.splits)

lemma drop_outbound_ok:
  assumes "out_ok l s" shows "out_ok l (drop_outbound sid s)"
proof (cases "map_of (h2_outbound s) sid")
  case None
  with assms show ?thesis by (simp add: drop_outbound_def)
next
  case (Some ob)
  then have "0 \<le> outbound_left ob" using assms by (auto simp: out_ok_def dest!: map_of_SomeD)
  with assms Some show ?thesis
    by (auto simp: drop_outbound_def out_ok_def outbound_total_pop outbound_left_def set_dict_pop intro: dict_wf_pop)
qed

lemma drop_outbound_acct: "acct l s \<Longrightarrow> acct l (drop_outbound sid s)"
  using drop_outbound_ok [of l s sid]
  by (simp add: acct_def in_ok_def active_ok_def drop_outbound_fields)

lemma drop_rest_acct:
  assumes "acct l t"
  shows "acct l (t\<lparr>h2_commands := filter P (h2_commands t),
      h2_pending := h2_pending t - (command_total (h2_commands t) - command_total (filter P (h2_commands t))),
      h2_active := removeAll sid (h2_active t)\<rparr>)"
proof -
  have fewer: "int (length (removeAll sid (h2_active t))) \<le> k" if "int (length (h2_active t)) \<le> k" for k
  proof -
    have "length (removeAll sid (h2_active t)) \<le> length (h2_active t)"
      unfolding removeAll_filter_not_eq by (rule length_filter_le)
    with that show ?thesis by linarith
  qed
  from command_total_filter_le [of P "h2_commands t"] assms show ?thesis
    by (auto simp: acct_def in_ok_def out_ok_def active_ok_def distinct_removeAll intro: fewer)
qed

lemma drop_stream_acct:
  assumes "acct l s" shows "acct l (drop_stream sid s)"
proof -
  let ?s1 = "release_inbound sid s"
  define t where "t = drop_outbound sid (?s1\<lparr>h2_ready := filter (\<lambda>item. fst item \<noteq> sid) (h2_ready ?s1)\<rparr>)"
  have "acct l t"
    unfolding t_def
    by (rule drop_outbound_acct [OF acct_same [OF release_inbound_acct [OF assms]]]) (simp add: same_books_def)
  moreover obtain kept p where dc: "drop_commands sid (h2_commands t) (h2_pending t) [] = (kept, p)"
    by (cases "drop_commands sid (h2_commands t) (h2_pending t) []")
  moreover have "drop_stream sid s = t\<lparr>h2_commands := kept, h2_pending := p, h2_active := removeAll sid (h2_active t)\<rparr>"
    using dc by (simp add: drop_stream_def Let_def t_def)
  ultimately show ?thesis
    using drop_commands_spec [OF dc] drop_rest_acct [where P = "\<lambda>c. snd c = None \<or> fst c \<noteq> sid" and t = t and l = l and sid = sid] by simp
qed

lemma reset_stream_acct: "acct l s \<Longrightarrow> acct l (reset_stream lib code sid s)"
  unfolding reset_stream_def by (rule drop_stream_acct) (auto elim!: acct_same simp: same_books_def)

section \<open>Stream ids\<close>

text \<open>The one thing asked of hyper-h2, and what RFC 9113 makes it enforce: a stream id is used for one
  request. \<open>used\<close> reads the ids opened so far off the library's state.\<close>

fun request_ids :: "h2_event list \<Rightarrow> nat list" where
  "request_ids [] = []"
| "request_ids (RequestReceived sid raw # evs) = sid # request_ids evs"
| "request_ids (_ # evs) = request_ids evs"

definition never_reuses :: "'w h2lib \<Rightarrow> ('w \<Rightarrow> nat set) \<Rightarrow> bool" where
  "never_reuses lib used =
     ((\<forall>chunk w evs w'. lib_receive lib chunk w = (Inr evs, w') \<longrightarrow>
         distinct (request_ids evs) \<and> set (request_ids evs) \<inter> used w = {} \<and> set (request_ids evs) \<union> used w \<subseteq> used w') \<and>
      (\<forall>chunk w e w'. lib_receive lib chunk w = (Inl e, w') \<longrightarrow> used w \<subseteq> used w') \<and>
      (\<forall>w. used w \<subseteq> used (snd (lib_data_to_send lib w))) \<and>
      (\<forall>n sid w. used w \<subseteq> used (snd (lib_acknowledge lib n sid w))) \<and>
      (\<forall>sid code w. used w \<subseteq> used (snd (lib_reset lib sid code w))) \<and>
      (\<forall>sid fs fin w. used w \<subseteq> used (snd (lib_send_headers lib sid fs fin w))) \<and>
      (\<forall>sid bs fin w. used w \<subseteq> used (snd (lib_send_data lib sid bs fin w))) \<and>
      (\<forall>sid w. used w \<subseteq> used (snd (lib_window lib sid w))) \<and>
      (\<forall>code last w. used w \<subseteq> used (snd (lib_close lib code last w))))"

text \<open>How often a stream has a response under way, queued or being sent.\<close>

definition response_ids :: "(nat \<times> response option) list \<Rightarrow> nat list" where
  "response_ids cs = map fst (filter (\<lambda>c. snd c \<noteq> None) cs)"

definition under_way :: "'w h2_state \<Rightarrow> nat \<Rightarrow> nat" where
  "under_way s sid = count_list (response_ids (h2_commands s)) sid + count_list (map fst (h2_outbound s)) sid"

definition no_new :: "('w \<Rightarrow> nat set) \<Rightarrow> 'w h2_state \<Rightarrow> 'w h2_state \<Rightarrow> bool" where
  "no_new used s t = (fst ` set (h2_inbound t) \<subseteq> fst ` set (h2_inbound s) \<and> used (h2_conn s) \<subseteq> used (h2_conn t) \<and>
     (\<forall>sid. under_way t sid \<le> under_way s sid))"

definition known :: "('w \<Rightarrow> nat set) \<Rightarrow> 'w h2_state \<Rightarrow> bool" where
  "known used s = (fst ` set (h2_inbound s) \<subseteq> used (h2_conn s))"

lemma never_reuses_receive:
  assumes "never_reuses lib used" and "lib_receive lib chunk w = (Inr evs, w')"
  shows "distinct (request_ids evs) \<and> set (request_ids evs) \<inter> used w = {} \<and> set (request_ids evs) \<union> used w \<subseteq> used w'"
  using assms(1) [unfolded never_reuses_def, THEN conjunct1] assms(2) by blast

lemma no_new_refl: "no_new used s s"
  by (simp add: no_new_def)

lemma no_new_trans: "no_new used s t \<Longrightarrow> no_new used t u \<Longrightarrow> no_new used s u"
  unfolding no_new_def by (meson subset_trans le_trans)

lemma no_new_known: "no_new used s t \<Longrightarrow> known used s \<Longrightarrow> known used t"
  unfolding no_new_def known_def by (meson subset_trans)

lemma count_list_filter_le: "count_list (map f (filter P xs)) x \<le> count_list (map f xs) x"
  by (induction xs) auto

lemma response_ids_filter: "count_list (response_ids (filter P cs)) sid \<le> count_list (response_ids cs) sid"
proof -
  have "filter (\<lambda>c. snd c \<noteq> None) (filter P cs) = filter P (filter (\<lambda>c. snd c \<noteq> None) cs)"
    by (simp add: filter_filter conj_commute)
  then show ?thesis unfolding response_ids_def by (simp only: count_list_filter_le)
qed

lemma under_way_same:
  "h2_commands t = h2_commands s \<Longrightarrow> h2_outbound t = h2_outbound s \<Longrightarrow> under_way t sid = under_way s sid"
  by (simp add: under_way_def)

lemma drop_outbound_pop: "h2_outbound (drop_outbound sid s) = dict_pop sid (h2_outbound s)"
  by (auto simp: drop_outbound_def map_of_None_keys dict_pop_absent split: option.splits)

text \<open>What dropping a stream leaves of the other parts of the state.\<close>

lemma drop_stream_rest:
  "h2_commands (drop_stream sid s) = filter (\<lambda>c. snd c = None \<or> fst c \<noteq> sid) (h2_commands s)"
  "h2_active (drop_stream sid s) = removeAll sid (h2_active s)"
  "h2_outbound (drop_stream sid s) = dict_pop sid (h2_outbound s)"
  "h2_cancelled (drop_stream sid s) = h2_cancelled s" "h2_conn (drop_stream sid s) = h2_conn s"
  "h2_remote_closed (drop_stream sid s) = h2_remote_closed s" "h2_local_closed (drop_stream sid s) = h2_local_closed s"
proof -
  let ?s1 = "release_inbound sid s"
  define t where "t = drop_outbound sid (?s1\<lparr>h2_ready := filter (\<lambda>item. fst item \<noteq> sid) (h2_ready ?s1)\<rparr>)"
  have t: "h2_commands t = h2_commands s" "h2_active t = h2_active s" "h2_outbound t = dict_pop sid (h2_outbound s)"
    "h2_conn t = h2_conn s"
    by (simp_all add: t_def drop_outbound_fields release_inbound_fields drop_outbound_pop)
  have flags: "h2_cancelled t = h2_cancelled s" "h2_remote_closed t = h2_remote_closed s" "h2_local_closed t = h2_local_closed s"
    by (simp_all add: t_def drop_outbound_def release_inbound_def split: option.splits)
  obtain kept p where dc: "drop_commands sid (h2_commands t) (h2_pending t) [] = (kept, p)"
    by (cases "drop_commands sid (h2_commands t) (h2_pending t) []")
  then have d: "drop_stream sid s = t\<lparr>h2_commands := kept, h2_pending := p, h2_active := removeAll sid (h2_active t)\<rparr>"
    by (simp add: drop_stream_def Let_def t_def)
  show "h2_commands (drop_stream sid s) = filter (\<lambda>c. snd c = None \<or> fst c \<noteq> sid) (h2_commands s)"
    "h2_active (drop_stream sid s) = removeAll sid (h2_active s)"
    "h2_outbound (drop_stream sid s) = dict_pop sid (h2_outbound s)"
    "h2_cancelled (drop_stream sid s) = h2_cancelled s" "h2_conn (drop_stream sid s) = h2_conn s"
    "h2_remote_closed (drop_stream sid s) = h2_remote_closed s" "h2_local_closed (drop_stream sid s) = h2_local_closed s"
    using t flags drop_commands_spec [OF dc] by (simp_all add: d)
qed

lemma drop_stream_no_new: "no_new used s (drop_stream sid s)"
proof -
  let ?s1 = "release_inbound sid s"
  define t where "t = drop_outbound sid (?s1\<lparr>h2_ready := filter (\<lambda>item. fst item \<noteq> sid) (h2_ready ?s1)\<rparr>)"
  have t: "h2_inbound t = dict_pop sid (h2_inbound s)" "h2_conn t = h2_conn s" "h2_commands t = h2_commands s"
    "h2_outbound t = dict_pop sid (h2_outbound s)"
    by (simp_all add: t_def drop_outbound_fields release_inbound_fields drop_outbound_pop)
  obtain kept p where dc: "drop_commands sid (h2_commands t) (h2_pending t) [] = (kept, p)"
    by (cases "drop_commands sid (h2_commands t) (h2_pending t) []")
  have d: "drop_stream sid s = t\<lparr>h2_commands := kept, h2_pending := p, h2_active := removeAll sid (h2_active t)\<rparr>"
    using dc by (simp add: drop_stream_def Let_def t_def)
  have "under_way (drop_stream sid s) k \<le> under_way s k" for k
    using drop_commands_spec [OF dc] response_ids_filter [of _ "h2_commands s" k]
      count_list_filter_le [of fst _ "h2_outbound s" k]
    by (simp add: d under_way_def t dict_pop_def add_mono)
  with d t show ?thesis by (simp add: no_new_def)
qed

lemma reset_stream_no_new: "never_reuses lib used \<Longrightarrow> no_new used s (reset_stream lib code sid s)"
  unfolding reset_stream_def
  by (rule no_new_trans [OF _ drop_stream_no_new]) (auto simp: no_new_def never_reuses_def under_way_def)

section \<open>Receiving keeps the books\<close>

lemma capture_control_ok:
  assumes "acct l s" and "capture_control lib s = (res, t)"
  shows "acct l t \<and> h2_config t = h2_config s"
proof -
  obtain produced w where d: "lib_data_to_send lib (h2_conn s) = (produced, w)" by (cases "lib_data_to_send lib (h2_conn s)")
  have same: "acct l (s\<lparr>h2_conn := w\<rparr>)" by (rule acct_same [OF assms(1)]) (simp add: same_books_def)
  consider "t = s\<lparr>h2_conn := w\<rparr>" | "t = s\<lparr>h2_conn := w, h2_control := h2_control s @ produced\<rparr>"
      "int (length (h2_control s)) + int (length produced) \<le> hc_max_control_output_bytes (h2_config s)"
      "int (length (h2_control s)) + int (length produced) + h2_pending s \<le> hc_max_pending_output_bytes (h2_config s)"
    using assms(2) d by (auto simp: capture_control_def Let_def not_less split: if_splits)
  then show ?thesis
  proof cases
    case 2
    with same show ?thesis by (simp add: acct_def in_ok_def out_ok_def active_ok_def)
  qed (use same in simp)
qed

lemma capture_control_no_new:
  assumes "never_reuses lib used" and "capture_control lib s = (res, t)"
  shows "no_new used s t"
proof -
  obtain produced w where d: "lib_data_to_send lib (h2_conn s) = (produced, w)" by (cases "lib_data_to_send lib (h2_conn s)")
  have "used (h2_conn s) \<subseteq> used (snd (lib_data_to_send lib (h2_conn s)))" using assms(1) by (simp add: never_reuses_def)
  with assms(2) d show ?thesis by (auto simp: capture_control_def no_new_def under_way_def Let_def split: if_splits)
qed

lemma request_received_ok:
  assumes "acct l s" and "sid \<notin> fst ` set (h2_inbound s)"
  shows "acct l (request_received lib sid raw s)"
proof (cases "int (length (h2_active s)) \<ge> hc_max_concurrent_streams (h2_config s)")
  case True
  with assms(1) show ?thesis by (simp add: request_received_def reset_stream_acct)
next
  case False
  show ?thesis
  proof (cases "decode_request_headers (h2_config s) raw")
    case (Inl e)
    with False assms(1) show ?thesis by (simp add: request_received_def reset_stream_acct)
  next
    case (Inr r)
    have "map_of (h2_inbound s) sid = None" using assms(2) by (simp add: map_of_None_keys)
    with False Inr assms show ?thesis
      by (cases r) (auto simp: request_received_def acct_def in_ok_def out_ok_def active_ok_def limits_ok_def
          inbound_total_set set_dict_set List.insert_def intro: dict_wf_set)
  qed
qed

lemma data_received_ok:
  assumes "acct l s" and "data_received lib sid data flow s = (res, t)"
  shows "acct l t"
proof -
  obtain ok w where ack: "lib_acknowledge lib flow sid (h2_conn s) = (ok, w)" by (cases "lib_acknowledge lib flow sid (h2_conn s)")
  let ?s = "s\<lparr>h2_conn := w\<rparr>"
  have a: "acct l ?s" by (rule acct_same [OF assms(1)]) (simp add: same_books_def)
  show ?thesis
  proof (cases "map_of (h2_inbound s) sid")
    case None
    with assms(2) ack a show ?thesis by (auto simp: data_received_def Let_def split: if_splits)
  next
    case (Some st)
    consider "t = ?s" | code where "t = reset_stream lib code sid ?s"
      | "t = ?s\<lparr>h2_inbound := dict_set sid (st\<lparr>in_body := in_body st @ data\<rparr>) (h2_inbound s),
              h2_buffered := h2_buffered s + int (length data)\<rparr>"
        "int (length (in_body st) + length data) \<le> hc_max_body_bytes (h2_config s)"
        "\<forall>n. in_expected st = Some n \<longrightarrow> length (in_body st) + length data \<le> n"
        "h2_buffered s + int (length data) \<le> hc_max_connection_buffer_bytes (h2_config s)"
      using assms(2) ack Some
      by (auto simp: data_received_def Let_def not_less split: if_splits option.splits)
    then show ?thesis
    proof cases
      case 3
      with a Some show ?thesis
        by (auto simp: acct_def in_ok_def out_ok_def active_ok_def inbound_total_set set_dict_set intro: dict_wf_set)
    qed (use a reset_stream_acct in auto)
  qed
qed

lemma data_received_no_new:
  assumes "never_reuses lib used" and "data_received lib sid data flow s = (res, t)"
  shows "no_new used s t"
proof -
  obtain ok w where ack: "lib_acknowledge lib flow sid (h2_conn s) = (ok, w)" by (cases "lib_acknowledge lib flow sid (h2_conn s)")
  have "used (h2_conn s) \<subseteq> used (snd (lib_acknowledge lib flow sid (h2_conn s)))" using assms(1) by (simp add: never_reuses_def)
  with ack have one: "no_new used s (s\<lparr>h2_conn := w\<rparr>)" by (simp add: no_new_def under_way_def)
  have reset: "no_new used s (reset_stream lib code sid (s\<lparr>h2_conn := w\<rparr>))" for code
    using one reset_stream_no_new [OF assms(1)] by (rule no_new_trans)
  show ?thesis
  proof (cases "map_of (h2_inbound s) sid")
    case None
    with assms(2) ack one show ?thesis by (auto simp: data_received_def Let_def split: if_splits)
  next
    case (Some st)
    then have "insert sid (fst ` set (h2_inbound s)) = fst ` set (h2_inbound s)" by (metis insert_absorb map_of_None_keys option.distinct(1))
    then have body: "no_new used s (s\<lparr>h2_conn := w, h2_inbound := dict_set sid st' (h2_inbound s), h2_buffered := n\<rparr>)" for st' n
      using one by (simp add: no_new_def under_way_def)
    from assms(2) ack Some have "t = s\<lparr>h2_conn := w\<rparr> \<or> (\<exists>code. t = reset_stream lib code sid (s\<lparr>h2_conn := w\<rparr>)) \<or>
        (\<exists>st' n. t = s\<lparr>h2_conn := w, h2_inbound := dict_set sid st' (h2_inbound s), h2_buffered := n\<rparr>)"
      by (auto simp: data_received_def Let_def split: if_splits option.splits)
    with one reset body show ?thesis by blast
  qed
qed

lemma stream_ended_ok:
  assumes "acct l s" and "stream_ended lib sid s = (res, t)"
  shows "acct l t"
proof (cases "map_of (h2_inbound s) sid")
  case None
  with assms show ?thesis by (auto simp: stream_ended_def)
next
  case (Some st)
  let ?t = "s\<lparr>h2_inbound := dict_set sid (st\<lparr>in_dispatched := True\<rparr>) (h2_inbound s),
              h2_last_processed := max (h2_last_processed s) sid\<rparr>"
  have "t = reset_stream lib PROTOCOL_ERROR sid s \<or> t = ?t"
    using assms(2) Some by (auto simp: stream_ended_def Let_def split: if_splits sum.splits option.splits)
  moreover have "acct l ?t"
    using assms(1) Some map_of_SomeD [OF Some]
    by (auto simp: acct_def in_ok_def out_ok_def active_ok_def inbound_total_set set_dict_set intro: dict_wf_set)
  ultimately show ?thesis using reset_stream_acct [OF assms(1)] by auto
qed

lemma stream_ended_no_new:
  assumes "never_reuses lib used" and "stream_ended lib sid s = (res, t)"
  shows "no_new used s t"
proof (cases "map_of (h2_inbound s) sid")
  case None
  with assms show ?thesis by (auto simp: stream_ended_def no_new_refl)
next
  case (Some st)
  then have "insert sid (fst ` set (h2_inbound s)) = fst ` set (h2_inbound s)" by (metis insert_absorb map_of_None_keys option.distinct(1))
  then have "no_new used s (s\<lparr>h2_inbound := dict_set sid (st\<lparr>in_dispatched := True\<rparr>) (h2_inbound s),
              h2_last_processed := max (h2_last_processed s) sid\<rparr>)" by (simp add: no_new_def under_way_def)
  with assms(2) Some reset_stream_no_new [OF assms(1)] show ?thesis
    by (auto simp: stream_ended_def Let_def split: if_splits sum.splits option.splits)
qed

text \<open>One event, with the ids the remaining events of the batch will bring.\<close>

definition fresh_batch :: "('w \<Rightarrow> nat set) \<Rightarrow> h2_event list \<Rightarrow> 'w h2_state \<Rightarrow> bool" where
  "fresh_batch used evs s = (distinct (request_ids evs) \<and> set (request_ids evs) \<inter> fst ` set (h2_inbound s) = {} \<and>
     set (request_ids evs) \<subseteq> used (h2_conn s) \<and> known used s)"

lemma fresh_batch_step:
  assumes "fresh_batch used (ev # evs) s" and "no_new used s t" and "request_ids (ev # evs) = request_ids evs"
  shows "fresh_batch used evs t"
  using assms no_new_known [OF assms(2)] unfolding fresh_batch_def no_new_def by auto

lemma request_received_fresh:
  assumes lib: "never_reuses lib used" and batch: "fresh_batch used (RequestReceived sid raw # evs) s"
  shows "fresh_batch used evs (request_received lib sid raw s) \<and>
    (\<forall>k. under_way (request_received lib sid raw s) k \<le> under_way s k)"
proof -
  let ?t = "request_received lib sid raw s"
  have "(\<exists>code. ?t = reset_stream lib code sid s) \<or>
      (\<exists>st act. ?t = s\<lparr>h2_active := act, h2_inbound := dict_set sid st (h2_inbound s)\<rparr>)"
    by (auto simp: request_received_def split: sum.splits prod.splits)
  then show ?thesis
  proof (elim disjE exE)
    fix code assume t: "?t = reset_stream lib code sid s"
    have "no_new used s ?t" unfolding t by (rule reset_stream_no_new [OF lib])
    from no_new_known [OF this] batch this show ?thesis
      by (simp add: fresh_batch_def no_new_def) blast
  next
    fix st act assume "?t = s\<lparr>h2_active := act, h2_inbound := dict_set sid st (h2_inbound s)\<rparr>"
    with batch show ?thesis by (auto simp: fresh_batch_def known_def under_way_def)
  qed
qed

lemma handle_event_ok:
  assumes lib: "never_reuses lib used" and a: "acct l s" and batch: "fresh_batch used (ev # evs) s"
    and run: "handle_event lib ev s = (res, t)"
  shows "acct l t \<and> fresh_batch used evs t \<and> (\<forall>k. under_way t k \<le> under_way s k)"
proof -
  have keep: "acct l t \<and> fresh_batch used evs t \<and> (\<forall>k. under_way t k \<le> under_way s k)" if "acct l t" "no_new used s t" "request_ids (ev # evs) = request_ids evs"
    using that batch fresh_batch_step [OF batch that(2,3)] by (auto simp: no_new_def)
  show ?thesis
  proof (cases ev)
    case (RequestReceived sid raw)
    with run have t: "t = request_received lib sid raw s" by (simp add: handle_event_def)
    from batch RequestReceived have "sid \<notin> fst ` set (h2_inbound s)" by (auto simp: fresh_batch_def)
    with t a request_received_ok request_received_fresh [OF lib batch [unfolded RequestReceived]] show ?thesis by blast
  next
    case (DataReceived sid data flow)
    with run have "data_received lib sid data flow s = (res, t)" by (simp add: handle_event_def)
    then show ?thesis using data_received_ok [OF a] data_received_no_new [OF lib] DataReceived by (intro keep) auto
  next
    case (StreamEnded sid)
    obtain r s1 where e: "stream_ended lib sid s = (r, s1)" by (cases "stream_ended lib sid s")
    with run StreamEnded have "t = s1 \<or> (\<exists>item. t = s1\<lparr>h2_ready := h2_ready s1 @ [item]\<rparr>)"
      by (auto simp: handle_event_def split: sum.splits option.splits)
    then have "same_books s1 t \<and> h2_conn t = h2_conn s1" by (auto simp: same_books_def)
    then show ?thesis using stream_ended_ok [OF a e] stream_ended_no_new [OF lib e] acct_same [of l s1 t] StreamEnded
      by (intro keep) (auto simp: no_new_def same_books_def under_way_def)
  next
    case (StreamReset sid)
    let ?s = "s\<lparr>h2_cancelled := h2_cancelled s @ [sid]\<rparr>"
    have "acct l ?s" by (rule acct_same [OF a]) (simp add: same_books_def)
    moreover have "no_new used s (drop_stream sid ?s)"
      by (rule no_new_trans [OF _ drop_stream_no_new]) (simp add: no_new_def under_way_def)
    ultimately show ?thesis using run StreamReset drop_stream_acct by (intro keep) (auto simp: handle_event_def)
  next
    case (TrailersReceived sid)
    with run reset_stream_acct [OF a] reset_stream_no_new [OF lib] show ?thesis
      by (intro keep) (auto simp: handle_event_def)
  next
    case ConnectionTerminated
    then have "t = s\<lparr>h2_remote_closed := True\<rparr>" using run by (simp add: handle_event_def)
    with a ConnectionTerminated show ?thesis
      by (intro keep) (auto simp: no_new_def same_books_def under_way_def elim!: acct_same)
  next
    case OtherEvent
    with run a show ?thesis by (intro keep) (auto simp: handle_event_def no_new_refl)
  qed
qed

lemma handle_events_ok:
  "never_reuses lib used \<Longrightarrow> acct l s \<Longrightarrow> fresh_batch used evs s \<Longrightarrow> handle_events lib evs s = (res, t) \<Longrightarrow>
     acct l t \<and> known used t \<and> (\<forall>k. under_way t k \<le> under_way s k)"
proof (induction evs arbitrary: s)
  case Nil
  then show ?case by (simp add: fresh_batch_def)
next
  case (Cons ev evs)
  obtain r s1 where e: "handle_event lib ev s = (r, s1)" by (cases "handle_event lib ev s")
  note one = handle_event_ok [OF Cons.prems(1-3) e]
  show ?case
  proof (cases r)
    case (Inl err)
    with Cons.prems(4) e one show ?thesis by (auto simp: fresh_batch_def)
  next
    case (Inr u)
    with Cons.prems(4) e have "handle_events lib evs s1 = (res, t)" by simp
    from Cons.IH [OF Cons.prems(1) _ _ this] one show ?thesis by (meson le_trans)
  qed
qed

lemma receive_chunks_ok:
  "never_reuses lib used \<Longrightarrow> acct l s \<Longrightarrow> known used s \<Longrightarrow> receive_chunks lib chunks s = (res, t) \<Longrightarrow>
     acct l t \<and> known used t \<and> (\<forall>k. under_way t k \<le> under_way s k)"
proof (induction chunks arbitrary: s)
  case Nil
  then show ?case by simp
next
  case (Cons chunk chunks)
  obtain evs w where rc: "lib_receive lib chunk (h2_conn s) = (evs, w)" by (cases "lib_receive lib chunk (h2_conn s)")
  let ?s = "s\<lparr>h2_conn := w\<rparr>"
  have a: "acct l ?s" by (rule acct_same [OF Cons.prems(2)]) (simp add: same_books_def)
  have grow: "used (h2_conn s) \<subseteq> used w" using Cons.prems(1) rc by (cases evs) (auto simp: never_reuses_def)
  then have k: "known used ?s" using Cons.prems(3) by (auto simp: known_def)
  show ?case
  proof (cases evs)
    case (Inl e)
    with Cons.prems(4) rc a k show ?thesis by (auto simp: under_way_def)
  next
    case (Inr batch)
    have ids: "distinct (request_ids batch) \<and> set (request_ids batch) \<inter> used (h2_conn s) = {} \<and> set (request_ids batch) \<subseteq> used w"
      using never_reuses_receive [OF Cons.prems(1) rc [unfolded Inr]] by blast
    with Cons.prems(3) k have fresh: "fresh_batch used batch ?s" by (auto simp: fresh_batch_def known_def)
    obtain r s1 where he: "handle_events lib batch ?s = (r, s1)" by (cases "handle_events lib batch ?s")
    note one = handle_events_ok [OF Cons.prems(1) a fresh he]
    show ?thesis
    proof (cases r)
      case (Inl e)
      with Cons.prems(4) rc Inr he one show ?thesis by (auto simp: under_way_def)
    next
      case r: (Inr u)
      obtain r2 s2 where cc: "capture_control lib s1 = (r2, s2)" by (cases "capture_control lib s1")
      have two: "acct l s2" "known used s2" and way: "\<forall>k. under_way s2 k \<le> under_way s k"
        using capture_control_ok [OF _ cc] capture_control_no_new [OF Cons.prems(1) cc] no_new_known one
        by (blast, blast, auto simp: no_new_def under_way_def [of ?s] under_way_def [of s] intro: le_trans)
      show ?thesis
      proof (cases r2)
        case (Inl e)
        with Cons.prems(4) rc Inr he r cc two way show ?thesis by simp
      next
        case r2: (Inr u2)
        with Cons.prems(4) rc Inr he r cc have "receive_chunks lib chunks s2 = (res, t)" by simp
        from Cons.IH [OF Cons.prems(1) two this] way show ?thesis by (meson le_trans)
      qed
    qed
  qed
qed

lemma receive_data_ok:
  assumes "never_reuses lib used" and "acct l s" and "known used s" and "receive_data lib data s = (res, t)"
  shows "acct l t \<and> known used t \<and> (\<forall>k. under_way t k \<le> under_way s k)"
proof (cases "budget_feed (h2_frames s) data")
  case (Inl e)
  with assms show ?thesis by (simp add: receive_data_def)
next
  case (Inr fr)
  obtain chunks fr1 where bt: "budget_take (nat (hc_reader_frame_batch_size (h2_config s))) fr = (chunks, fr1)"
    by (cases "budget_take (nat (hc_reader_frame_batch_size (h2_config s))) fr")
  let ?s = "s\<lparr>h2_frames := fr1\<rparr>"
  have a: "acct l ?s" by (rule acct_same [OF assms(2)]) (simp add: same_books_def)
  have k: "known used ?s" using assms(3) by (simp add: known_def)
  obtain r s1 where rc: "receive_chunks lib chunks ?s = (r, s1)" by (cases "receive_chunks lib chunks ?s")
  note one = receive_chunks_ok [OF assms(1) a k rc]
  have "t = s1 \<or> t = s1\<lparr>h2_ready := []\<rparr>"
    using assms(4) Inr bt rc by (auto simp: receive_data_def split: sum.splits if_splits)
  moreover have "acct l (s1\<lparr>h2_ready := []\<rparr>) \<and> known used (s1\<lparr>h2_ready := []\<rparr>)"
    using one acct_same [of l s1 "s1\<lparr>h2_ready := []\<rparr>"] by (simp add: known_def same_books_def)
  moreover have "under_way (s1\<lparr>h2_ready := []\<rparr>) k = under_way s1 k" "under_way ?s k = under_way s k" for k
    by (simp_all add: under_way_def)
  ultimately show ?thesis using one by metis
qed

section \<open>Sending keeps the books\<close>

lemma release_inbound_no_new: "no_new used s (release_inbound sid s)"
  by (simp add: no_new_def release_inbound_fields under_way_def)

lemma no_new_facts:
  "no_new used s t \<Longrightarrow> (known used s \<longrightarrow> known used t) \<and> (\<forall>k. under_way t k \<le> under_way s k + (if k = sid then 1 else 0))"
  using no_new_known by (auto simp: no_new_def intro: le_SucI)

lemma queue_response_ok:
  assumes lib: "never_reuses lib used" and a: "acct l s" and run: "queue_response lib sid resp s = (res, t)"
  shows "acct l t \<and> (known used s \<longrightarrow> known used t) \<and>
    (\<forall>k. under_way t k \<le> under_way s k + (if k = sid then 1 else 0))"
proof -
  let ?s = "release_inbound sid s"
  let ?size = "int (length (resp_body resp))"
  have a1: "acct l ?s" by (rule release_inbound_acct [OF a])
  have n1: "no_new used s ?s" by (rule release_inbound_no_new)
  consider "t = s" | "t = ?s" | "t = ?s\<lparr>h2_commands := h2_commands ?s @ [(sid, None)]\<rparr>"
    | "t = reset_stream lib ENHANCE_YOUR_CALM sid ?s"
    | "t = ?s\<lparr>h2_pending := h2_pending ?s + ?size, h2_commands := h2_commands ?s @ [(sid, Some resp)]\<rparr>"
      "int (length (h2_control ?s)) + h2_pending ?s + ?size \<le> hc_max_pending_output_bytes (h2_config ?s)"
  proof (cases "sid \<in> set (h2_active s)")
    case False
    with run that(1) show thesis by (simp add: queue_response_def)
  next
    case active: True
    show thesis
    proof (cases "?size > hc_max_response_body_bytes (h2_config ?s) \<or>
        int (length (h2_control ?s)) + h2_pending ?s + ?size > hc_max_pending_output_bytes (h2_config ?s)")
      case True
      with run active that(2,3) show thesis by (cases "sid \<in> fst ` set (h2_commands ?s)") (simp_all add: queue_response_def Let_def)
    next
      case small: False
      with run active that(4,5) show thesis
        by (cases "int (length (h2_commands ?s)) \<ge> hc_max_concurrent_streams (h2_config ?s) * 2")
          (simp_all add: queue_response_def Let_def)
    qed
  qed
  then show ?thesis
  proof cases
    case 1
    with a show ?thesis by simp
  next
    case 2
    with a1 no_new_facts [OF n1] show ?thesis by blast
  next
    case 3
    have "acct l t" using 3 a1
      by (simp add: acct_def in_ok_def out_ok_def active_ok_def command_total_def command_size_def)
    moreover have "no_new used s t" using n1 3 by (simp add: no_new_def under_way_def response_ids_def)
    ultimately show ?thesis using no_new_facts by blast
  next
    case 4
    have "no_new used s t" unfolding 4 using n1 reset_stream_no_new [OF lib] by (rule no_new_trans)
    moreover have "acct l t" unfolding 4 by (rule reset_stream_acct [OF a1])
    ultimately show ?thesis using no_new_facts by blast
  next
    case 5
    have "acct l t" using 5 a1
      by (simp add: acct_def in_ok_def out_ok_def active_ok_def command_total_def command_size_def)
    moreover have "under_way t k = under_way ?s k + (if k = sid then 1 else 0)" for k
      using 5 by (simp add: under_way_def response_ids_def)
    moreover have "known used s \<longrightarrow> known used t" using 5 no_new_known [OF n1] by (simp add: known_def)
    moreover have "under_way ?s k \<le> under_way s k" for k using n1 by (simp add: no_new_def)
    ultimately show ?thesis by simp
  qed
qed

lemma start_response_ok:
  assumes lib: "never_reuses lib used" and a: "acct (l + int (length (resp_body resp))) s"
    and new: "sid \<notin> fst ` set (h2_outbound s)" and l: "0 \<le> l"
  shows "acct l (start_response lib sid resp s) \<and> (known used s \<longrightarrow> known used (start_response lib sid resp s)) \<and>
    (\<forall>k. under_way (start_response lib sid resp s) k \<le> under_way s k + (if k = sid then 1 else 0))"
proof -
  let ?size = "int (length (resp_body resp))"
  let ?t = "start_response lib sid resp s"
  obtain ok w where sh: "lib_send_headers lib sid (response_fields resp) (resp_body resp = []) (h2_conn s) = (ok, w)"
    by (cases "lib_send_headers lib sid (response_fields resp) (resp_body resp = []) (h2_conn s)")
  have "used (h2_conn s) \<subseteq> used (snd (lib_send_headers lib sid (response_fields resp) (resp_body resp = []) (h2_conn s)))"
    using lib by (simp add: never_reuses_def)
  with sh have grow: "used (h2_conn s) \<subseteq> used w" by simp
  have paid: "acct l (s\<lparr>h2_pending := h2_pending s - ?size\<rparr>)" "acct l (s\<lparr>h2_conn := w, h2_pending := h2_pending s - ?size\<rparr>)"
    using a by (simp_all add: acct_def in_ok_def out_ok_def active_ok_def)
  consider "?t = reset_stream lib INTERNAL_ERROR sid (s\<lparr>h2_pending := h2_pending s - ?size\<rparr>)"
    | "?t = drop_stream sid (s\<lparr>h2_conn := w, h2_pending := h2_pending s - ?size\<rparr>)"
    | "?t = s\<lparr>h2_conn := w, h2_outbound := dict_set sid \<lparr>ob_body = resp_body resp, ob_offset = 0\<rparr> (h2_outbound s)\<rparr>"
    | "?t = s\<lparr>h2_conn := w, h2_active := removeAll sid (h2_active s)\<rparr>" "resp_body resp = []"
  proof (cases "fields_size (response_fields resp) > hc_max_header_bytes (h2_config s)")
    case True
    with that(1) show thesis by (simp add: start_response_def Let_def)
  next
    case False
    show thesis
    proof (cases ok)
      case bad: False
      with False sh that(2) show thesis by (simp add: start_response_def Let_def)
    next
      case sent: True
      show thesis
      proof (cases "resp_body resp = []")
        case True
        with False sh sent that(4) show thesis by (simp add: start_response_def Let_def)
      next
        case body: False
        with False sh sent that(3) show thesis by (simp add: start_response_def Let_def)
      qed
    qed
  qed
  then show ?thesis
  proof cases
    case 1
    have "no_new used s ?t" unfolding 1
      by (rule no_new_trans [OF _ reset_stream_no_new [OF lib]]) (simp add: no_new_def under_way_def)
    moreover have "acct l ?t" unfolding 1 by (rule reset_stream_acct [OF paid(1)])
    ultimately show ?thesis using no_new_facts by blast
  next
    case 2
    have "no_new used s ?t" unfolding 2
      by (rule no_new_trans [OF _ drop_stream_no_new]) (use grow in \<open>simp add: no_new_def under_way_def\<close>)
    moreover have "acct l ?t" unfolding 2 by (rule drop_stream_acct [OF paid(2)])
    ultimately show ?thesis using no_new_facts by blast
  next
    case 3
    have none: "map_of (h2_outbound s) sid = None" using new by (simp add: map_of_None_keys)
    have "acct l ?t" unfolding 3 using a none
      by (auto simp: acct_def in_ok_def out_ok_def active_ok_def outbound_total_set outbound_left_def set_dict_set
          intro: dict_wf_set)
    moreover have "under_way ?t k = under_way s k + (if k = sid then 1 else 0)" for k
      unfolding 3 using new by (simp add: under_way_def dict_set_new)
    ultimately show ?thesis using grow unfolding 3 by (auto simp: known_def)
  next
    case 4
    have "acct l (s\<lparr>h2_conn := w\<rparr>)" by (rule acct_same [of l s]) (use a 4(2) in \<open>simp_all add: same_books_def\<close>)
    then have drop_rest: "acct l ?t"
      unfolding 4(1) using drop_rest_acct [where P = "\<lambda>_. True" and t = "s\<lparr>h2_conn := w\<rparr>" and l = l and sid = sid] by simp
    have "no_new used s ?t" unfolding 4(1) using grow by (simp add: no_new_def under_way_def)
    with drop_rest no_new_facts show ?thesis by blast
  qed
qed

lemma run_commands_ok:
  "never_reuses lib used \<Longrightarrow> acct (l + command_total cmds) s \<Longrightarrow> known used s \<Longrightarrow> 0 \<le> l \<Longrightarrow>
     \<forall>k. under_way s k + count_list (response_ids cmds) k \<le> 1 \<Longrightarrow> run_commands lib cmds s = (res, t) \<Longrightarrow>
     (\<exists>l'. l \<le> l' \<and> acct l' t \<and> (res = Inr () \<longrightarrow> l' = l)) \<and> known used t \<and>
     (\<forall>k. under_way t k \<le> under_way s k + count_list (response_ids cmds) k)"
proof (induction cmds arbitrary: s)
  case Nil
  then show ?case by (auto simp: command_total_def response_ids_def)
next
  case (Cons c cmds)
  obtain sid r where c: "c = (sid, r)" by (cases c)
  define s1 where "s1 = (case r of None \<Rightarrow> reset_stream lib ENHANCE_YOUR_CALM sid s | Some resp \<Rightarrow> start_response lib sid resp s)"
  have rest: "0 \<le> l + command_total cmds" using Cons.prems(4) command_total_nonneg [of cmds] by simp
  have step: "acct (l + command_total cmds) s1 \<and> known used s1 \<and>
      (\<forall>k. under_way s1 k \<le> under_way s k + (if k = sid \<and> r \<noteq> None then 1 else 0))"
  proof (cases r)
    case None
    have "acct (l + command_total cmds) s" using Cons.prems(2) c None by (simp add: command_total_def command_size_def)
    from reset_stream_acct [OF this] None reset_stream_no_new [OF Cons.prems(1)] no_new_known [OF reset_stream_no_new [OF Cons.prems(1)]] Cons.prems(3)
    show ?thesis by (auto simp: s1_def no_new_def)
  next
    case (Some resp)
    have "count_list (response_ids (c # cmds)) sid \<noteq> 0" using c Some by (simp add: response_ids_def)
    moreover have "under_way s sid + count_list (response_ids (c # cmds)) sid \<le> 1" using Cons.prems(5) by blast
    ultimately have "under_way s sid = 0" by linarith
    then have "sid \<notin> set (map fst (h2_outbound s))" by (auto simp: under_way_def count_list_0_iff)
    moreover have "acct (l + command_total cmds + int (length (resp_body resp))) s"
      using Cons.prems(2) c Some by (simp add: command_total_def command_size_def algebra_simps)
    ultimately show ?thesis using start_response_ok [OF Cons.prems(1) _ _ rest] Some Cons.prems(3) by (simp add: s1_def)
  qed
  obtain r2 s2 where cc: "capture_control lib s1 = (r2, s2)" by (cases "capture_control lib s1")
  have n2: "no_new used s1 s2" by (rule capture_control_no_new [OF Cons.prems(1) cc])
  have two: "acct (l + command_total cmds) s2" "known used s2" using capture_control_ok [OF _ cc] n2 no_new_known step by blast+
  have way: "under_way s2 k + count_list (response_ids cmds) k \<le> under_way s k + count_list (response_ids (c # cmds)) k" for k
  proof -
    have "under_way s2 k \<le> under_way s1 k" using n2 by (simp add: no_new_def)
    moreover have "under_way s1 k \<le> under_way s k + (if k = sid \<and> r \<noteq> None then 1 else 0)" using step by blast
    ultimately show ?thesis using c by (auto simp: response_ids_def split: if_splits)
  qed
  show ?case
  proof (cases r2)
    case (Inl e)
    with Cons.prems(6) c cc have "t = s2" "res = Inl e" by (simp_all add: s1_def)
    moreover have "under_way s2 k \<le> under_way s k + count_list (response_ids (c # cmds)) k" for k
      using way [of k] by linarith
    moreover have "l \<le> l + command_total cmds" using command_total_nonneg [of cmds] by simp
    ultimately show ?thesis using two by blast
  next
    case (Inr u)
    with Cons.prems(6) c cc have run: "run_commands lib cmds s2 = (res, t)" by (simp add: s1_def)
    have "\<forall>k. under_way s2 k + count_list (response_ids cmds) k \<le> 1" using way Cons.prems(5) le_trans by blast
    note rest = Cons.IH [OF Cons.prems(1) two Cons.prems(4) this run]
    then have "under_way t k \<le> under_way s k + count_list (response_ids (c # cmds)) k" for k
      using way [of k] le_trans by blast
    with rest show ?thesis by blast
  qed
qed

end
