(* ===== verification/H2_Sample.thy ===== *)
theory H2_Sample
  imports H2_Protocol
begin

text \<open>
  A concrete library and request for the witnesses of the HTTP/2 properties, evaluated once: it reports
  one request on its second chunk, sends what it is given at once and has a window of three bytes.
\<close>

definition demo_headers :: "(pystr \<times> pystr) list" where
  "demo_headers = [(lit '':method'', lit ''GET''), (lit '':scheme'', lit ''http''), (lit '':path'', lit ''/''),
     (lit '':authority'', lit ''a'')]"

definition demo_lib :: "(nat \<times> bytes) h2lib" where
  "demo_lib =
     \<lparr>lib_receive = (\<lambda>chunk (n, buf). (Inr (if n = 1 then [RequestReceived 1 demo_headers, StreamEnded 1] else []),
         (Suc n, buf))),
      lib_data_to_send = (\<lambda>(n, buf). (buf, (n, []))),
      lib_acknowledge = (\<lambda>flow sid w. (True, w)),
      lib_reset = (\<lambda>sid code w. (True, w)),
      lib_send_headers = (\<lambda>sid fs fin w. (True, w)),
      lib_send_data = (\<lambda>sid bs fin (n, buf). (True, (n, buf @ bs))),
      lib_window = (\<lambda>sid w. (Some 3, w)),
      lib_max_outbound = (\<lambda>w. 16384),
      lib_close = (\<lambda>code last w. (True, w)),
      lib_initiate = (\<lambda>w. w)\<rparr>"

lemma demo_lib_sel:
  "lib_receive demo_lib chunk (n, buf) = (Inr (if n = 1 then [RequestReceived 1 demo_headers, StreamEnded 1] else []),
     (Suc n, buf))"
  "lib_data_to_send demo_lib (n, buf) = (buf, (n, []))" "lib_send_headers demo_lib sid fs fin w = (True, w)"
  "lib_send_data demo_lib sid bs fin (n, buf) = (True, (n, buf @ bs))" "lib_window demo_lib sid w = (Some 3, w)"
  "lib_max_outbound demo_lib w = 16384"
  by (simp_all add: demo_lib_def)

definition demo_config :: h2_config where
  "demo_config =
     \<lparr>hc_max_concurrent_streams = 100, hc_max_header_count = 100, hc_max_header_bytes = 16384,
      hc_max_compressed_header_bytes = 16384, hc_max_body_bytes = 1048576, hc_max_connection_buffer_bytes = 4194304,
      hc_max_pending_output_bytes = 4194304, hc_max_response_body_bytes = 2097152, hc_max_control_output_bytes = 65536,
      hc_max_frame_size = 16384, hc_reader_frame_batch_size = 32, hc_handshake_timeout = 10, hc_idle_timeout = 60\<rparr>"

lemma demo_config_ok: "h2_config_init demo_config = Inr demo_config"
  by (simp add: h2_config_init_def demo_config_def)

lemma utf8_len_ascii: "is_ascii s \<Longrightarrow> utf8_len s = Some (length s)"
  by (simp add: utf8_len_def utf8_encode_ascii)

lemma demo_limits:
  "hc_max_header_bytes demo_config = 16384" "hc_max_header_count demo_config = 100" "hc_max_body_bytes demo_config = 1048576"
  "hc_max_concurrent_streams demo_config = 100" "hc_max_connection_buffer_bytes demo_config = 4194304"
  "hc_max_pending_output_bytes demo_config = 4194304" "hc_max_response_body_bytes demo_config = 2097152"
  "hc_max_control_output_bytes demo_config = 65536" "hc_reader_frame_batch_size demo_config = 32"
  "hc_max_frame_size demo_config = 16384" "hc_max_compressed_header_bytes demo_config = 16384"
  by (simp_all add: demo_config_def)

lemma demo_loop:
  "decode_loop demo_config demo_headers
     \<lparr>dec_size = 0, dec_pseudo = [], dec_regular = [], dec_cookies = [], dec_seen_regular = False\<rparr> =
   Inr \<lparr>dec_size = 166, dec_pseudo = demo_headers, dec_regular = [], dec_cookies = [], dec_seen_regular = False\<rparr>"
  by (simp add: demo_headers_def demo_limits utf8_len_ascii is_ascii_def starts_with_def py_text)

lemma demo_decode:
  "decode_request_headers demo_config demo_headers = Inr (lit ''GET'', lit ''/'', [(lit ''host'', lit ''host'', lit ''a'')], None)"
proof -
  have few: "\<not> 100 < int (length demo_headers)" by (simp add: demo_headers_def)
  show ?thesis
    unfolding decode_request_headers_def demo_limits demo_loop
    using few by (simp add: demo_headers_def py_text pseudo_get_def h2_method_char_def token_char_def path_char_def
        starts_with_def headers_init_def is_token_def header_value_ok_def py_lower_def lower1_def h2_content_length_def headers_get_def)
qed

definition demo_input :: bytes where
  "demo_input = client_preface @ [0, 0, 0, 4, 0, 0, 0, 0, 0]"

definition demo_frames :: budget where
  "demo_frames = (budget_init 16384 16384)\<lparr>fb_preface_received := True, fb_frame_type := 4\<rparr>"

lemma demo_feed:
  "budget_feed (budget_init 16384 16384) demo_input =
     Inr (demo_frames\<lparr>fb_ready := [client_preface, [0, 0, 0, 4, 0, 0, 0, 0, 0]]\<rparr>)"
  by (simp add: demo_input_def demo_frames_def budget_feed_def budget_init_def client_preface_def budget_loop.simps
      start_frame_def nat_of_be_def finish_frame_def)

lemma demo_frames_ready: "demo_frames\<lparr>fb_ready := []\<rparr> = demo_frames" "has_ready_frames demo_frames = False"
  by (simp_all add: demo_frames_def budget_init_def has_ready_frames_def)

definition demo_host :: headers where
  "demo_host = [(lit ''host'', lit ''host'', lit ''a'')]"

definition demo_request :: request where
  "demo_request = \<lparr>req_method = lit ''GET'', req_path = lit ''/'', req_headers = demo_host, req_body = [],
     req_version = lit ''HTTP/2'', req_raw_target = lit ''/'', req_query_string = [], req_path_params = [],
     req_route_pattern = None\<rparr>"

definition demo_received :: "(nat \<times> bytes) h2_state" where
  "demo_received = (h2_init demo_config (2, []))\<lparr>h2_frames := demo_frames, h2_active := [1],
     h2_inbound := [(1, \<lparr>in_method = lit ''GET'', in_path = lit ''/'', in_headers = demo_host, in_body = [],
        in_expected = None, in_dispatched = True\<rparr>)], h2_last_processed := 1\<rparr>"

lemma demo_request_init:
  "request_init (lit ''GET'') (lit ''/'') demo_host [] (lit ''HTTP/2'') None [] [] None = Inr demo_request"
  by (simp add: request_init_def demo_request_def is_token_def token_char_def starts_with_def py_text Let_def)

lemma demo_receive:
  "receive_data demo_lib demo_input (h2_init demo_config (0, [])) = (Inr [(1, demo_request)], demo_received)"
  by (simp add: receive_data_def h2_init_def demo_limits demo_feed budget_take_def demo_lib_sel capture_control_def
      handle_event_def request_received_def demo_decode demo_host_def [symmetric] stream_ended_def demo_request_init
      demo_frames_ready demo_received_def List.insert_def)

definition demo_response :: response where
  "demo_response = \<lparr>resp_status = 200, resp_body = [1, 2, 3, 4, 5], resp_headers = []\<rparr>"

lemma demo_response_body: "resp_body demo_response = [1, 2, 3, 4, 5]"
  by (simp add: demo_response_def)

definition demo_queued :: "(nat \<times> bytes) h2_state" where
  "demo_queued = demo_received\<lparr>h2_inbound := [], h2_pending := 5, h2_commands := [(1, Some demo_response)]\<rparr>"

lemma demo_queue: "queue_response demo_lib 1 demo_response demo_received = (True, demo_queued)"
  by (simp add: queue_response_def demo_received_def demo_queued_def demo_response_body release_inbound_def dict_pop_def
      h2_init_def demo_limits)

definition demo_flushed :: "(nat \<times> bytes) h2_state" where
  "demo_flushed = demo_queued\<lparr>h2_commands := [], h2_pending := 2,
     h2_outbound := [(1, \<lparr>ob_body = [1, 2, 3, 4, 5], ob_offset = 3\<rparr>)]\<rparr>"

lemma demo_fields:
  "response_fields demo_response = [(lit '':status'', lit ''200''), (lit ''content-length'', lit ''5'')]"
  by (simp add: response_fields_def demo_response_def headers_items_def headers_get_def int_str_def py_text nat_str.simps)

lemma demo_fields_size: "fields_size (response_fields demo_response) = 89"
  by (simp add: demo_fields fields_size_def encoded_len_def utf8_len_ascii is_ascii_def py_text)

lemma demo_flush: "h2_flush demo_lib demo_queued = (Inr [1, 2, 3], demo_flushed)"
  by (simp add: h2_flush_def demo_queued_def start_response_def Let_def demo_fields_size demo_lib_sel demo_received_def
      h2_init_def demo_limits demo_response_body capture_control_def flush_one_def wire_output_ok_def demo_flushed_def)

end
