(* ===== verification/H2_Runs.thy ===== *)
theory H2_Runs
  imports H2_Accounting H2_Sample
begin

text \<open>
  \<open>H2Protocol.flush\<close> and \<open>close\<close> keep the books of \<open>H2_Accounting\<close>, and so does every run of the
  protocol object by the connection loop: reads, responses, flushes and a close, in any order.
\<close>

section \<open>Flush\<close>

lemma finish_outbound_acct:
  assumes "acct l s" and "map_of (h2_outbound s) sid = Some ob" and "outbound_left ob = 0"
  shows "acct l (finish_outbound sid s)"
proof -
  have "int (length (removeAll sid (h2_active s))) \<le> k" if "int (length (h2_active s)) \<le> k" for k
    using that le_trans [OF length_filter_le] unfolding removeAll_filter_not_eq
    by (metis length_filter_le of_nat_le_iff order_trans)
  then show ?thesis
    using assms by (auto simp: finish_outbound_def acct_def in_ok_def out_ok_def active_ok_def outbound_total_pop
        set_dict_pop distinct_removeAll intro: dict_wf_pop)
qed

lemma finish_outbound_no_new: "no_new used s (finish_outbound sid s)"
  using count_list_filter_le [of fst _ "h2_outbound s"]
  by (simp add: no_new_def finish_outbound_def under_way_def dict_pop_def)

text \<open>The state after \<open>n\<close> more bytes of a stream have gone out.\<close>

definition sent_bytes :: "nat \<Rightarrow> outbound \<Rightarrow> nat \<Rightarrow> 'w \<Rightarrow> 'w h2_state \<Rightarrow> 'w h2_state" where
  "sent_bytes sid ob n w s =
     s\<lparr>h2_outbound := dict_set sid (ob\<lparr>ob_offset := ob_offset ob + n\<rparr>) (h2_outbound s),
       h2_pending := h2_pending s - int n, h2_conn := w\<rparr>"

lemma sent_bytes_acct:
  assumes "acct l s" and "map_of (h2_outbound s) sid = Some ob" and "int n \<le> outbound_left ob"
  shows "acct l (sent_bytes sid ob n w s)"
  using assms by (auto simp: sent_bytes_def acct_def in_ok_def out_ok_def active_ok_def outbound_total_set outbound_left_def
      set_dict_set intro: dict_wf_set)

lemma dict_set_present:
  "map_of d k = Some v \<Longrightarrow> map fst (dict_set k v' d) = map fst d"
  by (induction d) auto

lemma sent_bytes_no_new:
  assumes "map_of (h2_outbound s) sid = Some ob" and "used (h2_conn s) \<subseteq> used w"
  shows "no_new used s (sent_bytes sid ob n w s)"
  using assms dict_set_present [OF assms(1)] by (simp add: no_new_def sent_bytes_def under_way_def)

text \<open>The outcomes of one round, with the calls on the library that led to each.\<close>

definition flush_sends :: "'w h2lib \<Rightarrow> nat \<Rightarrow> outbound \<Rightarrow> 'w h2_state \<Rightarrow> nat \<Rightarrow> bool \<Rightarrow> 'w \<Rightarrow> bool" where
  "flush_sends lib sid ob s n ok w2 =
     (\<exists>window w. lib_window lib sid (h2_conn s) = (Some window, w) \<and> 0 < n \<and> int n \<le> outbound_left ob \<and>
        int n \<le> window \<and> int n \<le> lib_max_outbound lib w \<and>
        lib_send_data lib sid (take n (drop (ob_offset ob) (ob_body ob))) (int n = outbound_left ob) w = (ok, w2))"

lemma flush_one_cases:
  assumes "flush_one lib (sid, ob) out0 s = (res, t)"
  obtains (finished) "outbound_left ob \<le> 0" "t = finish_outbound sid s"
  | (no_window) w where "lib_window lib sid (h2_conn s) = (None, w)" "t = drop_stream sid (s\<lparr>h2_conn := w\<rparr>)"
  | (blocked) window w where "lib_window lib sid (h2_conn s) = (window, w)" "t = s\<lparr>h2_conn := w\<rparr>"
  | (refused) n w2 where "flush_sends lib sid ob s n False w2" "t = drop_stream sid (s\<lparr>h2_conn := w2\<rparr>)"
  | (sent) n w2 generated w3 where "flush_sends lib sid ob s n True w2" "lib_data_to_send lib w2 = (generated, w3)"
      "t = sent_bytes sid ob n w3 s \<or> t = finish_outbound sid (sent_bytes sid ob n w3 s) \<and> int n = outbound_left ob"
proof (cases "outbound_left ob \<le> 0")
  case True
  with assms finished show ?thesis by (simp add: flush_one_def outbound_left_def)
next
  case more: False
  obtain window w where win: "lib_window lib sid (h2_conn s) = (window, w)" by (cases "lib_window lib sid (h2_conn s)")
  show ?thesis
  proof (cases window)
    case None
    with assms more win no_window show ?thesis by (simp add: flush_one_def outbound_left_def)
  next
    case (Some win_size)
    define c where "c = min (outbound_left ob) (min (max 0 win_size) (lib_max_outbound lib w))"
    show ?thesis
    proof (cases "c \<le> 0")
      case True
      with more have "min (max 0 win_size) (lib_max_outbound lib w) \<le> 0" by (simp add: c_def min_le_iff_disj)
      with assms more win Some have "t = s\<lparr>h2_conn := w\<rparr>"
        by (simp add: flush_one_def outbound_left_def Let_def min_le_iff_disj)
      with win show ?thesis by (rule blocked)
    next
      case pos: False
      define chunk where "chunk = take (nat c) (drop (ob_offset ob) (ob_body ob))"
      obtain ok w2 where send: "lib_send_data lib sid chunk (c = outbound_left ob) w = (ok, w2)"
        by (cases "lib_send_data lib sid chunk (c = outbound_left ob) w")
      obtain generated w3 where produced: "lib_data_to_send lib w2 = (generated, w3)" by (cases "lib_data_to_send lib w2")
      let ?s3 = "sent_bytes sid ob (nat c) w3 s"
      have run: "flush_one lib (sid, ob) out0 s =
          (if \<not> ok then (Inr out0, drop_stream sid (s\<lparr>h2_conn := w2\<rparr>))
           else if \<not> wire_output_ok ?s3 (length generated) (length out0)
             then (Inl (H2Error (ValueError (lit ''HTTP/2 generated output exceeds configured maximum''))), ?s3)
             else (Inr (out0 @ generated), if c = outbound_left ob then finish_outbound sid ?s3 else ?s3))"
        using more pos
        unfolding flush_one_def Let_def fst_conv snd_conv outbound_left_def [symmetric] win Some prod.case option.case
          c_def [symmetric] chunk_def [symmetric] send
        by (cases ok) (simp_all add: produced sent_bytes_def)
      have nat_c: "int (nat c) = c" using pos by simp
      have "c \<le> outbound_left ob" "c \<le> max 0 win_size" "c \<le> lib_max_outbound lib w" by (simp_all add: c_def)
      with pos nat_c have bounds: "0 < nat c" "c \<le> outbound_left ob" "c \<le> win_size" "c \<le> lib_max_outbound lib w" by auto
      have sends: "flush_sends lib sid ob s (nat c) ok w2"
        unfolding flush_sends_def using win Some bounds send nat_c by (auto simp: chunk_def)
      show ?thesis
      proof (cases ok)
        case False
        with run assms sends refused show ?thesis by simp
      next
        case True
        with run assms have "t = ?s3 \<or> t = finish_outbound sid ?s3 \<and> int (nat c) = outbound_left ob"
          unfolding nat_c by (auto split: if_splits)
        moreover have "flush_sends lib sid ob s (nat c) True w2" using sends True by simp
        ultimately show ?thesis using sent produced by blast
      qed
    qed
  qed
qed

definition flush_result :: "('w \<Rightarrow> nat set) \<Rightarrow> nat \<Rightarrow> outbound \<Rightarrow> 'w h2_state \<Rightarrow> 'w h2_state \<Rightarrow> bool" where
  "flush_result used sid ob s t =
     ((outbound_left ob \<le> 0 \<and> t = finish_outbound sid s) \<or>
      (\<exists>w. used (h2_conn s) \<subseteq> used w \<and>
         (t = s\<lparr>h2_conn := w\<rparr> \<or> t = drop_stream sid (s\<lparr>h2_conn := w\<rparr>) \<or>
          (\<exists>n. int n \<le> outbound_left ob \<and> (t = sent_bytes sid ob n w s \<or>
             t = finish_outbound sid (sent_bytes sid ob n w s) \<and> int n = outbound_left ob)))))"

lemma flush_sends_grow:
  assumes lib: "never_reuses lib used" and sends: "flush_sends lib sid ob s n ok w2"
  shows "used (h2_conn s) \<subseteq> used w2"
proof -
  obtain window w fin where win: "lib_window lib sid (h2_conn s) = (window, w)"
    and data: "lib_send_data lib sid (take n (drop (ob_offset ob) (ob_body ob))) fin w = (ok, w2)"
    using sends by (auto simp: flush_sends_def)
  have "used (h2_conn s) \<subseteq> used (snd (lib_window lib sid (h2_conn s)))"
    "used w \<subseteq> used (snd (lib_send_data lib sid (take n (drop (ob_offset ob) (ob_body ob))) fin w))"
    using lib by (simp_all add: never_reuses_def)
  with win data show ?thesis by auto
qed

lemma flush_one_result:
  assumes lib: "never_reuses lib used" and run: "flush_one lib (sid, ob) out0 s = (res, t)"
  shows "flush_result used sid ob s t"
  using run
proof (cases rule: flush_one_cases)
  case finished
  then show ?thesis by (simp add: flush_result_def)
next
  case (no_window w)
  have "used (h2_conn s) \<subseteq> used (snd (lib_window lib sid (h2_conn s)))" using lib by (simp add: never_reuses_def)
  with no_window show ?thesis unfolding flush_result_def by auto
next
  case (blocked window w)
  have "used (h2_conn s) \<subseteq> used (snd (lib_window lib sid (h2_conn s)))" using lib by (simp add: never_reuses_def)
  with blocked show ?thesis unfolding flush_result_def by auto
next
  case (refused n w2)
  with flush_sends_grow [OF lib refused(1)] show ?thesis unfolding flush_result_def by blast
next
  case (sent n w2 generated w3)
  have "used w2 \<subseteq> used (snd (lib_data_to_send lib w2))" using lib by (simp add: never_reuses_def)
  with sent(2) flush_sends_grow [OF lib sent(1)] have "used (h2_conn s) \<subseteq> used w3" by auto
  moreover have "int n \<le> outbound_left ob" using sent(1) by (auto simp: flush_sends_def)
  ultimately show ?thesis using sent(3) unfolding flush_result_def by blast
qed

lemma flush_one_ok:
  assumes lib: "never_reuses lib used" and a: "acct l s" and ob: "map_of (h2_outbound s) sid = Some ob"
    and run: "flush_one lib (sid, ob) out0 s = (res, t)"
  shows "acct l t \<and> no_new used s t \<and> (\<forall>k. k \<noteq> sid \<longrightarrow> map_of (h2_outbound t) k = map_of (h2_outbound s) k)"
proof -
  have left: "0 \<le> outbound_left ob" using a map_of_SomeD [OF ob] by (auto simp: acct_def out_ok_def)
  have conn: "acct l (s\<lparr>h2_conn := w\<rparr>)" for w by (rule acct_same [OF a]) (simp add: same_books_def)
  have fresh: "no_new used s (s\<lparr>h2_conn := w\<rparr>)" if "used (h2_conn s) \<subseteq> used w" for w
    using that by (simp add: no_new_def under_way_def)
  from flush_one_result [OF lib run] consider
      "outbound_left ob \<le> 0" "t = finish_outbound sid s"
    | w where "used (h2_conn s) \<subseteq> used w" "t = s\<lparr>h2_conn := w\<rparr>"
    | w where "used (h2_conn s) \<subseteq> used w" "t = drop_stream sid (s\<lparr>h2_conn := w\<rparr>)"
    | w n where "used (h2_conn s) \<subseteq> used w" "int n \<le> outbound_left ob" "t = sent_bytes sid ob n w s"
    | w n where "used (h2_conn s) \<subseteq> used w" "int n = outbound_left ob" "t = finish_outbound sid (sent_bytes sid ob n w s)"
    unfolding flush_result_def by blast
  then show ?thesis
  proof cases
    case 1
    with left finish_outbound_acct [OF a ob] finish_outbound_no_new show ?thesis
      by (auto simp: finish_outbound_def)
  next
    case (2 w)
    with conn fresh show ?thesis by simp
  next
    case (3 w)
    from no_new_trans [OF fresh [OF 3(1)] drop_stream_no_new] drop_stream_acct [OF conn] show ?thesis
      unfolding 3(2) by (simp add: drop_stream_rest)
  next
    case (4 w n)
    with sent_bytes_acct [OF a ob 4(2)] sent_bytes_no_new [OF ob 4(1)] show ?thesis
      by (simp add: sent_bytes_def)
  next
    case (5 w n)
    let ?u = "sent_bytes sid ob n w s"
    have "no_new used s ?u" by (rule sent_bytes_no_new [OF ob 5(1)])
    moreover have "acct l ?u" by (rule sent_bytes_acct [OF a ob]) (simp add: 5)
    moreover have "map_of (h2_outbound ?u) sid = Some (ob\<lparr>ob_offset := ob_offset ob + n\<rparr>)" by (simp add: sent_bytes_def)
    moreover have "outbound_left (ob\<lparr>ob_offset := ob_offset ob + n\<rparr>) = 0" using 5 by (simp add: outbound_left_def)
    ultimately have "acct l t" "no_new used s t"
      unfolding 5(3) using finish_outbound_acct no_new_trans [OF _ finish_outbound_no_new] by blast+
    then show ?thesis unfolding 5(3) by (simp add: finish_outbound_def sent_bytes_def)
  qed
qed

lemma flush_streams_ok:
  "never_reuses lib used \<Longrightarrow> acct l s \<Longrightarrow> distinct (map fst entries) \<Longrightarrow>
     \<forall>(sid, ob) \<in> set entries. map_of (h2_outbound s) sid = Some ob \<Longrightarrow>
     flush_streams lib entries out0 s = (res, t) \<Longrightarrow> acct l t \<and> no_new used s t"
proof (induction entries arbitrary: out0 s)
  case Nil
  then show ?case by (simp add: no_new_refl)
next
  case (Cons entry entries)
  obtain sid ob where e: "entry = (sid, ob)" by (cases entry)
  obtain r s1 where one: "flush_one lib (sid, ob) out0 s = (r, s1)" by (cases "flush_one lib (sid, ob) out0 s")
  have "map_of (h2_outbound s) sid = Some ob" using Cons.prems(4) e by simp
  note ok = flush_one_ok [OF Cons.prems(1,2) this one]
  show ?case
  proof (cases r)
    case (Inl err)
    with Cons.prems(5) one e ok show ?thesis by simp
  next
    case (Inr out1)
    with Cons.prems(5) one e have rest: "flush_streams lib entries out1 s1 = (res, t)" by simp
    have "\<forall>(k, ob) \<in> set entries. map_of (h2_outbound s1) k = Some ob"
    proof (clarify)
      fix k ob' assume m: "(k, ob') \<in> set entries"
      with Cons.prems(3) e have "k \<noteq> sid" by (auto simp: image_iff)
      moreover have "map_of (h2_outbound s) k = Some ob'" using Cons.prems(4) m by auto
      ultimately show "map_of (h2_outbound s1) k = Some ob'" using ok by simp
    qed
    from Cons.IH [OF Cons.prems(1) _ _ this rest] ok Cons.prems(3) no_new_trans show ?thesis by auto
  qed
qed

lemma h2_flush_ok:
  assumes lib: "never_reuses lib used" and a: "acct l s" and l: "0 \<le> l" and k: "known used s"
    and once: "\<forall>k. under_way s k \<le> 1" and run: "h2_flush lib s = (res, t)"
  shows "(\<exists>l'. l \<le> l' \<and> acct l' t \<and> (\<forall>out. res = Inr out \<longrightarrow> l' = l)) \<and> known used t \<and>
    (\<forall>k. under_way t k \<le> under_way s k)"
proof -
  let ?s = "s\<lparr>h2_commands := []\<rparr>"
  have a0: "acct (l + command_total (h2_commands s)) ?s"
    using a by (simp add: acct_def in_ok_def out_ok_def active_ok_def command_total_def)
  have k0: "known used ?s" using k by (simp add: known_def)
  have way0: "under_way ?s k + count_list (response_ids (h2_commands s)) k = under_way s k" for k
    by (simp add: under_way_def response_ids_def)
  obtain r s1 where rc: "run_commands lib (h2_commands s) ?s = (r, s1)" by (cases "run_commands lib (h2_commands s) ?s")
  have once0: "\<forall>k. under_way ?s k + count_list (response_ids (h2_commands s)) k \<le> 1" using once by (simp add: way0)
  note cmds = run_commands_ok [OF lib a0 k0 l once0 rc, unfolded way0]
  show ?thesis
  proof (cases r)
    case (Inl e)
    with run rc cmds show ?thesis by (auto simp: h2_flush_def)
  next
    case (Inr u)
    with cmds have a1: "acct l s1" and k1: "known used s1" and w1: "under_way s1 k \<le> under_way s k" for k by auto
    let ?s1 = "s1\<lparr>h2_control := []\<rparr>"
    have a2: "acct l ?s1" using a1
      by (auto simp: acct_def in_ok_def out_ok_def active_ok_def limits_ok_def)
    have wf: "dict_wf (h2_outbound s1)" using a1 by (simp add: acct_def out_ok_def)
    obtain r2 s2 where fs: "flush_streams lib (h2_outbound s1) (h2_control s1) ?s1 = (r2, s2)"
      by (cases "flush_streams lib (h2_outbound s1) (h2_control s1) ?s1")
    have "acct l s2 \<and> no_new used ?s1 s2"
      by (rule flush_streams_ok [OF lib a2 _ _ fs]) (use wf in \<open>auto simp: dict_wf_def\<close>)
    then have a3: "acct l s2" and n3: "no_new used ?s1 s2" by auto
    have "known used ?s1" using k1 by (simp add: known_def)
    with n3 have k3: "known used s2" by (rule no_new_known)
    have w3: "under_way s2 k \<le> under_way s k" for k
    proof -
      have "under_way s2 k \<le> under_way ?s1 k" using n3 by (simp add: no_new_def)
      also have "\<dots> = under_way s1 k" by (simp add: under_way_def)
      finally show ?thesis using w1 [of k] by simp
    qed
    obtain generated w where out: "lib_data_to_send lib (h2_conn s2) = (generated, w)"
      by (cases "lib_data_to_send lib (h2_conn s2)")
    have "used (h2_conn s2) \<subseteq> used (snd (lib_data_to_send lib (h2_conn s2)))" using lib by (simp add: never_reuses_def)
    with out have grow: "used (h2_conn s2) \<subseteq> used w" by simp
    have last: "acct l (s2\<lparr>h2_conn := w\<rparr>) \<and> known used (s2\<lparr>h2_conn := w\<rparr>) \<and> (\<forall>k. under_way (s2\<lparr>h2_conn := w\<rparr>) k = under_way s2 k)"
      using acct_same [OF a3, of "s2\<lparr>h2_conn := w\<rparr>"] grow k3 by (auto simp: same_books_def known_def under_way_def)
    have "t = s2 \<or> t = s2\<lparr>h2_conn := w\<rparr>"
      using run rc Inr fs out by (auto simp: h2_flush_def Let_def split: sum.splits if_splits)
    with last a3 k3 w3 show ?thesis by auto
  qed
qed

lemma h2_close_ok:
  assumes lib: "never_reuses lib used" and a: "acct l s" and run: "h2_close lib code s = (out, t)"
  shows "acct 0 t \<and> known used t \<and> (\<forall>k. under_way t k = 0) \<and> h2_control t = [] \<and> h2_pending t = 0 \<and>
    int (length out) \<le> hc_max_control_output_bytes (h2_config t)"
proof -
  have lim: "limits_ok (h2_config s)" using a by (simp add: acct_def)
  show ?thesis
    using run lim
    by (auto simp: h2_close_def Let_def acct_def in_ok_def out_ok_def active_ok_def limits_ok_def inbound_total_def
        outbound_total_def command_total_def known_def under_way_def response_ids_def split: prod.splits if_splits)
qed

section \<open>Runs\<close>

text \<open>What the tasks of one connection do to the protocol object. \<open>Drop\<close> is the handler task giving up;
  an operation that raises leaves its state to the next one, as the writer task does to the reader.\<close>

datatype h2_op =
    Receive bytes
  | Queue nat response
  | Drop nat
  | TakeCancelled
  | Flush
  | Close h2_code

definition raises :: "'e + 'a \<Rightarrow> bool" where
  "raises r = (case r of Inl _ \<Rightarrow> True | Inr _ \<Rightarrow> False)"

fun h2_apply :: "'w h2lib \<Rightarrow> h2_op \<Rightarrow> 'w h2_state \<Rightarrow> bool \<times> 'w h2_state" where
  "h2_apply lib (Receive data) s = (case receive_data lib data s of (r, t) \<Rightarrow> (raises r, t))"
| "h2_apply lib (Queue sid resp) s = (False, snd (queue_response lib sid resp s))"
| "h2_apply lib (Drop sid) s = (False, drop_stream sid s)"
| "h2_apply lib TakeCancelled s = (False, snd (take_cancelled s))"
| "h2_apply lib Flush s = (case h2_flush lib s of (r, t) \<Rightarrow> (raises r, t))"
| "h2_apply lib (Close code) s = (False, snd (h2_close lib code s))"

fun h2_run :: "'w h2lib \<Rightarrow> h2_op list \<Rightarrow> 'w h2_state \<Rightarrow> bool \<times> 'w h2_state" where
  "h2_run lib [] s = (False, s)"
| "h2_run lib (op # ops) s =
     (case h2_apply lib op s of (raised, s1) \<Rightarrow>
        case h2_run lib ops s1 of (raised', t) \<Rightarrow> (raised \<or> raised', t))"

fun queued_ids :: "h2_op list \<Rightarrow> nat list" where
  "queued_ids [] = []"
| "queued_ids (Queue sid resp # ops) = sid # queued_ids ops"
| "queued_ids (_ # ops) = queued_ids ops"

text \<open>\<open>ops\<close> are the operations still to come.\<close>

definition run_inv :: "('w \<Rightarrow> nat set) \<Rightarrow> int \<Rightarrow> h2_op list \<Rightarrow> 'w h2_state \<Rightarrow> bool" where
  "run_inv used l ops s = (0 \<le> l \<and> acct l s \<and> known used s \<and>
     (\<forall>k. under_way s k + count_list (queued_ids ops) k \<le> 1))"

lemma run_inv_keep:
  assumes "run_inv used l (op # ops) s" and "acct l' t" and "0 \<le> l'" and "known used t"
    and "\<forall>k. under_way t k \<le> under_way s k" and "queued_ids (op # ops) = queued_ids ops"
  shows "run_inv used l' ops t"
  unfolding run_inv_def
proof (intro conjI allI)
  fix k
  have "under_way s k + count_list (queued_ids ops) k \<le> 1" using assms(1,6) by (simp add: run_inv_def)
  with assms(5) show "under_way t k + count_list (queued_ids ops) k \<le> 1"
    by (meson add_le_mono1 le_trans)
qed (use assms in auto)

lemma h2_apply_inv:
  assumes lib: "never_reuses lib used" and inv: "run_inv used l (op # ops) s" and run: "h2_apply lib op s = (raised, t)"
  shows "\<exists>l' \<ge> l. run_inv used l' ops t \<and> (\<not> raised \<longrightarrow> l = 0 \<longrightarrow> l' = 0) \<or> run_inv used 0 ops t"
proof (cases op)
  case (Receive data)
  obtain r where "receive_data lib data s = (r, t)" using run Receive by (auto split: prod.splits)
  moreover have "acct l s" "known used s" using inv by (simp_all add: run_inv_def)
  ultimately have "acct l t \<and> known used t \<and> (\<forall>k. under_way t k \<le> under_way s k)"
    using receive_data_ok [OF lib] by blast
  then have "run_inv used l ops t" using run_inv_keep [OF inv, of l t] inv Receive by (simp add: run_inv_def)
  then show ?thesis by auto
next
  case (Queue sid resp)
  obtain r where "queue_response lib sid resp s = (r, t)" using run Queue by (cases "queue_response lib sid resp s") auto
  moreover have "acct l s" using inv by (simp add: run_inv_def)
  ultimately have t: "acct l t" "known used s \<longrightarrow> known used t"
      "under_way t k \<le> under_way s k + (if k = sid then 1 else 0)" for k
    using queue_response_ok [OF lib] by blast+
  have "under_way t k + count_list (queued_ids ops) k \<le> 1" for k
  proof -
    have "under_way s k + count_list (queued_ids (op # ops)) k \<le> 1" using inv by (simp add: run_inv_def)
    with t(3) [of k] Queue show ?thesis by (auto split: if_splits)
  qed
  with t inv have "run_inv used l ops t" by (simp add: run_inv_def)
  then show ?thesis by auto
next
  case (Drop sid)
  then have t: "t = drop_stream sid s" using run by simp
  have "no_new used s t" unfolding t by (rule drop_stream_no_new)
  moreover have "acct l t" unfolding t using inv by (intro drop_stream_acct) (simp add: run_inv_def)
  ultimately have "run_inv used l ops t"
    using run_inv_keep [OF inv, of l t] no_new_known inv Drop by (auto simp: run_inv_def no_new_def)
  then show ?thesis by auto
next
  case TakeCancelled
  then have t: "t = s\<lparr>h2_cancelled := []\<rparr>" using run by (simp add: take_cancelled_def)
  have "same_books s t" by (simp add: t same_books_def)
  moreover have facts: "acct l s" "0 \<le> l" "known used s" using inv by (simp_all add: run_inv_def)
  ultimately have a: "acct l t" using acct_same by blast
  have k: "known used t" using facts(3) by (simp add: t known_def)
  have "run_inv used l ops t"
    by (rule run_inv_keep [OF inv a facts(2) k]) (simp_all add: t under_way_def TakeCancelled)
  then show ?thesis by auto
next
  case Flush
  obtain r where f: "h2_flush lib s = (r, t)" and raised: "raised = raises r" using run Flush by (auto split: prod.splits)
  have once: "\<forall>k. under_way s k \<le> 1" using inv by (auto simp: run_inv_def intro: add_leD1)
  have "acct l s" "0 \<le> l" "known used s" using inv by (simp_all add: run_inv_def)
  from h2_flush_ok [OF lib this once f] obtain l' where l': "l \<le> l'" "acct l' t" "\<forall>out. r = Inr out \<longrightarrow> l' = l"
    and "known used t" "\<forall>k. under_way t k \<le> under_way s k" by auto
  then have "run_inv used l' ops t" using run_inv_keep [OF inv, of l' t] inv Flush by (simp add: run_inv_def)
  moreover have "\<not> raised \<longrightarrow> l' = l" using l'(3) raised by (cases r) (simp_all add: raises_def)
  ultimately show ?thesis using l'(1) by auto
next
  case (Close code)
  obtain out where "h2_close lib code s = (out, t)" using run Close by (cases "h2_close lib code s") auto
  moreover have "acct l s" using inv by (simp add: run_inv_def)
  ultimately have "acct 0 t \<and> known used t \<and> (\<forall>k. under_way t k = 0)" using h2_close_ok [OF lib] by blast
  then have "run_inv used 0 ops t" using run_inv_keep [OF inv, of 0 t] Close by simp
  then show ?thesis by blast
qed

lemma h2_run_inv:
  "never_reuses lib used \<Longrightarrow> run_inv used l ops s \<Longrightarrow> h2_run lib ops s = (raised, t) \<Longrightarrow>
     \<exists>l'. run_inv used l' [] t \<and> (\<not> raised \<longrightarrow> l = 0 \<longrightarrow> l' = 0)"
proof (induction ops arbitrary: l s raised)
  case Nil
  then show ?case by auto
next
  case (Cons op ops)
  obtain r1 s1 where one: "h2_apply lib op s = (r1, s1)" by (cases "h2_apply lib op s")
  obtain r2 where two: "h2_run lib ops s1 = (r2, t)" and raised: "raised = (r1 \<or> r2)"
    using Cons.prems(3) one by (auto split: prod.splits)
  from h2_apply_inv [OF Cons.prems(1,2) one] obtain l1 where "run_inv used l1 ops s1" "\<not> r1 \<longrightarrow> l = 0 \<longrightarrow> l1 = 0"
    by blast
  with Cons.IH [OF Cons.prems(1) this(1) two] raised show ?case by blast
qed

lemma distinct_count_le: "distinct xs \<Longrightarrow> count_list xs k \<le> 1"
  by (induction xs) (auto simp: count_list_0_iff)

lemma run_inv_init:
  assumes "h2_config_init c = Inr c'" and "distinct (queued_ids ops)"
  shows "run_inv used 0 ops (h2_init c' w)"
  using assms acct_init [of c' w] h2_config_limits [OF assms(1)]
    distinct_count_le [OF assms(2)]
  by (simp add: run_inv_def known_def under_way_def h2_init_def response_ids_def)

section \<open>The configuration is fixed\<close>

lemma drop_stream_config: "h2_config (drop_stream sid s) = h2_config s"
  by (auto simp: drop_stream_def Let_def drop_outbound_fields release_inbound_fields split: prod.splits)

lemma reset_stream_config: "h2_config (reset_stream lib code sid s) = h2_config s"
  by (simp add: reset_stream_def drop_stream_config)

lemma capture_control_config: "capture_control lib s = (res, t) \<Longrightarrow> h2_config t = h2_config s"
  by (auto simp: capture_control_def Let_def split: prod.splits if_splits)

lemma handle_event_config: "handle_event lib ev s = (res, t) \<Longrightarrow> h2_config t = h2_config s"
  by (cases ev)
    (auto simp: handle_event_def request_received_def data_received_def stream_ended_def drop_stream_config
      reset_stream_config Let_def split: sum.splits prod.splits if_splits option.splits)

lemma handle_events_config: "handle_events lib evs s = (res, t) \<Longrightarrow> h2_config t = h2_config s"
  by (induction evs arbitrary: s) (auto dest: handle_event_config split: sum.splits prod.splits)

lemma receive_chunks_config: "receive_chunks lib chunks s = (res, t) \<Longrightarrow> h2_config t = h2_config s"
  by (induction chunks arbitrary: s)
    (auto dest!: handle_events_config capture_control_config split: sum.splits prod.splits)

lemma receive_data_config: "receive_data lib data s = (res, t) \<Longrightarrow> h2_config t = h2_config s"
  by (auto simp: receive_data_def dest!: receive_chunks_config split: sum.splits prod.splits if_splits)

lemma queue_response_config: "queue_response lib sid resp s = (res, t) \<Longrightarrow> h2_config t = h2_config s"
  by (auto simp: queue_response_def Let_def release_inbound_fields reset_stream_config split: if_splits)

lemma start_response_config: "h2_config (start_response lib sid resp s) = h2_config s"
  by (auto simp: start_response_def Let_def drop_stream_config reset_stream_config split: prod.splits if_splits)

lemma run_commands_config: "run_commands lib cmds s = (res, t) \<Longrightarrow> h2_config t = h2_config s"
  by (induction cmds arbitrary: s)
    (auto dest!: capture_control_config simp: start_response_config reset_stream_config
      split: sum.splits prod.splits option.splits)

lemma flush_one_config: "flush_one lib e out0 s = (res, t) \<Longrightarrow> h2_config t = h2_config s"
  by (auto simp: flush_one_def Let_def finish_outbound_def drop_stream_config
      split: prod.splits option.splits if_splits bool.splits)

lemma flush_streams_config: "flush_streams lib es out0 s = (res, t) \<Longrightarrow> h2_config t = h2_config s"
  by (induction es arbitrary: out0 s) (auto dest!: flush_one_config split: sum.splits prod.splits)

lemma h2_flush_config: "h2_flush lib s = (res, t) \<Longrightarrow> h2_config t = h2_config s"
  by (auto simp: h2_flush_def Let_def dest!: run_commands_config flush_streams_config
      split: sum.splits prod.splits if_splits)

lemma h2_close_config: "h2_config (snd (h2_close lib code s)) = h2_config s"
  by (auto simp: h2_close_def Let_def split: prod.splits)

lemma h2_apply_config: "h2_apply lib op s = (r, t) \<Longrightarrow> h2_config t = h2_config s"
  by (cases op)
    (auto simp: take_cancelled_def drop_stream_config h2_close_config
      dest!: receive_data_config h2_flush_config intro: queue_response_config [OF surjective_pairing] split: prod.splits)

lemma h2_run_config: "h2_run lib ops s = (r, t) \<Longrightarrow> h2_config t = h2_config s"
  by (induction ops arbitrary: s r) (auto dest: h2_apply_config split: prod.splits)

section \<open>The property\<close>

text \<open>C5. The memory of an HTTP/2 connection is bounded and accounted for. Whatever the peer sends,
  whatever hyper-h2 answers (short of reusing a stream id) and in whatever order the tasks of the
  connection read, queue at most one response per stream, drop, flush and close: the buffered request
  bytes are exactly the bodies held and stay inside \<open>max_connection_buffer_bytes\<close>, no body exceeds
  \<open>max_body_bytes\<close> or its declared length, at most \<open>max_concurrent_streams\<close> streams are active, output
  stays inside its two limits, and the pending output never counts less than the bytes held, and
  exactly those bytes as long as no operation has raised.\<close>

theorem h2_books_balanced:
  assumes "never_reuses lib used" and "h2_config_init c = Inr c'" and "distinct (queued_ids ops)"
    and "h2_run lib ops (h2_init c' w) = (raised, s)"
  shows "h2_config s = c \<and>
    buffered_request_bytes s = inbound_total (h2_inbound s) \<and>
    buffered_request_bytes s \<le> hc_max_connection_buffer_bytes (h2_config s) \<and>
    (\<forall>(sid, st) \<in> set (h2_inbound s). int (length (in_body st)) \<le> hc_max_body_bytes (h2_config s) \<and>
       (\<forall>n. in_expected st = Some n \<longrightarrow> length (in_body st) \<le> n)) \<and>
    int (active_stream_count s) \<le> hc_max_concurrent_streams (h2_config s) \<and>
    int (length (h2_control s)) \<le> hc_max_control_output_bytes (h2_config s) \<and>
    pending_output_bytes s \<le> hc_max_pending_output_bytes (h2_config s) \<and>
    outbound_total (h2_outbound s) + command_total (h2_commands s) \<le> h2_pending s \<and>
    (\<not> raised \<longrightarrow> h2_pending s = outbound_total (h2_outbound s) + command_total (h2_commands s))"
proof -
  from h2_run_inv [OF assms(1) run_inv_init [OF assms(2,3)] assms(4)] obtain l where
    "run_inv used l [] s" and "\<not> raised \<longrightarrow> l = 0" by auto
  moreover have "h2_config s = c"
    using h2_run_config [OF assms(4)] h2_config_limits [OF assms(2)] by (simp add: h2_init_def)
  ultimately show ?thesis
    by (auto simp: run_inv_def acct_def in_ok_def out_ok_def active_ok_def buffered_request_bytes_def
        active_stream_count_def pending_output_bytes_def algebra_simps)
qed

lemma demo_lib_fresh: "never_reuses demo_lib (\<lambda>(n, buf). if 2 \<le> n then {1} else {})"
  by (auto simp: never_reuses_def demo_lib_def)

text \<open>A request is read, answered with five bytes, and flushed under a window of three.\<close>

definition demo_ops :: "h2_op list" where
  "demo_ops = [Receive demo_input, Queue 1 demo_response, Flush]"

lemma demo_run: "h2_run demo_lib demo_ops (h2_init demo_config (0, [])) = (False, demo_flushed)"
  by (simp add: demo_ops_def demo_receive demo_queue [unfolded One_nat_def] demo_flush raises_def)

lemma h2_books_balanced_witness:
  "h2_pending demo_flushed = 2 \<and> h2_pending demo_flushed =
     outbound_total (h2_outbound demo_flushed) + command_total (h2_commands demo_flushed)"
proof -
  have "distinct (queued_ids demo_ops)" by (simp add: demo_ops_def)
  from h2_books_balanced [OF demo_lib_fresh demo_config_ok this demo_run] show ?thesis by (simp add: demo_flushed_def)
qed

end
