(* ===== verification/H2_Delivery.thy ===== *)
theory H2_Delivery
  imports H2_Runs
begin

text \<open>
  What the peer gets of a response: the calls \<open>H2Protocol\<close> makes on hyper-h2 for one stream are the
  header block of its response and then consecutive slices of the body, END_STREAM on the last one.
  The calls are observed by wrapping the library: \<open>logged lib\<close> behaves as \<open>lib\<close> and records what it
  accepted to send.
\<close>

section \<open>The observed library\<close>

datatype sent =
    SentHeaders nat "(pystr \<times> pystr) list" bool
  | SentData nat bytes bool

fun sent_id :: "sent \<Rightarrow> nat" where
  "sent_id (SentHeaders k fs fin) = k"
| "sent_id (SentData k bs fin) = k"

fun sent_last :: "sent \<Rightarrow> bool" where
  "sent_last (SentHeaders k fs fin) = fin"
| "sent_last (SentData k bs fin) = fin"

fun sent_bytes_of :: "sent \<Rightarrow> bytes" where
  "sent_bytes_of (SentHeaders k fs fin) = []"
| "sent_bytes_of (SentData k bs fin) = bs"

definition keeping :: "('w \<Rightarrow> 'r \<times> 'w) \<Rightarrow> 'w \<times> sent list \<Rightarrow> 'r \<times> ('w \<times> sent list)" where
  "keeping f wl = (case f (fst wl) of (r, w) \<Rightarrow> (r, (w, snd wl)))"

definition recording :: "sent \<Rightarrow> ('w \<Rightarrow> bool \<times> 'w) \<Rightarrow> 'w \<times> sent list \<Rightarrow> bool \<times> ('w \<times> sent list)" where
  "recording e f wl = (case f (fst wl) of (ok, w) \<Rightarrow> (ok, (w, if ok then snd wl @ [e] else snd wl)))"

definition logged :: "'w h2lib \<Rightarrow> ('w \<times> sent list) h2lib" where
  "logged lib =
     \<lparr>lib_receive = (\<lambda>chunk. keeping (lib_receive lib chunk)),
      lib_data_to_send = keeping (lib_data_to_send lib),
      lib_acknowledge = (\<lambda>flow sid. keeping (lib_acknowledge lib flow sid)),
      lib_reset = (\<lambda>sid code. keeping (lib_reset lib sid code)),
      lib_send_headers = (\<lambda>sid fs fin. recording (SentHeaders sid fs fin) (lib_send_headers lib sid fs fin)),
      lib_send_data = (\<lambda>sid bs fin. recording (SentData sid bs fin) (lib_send_data lib sid bs fin)),
      lib_window = (\<lambda>sid. keeping (lib_window lib sid)),
      lib_max_outbound = (\<lambda>wl. lib_max_outbound lib (fst wl)),
      lib_close = (\<lambda>code last. keeping (lib_close lib code last)),
      lib_initiate = (\<lambda>wl. (lib_initiate lib (fst wl), snd wl))\<rparr>"

definition stream_log :: "nat \<Rightarrow> sent list \<Rightarrow> sent list" where
  "stream_log k log = filter (\<lambda>e. sent_id e = k) log"

text \<open>The history of a stream on which the first \<open>n\<close> bytes of a response have been sent.\<close>

inductive history :: "nat \<Rightarrow> response \<Rightarrow> nat \<Rightarrow> sent list \<Rightarrow> bool" where
  head_sent: "history k r 0 [SentHeaders k (response_fields r) (resp_body r = [])]"
| slice_sent: "history k r n L \<Longrightarrow> 0 < m \<Longrightarrow> n + m \<le> length (resp_body r) \<Longrightarrow>
     history k r (n + m) (L @ [SentData k (take m (drop n (resp_body r))) (n + m = length (resp_body r))])"

lemma history_bytes: "history k r n L \<Longrightarrow> n \<le> length (resp_body r) \<and> concat (map sent_bytes_of L) = take n (resp_body r)"
  by (induction rule: history.induct) (simp_all add: take_add)

lemma history_not_Nil: "history k r n L \<Longrightarrow> L \<noteq> []"
  by (induction rule: history.induct) simp_all

lemma history_end: "history k r n L \<Longrightarrow> ((\<exists>e \<in> set L. sent_last e) \<longleftrightarrow> n = length (resp_body r))"
proof (induction rule: history.induct)
  case (slice_sent k r n L m)
  then show ?case by auto
qed simp

lemma stream_log_snoc:
  "stream_log k (log @ [e]) = (if sent_id e = k then stream_log k log @ [e] else stream_log k log)"
  by (simp add: stream_log_def)

section \<open>The invariant\<close>

text \<open>\<open>Q\<close> holds the responses queued so far; \<open>ids\<close> the streams that will get a response later, from commands
  taken out of the state or still to be queued.\<close>

definition delivery :: "(nat \<times> response) set \<Rightarrow> nat list \<Rightarrow> ('w \<times> sent list) h2_state \<Rightarrow> bool" where
  "delivery Q ids s =
     (let log = snd (h2_conn s); waiting = response_ids (h2_commands s) @ ids in
        dict_wf (h2_outbound s) \<and> distinct waiting \<and> (\<forall>k \<in> set waiting. stream_log k log = []) \<and>
        (\<forall>k r. (k, Some r) \<in> set (h2_commands s) \<longrightarrow> (k, r) \<in> Q) \<and>
        (\<forall>k ob. map_of (h2_outbound s) k = Some ob \<longrightarrow>
           (\<exists>r. (k, r) \<in> Q \<and> ob_body ob = resp_body r \<and> history k r (ob_offset ob) (stream_log k log))) \<and>
        (\<forall>k. stream_log k log = [] \<or> (\<exists>r n. (k, r) \<in> Q \<and> history k r n (stream_log k log))))"

text \<open>What the operations that send nothing do.\<close>

definition quieter :: "('w \<times> sent list) h2_state \<Rightarrow> ('w \<times> sent list) h2_state \<Rightarrow> bool" where
  "quieter s t = (snd (h2_conn t) = snd (h2_conn s) \<and> map_of (h2_outbound t) \<subseteq>\<^sub>m map_of (h2_outbound s) \<and>
     (dict_wf (h2_outbound s) \<longrightarrow> dict_wf (h2_outbound t)) \<and> (\<exists>P. h2_commands t = filter P (h2_commands s)))"

lemma response_ids_filter_eq: "response_ids (filter P cs) = map fst (filter P (filter (\<lambda>c. snd c \<noteq> None) cs))"
  by (simp add: response_ids_def filter_filter conj_commute)

lemma response_ids_filter_sub: "set (response_ids (filter P cs)) \<subseteq> set (response_ids cs)"
  by (auto simp: response_ids_def)

lemma distinct_filter_waiting: "distinct (response_ids cs @ ids) \<Longrightarrow> distinct (response_ids (filter P cs) @ ids)"
proof -
  assume d: "distinct (response_ids cs @ ids)"
  then have "distinct (map fst (filter (\<lambda>c. snd c \<noteq> None) cs))" by (simp add: response_ids_def)
  then have "distinct (response_ids (filter P cs))"
    unfolding response_ids_filter_eq by (rule distinct_map_filter)
  with d response_ids_filter_sub [of P cs] show ?thesis by auto
qed

lemma delivery_quieter:
  assumes "delivery Q ids s" and "quieter s t"
  shows "delivery Q ids t"
proof -
  from assms(2) obtain P where log: "snd (h2_conn t) = snd (h2_conn s)" and sub: "map_of (h2_outbound t) \<subseteq>\<^sub>m map_of (h2_outbound s)"
    and wf: "dict_wf (h2_outbound s) \<longrightarrow> dict_wf (h2_outbound t)"
    and cmds: "h2_commands t = filter P (h2_commands s)" by (auto simp: quieter_def)
  have out: "map_of (h2_outbound s) k = Some ob" if "map_of (h2_outbound t) k = Some ob" for k ob
    using sub that by (auto simp: map_le_def dom_def)
  show ?thesis
    using assms(1) wf distinct_filter_waiting [of "h2_commands s" ids P] response_ids_filter_sub [of P "h2_commands s"]
    unfolding delivery_def Let_def log cmds by (auto dest!: out)
qed

lemma quieter_refl: "quieter s s"
  by (auto simp: quieter_def intro: exI [of _ "\<lambda>_. True"])

lemma quieter_trans: "quieter s t \<Longrightarrow> quieter t u \<Longrightarrow> quieter s u"
  unfolding quieter_def by (metis (no_types, lifting) filter_filter map_le_trans)

section \<open>Operations that send nothing\<close>

lemma keeping_log: "keeping f wl = (r, wl') \<Longrightarrow> snd wl' = snd wl"
  by (auto simp: keeping_def split: prod.splits)

lemma logged_log:
  "lib_receive (logged lib) chunk wl = (r1, wl') \<Longrightarrow> snd wl' = snd wl"
  "lib_data_to_send (logged lib) wl = (r2, wl') \<Longrightarrow> snd wl' = snd wl"
  "lib_acknowledge (logged lib) flow sid wl = (r3, wl') \<Longrightarrow> snd wl' = snd wl"
  "lib_window (logged lib) sid wl = (r4, wl') \<Longrightarrow> snd wl' = snd wl"
  "snd (snd (lib_reset (logged lib) sid code wl)) = snd wl"
  "snd (snd (lib_close (logged lib) code lastid wl)) = snd wl"
  using keeping_log by (auto simp: logged_def keeping_def split: prod.splits)

lemma map_of_pop_le: "map_of (dict_pop k d) \<subseteq>\<^sub>m map_of d"
  by (simp add: map_le_def)

lemma quieter_updates:
  "quieter s (t\<lparr>h2_control := b\<rparr>) = quieter s t" "quieter s (t\<lparr>h2_pending := n\<rparr>) = quieter s t"
  "quieter s (t\<lparr>h2_inbound := d\<rparr>) = quieter s t" "quieter s (t\<lparr>h2_active := a\<rparr>) = quieter s t"
  "quieter s (t\<lparr>h2_buffered := n\<rparr>) = quieter s t" "quieter s (t\<lparr>h2_ready := rs\<rparr>) = quieter s t"
  "quieter s (t\<lparr>h2_frames := g\<rparr>) = quieter s t" "quieter s (t\<lparr>h2_cancelled := cs\<rparr>) = quieter s t"
  "quieter s (t\<lparr>h2_last_processed := i\<rparr>) = quieter s t" "quieter s (t\<lparr>h2_remote_closed := x\<rparr>) = quieter s t"
  by (simp_all add: quieter_def)

lemma quieter_conn: "snd w = snd (h2_conn s) \<Longrightarrow> quieter s (s\<lparr>h2_conn := w\<rparr>)"
  by (auto simp: quieter_def intro: exI [of _ "\<lambda>_. True"])

lemma release_inbound_quieter: "quieter s (release_inbound sid s)"
  by (auto simp: release_inbound_def quieter_refl quieter_updates split: option.splits)

lemma drop_stream_quieter: "quieter s (drop_stream sid s)"
  by (auto simp: quieter_def drop_stream_rest map_of_pop_le dict_wf_pop)

lemma drop_after_conn: "snd w = snd (h2_conn s) \<Longrightarrow> quieter s (drop_stream sid (s\<lparr>h2_conn := w\<rparr>))"
  by (rule quieter_trans [OF quieter_conn drop_stream_quieter])

lemma reset_stream_quieter: "quieter s (reset_stream (logged lib) code sid s)"
  unfolding reset_stream_def by (rule drop_after_conn) (simp add: logged_log)

lemma capture_control_quieter: "capture_control (logged lib) s = (res, t) \<Longrightarrow> quieter s t"
  using quieter_conn [OF logged_log(2)]
  by (auto simp: capture_control_def Let_def quieter_updates split: prod.splits if_splits)

lemma request_received_quieter: "quieter s (request_received (logged lib) sid raw s)"
  by (auto simp: request_received_def quieter_updates quieter_refl reset_stream_quieter split: sum.splits prod.splits)

lemma data_received_quieter:
  assumes "data_received (logged lib) sid data flow s = (res, t)" shows "quieter s t"
proof -
  obtain ok w where ack: "lib_acknowledge (logged lib) flow sid (h2_conn s) = (ok, w)"
    by (cases "lib_acknowledge (logged lib) flow sid (h2_conn s)")
  have one: "quieter s (s\<lparr>h2_conn := w\<rparr>)" using logged_log(3) [OF ack] by (rule quieter_conn)
  have "quieter s (reset_stream (logged lib) code sid (s\<lparr>h2_conn := w\<rparr>))" for code
    by (rule quieter_trans [OF one reset_stream_quieter])
  with one have "quieter s (snd (data_received (logged lib) sid data flow s))"
    by (simp add: data_received_def ack Let_def quieter_updates split: option.split)
  with assms show ?thesis by simp
qed

lemma stream_ended_quieter:
  assumes "stream_ended (logged lib) sid s = (res, t)" shows "quieter s t"
proof -
  have "quieter s (snd (stream_ended (logged lib) sid s))"
    by (simp add: stream_ended_def Let_def quieter_updates quieter_refl reset_stream_quieter split: option.split sum.split)
  with assms show ?thesis by simp
qed

lemma handle_event_quieter: "handle_event (logged lib) ev s = (res, t) \<Longrightarrow> quieter s t"
proof (cases ev)
  case (StreamReset sid)
  assume "handle_event (logged lib) ev s = (res, t)"
  with StreamReset have t: "t = drop_stream sid (s\<lparr>h2_cancelled := h2_cancelled s @ [sid]\<rparr>)" by (simp add: handle_event_def)
  show ?thesis unfolding t
    by (rule quieter_trans [OF _ drop_stream_quieter]) (simp add: quieter_updates quieter_refl)
next
  case (StreamEnded sid)
  assume run: "handle_event (logged lib) ev s = (res, t)"
  obtain r s1 where e: "stream_ended (logged lib) sid s = (r, s1)" by (cases "stream_ended (logged lib) sid s")
  with run StreamEnded have "t = s1 \<or> (\<exists>item. t = s1\<lparr>h2_ready := h2_ready s1 @ [item]\<rparr>)"
    by (auto simp: handle_event_def split: sum.splits option.splits)
  with stream_ended_quieter [OF e] show ?thesis by (auto simp: quieter_updates)
qed (auto simp: handle_event_def request_received_quieter reset_stream_quieter quieter_updates quieter_refl
    dest: data_received_quieter)

lemma handle_events_quieter: "handle_events (logged lib) evs s = (res, t) \<Longrightarrow> quieter s t"
proof (induction evs arbitrary: s)
  case Nil
  then show ?case by (simp add: quieter_refl)
next
  case (Cons ev evs)
  obtain r s1 where e: "handle_event (logged lib) ev s = (r, s1)" by (cases "handle_event (logged lib) ev s")
  note one = handle_event_quieter [OF e]
  from Cons.prems e one Cons.IH [of s1] quieter_trans [OF one] show ?case by (auto split: sum.splits)
qed

lemma receive_chunks_quieter: "receive_chunks (logged lib) chunks s = (res, t) \<Longrightarrow> quieter s t"
proof (induction chunks arbitrary: s)
  case Nil
  then show ?case by (simp add: quieter_refl)
next
  case (Cons chunk chunks)
  obtain r w where rc: "lib_receive (logged lib) chunk (h2_conn s) = (r, w)" by (cases "lib_receive (logged lib) chunk (h2_conn s)")
  have a: "quieter s (s\<lparr>h2_conn := w\<rparr>)" using logged_log(1) [OF rc] by (rule quieter_conn)
  show ?case
  proof (cases r)
    case (Inl e)
    with Cons.prems rc a show ?thesis by auto
  next
    case (Inr evs)
    obtain r1 s1 where he: "handle_events (logged lib) evs (s\<lparr>h2_conn := w\<rparr>) = (r1, s1)"
      by (cases "handle_events (logged lib) evs (s\<lparr>h2_conn := w\<rparr>)")
    obtain r2 s2 where cc: "capture_control (logged lib) s1 = (r2, s2)" by (cases "capture_control (logged lib) s1")
    note one = quieter_trans [OF a handle_events_quieter [OF he]]
    note two = quieter_trans [OF one capture_control_quieter [OF cc]]
    show ?thesis using Cons.prems rc Inr he cc one two Cons.IH [of s2] quieter_trans [OF two] by (auto split: sum.splits)
  qed
qed

lemma receive_data_quieter:
  assumes "receive_data (logged lib) data s = (res, t)" shows "quieter s t"
proof (cases "budget_feed (h2_frames s) data")
  case (Inl e)
  with assms show ?thesis by (auto simp: receive_data_def quieter_refl)
next
  case (Inr fr)
  obtain chunks fr1 where bt: "budget_take (nat (hc_reader_frame_batch_size (h2_config s))) fr = (chunks, fr1)"
    by (cases "budget_take (nat (hc_reader_frame_batch_size (h2_config s))) fr")
  obtain r s1 where rc: "receive_chunks (logged lib) chunks (s\<lparr>h2_frames := fr1\<rparr>) = (r, s1)"
    by (cases "receive_chunks (logged lib) chunks (s\<lparr>h2_frames := fr1\<rparr>)")
  have "quieter s (s\<lparr>h2_frames := fr1\<rparr>)" by (simp add: quieter_updates quieter_refl)
  note one = quieter_trans [OF this receive_chunks_quieter [OF rc]]
  show ?thesis
    using assms Inr bt rc one by (auto simp: receive_data_def quieter_updates split: sum.splits if_splits)
qed

section \<open>Operations that send\<close>

lemma delivery_fewer_ids:
  assumes "delivery Q (k # ids) s" shows "delivery Q ids s"
  using assms by (auto simp: delivery_def Let_def)

lemma delivery_outbound:
  "delivery Q ids s \<Longrightarrow> map_of (h2_outbound s) k = Some ob \<Longrightarrow>
     \<exists>r. (k, r) \<in> Q \<and> ob_body ob = resp_body r \<and> history k r (ob_offset ob) (stream_log k (snd (h2_conn s)))"
  by (simp add: delivery_def Let_def)

lemma delivery_waiting:
  "delivery Q ids s \<Longrightarrow> k \<in> set (response_ids (h2_commands s) @ ids) \<Longrightarrow> stream_log k (snd (h2_conn s)) = []"
  by (simp add: delivery_def Let_def)

lemma delivery_sends:
  assumes d: "delivery Q ids s" and away: "sid \<notin> set (response_ids (h2_commands s) @ ids)" and q: "(sid, r) \<in> Q"
    and log: "snd (h2_conn t) = snd (h2_conn s) @ [e]" and e: "sent_id e = sid"
    and hist: "history sid r n (stream_log sid (snd (h2_conn t)))" and cmds: "h2_commands t = h2_commands s"
    and wf: "dict_wf (h2_outbound s) \<Longrightarrow> dict_wf (h2_outbound t)"
    and out: "\<And>k ob. map_of (h2_outbound t) k = Some ob \<Longrightarrow>
      k = sid \<and> ob_body ob = resp_body r \<and> ob_offset ob = n \<or> k \<noteq> sid \<and> map_of (h2_outbound s) k = Some ob"
  shows "delivery Q ids t"
proof -
  have others: "stream_log k (snd (h2_conn t)) = stream_log k (snd (h2_conn s))" if "k \<noteq> sid" for k
    using that e by (simp add: log stream_log_snoc)
  show ?thesis
    unfolding delivery_def Let_def cmds
  proof (intro conjI allI ballI impI)
    show "dict_wf (h2_outbound t)" using d wf by (simp add: delivery_def Let_def)
    show "distinct (response_ids (h2_commands s) @ ids)" using d by (simp add: delivery_def Let_def)
    fix k assume k: "k \<in> set (response_ids (h2_commands s) @ ids)"
    with away have "k \<noteq> sid" by blast
    with k d others show "stream_log k (snd (h2_conn t)) = []" by (simp add: delivery_def Let_def)
  next
    fix k r' assume "(k, Some r') \<in> set (h2_commands s)"
    with d show "(k, r') \<in> Q" by (simp add: delivery_def Let_def)
  next
    fix k ob assume "map_of (h2_outbound t) k = Some ob"
    from out [OF this] show "\<exists>r. (k, r) \<in> Q \<and> ob_body ob = resp_body r \<and>
        history k r (ob_offset ob) (stream_log k (snd (h2_conn t)))"
    proof
      assume "k = sid \<and> ob_body ob = resp_body r \<and> ob_offset ob = n"
      with q hist show ?thesis by blast
    next
      assume other: "k \<noteq> sid \<and> map_of (h2_outbound s) k = Some ob"
      with d have "\<exists>r. (k, r) \<in> Q \<and> ob_body ob = resp_body r \<and>
          history k r (ob_offset ob) (stream_log k (snd (h2_conn s)))" by (simp add: delivery_def Let_def)
      with other others show ?thesis by simp
    qed
  next
    fix k
    show "stream_log k (snd (h2_conn t)) = [] \<or> (\<exists>r n. (k, r) \<in> Q \<and> history k r n (stream_log k (snd (h2_conn t))))"
    proof (cases "k = sid")
      case True
      with q hist show ?thesis by blast
    next
      case False
      with d others show ?thesis by (simp add: delivery_def Let_def)
    qed
  qed
qed

lemma start_response_delivery:
  assumes d: "delivery Q (sid # ids) s" and q: "(sid, resp) \<in> Q"
  shows "delivery Q ids (start_response (logged lib) sid resp s)"
proof -
  note rest = delivery_fewer_ids [OF d]
  obtain ok w where sh: "lib_send_headers (logged lib) sid (response_fields resp) (resp_body resp = []) (h2_conn s) = (ok, w)"
    by (cases "lib_send_headers (logged lib) sid (response_fields resp) (resp_body resp = []) (h2_conn s)")
  then have log: "snd w = (if ok then snd (h2_conn s) @ [SentHeaders sid (response_fields resp) (resp_body resp = [])] else snd (h2_conn s))"
    by (auto simp: logged_def recording_def split: prod.splits)
  have empty: "stream_log sid (snd (h2_conn s)) = []" and away: "sid \<notin> set (response_ids (h2_commands s) @ ids)"
    using d by (auto simp: delivery_def Let_def)
  show ?thesis
  proof (cases "fields_size (response_fields resp) > hc_max_header_bytes (h2_config s)")
    case True
    have "quieter s (s\<lparr>h2_pending := h2_pending s - int (length (resp_body resp))\<rparr>)"
      by (simp add: quieter_updates quieter_refl)
    from delivery_quieter [OF rest quieter_trans [OF this reset_stream_quieter]] True show ?thesis
      by (simp add: start_response_def Let_def)
  next
    case fits: False
    show ?thesis
    proof (cases ok)
      case False
      with log have "quieter s (s\<lparr>h2_conn := w, h2_pending := h2_pending s - int (length (resp_body resp))\<rparr>)"
        using quieter_conn [of w s] by (simp add: quieter_updates)
      from delivery_quieter [OF rest quieter_trans [OF this drop_stream_quieter]] fits sh False show ?thesis
        by (simp add: start_response_def Let_def)
    next
      case True
      have begun: "history sid resp 0 (stream_log sid (snd w))"
        using log True by (simp add: stream_log_snoc empty head_sent)
      have no_entry: "map_of (h2_outbound s) sid = None"
      proof (cases "map_of (h2_outbound s) sid")
        case (Some ob)
        from delivery_outbound [OF d this] empty history_not_Nil show ?thesis by auto
      qed
      have out: "k = sid \<and> ob_body ob = resp_body resp \<and> ob_offset ob = 0 \<or> k \<noteq> sid \<and> map_of (h2_outbound s) k = Some ob"
        if "map_of obs k = Some ob" and "map_of obs = map_of (h2_outbound s) \<or>
          map_of obs = (map_of (h2_outbound s))(sid \<mapsto> \<lparr>ob_body = resp_body resp, ob_offset = 0\<rparr>)" for obs k ob
      proof (cases "k = sid")
        case True
        with that no_entry show ?thesis by (elim disjE) auto
      next
        case False
        with that show ?thesis by (elim disjE) simp_all
      qed
      have base: "delivery Q ids (s\<lparr>h2_conn := w, h2_outbound := obs, h2_active := act\<rparr>)"
        if "map_of obs = map_of (h2_outbound s) \<or>
          map_of obs = (map_of (h2_outbound s))(sid \<mapsto> \<lparr>ob_body = resp_body resp, ob_offset = 0\<rparr>)"
          and "dict_wf (h2_outbound s) \<Longrightarrow> dict_wf obs" for obs act
      proof (rule delivery_sends [OF rest away q, where n = 0 and e = "SentHeaders sid (response_fields resp) (resp_body resp = [])"])
        show "snd (h2_conn (s\<lparr>h2_conn := w, h2_outbound := obs, h2_active := act\<rparr>)) =
            snd (h2_conn s) @ [SentHeaders sid (response_fields resp) (resp_body resp = [])]" using log True by simp
        show "\<And>k ob. map_of (h2_outbound (s\<lparr>h2_conn := w, h2_outbound := obs, h2_active := act\<rparr>)) k = Some ob \<Longrightarrow>
            k = sid \<and> ob_body ob = resp_body resp \<and> ob_offset ob = 0 \<or> k \<noteq> sid \<and> map_of (h2_outbound s) k = Some ob"
          using out that(1) by simp
      qed (simp_all add: begun that(2))
      show ?thesis
        using fits sh True base [of "h2_outbound s" "removeAll sid (h2_active s)"]
          base [of "dict_set sid \<lparr>ob_body = resp_body resp, ob_offset = 0\<rparr> (h2_outbound s)" "h2_active s"]
        by (simp add: start_response_def Let_def dict_wf_set)
    qed
  qed
qed

lemma run_commands_delivery:
  "delivery Q (response_ids cmds @ ids) s \<Longrightarrow> \<forall>k r. (k, Some r) \<in> set cmds \<longrightarrow> (k, r) \<in> Q \<Longrightarrow>
     run_commands (logged lib) cmds s = (res, t) \<Longrightarrow> delivery Q ids t"
proof (induction cmds arbitrary: s)
  case Nil
  then show ?case by (simp add: response_ids_def)
next
  case (Cons cmd cmds)
  obtain sid r where c: "cmd = (sid, r)" by (cases cmd)
  define s1 where "s1 = (case r of None \<Rightarrow> reset_stream (logged lib) ENHANCE_YOUR_CALM sid s | Some resp \<Rightarrow> start_response (logged lib) sid resp s)"
  obtain r2 s2 where cc: "capture_control (logged lib) s1 = (r2, s2)" by (cases "capture_control (logged lib) s1")
  have one: "delivery Q (response_ids cmds @ ids) s1"
  proof (cases r)
    case None
    then have "delivery Q (response_ids cmds @ ids) s" using Cons.prems(1) c by (simp add: response_ids_def)
    from delivery_quieter [OF this reset_stream_quieter] None show ?thesis by (simp add: s1_def)
  next
    case (Some resp)
    then have "delivery Q (sid # response_ids cmds @ ids) s" using Cons.prems(1) c by (simp add: response_ids_def)
    moreover have "(sid, resp) \<in> Q" using Cons.prems(2) c Some by simp
    ultimately show ?thesis using start_response_delivery Some by (simp add: s1_def)
  qed
  have two: "delivery Q (response_ids cmds @ ids) s2" by (rule delivery_quieter [OF one capture_control_quieter [OF cc]])
  show ?case
  proof (cases r2)
    case (Inl e)
    with Cons.prems(3) c cc have "t = s2" by (simp add: s1_def)
    moreover have "delivery Q ids s2"
      using two unfolding delivery_def Let_def by auto
    ultimately show ?thesis by simp
  next
    case (Inr u)
    with Cons.prems(3) c cc have "run_commands (logged lib) cmds s2 = (res, t)" by (simp add: s1_def)
    with Cons.IH [OF two] Cons.prems(2) show ?thesis by simp
  qed
qed

lemma finish_outbound_quieter: "quieter s (finish_outbound sid s)"
  by (auto simp: quieter_def finish_outbound_def map_le_def intro: dict_wf_pop exI [of _ "\<lambda>_. True"])

lemma flush_one_delivery:
  assumes d: "delivery Q ids s" and ob: "map_of (h2_outbound s) sid = Some ob"
    and run: "flush_one (logged lib) (sid, ob) out0 s = (res, t)"
  shows "delivery Q ids t"
  using run
proof (cases rule: flush_one_cases)
  case finished
  with delivery_quieter [OF d finish_outbound_quieter] show ?thesis by simp
next
  case (no_window w)
  with delivery_quieter [OF d drop_after_conn [OF logged_log(4)]] show ?thesis by simp
next
  case (blocked window w)
  with delivery_quieter [OF d quieter_conn [OF logged_log(4)]] show ?thesis by simp
next
  case (refused n w2)
  then have "snd w2 = snd (h2_conn s)"
    using logged_log(4) by (force simp: flush_sends_def logged_def recording_def keeping_def split: prod.splits if_splits)
  from delivery_quieter [OF d drop_after_conn [OF this]] refused(2) show ?thesis by simp
next
  case (sent n w2 generated w3)
  from delivery_outbound [OF d ob] obtain r where q: "(sid, r) \<in> Q" and body: "ob_body ob = resp_body r"
    and hist: "history sid r (ob_offset ob) (stream_log sid (snd (h2_conn s)))" by blast
  let ?e = "SentData sid (take n (drop (ob_offset ob) (resp_body r))) (ob_offset ob + n = length (resp_body r))"
  from sent(1) have n: "0 < n" "int n \<le> outbound_left ob" by (auto simp: flush_sends_def)
  then have fits: "ob_offset ob + n \<le> length (resp_body r)" by (simp add: outbound_left_def body)
  have fin: "int n = outbound_left ob \<longleftrightarrow> ob_offset ob + n = length (resp_body r)"
    using fits by (auto simp: outbound_left_def body)
  have "snd w2 = snd (h2_conn s) @ [?e]"
    using sent(1) unfolding flush_sends_def fin body
    by (auto simp: logged_def recording_def keeping_def split: prod.splits if_splits)
  with logged_log(2) [OF sent(2)] have log: "snd w3 = snd (h2_conn s) @ [?e]" by simp
  with history.slice_sent [OF hist n(1) fits] have hist': "history sid r (ob_offset ob + n) (stream_log sid (snd w3))"
    by (simp add: stream_log_snoc)
  have away: "sid \<notin> set (response_ids (h2_commands s) @ ids)"
    using delivery_waiting [OF d] history_not_Nil [OF hist] by blast
  have "delivery Q ids (sent_bytes sid ob n w3 s)"
    by (rule delivery_sends [OF d away q, where e = ?e and n = "ob_offset ob + n"])
      (auto simp: sent_bytes_def log hist' [unfolded log] body intro: dict_wf_set split: if_splits)
  with sent(3) delivery_quieter [OF _ finish_outbound_quieter] show ?thesis by blast
qed

lemma flush_one_others:
  assumes run: "flush_one lib (sid, ob) out0 s = (res, t)" and k: "k \<noteq> sid"
  shows "map_of (h2_outbound t) k = map_of (h2_outbound s) k"
  using run k by (cases rule: flush_one_cases) (auto simp: finish_outbound_def drop_stream_rest sent_bytes_def)

lemma flush_streams_delivery:
  "delivery Q ids s \<Longrightarrow> distinct (map fst entries) \<Longrightarrow>
     \<forall>(sid, ob) \<in> set entries. map_of (h2_outbound s) sid = Some ob \<Longrightarrow>
     flush_streams (logged lib) entries out0 s = (res, t) \<Longrightarrow> delivery Q ids t"
proof (induction entries arbitrary: out0 s)
  case Nil
  then show ?case by simp
next
  case (Cons entry entries)
  obtain sid ob where e: "entry = (sid, ob)" by (cases entry)
  obtain r s1 where one: "flush_one (logged lib) (sid, ob) out0 s = (r, s1)" by (cases "flush_one (logged lib) (sid, ob) out0 s")
  have "map_of (h2_outbound s) sid = Some ob" using Cons.prems(3) e by simp
  note ok = flush_one_delivery [OF Cons.prems(1) this one]
  show ?case
  proof (cases r)
    case (Inl err)
    with Cons.prems(4) one e ok show ?thesis by simp
  next
    case (Inr out1)
    with Cons.prems(4) one e have rest: "flush_streams (logged lib) entries out1 s1 = (res, t)" by simp
    have "\<forall>(k, ob) \<in> set entries. map_of (h2_outbound s1) k = Some ob"
    proof (clarify)
      fix k ob' assume m: "(k, ob') \<in> set entries"
      with Cons.prems(2) e have "k \<noteq> sid" by (auto simp: image_iff)
      moreover have "map_of (h2_outbound s) k = Some ob'" using Cons.prems(3) m by auto
      ultimately show "map_of (h2_outbound s1) k = Some ob'" using flush_one_others [OF one] by simp
    qed
    from Cons.IH [OF ok _ this rest] Cons.prems(2) show ?thesis by simp
  qed
qed

lemma h2_flush_delivery:
  assumes d: "delivery Q ids s" and run: "h2_flush (logged lib) s = (res, t)"
  shows "delivery Q ids t"
proof -
  let ?s = "s\<lparr>h2_commands := []\<rparr>"
  have d0: "delivery Q (response_ids (h2_commands s) @ ids) ?s"
    and q: "\<forall>k r. (k, Some r) \<in> set (h2_commands s) \<longrightarrow> (k, r) \<in> Q"
    using d by (simp_all add: delivery_def Let_def response_ids_def)
  obtain r s1 where rc: "run_commands (logged lib) (h2_commands s) ?s = (r, s1)"
    by (cases "run_commands (logged lib) (h2_commands s) ?s")
  note d1 = run_commands_delivery [OF d0 q rc]
  show ?thesis
  proof (cases r)
    case (Inl e)
    with run rc d1 show ?thesis by (simp add: h2_flush_def)
  next
    case (Inr u)
    let ?s1 = "s1\<lparr>h2_control := []\<rparr>"
    have d1': "delivery Q ids ?s1" using d1 by (simp add: delivery_def)
    have wf: "dict_wf (h2_outbound s1)" using d1 by (simp add: delivery_def Let_def)
    obtain r2 s2 where fs: "flush_streams (logged lib) (h2_outbound s1) (h2_control s1) ?s1 = (r2, s2)"
      by (cases "flush_streams (logged lib) (h2_outbound s1) (h2_control s1) ?s1")
    have d2: "delivery Q ids s2"
      by (rule flush_streams_delivery [OF d1' _ _ fs]) (use wf in \<open>auto simp: dict_wf_def\<close>)
    obtain generated w where produced: "lib_data_to_send (logged lib) (h2_conn s2) = (generated, w)"
      by (cases "lib_data_to_send (logged lib) (h2_conn s2)")
    have d3: "delivery Q ids (s2\<lparr>h2_conn := w\<rparr>)"
      by (rule delivery_quieter [OF d2 quieter_conn [OF logged_log(2) [OF produced]]])
    have "t = s2 \<or> t = s2\<lparr>h2_conn := w\<rparr>"
      using run rc Inr fs produced by (auto simp: h2_flush_def Let_def split: sum.splits if_splits)
    with d2 d3 show ?thesis by auto
  qed
qed

lemma queue_response_delivery:
  assumes d: "delivery Q (sid # ids) s"
  shows "delivery (insert (sid, resp) Q) ids (snd (queue_response (logged lib) sid resp s))"
proof -
  have more: "delivery (insert (sid, resp) Q) ids' u" if "delivery Q ids' u" for ids' u
    using that unfolding delivery_def Let_def by blast
  have released: "delivery Q (sid # ids) (release_inbound sid s)"
    by (rule delivery_quieter [OF d release_inbound_quieter])
  let ?s = "release_inbound sid s"
  have queued: "delivery (insert (sid, resp) Q) ids (?s\<lparr>h2_pending := n, h2_commands := h2_commands ?s @ [(sid, Some resp)]\<rparr>)" for n
    using more [OF released] by (auto simp: delivery_def Let_def response_ids_def)
  have refused: "delivery Q ids (?s\<lparr>h2_commands := h2_commands ?s @ [(sid, None)]\<rparr>)"
    using delivery_fewer_ids [OF released] by (simp add: delivery_def Let_def response_ids_def)
  have reset: "delivery Q ids (reset_stream (logged lib) ENHANCE_YOUR_CALM sid ?s)"
    by (rule delivery_quieter [OF delivery_fewer_ids [OF released] reset_stream_quieter])
  show ?thesis
    using more [OF delivery_fewer_ids [OF d]] more [OF delivery_fewer_ids [OF released]] more [OF refused] more [OF reset] queued
    by (simp add: queue_response_def Let_def)
qed

lemma h2_close_quieter: "quieter s (snd (h2_close (logged lib) code s))"
proof -
  define s1 where "s1 = (if h2_local_closed s then s
      else s\<lparr>h2_local_closed := True, h2_conn := snd (lib_close (logged lib) code (h2_last_processed s) (h2_conn s))\<rparr>)"
  obtain generated w where produced: "lib_data_to_send (logged lib) (h2_conn s1) = (generated, w)"
    by (cases "lib_data_to_send (logged lib) (h2_conn s1)")
  have "snd w = snd (h2_conn s)"
    using logged_log(2) [OF produced] by (simp add: s1_def logged_log(6))
  moreover have "h2_conn (snd (h2_close (logged lib) code s)) = w" "h2_outbound (snd (h2_close (logged lib) code s)) = []"
    "h2_commands (snd (h2_close (logged lib) code s)) = []"
    using produced by (simp_all add: h2_close_def s1_def [symmetric] Let_def)
  ultimately show ?thesis by (auto simp: quieter_def dict_wf_def intro: exI [of _ "\<lambda>_. False"])
qed

section \<open>The property\<close>

definition queued_of :: "h2_op list \<Rightarrow> (nat \<times> response) set" where
  "queued_of ops = {(k, r). Queue k r \<in> set ops}"

lemma queued_of_simps:
  "queued_of [] = {}" "queued_of (Queue k r # ops) = insert (k, r) (queued_of ops)"
  "\<not> (\<exists>k r. op = Queue k r) \<Longrightarrow> queued_of (op # ops) = queued_of ops"
  by (auto simp: queued_of_def)

lemma h2_run_delivery:
  "delivery Q (queued_ids ops) s \<Longrightarrow> h2_run (logged lib) ops s = (raised, t) \<Longrightarrow> delivery (Q \<union> queued_of ops) [] t"
proof (induction ops arbitrary: Q s raised)
  case Nil
  then show ?case by (simp add: queued_of_simps)
next
  case (Cons op ops)
  obtain r1 s1 where one: "h2_apply (logged lib) op s = (r1, s1)" by (cases "h2_apply (logged lib) op s")
  obtain r2 where rest: "h2_run (logged lib) ops s1 = (r2, t)"
    using Cons.prems(2) one by (auto split: prod.splits)
  show ?case
  proof (cases "\<exists>k r. op = Queue k r")
    case True
    then obtain k r where op: "op = Queue k r" by blast
    then have "delivery (insert (k, r) Q) (queued_ids ops) s1"
      using queue_response_delivery [of Q k "queued_ids ops" s r lib] Cons.prems(1) one by auto
    from Cons.IH [OF this rest] op show ?thesis by (simp add: queued_of_simps)
  next
    case False
    then have ids: "queued_ids (op # ops) = queued_ids ops" by (cases op) auto
    with Cons.prems(1) have d: "delivery Q (queued_ids ops) s" by simp
    have "delivery Q (queued_ids ops) s1"
    proof (cases op)
      case Flush
      with one h2_flush_delivery [OF d] show ?thesis by (auto split: prod.splits)
    next
      case (Receive data)
      with one delivery_quieter [OF d receive_data_quieter] show ?thesis by (auto split: prod.splits)
    next
      case TakeCancelled
      with one d show ?thesis by (auto simp: take_cancelled_def delivery_def)
    qed (use False one delivery_quieter [OF d drop_stream_quieter] delivery_quieter [OF d h2_close_quieter] in auto)
    from Cons.IH [OF this rest] False show ?thesis by (simp add: queued_of_simps(3))
  qed
qed

text \<open>C4. A stream delivers its response and nothing else. Under any library, any traffic and any order of
  operations that queues at most one response per stream: what \<open>H2Protocol\<close> has had the library send on a
  stream is nothing, or the header block of the response queued for that stream followed by consecutive
  non-empty slices of its body, without gap, repetition or bytes of another response, and END_STREAM
  has been set exactly when the whole body has been sent.\<close>

theorem h2_delivers_responses:
  assumes "distinct (queued_ids ops)" and "h2_run (logged lib) ops (h2_init c (w, [])) = (raised, s)"
  shows "stream_log k (snd (h2_conn s)) = [] \<or>
    (\<exists>r n. Queue k r \<in> set ops \<and> history k r n (stream_log k (snd (h2_conn s))) \<and>
       concat (map sent_bytes_of (stream_log k (snd (h2_conn s)))) = take n (resp_body r) \<and>
       ((\<exists>e \<in> set (stream_log k (snd (h2_conn s))). sent_last e) \<longleftrightarrow> n = length (resp_body r)))"
proof -
  have "delivery {} (queued_ids ops) (h2_init c (w, []))"
    using assms(1) by (simp add: delivery_def h2_init_def response_ids_def stream_log_def dict_wf_def)
  from h2_run_delivery [OF this assms(2)]
  have "stream_log k (snd (h2_conn s)) = [] \<or>
      (\<exists>r n. (k, r) \<in> queued_of ops \<and> history k r n (stream_log k (snd (h2_conn s))))"
    by (simp add: delivery_def Let_def)
  then show ?thesis using history_bytes history_end by (fastforce simp: queued_of_def)
qed

lemma h2_delivers_responses_witness:
  "distinct (queued_ids demo_ops) \<and>
   (\<forall>k. stream_log k (snd (h2_conn (snd (h2_run (logged demo_lib) demo_ops (h2_init demo_config ((0, []), [])))))) = [] \<or>
      k = 1)"
proof (intro conjI allI)
  show d: "distinct (queued_ids demo_ops)" by (simp add: demo_ops_def)
  fix k
  let ?run = "h2_run (logged demo_lib) demo_ops (h2_init demo_config ((0, []), []))"
  have "?run = (fst ?run, snd ?run)" by simp
  from h2_delivers_responses [OF d this, of k]
  show "stream_log k (snd (h2_conn (snd ?run))) = [] \<or> k = 1" by (auto simp: demo_ops_def)
qed

end
