(* ===== verification/H2_Requests.thy ===== *)
theory H2_Requests
  imports H2_Runs
begin

text \<open>
  What \<open>H2Protocol\<close> hands to the application: every request that \<open>receive_data\<close> returns, in any run,
  has passed the header checks of \<open>_decode_request_headers\<close>, and its body has the declared length.
\<close>

section \<open>The header checks\<close>

definition regular_ok :: "pystr \<times> pystr \<Rightarrow> bool" where
  "regular_ok e = (py_lower (fst e) = fst e \<and> fst e \<notin> set forbidden_headers \<and>
     (fst e = lit ''te'' \<longrightarrow> py_lower (snd e) = lit ''trailers''))"

lemma decode_loop_regular:
  "decode_loop c raw d = Inr d' \<Longrightarrow> list_all regular_ok (dec_regular d) \<Longrightarrow> list_all regular_ok (dec_regular d')"
proof (induction raw arbitrary: d)
  case (Cons field raw)
  obtain nm v where f: "field = (nm, v)" by (cases field)
  from Cons.prems(1) f obtain d1 where rest: "decode_loop c raw d1 = Inr d'"
    and "dec_regular d1 = dec_regular d \<or>
      dec_regular d1 = dec_regular d @ [(nm, v)] \<and> nm = py_lower nm \<and> py_lower nm \<notin> set forbidden_headers \<and>
        (py_lower nm = lit ''te'' \<longrightarrow> py_lower v = lit ''trailers'')"
    by (auto simp: Let_def split: option.splits if_splits)
  then have "list_all regular_ok (dec_regular d1)" using Cons.prems(2) by (auto simp: regular_ok_def [of "(nm, v)"])
  with Cons.IH [OF rest] show ?case by simp
qed simp

text \<open>What the application may rely on in the head of a request.\<close>

definition head_fields_ok :: "h2_config \<Rightarrow> pystr \<Rightarrow> pystr \<Rightarrow> headers \<Rightarrow> nat option \<Rightarrow> bool" where
  "head_fields_ok c m p h cl =
     (is_token m \<and> m \<noteq> lit ''CONNECT'' \<and>
      starts_with (lit ''/'') p \<and> 35 \<notin> set p \<and> list_all path_char p \<and>
      headers_wf h \<and> headers_get h (lit ''host'') \<noteq> None \<and>
      (\<forall>f \<in> set forbidden_headers. headers_get h f = None) \<and>
      (\<forall>v. headers_get h (lit ''te'') = Some v \<longrightarrow> py_lower v = lit ''trailers'') \<and>
      h2_content_length c h = Inr cl)"

lemma lower_fixed:
  "f \<in> set forbidden_headers \<Longrightarrow> py_lower f = f" "py_lower (lit ''te'') = lit ''te''" "py_lower (lit ''host'') = lit ''host''"
  "py_lower (lit ''cookie'') = lit ''cookie''"
  by (auto simp: forbidden_headers_def py_lower_def lower1_def py_text)

lemma special_names:
  "lit ''host'' \<notin> set forbidden_headers" "lit ''cookie'' \<notin> set forbidden_headers"
  "lit ''host'' \<noteq> lit ''te''" "lit ''cookie'' \<noteq> lit ''te''"
  by (simp_all add: forbidden_headers_def py_text)

lemma regular_headers:
  assumes h: "headers_init items = Inr h" and ok: "list_all regular_ok items"
  shows "(\<forall>f \<in> set forbidden_headers. headers_get h f = None) \<and>
    (\<forall>v. headers_get h (lit ''te'') = Some v \<longrightarrow> py_lower v = lit ''trailers'')"
proof -
  note wf = headers_init_wf [OF h] and eq = headers_init_items [OF h]
  have "headers_get h f = None" if "f \<in> set forbidden_headers" for f
    using ok that by (auto simp: headers_get_None_iff [OF wf] eq list_all_iff regular_ok_def lower_fixed)
  moreover have "py_lower v = lit ''trailers''" if "headers_get h (lit ''te'') = Some v" for v
    using ok that by (auto simp: headers_get_Some_iff [OF wf] eq list_all_iff regular_ok_def lower_fixed)
  ultimately show ?thesis by blast
qed

lemma decode_request_headers_ok:
  assumes "decode_request_headers c raw = Inr (m, p, h, cl)"
  shows "head_fields_ok c m p h cl"
proof -
  obtain d where loop: "decode_loop c raw \<lparr>dec_size = 0, dec_pseudo = [], dec_regular = [], dec_cookies = [], dec_seen_regular = False\<rparr> = Inr d"
    using assms by (auto simp: decode_request_headers_def bind_sum_Inr_iff split: if_splits)
  have regular: "list_all regular_ok (dec_regular d)" using decode_loop_regular [OF loop] by simp
  define authority where "authority = pseudo_get d (lit '':authority'')"
  define items where "items = dec_regular d @ (if authority \<noteq> [] then [(lit ''host'', authority)] else [])
      @ (if dec_cookies d \<noteq> [] then [(lit ''cookie'', join_with (lit ''; '') (dec_cookies d))] else [])"
  from assms loop have facts: "m \<noteq> []" "list_all h2_method_char m" "m = pseudo_get d (lit '':method'')"
    "map_of (dec_pseudo d) (lit '':method'') \<noteq> Some (lit ''CONNECT'')" "starts_with (lit ''/'') p" "35 \<notin> set p"
    "list_all path_char p" "authority \<noteq> [] \<or> lit ''host'' \<in> fst ` set (dec_regular d)"
    "headers_init items = Inr h" "h2_content_length c h = Inr cl"
    unfolding authority_def items_def
    by (auto simp: decode_request_headers_def bind_sum_Inr_iff Let_def split: if_splits)
  have "list_all regular_ok items"
    using regular by (auto simp: items_def regular_ok_def lower_fixed special_names)
  note special = regular_headers [OF facts(9) this]
  have "m \<noteq> lit ''CONNECT''" using facts(3,4) by (auto simp: pseudo_get_def py_text split: option.splits)
  moreover have "is_token m"
    using facts(1,2) by (simp add: is_token_def h2_method_char_def list_all_iff)
  moreover have "lit ''host'' \<in> fst ` set items" using facts(8) by (auto simp: items_def)
  then have "headers_get h (lit ''host'') \<noteq> None"
    using headers_get_Some_iff [OF headers_init_wf [OF facts(9)], of "lit ''host''"] headers_init_items [OF facts(9)]
    by (force simp: lower_fixed)
  ultimately show ?thesis
    using special facts headers_init_wf [OF facts(9)] by (simp add: head_fields_ok_def)
qed

section \<open>The requests held\<close>

definition inbound_good :: "h2_config \<Rightarrow> inbound \<Rightarrow> bool" where
  "inbound_good c st = (head_fields_ok c (in_method st) (in_path st) (in_headers st) (in_expected st) \<and>
     int (length (in_body st)) \<le> hc_max_body_bytes c)"

definition request_good :: "h2_config \<Rightarrow> request \<Rightarrow> bool" where
  "request_good c r = (request_wf r \<and> req_version r = lit ''HTTP/2'' \<and>
     (\<exists>cl. head_fields_ok c (req_method r) (req_raw_target r) (req_headers r) cl \<and>
        (\<forall>n. cl = Some n \<longrightarrow> length (req_body r) = n)) \<and>
     int (length (req_body r)) \<le> hc_max_body_bytes c)"

definition requests_ok :: "'w h2_state \<Rightarrow> bool" where
  "requests_ok s = (0 < hc_max_body_bytes (h2_config s) \<and>
     (\<forall>e \<in> set (h2_inbound s). inbound_good (h2_config s) (snd e)) \<and>
     (\<forall>e \<in> set (h2_ready s). request_good (h2_config s) (snd e)))"

definition fewer :: "'w h2_state \<Rightarrow> 'w h2_state \<Rightarrow> bool" where
  "fewer s t = (h2_config t = h2_config s \<and> set (h2_inbound t) \<subseteq> set (h2_inbound s) \<and> set (h2_ready t) \<subseteq> set (h2_ready s))"

lemma requests_fewer: "requests_ok s \<Longrightarrow> fewer s t \<Longrightarrow> requests_ok t"
  by (auto simp: requests_ok_def fewer_def)

lemma fewer_trans: "fewer s t \<Longrightarrow> fewer t u \<Longrightarrow> fewer s u"
  by (auto simp: fewer_def)

lemma release_inbound_ready: "h2_ready (release_inbound sid s) = h2_ready s"
  by (auto simp: release_inbound_def split: option.splits)

lemma drop_outbound_ready: "h2_ready (drop_outbound sid s) = h2_ready s"
  by (auto simp: drop_outbound_def split: option.splits)

lemma drop_stream_requests:
  "h2_inbound (drop_stream sid s) = dict_pop sid (h2_inbound s)"
  "h2_ready (drop_stream sid s) = filter (\<lambda>item. fst item \<noteq> sid) (h2_ready s)"
  by (auto simp: drop_stream_def Let_def drop_outbound_fields drop_outbound_ready release_inbound_fields
      release_inbound_ready split: prod.splits)

lemma drop_stream_fewer: "fewer s (drop_stream sid s)"
  by (auto simp: fewer_def drop_stream_config drop_stream_requests set_dict_pop)

lemma reset_stream_fewer: "fewer s (reset_stream lib code sid s)"
  using drop_stream_fewer [of "s\<lparr>h2_conn := w\<rparr>" sid for w] unfolding reset_stream_def by (simp add: fewer_def)

lemma capture_control_fewer: "capture_control lib s = (res, t) \<Longrightarrow> fewer s t"
  by (auto simp: capture_control_def fewer_def Let_def split: prod.splits if_splits)

lemma request_init_good:
  assumes "head_fields_ok c m p h cl" and "\<forall>n. cl = Some n \<longrightarrow> length b = n" and "int (length b) \<le> hc_max_body_bytes c"
  shows "\<exists>r. request_init m p h b (lit ''HTTP/2'') None [] [] None = Inr r \<and> request_good c r"
proof -
  have slash: "starts_with (lit ''/'') p" and tok: "is_token m" and wf: "headers_wf h"
    using assms(1) by (simp_all add: head_fields_ok_def)
  obtain tp sep tq where parts: "partition_at 63 p = (tp, sep, tq)" by (cases "partition_at 63 p") auto
  have "starts_with (lit ''/'') tp"
    using slash parts partition_at_eq [of 63 p] by (cases p) (auto simp: starts_with_def py_text)
  then have "\<exists>r. request_init m p h b (lit ''HTTP/2'') None [] [] None = Inr r \<and> req_raw_target r = p"
    using slash tok parts by (simp add: request_init_def Let_def)
  then obtain r where r: "request_init m p h b (lit ''HTTP/2'') None [] [] None = Inr r" "req_raw_target r = p" by blast
  note sel = request_init_fields [OF r(1)] r(2)
  have "\<exists>cl. head_fields_ok c (req_method r) (req_raw_target r) (req_headers r) cl \<and>
      (\<forall>n. cl = Some n \<longrightarrow> length (req_body r) = n)"
    using assms(1,2) sel by (intro exI [of _ cl]) simp
  then have "request_good c r"
    using assms(3) sel request_init_wf [OF wf r(1)] by (simp add: request_good_def)
  with r show ?thesis by blast
qed

section \<open>Events\<close>

lemma set_dict_set_sub: "x \<in> set (dict_set k v d) \<Longrightarrow> x = (k, v) \<or> x \<in> set d"
  by (induction k v d rule: dict_set.induct) (auto split: if_splits)

lemma request_received_requests:
  assumes "requests_ok s" shows "requests_ok (request_received lib sid raw s)"
proof (cases "int (length (h2_active s)) \<ge> hc_max_concurrent_streams (h2_config s)")
  case True
  then show ?thesis using requests_fewer [OF assms reset_stream_fewer] by (simp add: request_received_def)
next
  case False
  show ?thesis
  proof (cases "decode_request_headers (h2_config s) raw")
    case (Inl e)
    with False requests_fewer [OF assms reset_stream_fewer] show ?thesis by (simp add: request_received_def)
  next
    case (Inr r)
    obtain m p h cl where r: "r = (m, p, h, cl)" by (cases r)
    from decode_request_headers_ok Inr r have "head_fields_ok (h2_config s) m p h cl" by blast
    with False Inr r assms show ?thesis
      by (auto simp: request_received_def requests_ok_def inbound_good_def dest!: set_dict_set_sub)
  qed
qed

lemma data_received_requests:
  assumes "requests_ok s" and "data_received lib sid data flow s = (res, t)"
  shows "requests_ok t"
proof -
  obtain ok w where ack: "lib_acknowledge lib flow sid (h2_conn s) = (ok, w)" by (cases "lib_acknowledge lib flow sid (h2_conn s)")
  let ?s = "s\<lparr>h2_conn := w\<rparr>"
  have a: "requests_ok ?s" using assms(1) by (simp add: requests_ok_def)
  show ?thesis
  proof (cases "map_of (h2_inbound s) sid")
    case None
    with assms(2) ack a show ?thesis by (auto simp: data_received_def Let_def split: if_splits)
  next
    case (Some st)
    have good: "inbound_good (h2_config s) st" using assms(1) map_of_SomeD [OF Some] by (force simp: requests_ok_def)
    consider "t = ?s" | code where "t = reset_stream lib code sid ?s"
      | "t = ?s\<lparr>h2_inbound := dict_set sid (st\<lparr>in_body := in_body st @ data\<rparr>) (h2_inbound s),
              h2_buffered := h2_buffered s + int (length data)\<rparr>"
        "int (length (in_body st) + length data) \<le> hc_max_body_bytes (h2_config s)"
      using assms(2) ack Some
      by (auto simp: data_received_def Let_def not_less split: if_splits option.splits)
    then show ?thesis
    proof cases
      case 3
      with a good show ?thesis
        by (auto simp: requests_ok_def inbound_good_def dest!: set_dict_set_sub)
    qed (use a requests_fewer [OF a reset_stream_fewer] in auto)
  qed
qed

lemma stream_ended_requests:
  assumes "requests_ok s" and "stream_ended lib sid s = (res, t)"
  shows "requests_ok t \<and> (\<exists>item. res = Inr item \<and> (\<forall>i r. item = Some (i, r) \<longrightarrow> request_good (h2_config t) r))"
proof (cases "map_of (h2_inbound s) sid")
  case None
  with assms show ?thesis by (auto simp: stream_ended_def)
next
  case (Some st)
  have good: "inbound_good (h2_config s) st" using assms(1) map_of_SomeD [OF Some] by (force simp: requests_ok_def)
  show ?thesis
  proof (cases "case in_expected st of None \<Rightarrow> False | Some n \<Rightarrow> length (in_body st) \<noteq> n")
    case True
    with assms Some requests_fewer [OF assms(1) reset_stream_fewer] show ?thesis by (auto simp: stream_ended_def)
  next
    case False
    let ?t = "s\<lparr>h2_inbound := dict_set sid (st\<lparr>in_dispatched := True\<rparr>) (h2_inbound s),
                 h2_last_processed := max (h2_last_processed s) sid\<rparr>"
    have len: "\<forall>n. in_expected st = Some n \<longrightarrow> length (in_body st) = n"
      using False by (auto split: option.splits)
    from request_init_good [OF good [unfolded inbound_good_def, THEN conjunct1] len good [unfolded inbound_good_def, THEN conjunct2]]
    obtain r where r: "request_init (in_method st) (in_path st) (in_headers st) (in_body st) (lit ''HTTP/2'') None [] [] None = Inr r"
      "request_good (h2_config s) r" by blast
    have "t = ?t \<and> res = Inr (Some (sid, r))"
      using assms(2) Some False r(1) by (simp add: stream_ended_def Let_def)
    moreover have "requests_ok ?t" using assms(1) good by (auto simp: requests_ok_def inbound_good_def dest!: set_dict_set_sub)
    ultimately show ?thesis using r(2) by auto
  qed
qed

lemma handle_event_requests:
  assumes "requests_ok s" and "handle_event lib ev s = (res, t)"
  shows "requests_ok t"
proof (cases ev)
  case (StreamEnded sid)
  obtain r s1 where e: "stream_ended lib sid s = (r, s1)" by (cases "stream_ended lib sid s")
  from stream_ended_requests [OF assms(1) e] obtain item where ok: "requests_ok s1" and r: "r = Inr item"
    and good: "\<forall>i req. item = Some (i, req) \<longrightarrow> request_good (h2_config s1) req" by auto
  show ?thesis
  proof (cases item)
    case None
    with assms(2) StreamEnded e r ok show ?thesis by (simp add: handle_event_def)
  next
    case (Some ir)
    obtain i req where "ir = (i, req)" by (cases ir)
    with Some assms(2) StreamEnded e r have "t = s1\<lparr>h2_ready := h2_ready s1 @ [(i, req)]\<rparr>" by (simp add: handle_event_def)
    moreover have "request_good (h2_config s1) req" using good Some \<open>ir = (i, req)\<close> by blast
    ultimately show ?thesis using ok by (auto simp: requests_ok_def)
  qed
next
  case (StreamReset sid)
  have "requests_ok (s\<lparr>h2_cancelled := h2_cancelled s @ [sid]\<rparr>)" using assms(1) by (simp add: requests_ok_def)
  from requests_fewer [OF this drop_stream_fewer] assms(2) StreamReset show ?thesis by (auto simp: handle_event_def)
next
  case ConnectionTerminated
  then have "t = s\<lparr>h2_remote_closed := True\<rparr>" using assms(2) by (simp add: handle_event_def)
  with assms(1) show ?thesis by (simp add: requests_ok_def)
qed (use assms request_received_requests data_received_requests requests_fewer [OF assms(1) reset_stream_fewer]
      in \<open>auto simp: handle_event_def\<close>)

lemma handle_events_requests: "requests_ok s \<Longrightarrow> handle_events lib evs s = (res, t) \<Longrightarrow> requests_ok t"
  by (induction evs arbitrary: s) (auto dest: handle_event_requests split: sum.splits prod.splits)

lemma receive_chunks_requests: "requests_ok s \<Longrightarrow> receive_chunks lib chunks s = (res, t) \<Longrightarrow> requests_ok t"
proof (induction chunks arbitrary: s)
  case (Cons chunk chunks)
  obtain r w where rc: "lib_receive lib chunk (h2_conn s) = (r, w)" by (cases "lib_receive lib chunk (h2_conn s)")
  have a: "requests_ok (s\<lparr>h2_conn := w\<rparr>)" using Cons.prems(1) by (simp add: requests_ok_def)
  show ?case
  proof (cases r)
    case (Inl e)
    with Cons.prems(2) rc a show ?thesis by auto
  next
    case (Inr evs)
    obtain r1 s1 where he: "handle_events lib evs (s\<lparr>h2_conn := w\<rparr>) = (r1, s1)" by (cases "handle_events lib evs (s\<lparr>h2_conn := w\<rparr>)")
    obtain r2 s2 where cc: "capture_control lib s1 = (r2, s2)" by (cases "capture_control lib s1")
    have one: "requests_ok s1" by (rule handle_events_requests [OF a he])
    have two: "requests_ok s2" by (rule requests_fewer [OF one capture_control_fewer [OF cc]])
    show ?thesis using Cons.prems(2) rc Inr he cc one two Cons.IH [OF two] by (auto split: sum.splits)
  qed
qed simp

lemma receive_data_requests:
  assumes "requests_ok s" and "receive_data lib data s = (res, t)"
  shows "requests_ok t \<and> (\<forall>items sid req. res = Inr items \<longrightarrow> (sid, req) \<in> set items \<longrightarrow>
     request_good (h2_config t) req \<and> sid \<in> set (h2_active t))"
proof (cases "budget_feed (h2_frames s) data")
  case (Inl e)
  with assms show ?thesis by (auto simp: receive_data_def)
next
  case (Inr fr)
  obtain chunks fr1 where bt: "budget_take (nat (hc_reader_frame_batch_size (h2_config s))) fr = (chunks, fr1)"
    by (cases "budget_take (nat (hc_reader_frame_batch_size (h2_config s))) fr")
  have a: "requests_ok (s\<lparr>h2_frames := fr1\<rparr>)" using assms(1) by (simp add: requests_ok_def)
  obtain r s1 where rc: "receive_chunks lib chunks (s\<lparr>h2_frames := fr1\<rparr>) = (r, s1)"
    by (cases "receive_chunks lib chunks (s\<lparr>h2_frames := fr1\<rparr>)")
  have one: "requests_ok s1" by (rule receive_chunks_requests [OF a rc])
  have clear: "requests_ok (s1\<lparr>h2_ready := []\<rparr>)" using one by (simp add: requests_ok_def)
  have good: "request_good (h2_config s1) req" if "(i, req) \<in> set (h2_ready s1)" for i req
    using one that by (force simp: requests_ok_def)
  show ?thesis
    using assms(2) Inr bt rc one clear good by (auto simp: receive_data_def split: sum.splits if_splits)
qed

section \<open>Runs\<close>

lemma release_inbound_fewer: "fewer s (release_inbound sid s)"
  by (auto simp: fewer_def release_inbound_fields release_inbound_ready set_dict_pop)

lemma queue_response_fewer: "fewer s (snd (queue_response lib sid resp s))"
proof -
  have released: "fewer s (release_inbound sid s)" by (rule release_inbound_fewer)
  moreover have "fewer s (reset_stream lib ENHANCE_YOUR_CALM sid (release_inbound sid s))"
    by (rule fewer_trans [OF released reset_stream_fewer])
  ultimately show ?thesis by (simp add: queue_response_def Let_def fewer_def)
qed

lemma start_response_fewer: "fewer s (start_response lib sid resp s)"
  by (auto simp: start_response_def fewer_def Let_def drop_stream_config drop_stream_requests reset_stream_def
      dest: set_dict_pop [THEN equalityD1, THEN subsetD] split: prod.splits if_splits)

lemma run_commands_fewer: "run_commands lib cmds s = (res, t) \<Longrightarrow> fewer s t"
proof (induction cmds arbitrary: s)
  case Nil
  then show ?case by (simp add: fewer_def)
next
  case (Cons cmd cmds)
  obtain sid r where c: "cmd = (sid, r)" by (cases cmd)
  define s1 where "s1 = (case r of None \<Rightarrow> reset_stream lib ENHANCE_YOUR_CALM sid s | Some resp \<Rightarrow> start_response lib sid resp s)"
  obtain r2 s2 where cc: "capture_control lib s1 = (r2, s2)" by (cases "capture_control lib s1")
  have one: "fewer s s1" unfolding s1_def by (cases r) (simp_all add: reset_stream_fewer start_response_fewer)
  note two = fewer_trans [OF one capture_control_fewer [OF cc]]
  show ?case using Cons.prems c cc two fewer_trans [OF two] Cons.IH [of s2]
    by (auto simp: s1_def [symmetric] split: sum.splits)
qed

lemma fewer_updates:
  "fewer s s" "fewer s (t\<lparr>h2_conn := w\<rparr>) = fewer s t" "fewer s (t\<lparr>h2_outbound := d\<rparr>) = fewer s t"
  "fewer s (t\<lparr>h2_pending := n\<rparr>) = fewer s t" "fewer s (finish_outbound sid t) = fewer s t"
  "fewer s (drop_stream sid (s\<lparr>h2_conn := w\<rparr>))"
  using drop_stream_fewer [of "s\<lparr>h2_conn := w\<rparr>" sid]
  by (simp_all add: fewer_def finish_outbound_def)

lemma flush_one_fewer: assumes "flush_one lib e out0 s = (res, t)" shows "fewer s t"
proof -
  have "fewer s (snd (flush_one lib e out0 s))"
    by (simp add: flush_one_def Let_def fewer_updates split: prod.split option.split bool.split)
  with assms show ?thesis by simp
qed

lemma flush_streams_fewer: "flush_streams lib es out0 s = (res, t) \<Longrightarrow> fewer s t"
proof (induction es arbitrary: out0 s)
  case Nil
  then show ?case by (simp add: fewer_def)
next
  case (Cons e es)
  obtain r s1 where one: "flush_one lib e out0 s = (r, s1)" by (cases "flush_one lib e out0 s")
  note step = flush_one_fewer [OF one]
  show ?case
  proof (cases r)
    case (Inl err)
    with Cons.prems one step show ?thesis by simp
  next
    case (Inr out1)
    with Cons.prems one have "flush_streams lib es out1 s1 = (res, t)" by simp
    from fewer_trans [OF step Cons.IH [OF this]] show ?thesis .
  qed
qed

lemma h2_flush_fewer:
  assumes "h2_flush lib s = (res, t)" shows "fewer s t"
proof -
  obtain r s1 where rc: "run_commands lib (h2_commands s) (s\<lparr>h2_commands := []\<rparr>) = (r, s1)"
    by (cases "run_commands lib (h2_commands s) (s\<lparr>h2_commands := []\<rparr>)")
  have one: "fewer s s1" using run_commands_fewer [OF rc] by (simp add: fewer_def)
  obtain r2 s2 where fs: "flush_streams lib (h2_outbound s1) (h2_control s1) (s1\<lparr>h2_control := []\<rparr>) = (r2, s2)"
    by (cases "flush_streams lib (h2_outbound s1) (h2_control s1) (s1\<lparr>h2_control := []\<rparr>)")
  have two: "fewer s s2" using flush_streams_fewer [OF fs] one by (auto simp: fewer_def)
  then have "fewer s (s2\<lparr>h2_conn := w\<rparr>)" for w by (simp add: fewer_def)
  with assms rc fs one two show ?thesis
    by (auto simp: h2_flush_def Let_def split: sum.splits prod.splits if_splits)
qed

lemma h2_close_fewer: "fewer s (snd (h2_close lib code s))"
  by (auto simp: h2_close_def Let_def fewer_def split: prod.splits)

lemma h2_apply_requests: "requests_ok s \<Longrightarrow> h2_apply lib op s = (r, t) \<Longrightarrow> requests_ok t"
proof (cases op)
  case (Receive data)
  assume a: "requests_ok s" and "h2_apply lib op s = (r, t)"
  then obtain res where "receive_data lib data s = (res, t)" using Receive by (auto split: prod.splits)
  from receive_data_requests [OF a this] show ?thesis by blast
next
  case Flush
  assume a: "requests_ok s" and "h2_apply lib op s = (r, t)"
  then obtain res where "h2_flush lib s = (res, t)" using Flush by (auto split: prod.splits)
  from requests_fewer [OF a h2_flush_fewer [OF this]] show ?thesis .
next
  case (Queue sid resp)
  assume a: "requests_ok s" and "h2_apply lib op s = (r, t)"
  then have "t = snd (queue_response lib sid resp s)" using Queue by simp
  with requests_fewer [OF a queue_response_fewer] show ?thesis by simp
next
  case (Drop sid)
  assume a: "requests_ok s" and "h2_apply lib op s = (r, t)"
  with requests_fewer [OF a drop_stream_fewer] Drop show ?thesis by auto
next
  case TakeCancelled
  assume a: "requests_ok s" and "h2_apply lib op s = (r, t)"
  then have "fewer s t" using TakeCancelled by (auto simp: take_cancelled_def fewer_def)
  with requests_fewer [OF a] show ?thesis .
next
  case (Close code)
  assume a: "requests_ok s" and "h2_apply lib op s = (r, t)"
  with requests_fewer [OF a h2_close_fewer] Close show ?thesis by auto
qed

lemma h2_run_requests: "requests_ok s \<Longrightarrow> h2_run lib ops s = (r, t) \<Longrightarrow> requests_ok t"
  by (induction ops arbitrary: s r) (auto dest: h2_apply_requests split: prod.splits)

lemma requests_ok_init: "h2_config_init c = Inr c' \<Longrightarrow> requests_ok (h2_init c' w)"
  using h2_config_limits [of c c'] by (simp add: requests_ok_def h2_init_def limits_ok_def)

section \<open>The properties\<close>

text \<open>C6. Only checked requests reach the application over HTTP/2. After any run, whatever hyper-h2
  reports, each request that a read makes ready belongs to an active stream, is a well-formed
  \<open>Request\<close> with a token for a method other than CONNECT and a printable origin-form target, carries a
  host and no connection-level header, and has a body of at most \<open>max_body_bytes\<close> whose length is its
  \<open>content-length\<close> when there is one.\<close>

theorem h2_requests_checked:
  assumes "h2_config_init c = Inr c'" and "h2_run lib ops (h2_init c' w) = (raised, s)"
    and "receive_data lib data s = (Inr items, t)" and "(sid, req) \<in> set items"
  shows "is_stream_active sid t \<and> request_wf req \<and> req_version req = lit ''HTTP/2'' \<and>
    is_token (req_method req) \<and> req_method req \<noteq> lit ''CONNECT'' \<and>
    starts_with (lit ''/'') (req_raw_target req) \<and> list_all path_char (req_raw_target req) \<and>
    headers_get (req_headers req) (lit ''host'') \<noteq> None \<and>
    (\<forall>f \<in> set forbidden_headers. headers_get (req_headers req) f = None) \<and>
    int (length (req_body req)) \<le> hc_max_body_bytes c \<and>
    (\<exists>cl. h2_content_length c (req_headers req) = Inr cl \<and> (\<forall>n. cl = Some n \<longrightarrow> length (req_body req) = n))"
proof -
  have s: "requests_ok s" by (rule h2_run_requests [OF requests_ok_init [OF assms(1)] assms(2)])
  have "h2_config t = c"
    using receive_data_config [OF assms(3)] h2_run_config [OF assms(2)] h2_config_limits [OF assms(1)]
    by (simp add: h2_init_def)
  with receive_data_requests [OF s assms(3)] assms(4) have "request_good c req" "sid \<in> set (h2_active t)" by auto
  then show ?thesis by (auto simp: request_good_def head_fields_ok_def is_stream_active_def)
qed

section \<open>Errors of one stream\<close>

text \<open>What the connection holds of one stream, and that it holds nothing live of it.\<close>

definition stream_of :: "nat \<Rightarrow> 'w h2_state \<Rightarrow>
    inbound option \<times> outbound option \<times> bool \<times> (nat \<times> response option) list \<times> (nat \<times> request) list \<times> bool" where
  "stream_of sid s =
     (map_of (h2_inbound s) sid, map_of (h2_outbound s) sid, sid \<in> set (h2_active s),
      filter (\<lambda>c. fst c = sid) (h2_commands s), filter (\<lambda>item. fst item = sid) (h2_ready s), sid \<in> set (h2_cancelled s))"

definition stream_gone :: "nat \<Rightarrow> 'w h2_state \<Rightarrow> bool" where
  "stream_gone sid s =
     (map_of (h2_inbound s) sid = None \<and> map_of (h2_outbound s) sid = None \<and> sid \<notin> set (h2_active s) \<and>
      (\<forall>c \<in> set (h2_commands s). fst c = sid \<longrightarrow> snd c = None) \<and> (\<forall>item \<in> set (h2_ready s). fst item \<noteq> sid))"

definition event_stream :: "h2_event \<Rightarrow> nat option" where
  "event_stream ev =
     (case ev of RequestReceived sid _ \<Rightarrow> Some sid | DataReceived sid _ _ \<Rightarrow> Some sid | StreamEnded sid \<Rightarrow> Some sid
      | StreamReset sid \<Rightarrow> Some sid | TrailersReceived sid \<Rightarrow> Some sid | _ \<Rightarrow> None)"

text \<open>The rules for requests, each with the code its breach is answered with: a limit on the streams
  under way, the header checks, the body limits, no data after the end and none missing, no trailers.\<close>

definition stream_fault :: "h2_event \<Rightarrow> 'w h2_state \<Rightarrow> h2_code option" where
  "stream_fault ev s =
     (case ev of
        RequestReceived sid raw \<Rightarrow>
          if hc_max_concurrent_streams (h2_config s) \<le> int (active_stream_count s) then Some REFUSED_STREAM
          else (case decode_request_headers (h2_config s) raw of Inl _ \<Rightarrow> Some PROTOCOL_ERROR | Inr _ \<Rightarrow> None)
      | DataReceived sid data flow \<Rightarrow>
          (case map_of (h2_inbound s) sid of
             None \<Rightarrow> None
           | Some st \<Rightarrow>
               if hc_max_body_bytes (h2_config s) < int (length (in_body st @ data)) \<or>
                  (\<exists>n. in_expected st = Some n \<and> n < length (in_body st @ data)) \<or>
                  hc_max_connection_buffer_bytes (h2_config s) < buffered_request_bytes s + int (length data)
               then Some ENHANCE_YOUR_CALM
               else if in_dispatched st then Some STREAM_CLOSED else None)
      | StreamEnded sid \<Rightarrow>
          (case map_of (h2_inbound s) sid of
             None \<Rightarrow> None
           | Some st \<Rightarrow> if \<exists>n. in_expected st = Some n \<and> length (in_body st) \<noteq> n then Some PROTOCOL_ERROR else None)
      | TrailersReceived sid \<Rightarrow> Some PROTOCOL_ERROR
      | _ \<Rightarrow> None)"

text \<open>hyper-h2 after the calls an event makes before any check: the acknowledgement of data.\<close>

definition event_conn :: "'w h2lib \<Rightarrow> h2_event \<Rightarrow> 'w \<Rightarrow> 'w" where
  "event_conn lib ev w = (case ev of DataReceived sid data flow \<Rightarrow> snd (lib_acknowledge lib flow sid w) | _ \<Rightarrow> w)"

text \<open>Only the dropped stream goes, and it goes entirely.\<close>

lemma filter_both: "(\<And>x. P x \<Longrightarrow> Q x) \<Longrightarrow> filter P (filter Q xs) = filter P xs"
  by (induction xs) auto

lemma drop_stream_local:
  assumes "other \<noteq> sid" shows "stream_of other (drop_stream sid s) = stream_of other s"
proof -
  have "filter (\<lambda>c. fst c = other) (filter (\<lambda>c. snd c = None \<or> fst c \<noteq> sid) (h2_commands s)) =
      filter (\<lambda>c. fst c = other) (h2_commands s)"
    "filter (\<lambda>item. fst item = other) (filter (\<lambda>item. fst item \<noteq> sid) (h2_ready s)) =
      filter (\<lambda>item. fst item = other) (h2_ready s)"
    using assms by (auto simp del: filter_filter intro!: filter_both)
  with assms show ?thesis by (simp add: stream_of_def drop_stream_requests drop_stream_rest)
qed

lemma drop_stream_gone: "stream_gone sid (drop_stream sid s)"
  by (auto simp: stream_gone_def drop_stream_requests drop_stream_rest)

lemma stream_of_conn: "stream_of other (s\<lparr>h2_conn := w\<rparr>) = stream_of other s"
  by (simp add: stream_of_def)

lemma reset_stream_local: "other \<noteq> sid \<Longrightarrow> stream_of other (reset_stream lib code sid s) = stream_of other s"
  by (simp add: reset_stream_def drop_stream_local stream_of_conn)

lemma reset_stream_effect:
  "stream_gone sid (reset_stream lib code sid s)"
  "h2_conn (reset_stream lib code sid s) = snd (lib_reset lib sid code (h2_conn s))"
  "h2_remote_closed (reset_stream lib code sid s) = h2_remote_closed s"
  "h2_local_closed (reset_stream lib code sid s) = h2_local_closed s"
  by (simp_all add: reset_stream_def drop_stream_gone drop_stream_rest)

text \<open>One event: nothing of the other streams changes, and hyper-h2 resets the stream of the event
  exactly when the event broke a rule.\<close>

definition event_local :: "'w h2lib \<Rightarrow> h2_event \<Rightarrow> 'w h2_state \<Rightarrow> (h2_failure + unit) \<Rightarrow> 'w h2_state \<Rightarrow> bool" where
  "event_local lib ev s res t =
     ((\<forall>other. event_stream ev \<noteq> Some other \<longrightarrow> stream_of other t = stream_of other s) \<and>
      (res = Inr () \<longrightarrow> stream_fault ev s = None \<longrightarrow> h2_conn t = event_conn lib ev (h2_conn s)) \<and>
      (\<forall>code. res = Inr () \<longrightarrow> stream_fault ev s = Some code \<longrightarrow>
         (\<exists>sid. event_stream ev = Some sid \<and> stream_gone sid t \<and>
            h2_conn t = snd (lib_reset lib sid code (event_conn lib ev (h2_conn s))) \<and>
            h2_remote_closed t = h2_remote_closed s \<and> h2_local_closed t = h2_local_closed s)))"

lemma event_reset:
  assumes "event_stream ev = Some sid" and "stream_fault ev s = Some code" and "event_conn lib ev (h2_conn s) = w"
  shows "event_local lib ev s res (reset_stream lib code sid (s\<lparr>h2_conn := w\<rparr>))"
  using assms by (auto simp: event_local_def reset_stream_local reset_stream_effect stream_of_conn)

lemma event_kept:
  assumes "stream_fault ev s = None \<or> res \<noteq> Inr ()" and "res = Inr () \<Longrightarrow> h2_conn t = event_conn lib ev (h2_conn s)"
    and "\<And>other. event_stream ev \<noteq> Some other \<Longrightarrow> stream_of other t = stream_of other s"
  shows "event_local lib ev s res t"
  using assms by (auto simp: event_local_def)

lemma request_received_local:
  "event_local lib (RequestReceived sid raw) s res (request_received lib sid raw s)"
proof -
  note reset = event_reset [where ev = "RequestReceived sid raw" and sid = sid and s = s and w = "h2_conn s" and lib = lib and res = res]
  show ?thesis
  proof (cases "int (length (h2_active s)) \<ge> hc_max_concurrent_streams (h2_config s)")
    case True
    with reset [of REFUSED_STREAM] show ?thesis
      by (simp add: request_received_def event_stream_def stream_fault_def event_conn_def active_stream_count_def)
  next
    case room: False
    show ?thesis
    proof (cases "decode_request_headers (h2_config s) raw")
      case (Inl e)
      with room reset [of PROTOCOL_ERROR] show ?thesis
        by (simp add: request_received_def event_stream_def stream_fault_def event_conn_def active_stream_count_def)
    next
      case (Inr head)
      obtain m p h cl where "head = (m, p, h, cl)" by (cases head)
      with room Inr show ?thesis
        by (intro event_kept) (auto simp: request_received_def event_stream_def stream_fault_def event_conn_def
            active_stream_count_def stream_of_def)
    qed
  qed
qed

lemma data_received_local:
  assumes "data_received lib sid data flow s = (res, t)"
  shows "event_local lib (DataReceived sid data flow) s res t"
proof -
  obtain ok w where ack: "lib_acknowledge lib flow sid (h2_conn s) = (ok, w)"
    by (cases "lib_acknowledge lib flow sid (h2_conn s)")
  let ?ev = "DataReceived sid data flow"
  note reset = event_reset [where ev = ?ev and sid = sid and s = s and w = w and lib = lib and res = res]
  show ?thesis
  proof (cases "ok \<and> (\<exists>st. map_of (h2_inbound s) sid = Some st)")
    case False
    with assms ack have "t = s\<lparr>h2_conn := w\<rparr> \<and> (stream_fault ?ev s = None \<or> res \<noteq> Inr ())"
      by (auto simp: data_received_def stream_fault_def Let_def split: if_splits option.splits)
    with ack show ?thesis by (intro event_kept) (auto simp: event_conn_def stream_of_conn)
  next
    case True
    then obtain st where ok: ok and st: "map_of (h2_inbound s) sid = Some st" by blast
    show ?thesis
    proof (cases "stream_fault ?ev s")
      case (Some code)
      with assms ack ok st have "t = reset_stream lib code sid (s\<lparr>h2_conn := w\<rparr>)"
        by (auto simp: data_received_def stream_fault_def Let_def buffered_request_bytes_def
            split: if_splits option.splits)
      with reset [OF _ Some] ack show ?thesis by (simp add: event_stream_def event_conn_def)
    next
      case None
      with assms ack ok st have "t = s\<lparr>h2_conn := w, h2_inbound := dict_set sid (st\<lparr>in_body := in_body st @ data\<rparr>) (h2_inbound s),
          h2_buffered := h2_buffered s + int (length data)\<rparr>"
        by (auto simp: data_received_def stream_fault_def Let_def buffered_request_bytes_def
            split: if_splits option.splits)
      with None ack show ?thesis
        by (intro event_kept) (auto simp: event_conn_def event_stream_def stream_of_def)
    qed
  qed
qed

lemma stream_ended_local:
  assumes "requests_ok s" and "handle_event lib (StreamEnded sid) s = (res, t)"
  shows "event_local lib (StreamEnded sid) s res t"
proof (cases "map_of (h2_inbound s) sid")
  case None
  with assms(2) show ?thesis
    by (intro event_kept) (auto simp: handle_event_def stream_ended_def stream_fault_def event_conn_def)
next
  case (Some st)
  show ?thesis
  proof (cases "stream_fault (StreamEnded sid) s")
    case (Some code)
    with assms(2) \<open>map_of (h2_inbound s) sid = Some st\<close> have "t = reset_stream lib code sid (s\<lparr>h2_conn := h2_conn s\<rparr>)"
      by (auto simp: handle_event_def stream_ended_def stream_fault_def split: if_splits option.splits)
    with event_reset [OF _ Some, of sid lib "h2_conn s" res] show ?thesis
      by (simp add: event_stream_def event_conn_def)
  next
    case None
    obtain r s1 where e: "stream_ended lib sid s = (r, s1)" by (cases "stream_ended lib sid s")
    from None Some e have s1: "s1 = s\<lparr>h2_inbound := dict_set sid (st\<lparr>in_dispatched := True\<rparr>) (h2_inbound s),
        h2_last_processed := max (h2_last_processed s) sid\<rparr>" and r: "\<And>item. r = Inr (Some item) \<Longrightarrow> fst item = sid"
      by (auto simp: stream_ended_def stream_fault_def Let_def split: if_splits option.splits sum.splits)
    have view: "stream_of other s1 = stream_of other s" if "other \<noteq> sid" for other
      using that by (simp add: s1 stream_of_def)
    have ready: "stream_of other (s1\<lparr>h2_ready := h2_ready s1 @ [item]\<rparr>) = stream_of other s1"
      if "other \<noteq> sid" "r = Inr (Some item)" for other item
      using that r [of item] by (auto simp: stream_of_def)
    have "t = s1 \<or> (\<exists>item. r = Inr (Some item) \<and> t = s1\<lparr>h2_ready := h2_ready s1 @ [item]\<rparr>)"
      using assms(2) e by (auto simp: handle_event_def split: sum.splits option.splits)
    with None view ready show ?thesis
      by (intro event_kept) (auto simp: event_conn_def event_stream_def s1)
  qed
qed

lemma handle_event_local:
  assumes "requests_ok s" and "handle_event lib ev s = (res, t)"
  shows "event_local lib ev s res t"
proof (cases ev)
  case (RequestReceived sid raw)
  with assms(2) request_received_local show ?thesis by (auto simp: handle_event_def)
next
  case (DataReceived sid data flow)
  with assms(2) data_received_local show ?thesis by (auto simp: handle_event_def)
next
  case (StreamEnded sid)
  with assms stream_ended_local show ?thesis by simp
next
  case (StreamReset sid)
  let ?s = "s\<lparr>h2_cancelled := h2_cancelled s @ [sid]\<rparr>"
  have "stream_of other ?s = stream_of other s" if "other \<noteq> sid" for other using that by (simp add: stream_of_def)
  with StreamReset assms(2) show ?thesis
    by (intro event_kept) (auto simp: handle_event_def stream_fault_def event_stream_def event_conn_def
        drop_stream_local drop_stream_rest)
next
  case (TrailersReceived sid)
  with assms(2) event_reset [of ev sid s PROTOCOL_ERROR lib "h2_conn s" res] show ?thesis
    by (auto simp: handle_event_def event_stream_def stream_fault_def event_conn_def)
qed (use assms(2) in \<open>auto intro!: event_kept simp: handle_event_def stream_fault_def event_conn_def stream_of_def\<close>)

lemma handle_event_raises:
  assumes "requests_ok s" and "handle_event lib ev s = (Inl e, t)"
  shows "e = H2Library \<and> (\<exists>sid data flow. ev = DataReceived sid data flow \<and> \<not> fst (lib_acknowledge lib flow sid (h2_conn s)))"
proof (cases ev)
  case (DataReceived sid data flow)
  with assms(2) show ?thesis
    by (auto simp: handle_event_def data_received_def Let_def split: prod.splits option.splits if_splits)
next
  case (StreamEnded sid)
  obtain r s1 where e: "stream_ended lib sid s = (r, s1)" by (cases "stream_ended lib sid s")
  from stream_ended_requests [OF assms(1) e] assms(2) StreamEnded e show ?thesis
    by (auto simp: handle_event_def split: option.splits)
qed (use assms(2) in \<open>simp_all add: handle_event_def\<close>)

text \<open>C7. A bad request is an error of its stream only. In every state a run can reach, handling an event
  raises in one case only, hyper-h2 refusing the acknowledgement of received data; it changes nothing of
  any stream but the event's own, and when it breaks a rule (too many streams, header fields that fail a
  check, a body beyond its limits, data after the end or missing at it, trailers) hyper-h2 is told to
  reset that stream with the rule's code, nothing live of the stream is left in the connection's books,
  and the connection is not closed; an event that breaks no rule resets nothing.\<close>

theorem h2_errors_stay_in_stream:
  assumes "h2_config_init c = Inr c'" and "h2_run lib ops (h2_init c' w) = (raised, s)"
    and "handle_event lib ev s = (res, t)"
  shows "(\<forall>e. res = Inl e \<longrightarrow> e = H2Library \<and>
      (\<exists>sid data flow. ev = DataReceived sid data flow \<and> \<not> fst (lib_acknowledge lib flow sid (h2_conn s)))) \<and>
    (\<forall>other. event_stream ev \<noteq> Some other \<longrightarrow> stream_of other t = stream_of other s) \<and>
    (res = Inr () \<longrightarrow> stream_fault ev s = None \<longrightarrow> h2_conn t = event_conn lib ev (h2_conn s)) \<and>
    (\<forall>code. res = Inr () \<longrightarrow> stream_fault ev s = Some code \<longrightarrow>
       (\<exists>sid. event_stream ev = Some sid \<and> stream_gone sid t \<and>
          h2_conn t = snd (lib_reset lib sid code (event_conn lib ev (h2_conn s))) \<and>
          h2_remote_closed t = h2_remote_closed s \<and> h2_local_closed t = h2_local_closed s))"
proof -
  have s: "requests_ok s" by (rule h2_run_requests [OF requests_ok_init [OF assms(1)] assms(2)])
  from handle_event_raises [OF s] handle_event_local [OF s assms(3)] assms(3) show ?thesis
    unfolding event_local_def by blast
qed

lemma h2_requests_checked_witness:
  "is_stream_active 1 demo_received \<and> headers_get (req_headers demo_request) (lit ''host'') \<noteq> None"
proof -
  have "h2_run demo_lib [] (h2_init demo_config (0, [])) = (False, h2_init demo_config (0, []))" by simp
  from h2_requests_checked [OF demo_config_ok this demo_receive, of 1 demo_request] show ?thesis by simp
qed

text \<open>A library that writes down the streams it is told to reset: a request without header fields resets
  its stream 3, and stream 1, whose request is being answered, is not touched.\<close>

definition noting_lib :: "(nat \<times> bytes) h2lib" where
  "noting_lib = demo_lib\<lparr>lib_reset := \<lambda>sid code (n, buf). (True, (n, buf @ [of_nat sid]))\<rparr>"

lemma noting_lib_sel:
  "lib_receive noting_lib = lib_receive demo_lib" "lib_data_to_send noting_lib = lib_data_to_send demo_lib"
  "lib_reset noting_lib sid code (n, buf) = (True, (n, buf @ [of_nat sid]))"
  by (simp_all add: noting_lib_def)

lemma noting_receive:
  "receive_data noting_lib demo_input (h2_init demo_config (0, [])) = (Inr [(1, demo_request)], demo_received)"
  by (simp add: receive_data_def h2_init_def demo_limits demo_feed budget_take_def demo_lib_sel noting_lib_sel
      capture_control_def handle_event_def request_received_def demo_decode demo_host_def [symmetric] stream_ended_def
      demo_request_init demo_frames_ready demo_received_def List.insert_def)

lemma no_headers_fault:
  "stream_fault (RequestReceived 3 []) demo_received = Some PROTOCOL_ERROR"
  by (simp add: stream_fault_def demo_received_def h2_init_def active_stream_count_def demo_limits
      decode_request_headers_def pseudo_get_def py_text Let_def)

lemma h2_errors_stay_in_stream_witness:
  "\<exists>s t. h2_run noting_lib [Receive demo_input] (h2_init demo_config (0, [])) = (False, s) \<and>
     handle_event noting_lib (RequestReceived 3 []) s = (Inr (), t) \<and>
     h2_conn s = (2, []) \<and> h2_conn t = (2, [3]) \<and> stream_gone 3 t \<and>
     is_stream_active 1 s \<and> stream_of 1 t = stream_of 1 s"
proof -
  have run: "h2_run noting_lib [Receive demo_input] (h2_init demo_config (0, [])) = (False, demo_received)"
    by (simp add: noting_receive raises_def)
  define t where "t = request_received noting_lib 3 [] demo_received"
  have step: "handle_event noting_lib (RequestReceived 3 []) demo_received = (Inr (), t)"
    by (simp add: handle_event_def t_def)
  have conn: "h2_conn demo_received = (2, [])" and active: "is_stream_active 1 demo_received"
    by (simp_all add: demo_received_def h2_init_def is_stream_active_def)
  from h2_errors_stay_in_stream [OF demo_config_ok run step] no_headers_fault
  have "stream_gone 3 t \<and> h2_conn t = (2, [3]) \<and> stream_of 1 t = stream_of 1 demo_received"
    by (simp add: event_stream_def event_conn_def conn noting_lib_sel)
  with run step conn active show ?thesis by blast
qed

end
