(* ===== verification/WS_Frames.thy ===== *)
theory WS_Frames
  imports SS_Text Incremental
begin

text \<open>
  \<open>_FrameGuard\<close> of \<open>smallserver/websocket.py\<close>: it watches the frame headers in the byte stream of a
  client and refuses a frame before its payload reaches the protocol engine. The loop slices whole
  chunks; it is shown to be the one-byte-at-a-time machine \<open>guard_step\<close>, and that machine is related
  to a reference parser of whole frames.
\<close>

section \<open>The guard\<close>

datatype ws_error =
    WebSocketStateError
  | WebSocketCapacityError
  | WSValueError

record guard =
  gd_max_payload :: int
  gd_header :: bytes
  gd_header_length :: "nat option"
  gd_remaining :: nat

definition guard_init :: "int \<Rightarrow> guard" where
  "guard_init m = \<lparr>gd_max_payload = m, gd_header = [], gd_header_length = None, gd_remaining = 0\<rparr>"

text \<open>\<open>int.from_bytes(_, "big")\<close>.\<close>

definition be_nat :: "bytes \<Rightarrow> nat" where
  "be_nat bs = foldl (\<lambda>n b. n * 256 + unat b) 0 bs"

text \<open>The full length of a header, from its second byte.\<close>

definition header_size :: "byte \<Rightarrow> nat" where
  "header_size second =
     (let marker = unat (second AND 0x7F);
          extension = (if marker = 126 then 2 else if marker = 127 then 8 else 0)
      in 2 + extension + (if second AND 0x80 \<noteq> 0 then 4 else 0))"

text \<open>The checks on a complete header; the result is the payload length. A header of fewer than two
  bytes would fail to unpack.\<close>

definition check_header :: "int \<Rightarrow> bytes \<Rightarrow> ws_error + nat" where
  "check_header max_payload header =
     (case header of
        first # second # rest \<Rightarrow>
          if second AND 0x80 = 0 then Inl WSValueError
          else
            let marker = unat (second AND 0x7F);
                extended2 = be_nat (take 2 (drop 2 header));
                extended8 = be_nat (take 8 (drop 2 header));
                payload_length = (if marker = 126 then extended2 else if marker = 127 then extended8 else marker)
            in if marker = 126 \<and> extended2 < 126 then Inl WSValueError
               else if marker = 127 \<and> (extended8 < 65536 \<or> drop_bit 63 extended8 \<noteq> 0) then Inl WSValueError
               else if unat (first AND 0x0F) \<ge> 8 \<and> (first AND 0x80 = 0 \<or> payload_length > 125) then Inl WSValueError
               else if int payload_length > max_payload then Inl WebSocketCapacityError
               else Inr payload_length
      | _ \<Rightarrow> Inl WSValueError)"

text \<open>The part of the loop body after the header has its full length.\<close>

definition header_done :: "guard \<Rightarrow> ws_error + bytes \<times> guard" where
  "header_done g =
     bind_sum (check_header (gd_max_payload g) (gd_header g)) (\<lambda>payload_length.
       Inr (gd_header g, g\<lparr>gd_header := [], gd_remaining := payload_length,
         gd_header_length := (if payload_length = 0 then None else gd_header_length g)\<rparr>))"

text \<open>The first half of the header stage: bytes until the header has two. The result is the state and
  the rest of the data; \<open>gd_header_length\<close> stays \<open>None\<close> when the data ended first.\<close>

definition first_two :: "guard \<Rightarrow> bytes \<Rightarrow> guard \<times> bytes" where
  "first_two g data =
     (case gd_header_length g of
        Some _ \<Rightarrow> (g, data)
      | None \<Rightarrow>
          let n = min (2 - length (gd_header g)) (length data);
              header = gd_header g @ take n data
          in if length header < 2 then (g\<lparr>gd_header := header\<rparr>, drop n data)
             else (g\<lparr>gd_header := header, gd_header_length := Some (header_size (header ! 1))\<rparr>, drop n data))"

lemma first_two_length:
  "first_two g data = (g1, data1) \<Longrightarrow> length data1 + length (gd_header g1) = length data + length (gd_header g)"
  by (auto simp: first_two_def Let_def split: option.splits if_splits)

lemma first_two_shorter: "first_two g data = (g1, data1) \<Longrightarrow> length data1 \<le> length data"
  by (auto simp: first_two_def Let_def split: option.splits if_splits)

lemma first_two_None: "first_two g data = (g1, data1) \<Longrightarrow> gd_header_length g1 = None \<Longrightarrow> data1 = []"
  by (auto simp: first_two_def Let_def split: option.splits if_splits)

lemma header_done_Inr:
  "header_done g = Inr (chunk, g') \<Longrightarrow> gd_header g' = [] \<and> chunk = gd_header g \<and> 2 \<le> length (gd_header g)"
  by (auto simp: header_done_def bind_sum_Inr_iff check_header_def split: list.splits)

text \<open>Every round consumes data, except one that finishes a header without consuming; that one shortens the
  header buffer.\<close>

lemma header_round_shrinks:
  assumes "first_two g data = (g1, data1)" and "data \<noteq> []"
    and "header_done (g1\<lparr>gd_header := gd_header g1 @ take k data1\<rparr>) = Inr (chunk, g3)"
  shows "length data1 - k < length data \<or> length data1 - k = length data \<and> length (gd_header g3) < length (gd_header g)"
proof -
  note len = first_two_length [OF assms(1)] first_two_shorter [OF assms(1)]
  from header_done_Inr [OF assms(3)] have none: "gd_header g3 = []" and two: "2 \<le> length (gd_header g1) + min k (length data1)"
    by auto
  show ?thesis
  proof (cases "length data1 - k < length data")
    case False
    from assms(2) have "0 < length data" by simp
    with False len(2) have "length data1 = length data \<and> k = 0" by linarith
    with len none two show ?thesis by auto
  qed simp
qed

lemma header_round_None:
  "first_two g data = (g1, data1) \<Longrightarrow> data \<noteq> [] \<Longrightarrow> gd_header_length g1 = None \<Longrightarrow> length data1 < length data"
  by (auto dest: first_two_None)

function guard_loop :: "guard \<Rightarrow> bytes \<Rightarrow> bytes list \<Rightarrow> (ws_error + bytes list) \<times> guard" where
  "guard_loop g data chunks =
     (if data = [] then (Inr chunks, g)
      else if gd_remaining g > 0 then
        let n = min (gd_remaining g) (length data);
            g1 = g\<lparr>gd_remaining := gd_remaining g - n,
                   gd_header_length := (if gd_remaining g = n then None else gd_header_length g)\<rparr>
        in guard_loop g1 (drop n data) (chunks @ [take n data])
      else (case first_two g data of (g1, data1) \<Rightarrow>
        (case gd_header_length g1 of
           None \<Rightarrow> guard_loop g1 data1 chunks
         | Some hl \<Rightarrow>
             let n = min (hl - length (gd_header g1)) (length data1);
                 g2 = g1\<lparr>gd_header := gd_header g1 @ take n data1\<rparr>;
                 data2 = drop n data1
             in if length (gd_header g2) < hl then guard_loop g2 data2 chunks
                else (case header_done g2 of
                        Inl e \<Rightarrow> (Inl e, g2)
                      | Inr (chunk, g3) \<Rightarrow> guard_loop g3 data2 (chunks @ [chunk])))))"
  by pat_completeness auto

termination
  by (relation "measures [\<lambda>(g, data, _). length data, \<lambda>(g, data, _). length (gd_header g)]")
    (auto dest: header_round_None [OF sym] header_round_shrinks [OF sym])

declare guard_loop.simps [simp del]

definition guard_feed :: "guard \<Rightarrow> bytes \<Rightarrow> (ws_error + bytes list) \<times> guard" where
  "guard_feed g data = guard_loop g data []"

section \<open>The guard, one byte at a time\<close>

definition settle :: "guard \<Rightarrow> ws_error + guard \<times> bytes" where
  "settle g =
     (case gd_header_length g of
        None \<Rightarrow> Inr (g, [])
      | Some hl \<Rightarrow> if length (gd_header g) < hl then Inr (g, [])
                   else bind_sum (header_done g) (\<lambda>(chunk, g2). Inr (g2, chunk)))"

definition guard_step :: "guard \<Rightarrow> byte \<Rightarrow> ws_error + guard \<times> bytes" where
  "guard_step g b =
     (if gd_remaining g > 0
      then Inr (g\<lparr>gd_remaining := gd_remaining g - 1,
                  gd_header_length := (if gd_remaining g = 1 then None else gd_header_length g)\<rparr>, [b])
      else settle (fst (first_two g [b])\<lparr>gd_header := gd_header g @ [b]\<rparr>))"

definition guard_wf :: "guard \<Rightarrow> bool" where
  "guard_wf g =
     (if gd_remaining g > 0 then gd_header g = []
      else (case gd_header_length g of
              None \<Rightarrow> length (gd_header g) < 2
            | Some hl \<Rightarrow> 2 \<le> length (gd_header g) \<and> length (gd_header g) < hl \<and> hl = header_size (gd_header g ! 1)))"

lemma guard_wf_init [wf_intros]: "guard_wf (guard_init m)"
  by (simp add: guard_wf_def guard_init_def)

lemma first_two_single:
  "guard_wf g \<Longrightarrow> gd_remaining g = 0 \<Longrightarrow> fst (first_two g [b])\<lparr>gd_header := gd_header g @ [b]\<rparr> =
     (if length (gd_header g) = 1 then g\<lparr>gd_header := gd_header g @ [b], gd_header_length := Some (header_size b)\<rparr>
      else g\<lparr>gd_header := gd_header g @ [b]\<rparr>)"
  by (cases "gd_header g" rule: rev_cases)
    (auto simp: first_two_def guard_wf_def Let_def nth_append split: option.splits)

lemma header_size_ge: "2 \<le> header_size b"
  by (simp add: header_size_def Let_def)

lemma settle_wf:
  assumes "settle g = Inr (g', out)" and "gd_remaining g = 0"
    and "case gd_header_length g of None \<Rightarrow> length (gd_header g) < 2
         | Some hl \<Rightarrow> 2 \<le> length (gd_header g) \<and> hl = header_size (gd_header g ! 1)"
  shows "guard_wf g'"
  using assms by (auto simp: settle_def header_done_def guard_wf_def bind_sum_Inr_iff split: option.splits if_splits)

lemma guard_step_wf: "guard_wf g \<Longrightarrow> guard_step g b = Inr (g', out) \<Longrightarrow> guard_wf g'"
proof -
  assume wf: "guard_wf g" and step: "guard_step g b = Inr (g', out)"
  show "guard_wf g'"
  proof (cases "gd_remaining g > 0")
    case True
    with wf step show ?thesis by (auto simp: guard_step_def guard_wf_def)
  next
    case False
    with step have "settle (fst (first_two g [b])\<lparr>gd_header := gd_header g @ [b]\<rparr>) = Inr (g', out)"
      by (simp add: guard_step_def)
    then show ?thesis
      by (rule settle_wf)
        (use wf False first_two_single [OF wf, of b] in
          \<open>auto simp: guard_wf_def nth_append less_2_cases_iff split: option.splits if_splits\<close>)
  qed
qed

section \<open>The chunked loop is the bytewise machine\<close>

lemma payload_steps:
  "xs \<noteq> [] \<Longrightarrow> length xs \<le> gd_remaining g \<Longrightarrow> steps guard_step g xs =
     Inr (g\<lparr>gd_remaining := gd_remaining g - length xs,
            gd_header_length := (if gd_remaining g = length xs then None else gd_header_length g)\<rparr>, xs)"
proof (induction xs arbitrary: g)
  case Nil
  then show ?case by simp
next
  case (Cons x xs)
  then have pos: "gd_remaining g > 0" by simp
  show ?case
  proof (cases xs)
    case Nil
    with pos show ?thesis by (auto simp: guard_step_def)
  next
    case (Cons y ys)
    with Cons.prems have more: "gd_remaining g \<noteq> 1" by auto
    let ?g = "g\<lparr>gd_remaining := gd_remaining g - 1\<rparr>"
    have "guard_step g x = Inr (?g, [x])" using pos more by (simp add: guard_step_def)
    moreover have "steps guard_step ?g xs = Inr (?g\<lparr>gd_remaining := gd_remaining ?g - length xs,
        gd_header_length := (if gd_remaining ?g = length xs then None else gd_header_length ?g)\<rparr>, xs)"
      using Cons.IH [of ?g] Cons.prems Cons by simp
    ultimately show ?thesis using pos Cons by (auto simp: Suc_diff_Suc)
  qed
qed

text \<open>Within a header: up to the byte that completes it, bytes only pile up.\<close>

lemma header_steps:
  "gd_remaining g = 0 \<Longrightarrow> gd_header_length g = Some hl \<Longrightarrow> length (gd_header g) < hl \<Longrightarrow>
     length (gd_header g) + length xs \<le> hl \<Longrightarrow>
     steps guard_step g xs = settle (g\<lparr>gd_header := gd_header g @ xs\<rparr>)"
proof (induction xs arbitrary: g)
  case Nil
  then show ?case by (simp add: settle_def)
next
  case (Cons x xs)
  let ?g = "g\<lparr>gd_header := gd_header g @ [x]\<rparr>"
  have step: "guard_step g x = settle ?g"
    using Cons.prems by (simp add: guard_step_def first_two_def)
  show ?case
  proof (cases xs)
    case Nil
    with step show ?thesis by (cases "settle ?g") (auto simp: case_prod_unfold)
  next
    case (Cons y ys)
    with Cons.prems have "settle ?g = Inr (?g, [])" and "steps guard_step ?g xs = settle (?g\<lparr>gd_header := gd_header ?g @ xs\<rparr>)"
      using Cons.IH [of ?g] by (auto simp: settle_def)
    with step show ?thesis by (cases "settle (g\<lparr>gd_header := gd_header g @ x # xs\<rparr>)") auto
  qed
qed

lemma first_two_steps:
  assumes "gd_remaining g = 0" and "gd_header_length g = None" and "length (gd_header g) < 2"
    and "first_two g data = (g1, data1)" and "data \<noteq> []"
  shows "steps guard_step g (take (length data - length data1) data) = settle g1 \<and>
    data1 = drop (length data - length data1) data"
proof -
  let ?n = "min (2 - length (gd_header g)) (length data)"
  from assms(2,4) have d1: "data1 = drop ?n data" by (auto simp: first_two_def Let_def split: if_splits)
  then have n: "length data - length data1 = ?n" by simp
  consider "?n = 1" | b c where "?n = 2" "gd_header g = []" "take 2 data = [b, c]"
  proof (cases "length (gd_header g)")
    case 0
    then show ?thesis using assms(5) that by (cases data; cases "tl data") auto
  next
    case (Suc k)
    then show ?thesis using assms(3,5) that by (cases data) auto
  qed
  then have "steps guard_step g (take ?n data) = settle g1"
  proof cases
    case 1
    then obtain b rest where data: "data = b # rest" using assms(5) by (cases data) auto
    have "g1 = fst (first_two g [b])\<lparr>gd_header := gd_header g @ [b]\<rparr>"
      using assms(2,3,4) 1 data by (auto simp: first_two_def Let_def split: if_splits)
    then have "guard_step g b = settle g1" using assms(1) by (simp add: guard_step_def)
    then show ?thesis using 1 data by (cases "settle g1") (auto simp: case_prod_unfold)
  next
    case (2 b c)
    then have g1: "g1 = g\<lparr>gd_header := [b, c], gd_header_length := Some (header_size c)\<rparr>"
      using assms(2,4) by (auto simp: first_two_def Let_def)
    have "guard_step g b = Inr (g\<lparr>gd_header := [b]\<rparr>, [])"
      using assms(1,2) 2(2) by (simp add: guard_step_def first_two_def settle_def)
    moreover have "guard_step (g\<lparr>gd_header := [b]\<rparr>) c = settle g1"
      using assms(1,2) by (cases g) (simp add: guard_step_def first_two_def g1)
    ultimately show ?thesis using 2 by (cases "settle g1") (auto simp: case_prod_unfold)
  qed
  with n d1 show ?thesis by simp
qed


text \<open>One round of the header stage, as far as \<open>settle\<close>.\<close>

lemma settle_then:
  assumes "gd_remaining g = 0" and "gd_header_length g = Some hl" and "length (gd_header g) < hl"
  shows "steps guard_step g data =
    bind_sum (settle (g\<lparr>gd_header := gd_header g @ take (hl - length (gd_header g)) data\<rparr>))
      (\<lambda>(g2, out1). bind_sum (steps guard_step g2 (drop (hl - length (gd_header g)) data)) (\<lambda>(g3, out2). Inr (g3, out1 @ out2)))"
proof -
  let ?n = "hl - length (gd_header g)"
  have "steps guard_step g (take ?n data) = settle (g\<lparr>gd_header := gd_header g @ take ?n data\<rparr>)"
    by (rule header_steps) (use assms in auto)
  with steps_append [of guard_step g "take ?n data" "drop ?n data"] show ?thesis by simp
qed

definition loop_agrees :: "guard \<Rightarrow> bytes \<Rightarrow> bytes list \<Rightarrow> bool" where
  "loop_agrees g data chunks =
     (case guard_loop g data chunks of
        (Inl e, _) \<Rightarrow> steps guard_step g data = Inl e
      | (Inr cs, g') \<Rightarrow> (\<exists>out. steps guard_step g data = Inr (g', out) \<and> concat cs = concat chunks @ out))"

lemma loop_agrees_after:
  assumes "guard_loop g data chunks = guard_loop g1 data1 chunks1" and "loop_agrees g1 data1 chunks1"
    and "steps guard_step g data = bind_sum (steps guard_step g1 data1) (\<lambda>(g3, out2). Inr (g3, out1 @ out2))"
    and "concat chunks1 = concat chunks @ out1"
  shows "loop_agrees g data chunks"
  using assms unfolding loop_agrees_def
  by (cases "guard_loop g1 data1 chunks1"; cases "fst (guard_loop g1 data1 chunks1)") auto

text \<open>The header stage as a whole: both halves end in \<open>settle\<close>.\<close>

lemma header_stage_first:
  assumes wf: "guard_wf g" and rem: "gd_remaining g = 0" and first: "first_two g data = (g1, data1)" and "data \<noteq> []"
  shows "steps guard_step g data = bind_sum (settle g1)
      (\<lambda>(g2, out1). bind_sum (steps guard_step g2 data1) (\<lambda>(g3, out2). Inr (g3, out1 @ out2)))
    \<and> gd_remaining g1 = 0
    \<and> (case gd_header_length g1 of None \<Rightarrow> length (gd_header g1) < 2
        | Some hl \<Rightarrow> 2 \<le> length (gd_header g1) \<and> length (gd_header g1) \<le> hl \<and> hl = header_size (gd_header g1 ! 1))"
proof (cases "gd_header_length g")
  case None
  with wf rem have short: "length (gd_header g) < 2" by (simp add: guard_wf_def)
  from first_two_steps [OF rem None short first assms(4)]
  have "steps guard_step g (take (length data - length data1) data) = settle g1"
    and d1: "data1 = drop (length data - length data1) data" by auto
  then have "steps guard_step g data = bind_sum (settle g1)
      (\<lambda>(g2, out1). bind_sum (steps guard_step g2 data1) (\<lambda>(g3, out2). Inr (g3, out1 @ out2)))"
    using steps_append [of guard_step g "take (length data - length data1) data" data1]
    by (metis append_take_drop_id)
  moreover have "gd_remaining g1 = 0" using first rem by (auto simp: first_two_def Let_def split: option.splits if_splits)
  moreover have "case gd_header_length g1 of None \<Rightarrow> length (gd_header g1) < 2
      | Some hl \<Rightarrow> length (gd_header g1) = 2 \<and> hl = header_size (gd_header g1 ! 1)"
    using first None short by (auto simp: first_two_def Let_def split: if_splits)
  ultimately show ?thesis using header_size_ge by (auto split: option.splits)
next
  case (Some hl)
  with first have "g1 = g" "data1 = data" by (auto simp: first_two_def)
  moreover have "settle g = Inr (g, [])" using wf rem Some by (simp add: guard_wf_def settle_def)
  ultimately show ?thesis using wf rem Some by (cases "steps guard_step g data") (auto simp: guard_wf_def)
qed

lemma header_stage_second:
  assumes "gd_remaining g1 = 0" and "gd_header_length g1 = Some hl" and "length (gd_header g1) \<le> hl"
  shows "bind_sum (settle g1) (\<lambda>(g2, out1). bind_sum (steps guard_step g2 data1) (\<lambda>(g3, out2). Inr (g3, out1 @ out2))) =
    bind_sum (settle (g1\<lparr>gd_header := gd_header g1 @ take (hl - length (gd_header g1)) data1\<rparr>))
      (\<lambda>(g2, out1). bind_sum (steps guard_step g2 (drop (hl - length (gd_header g1)) data1)) (\<lambda>(g3, out2). Inr (g3, out1 @ out2)))"
proof (cases "length (gd_header g1) = hl")
  case True
  then show ?thesis by simp
next
  case False
  with assms have less: "length (gd_header g1) < hl" by simp
  then have "settle g1 = Inr (g1, [])" using assms(2) by (simp add: settle_def)
  with settle_then [OF assms(1,2) less, of data1] show ?thesis
    by (simp add: case_prod_unfold)
qed

lemma header_stage:
  assumes "guard_wf g" and "gd_remaining g = 0" and "first_two g data = (g1, data1)" and "data \<noteq> []"
    and "gd_header_length g1 = Some hl"
    and "g2 = g1\<lparr>gd_header := gd_header g1 @ take (hl - length (gd_header g1)) data1\<rparr>"
  shows "steps guard_step g data = bind_sum (settle g2) (\<lambda>(g3, out1).
      bind_sum (steps guard_step g3 (drop (hl - length (gd_header g1)) data1)) (\<lambda>(g4, out2). Inr (g4, out1 @ out2)))
    \<and> gd_remaining g2 = 0 \<and> 2 \<le> length (gd_header g2) \<and> hl = header_size (gd_header g2 ! 1)"
proof -
  from header_stage_first [OF assms(1-4)] assms(5) have
    one: "steps guard_step g data = bind_sum (settle g1)
      (\<lambda>(g2, out1). bind_sum (steps guard_step g2 data1) (\<lambda>(g3, out2). Inr (g3, out1 @ out2)))"
    and g1: "gd_remaining g1 = 0" "2 \<le> length (gd_header g1)" "length (gd_header g1) \<le> hl" "hl = header_size (gd_header g1 ! 1)"
    by auto
  with header_stage_second [OF g1(1) assms(5) g1(3), of data1] assms(6) show ?thesis
    by (auto simp: nth_append)
qed

lemma guard_loop_payload:
  assumes "data \<noteq> []" and "0 < gd_remaining g"
  shows "steps guard_step g data = bind_sum (steps guard_step (g\<lparr>gd_remaining := gd_remaining g - min (gd_remaining g) (length data),
      gd_header_length := (if gd_remaining g = min (gd_remaining g) (length data) then None else gd_header_length g)\<rparr>)
      (drop (min (gd_remaining g) (length data)) data))
      (\<lambda>(g3, out2). Inr (g3, take (min (gd_remaining g) (length data)) data @ out2))"
proof -
  let ?n = "min (gd_remaining g) (length data)"
  have "steps guard_step g (take ?n data) = Inr (g\<lparr>gd_remaining := gd_remaining g - ?n,
      gd_header_length := (if gd_remaining g = ?n then None else gd_header_length g)\<rparr>, take ?n data)"
    using payload_steps [of "take ?n data" g] assms by auto
  with steps_append [of guard_step g "take ?n data" "drop ?n data"] show ?thesis by simp
qed

lemma guard_loop_agrees: "guard_wf g \<Longrightarrow> loop_agrees g data chunks"
proof (induction g data chunks rule: guard_loop.induct)
  case (1 g data chunks)
  note payload_IH = "1.IH"(1) and None_IH = "1.IH"(2) and short_IH = "1.IH"(3) and done_IH = "1.IH"(4)
  consider (empty) "data = []" | (payload) "data \<noteq> []" "gd_remaining g > 0" | (header) "data \<noteq> []" "gd_remaining g = 0"
    by blast
  then show ?case
  proof cases
    case empty
    then show ?thesis by (simp add: loop_agrees_def guard_loop.simps)
  next
    case payload
    show ?thesis
    proof (rule loop_agrees_after [OF _ payload_IH [OF payload refl refl] guard_loop_payload [OF payload]])
      show "guard_wf (g\<lparr>gd_remaining := gd_remaining g - min (gd_remaining g) (length data),
          gd_header_length := (if gd_remaining g = min (gd_remaining g) (length data) then None else gd_header_length g)\<rparr>)"
        using "1.prems" payload by (auto simp: guard_wf_def)
    qed (use payload in \<open>simp_all add: guard_loop.simps [of g] Let_def\<close>)
  next
    case header
    obtain g1 data1 where first: "first_two g data = (g1, data1)" by (cases "first_two g data")
    have loop: "guard_loop g data chunks =
        (case gd_header_length g1 of
           None \<Rightarrow> guard_loop g1 data1 chunks
         | Some hl \<Rightarrow>
             let n = min (hl - length (gd_header g1)) (length data1);
                 g2 = g1\<lparr>gd_header := gd_header g1 @ take n data1\<rparr>;
                 data2 = drop n data1
             in if length (gd_header g2) < hl then guard_loop g2 data2 chunks
                else (case header_done g2 of
                        Inl e \<Rightarrow> (Inl e, g2)
                      | Inr (chunk, g3) \<Rightarrow> guard_loop g3 data2 (chunks @ [chunk])))"
      using header by (simp add: guard_loop.simps [of g] first)
    note stage = header_stage_first [OF "1.prems" header(2) first header(1)]
    show ?thesis
    proof (cases "gd_header_length g1")
      case None
      from stage None have wf: "guard_wf g1" by (simp add: guard_wf_def)
      have "settle g1 = Inr (g1, [])" using None by (simp add: settle_def)
      with stage have eq: "steps guard_step g data = bind_sum (steps guard_step g1 data1) (\<lambda>(g3, out2). Inr (g3, [] @ out2))"
        by simp
      show ?thesis
      proof (rule loop_agrees_after [OF _ None_IH [OF header(1) _ first [symmetric] None wf] eq])
        show "guard_loop g data chunks = guard_loop g1 data1 chunks" using loop None by simp
      qed (use header in simp_all)
    next
      case (Some hl)
      define n where "n = min (hl - length (gd_header g1)) (length data1)"
      define g2 where "g2 = g1\<lparr>gd_header := gd_header g1 @ take n data1\<rparr>"
      have same: "take n data1 = take (hl - length (gd_header g1)) data1" "drop n data1 = drop (hl - length (gd_header g1)) data1"
        by (auto simp: n_def min_def)
      from header_stage [OF "1.prems" header(2) first header(1) Some, of g2]
      have eq: "steps guard_step g data = bind_sum (settle g2) (\<lambda>(g3, out1).
          bind_sum (steps guard_step g3 (drop n data1)) (\<lambda>(g4, out2). Inr (g4, out1 @ out2)))"
        and g2: "gd_remaining g2 = 0" "2 \<le> length (gd_header g2)" "hl = header_size (gd_header g2 ! 1)"
        by (simp_all add: g2_def same)
      have hl2: "gd_header_length g2 = Some hl" using Some by (simp add: g2_def)
      have loop2: "guard_loop g data chunks = (if length (gd_header g2) < hl then guard_loop g2 (drop n data1) chunks
          else (case header_done g2 of Inl e \<Rightarrow> (Inl e, g2)
                | Inr (chunk, g3) \<Rightarrow> guard_loop g3 (drop n data1) (chunks @ [chunk])))"
        using loop Some by (simp only: option.case Let_def n_def g2_def)
      show ?thesis
      proof (cases "length (gd_header g2) < hl")
        case True
        then have "settle g2 = Inr (g2, [])" using hl2 by (simp add: settle_def)
        with eq have eq': "steps guard_step g data = bind_sum (steps guard_step g2 (drop n data1)) (\<lambda>(g3, out2). Inr (g3, [] @ out2))"
          by simp
        have wf: "guard_wf g2" using g2 hl2 True by (simp add: guard_wf_def)
        have agrees: "loop_agrees g2 (drop n data1) chunks"
          by (rule short_IH [OF header(1) _ first [symmetric] Some n_def g2_def refl True wf]) (use header in simp)
        show ?thesis
          by (rule loop_agrees_after [OF _ agrees eq']) (use loop2 True in simp_all)
      next
        case False
        show ?thesis
        proof (cases "header_done g2")
          case (Inl e)
          with False hl2 have "settle g2 = Inl e" by (simp add: settle_def)
          with eq loop2 False Inl show ?thesis by (simp add: loop_agrees_def)
        next
          case (Inr r)
          obtain chunk g3 where r: "r = (chunk, g3)" by (cases r)
          with False hl2 Inr have settled: "settle g2 = Inr (g3, chunk)" by (simp add: settle_def)
          have wf: "guard_wf g3" by (rule settle_wf [OF settled g2(1)]) (use hl2 g2 in simp)
          from eq settled have eq': "steps guard_step g data = bind_sum (steps guard_step g3 (drop n data1)) (\<lambda>(g4, out2). Inr (g4, chunk @ out2))"
            by simp
          have agrees: "loop_agrees g3 (drop n data1) (chunks @ [chunk])"
            by (rule done_IH [OF header(1) _ first [symmetric] Some n_def g2_def refl False Inr r [symmetric] wf]) (use header in simp)
          show ?thesis
            by (rule loop_agrees_after [OF _ agrees eq']) (use loop2 False Inr r in simp_all)
        qed
      qed
    qed
  qed
qed

text \<open>What \<open>_receive_protocol_data\<close> forwards of one read: the chunks of \<open>feed\<close>, one after the other.\<close>

definition guard_stream :: "guard \<Rightarrow> bytes \<Rightarrow> ws_error + guard \<times> bytes" where
  "guard_stream g data =
     (case guard_feed g data of
        (Inl e, _) \<Rightarrow> Inl e
      | (Inr cs, g') \<Rightarrow> Inr (g', concat cs))"

lemma guard_stream_steps: "guard_wf g \<Longrightarrow> guard_stream g data = steps guard_step g data"
  using guard_loop_agrees [of g data "[]"]
  by (auto simp: guard_stream_def guard_feed_def loop_agrees_def split: prod.splits sum.splits)

interpretation ws_guard: bytewise_reader guard_step guard_stream guard_wf
  by unfold_locales (auto simp: guard_stream_steps intro: guard_step_wf)

section \<open>Frames\<close>

text \<open>A whole frame: its header, complete and accepted, and its payload of the declared length.\<close>

definition valid_frame :: "int \<Rightarrow> bytes \<times> bytes \<Rightarrow> bool" where
  "valid_frame m f = (2 \<le> length (fst f) \<and> length (fst f) = header_size (fst f ! 1) \<and>
     check_header m (fst f) = Inr (length (snd f)))"

definition frame_bytes :: "bytes \<times> bytes \<Rightarrow> bytes" where
  "frame_bytes f = fst f @ snd f"

lemma check_header_ok:
  assumes "check_header m h = Inr n"
  shows "int n \<le> m \<and> n < 2 ^ 63 \<and> h ! 1 AND 0x80 \<noteq> 0 \<and> (unat (h ! 0 AND 0x0F) \<ge> 8 \<longrightarrow> h ! 0 AND 0x80 \<noteq> 0 \<and> n \<le> 125)"
proof -
  from assms obtain b0 b1 r where h: "h = b0 # b1 # r" by (auto simp: check_header_def split: list.splits)
  have "drop_bit 63 k = 0 \<Longrightarrow> k < 2 ^ 63" for k :: nat
    by (metis drop_bit_eq_div div_eq_0_iff power_not_zero zero_neq_numeral)
  moreover have "be_nat (take 2 r) < 2 ^ 63"
  proof -
    have "be_nat (take 2 r) < 65536"
    proof -
      have small: "unat (x :: byte) * 256 + unat (y :: byte) < 65536" "unat (x :: byte) < 65536" for x y
        using byte_less_256 [of x] byte_less_256 [of y] by linarith+
      show ?thesis by (cases r; cases "tl r") (auto simp: be_nat_def small)
    qed
    then show ?thesis by simp
  qed
  moreover have "unat (b1 AND 0x7F) < 2 ^ 63"
    by (rule less_trans [OF byte_less_256]) simp
  ultimately show ?thesis using assms h
    by (auto simp: check_header_def Let_def split: if_splits)
qed

text \<open>Bytes are neither lost nor invented: what was forwarded, then the header being collected.\<close>

lemma settle_bytes: "settle g = Inr (g', out) \<Longrightarrow> out @ gd_header g' = gd_header g"
  by (auto simp: settle_def bind_sum_Inr_iff split: option.splits if_splits dest: header_done_Inr)

lemma guard_step_bytes:
  assumes "guard_wf g" and "guard_step g b = Inr (g', out)"
  shows "out @ gd_header g' = gd_header g @ [b]"
proof (cases "gd_remaining g > 0")
  case True
  with assms show ?thesis by (auto simp: guard_step_def guard_wf_def)
next
  case False
  with assms(2) have "settle (fst (first_two g [b])\<lparr>gd_header := gd_header g @ [b]\<rparr>) = Inr (g', out)"
    by (simp add: guard_step_def)
  from settle_bytes [OF this] show ?thesis by simp
qed

lemma guard_steps_bytes:
  "guard_wf g \<Longrightarrow> steps guard_step g bs = Inr (g', out) \<Longrightarrow> out @ gd_header g' = gd_header g @ bs"
proof (induction bs arbitrary: g out)
  case Nil
  then show ?case by simp
next
  case (Cons b bs)
  from Cons.prems(2) obtain g1 o1 o2 where "guard_step g b = Inr (g1, o1)" "steps guard_step g1 bs = Inr (g', o2)" "out = o1 @ o2"
    by (auto simp: bind_sum_Inr_iff)
  with Cons.IH [of g1 o2] guard_step_bytes [OF Cons.prems(1)] guard_step_wf [OF Cons.prems(1)] show ?case
    by (metis append.assoc append_Cons append_Nil)
qed

text \<open>The forwarded bytes are whole valid frames, then at most one valid header with part of its
  payload.\<close>

definition in_frames :: "int \<Rightarrow> guard \<Rightarrow> bytes \<Rightarrow> bool" where
  "in_frames m g out = (gd_max_payload g = m \<and>
     (\<exists>fs. (\<forall>f \<in> set fs. valid_frame m f) \<and>
       (if gd_remaining g = 0 then out = concat (map frame_bytes fs)
        else \<exists>h p. out = concat (map frame_bytes fs) @ h @ p \<and> 2 \<le> length h \<and> length h = header_size (h ! 1) \<and>
               check_header m h = Inr (length p + gd_remaining g))))"

lemma in_frames_init: "in_frames m (guard_init m) []"
  by (auto simp: in_frames_def guard_init_def intro: exI [of _ "[]"])

lemma frames_snoc: "concat (map frame_bytes (fs @ [f])) = concat (map frame_bytes fs) @ fst f @ snd f"
  by (simp add: frame_bytes_def)

lemma in_frames_whole:
  "gd_max_payload g = m \<Longrightarrow> gd_remaining g = 0 \<Longrightarrow> \<forall>f \<in> set fs. valid_frame m f \<Longrightarrow>
     out = concat (map frame_bytes fs) \<Longrightarrow> in_frames m g out"
  unfolding in_frames_def by auto

lemma in_frames_part:
  "gd_max_payload g = m \<Longrightarrow> gd_remaining g > 0 \<Longrightarrow> \<forall>f \<in> set fs. valid_frame m f \<Longrightarrow>
     out = concat (map frame_bytes fs) @ h @ p \<Longrightarrow> 2 \<le> length h \<Longrightarrow> length h = header_size (h ! 1) \<Longrightarrow>
     check_header m h = Inr (length p + gd_remaining g) \<Longrightarrow> in_frames m g out"
  unfolding in_frames_def
  by (rule conjI, assumption, rule exI [of _ fs], rule conjI, assumption, subst if_not_P, simp,
    rule exI [of _ h], rule exI [of _ p], simp)

lemma in_frames_payload:
  assumes "in_frames m g out" and "gd_remaining g > 0"
  shows "in_frames m (g\<lparr>gd_remaining := gd_remaining g - 1, gd_header_length := x\<rparr>) (out @ [b])"
proof -
  from assms obtain fs h p where fs: "\<forall>f \<in> set fs. valid_frame m f" and m: "gd_max_payload g = m"
    and out: "out = concat (map frame_bytes fs) @ h @ p" and h: "2 \<le> length h" "length h = header_size (h ! 1)"
    and pl: "check_header m h = Inr (length p + gd_remaining g)"
    by (auto simp: in_frames_def)
  show ?thesis
  proof (cases "gd_remaining g = 1")
    case True
    with h pl have "valid_frame m (h, p @ [b])" by (simp add: valid_frame_def)
    with fs have "\<forall>f \<in> set (fs @ [(h, p @ [b])]). valid_frame m f" by simp
    then show ?thesis
      by (rule in_frames_whole [rotated 2]) (use m True out frames_snoc [of fs "(h, p @ [b])"] in simp_all)
  next
    case False
    with assms(2) pl have "check_header m h = Inr (length (p @ [b]) + (gd_remaining g - 1))" by simp
    with m fs out h False assms(2) show ?thesis
      by (intro in_frames_part [where fs = fs and h = h and p = "p @ [b]"]) auto
  qed
qed

lemma in_frames_settle:
  assumes "in_frames m g1 out" and "gd_remaining g1 = 0" and "settle g = Inr (g', chunk)" and "gd_remaining g = 0"
    and "gd_max_payload g = m"
    and "case gd_header_length g of None \<Rightarrow> True | Some hl \<Rightarrow> 2 \<le> length (gd_header g) \<and> length (gd_header g) \<le> hl \<and> hl = header_size (gd_header g ! 1)"
  shows "in_frames m g' (out @ chunk)"
proof -
  from assms(1,2) obtain fs where fs: "\<forall>f \<in> set fs. valid_frame m f" "out = concat (map frame_bytes fs)"
    by (auto simp: in_frames_def)
  consider "g' = g" "chunk = []" | hl n where "gd_header_length g = Some hl" "\<not> length (gd_header g) < hl"
      "check_header m (gd_header g) = Inr n" "chunk = gd_header g" "gd_remaining g' = n" "gd_max_payload g' = m"
    using assms(3,5) by (auto simp: settle_def header_done_def bind_sum_Inr_iff split: option.splits if_splits)
  then show ?thesis
  proof cases
    case 1
    with fs assms(4,5) show ?thesis by (auto simp: in_frames_def)
  next
    case (2 hl n)
    with assms(6) have h: "2 \<le> length (gd_header g)" "length (gd_header g) = header_size (gd_header g ! 1)" by auto
    show ?thesis
    proof (cases "n = 0")
      case True
      with h 2 have "valid_frame m (gd_header g, [])" by (simp add: valid_frame_def)
      with fs have "\<forall>f \<in> set (fs @ [(gd_header g, [])]). valid_frame m f" by simp
      then show ?thesis
        by (rule in_frames_whole [rotated 2]) (use 2 True fs frames_snoc [of fs "(gd_header g, [])"] in simp_all)
    next
      case False
      with fs h 2 show ?thesis
        by (intro in_frames_part [where fs = fs and h = "gd_header g" and p = "[]"]) auto
    qed
  qed
qed

lemma in_frames_step:
  assumes "guard_wf g" and "in_frames m g out" and "guard_step g b = Inr (g', chunk)"
  shows "in_frames m g' (out @ chunk)"
proof (cases "gd_remaining g > 0")
  case True
  with assms(3) in_frames_payload [OF assms(2) True] show ?thesis by (auto simp: guard_step_def)
next
  case False
  let ?g = "fst (first_two g [b])\<lparr>gd_header := gd_header g @ [b]\<rparr>"
  from False assms(3) have settled: "settle ?g = Inr (g', chunk)" by (simp add: guard_step_def)
  from False have "gd_remaining g = 0" by simp
  then show ?thesis
    by (rule in_frames_settle [OF assms(2) _ settled])
      (use False assms(1,2) first_two_single [OF assms(1), of b] in
        \<open>auto simp: guard_wf_def in_frames_def nth_append header_size_ge [of b, simplified numeral_2_eq_2] split: option.splits if_splits\<close>)
qed

lemma valid_frame_steps:
  assumes "valid_frame m f"
  shows "steps guard_step (guard_init m) (frame_bytes f) = Inr (guard_init m, frame_bytes f)"
proof -
  obtain h p where f: "f = (h, p)" by (cases f)
  with assms have "2 \<le> length h" and len: "length h = header_size (h ! 1)" and ok: "check_header m h = Inr (length p)"
    by (auto simp: valid_frame_def)
  then obtain b0 b1 r where h: "h = b0 # b1 # r" by (cases h; cases "tl h") auto
  let ?g1 = "(guard_init m)\<lparr>gd_header := [b0, b1], gd_header_length := Some (length h)\<rparr>"
  have "first_two (guard_init m) (h @ p) = (?g1, r @ p)"
    using len by (simp add: first_two_def guard_init_def h)
  from header_stage [OF guard_wf_init _ this, of "length h" "?g1\<lparr>gd_header := h\<rparr>"]
  have run: "steps guard_step (guard_init m) (h @ p) = bind_sum (settle (?g1\<lparr>gd_header := h\<rparr>)) (\<lambda>(g3, out1).
      bind_sum (steps guard_step g3 p) (\<lambda>(g4, out2). Inr (g4, out1 @ out2)))"
    by (simp add: h guard_init_def)
  have settled: "settle (?g1\<lparr>gd_header := h\<rparr>) = Inr ((guard_init m)\<lparr>gd_remaining := length p,
      gd_header_length := (if p = [] then None else Some (length h))\<rparr>, h)"
    using ok by (simp add: settle_def header_done_def guard_init_def)
  show ?thesis
  proof (cases "p = []")
    case True
    with run settled f show ?thesis by (simp add: frame_bytes_def guard_init_def)
  next
    case False
    let ?g3 = "(guard_init m)\<lparr>gd_remaining := length p, gd_header_length := Some (length h)\<rparr>"
    have "steps guard_step ?g3 p = Inr (guard_init m, p)"
      using payload_steps [of p ?g3] False by (simp add: guard_init_def)
    with run settled f False show ?thesis by (simp add: frame_bytes_def)
  qed
qed

lemma frames_accepted:
  "\<forall>f \<in> set fs. valid_frame m f \<Longrightarrow>
     steps guard_step (guard_init m) (concat (map frame_bytes fs)) = Inr (guard_init m, concat (map frame_bytes fs))"
proof (induction fs)
  case (Cons f fs)
  then show ?case using valid_frame_steps [of m f] by (simp add: steps_append)
qed simp

section \<open>The properties\<close>

text \<open>The guard does not depend on how TCP cuts the stream: fed chunk by chunk, it gives the verdict
  it would give on the whole stream, for any two ways of cutting; and when it accepts, the bytes it
  forwarded followed by the header bytes it still holds are the bytes it was fed.\<close>

theorem guard_segmentation:
  assumes "concat cs = concat ds"
  shows "fst (run_chunks (collect_stream guard_stream) (guard_init m, []) cs) =
      fst (run_chunks (collect_stream guard_stream) (guard_init m, []) ds) \<and>
    (\<forall>g out. run_chunks (collect_stream guard_stream) (guard_init m, []) cs = (Inr None, (g, out)) \<longrightarrow>
       out @ gd_header g = concat cs)"
proof (intro conjI allI impI)
  have wf: "guard_wf (fst (guard_init m, [] :: bytes))" by (simp add: guard_wf_init)
  show "fst (run_chunks (collect_stream guard_stream) (guard_init m, []) cs) =
      fst (run_chunks (collect_stream guard_stream) (guard_init m, []) ds)"
    by (rule ws_guard.reader.segmentation_irrelevant [OF wf assms])
  fix g out
  assume "run_chunks (collect_stream guard_stream) (guard_init m, []) cs = (Inr None, (g, out))"
  with ws_guard.reader.run_chunks_undecided [OF wf, of cs]
  have "collect_stream guard_stream (guard_init m, []) (concat cs) = (Inr None, (g, out))" by simp
  then have "steps guard_step (guard_init m) (concat cs) = Inr (g, out)"
    by (auto simp: collect_stream_def guard_stream_steps guard_wf_init split: sum.splits)
  from guard_steps_bytes [OF guard_wf_init this] show "out @ gd_header g = concat cs"
    by (simp add: guard_init_def)
qed

text \<open>C15. Only frames within the limits get through: whatever bytes arrive, what the guard forwards is a
  sequence of whole valid frames followed by at most one valid header with a part of its payload; a
  valid header is masked, declares at most \<open>max_payload_bytes\<close> and fewer than 2^63 bytes, and for a
  control frame is final and declares at most 125.\<close>

theorem guard_forwards_frames:
  assumes "guard_stream (guard_init m) bs = Inr (g, out)"
  shows "in_frames m g out \<and>
    (\<forall>h n. check_header m h = Inr n \<longrightarrow> int n \<le> m \<and> n < 2 ^ 63 \<and> h ! 1 AND 0x80 \<noteq> 0 \<and>
       (unat (h ! 0 AND 0x0F) \<ge> 8 \<longrightarrow> h ! 0 AND 0x80 \<noteq> 0 \<and> n \<le> 125))"
  using ws_guard.stream_output_induct [OF guard_wf_init assms, of "in_frames m"] in_frames_init in_frames_step
    check_header_ok by blast

text \<open>Valid traffic is never refused: any sequence of valid frames, cut in any way, is accepted,
  forwarded in full, and leaves the guard as it was at the start.\<close>

theorem guard_accepts_frames:
  assumes "\<forall>f \<in> set fs. valid_frame m f" and "concat cs = concat (map frame_bytes fs)"
  shows "run_chunks (collect_stream guard_stream) (guard_init m, []) cs =
    (Inr None, (guard_init m, concat (map frame_bytes fs)))"
proof -
  have wf: "guard_wf (fst (guard_init m, [] :: bytes))" by (simp add: guard_wf_init)
  have one: "collect_stream guard_stream (guard_init m, []) (concat cs) =
      (Inr None, (guard_init m, concat (map frame_bytes fs)))"
    using frames_accepted [OF assms(1)] assms(2)
    by (simp add: collect_stream_def guard_stream_steps guard_wf_init)
  with ws_guard.reader.run_chunks_verdict [OF wf, of cs]
  have "fst (run_chunks (collect_stream guard_stream) (guard_init m, []) cs) = Inr None" by simp
  from ws_guard.reader.run_chunks_undecided [OF wf this] one show ?thesis by simp
qed

text \<open>A masked text frame of one byte, for the witnesses.\<close>

definition sample_frame :: "bytes \<times> bytes" where
  "sample_frame = ([0x81, 0x81, 1, 2, 3, 4], [0x65])"

lemma sample_frame_valid: "valid_frame 10 sample_frame"
  by (simp add: valid_frame_def sample_frame_def header_size_def check_header_def be_nat_def)

lemma guard_segmentation_witness:
  "fst (run_chunks (collect_stream guard_stream) (guard_init 10, []) [[0x81], [0x81, 1, 2], [3, 4, 0x65]]) =
     fst (run_chunks (collect_stream guard_stream) (guard_init 10, []) [[0x81, 0x81, 1, 2, 3, 4, 0x65]])"
  using guard_segmentation [of "[[0x81], [0x81, 1, 2], [3, 4, 0x65]]" "[[0x81, 0x81, 1, 2, 3, 4, 0x65]]" 10] by simp

lemma guard_forwards_frames_witness: "in_frames 10 (guard_init 10) (frame_bytes sample_frame)"
proof -
  have "guard_stream (guard_init 10) (frame_bytes sample_frame) = Inr (guard_init 10, frame_bytes sample_frame)"
    by (simp add: guard_stream_steps guard_wf_init valid_frame_steps sample_frame_valid)
  from guard_forwards_frames [OF this] show ?thesis by blast
qed

lemma guard_accepts_frames_witness:
  "run_chunks (collect_stream guard_stream) (guard_init 10, []) [[0x81, 0x81], [1, 2, 3, 4, 0x65]] =
     (Inr None, (guard_init 10, frame_bytes sample_frame))"
  using guard_accepts_frames [of "[sample_frame]" 10 "[[0x81, 0x81], [1, 2, 3, 4, 0x65]]"] sample_frame_valid
  by (simp add: frame_bytes_def sample_frame_def)

end
