(* ===== verification/Observer.thy ===== *)
theory Observer
  imports SS_Prelude
begin

text \<open>
  \<open>RouteObserverChannel\<close> and \<open>run_route_observer\<close> of \<open>smallserver/server.py\<close>: the bounded queue between
  the tasks that hit a route timeout and the task that calls the application's observer.

  The scheduler and the observer are parameters acting on a world \<open>'w\<close>: \<open>signal task\<close> tells whether
  \<open>sendSignal\<close> returned 0, \<open>observer event\<close> whether the call returned. Both are assumed not to call
  back into the channel; everything between two awaits is one step.
\<close>

section \<open>The channel\<close>

record 'a channel =
  ch_max_events :: int
  ch_events :: "'a list"
  ch_task :: "nat option"
  ch_accepting :: bool
  ch_dropped :: nat
  ch_failures :: nat

definition channel_init :: "int \<Rightarrow> 'a channel" where
  "channel_init m = \<lparr>ch_max_events = m, ch_events = [], ch_task = None, ch_accepting = True, ch_dropped = 0, ch_failures = 0\<rparr>"

definition channel_bind :: "nat \<Rightarrow> 'a channel \<Rightarrow> 'a channel" where
  "channel_bind task ch = ch\<lparr>ch_task := Some task\<rparr>"

definition channel_enqueue :: "(nat \<Rightarrow> 'w \<Rightarrow> bool \<times> 'w) \<Rightarrow> 'a \<Rightarrow> 'a channel \<Rightarrow> 'w \<Rightarrow> bool \<times> 'a channel \<times> 'w" where
  "channel_enqueue signal event ch w =
     (if \<not> ch_accepting ch \<or> int (length (ch_events ch)) \<ge> ch_max_events ch
      then (False, ch\<lparr>ch_dropped := ch_dropped ch + 1\<rparr>, w)
      else
        let ch1 = ch\<lparr>ch_events := ch_events ch @ [event]\<rparr>
        in case (case ch_task ch1 of None \<Rightarrow> (False, w) | Some task \<Rightarrow> signal task w) of
             (signalled, w1) \<Rightarrow>
               if \<not> signalled
               then (False, ch1\<lparr>ch_events := butlast (ch_events ch1), ch_dropped := ch_dropped ch1 + 1\<rparr>, w1)
               else (True, ch1, w1))"

text \<open>\<open>wake\<close> is \<open>acceptSignal\<close> on a task that is not done; what it raises is dropped.\<close>

definition channel_stop :: "(nat \<Rightarrow> 'w \<Rightarrow> 'w) \<Rightarrow> 'a channel \<Rightarrow> 'w \<Rightarrow> 'a channel \<times> 'w" where
  "channel_stop wake ch w =
     (ch\<lparr>ch_accepting := False, ch_dropped := ch_dropped ch + length (ch_events ch), ch_events := []\<rparr>,
      case ch_task ch of None \<Rightarrow> w | Some task \<Rightarrow> wake task w)"

section \<open>The observer task\<close>

text \<open>The inner loop, and one pass of the outer loop from a start or a wakeup to the next wait or the end.\<close>

fun drain_events :: "('a \<Rightarrow> 'w \<Rightarrow> bool \<times> 'w) \<Rightarrow> 'a list \<Rightarrow> nat \<Rightarrow> 'w \<Rightarrow> nat \<times> 'w" where
  "drain_events observer [] failures w = (failures, w)"
| "drain_events observer (event # events) failures w =
     (case observer event w of (returned, w1) \<Rightarrow>
        drain_events observer events (if returned then failures else failures + 1) w1)"

definition observer_pass :: "('a \<Rightarrow> 'w \<Rightarrow> bool \<times> 'w) \<Rightarrow> 'a channel \<Rightarrow> 'w \<Rightarrow> 'a channel \<times> 'w" where
  "observer_pass observer ch w =
     (if \<not> ch_accepting ch then (ch\<lparr>ch_task := None\<rparr>, w)
      else case drain_events observer (ch_events ch) (ch_failures ch) w of
             (failures, w1) \<Rightarrow> (ch\<lparr>ch_events := [], ch_failures := failures\<rparr>, w1))"

lemma drain_failures: "fst (drain_events observer events n w) \<le> n + length events"
proof (induction events arbitrary: n w)
  case (Cons e es)
  obtain returned w1 where "observer e w = (returned, w1)" by (cases "observer e w")
  with Cons [of "if returned then n else n + 1" w1] show ?case by (auto split: if_splits)
qed simp

section \<open>Runs\<close>

datatype 'a channel_op = Bind nat | Enqueue 'a | Pass | Stop

text \<open>The run records the events offered, the ones taken and the ones given to the observer.\<close>

record 'a channel_trace =
  tr_offered :: "'a list"
  tr_taken :: "'a list"
  tr_delivered :: "'a list"

fun channel_run ::
  "(nat \<Rightarrow> 'w \<Rightarrow> bool \<times> 'w) \<Rightarrow> (nat \<Rightarrow> 'w \<Rightarrow> 'w) \<Rightarrow> ('a \<Rightarrow> 'w \<Rightarrow> bool \<times> 'w) \<Rightarrow> 'a channel_op list \<Rightarrow>
   'a channel \<times> 'a channel_trace \<times> 'w \<Rightarrow> 'a channel \<times> 'a channel_trace \<times> 'w" where
  "channel_run signal wake observer [] s = s"
| "channel_run signal wake observer (op # ops) (ch, tr, w) =
     channel_run signal wake observer ops
       (case op of
          Bind task \<Rightarrow> (channel_bind task ch, tr, w)
        | Enqueue event \<Rightarrow>
            (case channel_enqueue signal event ch w of (taken, ch1, w1) \<Rightarrow>
               (ch1, tr\<lparr>tr_offered := tr_offered tr @ [event],
                        tr_taken := tr_taken tr @ (if taken then [event] else [])\<rparr>, w1))
        | Pass \<Rightarrow>
            (case observer_pass observer ch w of (ch1, w1) \<Rightarrow>
               (ch1, tr\<lparr>tr_delivered := tr_delivered tr @ (if ch_accepting ch then ch_events ch else [])\<rparr>, w1))
        | Stop \<Rightarrow> (case channel_stop wake ch w of (ch1, w1) \<Rightarrow> (ch1, tr, w1)))"

definition channel_ok :: "'a channel \<Rightarrow> 'a channel_trace \<Rightarrow> bool" where
  "channel_ok ch tr =
     ((\<exists>lost. tr_taken tr = tr_delivered tr @ ch_events ch @ lost \<and> (ch_accepting ch \<longrightarrow> lost = []) \<and>
         (\<not> ch_accepting ch \<longrightarrow> ch_events ch = [])) \<and>
      length (tr_offered tr) = length (tr_delivered tr) + length (ch_events ch) + ch_dropped ch \<and>
      int (length (ch_events ch)) \<le> ch_max_events ch \<and> ch_failures ch \<le> length (tr_delivered tr))"

lemma enqueue_ok:
  assumes "channel_ok ch tr" and "channel_enqueue signal event ch w = (taken, ch1, w1)"
  shows "channel_ok ch1 (tr\<lparr>tr_offered := tr_offered tr @ [event], tr_taken := tr_taken tr @ (if taken then [event] else [])\<rparr>)"
  using assms by (auto simp: channel_ok_def channel_enqueue_def Let_def split: if_splits option.splits prod.splits)

lemma pass_ok:
  assumes ok: "channel_ok ch tr" and run: "observer_pass observer ch w = (ch1, w1)"
  shows "channel_ok ch1 (tr\<lparr>tr_delivered := tr_delivered tr @ (if ch_accepting ch then ch_events ch else [])\<rparr>)"
proof (cases "ch_accepting ch")
  case True
  obtain n w2 where d: "drain_events observer (ch_events ch) (ch_failures ch) w = (n, w2)"
    by (cases "drain_events observer (ch_events ch) (ch_failures ch) w")
  then have "n \<le> ch_failures ch + length (ch_events ch)" using drain_failures [of observer "ch_events ch" "ch_failures ch" w] by simp
  with ok run True d show ?thesis by (auto simp: channel_ok_def observer_pass_def)
next
  case False
  with ok run show ?thesis by (auto simp: channel_ok_def observer_pass_def)
qed

lemma stop_ok: "channel_ok ch tr \<Longrightarrow> channel_ok (fst (channel_stop wake ch w)) tr"
  by (auto simp: channel_ok_def channel_stop_def)

lemma channel_run_ok:
  "channel_ok ch tr \<Longrightarrow> channel_run signal wake observer ops (ch, tr, w) = (ch', tr', w') \<Longrightarrow>
     channel_ok ch' tr' \<and> ch_max_events ch' = ch_max_events ch"
proof (induction ops arbitrary: ch tr w)
  case (Cons op ops)
  show ?case
  proof (cases op)
    case (Bind task)
    have "channel_ok (channel_bind task ch) tr" using Cons.prems(1) by (simp add: channel_ok_def channel_bind_def)
    from Cons.IH [OF this] Cons.prems(2) Bind show ?thesis by (simp add: channel_bind_def)
  next
    case (Enqueue event)
    obtain taken ch1 w1 where e: "channel_enqueue signal event ch w = (taken, ch1, w1)"
      by (cases "channel_enqueue signal event ch w")
    have "ch_max_events ch1 = ch_max_events ch"
      using e by (auto simp: channel_enqueue_def Let_def split: if_splits prod.splits option.splits)
    with Cons.IH [OF enqueue_ok [OF Cons.prems(1) e]] Cons.prems(2) Enqueue e show ?thesis by simp
  next
    case Pass
    obtain ch1 w1 where p: "observer_pass observer ch w = (ch1, w1)" by (cases "observer_pass observer ch w")
    have "ch_max_events ch1 = ch_max_events ch" using p by (auto simp: observer_pass_def split: if_splits prod.splits)
    with Cons.IH [OF pass_ok [OF Cons.prems(1) p]] Cons.prems(2) Pass p show ?thesis by simp
  next
    case Stop
    obtain ch1 w1 where st: "channel_stop wake ch w = (ch1, w1)" by (cases "channel_stop wake ch w")
    then have "channel_ok ch1 tr" using stop_ok [OF Cons.prems(1), of wake w] by simp
    moreover have "ch_max_events ch1 = ch_max_events ch" using st by (auto simp: channel_stop_def)
    ultimately show ?thesis using Cons.IH [of ch1 tr w1] Cons.prems(2) Stop st by simp
  qed
qed simp

section \<open>The property\<close>

text \<open>C34. No route error is lost silently. Over any run of the channel, whatever the scheduler and the
  observer do: the events given to the observer are the accepted ones, in order and each once, up to
  those still queued or cleared by a stop; every event offered was delivered, is queued, or is counted
  as dropped; and the queue never exceeds its configured maximum.\<close>

theorem route_errors_accounted:
  assumes "0 < m" and "channel_run signal wake observer ops (channel_init m, \<lparr>tr_offered = [], tr_taken = [], tr_delivered = []\<rparr>, w) = (ch, tr, w')"
  shows "(\<exists>lost. tr_taken tr = tr_delivered tr @ ch_events ch @ lost \<and> (ch_accepting ch \<longrightarrow> lost = [])) \<and>
    length (tr_offered tr) = length (tr_delivered tr) + length (ch_events ch) + ch_dropped ch \<and>
    int (length (ch_events ch)) \<le> m \<and> ch_failures ch \<le> length (tr_delivered tr)"
proof -
  have "channel_ok (channel_init m) \<lparr>tr_offered = [], tr_taken = [], tr_delivered = []\<rparr>"
    using assms(1) by (simp add: channel_ok_def channel_init_def)
  from channel_run_ok [OF this assms(2)] show ?thesis by (auto simp: channel_ok_def channel_init_def)
qed

text \<open>Room for one event: the second is dropped, the first delivered to an observer that raises.\<close>

lemma route_errors_accounted_witness:
  "\<exists>ch tr w'. channel_run (\<lambda>t w. (True, w)) (\<lambda>t w. w) (\<lambda>e w. (False, w)) [Bind 7, Enqueue (1::nat), Enqueue 2, Pass]
       (channel_init 1, \<lparr>tr_offered = [], tr_taken = [], tr_delivered = []\<rparr>, ()) = (ch, tr, w') \<and>
     tr_delivered tr = [1] \<and> ch_dropped ch = 1 \<and> length (tr_offered tr) = length (tr_delivered tr) + length (ch_events ch) + ch_dropped ch"
proof -
  let ?ch = "\<lparr>ch_max_events = 1, ch_events = [], ch_task = Some 7, ch_accepting = True, ch_dropped = 1, ch_failures = 1\<rparr>"
  let ?tr = "\<lparr>tr_offered = [1, 2], tr_taken = [1], tr_delivered = [1]\<rparr>"
  have run: "channel_run (\<lambda>t w. (True, w)) (\<lambda>t w. w) (\<lambda>e w. (False, w)) [Bind 7, Enqueue (1::nat), Enqueue 2, Pass]
      (channel_init 1, \<lparr>tr_offered = [], tr_taken = [], tr_delivered = []\<rparr>, ()) = (?ch, ?tr, ())"
    by (simp add: channel_init_def channel_bind_def channel_enqueue_def observer_pass_def)
  from route_errors_accounted [OF _ run] have "length (tr_offered ?tr) = length (tr_delivered ?tr) + length (ch_events ?ch) + ch_dropped ?ch" by simp
  moreover have "tr_delivered ?tr = [1]" "ch_dropped ?ch = 1" by simp_all
  ultimately show ?thesis using run by blast
qed

end
