(* ===== verification/Server_Handle.thy ===== *)
theory Server_Handle
  imports Registry Observer
begin

text \<open>
  \<open>ServerHandle\<close> of \<open>smallserver/server.py\<close>: who owns the listener, the wakeup channel, the accepted
  streams and the tasks of one server, and how they are released.

  Streams and tasks are numbered; the number is the \<open>id()\<close> of the object. The kernel, the scheduler and
  the coroutines are a parameter: \<open>host\<close> holds the calls the handle makes on them, each a function of a
  world \<open>'w\<close> whose result is \<open>Some e\<close> when the call raises \<open>e\<close>. They are assumed not to call back into the
  handle before they return. Where the code swallows what a call raises, the result says at most whether
  it did. \<open>host_ws_shutdown\<close> is \<open>request_shutdown\<close> of a registered WebSocket state; it is assumed not to raise, though
  it can pass on an exit that cancelling the handler raises (\<open>request_shutdown\<close> of \<open>WS_State\<close>), and \<open>_finish_close\<close> would
  then pass it on with nothing released. \<open>TransportHandle.closed\<close> of a stream is membership in \<open>sh_closed\<close>.
\<close>

section \<open>State\<close>

datatype owned = OWakeup | OListener | OConnection nat | OTask nat

record ('e, 'w) host =
  host_socket_close :: "nat \<Rightarrow> 'w \<Rightarrow> 'e option \<times> 'w"
  host_listener_close :: "'w \<Rightarrow> 'e option \<times> 'w"
  host_wakeup_close :: "'w \<Rightarrow> 'e option \<times> 'w"
  host_notify :: "'w \<Rightarrow> 'e option \<times> 'w"
  host_cancel :: "nat \<Rightarrow> 'w \<Rightarrow> 'e option \<times> 'w"
  host_resume :: "nat \<Rightarrow> 'w \<Rightarrow> 'w"
  host_signal :: "nat \<Rightarrow> 'w \<Rightarrow> 'e option \<times> 'w"
  host_cursor :: "'w \<Rightarrow> nat option"
  host_graceful :: "nat \<Rightarrow> 'w \<Rightarrow> bool \<times> 'w"
  host_ws_shutdown :: "nat \<Rightarrow> 'w \<Rightarrow> 'w"
  host_wake_observer :: "nat \<Rightarrow> 'w \<Rightarrow> 'w"
  host_new_task :: "'w \<Rightarrow> ('e + nat) \<times> 'w"
  host_fork :: "nat \<Rightarrow> 'w \<Rightarrow> 'e option \<times> 'w"
  host_finalized :: "'w \<Rightarrow> 'w"

record ('a, 'e) handle =
  sh_max_connections :: int
  sh_channel :: "'a channel option"
  sh_wakeup_closed :: "bool option"
  sh_listener_closed :: bool
  sh_on_finalized :: bool
  sh_close_requested :: bool
  sh_notification_sent :: bool
  sh_finalization_attempted :: bool
  sh_finished :: bool
  sh_failure :: "'e option"
  sh_cleanup_errors :: "(owned \<times> 'e) list"
  sh_listener_task :: "nat option"
  sh_listener_resumed :: bool
  sh_owned_tasks :: "nat list"
  sh_cancelled_task_ids :: "nat list"
  sh_connections :: "(nat \<times> nat) list"
  sh_closing :: "nat list"
  sh_pending_cancellations :: "nat list"
  sh_websocket_states :: "nat list"
  sh_capacity_waiting :: bool
  sh_graceful_connections :: "nat list"
  sh_graceful_closers :: "nat list"
  sh_closed :: "nat list"

definition handle_init :: "int \<Rightarrow> 'a channel option \<Rightarrow> bool \<Rightarrow> ('a, 'e) handle" where
  "handle_init max_connections channel has_wakeup =
     \<lparr>sh_max_connections = max_connections, sh_channel = channel,
      sh_wakeup_closed = (if has_wakeup then Some False else None), sh_listener_closed = False, sh_on_finalized = True,
      sh_close_requested = False, sh_notification_sent = False, sh_finalization_attempted = False, sh_finished = False,
      sh_failure = None, sh_cleanup_errors = [], sh_listener_task = None, sh_listener_resumed = False,
      sh_owned_tasks = [], sh_cancelled_task_ids = [], sh_connections = [], sh_closing = [],
      sh_pending_cancellations = [], sh_websocket_states = [], sh_capacity_waiting = False,
      sh_graceful_connections = [], sh_graceful_closers = [], sh_closed = []\<rparr>"

definition owned_connection_count :: "('a, 'e) handle \<Rightarrow> nat" where
  "owned_connection_count h = length (sh_connections h) + length (sh_closing h)"

definition handle_closed :: "('a, 'e) handle \<Rightarrow> bool" where
  "handle_closed h = sh_close_requested h"

definition dropped_route_error_events :: "('a, 'e) handle \<Rightarrow> nat" where
  "dropped_route_error_events h = (case sh_channel h of None \<Rightarrow> 0 | Some ch \<Rightarrow> ch_dropped ch)"

definition route_observer_failures :: "('a, 'e) handle \<Rightarrow> nat" where
  "route_observer_failures h = (case sh_channel h of None \<Rightarrow> 0 | Some ch \<Rightarrow> ch_failures ch)"

text \<open>Adding a key to a dict whose value is determined by the key.\<close>

definition add_key :: "nat \<Rightarrow> nat list \<Rightarrow> nat list" where
  "add_key k ks = (if k \<in> set ks then ks else ks @ [k])"

definition set_error :: "owned \<Rightarrow> 'e \<Rightarrow> ('a, 'e) handle \<Rightarrow> ('a, 'e) handle" where
  "set_error k e h = h\<lparr>sh_cleanup_errors := dict_set k e (sh_cleanup_errors h)\<rparr>"

definition pop_error :: "owned \<Rightarrow> ('a, 'e) handle \<Rightarrow> ('a, 'e) handle" where
  "pop_error k h = h\<lparr>sh_cleanup_errors := dict_pop k (sh_cleanup_errors h)\<rparr>"

section \<open>Closing streams and cancelling tasks\<close>

text \<open>\<open>KernelTransport.close\<close> on a stream: \<open>Some e\<close> when it raises, \<open>e\<close> being its \<open>close_error\<close> then.\<close>

definition close_stream :: "('e, 'w) host \<Rightarrow> nat \<Rightarrow> ('a, 'e) handle \<Rightarrow> 'w \<Rightarrow> 'e option \<times> ('a, 'e) handle \<times> 'w" where
  "close_stream host c h w =
     (if c \<in> set (sh_closed h) then (None, h, w)
      else case host_socket_close host c w of
             (Some e, w1) \<Rightarrow> (Some e, h, w1)
           | (None, w1) \<Rightarrow> (None, h\<lparr>sh_closed := c # sh_closed h\<rparr>, w1))"

text \<open>\<open>fin\<close> is \<open>_finish_close\<close>; while it runs itself, \<open>_finalization_attempted\<close> is set and \<open>fin\<close> is not used.\<close>

definition connection_close_failed ::
  "('e, 'w) host \<Rightarrow> (nat option \<Rightarrow> ('a, 'e) handle \<Rightarrow> 'w \<Rightarrow> ('a, 'e) handle \<times> 'w) \<Rightarrow> 'e \<Rightarrow> nat option \<Rightarrow> 'e option \<Rightarrow>
   ('a, 'e) handle \<Rightarrow> 'w \<Rightarrow> ('a, 'e) handle \<times> 'w" where
  "connection_close_failed host fin e task primary h w =
     (let h1 = h\<lparr>sh_failure := (case sh_failure h of
                   None \<Rightarrow> (case primary of None \<Rightarrow> Some e | Some p \<Rightarrow> Some p) | Some f \<Rightarrow> Some f),
                 sh_close_requested := True\<rparr>
      in if sh_finalization_attempted h1 then (h1, w)
         else case sh_wakeup_closed h1 of
                None \<Rightarrow> fin task h1 w
              | Some _ \<Rightarrow>
                  if sh_notification_sent h1 then (h1, w)
                  else (case host_notify host w of
                          (Some _, w1) \<Rightarrow> fin task h1 w1
                        | (None, w1) \<Rightarrow> (h1\<lparr>sh_notification_sent := True\<rparr>, w1)))"

definition close_or_retain ::
  "('e, 'w) host \<Rightarrow> (nat option \<Rightarrow> ('a, 'e) handle \<Rightarrow> 'w \<Rightarrow> ('a, 'e) handle \<times> 'w) \<Rightarrow> nat \<Rightarrow> nat option \<Rightarrow> 'e option \<Rightarrow>
   ('a, 'e) handle \<Rightarrow> 'w \<Rightarrow> bool \<times> ('a, 'e) handle \<times> 'w" where
  "close_or_retain host fin c task primary h w =
     (case close_stream host c h w of
        (None, h1, w1) \<Rightarrow> (True, pop_error (OConnection c) (h1\<lparr>sh_closing := removeAll c (sh_closing h1)\<rparr>), w1)
      | (Some e, h1, w1) \<Rightarrow>
          let h2 = (if c \<notin> fst ` set (sh_connections h1) then h1\<lparr>sh_closing := add_key c (sh_closing h1)\<rparr> else h1)
          in case connection_close_failed host fin e task primary (set_error (OConnection c) e h2) w1 of
               (h3, w2) \<Rightarrow> (False, h3, w2))"

definition cancel_or_retain_task :: "('e, 'w) host \<Rightarrow> nat \<Rightarrow> ('a, 'e) handle \<Rightarrow> 'w \<Rightarrow> bool \<times> ('a, 'e) handle \<times> 'w" where
  "cancel_or_retain_task host t h w =
     (case host_cancel host t w of
        (Some e, w1) \<Rightarrow>
          (False, set_error (OTask t) e (h\<lparr>sh_pending_cancellations := add_key t (sh_pending_cancellations h)\<rparr>), w1)
      | (None, w1) \<Rightarrow>
          (True, pop_error (OTask t) (h\<lparr>sh_pending_cancellations := removeAll t (sh_pending_cancellations h)\<rparr>), w1))"

section \<open>\<open>_finish_close\<close>\<close>

fun shutdown_websockets :: "('e, 'w) host \<Rightarrow> nat list \<Rightarrow> 'w \<Rightarrow> 'w" where
  "shutdown_websockets host [] w = w"
| "shutdown_websockets host (c # cs) w = shutdown_websockets host cs (host_ws_shutdown host c w)"

definition stop_observer :: "('e, 'w) host \<Rightarrow> ('a, 'e) handle \<Rightarrow> 'w \<Rightarrow> ('a, 'e) handle \<times> 'w" where
  "stop_observer host h w =
     (case sh_channel h of
        None \<Rightarrow> (h, w)
      | Some ch \<Rightarrow> (case channel_stop (host_wake_observer host) ch w of (ch1, w1) \<Rightarrow> (h\<lparr>sh_channel := Some ch1\<rparr>, w1)))"

definition close_wakeup :: "('e, 'w) host \<Rightarrow> ('a, 'e) handle \<Rightarrow> 'w \<Rightarrow> ('a, 'e) handle \<times> 'w" where
  "close_wakeup host h w =
     (if sh_wakeup_closed h = Some False
      then (case host_wakeup_close host w of
              (Some e, w1) \<Rightarrow> (set_error OWakeup e h, w1)
            | (None, w1) \<Rightarrow> (pop_error OWakeup (h\<lparr>sh_wakeup_closed := Some True\<rparr>), w1))
      else (h, w))"

fun retry_closing :: "('e, 'w) host \<Rightarrow> nat list \<Rightarrow> ('a, 'e) handle \<Rightarrow> 'w \<Rightarrow> ('a, 'e) handle \<times> 'w" where
  "retry_closing host [] h w = (h, w)"
| "retry_closing host (c # cs) h w =
     (case close_stream host c h w of
        (None, h1, w1) \<Rightarrow>
          retry_closing host cs (pop_error (OConnection c) (h1\<lparr>sh_closing := removeAll c (sh_closing h1)\<rparr>)) w1
      | (Some e, h1, w1) \<Rightarrow> retry_closing host cs (set_error (OConnection c) e h1) w1)"

text \<open>Cancel a task and note that it is gone.\<close>

definition cancel_noted :: "('e, 'w) host \<Rightarrow> nat \<Rightarrow> ('a, 'e) handle \<Rightarrow> 'w \<Rightarrow> ('a, 'e) handle \<times> 'w" where
  "cancel_noted host t h w =
     (case cancel_or_retain_task host t h w of
        (True, h1, w1) \<Rightarrow> (h1\<lparr>sh_cancelled_task_ids := add_key t (sh_cancelled_task_ids h1)\<rparr>, w1)
      | (False, h1, w1) \<Rightarrow> (h1, w1))"

fun retry_cancellations :: "('e, 'w) host \<Rightarrow> nat list \<Rightarrow> ('a, 'e) handle \<Rightarrow> 'w \<Rightarrow> ('a, 'e) handle \<times> 'w" where
  "retry_cancellations host [] h w = (h, w)"
| "retry_cancellations host (t # ts) h w =
     (case cancel_noted host t h w of (h1, w1) \<Rightarrow> retry_cancellations host ts h1 w1)"

text \<open>The task of one connection: cancelled by the owner thread, otherwise told to stop. The result is whether
  the connection ends by itself.\<close>

definition stop_connection ::
  "('e, 'w) host \<Rightarrow> bool \<Rightarrow> nat option \<Rightarrow> nat \<Rightarrow> nat \<Rightarrow> nat list \<Rightarrow> ('a, 'e) handle \<Rightarrow> 'w \<Rightarrow>
   bool \<times> nat list \<times> ('a, 'e) handle \<times> 'w" where
  "stop_connection host owner current c t attempted h w =
     (if owner then
        (if Some t \<noteq> current \<and> t \<notin> set (sh_cancelled_task_ids h) \<and> t \<notin> set attempted
         then (case cancel_noted host t h w of (h1, w1) \<Rightarrow> (False, t # attempted, h1, w1))
         else (False, attempted, h, w))
      else if Some t \<noteq> current then
        (let websocket_owned = c \<in> set (sh_websocket_states h)
         in if c \<in> set (sh_graceful_closers h)
            then (case host_graceful host c w of
                    (True, w1) \<Rightarrow> (True, attempted, h, w1)
                  | (False, w1) \<Rightarrow> (websocket_owned, attempted, h, host_resume host t w1))
            else (websocket_owned, attempted, h, host_resume host t w))
      else (False, attempted, h, w))"

fun close_connections ::
  "('e, 'w) host \<Rightarrow> bool \<Rightarrow> nat option \<Rightarrow> (nat \<times> nat) list \<Rightarrow> nat list \<Rightarrow> ('a, 'e) handle \<Rightarrow> 'w \<Rightarrow>
   nat list \<times> ('a, 'e) handle \<times> 'w" where
  "close_connections host owner current [] attempted h w = (attempted, h, w)"
| "close_connections host owner current ((c, t) # entries) attempted h w =
     (case stop_connection host owner current c t attempted h w of
        (graceful, attempted1, h1, w1) \<Rightarrow>
          if Some t \<noteq> current \<and> \<not> (\<not> owner \<and> graceful)
          then (case close_or_retain host (\<lambda>_ h w. (h, w)) c current None
                       (h1\<lparr>sh_connections := dict_pop c (sh_connections h1)\<rparr>) w1 of
                  (_, h2, w2) \<Rightarrow> close_connections host owner current entries attempted1 h2 w2)
          else close_connections host owner current entries attempted1 h1 w1)"

fun cancel_owned :: "('e, 'w) host \<Rightarrow> nat option \<Rightarrow> nat list \<Rightarrow> nat list \<Rightarrow> ('a, 'e) handle \<Rightarrow> 'w \<Rightarrow> ('a, 'e) handle \<times> 'w" where
  "cancel_owned host current [] attempted h w = (h, w)"
| "cancel_owned host current (t # ts) attempted h w =
     (if Some t = current \<or> t \<in> set (sh_cancelled_task_ids h) \<or> t \<in> set attempted
      then cancel_owned host current ts attempted h w
      else case cancel_noted host t h w of (h1, w1) \<Rightarrow> cancel_owned host current ts (t # attempted) h1 w1)"

definition resume_listener :: "('e, 'w) host \<Rightarrow> nat option \<Rightarrow> ('a, 'e) handle \<Rightarrow> 'w \<Rightarrow> ('a, 'e) handle \<times> 'w" where
  "resume_listener host current h w =
     (case sh_listener_task h of
        None \<Rightarrow> (h, w)
      | Some t \<Rightarrow>
          if Some t \<noteq> current \<and> \<not> sh_listener_resumed h
          then (h\<lparr>sh_listener_resumed := True\<rparr>, host_resume host t w) else (h, w))"

definition close_listener :: "('e, 'w) host \<Rightarrow> ('a, 'e) handle \<Rightarrow> 'w \<Rightarrow> ('a, 'e) handle \<times> 'w" where
  "close_listener host h w =
     (if sh_listener_closed h then (h, w)
      else case host_listener_close host w of
             (Some e, w1) \<Rightarrow> (set_error OListener e h, w1)
           | (None, w1) \<Rightarrow> (pop_error OListener (h\<lparr>sh_listener_closed := True\<rparr>), w1))"

definition released :: "('a, 'e) handle \<Rightarrow> bool" where
  "released h = (sh_close_requested h \<and> sh_wakeup_closed h \<noteq> Some False \<and> sh_listener_closed h \<and>
     sh_connections h = [] \<and> sh_closing h = [] \<and> sh_pending_cancellations h = [] \<and> sh_websocket_states h = [])"

definition update_finished :: "('e, 'w) host \<Rightarrow> ('a, 'e) handle \<Rightarrow> 'w \<Rightarrow> ('a, 'e) handle \<times> 'w" where
  "update_finished host h w =
     (let was_finished = sh_finished h;
          h1 = h\<lparr>sh_finished := released h\<rparr>
      in if sh_finished h1 then
           (let h2 = h1\<lparr>sh_cleanup_errors := []\<rparr>
            in if was_finished then (h2, w)
               else if sh_on_finalized h2 then (h2\<lparr>sh_on_finalized := False\<rparr>, host_finalized host w)
               else (h2, w))
         else (h1, w))"

definition finish_close :: "('e, 'w) host \<Rightarrow> bool \<Rightarrow> nat option \<Rightarrow> ('a, 'e) handle \<Rightarrow> 'w \<Rightarrow> ('a, 'e) handle \<times> 'w" where
  "finish_close host owner current h w =
     (if sh_finished h then (h, w)
      else
        let h0 = h\<lparr>sh_close_requested := True, sh_finalization_attempted := True\<rparr>;
            w0 = shutdown_websockets host (sh_websocket_states h0) w
        in case stop_observer host h0 w0 of (h1, w1) \<Rightarrow>
           case close_wakeup host h1 w1 of (h2, w2) \<Rightarrow>
           case retry_closing host (sh_closing h2) h2 w2 of (h3, w3) \<Rightarrow>
           case retry_cancellations host (sh_pending_cancellations h3) h3 w3 of (h4, w4) \<Rightarrow>
           case close_connections host owner current (sh_connections h4) (sh_pending_cancellations h3) h4 w4 of
             (attempted, h5, w5) \<Rightarrow>
           case (if owner
                 then (case cancel_owned host current (sh_owned_tasks h5) attempted h5 w5 of
                         (h6, w6) \<Rightarrow> (h6\<lparr>sh_listener_resumed := True\<rparr>, w6))
                 else (h5, w5)) of (h6, w6) \<Rightarrow>
           case resume_listener host current h6 w6 of (h7, w7) \<Rightarrow>
           case close_listener host h7 w7 of (h8, w8) \<Rightarrow>
           update_finished host h8 w8)"

section \<open>The other operations\<close>

definition finish_from_task :: "('e, 'w) host \<Rightarrow> nat option \<Rightarrow> ('a, 'e) handle \<Rightarrow> 'w \<Rightarrow> ('a, 'e) handle \<times> 'w" where
  "finish_from_task host task h w = finish_close host False task h w"

text \<open>\<open>finalize\<close>, for the owner of a runtime that has stopped.\<close>

definition finalize :: "('e, 'w) host \<Rightarrow> ('a, 'e) handle \<Rightarrow> 'w \<Rightarrow> ('a, 'e) handle \<times> 'w" where
  "finalize host h w = finish_close host True None h w"

definition listener_failed :: "('e, 'w) host \<Rightarrow> 'e \<Rightarrow> nat option \<Rightarrow> ('a, 'e) handle \<Rightarrow> 'w \<Rightarrow> ('a, 'e) handle \<times> 'w" where
  "listener_failed host e task h w =
     (let h1 = h\<lparr>sh_failure := (case sh_failure h of None \<Rightarrow> Some e | Some f \<Rightarrow> Some f), sh_close_requested := True\<rparr>
      in if sh_wakeup_closed h1 \<noteq> None \<and> \<not> sh_notification_sent h1
         then (case host_notify host w of
                 (None, w1) \<Rightarrow> (h1\<lparr>sh_notification_sent := True\<rparr>, w1)
               | (Some _, w1) \<Rightarrow> finish_from_task host task h1 w1)
         else if sh_notification_sent h1 then (h1, w)
         else finish_from_task host task h1 w)"

text \<open>\<open>host_signal\<close> raises as the \<open>try\<close> block does: also when \<open>acceptSignal\<close> returns a non-zero code.\<close>

definition notify_capacity_released :: "('e, 'w) host \<Rightarrow> nat \<Rightarrow> ('a, 'e) handle \<Rightarrow> 'w \<Rightarrow> ('a, 'e) handle \<times> 'w" where
  "notify_capacity_released host previous h w =
     (case sh_listener_task h of
        None \<Rightarrow> (h, w)
      | Some t \<Rightarrow>
          if \<not> sh_capacity_waiting h \<or> int previous < sh_max_connections h \<or>
             int (owned_connection_count h) \<ge> sh_max_connections h
          then (h, w)
          else (case host_signal host t w of
                  (None, w1) \<Rightarrow> (h, w1)
                | (Some e, w1) \<Rightarrow> listener_failed host e (host_cursor host w1) h w1))"

definition force_connection_close ::
  "('e, 'w) host \<Rightarrow> nat \<Rightarrow> nat option \<Rightarrow> 'e option \<Rightarrow> ('a, 'e) handle \<Rightarrow> 'w \<Rightarrow> bool \<times> ('a, 'e) handle \<times> 'w" where
  "force_connection_close host c task primary h w =
     close_or_retain host (finish_from_task host) c task primary
       (h\<lparr>sh_graceful_connections := removeAll c (sh_graceful_connections h),
          sh_graceful_closers := removeAll c (sh_graceful_closers h)\<rparr>) w"

text \<open>The stream's rollback failed with \<open>e\<close>, its \<open>close_error\<close>.\<close>

definition accepted_setup_failed ::
  "('e, 'w) host \<Rightarrow> 'e \<Rightarrow> nat \<Rightarrow> 'e \<Rightarrow> nat option \<Rightarrow> ('a, 'e) handle \<Rightarrow> 'w \<Rightarrow> ('a, 'e) handle \<times> 'w" where
  "accepted_setup_failed host primary c e task h w =
     (let h1 = set_error (OConnection c) e (h\<lparr>sh_closing := add_key c (sh_closing h)\<rparr>)
      in connection_close_failed host (finish_from_task host) e task (Some primary)
           (h1\<lparr>sh_failure := (case sh_failure h1 of None \<Rightarrow> Some primary | Some f \<Rightarrow> Some f)\<rparr>) w)"

definition connection_finished ::
  "('e, 'w) host \<Rightarrow> nat \<Rightarrow> nat \<Rightarrow> 'e option \<Rightarrow> ('a, 'e) handle \<Rightarrow> 'w \<Rightarrow> ('a, 'e) handle \<times> 'w" where
  "connection_finished host task c primary h w =
     (let previous = owned_connection_count h;
          owned_task = (case map_of (sh_connections h) c of None \<Rightarrow> task | Some t \<Rightarrow> t);
          h1 = h\<lparr>sh_connections := dict_pop c (sh_connections h),
                 sh_graceful_connections := removeAll c (sh_graceful_connections h),
                 sh_graceful_closers := removeAll c (sh_graceful_closers h),
                 sh_owned_tasks := remove1 owned_task (sh_owned_tasks h)\<rparr>
      in case close_or_retain host (finish_from_task host) c (Some task) primary h1 w of (_, h2, w2) \<Rightarrow>
         case notify_capacity_released host previous h2 w2 of (h3, w3) \<Rightarrow>
         update_finished host h3 w3)"

datatype 'e close_outcome = CloseReturned | NeedsScheduler | CleanupIncomplete | NotifyRaised 'e | WrongTask

definition handle_close :: "('e, 'w) host \<Rightarrow> ('a, 'e) handle \<Rightarrow> 'w \<Rightarrow> 'e close_outcome \<times> ('a, 'e) handle \<times> 'w" where
  "handle_close host h w =
     (if sh_finished h then (CloseReturned, h, w)
      else if sh_wakeup_closed h = None then (NeedsScheduler, h, w)
      else
        let h1 = h\<lparr>sh_close_requested := True\<rparr>
        in if sh_notification_sent h1
           then (if sh_finalization_attempted h1 \<and> \<not> sh_finished h1 then CleanupIncomplete else CloseReturned, h1, w)
           else (case host_notify host w of
                   (Some e, w1) \<Rightarrow> (NotifyRaised e, h1, w1)
                 | (None, w1) \<Rightarrow> (CloseReturned, h1\<lparr>sh_notification_sent := True\<rparr>, w1)))"

definition close_from_task :: "('e, 'w) host \<Rightarrow> nat \<Rightarrow> ('a, 'e) handle \<Rightarrow> 'w \<Rightarrow> 'e close_outcome \<times> ('a, 'e) handle \<times> 'w" where
  "close_from_task host task h w =
     (if host_cursor host w \<noteq> Some task then (WrongTask, h, w)
      else if sh_finished h then (CloseReturned, h, w)
      else
        let h1 = h\<lparr>sh_close_requested := True, sh_finalization_attempted := True\<rparr>;
            w1 = shutdown_websockets host (sh_websocket_states h1) w
        in case finish_from_task host (Some task) h1 w1 of (h2, w2) \<Rightarrow> (CloseReturned, h2, w2))"

definition abort_startup :: "('e, 'w) host \<Rightarrow> nat list \<Rightarrow> ('a, 'e) handle \<Rightarrow> 'w \<Rightarrow> ('a, 'e) handle \<times> 'w" where
  "abort_startup host tasks h w =
     finish_close host True None (h\<lparr>sh_close_requested := True, sh_owned_tasks := tasks\<rparr>) w"

text \<open>What the connection tasks do to the handle: an HTTP/2 connection registers its graceful closer, a
  WebSocket its state.\<close>

definition register_graceful :: "nat \<Rightarrow> ('a, 'e) handle \<Rightarrow> ('a, 'e) handle" where
  "register_graceful c h = h\<lparr>sh_graceful_connections := add_key c (sh_graceful_connections h),
     sh_graceful_closers := add_key c (sh_graceful_closers h)\<rparr>"

definition websocket_begun :: "nat \<Rightarrow> ('a, 'e) handle \<Rightarrow> ('a, 'e) handle" where
  "websocket_begun c h = h\<lparr>sh_websocket_states := add_key c (sh_websocket_states h)\<rparr>"

definition websocket_ended :: "nat \<Rightarrow> ('a, 'e) handle \<Rightarrow> ('a, 'e) handle" where
  "websocket_ended c h = h\<lparr>sh_websocket_states := removeAll c (sh_websocket_states h)\<rparr>"

section \<open>The accept loop\<close>

text \<open>\<open>SmallServer._accept_loop\<close>, cut at its awaits; \<open>Failed\<close> when an exception has left it.\<close>

datatype listener_pc = AtTop | WaitingCapacity | Accepting | Yielding | Returned | Failed

text \<open>The registration of an accepted stream: \<open>Some e\<close> when it raised.\<close>

definition register_connection ::
  "('e, 'w) host \<Rightarrow> nat \<Rightarrow> nat \<Rightarrow> ('a, 'e) handle \<Rightarrow> 'w \<Rightarrow> 'e option \<times> ('a, 'e) handle \<times> 'w" where
  "register_connection host task c h w =
     (case host_new_task host w of
        (Inl e, w1) \<Rightarrow>
          (case close_or_retain host (finish_from_task host) c (Some task) (Some e)
                  (h\<lparr>sh_connections := dict_pop c (sh_connections h)\<rparr>) w1 of (_, h2, w2) \<Rightarrow>
           case listener_failed host e (Some task) h2 w2 of (h3, w3) \<Rightarrow> (Some e, h3, w3))
      | (Inr t, w1) \<Rightarrow>
          let h1 = h\<lparr>sh_connections := dict_set c t (sh_connections h), sh_owned_tasks := sh_owned_tasks h @ [t]\<rparr>
          in case host_fork host t w1 of
               (None, w2) \<Rightarrow> (None, h1, w2)
             | (Some e, w2) \<Rightarrow>
                 (case cancel_or_retain_task host t h1 w2 of (cancelled, h2, w3) \<Rightarrow>
                  let h3 = (if cancelled then h2\<lparr>sh_owned_tasks := remove1 t (sh_owned_tasks h2)\<rparr> else h2)
                  in case close_or_retain host (finish_from_task host) c (Some task) (Some e)
                            (h3\<lparr>sh_connections := dict_pop c (sh_connections h3)\<rparr>) w3 of (_, h4, w4) \<Rightarrow>
                     case listener_failed host e (Some task) h4 w4 of (h5, w5) \<Rightarrow> (Some e, h5, w5)))"

definition accept_top :: "('a, 'e) handle \<Rightarrow> listener_pc \<times> ('a, 'e) handle" where
  "accept_top h =
     (if handle_closed h then (Returned, h)
      else if int (owned_connection_count h) \<ge> sh_max_connections h
      then (WaitingCapacity, h\<lparr>sh_capacity_waiting := True\<rparr>)
      else (Accepting, h))"

definition capacity_signalled :: "('a, 'e) handle \<Rightarrow> listener_pc \<times> ('a, 'e) handle" where
  "capacity_signalled h = (AtTop, h\<lparr>sh_capacity_waiting := False\<rparr>)"

text \<open>\<open>transport.accept\<close> returned a stream; \<open>batch\<close> is \<open>accepted_in_batch\<close>.\<close>

definition accept_stream ::
  "('e, 'w) host \<Rightarrow> int \<Rightarrow> nat \<Rightarrow> nat \<Rightarrow> int \<Rightarrow> ('a, 'e) handle \<Rightarrow> 'w \<Rightarrow> (listener_pc \<times> int) \<times> ('a, 'e) handle \<times> 'w" where
  "accept_stream host batch_size task c batch0 h w =
     (let batch = batch0 + 1;
          next_pc = (if batch \<ge> batch_size then (Yielding, 0) else (AtTop, batch))
      in if handle_closed h then
           (case close_or_retain host (finish_from_task host) c (Some task) None h w of
              (ok, h1, w1) \<Rightarrow> (if ok then next_pc else (Failed, batch), h1, w1))
         else
           (case register_connection host task c h w of
              (Some e, h1, w1) \<Rightarrow> ((Failed, batch), h1, w1)
            | (None, h1, w1) \<Rightarrow> (next_pc, h1, w1)))"

definition accept_setup_failure ::
  "('e, 'w) host \<Rightarrow> nat \<Rightarrow> 'e \<Rightarrow> nat \<Rightarrow> 'e \<Rightarrow> ('a, 'e) handle \<Rightarrow> 'w \<Rightarrow> listener_pc \<times> ('a, 'e) handle \<times> 'w" where
  "accept_setup_failure host task primary c e h w =
     (case accepted_setup_failed host primary c e (Some task) h w of (h1, w1) \<Rightarrow> (Failed, h1, w1))"

definition accept_raised :: "('e, 'w) host \<Rightarrow> nat \<Rightarrow> 'e \<Rightarrow> ('a, 'e) handle \<Rightarrow> 'w \<Rightarrow> listener_pc \<times> ('a, 'e) handle \<times> 'w" where
  "accept_raised host task e h w =
     (if handle_closed h then (Returned, h, w)
      else case listener_failed host e (Some task) h w of (h1, w1) \<Rightarrow> (Failed, h1, w1))"

end
