(* ===== verification/Handle_Ownership.thy ===== *)
theory Handle_Ownership
  imports Server_Handle
begin

text \<open>
  Ownership of streams in \<open>ServerHandle\<close>. For every operation: which streams it owns afterwards and which it
  has closed, what it does to the flags of the shutdown, and when it calls the completion callback. A step
  is split in three relations, one for each of these, so that they compose separately.
\<close>

section \<open>The host\<close>

text \<open>Two counters on the world: completions called and capacity signals delivered. No call of the host other than
  the completion callback and a delivered signal counts.\<close>

definition quiet :: "('w \<Rightarrow> nat) \<Rightarrow> ('w \<Rightarrow> nat) \<Rightarrow> 'w \<Rightarrow> 'w \<Rightarrow> bool" where
  "quiet calls sigs w w' = (calls w' = calls w \<and> sigs w \<le> sigs w')"

definition counted_host :: "('w \<Rightarrow> nat) \<Rightarrow> ('w \<Rightarrow> nat) \<Rightarrow> ('e, 'w) host \<Rightarrow> bool" where
  "counted_host calls sigs host =
     ((\<forall>c w. quiet calls sigs w (snd (host_socket_close host c w))) \<and>
      (\<forall>w. quiet calls sigs w (snd (host_listener_close host w))) \<and>
      (\<forall>w. quiet calls sigs w (snd (host_wakeup_close host w))) \<and>
      (\<forall>w. quiet calls sigs w (snd (host_notify host w))) \<and>
      (\<forall>t w. quiet calls sigs w (snd (host_cancel host t w))) \<and>
      (\<forall>t w. quiet calls sigs w (host_resume host t w)) \<and>
      (\<forall>t w. quiet calls sigs w (snd (host_signal host t w))) \<and>
      (\<forall>t w. fst (host_signal host t w) = None \<longrightarrow> sigs w < sigs (snd (host_signal host t w))) \<and>
      (\<forall>c w. quiet calls sigs w (snd (host_graceful host c w))) \<and>
      (\<forall>c w. quiet calls sigs w (host_ws_shutdown host c w)) \<and>
      (\<forall>t w. quiet calls sigs w (host_wake_observer host t w)) \<and>
      (\<forall>w. quiet calls sigs w (snd (host_new_task host w))) \<and>
      (\<forall>t w. quiet calls sigs w (snd (host_fork host t w))) \<and>
      (\<forall>w. calls (host_finalized host w) = Suc (calls w) \<and> sigs w \<le> sigs (host_finalized host w)))"

lemma quiet_refl [simp]: "quiet calls sigs w w"
  by (simp add: quiet_def)

lemma quiet_trans: "quiet calls sigs w w1 \<Longrightarrow> quiet calls sigs w1 w2 \<Longrightarrow> quiet calls sigs w w2"
  by (simp add: quiet_def)

lemma host_is_quiet:
  assumes "counted_host calls sigs host"
  shows quiet_close: "host_socket_close host c w = (r, w1) \<Longrightarrow> quiet calls sigs w w1"
    and quiet_listener: "host_listener_close host w = (r, w1) \<Longrightarrow> quiet calls sigs w w1"
    and quiet_wakeup: "host_wakeup_close host w = (r, w1) \<Longrightarrow> quiet calls sigs w w1"
    and quiet_notify: "host_notify host w = (r, w1) \<Longrightarrow> quiet calls sigs w w1"
    and quiet_cancel: "host_cancel host t w = (r, w1) \<Longrightarrow> quiet calls sigs w w1"
    and quiet_resume: "quiet calls sigs w (host_resume host t w)"
    and quiet_signal: "host_signal host t w = (r, w1) \<Longrightarrow> quiet calls sigs w w1"
    and signal_counts: "host_signal host t w = (None, w1) \<Longrightarrow> sigs w < sigs w1"
    and quiet_graceful: "host_graceful host c w = (ok, w1) \<Longrightarrow> quiet calls sigs w w1"
    and quiet_ws_shutdown: "quiet calls sigs w (host_ws_shutdown host c w)"
    and quiet_wake: "quiet calls sigs w (host_wake_observer host t w)"
    and quiet_new_task: "host_new_task host w = (nt, w1) \<Longrightarrow> quiet calls sigs w w1"
    and quiet_fork: "host_fork host t w = (r, w1) \<Longrightarrow> quiet calls sigs w w1"
    and finalized_counts: "calls (host_finalized host w) = Suc (calls w) \<and> sigs w \<le> sigs (host_finalized host w)"
  using assms unfolding counted_host_def by (metis fst_conv snd_conv)+

section \<open>Ownership\<close>

definition owned_streams :: "('a, 'e) handle \<Rightarrow> nat set" where
  "owned_streams h = fst ` set (sh_connections h) \<union> set (sh_closing h)"

definition own_wf :: "('a, 'e) handle \<Rightarrow> bool" where
  "own_wf h = (dict_wf (sh_connections h) \<and> distinct (sh_closing h) \<and>
     fst ` set (sh_connections h) \<inter> set (sh_closing h) = {} \<and> (sh_closing h \<noteq> [] \<longrightarrow> sh_close_requested h))"

definition all_closed :: "('a, 'e) handle \<Rightarrow> bool" where
  "all_closed h = (sh_close_requested h \<and> sh_wakeup_closed h \<noteq> Some False \<and> sh_listener_closed h \<and>
     sh_connections h = [] \<and> sh_closing h = [])"

text \<open>From \<open>h\<close> to \<open>h'\<close>: the streams \<open>S\<close> are the owned ones of \<open>h'\<close> and some closed ones.\<close>

definition streams_step :: "nat set \<Rightarrow> ('a, 'e) handle \<Rightarrow> ('a, 'e) handle \<Rightarrow> bool" where
  "streams_step S h h' = (own_wf h' \<and> owned_streams h' \<subseteq> S \<and> S \<subseteq> owned_streams h' \<union> set (sh_closed h') \<and>
     set (sh_closed h) \<subseteq> set (sh_closed h'))"

definition flags_step :: "('a, 'e) handle \<Rightarrow> ('a, 'e) handle \<Rightarrow> bool" where
  "flags_step h h' = (sh_max_connections h' = sh_max_connections h \<and> sh_listener_task h' = sh_listener_task h \<and>
     sh_capacity_waiting h' = sh_capacity_waiting h \<and> (sh_close_requested h \<longrightarrow> sh_close_requested h') \<and>
     (sh_listener_closed h \<longrightarrow> sh_listener_closed h') \<and>
     (sh_wakeup_closed h \<noteq> Some False \<longrightarrow> sh_wakeup_closed h' \<noteq> Some False))"

definition finish_step :: "('w \<Rightarrow> nat) \<Rightarrow> ('w \<Rightarrow> nat) \<Rightarrow> ('a, 'e) handle \<Rightarrow> 'w \<Rightarrow> ('a, 'e) handle \<Rightarrow> 'w \<Rightarrow> bool" where
  "finish_step calls sigs h w h' w' =
     ((sh_finished h' \<longrightarrow> sh_finished h \<or> all_closed h') \<and> (sh_on_finalized h' \<longrightarrow> sh_on_finalized h) \<and>
      (sh_finished h' \<and> \<not> sh_finished h \<longrightarrow> \<not> sh_on_finalized h') \<and>
      (sh_on_finalized h \<and> \<not> sh_on_finalized h' \<longrightarrow> all_closed h') \<and> sigs w \<le> sigs w' \<and>
      calls w' = calls w + (if sh_on_finalized h \<and> \<not> sh_on_finalized h' then 1 else 0))"

definition own_step ::
  "('w \<Rightarrow> nat) \<Rightarrow> ('w \<Rightarrow> nat) \<Rightarrow> nat set \<Rightarrow> ('a, 'e) handle \<Rightarrow> 'w \<Rightarrow> ('a, 'e) handle \<Rightarrow> 'w \<Rightarrow> bool" where
  "own_step calls sigs S h w h' w' = (streams_step S h h' \<and> flags_step h h' \<and> finish_step calls sigs h w h' w')"

lemma finite_owned: "finite (owned_streams h)"
  by (simp add: owned_streams_def)

lemma count_owned: "own_wf h \<Longrightarrow> owned_connection_count h = card (owned_streams h)"
proof -
  assume wf: "own_wf h"
  then have "card (fst ` set (sh_connections h)) = length (sh_connections h)"
    using distinct_card [of "map fst (sh_connections h)"] by (simp add: own_wf_def dict_wf_def)
  with wf show ?thesis
    by (simp add: owned_connection_count_def owned_streams_def card_Un_disjoint own_wf_def distinct_card)
qed

lemma own_step_wf: "own_step calls sigs S h w h' w' \<Longrightarrow> own_wf h'"
  by (simp add: own_step_def streams_step_def)

lemma streams_step_trans: "streams_step S h h1 \<Longrightarrow> streams_step (owned_streams h1) h1 h2 \<Longrightarrow> streams_step S h h2"
  unfolding streams_step_def by blast

lemma flags_step_refl [simp]: "flags_step h h"
  by (simp add: flags_step_def)

lemma flags_step_trans: "flags_step h h1 \<Longrightarrow> flags_step h1 h2 \<Longrightarrow> flags_step h h2"
  by (simp add: flags_step_def)

lemma owned_empty: "owned_streams h = {} \<longleftrightarrow> sh_connections h = [] \<and> sh_closing h = []"
  by (simp add: owned_streams_def)

lemma all_closed_step: "all_closed h \<Longrightarrow> streams_step (owned_streams h) h h' \<Longrightarrow> flags_step h h' \<Longrightarrow> all_closed h'"
  using owned_empty [of h] owned_empty [of h'] by (simp add: all_closed_def streams_step_def flags_step_def)

lemma finish_step_trans:
  assumes one: "finish_step calls sigs h w h1 w1" and two: "finish_step calls sigs h1 w1 h2 w2"
    and keep: "all_closed h1 \<Longrightarrow> all_closed h2"
  shows "finish_step calls sigs h w h2 w2"
proof -
  have "sh_finished h2 \<longrightarrow> sh_finished h \<or> all_closed h2"
    using one two keep unfolding finish_step_def by blast
  moreover have "sh_on_finalized h2 \<longrightarrow> sh_on_finalized h"
    using one two unfolding finish_step_def by blast
  moreover have "sh_finished h2 \<and> \<not> sh_finished h \<longrightarrow> \<not> sh_on_finalized h2"
    using one two unfolding finish_step_def by blast
  moreover have "sh_on_finalized h \<and> \<not> sh_on_finalized h2 \<longrightarrow> all_closed h2"
    using one two keep unfolding finish_step_def by blast
  moreover have "sigs w \<le> sigs w2"
    using one two unfolding finish_step_def by simp
  moreover have "calls w2 = calls w + (if sh_on_finalized h \<and> \<not> sh_on_finalized h2 then 1 else 0)"
    using one two unfolding finish_step_def by (cases "sh_on_finalized h"; cases "sh_on_finalized h1"; cases "sh_on_finalized h2"; simp)
  ultimately show ?thesis unfolding finish_step_def by blast
qed

lemma own_step_trans:
  assumes "own_step calls sigs S h w h1 w1" and "own_step calls sigs (owned_streams h1) h1 w1 h2 w2"
  shows "own_step calls sigs S h w h2 w2"
proof -
  have closed: "all_closed h2" if "all_closed h1"
    using that assms(2) by (auto simp: own_step_def intro: all_closed_step)
  show ?thesis
    using assms finish_step_trans [OF _ _ closed]
    by (auto simp: own_step_def intro: streams_step_trans flags_step_trans)
qed

text \<open>A step that leaves the finish alone.\<close>

lemma own_stepI:
  assumes "own_wf h'" and "owned_streams h' \<subseteq> S" and "S \<subseteq> owned_streams h' \<union> set (sh_closed h')"
    and "set (sh_closed h) \<subseteq> set (sh_closed h')" and "flags_step h h'"
    and "sh_finished h' = sh_finished h" and "sh_on_finalized h' = sh_on_finalized h" and "quiet calls sigs w w'"
  shows "own_step calls sigs S h w h' w'"
  using assms by (simp add: own_step_def streams_step_def finish_step_def quiet_def)

definition same_streams :: "('a, 'e) handle \<Rightarrow> ('a, 'e) handle \<Rightarrow> bool" where
  "same_streams h h' = (sh_connections h' = sh_connections h \<and> sh_closing h' = sh_closing h \<and> sh_closed h' = sh_closed h \<and>
     sh_finished h' = sh_finished h \<and> sh_on_finalized h' = sh_on_finalized h)"

lemma same_streams_owned: "same_streams h h' \<Longrightarrow> owned_streams h' = owned_streams h"
  by (simp add: same_streams_def owned_streams_def)

lemma same_streams_step:
  assumes "own_wf h" and "same_streams h h'" and "flags_step h h'" and "quiet calls sigs w w'"
  shows "own_step calls sigs (owned_streams h) h w h' w'"
proof (rule own_stepI)
  show "own_wf h'" using assms(1-3) by (simp add: own_wf_def same_streams_def flags_step_def)
qed (use assms same_streams_owned [OF assms(2)] in \<open>simp_all add: same_streams_def\<close>)

lemma own_step_refl: "own_wf h \<Longrightarrow> own_step calls sigs (owned_streams h) h w h w"
  by (rule same_streams_step) (simp_all add: same_streams_def)

text \<open>A step preceded or followed by a change elsewhere in the handle.\<close>

lemma own_step_after:
  assumes "own_step calls sigs S h w h1 w1" and "same_streams h1 h2" and "flags_step h1 h2" and "quiet calls sigs w1 w2"
  shows "own_step calls sigs S h w h2 w2"
  using own_step_trans [OF assms(1) same_streams_step] own_step_wf [OF assms(1)] assms(2-4) by blast

text \<open>The relations look only at some marks of the first handle.\<close>

definition same_marks :: "('a, 'e) handle \<Rightarrow> ('a, 'e) handle \<Rightarrow> bool" where
  "same_marks h h1 = (sh_closed h1 = sh_closed h \<and> sh_finished h1 = sh_finished h \<and> sh_on_finalized h1 = sh_on_finalized h)"

lemma own_step_before:
  assumes "own_step calls sigs S h1 w1 h2 w2" and "same_marks h h1" and "flags_step h h1" and "quiet calls sigs w w1"
  shows "own_step calls sigs S h w h2 w2"
proof -
  have "finish_step calls sigs h w h2 w2"
    using assms(1,2,4) unfolding own_step_def same_marks_def quiet_def finish_step_def by simp
  then show ?thesis
    using assms(1-3) flags_step_trans [of h h1 h2] by (simp add: own_step_def same_marks_def streams_step_def)
qed

lemma error_book_updates [simp]:
  "same_streams h (set_error k e h)" "flags_step h (set_error k e h)"
  "same_streams h (pop_error k h)" "flags_step h (pop_error k h)"
  by (simp_all add: set_error_def pop_error_def same_streams_def flags_step_def)

section \<open>Closing a stream\<close>

lemma close_stream_cases:
  assumes "counted_host calls sigs host" and "close_stream host c h w = (r, h1, w1)"
  obtains (closed) "r = None" "c \<in> set (sh_closed h1)" "h1 = h \<or> h1 = h\<lparr>sh_closed := c # sh_closed h\<rparr>" "quiet calls sigs w w1"
    | (failed) e where "r = Some e" "c \<notin> set (sh_closed h)" "h1 = h" "quiet calls sigs w w1"
proof (cases "c \<in> set (sh_closed h)")
  case True
  then have "r = None" "h1 = h" "w1 = w" using assms(2) by (simp_all add: close_stream_def)
  with True show ?thesis by (intro closed) simp_all
next
  case False
  obtain q w2 where q: "host_socket_close host c w = (q, w2)" by fastforce
  note w2 = quiet_close [OF assms(1) q]
  show ?thesis
  proof (cases q)
    case None
    then have "r = None" "h1 = h\<lparr>sh_closed := c # sh_closed h\<rparr>" "w1 = w2"
      using assms(2) False q by (simp_all add: close_stream_def)
    with w2 show ?thesis by (intro closed) simp_all
  next
    case (Some e)
    then have "r = Some e" "h1 = h" "w1 = w2" using assms(2) False q by (simp_all add: close_stream_def)
    with w2 False show ?thesis by (intro failed) simp_all
  qed
qed

lemma owned_remove_closing:
  "owned_streams (h\<lparr>sh_closing := removeAll c (sh_closing h)\<rparr>) \<subseteq> owned_streams h"
  "owned_streams h \<subseteq> insert c (owned_streams (h\<lparr>sh_closing := removeAll c (sh_closing h)\<rparr>))"
  by (auto simp: owned_streams_def)

text \<open>A closed stream leaves \<open>_closing_connections\<close>.\<close>

lemma dropped_closed_step:
  assumes wf: "own_wf h" and c: "c \<in> set (sh_closed h1)" and h1: "h1 = h \<or> h1 = h\<lparr>sh_closed := c # sh_closed h\<rparr>"
    and S: "owned_streams h \<subseteq> S" "S \<subseteq> insert c (owned_streams h)" and w: "quiet calls sigs w w1"
  shows "own_step calls sigs S h w (pop_error k (h1\<lparr>sh_closing := removeAll c (sh_closing h1)\<rparr>)) w1"
proof -
  let ?g = "h1\<lparr>sh_closing := removeAll c (sh_closing h1)\<rparr>"
  have same: "sh_connections h1 = sh_connections h" "sh_closing h1 = sh_closing h" "set (sh_closed h) \<subseteq> set (sh_closed h1)"
    "sh_finished h1 = sh_finished h" "sh_on_finalized h1 = sh_on_finalized h" "sh_close_requested h1 = sh_close_requested h"
    "flags_step h h1"
    using h1 by (auto simp: flags_step_def)
  have "own_wf ?g"
    using wf same by (auto simp: own_wf_def distinct_removeAll)
  moreover have "owned_streams ?g \<subseteq> S"
    using S(1) same by (auto simp: owned_streams_def)
  moreover have "S \<subseteq> owned_streams ?g \<union> set (sh_closed ?g)"
    using S(2) c same by (auto simp: owned_streams_def)
  moreover have "flags_step h ?g"
    using same(7) by (simp add: flags_step_def)
  ultimately have "own_step calls sigs S h w ?g w1"
    using w same by (intro own_stepI) simp_all
  then show ?thesis
    by (rule own_step_after) simp_all
qed

definition fin_ok :: "('w \<Rightarrow> nat) \<Rightarrow> ('w \<Rightarrow> nat) \<Rightarrow> (nat option \<Rightarrow> ('a, 'e) handle \<Rightarrow> 'w \<Rightarrow> ('a, 'e) handle \<times> 'w) \<Rightarrow> bool" where
  "fin_ok calls sigs fin = (\<forall>t h w h' w'. own_wf h \<longrightarrow> fin t h w = (h', w') \<longrightarrow>
     own_step calls sigs (owned_streams h) h w h' w')"

lemma fin_okD:
  "fin_ok calls sigs fin \<Longrightarrow> own_wf h \<Longrightarrow> fin t h w = (h', w') \<Longrightarrow> own_step calls sigs (owned_streams h) h w h' w'"
  by (simp add: fin_ok_def)

lemma fin_ok_id: "fin_ok calls sigs (\<lambda>_ h w. (h, w))"
  by (simp add: fin_ok_def own_step_refl)

lemma close_failed_requested:
  assumes host: "counted_host calls sigs host" and fin: "fin_ok calls sigs fin" and wf: "own_wf (h\<lparr>sh_close_requested := True\<rparr>)"
    and run: "connection_close_failed host fin e task primary h w = (h', w')"
  shows "own_step calls sigs (owned_streams h) h w h' w' \<and> sh_close_requested h'"
proof -
  let ?f = "case sh_failure h of None \<Rightarrow> (case primary of None \<Rightarrow> Some e | Some p \<Rightarrow> Some p) | Some f \<Rightarrow> Some f"
  define h1 where "h1 = h\<lparr>sh_failure := ?f, sh_close_requested := True\<rparr>"
  have wf1: "own_wf h1" and own: "owned_streams h1 = owned_streams h" and marks: "same_marks h h1" "flags_step h h1"
    and req: "sh_close_requested h1"
    using wf by (simp_all add: h1_def own_wf_def owned_streams_def same_marks_def flags_step_def)
  have goal: ?thesis if "own_step calls sigs (owned_streams h1) h1 w1 h' w'" "quiet calls sigs w w1" for w1
    using own_step_before [OF that(1) marks that(2)] that(1) req own by (simp add: own_step_def flags_step_def)
  note run' = run [unfolded connection_close_failed_def Let_def, folded h1_def]
  show ?thesis
  proof (cases "sh_finalization_attempted h1 \<or> (\<exists>b. sh_wakeup_closed h1 = Some b \<and> sh_notification_sent h1)")
    case True
    then have "h' = h1" "w' = w" using run' by (auto split: if_splits)
    then show ?thesis using goal [of w] own_step_refl [OF wf1, of calls sigs w] quiet_refl [of calls sigs w] by blast
  next
    case False
    note f1 = False
    show ?thesis
    proof (cases "sh_wakeup_closed h1")
      case None
      then show ?thesis using run' f1 goal [OF fin_okD [OF fin wf1]] by (simp split: if_splits)
    next
      case (Some b)
      obtain r w1 where n: "host_notify host w = (r, w1)" by fastforce
      note q = quiet_notify [OF host n]
      show ?thesis
      proof (cases r)
        case None
        have "own_step calls sigs (owned_streams h1) h1 w (h1\<lparr>sh_notification_sent := True\<rparr>) w1"
          using wf1 q by (intro same_streams_step) (simp_all add: same_streams_def flags_step_def)
        then show ?thesis using run' f1 Some None n goal [of w] by simp
      next
        case (Some e')
        then show ?thesis using run' f1 \<open>sh_wakeup_closed h1 = Some b\<close> n q goal [OF fin_okD [OF fin wf1]] by simp
      qed
    qed
  qed
qed

end
