(* ===== verification/Handle_Steps.thy ===== *)
theory Handle_Steps
  imports Handle_Ownership
begin

text \<open>
  The ownership step of every operation of \<open>ServerHandle\<close>, from the single close up to \<open>_finish_close\<close>
  and \<open>_connection_finished\<close>.
\<close>

section \<open>One stream\<close>

text \<open>\<open>c\<close> is owned, or was until it was taken out of \<open>_connections\<close>, or is closed.\<close>

lemma close_or_retain_step:
  assumes host: "counted_host calls sigs host" and fin: "fin_ok calls sigs fin" and wf: "own_wf h"
    and S: "owned_streams h \<subseteq> S" "S \<subseteq> insert c (owned_streams h)" "c \<in> S \<or> c \<in> set (sh_closed h)"
    and run: "close_or_retain host fin c task primary h w = (ok, h', w')"
  shows "own_step calls sigs S h w h' w' \<and> (if ok then owned_streams h \<subseteq> owned_streams h' \<or> sh_close_requested h'
    else sh_close_requested h')"
proof -
  obtain r h1 w1 where cs: "close_stream host c h w = (r, h1, w1)" by (metis prod_cases3)
  from host cs show ?thesis
  proof (cases rule: close_stream_cases)
    case closed
    then have h': "ok" "h' = pop_error (OConnection c) (h1\<lparr>sh_closing := removeAll c (sh_closing h1)\<rparr>)" "w' = w1"
      using run cs by (simp_all add: close_or_retain_def)
    have "owned_streams h \<subseteq> owned_streams h' \<or> sh_close_requested h'"
    proof (cases "sh_closing h = []")
      case True
      then show ?thesis using closed(3) h'(2) by (auto simp: owned_streams_def pop_error_def)
    next
      case False
      then show ?thesis using wf closed(3) h'(2) by (auto simp: own_wf_def pop_error_def)
    qed
    then show ?thesis using dropped_closed_step [OF wf closed(2,3) S(1,2) closed(4)] h' by simp
  next
    case (failed e)
    define h2 where "h2 = (if c \<notin> fst ` set (sh_connections h) then h\<lparr>sh_closing := add_key c (sh_closing h)\<rparr> else h)"
    define h3 where "h3 = set_error (OConnection c) e h2"
    have f: "\<not> ok" "connection_close_failed host fin e task primary h3 w1 = (h', w')"
      using run cs failed by (simp_all add: close_or_retain_def h2_def h3_def Let_def split: prod.splits)
    have "own_wf (h3\<lparr>sh_close_requested := True\<rparr>)"
      using wf by (auto simp: own_wf_def h3_def h2_def set_error_def add_key_def)
    from close_failed_requested [OF host fin this f(2)]
    have step: "own_step calls sigs (owned_streams h3) h3 w1 h' w'" and req: "sh_close_requested h'" by simp_all
    have own: "owned_streams h3 = S"
      using S failed(2) by (auto simp: owned_streams_def h3_def h2_def set_error_def add_key_def)
    have marks: "same_marks h h3" "flags_step h h3"
      by (simp_all add: h3_def h2_def set_error_def same_marks_def flags_step_def)
    show ?thesis using own_step_before [OF step marks failed(4)] own req by simp
  qed
qed

text \<open>Whether it closes or not, nobody but \<open>fin\<close> touches \<open>_connections\<close>.\<close>

lemma close_failed_connections:
  "sh_connections (fst (connection_close_failed host (\<lambda>_ h w. (h, w)) e task primary h w)) = sh_connections h"
  by (simp add: connection_close_failed_def Let_def split: option.split prod.split)

lemma close_or_retain_connections:
  assumes "counted_host calls sigs host" and run: "close_or_retain host (\<lambda>_ h w. (h, w)) c task primary h w = (ok, h', w')"
  shows "sh_connections h' = sh_connections h"
proof -
  obtain r h1 w1 where cs: "close_stream host c h w = (r, h1, w1)" by (metis prod_cases3)
  from assms(1) cs show ?thesis
  proof (cases rule: close_stream_cases)
    case closed
    then show ?thesis using run cs by (auto simp: close_or_retain_def pop_error_def)
  next
    case (failed e)
    obtain h3 w3 where f: "connection_close_failed host (\<lambda>_ h w. (h, w)) e task primary
      (set_error (OConnection c) e (if c \<notin> fst ` set (sh_connections h) then h\<lparr>sh_closing := add_key c (sh_closing h)\<rparr> else h)) w1
      = (h3, w3)" by fastforce
    then have "h' = h3" using run cs failed by (simp add: close_or_retain_def Let_def)
    then show ?thesis
      using f close_failed_connections [of host e task primary
        "set_error (OConnection c) e (if c \<notin> fst ` set (sh_connections h) then h\<lparr>sh_closing := add_key c (sh_closing h)\<rparr> else h)" w1]
      by (simp add: set_error_def)
  qed
qed

section \<open>The parts of \<open>_finish_close\<close>\<close>

lemma shutdown_websockets_quiet: "counted_host calls sigs host \<Longrightarrow> quiet calls sigs w (shutdown_websockets host cs w)"
  by (induction cs arbitrary: w) (auto intro: quiet_trans quiet_ws_shutdown)

lemma channel_stop_quiet:
  assumes "\<And>t w. quiet calls sigs w (wake t w)" and "channel_stop wake ch w = (ch1, w1)"
  shows "quiet calls sigs w w1"
  using assms by (auto simp: channel_stop_def split: option.splits)

lemma stop_observer_step:
  assumes host: "counted_host calls sigs host" and wf: "own_wf h" and run: "stop_observer host h w = (h', w')"
  shows "own_step calls sigs (owned_streams h) h w h' w'"
proof (cases "sh_channel h")
  case None
  then show ?thesis using run own_step_refl [OF wf] by (simp add: stop_observer_def)
next
  case (Some ch)
  obtain ch1 w1 where st: "channel_stop (host_wake_observer host) ch w = (ch1, w1)" by fastforce
  have "h' = h\<lparr>sh_channel := Some ch1\<rparr>" "w' = w1" using run Some st by (simp_all add: stop_observer_def)
  then show ?thesis
    using wf channel_stop_quiet [OF quiet_wake [OF host] st]
    by (simp add: same_streams_step same_streams_def flags_step_def)
qed

lemma close_wakeup_step:
  assumes host: "counted_host calls sigs host" and wf: "own_wf h" and run: "close_wakeup host h w = (h', w')"
  shows "own_step calls sigs (owned_streams h) h w h' w'"
proof (cases "sh_wakeup_closed h = Some False")
  case False
  then show ?thesis using run own_step_refl [OF wf] by (simp add: close_wakeup_def)
next
  case True
  obtain r w1 where r: "host_wakeup_close host w = (r, w1)" by fastforce
  note q = quiet_wakeup [OF host r]
  show ?thesis
  proof (cases r)
    case None
    then have "h' = pop_error OWakeup (h\<lparr>sh_wakeup_closed := Some True\<rparr>)" "w' = w1"
      using run True r by (simp_all add: close_wakeup_def)
    then show ?thesis
      using wf q by (simp add: same_streams_step same_streams_def flags_step_def pop_error_def)
  next
    case (Some e)
    then have "h' = set_error OWakeup e h" "w' = w1" using run True r by (simp_all add: close_wakeup_def)
    then show ?thesis using wf q by (simp add: same_streams_step)
  qed
qed

lemma close_listener_step:
  assumes host: "counted_host calls sigs host" and wf: "own_wf h" and run: "close_listener host h w = (h', w')"
  shows "own_step calls sigs (owned_streams h) h w h' w'"
proof (cases "sh_listener_closed h")
  case True
  then show ?thesis using run own_step_refl [OF wf] by (simp add: close_listener_def)
next
  case False
  obtain r w1 where r: "host_listener_close host w = (r, w1)" by fastforce
  note q = quiet_listener [OF host r]
  show ?thesis
  proof (cases r)
    case None
    then have "h' = pop_error OListener (h\<lparr>sh_listener_closed := True\<rparr>)" "w' = w1"
      using run False r by (simp_all add: close_listener_def)
    then show ?thesis
      using wf q by (simp add: same_streams_step same_streams_def flags_step_def pop_error_def)
  next
    case (Some e)
    then have "h' = set_error OListener e h" "w' = w1" using run False r by (simp_all add: close_listener_def)
    then show ?thesis using wf q by (simp add: same_streams_step)
  qed
qed

lemma retry_closing_step:
  assumes host: "counted_host calls sigs host" and "own_wf h" and "retry_closing host cs h w = (h', w')"
  shows "own_step calls sigs (owned_streams h) h w h' w'"
  using assms(2,3)
proof (induction cs arbitrary: h w)
  case Nil
  then show ?case by (simp add: own_step_refl)
next
  case (Cons c cs)
  obtain r h1 w1 where cs: "close_stream host c h w = (r, h1, w1)" by (metis prod_cases3)
  from host cs show ?case
  proof (cases rule: close_stream_cases)
    case closed
    let ?g = "pop_error (OConnection c) (h1\<lparr>sh_closing := removeAll c (sh_closing h1)\<rparr>)"
    have one: "own_step calls sigs (owned_streams h) h w ?g w1"
      using dropped_closed_step [OF Cons.prems(1) closed(2,3) _ _ closed(4)] by blast
    have "retry_closing host cs ?g w1 = (h', w')" using Cons.prems(2) cs closed(1) by simp
    from own_step_trans [OF one Cons.IH [OF own_step_wf [OF one] this]] show ?thesis .
  next
    case (failed e)
    have one: "own_step calls sigs (owned_streams h) h w (set_error (OConnection c) e h) w1"
      using Cons.prems(1) failed(4) by (simp add: same_streams_step)
    have "retry_closing host cs (set_error (OConnection c) e h) w1 = (h', w')" using Cons.prems(2) cs failed by simp
    from own_step_trans [OF one Cons.IH [OF own_step_wf [OF one] this]] show ?thesis .
  qed
qed

text \<open>Cancelling changes the books of tasks only.\<close>

definition task_step :: "('w \<Rightarrow> nat) \<Rightarrow> ('w \<Rightarrow> nat) \<Rightarrow> ('a, 'e) handle \<Rightarrow> 'w \<Rightarrow> ('a, 'e) handle \<Rightarrow> 'w \<Rightarrow> bool" where
  "task_step calls sigs h w h' w' = (same_streams h h' \<and> flags_step h h' \<and> sh_close_requested h' = sh_close_requested h \<and>
     quiet calls sigs w w')"

lemma task_step_refl: "task_step calls sigs h w h w"
  by (simp add: task_step_def same_streams_def)

lemma task_step_trans:
  "task_step calls sigs h w h1 w1 \<Longrightarrow> task_step calls sigs h1 w1 h2 w2 \<Longrightarrow> task_step calls sigs h w h2 w2"
  by (simp add: task_step_def same_streams_def flags_step_def quiet_def)

lemma task_step_own: "own_wf h \<Longrightarrow> task_step calls sigs h w h' w' \<Longrightarrow> own_step calls sigs (owned_streams h) h w h' w'"
  by (simp add: task_step_def same_streams_step)

lemma cancel_step:
  assumes host: "counted_host calls sigs host" and run: "cancel_or_retain_task host t h w = (ok, h', w')"
  shows "task_step calls sigs h w h' w'"
proof -
  obtain r w1 where r: "host_cancel host t w = (r, w1)" by fastforce
  have w': "w' = w1" using run r by (simp add: cancel_or_retain_task_def split: option.splits)
  have "h' = set_error (OTask t) e (h\<lparr>sh_pending_cancellations := add_key t (sh_pending_cancellations h)\<rparr>)" if "r = Some e" for e
    using run r that by (simp add: cancel_or_retain_task_def)
  moreover have "h' = pop_error (OTask t) (h\<lparr>sh_pending_cancellations := removeAll t (sh_pending_cancellations h)\<rparr>)" if "r = None"
    using run r that by (simp add: cancel_or_retain_task_def)
  ultimately show ?thesis
    using quiet_cancel [OF host r] unfolding w'
    by (cases r) (simp_all add: task_step_def same_streams_def flags_step_def set_error_def pop_error_def)
qed

lemma cancel_noted_step:
  assumes host: "counted_host calls sigs host" and run: "cancel_noted host t h w = (h', w')"
  shows "task_step calls sigs h w h' w'"
proof -
  obtain ok h1 w1 where r: "cancel_or_retain_task host t h w = (ok, h1, w1)" by (metis prod_cases3)
  show ?thesis
  proof (cases ok)
    case True
    then have "h' = h1\<lparr>sh_cancelled_task_ids := add_key t (sh_cancelled_task_ids h1)\<rparr>" "w' = w1"
      using run r by (simp_all add: cancel_noted_def)
    then show ?thesis using cancel_step [OF host r] by (simp add: task_step_def same_streams_def flags_step_def)
  next
    case False
    then show ?thesis using run cancel_step [OF host r] r by (simp add: cancel_noted_def)
  qed
qed

lemma retry_cancellations_step:
  assumes host: "counted_host calls sigs host" and "retry_cancellations host ts h w = (h', w')"
  shows "task_step calls sigs h w h' w'"
  using assms(2)
proof (induction ts arbitrary: h w)
  case Nil
  then show ?case by (simp add: task_step_refl)
next
  case (Cons t ts)
  obtain h1 w1 where c: "cancel_noted host t h w = (h1, w1)" by fastforce
  then have "retry_cancellations host ts h1 w1 = (h', w')" using Cons.prems by simp
  from task_step_trans [OF cancel_noted_step [OF host c] Cons.IH [OF this]] show ?case .
qed

lemma cancel_owned_step:
  assumes host: "counted_host calls sigs host" and "cancel_owned host current ts attempted h w = (h', w')"
  shows "task_step calls sigs h w h' w'"
  using assms(2)
proof (induction ts arbitrary: attempted h w)
  case Nil
  then show ?case by (simp add: task_step_refl)
next
  case (Cons t ts)
  obtain h1 w1 where c: "cancel_noted host t h w = (h1, w1)" by fastforce
  show ?case
  proof (cases "Some t = current \<or> t \<in> set (sh_cancelled_task_ids h) \<or> t \<in> set attempted")
    case True
    then have "cancel_owned host current ts attempted h w = (h', w')" using Cons.prems by auto
    from Cons.IH [OF this] show ?thesis .
  next
    case False
    then have "cancel_owned host current ts (t # attempted) h1 w1 = (h', w')" using Cons.prems c by simp
    from task_step_trans [OF cancel_noted_step [OF host c] Cons.IH [OF this]] show ?thesis .
  qed
qed

lemma stop_connection_step:
  assumes host: "counted_host calls sigs host"
    and run: "stop_connection host owner current c t attempted h w = (graceful, attempted1, h', w')"
  shows "task_step calls sigs h w h' w'"
proof -
  obtain h1 w1 where n: "cancel_noted host t h w = (h1, w1)" by fastforce
  obtain stopped w2 where g: "host_graceful host c w = (stopped, w2)" by fastforce
  have same: "task_step calls sigs h w h x" if "quiet calls sigs w x" for x
    using that by (simp add: task_step_def same_streams_def)
  note steps = cancel_noted_step [OF host n] same [OF quiet_refl] same [OF quiet_graceful [OF host g]]
    same [OF quiet_trans [OF quiet_graceful [OF host g] quiet_resume [OF host]]] same [OF quiet_resume [OF host]]
  have "(h', w') \<in> {(h1, w1), (h, w), (h, w2), (h, host_resume host t w2), (h, host_resume host t w)}"
    using run n g by (cases stopped) (simp_all add: stop_connection_def Let_def split: if_splits)
  then show ?thesis using steps by fast
qed

lemma resume_listener_step:
  assumes host: "counted_host calls sigs host" and run: "resume_listener host current h w = (h', w')"
  shows "task_step calls sigs h w h' w'"
proof (cases "sh_listener_task h")
  case None
  then show ?thesis using run by (simp add: resume_listener_def task_step_refl)
next
  case (Some t)
  then show ?thesis
    using run quiet_resume [OF host]
    by (auto simp: resume_listener_def task_step_def same_streams_def flags_step_def split: if_splits)
qed

text \<open>The connections that are closed are taken out of the dict one by one.\<close>

lemma close_connections_step:
  assumes host: "counted_host calls sigs host" and "own_wf h" and "distinct (map fst entries)"
    and "fst ` set entries \<subseteq> fst ` set (sh_connections h)"
    and "close_connections host owner current entries attempted h w = (attempted', h', w')"
  shows "own_step calls sigs (owned_streams h) h w h' w'"
  using assms(2-5)
proof (induction entries arbitrary: attempted h w)
  case Nil
  then show ?case by (simp add: own_step_refl)
next
  case (Cons e entries)
  obtain c t where e: "e = (c, t)" by fastforce
  obtain graceful attempted1 h1 w1 where sc: "stop_connection host owner current c t attempted h w = (graceful, attempted1, h1, w1)"
    by (metis prod_cases4)
  from stop_connection_step [OF host sc] have ts: "task_step calls sigs h w h1 w1" .
  have one: "own_step calls sigs (owned_streams h) h w h1 w1" by (rule task_step_own [OF Cons.prems(1) ts])
  have conns: "sh_connections h1 = sh_connections h" using ts by (simp add: task_step_def same_streams_def)
  note wf1 = own_step_wf [OF one]
  show ?case
  proof (cases "Some t \<noteq> current \<and> \<not> (\<not> owner \<and> graceful)")
    case False
    then have "close_connections host owner current entries attempted1 h1 w1 = (attempted', h', w')"
      using Cons.prems(4) e sc by auto
    from own_step_trans [OF one Cons.IH [OF wf1 _ _ this]] Cons.prems(2,3) conns show ?thesis by simp
  next
    case True
    define g where "g = h1\<lparr>sh_connections := dict_pop c (sh_connections h1)\<rparr>"
    obtain ok h2 w2 where cr: "close_or_retain host (\<lambda>_ h w. (h, w)) c current None g w1 = (ok, h2, w2)"
      by (metis prod_cases3)
    have rest: "close_connections host owner current entries attempted1 h2 w2 = (attempted', h', w')"
      using Cons.prems(4) e sc True cr by (simp add: g_def)
    have wfg: "own_wf g"
      using wf1 by (auto simp: g_def own_wf_def intro: dict_wf_pop)
    have own: "owned_streams g \<subseteq> owned_streams h1" "owned_streams h1 \<subseteq> insert c (owned_streams g)" "c \<in> owned_streams h1"
      using Cons.prems(3) conns e by (auto simp: g_def owned_streams_def)
    have "own_step calls sigs (owned_streams h1) g w1 h2 w2"
      using close_or_retain_step [OF host fin_ok_id wfg own(1,2) _ cr] own(3) by simp
    then have two: "own_step calls sigs (owned_streams h1) h1 w1 h2 w2"
      by (rule own_step_before) (simp_all add: g_def same_marks_def flags_step_def)
    have three: "own_step calls sigs (owned_streams h) h w h2 w2" by (rule own_step_trans [OF one two])
    have "fst ` set entries \<subseteq> fst ` set (sh_connections h) - {c}"
      using Cons.prems(2,3) e by (simp add: subset_Diff_insert)
    then have "fst ` set entries \<subseteq> fst ` set (sh_connections h2)"
      using conns close_or_retain_connections [OF host cr] by (simp add: g_def)
    from own_step_trans [OF three Cons.IH [OF own_step_wf [OF three] _ this rest]] Cons.prems(2) show ?thesis by simp
  qed
qed

lemma update_finished_step:
  assumes host: "counted_host calls sigs host" and wf: "own_wf h" and run: "update_finished host h w = (h', w')"
  shows "own_step calls sigs (owned_streams h) h w h' w'"
proof -
  have marks: "sh_connections h' = sh_connections h" "sh_closing h' = sh_closing h" "sh_closed h' = sh_closed h" "flags_step h h'"
    "sh_finished h' = released h" "sh_close_requested h' = sh_close_requested h"
    "sh_wakeup_closed h' = sh_wakeup_closed h" "sh_listener_closed h' = sh_listener_closed h"
    using run by (auto simp: update_finished_def Let_def flags_step_def split: if_splits)
  have "streams_step (owned_streams h) h h'"
    using wf marks by (simp add: streams_step_def own_wf_def owned_streams_def)
  moreover have "finish_step calls sigs h w h' w'"
  proof (cases "released h \<and> \<not> sh_finished h \<and> sh_on_finalized h")
    case True
    then have "sh_on_finalized h' = False" "w' = host_finalized host w"
      using run by (auto simp: update_finished_def Let_def split: if_splits)
    then show ?thesis
      using True finalized_counts [OF host, of w] marks by (simp add: finish_step_def all_closed_def released_def)
  next
    case False
    then have "sh_on_finalized h' = sh_on_finalized h" "w' = w"
      using run by (auto simp: update_finished_def Let_def split: if_splits)
    then show ?thesis
      using False marks by (auto simp: finish_step_def all_closed_def released_def)
  qed
  ultimately show ?thesis using marks(4) by (simp add: own_step_def)
qed

section \<open>\<open>_finish_close\<close>\<close>

lemma finish_close_step:
  assumes host: "counted_host calls sigs host" and wf: "own_wf h" and run: "finish_close host owner current h w = (h', w')"
  shows "own_step calls sigs (owned_streams h) h w h' w' \<and> (\<not> sh_finished h \<longrightarrow> sh_close_requested h')"
proof (cases "sh_finished h")
  case True
  then show ?thesis using run own_step_refl [OF wf] by (simp add: finish_close_def)
next
  case False
  define h0 where "h0 = h\<lparr>sh_close_requested := True, sh_finalization_attempted := True\<rparr>"
  define w0 where "w0 = shutdown_websockets host (sh_websocket_states h0) w"
  obtain h1 w1 where e1: "stop_observer host h0 w0 = (h1, w1)" by fastforce
  obtain h2 w2 where e2: "close_wakeup host h1 w1 = (h2, w2)" by fastforce
  obtain h3 w3 where e3: "retry_closing host (sh_closing h2) h2 w2 = (h3, w3)" by fastforce
  obtain h4 w4 where e4: "retry_cancellations host (sh_pending_cancellations h3) h3 w3 = (h4, w4)" by fastforce
  obtain attempted h5 w5 where
    e5: "close_connections host owner current (sh_connections h4) (sh_pending_cancellations h3) h4 w4 = (attempted, h5, w5)"
    by (metis prod_cases3)
  obtain h6 w6 where e6: "(if owner
      then (case cancel_owned host current (sh_owned_tasks h5) attempted h5 w5 of (h6, w6) \<Rightarrow> (h6\<lparr>sh_listener_resumed := True\<rparr>, w6))
      else (h5, w5)) = (h6, w6)" by fastforce
  obtain h7 w7 where e7: "resume_listener host current h6 w6 = (h7, w7)" by fastforce
  obtain h8 w8 where e8: "close_listener host h7 w7 = (h8, w8)" by fastforce
  have e9: "update_finished host h8 w8 = (h', w')"
    using run unfolding finish_close_def Let_def if_not_P [OF False] h0_def [symmetric] w0_def [symmetric] e1 prod.case e2 e3 e4 e5 e6 e7 e8 .
  let ?step = "\<lambda>h1 w1. own_step calls sigs (owned_streams h0) h0 w0 h1 w1"
  have s0: "?step h0 w0"
    using wf by (intro own_step_refl) (simp add: own_wf_def h0_def)
  have s1: "?step h1 w1" by (rule own_step_trans [OF s0 stop_observer_step [OF host own_step_wf [OF s0] e1]])
  have s2: "?step h2 w2" by (rule own_step_trans [OF s1 close_wakeup_step [OF host own_step_wf [OF s1] e2]])
  have s3: "?step h3 w3" by (rule own_step_trans [OF s2 retry_closing_step [OF host own_step_wf [OF s2] e3]])
  have s4: "?step h4 w4"
    by (rule own_step_trans [OF s3 task_step_own [OF own_step_wf [OF s3] retry_cancellations_step [OF host e4]]])
  have "distinct (map fst (sh_connections h4))" using own_step_wf [OF s4] by (simp add: own_wf_def dict_wf_def)
  from close_connections_step [OF host own_step_wf [OF s4] this order.refl e5] have s5: "?step h5 w5"
    by (rule own_step_trans [OF s4])
  have s6: "?step h6 w6"
  proof (cases owner)
    case False
    then show ?thesis using e6 s5 by simp
  next
    case True
    obtain g v where c: "cancel_owned host current (sh_owned_tasks h5) attempted h5 w5 = (g, v)" by fastforce
    have "?step g v" by (rule own_step_trans [OF s5 task_step_own [OF own_step_wf [OF s5] cancel_owned_step [OF host c]]])
    moreover have "h6 = g\<lparr>sh_listener_resumed := True\<rparr>" "w6 = v" using e6 True c by simp_all
    ultimately show ?thesis by (simp add: own_step_after same_streams_def flags_step_def)
  qed
  have s7: "?step h7 w7" by (rule own_step_trans [OF s6 task_step_own [OF own_step_wf [OF s6] resume_listener_step [OF host e7]]])
  have s8: "?step h8 w8" by (rule own_step_trans [OF s7 close_listener_step [OF host own_step_wf [OF s7] e8]])
  have s9: "?step h' w'" by (rule own_step_trans [OF s8 update_finished_step [OF host own_step_wf [OF s8] e9]])
  have "own_step calls sigs (owned_streams h0) h w h' w'"
    by (rule own_step_before [OF s9])
      (simp_all add: h0_def same_marks_def flags_step_def w0_def shutdown_websockets_quiet [OF host])
  moreover have "sh_close_requested h'"
    using s9 by (simp add: own_step_def flags_step_def h0_def)
  ultimately show ?thesis by (simp add: h0_def owned_streams_def)
qed

text \<open>For the later operations: \<open>_finish_close\<close> as the parameter of \<open>close_or_retain\<close>.\<close>

lemma fin_ok_finish: "counted_host calls sigs host \<Longrightarrow> fin_ok calls sigs (finish_from_task host)"
  by (auto simp: fin_ok_def finish_from_task_def dest: finish_close_step)

section \<open>The other operations\<close>

lemma listener_failed_step:
  assumes host: "counted_host calls sigs host" and wf: "own_wf h" and run: "listener_failed host e task h w = (h', w')"
  shows "own_step calls sigs (owned_streams h) h w h' w' \<and> sh_close_requested h'"
proof -
  define h1 where "h1 = h\<lparr>sh_failure := (case sh_failure h of None \<Rightarrow> Some e | Some f \<Rightarrow> Some f), sh_close_requested := True\<rparr>"
  have wf1: "own_wf h1" and own: "owned_streams h1 = owned_streams h" and marks: "same_marks h h1" "flags_step h h1"
    and req: "sh_close_requested h1"
    using wf by (simp_all add: h1_def own_wf_def owned_streams_def same_marks_def flags_step_def)
  obtain r w1 where n: "host_notify host w = (r, w1)" by fastforce
  have goal: ?thesis if "own_step calls sigs (owned_streams h1) h1 v h' w'" "quiet calls sigs w v" for v
    using own_step_before [OF that(1) marks that(2)] that(1) req own by (simp add: own_step_def flags_step_def)
  have fin: ?thesis if "finish_from_task host task h1 v = (h', w')" "quiet calls sigs w v" for v
    using goal [OF fin_okD [OF fin_ok_finish [OF host] wf1 that(1)] that(2)] .
  have sent: "own_step calls sigs (owned_streams h1) h1 w (h1\<lparr>sh_notification_sent := True\<rparr>) w1"
    using wf1 quiet_notify [OF host n] by (intro same_streams_step) (simp_all add: same_streams_def flags_step_def)
  note run' = run [unfolded listener_failed_def Let_def, folded h1_def]
  consider (notify) "sh_wakeup_closed h1 \<noteq> None \<and> \<not> sh_notification_sent h1"
    | (already) "sh_notification_sent h1" | (fallback) "sh_wakeup_closed h1 = None" "\<not> sh_notification_sent h1" by blast
  then show ?thesis
  proof cases
    case notify
    show ?thesis
    proof (cases r)
      case None
      then have "h' = h1\<lparr>sh_notification_sent := True\<rparr>" "w' = w1" using run' notify n by simp_all
      then show ?thesis using goal [of w] sent by simp
    next
      case (Some e')
      then have "finish_from_task host task h1 w1 = (h', w')" using run' notify n by simp
      then show ?thesis using fin quiet_notify [OF host n] by blast
    qed
  next
    case already
    then have "h' = h1" "w' = w" using run' by simp_all
    then show ?thesis using goal [of w] own_step_refl [OF wf1, of calls sigs w] quiet_refl [of calls sigs w] by blast
  next
    case fallback
    then have "finish_from_task host task h1 w = (h', w')" using run' by simp
    then show ?thesis using fin [of w] by simp
  qed
qed

lemma notify_capacity_step:
  assumes host: "counted_host calls sigs host" and wf: "own_wf h" and run: "notify_capacity_released host previous h w = (h', w')"
  shows "own_step calls sigs (owned_streams h) h w h' w' \<and>
    (sh_listener_task h \<noteq> None \<and> sh_capacity_waiting h \<and> int previous \<ge> sh_max_connections h \<longrightarrow>
       int (owned_connection_count h') \<ge> sh_max_connections h \<or> sh_close_requested h' \<or> sigs w < sigs w')"
proof (cases "sh_listener_task h = None \<or> \<not> sh_capacity_waiting h \<or> int previous < sh_max_connections h \<or>
    int (owned_connection_count h) \<ge> sh_max_connections h")
  case True
  then have "h' = h" "w' = w" using run by (auto simp: notify_capacity_released_def split: option.splits)
  with True show ?thesis using own_step_refl [OF wf] by auto
next
  case False
  then obtain t where t: "sh_listener_task h = Some t" by auto
  obtain r w1 where s: "host_signal host t w = (r, w1)" by fastforce
  note q = quiet_signal [OF host s]
  show ?thesis
  proof (cases r)
    case None
    then have "h' = h" "w' = w1" using run False t s by (simp_all add: notify_capacity_released_def)
    moreover have "own_step calls sigs (owned_streams h) h w h w1"
      using wf q by (intro same_streams_step) (simp_all add: same_streams_def)
    ultimately show ?thesis using signal_counts [OF host] s None by blast
  next
    case (Some e)
    then have "listener_failed host e (host_cursor host w1) h w1 = (h', w')"
      using run False t s by (simp add: notify_capacity_released_def)
    from listener_failed_step [OF host wf this] q show ?thesis
      by (auto intro: own_step_before simp: same_marks_def)
  qed
qed

lemma close_failed_kept:
  assumes host: "counted_host calls sigs host" and wf: "own_wf h" and new: "c \<notin> fst ` set (sh_connections h)"
    and run: "accepted_setup_failed host primary c e task h w = (h', w')"
  shows "own_step calls sigs (insert c (owned_streams h)) h w h' w' \<and> sh_close_requested h'"
proof -
  define h1 where "h1 = set_error (OConnection c) e (h\<lparr>sh_closing := add_key c (sh_closing h)\<rparr>)"
  define h2 where "h2 = h1\<lparr>sh_failure := (case sh_failure h1 of None \<Rightarrow> Some primary | Some f \<Rightarrow> Some f)\<rparr>"
  have run2: "connection_close_failed host (finish_from_task host) e task (Some primary) h2 w = (h', w')"
    using run by (simp add: accepted_setup_failed_def Let_def h2_def h1_def)
  have "own_wf (h2\<lparr>sh_close_requested := True\<rparr>)"
    using wf new by (auto simp: own_wf_def h2_def h1_def set_error_def add_key_def)
  from close_failed_requested [OF host fin_ok_finish [OF host] this run2]
  have step: "own_step calls sigs (owned_streams h2) h2 w h' w'" and req: "sh_close_requested h'" by simp_all
  have own: "owned_streams h2 = insert c (owned_streams h)"
    by (auto simp: owned_streams_def h2_def h1_def set_error_def add_key_def)
  have marks: "same_marks h h2" "flags_step h h2"
    by (simp_all add: h2_def h1_def set_error_def same_marks_def flags_step_def)
  show ?thesis using own_step_before [OF step marks quiet_refl] own req by simp
qed

lemma force_close_step:
  assumes host: "counted_host calls sigs host" and wf: "own_wf h" and c: "c \<in> owned_streams h \<or> c \<in> set (sh_closed h)"
    and run: "force_connection_close host c task primary h w = (ok, h', w')"
  shows "own_step calls sigs (owned_streams h) h w h' w' \<and> (owned_streams h \<subseteq> owned_streams h' \<or> sh_close_requested h')"
proof -
  define g where "g = h\<lparr>sh_graceful_connections := removeAll c (sh_graceful_connections h),
    sh_graceful_closers := removeAll c (sh_graceful_closers h)\<rparr>"
  have g: "own_wf g" "owned_streams g = owned_streams h" "sh_closed g = sh_closed h" "same_marks h g" "flags_step h g"
    using wf by (simp_all add: g_def own_wf_def owned_streams_def same_marks_def flags_step_def)
  have cr: "close_or_retain host (finish_from_task host) c task primary g w = (ok, h', w')"
    using run by (simp add: force_connection_close_def g_def)
  have "own_step calls sigs (owned_streams h) g w h' w' \<and>
      (if ok then owned_streams g \<subseteq> owned_streams h' \<or> sh_close_requested h' else sh_close_requested h')"
    by (rule close_or_retain_step [OF host fin_ok_finish [OF host] g(1) _ _ _ cr]) (use c g(2,3) in auto)
  then show ?thesis using own_step_before [OF _ g(4,5) quiet_refl, of calls sigs "owned_streams h" w h' w'] g(2)
    by (simp split: if_splits; blast)
qed

lemma connection_finished_step:
  assumes host: "counted_host calls sigs host" and wf: "own_wf h" and c: "c \<in> owned_streams h \<or> c \<in> set (sh_closed h)"
    and run: "connection_finished host task c primary h w = (h', w')"
  shows "own_step calls sigs (owned_streams h) h w h' w' \<and>
    (sh_listener_task h \<noteq> None \<and> sh_capacity_waiting h \<and> int (owned_connection_count h) \<ge> sh_max_connections h \<longrightarrow>
       int (owned_connection_count h') \<ge> sh_max_connections h \<or> sh_close_requested h' \<or> sigs w < sigs w')"
proof -
  define g where "g = h\<lparr>sh_connections := dict_pop c (sh_connections h),
    sh_graceful_connections := removeAll c (sh_graceful_connections h),
    sh_graceful_closers := removeAll c (sh_graceful_closers h),
    sh_owned_tasks := remove1 (case map_of (sh_connections h) c of None \<Rightarrow> task | Some t \<Rightarrow> t) (sh_owned_tasks h)\<rparr>"
  obtain ok h2 w2 where e2: "close_or_retain host (finish_from_task host) c (Some task) primary g w = (ok, h2, w2)"
    by (metis prod_cases3)
  obtain h3 w3 where e3: "notify_capacity_released host (owned_connection_count h) h2 w2 = (h3, w3)" by fastforce
  have e4: "update_finished host h3 w3 = (h', w')"
    using run e2 e3 by (simp add: connection_finished_def Let_def g_def)
  have wfg: "own_wf g" using wf by (auto simp: g_def own_wf_def intro: dict_wf_pop)
  have own: "owned_streams g \<subseteq> owned_streams h" "owned_streams h \<subseteq> insert c (owned_streams g)" "sh_closed g = sh_closed h"
    by (auto simp: g_def owned_streams_def)
  have marks: "same_marks h g" "flags_step h g" by (simp_all add: g_def same_marks_def flags_step_def)
  have one: "own_step calls sigs (owned_streams h) h w h2 w2"
    using close_or_retain_step [OF host fin_ok_finish [OF host] wfg own(1,2) _ e2] c own(3)
      own_step_before [OF _ marks quiet_refl, of calls sigs "owned_streams h" w h2 w2] by simp
  note s3 = notify_capacity_step [OF host own_step_wf [OF one] e3]
  have two: "own_step calls sigs (owned_streams h) h w h3 w3" by (rule own_step_trans [OF one conjunct1 [OF s3]])
  note four = update_finished_step [OF host own_step_wf [OF two] e4]
  have final: "own_step calls sigs (owned_streams h) h w h' w'" by (rule own_step_trans [OF two four])
  have keep: "sh_close_requested h' = sh_close_requested h3" "owned_connection_count h' = owned_connection_count h3"
    using e4 by (auto simp: update_finished_def Let_def owned_connection_count_def split: if_splits)
  have mono: "sigs w \<le> sigs w2" "sigs w3 \<le> sigs w'" using one four by (simp_all add: own_step_def finish_step_def)
  have flags: "sh_listener_task h2 = sh_listener_task h" "sh_capacity_waiting h2 = sh_capacity_waiting h"
    "sh_max_connections h2 = sh_max_connections h" using one by (simp_all add: own_step_def flags_step_def)
  show ?thesis using final conjunct2 [OF s3] keep mono flags by auto
qed

section \<open>Taking over an accepted stream\<close>

text \<open>A stream that could not be registered is closed or retained, and the listener fails.\<close>

lemma unregistered_step:
  assumes host: "counted_host calls sigs host" and wf: "own_wf h"
    and cr: "close_or_retain host (finish_from_task host) c task primary (h\<lparr>sh_connections := dict_pop c (sh_connections h)\<rparr>) w = (ok, h1, w1)"
    and lf: "listener_failed host e task1 h1 w1 = (h', w')"
  shows "own_step calls sigs (insert c (owned_streams h)) h w h' w'"
proof -
  let ?g = "h\<lparr>sh_connections := dict_pop c (sh_connections h)\<rparr>"
  have wfg: "own_wf ?g" using wf by (auto simp: own_wf_def intro: dict_wf_pop)
  have own: "owned_streams ?g \<subseteq> insert c (owned_streams h)" "insert c (owned_streams h) \<subseteq> insert c (owned_streams ?g)"
    by (auto simp: owned_streams_def)
  have "own_step calls sigs (insert c (owned_streams h)) ?g w h1 w1"
    using close_or_retain_step [OF host fin_ok_finish [OF host] wfg own _ cr] by simp
  then have one: "own_step calls sigs (insert c (owned_streams h)) h w h1 w1"
    by (rule own_step_before) (simp_all add: same_marks_def flags_step_def)
  show ?thesis by (rule own_step_trans [OF one conjunct1 [OF listener_failed_step [OF host own_step_wf [OF one] lf]]])
qed

lemma register_step:
  assumes host: "counted_host calls sigs host" and wf: "own_wf h" and new: "c \<notin> owned_streams h"
    and run: "register_connection host task c h w = (r, h', w')"
  shows "own_step calls sigs (insert c (owned_streams h)) h w h' w'"
proof -
  obtain nt w1 where nt: "host_new_task host w = (nt, w1)" by fastforce
  note q1 = quiet_new_task [OF host nt]
  show ?thesis
  proof (cases nt)
    case (Inl e)
    obtain ok h2 w2 where cr: "close_or_retain host (finish_from_task host) c (Some task) (Some e)
      (h\<lparr>sh_connections := dict_pop c (sh_connections h)\<rparr>) w1 = (ok, h2, w2)" by (metis prod_cases3)
    obtain h3 w3 where lf: "listener_failed host e (Some task) h2 w2 = (h3, w3)" by fastforce
    have "h' = h3" "w' = w3" using run nt Inl cr lf by (simp_all add: register_connection_def)
    then show ?thesis
      using unregistered_step [OF host wf cr lf] q1 by (auto intro: own_step_before simp: same_marks_def)
  next
    case (Inr t)
    define h1 where "h1 = h\<lparr>sh_connections := dict_set c t (sh_connections h), sh_owned_tasks := sh_owned_tasks h @ [t]\<rparr>"
    have wf1: "own_wf h1"
      using wf new by (auto simp: h1_def own_wf_def owned_streams_def intro: dict_wf_set)
    have own1: "owned_streams h1 = insert c (owned_streams h)" by (simp add: h1_def owned_streams_def)
    have marks: "same_marks h h1" "flags_step h h1" by (simp_all add: h1_def same_marks_def flags_step_def)
    obtain f w2 where f: "host_fork host t w1 = (f, w2)" by fastforce
    note q2 = quiet_trans [OF q1 quiet_fork [OF host f]]
    show ?thesis
    proof (cases f)
      case None
      then have r: "h' = h1" "w' = w2" using run nt Inr f by (simp_all add: register_connection_def h1_def Let_def)
      show ?thesis unfolding r
        by (rule own_step_before [OF own_step_refl [OF wf1] marks, unfolded own1]) (rule q2)
    next
      case (Some e)
      obtain cancelled h2 w3 where ca: "cancel_or_retain_task host t h1 w2 = (cancelled, h2, w3)" by (metis prod_cases3)
      define h3 where "h3 = (if cancelled then h2\<lparr>sh_owned_tasks := remove1 t (sh_owned_tasks h2)\<rparr> else h2)"
      obtain ok h4 w4 where cr: "close_or_retain host (finish_from_task host) c (Some task) (Some e)
        (h3\<lparr>sh_connections := dict_pop c (sh_connections h3)\<rparr>) w3 = (ok, h4, w4)" by (metis prod_cases3)
      obtain h5 w5 where lf: "listener_failed host e (Some task) h4 w4 = (h5, w5)" by fastforce
      have r: "h' = h5" "w' = w5"
        using run nt Inr f Some ca cr lf by (simp_all add: register_connection_def Let_def h1_def h3_def)
      have "task_step calls sigs h1 w2 h3 w3"
        using cancel_step [OF host ca] by (simp add: h3_def task_step_def same_streams_def flags_step_def)
      then have three: "own_step calls sigs (owned_streams h1) h1 w2 h3 w3" by (rule task_step_own [OF wf1])
      have own3: "insert c (owned_streams h3) = owned_streams h3"
        using \<open>task_step calls sigs h1 w2 h3 w3\<close> own1 same_streams_owned [of h1 h3] by (auto simp: task_step_def)
      from unregistered_step [OF host own_step_wf [OF three] cr lf]
      have "own_step calls sigs (owned_streams h3) h3 w3 h5 w5" by (simp only: own3)
      from own_step_trans [OF three this] show ?thesis
        unfolding r own1 by (rule own_step_before [OF _ marks q2])
    qed
  qed
qed

end
