(* ===== verification/Serving.thy ===== *)
theory Serving
  imports Handle_Steps
begin

text \<open>
  One running server: the accept loop of \<open>SmallServer\<close> with the \<open>ServerHandle\<close> it feeds. An event is one
  uninterrupted stretch of code between two awaits of a task of this server, or one call of the
  handle from outside; the scheduler may order the events as it likes. Proved over every such run: no accepted
  stream is lost, the bound on connections holds, a waiting accept loop is woken, and the completion callback
  runs once, when everything is closed.
\<close>

section \<open>Runs\<close>

text \<open>\<open>sv_accepted\<close> are the streams the kernel has handed out so far and \<open>sv_mark\<close> is the number of capacity
  signals delivered when the accept loop last began to wait; both only watch.\<close>

record ('a, 'e, 'w) serving =
  sv_pc :: listener_pc
  sv_batch :: int
  sv_handle :: "('a, 'e) handle"
  sv_world :: 'w
  sv_accepted :: "nat set"
  sv_mark :: nat

definition serving_init :: "('w \<Rightarrow> nat) \<Rightarrow> int \<Rightarrow> 'a channel option \<Rightarrow> bool \<Rightarrow> nat \<Rightarrow> 'w \<Rightarrow> ('a, 'e, 'w) serving" where
  "serving_init sigs max_connections channel has_wakeup listener w =
     \<lparr>sv_pc = AtTop, sv_batch = 0,
      sv_handle = (handle_init max_connections channel has_wakeup)
        \<lparr>sh_listener_task := Some listener, sh_owned_tasks := [listener]\<rparr>,
      sv_world = w, sv_accepted = {}, sv_mark = sigs w\<rparr>"

text \<open>The events: the listener's steps; the end of a connection, its forced close, its graceful registration and
  its WebSocket; tasks it starts, cancels and forgets; the shutdown requests.\<close>

datatype 'e serving_event =
  EvTop | EvCapacitySignal | EvAccepted nat | EvSetupFailed 'e nat 'e | EvAcceptRaised 'e | EvYielded
| EvFinished nat nat "'e option" | EvForced nat "nat option" "'e option" | EvGraceful nat
| EvWebsocketBegun nat | EvWebsocketEnded nat | EvTaskStarted nat | EvTaskCancelled nat | EvTaskForgotten nat
| EvClose | EvCloseFromTask nat | EvWatcher nat | EvFinalize

definition with_handle :: "('a, 'e, 'w) serving \<Rightarrow> ('a, 'e) handle \<times> 'w \<Rightarrow> ('a, 'e, 'w) serving" where
  "with_handle sv r = sv\<lparr>sv_handle := fst r, sv_world := snd r\<rparr>"

text \<open>\<open>None\<close> when the event cannot happen. A closed listener hands out no stream and the kernel hands out
  none twice.\<close>

definition serving_step ::
  "('e, 'w) host \<Rightarrow> ('w \<Rightarrow> nat) \<Rightarrow> int \<Rightarrow> nat \<Rightarrow> 'e serving_event \<Rightarrow> ('a, 'e, 'w) serving \<Rightarrow> ('a, 'e, 'w) serving option" where
  "serving_step host sigs batch_size listener ev sv =
     (let h = sv_handle sv; w = sv_world sv in
      case ev of
        EvTop \<Rightarrow>
          (if sv_pc sv \<noteq> AtTop then None
           else case accept_top h of (pc, h1) \<Rightarrow> Some (sv\<lparr>sv_pc := pc, sv_handle := h1, sv_mark := sigs w\<rparr>))
      | EvCapacitySignal \<Rightarrow>
          (if sv_pc sv \<noteq> WaitingCapacity then None
           else case capacity_signalled h of (pc, h1) \<Rightarrow> Some (sv\<lparr>sv_pc := pc, sv_handle := h1\<rparr>))
      | EvAccepted c \<Rightarrow>
          (if sv_pc sv \<noteq> Accepting \<or> sh_listener_closed h \<or> c \<in> sv_accepted sv \<or> c \<in> set (sh_closed h) then None
           else case accept_stream host batch_size listener c (sv_batch sv) h w of ((pc, batch), h1, w1) \<Rightarrow>
             Some (sv\<lparr>sv_pc := pc, sv_batch := batch, sv_handle := h1, sv_world := w1, sv_accepted := insert c (sv_accepted sv)\<rparr>))
      | EvSetupFailed primary c e \<Rightarrow>
          (if sv_pc sv \<noteq> Accepting \<or> sh_listener_closed h \<or> c \<in> sv_accepted sv \<or> c \<in> set (sh_closed h) then None
           else case accept_setup_failure host listener primary c e h w of (pc, h1, w1) \<Rightarrow>
             Some (sv\<lparr>sv_pc := pc, sv_handle := h1, sv_world := w1, sv_accepted := insert c (sv_accepted sv)\<rparr>))
      | EvAcceptRaised e \<Rightarrow>
          (if sv_pc sv \<noteq> Accepting then None
           else case accept_raised host listener e h w of (pc, h1, w1) \<Rightarrow>
             Some (sv\<lparr>sv_pc := pc, sv_handle := h1, sv_world := w1\<rparr>))
      | EvYielded \<Rightarrow> (if sv_pc sv \<noteq> Yielding then None else Some (sv\<lparr>sv_pc := AtTop\<rparr>))
      | EvFinished task c primary \<Rightarrow>
          (if c \<notin> sv_accepted sv then None else Some (with_handle sv (connection_finished host task c primary h w)))
      | EvForced c task primary \<Rightarrow>
          (if c \<notin> sv_accepted sv then None else Some (with_handle sv (snd (force_connection_close host c task primary h w))))
      | EvGraceful c \<Rightarrow> Some (with_handle sv (register_graceful c h, w))
      | EvWebsocketBegun c \<Rightarrow> Some (with_handle sv (websocket_begun c h, w))
      | EvWebsocketEnded c \<Rightarrow> Some (with_handle sv (websocket_ended c h, w))
      | EvTaskStarted t \<Rightarrow> Some (with_handle sv (h\<lparr>sh_owned_tasks := sh_owned_tasks h @ [t]\<rparr>, w))
      | EvTaskCancelled t \<Rightarrow> Some (with_handle sv (snd (cancel_or_retain_task host t h w)))
      | EvTaskForgotten t \<Rightarrow> Some (with_handle sv (h\<lparr>sh_owned_tasks := remove1 t (sh_owned_tasks h)\<rparr>, w))
      | EvClose \<Rightarrow> Some (with_handle sv (snd (handle_close host h w)))
      | EvCloseFromTask t \<Rightarrow> Some (with_handle sv (snd (close_from_task host t h w)))
      | EvWatcher t \<Rightarrow> Some (with_handle sv (finish_from_task host (Some t) h w))
      | EvFinalize \<Rightarrow> Some (with_handle sv (finalize host h w)))"

fun serving_run ::
  "('e, 'w) host \<Rightarrow> ('w \<Rightarrow> nat) \<Rightarrow> int \<Rightarrow> nat \<Rightarrow> 'e serving_event list \<Rightarrow> ('a, 'e, 'w) serving \<Rightarrow> ('a, 'e, 'w) serving option" where
  "serving_run host sigs batch_size listener [] sv = Some sv"
| "serving_run host sigs batch_size listener (ev # evs) sv =
     (case serving_step host sigs batch_size listener ev sv of
        None \<Rightarrow> None | Some sv1 \<Rightarrow> serving_run host sigs batch_size listener evs sv1)"

section \<open>The invariant\<close>

definition streams_kept :: "nat set \<Rightarrow> ('a, 'e) handle \<Rightarrow> bool" where
  "streams_kept accepted h = (own_wf h \<and> owned_streams h \<subseteq> accepted \<and> accepted \<subseteq> owned_streams h \<union> set (sh_closed h))"

definition finish_kept :: "('w \<Rightarrow> nat) \<Rightarrow> nat \<Rightarrow> ('a, 'e) handle \<Rightarrow> 'w \<Rightarrow> bool" where
  "finish_kept calls n h w = ((sh_finished h \<longrightarrow> \<not> sh_on_finalized h) \<and> (\<not> sh_on_finalized h \<longrightarrow> all_closed h) \<and>
     calls w = n + (if sh_on_finalized h then 0 else 1))"

definition room_kept :: "('w \<Rightarrow> nat) \<Rightarrow> int \<Rightarrow> nat \<Rightarrow> listener_pc \<Rightarrow> nat \<Rightarrow> ('a, 'e) handle \<Rightarrow> 'w \<Rightarrow> bool" where
  "room_kept sigs maxc listener pc mark h w =
     (mark \<le> sigs w \<and> sh_max_connections h = maxc \<and> sh_listener_task h = Some listener \<and> sh_capacity_waiting h = (pc = WaitingCapacity) \<and>
      int (owned_connection_count h) \<le> maxc \<and> (pc = Accepting \<longrightarrow> int (owned_connection_count h) < maxc) \<and>
      (pc = WaitingCapacity \<longrightarrow> int (owned_connection_count h) \<ge> maxc \<or> sh_close_requested h \<or> mark < sigs w))"

definition serving_ok :: "('w \<Rightarrow> nat) \<Rightarrow> ('w \<Rightarrow> nat) \<Rightarrow> nat \<Rightarrow> int \<Rightarrow> nat \<Rightarrow> ('a, 'e, 'w) serving \<Rightarrow> bool" where
  "serving_ok calls sigs n maxc listener sv =
     (streams_kept (sv_accepted sv) (sv_handle sv) \<and> finish_kept calls n (sv_handle sv) (sv_world sv) \<and>
      room_kept sigs maxc listener (sv_pc sv) (sv_mark sv) (sv_handle sv) (sv_world sv))"

lemma serving_init_ok:
  assumes "0 \<le> maxc"
  shows "serving_ok calls sigs (calls w) maxc listener (serving_init sigs maxc channel has_wakeup listener w)"
  using assms
  by (simp add: serving_ok_def serving_init_def handle_init_def streams_kept_def finish_kept_def room_kept_def own_wf_def
      owned_streams_def owned_connection_count_def)

lemma streams_kept_step:
  assumes "streams_kept accepted h" and "streams_step (owned_streams h) h h'"
  shows "streams_kept accepted h'"
  using assms unfolding streams_kept_def streams_step_def by blast

lemma streams_kept_new:
  assumes "streams_kept accepted h" and "streams_step (insert c (owned_streams h)) h h'"
  shows "streams_kept (insert c accepted) h'"
  using assms unfolding streams_kept_def streams_step_def by blast

lemma finish_kept_step:
  assumes kept: "finish_kept calls n h w" and step: "finish_step calls sigs h w h' w'" and closed: "all_closed h \<Longrightarrow> all_closed h'"
  shows "finish_kept calls n h' w'"
proof -
  have "sh_finished h' \<longrightarrow> \<not> sh_on_finalized h'"
    using kept step unfolding finish_kept_def finish_step_def by blast
  moreover have "\<not> sh_on_finalized h' \<longrightarrow> all_closed h'"
    using kept step closed unfolding finish_kept_def finish_step_def by blast
  moreover have "calls w' = n + (if sh_on_finalized h' then 0 else 1)"
    using kept step unfolding finish_kept_def finish_step_def
    by (cases "sh_on_finalized h"; cases "sh_on_finalized h'"; simp)
  ultimately show ?thesis by (simp add: finish_kept_def)
qed

lemma count_step:
  assumes "own_wf h" and "own_step calls sigs S h w h' w'" and "finite S"
  shows "owned_connection_count h' \<le> card S"
  using assms by (simp add: own_step_def streams_step_def count_owned card_mono)

lemma count_insert:
  assumes "own_wf h" and "own_step calls sigs (insert c (owned_streams h)) h w h' w'"
  shows "owned_connection_count h' \<le> Suc (owned_connection_count h)"
  using count_step [OF assms] count_owned [OF assms(1)] card_insert_le_m1 [of "Suc (card (owned_streams h))" "owned_streams h" c]
  by (simp add: finite_owned card_insert_if split: if_splits)

text \<open>An operation on the streams the handle owns keeps the invariant if it makes no room silently.\<close>

definition no_silent_room :: "('w \<Rightarrow> nat) \<Rightarrow> ('a, 'e) handle \<Rightarrow> 'w \<Rightarrow> ('a, 'e) handle \<Rightarrow> 'w \<Rightarrow> bool" where
  "no_silent_room sigs h w h' w' =
     (sh_listener_task h \<noteq> None \<and> sh_capacity_waiting h \<and> int (owned_connection_count h) \<ge> sh_max_connections h \<longrightarrow>
        int (owned_connection_count h') \<ge> sh_max_connections h \<or> sh_close_requested h' \<or> sigs w < sigs w')"

lemma kept_room_no_silent:
  assumes "own_wf h" and "own_step calls sigs S h w h' w'" and "owned_streams h \<subseteq> owned_streams h' \<or> sh_close_requested h'"
  shows "no_silent_room sigs h w h' w'"
  using assms card_mono [OF finite_owned, of "owned_streams h" h']
  by (auto simp: no_silent_room_def own_step_def streams_step_def count_owned)

lemma room_kept_step:
  assumes kept: "room_kept sigs maxc listener pc mark h w" and wf: "own_wf h"
    and step: "own_step calls sigs (owned_streams h) h w h' w'" and room: "no_silent_room sigs h w h' w'"
  shows "room_kept sigs maxc listener pc mark h' w'"
proof -
  have "owned_connection_count h' \<le> owned_connection_count h"
    using count_step [OF wf step finite_owned] by (simp add: count_owned [OF wf])
  moreover have "sigs w \<le> sigs w'" "flags_step h h'" using step by (simp_all add: own_step_def finish_step_def)
  ultimately show ?thesis
    using kept room unfolding room_kept_def no_silent_room_def flags_step_def by auto
qed

lemma same_pc_ok:
  assumes ok: "serving_ok calls sigs n maxc listener sv"
    and step: "own_step calls sigs (owned_streams (sv_handle sv)) (sv_handle sv) (sv_world sv) h' w'"
    and room: "no_silent_room sigs (sv_handle sv) (sv_world sv) h' w'"
  shows "serving_ok calls sigs n maxc listener (with_handle sv (h', w'))"
proof -
  have wf: "own_wf (sv_handle sv)" using ok by (simp add: serving_ok_def streams_kept_def)
  have parts: "streams_step (owned_streams (sv_handle sv)) (sv_handle sv) h'" "flags_step (sv_handle sv) h'"
    "finish_step calls sigs (sv_handle sv) (sv_world sv) h' w'" using step by (simp_all add: own_step_def)
  show ?thesis
    using ok streams_kept_step [OF _ parts(1)] finish_kept_step [OF _ parts(3) all_closed_step [OF _ parts(1,2)]]
      room_kept_step [OF _ wf step room]
    by (simp add: serving_ok_def with_handle_def)
qed

section \<open>Every event keeps it\<close>

lemma kept_known: "streams_kept accepted h \<Longrightarrow> c \<in> accepted \<Longrightarrow> c \<in> owned_streams h \<or> c \<in> set (sh_closed h)"
  unfolding streams_kept_def by blast

lemma finished_ok:
  assumes host: "counted_host calls sigs host" and ok: "serving_ok calls sigs n maxc listener sv" and c: "c \<in> sv_accepted sv"
  shows "serving_ok calls sigs n maxc listener
    (with_handle sv (connection_finished host task c primary (sv_handle sv) (sv_world sv)))"
proof -
  obtain h' w' where r: "connection_finished host task c primary (sv_handle sv) (sv_world sv) = (h', w')" by fastforce
  have kept: "streams_kept (sv_accepted sv) (sv_handle sv)" using ok by (simp add: serving_ok_def)
  then have "own_wf (sv_handle sv)" by (simp add: streams_kept_def)
  from connection_finished_step [OF host this kept_known [OF kept c] r] show ?thesis
    using same_pc_ok [OF ok] r by (simp add: no_silent_room_def)
qed

lemma forced_ok:
  assumes host: "counted_host calls sigs host" and ok: "serving_ok calls sigs n maxc listener sv" and c: "c \<in> sv_accepted sv"
  shows "serving_ok calls sigs n maxc listener
    (with_handle sv (snd (force_connection_close host c task primary (sv_handle sv) (sv_world sv))))"
proof -
  obtain ok1 h' w' where r: "force_connection_close host c task primary (sv_handle sv) (sv_world sv) = (ok1, h', w')"
    by (metis prod_cases3)
  have kept: "streams_kept (sv_accepted sv) (sv_handle sv)" using ok by (simp add: serving_ok_def)
  then have wf: "own_wf (sv_handle sv)" by (simp add: streams_kept_def)
  note step = force_close_step [OF host wf kept_known [OF kept c] r]
  show ?thesis
    using same_pc_ok [OF ok conjunct1 [OF step] kept_room_no_silent [OF wf conjunct1 [OF step] conjunct2 [OF step]]] r by simp
qed

lemma finish_ok:
  assumes host: "counted_host calls sigs host" and ok: "serving_ok calls sigs n maxc listener sv"
  shows "serving_ok calls sigs n maxc listener (with_handle sv (finish_close host owner current (sv_handle sv) (sv_world sv)))"
proof -
  obtain h' w' where r: "finish_close host owner current (sv_handle sv) (sv_world sv) = (h', w')" by fastforce
  have wf: "own_wf (sv_handle sv)" using ok by (simp add: serving_ok_def streams_kept_def)
  note step = finish_close_step [OF host wf r]
  have "owned_streams (sv_handle sv) \<subseteq> owned_streams h' \<or> sh_close_requested h'"
    using step r by (cases "sh_finished (sv_handle sv)") (auto simp: finish_close_def)
  from same_pc_ok [OF ok conjunct1 [OF step] kept_room_no_silent [OF wf conjunct1 [OF step] this]] r show ?thesis by simp
qed

text \<open>Events that only touch other books.\<close>

lemma books_ok:
  assumes ok: "serving_ok calls sigs n maxc listener sv" and same: "same_streams (sv_handle sv) h'"
    and flags: "flags_step (sv_handle sv) h'" and w: "quiet calls sigs (sv_world sv) w'"
  shows "serving_ok calls sigs n maxc listener (with_handle sv (h', w'))"
proof -
  have wf: "own_wf (sv_handle sv)" using ok by (simp add: serving_ok_def streams_kept_def)
  note step = same_streams_step [OF wf same flags w]
  have "owned_streams (sv_handle sv) \<subseteq> owned_streams h'" using same_streams_owned [OF same] by simp
  then show ?thesis using same_pc_ok [OF ok step kept_room_no_silent [OF wf step]] by simp
qed

lemma requested_ok:
  assumes ok: "serving_ok calls sigs n maxc listener sv" and same: "same_streams (sv_handle sv) h'"
    and flags: "flags_step (sv_handle sv) h'"
  shows "serving_ok calls sigs n maxc listener (sv\<lparr>sv_handle := h'\<rparr>)"
  using books_ok [OF ok same flags quiet_refl] by (simp add: with_handle_def)

lemma close_call_ok:
  assumes host: "counted_host calls sigs host" and ok: "serving_ok calls sigs n maxc listener sv"
  shows "serving_ok calls sigs n maxc listener (with_handle sv (snd (handle_close host (sv_handle sv) (sv_world sv))))"
proof -
  let ?h = "sv_handle sv"
  obtain r w1 where nt: "host_notify host (sv_world sv) = (r, w1)" by fastforce
  obtain o1 h' w' where c: "handle_close host ?h (sv_world sv) = (o1, h', w')" by (metis prod_cases3)
  have "(h', w') \<in> {(?h, sv_world sv), (?h\<lparr>sh_close_requested := True\<rparr>, sv_world sv), (?h\<lparr>sh_close_requested := True\<rparr>, w1),
      (?h\<lparr>sh_close_requested := True, sh_notification_sent := True\<rparr>, w1)}"
    using c nt by (cases r) (simp_all add: handle_close_def Let_def split: if_splits)
  then have "same_streams ?h h' \<and> flags_step ?h h' \<and> quiet calls sigs (sv_world sv) w'"
    using quiet_notify [OF host nt] by (auto simp: same_streams_def flags_step_def)
  then show ?thesis using books_ok [OF ok] c by simp
qed

lemma close_from_task_ok:
  assumes host: "counted_host calls sigs host" and ok: "serving_ok calls sigs n maxc listener sv"
  shows "serving_ok calls sigs n maxc listener (with_handle sv (snd (close_from_task host t (sv_handle sv) (sv_world sv))))"
proof (cases "host_cursor host (sv_world sv) \<noteq> Some t \<or> sh_finished (sv_handle sv)")
  case True
  then have "snd (close_from_task host t (sv_handle sv) (sv_world sv)) = (sv_handle sv, sv_world sv)"
    by (auto simp: close_from_task_def)
  then show ?thesis using ok by (simp add: with_handle_def)
next
  case False
  define h1 where "h1 = (sv_handle sv)\<lparr>sh_close_requested := True, sh_finalization_attempted := True\<rparr>"
  define w1 where "w1 = shutdown_websockets host (sh_websocket_states h1) (sv_world sv)"
  have "serving_ok calls sigs n maxc listener (with_handle sv (h1, w1))"
    using shutdown_websockets_quiet [OF host] by (intro books_ok [OF ok]) (simp_all add: h1_def w1_def same_streams_def flags_step_def)
  from finish_ok [OF host this, of False "Some t"]
  have fin: "serving_ok calls sigs n maxc listener (with_handle sv (finish_from_task host (Some t) h1 w1))"
    by (simp add: with_handle_def finish_from_task_def)
  have "snd (close_from_task host t (sv_handle sv) (sv_world sv)) = finish_from_task host (Some t) h1 w1"
    using False by (simp add: close_from_task_def Let_def h1_def w1_def split: prod.split)
  then show ?thesis using fin by simp
qed

text \<open>The listener's own steps.\<close>

lemma top_ok:
  assumes ok: "serving_ok calls sigs n maxc listener sv" and pc: "sv_pc sv = AtTop" and run: "accept_top (sv_handle sv) = (pc1, h1)"
  shows "serving_ok calls sigs n maxc listener (sv\<lparr>sv_pc := pc1, sv_handle := h1, sv_mark := sigs (sv_world sv)\<rparr>)"
proof -
  have room: "room_kept sigs maxc listener (sv_pc sv) (sv_mark sv) (sv_handle sv) (sv_world sv)" using ok by (simp add: serving_ok_def)
  consider (returned) "pc1 = Returned" "h1 = sv_handle sv"
    | (waiting) "pc1 = WaitingCapacity" "h1 = (sv_handle sv)\<lparr>sh_capacity_waiting := True\<rparr>"
        "sh_max_connections (sv_handle sv) \<le> int (owned_connection_count (sv_handle sv))"
    | (accepting) "pc1 = Accepting" "h1 = sv_handle sv"
        "int (owned_connection_count (sv_handle sv)) < sh_max_connections (sv_handle sv)"
    using run by (auto simp: accept_top_def split: if_splits)
  then show ?thesis
  proof cases
    case waiting
    have "streams_kept (sv_accepted sv) h1 = streams_kept (sv_accepted sv) (sv_handle sv)"
      "finish_kept calls n h1 (sv_world sv) = finish_kept calls n (sv_handle sv) (sv_world sv)"
      by (simp_all add: waiting(2) streams_kept_def own_wf_def owned_streams_def finish_kept_def all_closed_def)
    moreover have "room_kept sigs maxc listener pc1 (sigs (sv_world sv)) h1 (sv_world sv)"
      using room waiting by (simp add: room_kept_def owned_connection_count_def)
    ultimately show ?thesis using ok by (simp add: serving_ok_def)
  qed (use ok room pc in \<open>simp_all add: serving_ok_def room_kept_def\<close>)
qed

lemma signalled_ok:
  assumes ok: "serving_ok calls sigs n maxc listener sv" and run: "capacity_signalled (sv_handle sv) = (pc1, h1)"
  shows "serving_ok calls sigs n maxc listener (sv\<lparr>sv_pc := pc1, sv_handle := h1\<rparr>)"
proof -
  have h1: "h1 = (sv_handle sv)\<lparr>sh_capacity_waiting := False\<rparr>" "pc1 = AtTop" using run by (simp_all add: capacity_signalled_def)
  have "streams_kept (sv_accepted sv) h1 = streams_kept (sv_accepted sv) (sv_handle sv)"
    "finish_kept calls n h1 (sv_world sv) = finish_kept calls n (sv_handle sv) (sv_world sv)"
    by (simp_all add: h1 streams_kept_def own_wf_def owned_streams_def finish_kept_def all_closed_def)
  then show ?thesis
    using ok h1 by (simp add: serving_ok_def room_kept_def owned_connection_count_def)
qed

text \<open>The listener leaves its accept with at most one more stream.\<close>

lemma left_accept_ok:
  assumes ok: "serving_ok calls sigs n maxc listener sv" and pc: "sv_pc sv = Accepting" and pc1: "pc1 \<notin> {WaitingCapacity, Accepting}"
    and step: "own_step calls sigs (insert c (owned_streams (sv_handle sv))) (sv_handle sv) (sv_world sv) h1 w1"
    and open1: "\<not> sh_listener_closed (sv_handle sv)"
  shows "serving_ok calls sigs n maxc listener
    (sv\<lparr>sv_pc := pc1, sv_batch := b, sv_handle := h1, sv_world := w1, sv_accepted := insert c (sv_accepted sv)\<rparr>)"
proof -
  have wf: "own_wf (sv_handle sv)" using ok by (simp add: serving_ok_def streams_kept_def)
  have parts: "streams_step (insert c (owned_streams (sv_handle sv))) (sv_handle sv) h1" "flags_step (sv_handle sv) h1"
    "finish_step calls sigs (sv_handle sv) (sv_world sv) h1 w1" using step by (simp_all add: own_step_def)
  have room: "room_kept sigs maxc listener Accepting (sv_mark sv) (sv_handle sv) (sv_world sv)" using ok pc by (simp add: serving_ok_def)
  have "streams_kept (insert c (sv_accepted sv)) h1"
    using streams_kept_new [OF _ parts(1)] ok by (simp add: serving_ok_def)
  moreover have "finish_kept calls n h1 w1"
    using finish_kept_step [OF _ parts(3)] ok open1 by (simp add: serving_ok_def all_closed_def)
  moreover have "room_kept sigs maxc listener pc1 (sv_mark sv) h1 w1"
    using room count_insert [OF wf step] parts(2,3) pc1 by (auto simp: room_kept_def flags_step_def finish_step_def)
  ultimately show ?thesis by (simp add: serving_ok_def)
qed

lemma accepted_ok:
  assumes host: "counted_host calls sigs host" and ok: "serving_ok calls sigs n maxc listener sv" and pc: "sv_pc sv = Accepting"
    and new: "c \<notin> sv_accepted sv" and open1: "\<not> sh_listener_closed (sv_handle sv)"
    and run: "accept_stream host batch_size listener c (sv_batch sv) (sv_handle sv) (sv_world sv) = ((pc1, b), h1, w1)"
  shows "serving_ok calls sigs n maxc listener
    (sv\<lparr>sv_pc := pc1, sv_batch := b, sv_handle := h1, sv_world := w1, sv_accepted := insert c (sv_accepted sv)\<rparr>)"
proof (rule left_accept_ok [OF ok pc _ _ open1])
  let ?h = "sv_handle sv" and ?w = "sv_world sv"
  have wf: "own_wf ?h" and c: "c \<notin> owned_streams ?h" using ok new by (auto simp: serving_ok_def streams_kept_def)
  show "pc1 \<notin> {WaitingCapacity, Accepting}"
    using run by (auto simp: accept_stream_def Let_def split: if_splits prod.splits option.splits)
  show "own_step calls sigs (insert c (owned_streams ?h)) ?h ?w h1 w1"
  proof (cases "handle_closed ?h")
    case True
    obtain ok1 h2 w2 where cr: "close_or_retain host (finish_from_task host) c (Some listener) None ?h ?w = (ok1, h2, w2)"
      by (metis prod_cases3)
    have "h1 = h2" "w1 = w2" using run True cr by (simp_all add: accept_stream_def Let_def split: if_splits)
    then show ?thesis using close_or_retain_step [OF host fin_ok_finish [OF host] wf _ _ _ cr, of "insert c (owned_streams ?h)"] by auto
  next
    case False
    obtain r h2 w2 where rc: "register_connection host listener c ?h ?w = (r, h2, w2)" by (metis prod_cases3)
    have "h1 = h2" "w1 = w2" using run False rc by (simp_all add: accept_stream_def Let_def split: if_splits option.splits)
    then show ?thesis using register_step [OF host wf c rc] by simp
  qed
qed

lemma setup_failed_ok:
  assumes host: "counted_host calls sigs host" and ok: "serving_ok calls sigs n maxc listener sv" and pc: "sv_pc sv = Accepting"
    and new: "c \<notin> sv_accepted sv" and open1: "\<not> sh_listener_closed (sv_handle sv)"
    and run: "accept_setup_failure host listener primary c e (sv_handle sv) (sv_world sv) = (pc1, h1, w1)"
  shows "serving_ok calls sigs n maxc listener
    (sv\<lparr>sv_pc := pc1, sv_handle := h1, sv_world := w1, sv_accepted := insert c (sv_accepted sv)\<rparr>)"
proof -
  let ?h = "sv_handle sv" and ?w = "sv_world sv"
  have wf: "own_wf ?h" and "c \<notin> owned_streams ?h" using ok new by (auto simp: serving_ok_def streams_kept_def)
  then have c: "c \<notin> fst ` set (sh_connections ?h)" by (simp add: owned_streams_def)
  obtain h2 w2 where sf: "accepted_setup_failed host primary c e (Some listener) ?h ?w = (h2, w2)" by fastforce
  have r: "pc1 = Failed" "h1 = h2" "w1 = w2" using run sf by (simp_all add: accept_setup_failure_def)
  have "own_step calls sigs (insert c (owned_streams ?h)) ?h ?w h1 w1"
    using close_failed_kept [OF host wf c sf] r by simp
  from left_accept_ok [OF ok pc _ this open1, of pc1 "sv_batch sv"] r(1) show ?thesis by simp
qed

lemma raised_ok:
  assumes host: "counted_host calls sigs host" and ok: "serving_ok calls sigs n maxc listener sv" and pc: "sv_pc sv = Accepting"
    and run: "accept_raised host listener e (sv_handle sv) (sv_world sv) = (pc1, h1, w1)"
  shows "serving_ok calls sigs n maxc listener (sv\<lparr>sv_pc := pc1, sv_handle := h1, sv_world := w1\<rparr>)"
proof -
  let ?h = "sv_handle sv" and ?w = "sv_world sv"
  have wf: "own_wf ?h" using ok by (simp add: serving_ok_def streams_kept_def)
  have pc1: "pc1 = Returned \<or> pc1 = Failed"
    using run by (auto simp: accept_raised_def split: if_splits prod.splits)
  have step: "own_step calls sigs (owned_streams ?h) ?h ?w h1 w1 \<and> no_silent_room sigs ?h ?w h1 w1"
  proof (cases "handle_closed ?h")
    case True
    then have "h1 = ?h" "w1 = ?w" using run by (simp_all add: accept_raised_def)
    then show ?thesis using own_step_refl [OF wf] by (simp add: no_silent_room_def)
  next
    case False
    obtain h2 w2 where lf: "listener_failed host e (Some listener) ?h ?w = (h2, w2)" by fastforce
    have "h1 = h2" "w1 = w2" using run False lf by (simp_all add: accept_raised_def)
    then show ?thesis using listener_failed_step [OF host wf lf] by (simp add: no_silent_room_def)
  qed
  have "serving_ok calls sigs n maxc listener (with_handle sv (h1, w1))"
    using same_pc_ok [OF ok conjunct1 [OF step] conjunct2 [OF step]] .
  then show ?thesis using pc pc1 by (auto simp: serving_ok_def with_handle_def room_kept_def)
qed

section \<open>Every run keeps it\<close>

lemma serving_step_ok:
  assumes host: "counted_host calls sigs host" and ok: "serving_ok calls sigs n maxc listener sv"
    and run: "serving_step host sigs batch_size listener ev sv = Some sv'"
  shows "serving_ok calls sigs n maxc listener sv'"
proof -
  note run' = run [unfolded serving_step_def Let_def]
  show ?thesis
  proof (cases ev)
    case EvTop
    then show ?thesis using run' top_ok [OF ok] by (auto split: if_splits prod.splits)
  next
    case EvCapacitySignal
    then show ?thesis using run' signalled_ok [OF ok] by (auto split: if_splits prod.splits)
  next
    case (EvAccepted c)
    then show ?thesis using run' accepted_ok [OF host ok] by (auto split: if_splits prod.splits)
  next
    case (EvSetupFailed primary c e)
    then show ?thesis using run' setup_failed_ok [OF host ok] by (auto split: if_splits prod.splits)
  next
    case (EvAcceptRaised e)
    then show ?thesis using run' raised_ok [OF host ok] by (auto split: if_splits prod.splits)
  next
    case EvYielded
    then have "sv' = sv\<lparr>sv_pc := AtTop\<rparr>" "sv_pc sv = Yielding" using run' by (simp_all split: if_splits)
    then show ?thesis using ok by (simp add: serving_ok_def room_kept_def)
  next
    case (EvFinished task c primary)
    then show ?thesis using run' finished_ok [OF host ok] by (auto split: if_splits)
  next
    case (EvForced c task primary)
    then show ?thesis using run' forced_ok [OF host ok] by (auto split: if_splits)
  next
    case (EvGraceful c)
    have "serving_ok calls sigs n maxc listener (with_handle sv (register_graceful c (sv_handle sv), sv_world sv))"
      by (rule books_ok [OF ok]) (simp_all add: register_graceful_def same_streams_def flags_step_def)
    then show ?thesis using run' EvGraceful by simp
  next
    case (EvWebsocketBegun c)
    have "serving_ok calls sigs n maxc listener (with_handle sv (websocket_begun c (sv_handle sv), sv_world sv))"
      by (rule books_ok [OF ok]) (simp_all add: websocket_begun_def same_streams_def flags_step_def)
    then show ?thesis using run' EvWebsocketBegun by simp
  next
    case (EvWebsocketEnded c)
    have "serving_ok calls sigs n maxc listener (with_handle sv (websocket_ended c (sv_handle sv), sv_world sv))"
      by (rule books_ok [OF ok]) (simp_all add: websocket_ended_def same_streams_def flags_step_def)
    then show ?thesis using run' EvWebsocketEnded by simp
  next
    case (EvTaskStarted t)
    have "serving_ok calls sigs n maxc listener
        (with_handle sv ((sv_handle sv)\<lparr>sh_owned_tasks := sh_owned_tasks (sv_handle sv) @ [t]\<rparr>, sv_world sv))"
      by (rule books_ok [OF ok]) (simp_all add: same_streams_def flags_step_def)
    then show ?thesis using run' EvTaskStarted by simp
  next
    case (EvTaskCancelled t)
    obtain r h1 w1 where c: "cancel_or_retain_task host t (sv_handle sv) (sv_world sv) = (r, h1, w1)" by (metis prod_cases3)
    show ?thesis
      using run' EvTaskCancelled books_ok [OF ok, of h1 w1] cancel_step [OF host c] c by (simp add: task_step_def)
  next
    case (EvTaskForgotten t)
    have "serving_ok calls sigs n maxc listener
        (with_handle sv ((sv_handle sv)\<lparr>sh_owned_tasks := remove1 t (sh_owned_tasks (sv_handle sv))\<rparr>, sv_world sv))"
      by (rule books_ok [OF ok]) (simp_all add: same_streams_def flags_step_def)
    then show ?thesis using run' EvTaskForgotten by simp
  next
    case EvClose
    then show ?thesis using run' close_call_ok [OF host ok] by auto
  next
    case (EvCloseFromTask t)
    then show ?thesis using run' close_from_task_ok [OF host ok] by auto
  next
    case (EvWatcher t)
    then show ?thesis using run' finish_ok [OF host ok] by (auto simp: finish_from_task_def)
  next
    case EvFinalize
    then show ?thesis using run' finish_ok [OF host ok] by (auto simp: finalize_def)
  qed
qed

lemma serving_run_ok:
  assumes "counted_host calls sigs host" and "serving_ok calls sigs n maxc listener sv"
    and "serving_run host sigs batch_size listener evs sv = Some sv'"
  shows "serving_ok calls sigs n maxc listener sv'"
  using assms(2,3)
  by (induction evs arbitrary: sv) (auto split: option.splits dest: serving_step_ok [OF assms(1)])

section \<open>What it means\<close>

text \<open>A host for concrete runs: every call succeeds, the world counts completions and signals.\<close>

definition counting_host :: "(nat, nat \<times> nat) host" where
  "counting_host = \<lparr>host_socket_close = \<lambda>c w. (None, w), host_listener_close = \<lambda>w. (None, w),
     host_wakeup_close = \<lambda>w. (None, w), host_notify = \<lambda>w. (None, w), host_cancel = \<lambda>t w. (None, w),
     host_resume = \<lambda>t w. w, host_signal = \<lambda>t w. (None, (fst w, Suc (snd w))), host_cursor = \<lambda>w. None,
     host_graceful = \<lambda>c w. (True, w), host_ws_shutdown = \<lambda>c w. w, host_wake_observer = \<lambda>t w. w,
     host_new_task = \<lambda>w. (Inr 5, w), host_fork = \<lambda>t w. (None, w), host_finalized = \<lambda>w. (Suc (fst w), snd w)\<rparr>"

lemma counting_host_counts: "counted_host fst snd counting_host"
  by (simp add: counted_host_def counting_host_def quiet_def)

text \<open>C16. However the tasks of a server interleave, and whatever closing, notifying and cancelling raise, no
  accepted stream is lost: each stream the listener has accepted is closed, or it is in
  \<open>_connections\<close> or \<open>_closing_connections\<close> and will be closed with the server; the handle owns no other
  streams and never more than \<open>max_connections\<close>. Once the handle is finished, every accepted stream, the
  listener and the wakeup channel are closed.\<close>

theorem accepted_streams_owned:
  assumes "counted_host calls sigs host" and "0 \<le> maxc"
    and "serving_run host sigs batch_size listener evs (serving_init sigs maxc channel has_wakeup listener w) = Some sv"
  shows "sv_accepted sv \<subseteq> owned_streams (sv_handle sv) \<union> set (sh_closed (sv_handle sv)) \<and>
    owned_streams (sv_handle sv) \<subseteq> sv_accepted sv \<and> int (owned_connection_count (sv_handle sv)) \<le> maxc \<and>
    (sh_finished (sv_handle sv) \<longrightarrow> sv_accepted sv \<subseteq> set (sh_closed (sv_handle sv)) \<and>
       sh_listener_closed (sv_handle sv) \<and> sh_wakeup_closed (sv_handle sv) \<noteq> Some False)"
proof -
  note ok = serving_run_ok [OF assms(1) serving_init_ok [OF assms(2)] assms(3)]
  then have "sh_finished (sv_handle sv) \<longrightarrow> owned_streams (sv_handle sv) = {}"
    by (simp add: serving_ok_def finish_kept_def all_closed_def owned_empty)
  with ok show ?thesis
    by (auto simp: serving_ok_def streams_kept_def finish_kept_def room_kept_def all_closed_def)
qed

lemma accepted_streams_owned_witness:
  "\<exists>sv. serving_run counting_host snd 1 3
      [EvTop, EvAccepted 7, EvYielded, EvTop, EvFinalize, EvFinished 5 7 None]
      (serving_init snd 1 (None :: nat channel option) True 3 (0, 0)) = Some sv \<and>
    sv_accepted sv = {7} \<and> sh_finished (sv_handle sv) \<and>
    sv_accepted sv \<subseteq> set (sh_closed (sv_handle sv))"
  using accepted_streams_owned [of fst snd counting_host 1 1 3
      "[EvTop, EvAccepted 7, EvYielded, EvTop, EvFinalize, EvFinished 5 7 None]" "None :: nat channel option" True "(0, 0)"]
    counting_host_counts
  by (simp add: serving_step_def serving_init_def handle_init_def accept_top_def handle_closed_def owned_connection_count_def
      accept_stream_def register_connection_def counting_host_def Let_def finalize_def finish_close_def stop_observer_def
      close_wakeup_def pop_error_def dict_pop_def stop_connection_def cancel_noted_def cancel_or_retain_task_def add_key_def
      close_or_retain_def close_stream_def resume_listener_def close_listener_def update_finished_def released_def with_handle_def
      connection_finished_def notify_capacity_released_def)

text \<open>C17. The accept loop does not sleep through free capacity: whenever it waits for a capacity signal and the
  handle owns fewer streams than \<open>max_connections\<close>, a signal has been delivered to it since it began
  to wait, or the server is closing.\<close>

theorem waiting_listener_signalled:
  assumes "counted_host calls sigs host" and "0 \<le> maxc"
    and "serving_run host sigs batch_size listener evs (serving_init sigs maxc channel has_wakeup listener w) = Some sv"
    and "sv_pc sv = WaitingCapacity" and "int (owned_connection_count (sv_handle sv)) < maxc"
  shows "sv_mark sv < sigs (sv_world sv) \<or> sh_close_requested (sv_handle sv)"
  using serving_run_ok [OF assms(1) serving_init_ok [OF assms(2)] assms(3)] assms(4,5)
  by (auto simp: serving_ok_def room_kept_def)

lemma waiting_listener_signalled_witness:
  "\<exists>sv. serving_run counting_host snd 1 3
      [EvTop, EvAccepted 7, EvYielded, EvTop, EvFinished 5 7 None]
      (serving_init snd 1 (None :: nat channel option) True 3 (0, 0)) = Some sv \<and>
    sv_pc sv = WaitingCapacity \<and> \<not> sh_close_requested (sv_handle sv) \<and> sv_mark sv < snd (sv_world sv)"
  using waiting_listener_signalled [of fst snd counting_host 1 1 3
      "[EvTop, EvAccepted 7, EvYielded, EvTop, EvFinished 5 7 None]" "None :: nat channel option" True "(0, 0)"]
    counting_host_counts
  by (simp add: serving_step_def serving_init_def handle_init_def accept_top_def handle_closed_def owned_connection_count_def
      accept_stream_def register_connection_def counting_host_def Let_def
      pop_error_def dict_pop_def close_or_retain_def close_stream_def update_finished_def released_def with_handle_def
      connection_finished_def notify_capacity_released_def)

text \<open>C18. The completion callback of a server runs at most once and never early: when it has run, every accepted
  stream, the listener and the wakeup channel are closed and stay so; and the handle is not finished before
  it has run.\<close>

theorem completion_called_once:
  assumes "counted_host calls sigs host" and "0 \<le> maxc"
    and "serving_run host sigs batch_size listener evs (serving_init sigs maxc channel has_wakeup listener w) = Some sv"
  shows "(calls (sv_world sv) = calls w \<and> \<not> sh_finished (sv_handle sv)) \<or>
    (calls (sv_world sv) = Suc (calls w) \<and> sv_accepted sv \<subseteq> set (sh_closed (sv_handle sv)) \<and>
       sh_listener_closed (sv_handle sv) \<and> sh_wakeup_closed (sv_handle sv) \<noteq> Some False)"
proof -
  note ok = serving_run_ok [OF assms(1) serving_init_ok [OF assms(2)] assms(3)]
  show ?thesis
  proof (cases "sh_on_finalized (sv_handle sv)")
    case True
    with ok show ?thesis by (simp add: serving_ok_def finish_kept_def)
  next
    case False
    with ok have "all_closed (sv_handle sv)" "owned_streams (sv_handle sv) = {}"
      by (simp_all add: serving_ok_def finish_kept_def all_closed_def owned_empty)
    with ok False show ?thesis by (simp add: serving_ok_def finish_kept_def streams_kept_def all_closed_def)
  qed
qed

lemma completion_called_once_witness:
  "\<exists>sv. serving_run counting_host snd 1 3 [EvTop, EvClose, EvWatcher 4, EvFinalize]
      (serving_init snd 1 (None :: nat channel option) True 3 (0, 0)) = Some sv \<and>
    sh_finished (sv_handle sv) \<and> fst (sv_world sv) = 1"
  using completion_called_once [of fst snd counting_host 1 1 3 "[EvTop, EvClose, EvWatcher 4, EvFinalize]"
      "None :: nat channel option" True "(0, 0)"] counting_host_counts
  by (simp add: serving_step_def serving_init_def handle_init_def accept_top_def handle_closed_def owned_connection_count_def
      counting_host_def Let_def finalize_def finish_from_task_def finish_close_def stop_observer_def handle_close_def
      close_wakeup_def pop_error_def dict_pop_def resume_listener_def close_listener_def update_finished_def released_def
      with_handle_def)

end
