(* ===== verification/Finalizing.thy ===== *)
theory Finalizing
  imports Handle_Steps
begin

text \<open>
  What one call of \<open>finalize\<close> achieves: with a host that releases what it is asked to release it ends the
  server, whatever state earlier failures have left; with any host, what is still held is named in
  \<open>cleanup_errors\<close>.
\<close>

section \<open>Errors are on the books\<close>

definition named :: "owned \<Rightarrow> ('a, 'e) handle \<Rightarrow> bool" where
  "named k h = (k \<in> fst ` set (sh_cleanup_errors h))"

definition streams_named :: "('a, 'e) handle \<Rightarrow> bool" where
  "streams_named h = (\<forall>c \<in> set (sh_closing h). named (OConnection c) h)"

definition tasks_named :: "('a, 'e) handle \<Rightarrow> bool" where
  "tasks_named h = (\<forall>t \<in> set (sh_pending_cancellations h). named (OTask t) h)"

definition wakeup_named :: "('a, 'e) handle \<Rightarrow> bool" where
  "wakeup_named h = (sh_wakeup_closed h = Some False \<longrightarrow> named OWakeup h)"

definition all_named :: "('a, 'e) handle \<Rightarrow> bool" where
  "all_named h = (wakeup_named h \<and> streams_named h \<and> tasks_named h)"

lemma named_set_error [simp]: "named k (set_error k' e h) \<longleftrightarrow> k = k' \<or> named k h"
  by (simp add: named_def set_error_def)

lemma named_pop_error [simp]: "named k (pop_error k' h) \<longleftrightarrow> k \<noteq> k' \<and> named k h"
  by (auto simp: named_def pop_error_def)

lemma error_book_fields [simp]:
  "sh_closing (set_error k e h) = sh_closing h" "sh_closing (pop_error k h) = sh_closing h"
  "sh_connections (set_error k e h) = sh_connections h" "sh_connections (pop_error k h) = sh_connections h"
  "sh_pending_cancellations (set_error k e h) = sh_pending_cancellations h"
  "sh_pending_cancellations (pop_error k h) = sh_pending_cancellations h"
  "sh_wakeup_closed (set_error k e h) = sh_wakeup_closed h" "sh_wakeup_closed (pop_error k h) = sh_wakeup_closed h"
  "sh_listener_closed (set_error k e h) = sh_listener_closed h" "sh_listener_closed (pop_error k h) = sh_listener_closed h"
  "sh_close_requested (set_error k e h) = sh_close_requested h" "sh_close_requested (pop_error k h) = sh_close_requested h"
  "sh_websocket_states (set_error k e h) = sh_websocket_states h" "sh_websocket_states (pop_error k h) = sh_websocket_states h"
  "sh_finalization_attempted (set_error k e h) = sh_finalization_attempted h"
  "sh_finalization_attempted (pop_error k h) = sh_finalization_attempted h"
  "sh_closed (set_error k e h) = sh_closed h" "sh_closed (pop_error k h) = sh_closed h"
  by (simp_all add: set_error_def pop_error_def)

lemma named_update [simp]:
  "named k (h\<lparr>sh_closing := cs\<rparr>) = named k h" "named k (h\<lparr>sh_closed := cs\<rparr>) = named k h"
  "named k (h\<lparr>sh_connections := d\<rparr>) = named k h" "named k (h\<lparr>sh_pending_cancellations := ts\<rparr>) = named k h"
  "named k (h\<lparr>sh_cancelled_task_ids := ts\<rparr>) = named k h" "named k (h\<lparr>sh_wakeup_closed := b\<rparr>) = named k h"
  "named k (h\<lparr>sh_listener_closed := l\<rparr>) = named k h" "named k (h\<lparr>sh_failure := f\<rparr>) = named k h"
  "named k (h\<lparr>sh_close_requested := r\<rparr>) = named k h" "named k (h\<lparr>sh_notification_sent := s\<rparr>) = named k h"
  "named k (h\<lparr>sh_listener_resumed := r\<rparr>) = named k h" "named k (h\<lparr>sh_channel := ch\<rparr>) = named k h"
  by (simp_all add: named_def)

section \<open>Cooperative hosts\<close>

definition cooperative :: "('e, 'w) host \<Rightarrow> bool" where
  "cooperative host = ((\<forall>c w. fst (host_socket_close host c w) = None) \<and> (\<forall>w. fst (host_listener_close host w) = None) \<and>
     (\<forall>w. fst (host_wakeup_close host w) = None) \<and> (\<forall>t w. fst (host_cancel host t w) = None))"

text \<open>During a finalization: the fields that decide whether the handle is released. \<open>rel\<close> says whether the host is
  cooperative.\<close>

definition progress :: "bool \<Rightarrow> nat list \<Rightarrow> ('a, 'e) handle \<Rightarrow> bool" where
  "progress rel W h = (sh_close_requested h \<and> sh_finalization_attempted h \<and> wakeup_named h \<and>
     sh_websocket_states h = W \<and> (rel \<longrightarrow> sh_wakeup_closed h \<noteq> Some False))"

definition settled :: "bool \<Rightarrow> nat list \<Rightarrow> ('a, 'e) handle \<Rightarrow> bool" where
  "settled rel W h = (progress rel W h \<and> streams_named h \<and> (rel \<longrightarrow> sh_closing h = []))"

definition cleared :: "bool \<Rightarrow> nat list \<Rightarrow> ('a, 'e) handle \<Rightarrow> bool" where
  "cleared rel W h = (settled rel W h \<and> tasks_named h \<and> (rel \<longrightarrow> sh_pending_cancellations h = []))"

text \<open>The outcome of closing one stream.\<close>

lemma close_stream_outcome:
  assumes "close_stream host c h w = (r, h1, w1)"
  shows "(r = None \<and> (h1 = h \<or> h1 = h\<lparr>sh_closed := c # sh_closed h\<rparr>)) \<or> (\<exists>e. r = Some e \<and> h1 = h \<and> \<not> cooperative host)"
proof (cases "c \<in> set (sh_closed h)")
  case True
  then show ?thesis using assms by (simp add: close_stream_def)
next
  case False
  obtain q w2 where q: "host_socket_close host c w = (q, w2)" by fastforce
  then have "cooperative host \<Longrightarrow> q = None" unfolding cooperative_def by (metis fst_conv)
  then show ?thesis using assms False q by (cases q) (auto simp: close_stream_def)
qed

lemma retry_closing_settled:
  assumes "retry_closing host cs h w = (h', w')" and "progress (cooperative host) W h"
    and "\<forall>c \<in> set (sh_closing h) - set cs. named (OConnection c) h" and "cooperative host \<longrightarrow> set (sh_closing h) \<subseteq> set cs"
  shows "settled (cooperative host) W h' \<and> sh_connections h' = sh_connections h"
  using assms
proof (induction cs arbitrary: h w)
  case Nil
  then show ?case by (auto simp: settled_def streams_named_def)
next
  case (Cons c cs)
  obtain r h1 w1 where cs: "close_stream host c h w = (r, h1, w1)" by (metis prod_cases3)
  from close_stream_outcome [OF cs] consider (failed) e where "r = Some e" "h1 = h" "\<not> cooperative host"
    | (closed) "r = None" "h1 = h \<or> h1 = h\<lparr>sh_closed := c # sh_closed h\<rparr>" by blast
  then show ?case
  proof cases
    case f: failed
    have "retry_closing host cs (set_error (OConnection c) e h) w1 = (h', w')" using Cons.prems(1) cs f by simp
    moreover have "progress (cooperative host) W (set_error (OConnection c) e h)"
      using Cons.prems(2) by (simp add: progress_def wakeup_named_def)
    ultimately show ?thesis using Cons.IH [of "set_error (OConnection c) e h" w1] Cons.prems(3) f(3) by auto
  next
    case closed
    note r = closed(1) and h1 = closed(2)
    let ?g = "pop_error (OConnection c) (h1\<lparr>sh_closing := removeAll c (sh_closing h1)\<rparr>)"
    have run: "retry_closing host cs ?g w1 = (h', w')" using Cons.prems(1) cs r by simp
    have old: "sh_closing h1 = sh_closing h" "sh_connections h1 = sh_connections h" "\<And>k. named k h1 = named k h"
      "progress (cooperative host) W h1"
      using h1 Cons.prems(2) by (elim disjE; simp add: progress_def wakeup_named_def)+
    have g1: "progress (cooperative host) W ?g" using old(4) by (simp add: progress_def wakeup_named_def)
    have g2: "\<forall>c' \<in> set (sh_closing ?g) - set cs. named (OConnection c') ?g" using Cons.prems(3) old(1,3) by auto
    have g3: "cooperative host \<longrightarrow> set (sh_closing ?g) \<subseteq> set cs" using Cons.prems(4) old(1) by auto
    show ?thesis using Cons.IH [OF run g1 g2 g3] old(2) by simp
  qed
qed

text \<open>Cancelling.\<close>

lemma cancel_outcome:
  assumes "cancel_noted host t h w = (h', w')"
  shows "sh_pending_cancellations h' = removeAll t (sh_pending_cancellations h) \<and> (\<forall>k. named k h' \<longleftrightarrow> k \<noteq> OTask t \<and> named k h) \<or>
    \<not> cooperative host \<and> sh_pending_cancellations h' = add_key t (sh_pending_cancellations h) \<and>
      (\<forall>k. named k h' \<longleftrightarrow> k = OTask t \<or> named k h)"
    and "sh_connections h' = sh_connections h" and "sh_closing h' = sh_closing h"
    and "sh_close_requested h' = sh_close_requested h" and "sh_finalization_attempted h' = sh_finalization_attempted h"
    and "sh_wakeup_closed h' = sh_wakeup_closed h" and "sh_websocket_states h' = sh_websocket_states h"
proof -
  obtain q w2 where q: "host_cancel host t w = (q, w2)" by fastforce
  then have coop: "cooperative host \<Longrightarrow> q = None" unfolding cooperative_def by (metis fst_conv)
  define h0 where "h0 = (case q of
      None \<Rightarrow> pop_error (OTask t) (h\<lparr>sh_pending_cancellations := removeAll t (sh_pending_cancellations h)\<rparr>)
    | Some e \<Rightarrow> set_error (OTask t) e (h\<lparr>sh_pending_cancellations := add_key t (sh_pending_cancellations h)\<rparr>))"
  have h': "h' = (if q = None then h0\<lparr>sh_cancelled_task_ids := add_key t (sh_cancelled_task_ids h0)\<rparr> else h0)"
    using assms q by (cases q) (simp_all add: cancel_noted_def cancel_or_retain_task_def h0_def)
  show "sh_pending_cancellations h' = removeAll t (sh_pending_cancellations h) \<and> (\<forall>k. named k h' \<longleftrightarrow> k \<noteq> OTask t \<and> named k h) \<or>
    \<not> cooperative host \<and> sh_pending_cancellations h' = add_key t (sh_pending_cancellations h) \<and>
      (\<forall>k. named k h' \<longleftrightarrow> k = OTask t \<or> named k h)"
    using coop by (cases q) (auto simp: h' h0_def)
  show "sh_connections h' = sh_connections h" "sh_closing h' = sh_closing h" "sh_close_requested h' = sh_close_requested h"
    "sh_finalization_attempted h' = sh_finalization_attempted h" "sh_wakeup_closed h' = sh_wakeup_closed h"
    "sh_websocket_states h' = sh_websocket_states h"
    by (cases q; simp add: h' h0_def)+
qed

lemma cancel_settled:
  assumes "settled rel W h" and "cancel_noted host t h w = (h', w')"
  shows "settled rel W h'"
  using cancel_outcome [OF assms(2)] assms(1) by (auto simp: settled_def progress_def streams_named_def wakeup_named_def)

lemma cancel_cleared:
  assumes "cleared (cooperative host) W h" and "cancel_noted host t h w = (h', w')"
  shows "cleared (cooperative host) W h'"
  using cancel_outcome(1) [OF assms(2)] cancel_settled [OF _ assms(2), of "cooperative host" W] assms(1)
  by (auto simp: cleared_def tasks_named_def add_key_def split: if_splits)

lemma retry_cancellations_cleared:
  assumes "retry_cancellations host ts h w = (h', w')" and "settled (cooperative host) W h"
    and "\<forall>t \<in> set (sh_pending_cancellations h) - set ts. named (OTask t) h"
    and "cooperative host \<longrightarrow> set (sh_pending_cancellations h) \<subseteq> set ts"
  shows "cleared (cooperative host) W h' \<and> sh_connections h' = sh_connections h"
  using assms
proof (induction ts arbitrary: h w)
  case Nil
  then show ?case by (auto simp: cleared_def tasks_named_def)
next
  case (Cons t ts)
  obtain h1 w1 where c: "cancel_noted host t h w = (h1, w1)" by fastforce
  note out = cancel_outcome [OF c]
  have run: "retry_cancellations host ts h1 w1 = (h', w')" using Cons.prems(1) c by simp
  have "\<forall>s \<in> set (sh_pending_cancellations h1) - set ts. named (OTask s) h1"
    using out(1) Cons.prems(3) by (auto simp: add_key_def split: if_splits)
  moreover have "cooperative host \<longrightarrow> set (sh_pending_cancellations h1) \<subseteq> set ts"
    using out(1) Cons.prems(4) by auto
  ultimately show ?case using Cons.IH [OF run cancel_settled [OF Cons.prems(2) c]] out(2) by simp
qed

lemma cancel_owned_cleared:
  assumes "cancel_owned host current ts attempted h w = (h', w')" and "cleared (cooperative host) W h"
  shows "cleared (cooperative host) W h' \<and> sh_connections h' = sh_connections h"
  using assms
proof (induction ts arbitrary: attempted h w)
  case (Cons t ts)
  obtain h1 w1 where c: "cancel_noted host t h w = (h1, w1)" by fastforce
  show ?case
    using Cons.IH [of attempted h w] Cons.IH [of "t # attempted" h1 w1] Cons.prems cancel_cleared [OF Cons.prems(2) c]
      cancel_outcome(2) [OF c] c
    by (simp split: if_splits)
qed simp

section \<open>Closing the connections\<close>

lemma close_failed_during_finalize:
  assumes "sh_finalization_attempted h"
  shows "connection_close_failed host fin e task primary h w =
    (h\<lparr>sh_failure := (case sh_failure h of None \<Rightarrow> (case primary of None \<Rightarrow> Some e | Some p \<Rightarrow> Some p) | Some f \<Rightarrow> Some f),
       sh_close_requested := True\<rparr>, w)"
  using assms by (simp add: connection_close_failed_def Let_def)

lemma close_or_retain_cleared:
  assumes run: "close_or_retain host (\<lambda>_ h w. (h, w)) c task primary (h\<lparr>sh_connections := dict_pop c (sh_connections h)\<rparr>) w = (ok, h', w')"
    and cleared: "cleared (cooperative host) W h"
  shows "cleared (cooperative host) W h' \<and> sh_connections h' = dict_pop c (sh_connections h)"
proof -
  let ?g = "h\<lparr>sh_connections := dict_pop c (sh_connections h)\<rparr>"
  have g: "cleared (cooperative host) W ?g"
    using cleared by (simp add: cleared_def settled_def progress_def wakeup_named_def streams_named_def tasks_named_def)
  obtain r h1 w1 where cs: "close_stream host c ?g w = (r, h1, w1)" by (metis prod_cases3)
  from close_stream_outcome [OF cs] consider (failed) e where "r = Some e" "h1 = ?g" "\<not> cooperative host"
    | (closed) "r = None" "h1 = ?g \<or> h1 = ?g\<lparr>sh_closed := c # sh_closed ?g\<rparr>" by blast
  then show ?thesis
  proof cases
    case failed
    define h2 where "h2 = set_error (OConnection c) e (?g\<lparr>sh_closing := add_key c (sh_closing ?g)\<rparr>)"
    have att: "sh_finalization_attempted h2"
      using cleared by (simp add: h2_def cleared_def settled_def progress_def)
    have "h' = fst (connection_close_failed host (\<lambda>_ h w. (h, w)) e task primary h2 w1)"
      using run cs failed by (simp add: close_or_retain_def h2_def Let_def split: prod.splits)
    then have h': "h' = h2\<lparr>sh_failure := (case sh_failure h2 of None \<Rightarrow> (case primary of None \<Rightarrow> Some e | Some p \<Rightarrow> Some p) | Some f \<Rightarrow> Some f),
       sh_close_requested := True\<rparr>" by (simp add: close_failed_during_finalize [OF att])
    have fields: "sh_closing h' = add_key c (sh_closing h)" "sh_connections h' = dict_pop c (sh_connections h)"
      "sh_pending_cancellations h' = sh_pending_cancellations h" "sh_wakeup_closed h' = sh_wakeup_closed h"
      "sh_close_requested h'" "sh_finalization_attempted h'" "sh_websocket_states h' = sh_websocket_states h"
      "\<And>k. named k h' \<longleftrightarrow> k = OConnection c \<or> named k h"
      using att by (simp_all add: h' h2_def)
    have "streams_named h'" using cleared fields(1,8) by (auto simp: cleared_def settled_def streams_named_def add_key_def split: if_splits)
    then show ?thesis
      using cleared failed(3) fields by (simp add: cleared_def settled_def progress_def wakeup_named_def tasks_named_def)
  next
    case closed
    have h': "h' = pop_error (OConnection c) (h1\<lparr>sh_closing := removeAll c (sh_closing h1)\<rparr>)"
      using run cs closed(1) by (simp add: close_or_retain_def)
    have fields: "sh_closing h' = removeAll c (sh_closing h)" "sh_connections h' = dict_pop c (sh_connections h)"
      "sh_pending_cancellations h' = sh_pending_cancellations h" "sh_wakeup_closed h' = sh_wakeup_closed h"
      "sh_close_requested h' = sh_close_requested h" "sh_finalization_attempted h' = sh_finalization_attempted h"
      "sh_websocket_states h' = sh_websocket_states h" "\<And>k. named k h' \<longleftrightarrow> k \<noteq> OConnection c \<and> named k h"
      using closed(2) unfolding h' by (elim disjE; simp)+
    have "streams_named h'" using cleared fields(1,8) by (auto simp: cleared_def settled_def streams_named_def)
    then show ?thesis
      using cleared fields by (simp add: cleared_def settled_def progress_def wakeup_named_def tasks_named_def)
  qed
qed

text \<open>The owner thread closes every connection.\<close>

lemma close_connections_cleared:
  assumes "close_connections host True None entries attempted h w = (attempted', h', w')" and "cleared (cooperative host) W h"
  shows "cleared (cooperative host) W h' \<and> fst ` set (sh_connections h') = fst ` set (sh_connections h) - fst ` set entries"
  using assms
proof (induction entries arbitrary: attempted h w)
  case (Cons e entries)
  obtain c t where e: "e = (c, t)" by fastforce
  obtain graceful attempted1 h1 w1 where sc: "stop_connection host True None c t attempted h w = (graceful, attempted1, h1, w1)"
    by (metis prod_cases4)
  obtain h0 w0 where c: "cancel_noted host t h w = (h0, w0)" by fastforce
  have h1: "h1 = h0 \<or> h1 = h" using sc c by (auto simp: stop_connection_def split: if_splits)
  then have one: "cleared (cooperative host) W h1" "sh_connections h1 = sh_connections h"
    using cancel_cleared [OF Cons.prems(2) c] Cons.prems(2) cancel_outcome(2) [OF c] by auto
  obtain ok h2 w2 where cr: "close_or_retain host (\<lambda>_ h w. (h, w)) c None None
    (h1\<lparr>sh_connections := dict_pop c (sh_connections h1)\<rparr>) w1 = (ok, h2, w2)" by (metis prod_cases3)
  note two = close_or_retain_cleared [OF cr one(1)]
  have run: "close_connections host True None entries attempted1 h2 w2 = (attempted', h', w')"
    using Cons.prems(1) e sc cr by simp
  show ?case using Cons.IH [OF run conjunct1 [OF two]] two one(2) e by auto
qed simp

section \<open>\<open>finalize\<close>\<close>

lemma finalize_outcome:
  assumes run: "finalize host h w = (h', w')" and start: "\<not> sh_finished h"
  shows "sh_connections h' = [] \<and> sh_finished h' = released h' \<and>
    (cooperative host \<and> sh_websocket_states h = [] \<longrightarrow> sh_finished h') \<and>
    (sh_finished h' \<or> (all_named h' \<and> (sh_listener_closed h' \<or> named OListener h')))"
proof -
  let ?rel = "cooperative host"
  define W where "W = sh_websocket_states h"
  define h0 where "h0 = h\<lparr>sh_close_requested := True, sh_finalization_attempted := True\<rparr>"
  define w0 where "w0 = shutdown_websockets host (sh_websocket_states h0) w"
  obtain h1 w1 where e1: "stop_observer host h0 w0 = (h1, w1)" by fastforce
  obtain h2 w2 where e2: "close_wakeup host h1 w1 = (h2, w2)" by fastforce
  obtain h3 w3 where e3: "retry_closing host (sh_closing h2) h2 w2 = (h3, w3)" by fastforce
  obtain h4 w4 where e4: "retry_cancellations host (sh_pending_cancellations h3) h3 w3 = (h4, w4)" by fastforce
  obtain attempted h5 w5 where
    e5: "close_connections host True None (sh_connections h4) (sh_pending_cancellations h3) h4 w4 = (attempted, h5, w5)"
    by (metis prod_cases3)
  obtain g v where e6: "cancel_owned host None (sh_owned_tasks h5) attempted h5 w5 = (g, v)" by fastforce
  define h6 where "h6 = g\<lparr>sh_listener_resumed := True\<rparr>"
  have e7: "resume_listener host None h6 v = (h6, v)" by (simp add: resume_listener_def h6_def split: option.split)
  obtain h8 w8 where e8: "close_listener host h6 v = (h8, w8)" by fastforce
  have e9: "update_finished host h8 w8 = (h', w')"
    using run unfolding finalize_def finish_close_def Let_def if_not_P [OF start] h0_def [symmetric] w0_def [symmetric]
      e1 e2 e3 e4 e5 e6 e7 e8 prod.case if_True h6_def [symmetric] .
  have s1: "sh_websocket_states h1 = W" "sh_close_requested h1" "sh_finalization_attempted h1"
    using e1 by (auto simp: stop_observer_def h0_def W_def split: option.splits prod.splits)
  obtain q x where q: "host_wakeup_close host w1 = (q, x)" by fastforce
  then have "?rel \<Longrightarrow> q = None" unfolding cooperative_def by (metis fst_conv)
  then have s2: "progress ?rel W h2"
    using e2 s1 q by (cases q) (auto simp: close_wakeup_def progress_def wakeup_named_def split: if_splits)
  from retry_closing_settled [OF e3 s2] have s3: "settled ?rel W h3" by simp
  from retry_cancellations_cleared [OF e4 s3] have s4: "cleared ?rel W h4" by simp
  from close_connections_cleared [OF e5 s4] have s5: "cleared ?rel W h5" "sh_connections h5 = []" by simp_all
  from cancel_owned_cleared [OF e6 s5(1)] s5(2) have s6: "cleared ?rel W h6" "sh_connections h6 = []"
    by (simp_all add: h6_def cleared_def settled_def progress_def wakeup_named_def streams_named_def tasks_named_def)
  obtain q1 x1 where q1: "host_listener_close host v = (q1, x1)" by fastforce
  then have "?rel \<Longrightarrow> q1 = None" unfolding cooperative_def by (metis fst_conv)
  then have s8: "cleared ?rel W h8" "sh_connections h8 = []" "sh_listener_closed h8 \<or> (named OListener h8 \<and> \<not> ?rel)"
    using e8 s6 q1
    by (cases q1; auto simp: close_listener_def cleared_def settled_def progress_def wakeup_named_def streams_named_def
        tasks_named_def split: if_splits)+
  have fin: "?rel \<and> W = [] \<longrightarrow> released h8"
    using s8 by (auto simp: cleared_def settled_def progress_def released_def)
  have h': "sh_connections h' = []" "sh_finished h' = released h8" "released h' = released h8"
    "\<not> released h8 \<Longrightarrow> h' = h8\<lparr>sh_finished := False\<rparr>"
    using e9 s8(2) by (auto simp: update_finished_def Let_def released_def split: if_splits)
  show ?thesis
  proof (cases "released h8")
    case True
    then show ?thesis using h' by simp
  next
    case False
    then have eq: "h' = h8\<lparr>sh_finished := False\<rparr>" by (rule h'(4))
    have "all_named h'" "sh_listener_closed h' \<or> named OListener h'"
      using s8 unfolding eq
      by (auto simp: all_named_def cleared_def settled_def progress_def wakeup_named_def streams_named_def tasks_named_def named_def)
    then show ?thesis using h' fin False by (simp add: W_def)
  qed
qed

section \<open>What it means\<close>


definition quiet_host :: "(nat, nat) host" where
  "quiet_host = \<lparr>host_socket_close = \<lambda>c w. (None, Suc w), host_listener_close = \<lambda>w. (None, Suc w),
     host_wakeup_close = \<lambda>w. (None, w), host_notify = \<lambda>w. (Some 1, w), host_cancel = \<lambda>t w. (None, w),
     host_resume = \<lambda>t w. w, host_signal = \<lambda>t w. (Some 2, w), host_cursor = \<lambda>w. None,
     host_graceful = \<lambda>c w. (False, w), host_ws_shutdown = \<lambda>c w. w, host_wake_observer = \<lambda>t w. w,
     host_new_task = \<lambda>w. (Inr 5, w), host_fork = \<lambda>t w. (None, w), host_finalized = \<lambda>w. w\<rparr>"


text \<open>C20. No failure of the cleanup is silent: after a call of \<open>finalize\<close> on an unfinished handle, with any host,
  no stream is in \<open>_connections\<close>, and either the handle is finished or every resource it still holds has
  its latest error in \<open>cleanup_errors\<close>: the wakeup channel, the listener, each stream in
  \<open>_closing_connections\<close> and each task whose cancellation failed.\<close>

theorem finalize_names_failures:
  assumes "\<not> sh_finished h" and "finalize host h w = (h', w')"
  shows "sh_connections h' = [] \<and> (sh_finished h' \<or>
    ((sh_wakeup_closed h' = Some False \<longrightarrow> OWakeup \<in> fst ` set (sh_cleanup_errors h')) \<and>
     (\<not> sh_listener_closed h' \<longrightarrow> OListener \<in> fst ` set (sh_cleanup_errors h')) \<and>
     (\<forall>c \<in> set (sh_closing h'). OConnection c \<in> fst ` set (sh_cleanup_errors h')) \<and>
     (\<forall>t \<in> set (sh_pending_cancellations h'). OTask t \<in> fst ` set (sh_cleanup_errors h'))))"
  using finalize_outcome [OF assms(2,1)]
  by (auto simp: all_named_def wakeup_named_def streams_named_def tasks_named_def named_def)

lemma finalize_names_failures_witness:
  "\<exists>h' w'. finalize (quiet_host\<lparr>host_socket_close := \<lambda>c w. (Some 3, w)\<rparr>)
      ((handle_init 4 (None :: nat channel option) False)\<lparr>sh_connections := [(8, 5)]\<rparr>) 0 = (h', w') \<and>
    sh_closing h' = [8] \<and> \<not> sh_finished h' \<and> OConnection 8 \<in> fst ` set (sh_cleanup_errors h')"
proof -
  let ?host = "quiet_host\<lparr>host_socket_close := \<lambda>c w. (Some 3, w)\<rparr>"
  let ?h = "(handle_init 4 (None :: nat channel option) False)\<lparr>sh_connections := [(8, 5)]\<rparr>"
  obtain h' w' where run: "finalize ?host ?h 0 = (h', w')" by fastforce
  have "sh_closing h' = [8]" "\<not> sh_finished h'"
    using run by (auto simp: finalize_def finish_close_def handle_init_def quiet_host_def stop_observer_def close_wakeup_def
        stop_connection_def cancel_noted_def cancel_or_retain_task_def pop_error_def set_error_def dict_pop_def add_key_def
        close_or_retain_def close_stream_def connection_close_failed_def Let_def resume_listener_def close_listener_def
        update_finished_def released_def)
  with finalize_names_failures [OF _ run] run show ?thesis by (auto simp: handle_init_def)
qed

end
