(* ===== verification/Transport.thy ===== *)
theory Transport
  imports Cleanup
begin

text \<open>
  \<open>smallserver/_transport.py\<close>: the one place where the server talks to the SmallOS kernel. The kernel and the
  running task are parameters: \<open>kernel\<close> holds the calls of \<open>KernelLike\<close> and the two waits of a task as
  functions of a world \<open>'w\<close>; a call raises by giving \<open>Inl e\<close> or \<open>Some e\<close>. Streams \<open>'s\<close>,
  addresses \<open>'a\<close>, wakeup channels \<open>'c\<close> and their wait objects \<open>'o\<close> are opaque, as they are for the code.

  The retry loops of \<open>accept\<close>, \<open>recv\<close> and \<open>send_all\<close> run for as long as the kernel asks for a retry, so they are
  partial functions: \<open>None\<close> is a loop that never returns.
\<close>

section \<open>The kernel\<close>

datatype sock_op = OpAccept | OpRecv | OpSend

datatype retry_mode = ModeRead | ModeWrite | ModeOther

record ('s, 'a, 'c, 'o, 'e, 'w) kernel =
  k_resolve_passive_address :: "pystr \<Rightarrow> int \<Rightarrow> 'w \<Rightarrow> ('e + 'a) \<times> 'w"
  k_socket_open :: "'a \<Rightarrow> 'w \<Rightarrow> ('e + 's) \<times> 'w"
  k_socket_setblocking :: "'s \<Rightarrow> bool \<Rightarrow> 'w \<Rightarrow> 'e option \<times> 'w"
  k_socket_set_reuse_address :: "'s \<Rightarrow> bool \<Rightarrow> 'w \<Rightarrow> 'e option \<times> 'w"
  k_socket_bind :: "'s \<Rightarrow> 'a \<Rightarrow> 'w \<Rightarrow> 'e option \<times> 'w"
  k_socket_listen :: "'s \<Rightarrow> int \<Rightarrow> 'w \<Rightarrow> 'e option \<times> 'w"
  k_socket_accept :: "'s \<Rightarrow> 'w \<Rightarrow> ('e + 's \<times> 'a) \<times> 'w"
  k_socket_local_address :: "'s \<Rightarrow> 'w \<Rightarrow> ('e + (pystr \<times> int option) option) \<times> 'w"
  k_socket_peer_address :: "'s \<Rightarrow> 'w \<Rightarrow> ('e + 'a option) \<times> 'w"
  k_socket_recv :: "'s \<Rightarrow> int \<Rightarrow> 'w \<Rightarrow> ('e + bytes option) \<times> 'w"
  k_socket_send :: "'s \<Rightarrow> bytes \<Rightarrow> 'w \<Rightarrow> ('e + int option) \<times> 'w"
  k_socket_close :: "'s \<Rightarrow> 'w \<Rightarrow> 'e option \<times> 'w"
  k_socket_retry_mode :: "'e \<Rightarrow> sock_op \<Rightarrow> 'w \<Rightarrow> ('e + retry_mode) \<times> 'w"
  k_wait_readable :: "'s \<Rightarrow> 'w \<Rightarrow> 'e option \<times> 'w"
  k_wait_writable :: "'s \<Rightarrow> 'w \<Rightarrow> 'e option \<times> 'w"
  k_create_wakeup_channel :: "'w \<Rightarrow> ('e + 'c) \<times> 'w"
  k_validate_io_wait_object :: "'o \<Rightarrow> 'w \<Rightarrow> ('e + bool \<times> 'e option) \<times> 'w"
  k_channel_callable :: "'c \<Rightarrow> pystr \<Rightarrow> bool"
  k_channel_wait_object :: "'c \<Rightarrow> 'w \<Rightarrow> ('e + 'o) \<times> 'w"
  k_channel_notify :: "'c \<Rightarrow> 'w \<Rightarrow> 'e option \<times> 'w"
  k_channel_drain :: "'c \<Rightarrow> 'w \<Rightarrow> 'e option \<times> 'w"
  k_channel_close :: "'c \<Rightarrow> 'w \<Rightarrow> 'e option \<times> 'w"

text \<open>\<open>socket_recv\<close> and \<open>socket_send\<close> give \<open>None\<close> for a value that is not \<open>bytes\<close> or not an \<open>int\<close>;
  \<open>socket_local_address\<close> gives \<open>None\<close> for what is not a sequence of at least two, else \<open>str\<close> of the first
  item and the second if it is an \<open>int\<close>.\<close>

datatype 'e transport_error =
  KernelRaised 'e | NonBytesData | InvalidSendCount | NoForwardProgress | OversizedSendCount
| InvalidLocalAddress | InvalidLocalPort | InvalidWakeupChannel | InvalidWaitObject | ChannelNotCloseable | CleanupUnavailable

section \<open>The capability check\<close>

definition required_methods :: "pystr list" where
  "required_methods = map lit [''resolve_passive_address'', ''socket_open'', ''socket_setblocking'',
     ''socket_set_reuse_address'', ''socket_bind'', ''socket_listen'', ''socket_accept'', ''socket_local_address'',
     ''socket_peer_address'', ''socket_recv'', ''socket_send'', ''socket_close'', ''socket_retry_mode'']"

text \<open>What the constructor asks of the kernel object: which names are callable, and what the two predicates
  answer.\<close>

record capabilities =
  cap_callable :: "pystr \<Rightarrow> bool"
  cap_supports_tcp_server :: bool
  cap_supports_wakeup_channel :: bool

datatype capability_error = NoKernel | NoServerContract | ServerUnsupported | MissingOperations "pystr list"

definition transport_init :: "capabilities option \<Rightarrow> capability_error + bool" where
  "transport_init krn =
     (case krn of
        None \<Rightarrow> Inl NoKernel
      | Some cap \<Rightarrow>
          if \<not> cap_callable cap (lit ''supports_tcp_server'') then Inl NoServerContract
          else if \<not> cap_supports_tcp_server cap then Inl ServerUnsupported
          else
            let wakeup_supported = (cap_callable cap (lit ''supports_wakeup_channel'') \<and> cap_supports_wakeup_channel cap);
                missing = filter (\<lambda>name. \<not> cap_callable cap name) required_methods
                  @ (if wakeup_supported \<and> \<not> cap_callable cap (lit ''create_wakeup_channel'')
                     then [lit ''create_wakeup_channel''] else [])
                  @ (if wakeup_supported \<and> \<not> cap_callable cap (lit ''validate_io_wait_object'')
                     then [lit ''validate_io_wait_object''] else [])
            in if missing \<noteq> [] then Inl (MissingOperations missing) else Inr wakeup_supported)"

section \<open>Handles\<close>

record ('s, 'e) thandle =
  th_raw :: 's
  th_closed :: bool
  th_close_error :: "'e option"

definition new_handle :: "'s \<Rightarrow> ('s, 'e) thandle" where
  "new_handle raw = \<lparr>th_raw = raw, th_closed = False, th_close_error = None\<rparr>"

definition transport_close ::
  "('s, 'a, 'c, 'o, 'e, 'w) kernel \<Rightarrow> ('s, 'e) thandle \<Rightarrow> 'w \<Rightarrow> 'e option \<times> ('s, 'e) thandle \<times> 'w" where
  "transport_close k h w =
     (if th_closed h then (None, h, w)
      else case k_socket_close k (th_raw h) w of
             (Some e, w1) \<Rightarrow> (Some e, h\<lparr>th_close_error := Some e\<rparr>, w1)
           | (None, w1) \<Rightarrow> (None, h\<lparr>th_closed := True, th_close_error := None\<rparr>, w1))"

definition close_safely ::
  "('s, 'a, 'c, 'o, 'e, 'w) kernel \<Rightarrow> ('s, 'e) thandle \<Rightarrow> 'w \<Rightarrow> bool \<times> ('s, 'e) thandle \<times> 'w" where
  "close_safely k h w = (case transport_close k h w of (r, h1, w1) \<Rightarrow> (r = None, h1, w1))"

text \<open>The outcome of an acquisition. \<open>Unrolled\<close> is \<open>_TransportAcquisitionFailure\<close>: the rollback failed, and the
  transaction and the handle pass to the caller. The transaction's closures change the handle, so they act
  on the pair of it and the world.\<close>

datatype ('h, 'x, 'e, 'w) acquired =
  Acquired 'h | AcquireRaised 'x | Unrolled 'x "('e, 'h \<times> 'w) cleanup" 'h

fun first_raise :: "('w \<Rightarrow> 'e option \<times> 'w) list \<Rightarrow> 'w \<Rightarrow> 'e option \<times> 'w" where
  "first_raise [] w = (None, w)"
| "first_raise (call # calls) w =
     (case call w of (Some e, w1) \<Rightarrow> (Some e, w1) | (None, w1) \<Rightarrow> first_raise calls w1)"

definition close_action ::
  "('s, 'a, 'c, 'o, 'e, 'w) kernel \<Rightarrow> ('e, ('s, 'e) thandle \<times> 'w) action" where
  "close_action k = (\<lambda>(h, w). transport_close k h w)"

definition roll_back ::
  "('s, 'a, 'c, 'o, 'e, 'w) kernel \<Rightarrow> string \<Rightarrow> 'e transport_error \<Rightarrow> ('s, 'e) thandle \<Rightarrow> 'w \<Rightarrow>
   (('s, 'e) thandle, 'e transport_error, 'e, 'w) acquired \<times> 'w" where
  "roll_back k name primary h w =
     (case transport_close k h w of
        (None, h1, w1) \<Rightarrow> (AcquireRaised primary, w1)
      | (Some cleanup_error, h1, w1) \<Rightarrow>
          (Unrolled primary (cleanup_add (lit name) (close_action k) (Some cleanup_error) cleanup_init) h1, w1))"

definition open_listener ::
  "('s, 'a, 'c, 'o, 'e, 'w) kernel \<Rightarrow> pystr \<Rightarrow> int \<Rightarrow> int \<Rightarrow> bool \<Rightarrow> 'w \<Rightarrow>
   (('s, 'e) thandle, 'e transport_error, 'e, 'w) acquired \<times> 'w" where
  "open_listener k host port backlog reuse_address w =
     (case k_resolve_passive_address k host port w of
        (Inl e, w1) \<Rightarrow> (AcquireRaised (KernelRaised e), w1)
      | (Inr address_info, w1) \<Rightarrow>
          case k_socket_open k address_info w1 of
            (Inl e, w2) \<Rightarrow> (AcquireRaised (KernelRaised e), w2)
          | (Inr raw, w2) \<Rightarrow>
              case first_raise [k_socket_set_reuse_address k raw reuse_address, k_socket_bind k raw address_info,
                                k_socket_listen k raw backlog, k_socket_setblocking k raw False] w2 of
                (Some primary, w3) \<Rightarrow> roll_back k ''listener'' (KernelRaised primary) (new_handle raw) w3
              | (None, w3) \<Rightarrow> (Acquired (new_handle raw), w3))"

section \<open>The retry loops\<close>

definition wait_for_retry ::
  "('s, 'a, 'c, 'o, 'e, 'w) kernel \<Rightarrow> 's \<Rightarrow> 'e \<Rightarrow> sock_op \<Rightarrow> 'w \<Rightarrow> 'e option \<times> 'w" where
  "wait_for_retry k raw exc op w =
     (case k_socket_retry_mode k exc op w of
        (Inl e, w1) \<Rightarrow> (Some e, w1)
      | (Inr ModeRead, w1) \<Rightarrow> k_wait_readable k raw w1
      | (Inr ModeWrite, w1) \<Rightarrow> k_wait_writable k raw w1
      | (Inr ModeOther, w1) \<Rightarrow> (Some exc, w1))"

partial_function (option) accept_raw ::
  "('s, 'a, 'c, 'o, 'e, 'w) kernel \<Rightarrow> 's \<Rightarrow> 'w \<Rightarrow> (('e + 's \<times> 'a) \<times> 'w) option" where
  "accept_raw k raw w =
     (case k_socket_accept k raw w of
        (Inr accepted, w1) \<Rightarrow> Some (Inr accepted, w1)
      | (Inl exc, w1) \<Rightarrow>
          case wait_for_retry k raw exc OpAccept w1 of
            (Some e, w2) \<Rightarrow> Some (Inl e, w2)
          | (None, w2) \<Rightarrow> accept_raw k raw w2)"

text \<open>The stream with its peer address, or the kernel's address where \<open>socket_peer_address\<close> has none.\<close>

definition transport_accept ::
  "('s, 'a, 'c, 'o, 'e, 'w) kernel \<Rightarrow> ('s, 'e) thandle \<Rightarrow> 'w \<Rightarrow>
   ('a option \<times> (('s, 'e) thandle, 'e transport_error, 'e, 'w) acquired \<times> 'w) option" where
  "transport_accept k listener w =
     (case accept_raw k (th_raw listener) w of
        None \<Rightarrow> None
      | Some (Inl e, w1) \<Rightarrow> Some (None, AcquireRaised (KernelRaised e), w1)
      | Some (Inr (raw, address), w1) \<Rightarrow> Some
          (case k_socket_setblocking k raw False w1 of
             (Some primary, w2) \<Rightarrow> (None, roll_back k ''accepted-connection'' (KernelRaised primary) (new_handle raw) w2)
           | (None, w2) \<Rightarrow>
               case k_socket_peer_address k raw w2 of
                 (Inl primary, w3) \<Rightarrow> (None, roll_back k ''accepted-connection'' (KernelRaised primary) (new_handle raw) w3)
               | (Inr peer, w3) \<Rightarrow>
                   (Some (case peer of None \<Rightarrow> address | Some p \<Rightarrow> p), Acquired (new_handle raw), w3)))"

partial_function (option) transport_recv ::
  "('s, 'a, 'c, 'o, 'e, 'w) kernel \<Rightarrow> 's \<Rightarrow> int \<Rightarrow> 'w \<Rightarrow> (('e transport_error + bytes) \<times> 'w) option" where
  "transport_recv k raw limit w =
     (case k_socket_recv k raw limit w of
        (Inl exc, w1) \<Rightarrow>
          (case wait_for_retry k raw exc OpRecv w1 of
             (Some e, w2) \<Rightarrow> Some (Inl (KernelRaised e), w2)
           | (None, w2) \<Rightarrow> transport_recv k raw limit w2)
      | (Inr None, w1) \<Rightarrow> Some (Inl NonBytesData, w1)
      | (Inr (Some data), w1) \<Rightarrow> Some (Inr data, w1))"

text \<open>The loop of \<open>send_all\<close> at \<open>offset\<close>; \<open>None\<close> in the outcome is the normal return.\<close>

partial_function (option) send_from ::
  "('s, 'a, 'c, 'o, 'e, 'w) kernel \<Rightarrow> 's \<Rightarrow> bytes \<Rightarrow> nat \<Rightarrow> 'w \<Rightarrow> ('e transport_error option \<times> 'w) option" where
  "send_from k raw data offset w =
     (if offset \<ge> length data then Some (None, w)
      else case k_socket_send k raw (drop offset data) w of
             (Inl exc, w1) \<Rightarrow>
               (case wait_for_retry k raw exc OpSend w1 of
                  (Some e, w2) \<Rightarrow> Some (Some (KernelRaised e), w2)
                | (None, w2) \<Rightarrow> send_from k raw data offset w2)
           | (Inr None, w1) \<Rightarrow> Some (Some InvalidSendCount, w1)
           | (Inr (Some sent), w1) \<Rightarrow>
               if sent \<le> 0 then Some (Some NoForwardProgress, w1)
               else if sent > int (length data - offset) then Some (Some OversizedSendCount, w1)
               else send_from k raw data (offset + nat sent) w1)"

definition send_all ::
  "('s, 'a, 'c, 'o, 'e, 'w) kernel \<Rightarrow> 's \<Rightarrow> bytes \<Rightarrow> 'w \<Rightarrow> ('e transport_error option \<times> 'w) option" where
  "send_all k raw data w = send_from k raw data 0 w"

section \<open>Addresses and the wakeup channel\<close>

definition local_address ::
  "('s, 'a, 'c, 'o, 'e, 'w) kernel \<Rightarrow> ('s, 'e) thandle \<Rightarrow> 'w \<Rightarrow> ('e transport_error + pystr \<times> int) \<times> 'w" where
  "local_address k listener w =
     (case k_socket_local_address k (th_raw listener) w of
        (Inl e, w1) \<Rightarrow> (Inl (KernelRaised e), w1)
      | (Inr None, w1) \<Rightarrow> (Inl InvalidLocalAddress, w1)
      | (Inr (Some (host, None)), w1) \<Rightarrow> (Inl InvalidLocalPort, w1)
      | (Inr (Some (host, Some port)), w1) \<Rightarrow>
          (if 0 \<le> port \<and> port \<le> 65535 then Inr (host, port) else Inl InvalidLocalPort, w1))"

record ('c, 'o, 'e) wakeup =
  wk_raw :: 'c
  wk_wait_object :: 'o
  wk_closed :: bool
  wk_close_error :: "'e option"

definition wakeup_notify :: "('s, 'a, 'c, 'o, 'e, 'w) kernel \<Rightarrow> ('c, 'o, 'e) wakeup \<Rightarrow> 'w \<Rightarrow> 'e option \<times> 'w" where
  "wakeup_notify k ch w = k_channel_notify k (wk_raw ch) w"

definition wakeup_drain :: "('s, 'a, 'c, 'o, 'e, 'w) kernel \<Rightarrow> ('c, 'o, 'e) wakeup \<Rightarrow> 'w \<Rightarrow> 'e option \<times> 'w" where
  "wakeup_drain k ch w = k_channel_drain k (wk_raw ch) w"

definition wakeup_close ::
  "('s, 'a, 'c, 'o, 'e, 'w) kernel \<Rightarrow> ('c, 'o, 'e) wakeup \<Rightarrow> 'w \<Rightarrow> 'e option \<times> ('c, 'o, 'e) wakeup \<times> 'w" where
  "wakeup_close k ch w =
     (if wk_closed ch then (None, ch, w)
      else case k_channel_close k (wk_raw ch) w of
             (Some e, w1) \<Rightarrow> (Some e, ch\<lparr>wk_close_error := Some e\<rparr>, w1)
           | (None, w1) \<Rightarrow> (None, ch\<lparr>wk_closed := True, wk_close_error := None\<rparr>, w1))"

definition close_raw_channel ::
  "('s, 'a, 'c, 'o, 'e, 'w) kernel \<Rightarrow> 'c \<Rightarrow> 'e transport_error \<Rightarrow> 'w \<Rightarrow> 'e transport_error option \<times> 'w" where
  "close_raw_channel k raw unavailable w =
     (if \<not> k_channel_callable k raw (lit ''close'') then (Some unavailable, w)
      else case k_channel_close k raw w of (Some e, w1) \<Rightarrow> (Some (KernelRaised e), w1) | (None, w1) \<Rightarrow> (None, w1))"

definition check_channel ::
  "('s, 'a, 'c, 'o, 'e, 'w) kernel \<Rightarrow> 'c \<Rightarrow> 'w \<Rightarrow> ('e transport_error + 'o) \<times> 'w" where
  "check_channel k raw w =
     (if filter (\<lambda>name. \<not> k_channel_callable k raw name) [lit ''notify'', lit ''drain'', lit ''close''] \<noteq> []
      then (Inl InvalidWakeupChannel, w)
      else case k_channel_wait_object k raw w of
             (Inl e, w1) \<Rightarrow> (Inl (KernelRaised e), w1)
           | (Inr wait_object, w1) \<Rightarrow>
               case k_validate_io_wait_object k wait_object w1 of
                 (Inl e, w2) \<Rightarrow> (Inl (KernelRaised e), w2)
               | (Inr (True, _), w2) \<Rightarrow> (Inr wait_object, w2)
               | (Inr (False, Some e), w2) \<Rightarrow> (Inl (KernelRaised e), w2)
               | (Inr (False, None), w2) \<Rightarrow> (Inl InvalidWaitObject, w2))"

text \<open>\<open>None\<close> as acquired channel when the kernel has none.\<close>

definition create_wakeup_channel ::
  "('s, 'a, 'c, 'o, 'e, 'w) kernel \<Rightarrow> bool \<Rightarrow> 'w \<Rightarrow>
   (('c, 'o, 'e) wakeup option, 'e transport_error, 'e transport_error, 'w) acquired \<times> 'w" where
  "create_wakeup_channel k supported w =
     (if \<not> supported then (Acquired None, w)
      else case k_create_wakeup_channel k w of
             (Inl e, w1) \<Rightarrow> (AcquireRaised (KernelRaised e), w1)
           | (Inr raw, w1) \<Rightarrow>
               case check_channel k raw w1 of
                 (Inr wait_object, w2) \<Rightarrow>
                   (Acquired (Some \<lparr>wk_raw = raw, wk_wait_object = wait_object, wk_closed = False, wk_close_error = None\<rparr>), w2)
               | (Inl primary, w2) \<Rightarrow>
                   case close_raw_channel k raw ChannelNotCloseable w2 of
                     (None, w3) \<Rightarrow> (AcquireRaised primary, w3)
                   | (Some cleanup_error, w3) \<Rightarrow>
                       (Unrolled primary
                          (cleanup_add (lit ''wakeup'')
                             (\<lambda>(h, w). case close_raw_channel k raw CleanupUnavailable w of (r, w') \<Rightarrow> (r, (h, w')))
                             (Some cleanup_error) cleanup_init) None, w3))"

end
