(* ===== verification/Transport_Laws.thy ===== *)
theory Transport_Laws
  imports Transport "HOL-Library.Sublist"
begin

text \<open>
  What the transport guarantees about a kernel that behaves as documented: \<open>send_all\<close> returns and delivers
  the bytes in order, and an acquisition that fails leaves no socket behind that nobody owns.
\<close>

section \<open>Sending\<close>

text \<open>\<open>wire\<close> is what the peer of the stream has been sent. A send that takes \<open>n\<close> bytes, no more than it was given,
  appends the first \<open>n\<close> of them; one that raises takes none; asking and waiting send nothing.\<close>

definition wire_kernel :: "('s, 'a, 'c, 'o, 'e, 'w) kernel \<Rightarrow> 's \<Rightarrow> ('w \<Rightarrow> bytes) \<Rightarrow> bool" where
  "wire_kernel k raw wire =
     ((\<forall>data w n w'. k_socket_send k raw data w = (Inr (Some n), w') \<longrightarrow> 0 < n \<longrightarrow> n \<le> int (length data) \<longrightarrow>
         wire w' = wire w @ take (nat n) data) \<and>
      (\<forall>data w e w'. k_socket_send k raw data w = (Inl e, w') \<longrightarrow> wire w' = wire w) \<and>
      (\<forall>e w r w'. wait_for_retry k raw e OpSend w = (r, w') \<longrightarrow> wire w' = wire w))"

text \<open>The kernel does not ask for a retry for ever: \<open>stalls\<close> bounds the retries left before a send takes a byte or
  raises something else. A successful send may set the bound anew.\<close>

definition finite_stalls :: "('s, 'a, 'c, 'o, 'e, 'w) kernel \<Rightarrow> 's \<Rightarrow> ('w \<Rightarrow> nat) \<Rightarrow> bool" where
  "finite_stalls k raw stalls =
     (\<forall>data w e w1 w2. k_socket_send k raw data w = (Inl e, w1) \<longrightarrow> wait_for_retry k raw e OpSend w1 = (None, w2) \<longrightarrow>
        stalls w2 < stalls w)"

text \<open>The outcome of sending \<open>data\<close>: everything sent on a normal return, a prefix when the kernel raised.\<close>

definition sent_right :: "('w \<Rightarrow> bytes) \<Rightarrow> bytes \<Rightarrow> 'w \<Rightarrow> 'e transport_error option \<Rightarrow> 'w \<Rightarrow> bool" where
  "sent_right wire data w r w' =
     (case r of
        None \<Rightarrow> wire w' = wire w @ data
      | Some (KernelRaised e) \<Rightarrow> (\<exists>sent. prefix sent data \<and> wire w' = wire w @ sent)
      | Some e \<Rightarrow> e \<in> {InvalidSendCount, NoForwardProgress, OversizedSendCount})"

lemma sent_right_more:
  assumes "wire w1 = wire w @ take n data" and "n \<le> length data" and "sent_right wire (drop n data) w1 r w'"
  shows "sent_right wire data w r w'"
proof (cases r)
  case None
  then show ?thesis using assms by (simp add: sent_right_def)
next
  case (Some e)
  have longer: "prefix (take n data @ sent) data" if "prefix sent (drop n data)" for sent
    using that by (metis append_take_drop_id same_prefix_prefix)
  show ?thesis
  proof (cases e)
    case (KernelRaised x)
    then obtain sent where "prefix sent (drop n data)" "wire w' = wire w1 @ sent"
      using assms(3) Some by (auto simp: sent_right_def)
    then have "prefix (take n data @ sent) data \<and> wire w' = wire w @ take n data @ sent"
      using longer assms(1) by simp
    then show ?thesis unfolding Some KernelRaised sent_right_def by auto
  qed (use assms Some in \<open>simp_all add: sent_right_def\<close>)
qed

lemma send_from_returns:
  assumes wire: "wire_kernel k raw wire" and stalls: "finite_stalls k raw stalls" and "offset \<le> length data"
  shows "\<exists>r w'. send_from k raw data offset w = Some (r, w') \<and> sent_right wire (drop offset data) w r w'"
  using assms(3)
proof (induction "(length data - offset, stalls w)" arbitrary: offset w
    rule: wf_induct_rule [OF wf_lex_prod [OF wf_less_than wf_less_than]])
  case 1
  note IH = "1.hyps" and le = "1.prems"
  show ?case
  proof (cases "offset = length data")
    case True
    then show ?thesis by (subst send_from.simps) (simp add: sent_right_def)
  next
    case False
    with le have lt: "offset < length data" by simp
    obtain s w1 where s: "k_socket_send k raw (drop offset data) w = (s, w1)" by fastforce
    show ?thesis
    proof (cases s)
      case (Inl e)
      obtain q w2 where q: "wait_for_retry k raw e OpSend w1 = (q, w2)" by fastforce
      have same: "wire w2 = wire w" using wire s Inl q unfolding wire_kernel_def by metis
      show ?thesis
      proof (cases q)
        case (Some e')
        have "send_from k raw data offset w = Some (Some (KernelRaised e'), w2)"
          using lt s Inl q Some by (subst send_from.simps) simp
        moreover have "sent_right wire (drop offset data) w (Some (KernelRaised e')) w2"
          using same by (auto simp: sent_right_def)
        ultimately show ?thesis by blast
      next
        case None
        have "stalls w2 < stalls w" using stalls s Inl q None unfolding finite_stalls_def by blast
        then have "((length data - offset, stalls w2), length data - offset, stalls w) \<in> less_than <*lex*> less_than" by simp
        from IH [OF this le] obtain r w'
          where r: "send_from k raw data offset w2 = Some (r, w')" "sent_right wire (drop offset data) w2 r w'" by blast
        have "send_from k raw data offset w = Some (r, w')"
          using lt s Inl q None r(1) by (subst send_from.simps) simp
        moreover have "sent_right wire (drop offset data) w r w'"
          using sent_right_more [of wire w2 w 0 "drop offset data" r w'] r(2) same by simp
        ultimately show ?thesis by blast
      qed
    next
      case (Inr count)
      show ?thesis
      proof (cases count)
        case None
        then show ?thesis using lt s Inr by (subst send_from.simps) (simp add: sent_right_def)
      next
        case (Some n)
        show ?thesis
        proof (cases "0 < n \<and> n \<le> int (length data - offset)")
          case False
          then show ?thesis using lt s Inr Some by (subst send_from.simps) (auto simp: sent_right_def)
        next
          case True
          then have more: "offset + nat n \<le> length data" "nat n \<le> length (drop offset data)" "0 < nat n" by auto
          have w1: "wire w1 = wire w @ take (nat n) (drop offset data)"
            using wire s Inr Some True unfolding wire_kernel_def by (simp add: of_nat_diff)
          have "length data - (offset + nat n) < length data - offset" using lt more(3) by linarith
          then have "((length data - (offset + nat n), stalls w1), length data - offset, stalls w) \<in> less_than <*lex*> less_than"
            by simp
          from IH [OF this more(1)] obtain r w' where r: "send_from k raw data (offset + nat n) w1 = Some (r, w')"
            "sent_right wire (drop (offset + nat n) data) w1 r w'" by blast
          have "send_from k raw data offset w = Some (r, w')"
            using lt s Inr Some True r(1) by (subst send_from.simps) simp
          moreover have "sent_right wire (drop offset data) w r w'"
            using sent_right_more [of wire w1 w "nat n" "drop offset data" r w'] w1 more(2) r(2) by (simp add: add.commute)
          ultimately show ?thesis by blast
        qed
      qed
    qed
  qed
qed

text \<open>A kernel that takes at most two bytes at a time and asks for a wait before every send; its world is the retries
  left and the bytes taken.\<close>

definition slow_kernel :: "(nat, nat, nat, nat, nat, nat \<times> bytes) kernel" where
  "slow_kernel = \<lparr>k_resolve_passive_address = \<lambda>h p w. (Inr 0, w), k_socket_open = \<lambda>a w. (Inr 0, w),
     k_socket_setblocking = \<lambda>s b w. (None, w), k_socket_set_reuse_address = \<lambda>s b w. (None, w),
     k_socket_bind = \<lambda>s a w. (None, w), k_socket_listen = \<lambda>s b w. (None, w), k_socket_accept = \<lambda>s w. (Inr (0, 0), w),
     k_socket_local_address = \<lambda>s w. (Inr None, w), k_socket_peer_address = \<lambda>s w. (Inr None, w),
     k_socket_recv = \<lambda>s n w. (Inr None, w),
     k_socket_send = \<lambda>s d w. if fst w = 0 then (Inr (Some (int (min 2 (length d)))), (1, snd w @ take 2 d)) else (Inl 7, w),
     k_socket_close = \<lambda>s w. (None, w),
     k_socket_retry_mode = \<lambda>e op w. (Inr ModeWrite, w), k_wait_readable = \<lambda>s w. (None, w),
     k_wait_writable = \<lambda>s w. (None, (fst w - 1, snd w)), k_create_wakeup_channel = \<lambda>w. (Inl 0, w),
     k_validate_io_wait_object = \<lambda>x w. (Inr (True, None), w), k_channel_callable = \<lambda>c n. True,
     k_channel_wait_object = \<lambda>c w. (Inr 0, w), k_channel_notify = \<lambda>c w. (None, w), k_channel_drain = \<lambda>c w. (None, w),
     k_channel_close = \<lambda>c w. (None, w)\<rparr>"

text \<open>C33. \<open>send_all\<close> returns, on any kernel that does not ask for retries for ever; when it returns normally the
  peer has been sent exactly the data, in order and once, however the kernel has sliced it; when the kernel
  raised, a prefix of it.\<close>

theorem send_all_delivers:
  assumes "wire_kernel k raw wire" and "finite_stalls k raw stalls"
  shows "\<exists>r w'. send_all k raw data w = Some (r, w') \<and>
    (r = None \<longrightarrow> wire w' = wire w @ data) \<and>
    (\<forall>e. r = Some (KernelRaised e) \<longrightarrow> (\<exists>sent. prefix sent data \<and> wire w' = wire w @ sent)) \<and>
    (r \<in> {None, Some InvalidSendCount, Some NoForwardProgress, Some OversizedSendCount} \<or> (\<exists>e. r = Some (KernelRaised e)))"
proof -
  obtain r w' where r: "send_from k raw data 0 w = Some (r, w')" "sent_right wire data w r w'"
    using send_from_returns [OF assms, of 0 data w] by auto
  have "r \<in> {None, Some InvalidSendCount, Some NoForwardProgress, Some OversizedSendCount} \<or> (\<exists>e. r = Some (KernelRaised e))"
    using r(2) by (cases r) (auto simp: sent_right_def split: transport_error.splits)
  with r show ?thesis by (intro exI [of _ r] exI [of _ w']) (auto simp: send_all_def sent_right_def)
qed

lemma send_all_delivers_witness:
  "\<exists>r w'. send_all slow_kernel 4 [1, 2, 3, 4, 5] (3, []) = Some (r, w') \<and> r = None \<and> snd w' = [1, 2, 3, 4, 5]"
proof -
  have "wire_kernel slow_kernel 4 snd" "finite_stalls slow_kernel 4 fst"
    by (auto simp: wire_kernel_def finite_stalls_def slow_kernel_def wait_for_retry_def min_def split: if_splits)
  from send_all_delivers [OF this, of "[1, 2, 3, 4, 5]" "(3, [])"] obtain r w'
    where r: "send_all slow_kernel 4 [1, 2, 3, 4, 5] (3, []) = Some (r, w')" "r = None \<longrightarrow> snd w' = [1, 2, 3, 4, 5]" by auto
  have "r = None"
    using r(1) by (simp add: send_all_def send_from.simps slow_kernel_def wait_for_retry_def)
  with r show ?thesis by blast
qed

section \<open>Acquiring sockets\<close>

text \<open>\<open>socks\<close> are the sockets open at the kernel: opening and accepting hand out one that was not open, a close that
  does not raise closes it, no other call of an acquisition changes them.\<close>

definition socket_books :: "('s, 'a, 'c, 'o, 'e, 'w) kernel \<Rightarrow> ('w \<Rightarrow> 's set) \<Rightarrow> bool" where
  "socket_books k socks =
     ((\<forall>a w raw w'. k_socket_open k a w = (Inr raw, w') \<longrightarrow> raw \<notin> socks w \<and> socks w' = insert raw (socks w)) \<and>
      (\<forall>a w e w'. k_socket_open k a w = (Inl e, w') \<longrightarrow> socks w' = socks w) \<and>
      (\<forall>s w raw a w'. k_socket_accept k s w = (Inr (raw, a), w') \<longrightarrow> raw \<notin> socks w \<and> socks w' = insert raw (socks w)) \<and>
      (\<forall>s w e w'. k_socket_accept k s w = (Inl e, w') \<longrightarrow> socks w' = socks w) \<and>
      (\<forall>s w r w'. k_socket_close k s w = (r, w') \<longrightarrow> socks w' = (if r = None then socks w - {s} else socks w)) \<and>
      (\<forall>h p w. socks (snd (k_resolve_passive_address k h p w)) = socks w) \<and>
      (\<forall>s b w. socks (snd (k_socket_setblocking k s b w)) = socks w) \<and>
      (\<forall>s b w. socks (snd (k_socket_set_reuse_address k s b w)) = socks w) \<and>
      (\<forall>s a w. socks (snd (k_socket_bind k s a w)) = socks w) \<and>
      (\<forall>s b w. socks (snd (k_socket_listen k s b w)) = socks w) \<and>
      (\<forall>s w. socks (snd (k_socket_peer_address k s w)) = socks w) \<and>
      (\<forall>e op w. socks (snd (k_socket_retry_mode k e op w)) = socks w) \<and>
      (\<forall>s w. socks (snd (k_wait_readable k s w)) = socks w) \<and>
      (\<forall>s w. socks (snd (k_wait_writable k s w)) = socks w))"

text \<open>Nobody loses a socket: an acquisition that raises has opened none, one that hands over the rollback has
  opened one, and a retry of its transaction without an error closes it.\<close>

definition no_leak :: "('w \<Rightarrow> 's set) \<Rightarrow> 's set \<Rightarrow> (('s, 'e) thandle, 'x, 'e, 'w) acquired \<Rightarrow> 'w \<Rightarrow> bool" where
  "no_leak socks before r w =
     (case r of
        Acquired h \<Rightarrow> th_raw h \<notin> before \<and> \<not> th_closed h \<and> socks w = insert (th_raw h) before
      | AcquireRaised _ \<Rightarrow> socks w = before
      | Unrolled _ t h \<Rightarrow> th_raw h \<notin> before \<and> \<not> th_closed h \<and> socks w = insert (th_raw h) before \<and>
          (case cleanup_retry t (h, w) of (errors, t1, h1, w1) \<Rightarrow>
             if errors = [] then cleanup_complete t1 \<and> th_closed h1 \<and> socks w1 = before
             else \<not> cleanup_complete t1 \<and> \<not> th_closed h1 \<and> socks w1 = insert (th_raw h) before))"

lemma books_rules:
  assumes "socket_books k socks"
  shows books_open: "k_socket_open k a w = (Inr raw, w') \<Longrightarrow> raw \<notin> socks w \<and> socks w' = insert raw (socks w)"
    and books_not_open: "k_socket_open k a w = (Inl e, w') \<Longrightarrow> socks w' = socks w"
    and books_accept: "k_socket_accept k s w = (Inr (raw, a), w') \<Longrightarrow> raw \<notin> socks w \<and> socks w' = insert raw (socks w)"
    and books_not_accept: "k_socket_accept k s w = (Inl e, w') \<Longrightarrow> socks w' = socks w"
    and books_close: "k_socket_close k s w = (r, w') \<Longrightarrow> socks w' = (if r = None then socks w - {s} else socks w)"
    and books_resolve: "k_resolve_passive_address k host p w = (q, w') \<Longrightarrow> socks w' = socks w"
    and books_blocking: "k_socket_setblocking k s b w = (r, w') \<Longrightarrow> socks w' = socks w"
    and books_reuse: "k_socket_set_reuse_address k s b w = (r, w') \<Longrightarrow> socks w' = socks w"
    and books_bind: "k_socket_bind k s a w = (r, w') \<Longrightarrow> socks w' = socks w"
    and books_listen: "k_socket_listen k s backlog w = (r, w') \<Longrightarrow> socks w' = socks w"
    and books_peer: "k_socket_peer_address k s w = (pa, w') \<Longrightarrow> socks w' = socks w"
    and books_mode: "k_socket_retry_mode k e op w = (mo, w') \<Longrightarrow> socks w' = socks w"
    and books_readable: "k_wait_readable k s w = (r, w') \<Longrightarrow> socks w' = socks w"
    and books_writable: "k_wait_writable k s w = (r, w') \<Longrightarrow> socks w' = socks w"
  using assms unfolding socket_books_def by (metis snd_conv)+

lemma first_raise_books:
  assumes "\<And>call w r w'. call \<in> set calls \<Longrightarrow> call w = (r, w') \<Longrightarrow> socks w' = socks w" and "first_raise calls w = (r, w')"
  shows "socks w' = socks w"
  using assms
proof (induction calls arbitrary: w)
  case (Cons call calls)
  obtain q w1 where q: "call w = (q, w1)" by fastforce
  have same: "socks w1 = socks w" using Cons.prems(1) [of call w q w1] q by simp
  show ?case
  proof (cases q)
    case None
    then have rest: "first_raise calls w1 = (r, w')" using Cons.prems(2) q by simp
    have "socks w' = socks w1"
    proof (rule Cons.IH [OF _ rest])
      fix c v x v'
      assume "c \<in> set calls" and "c v = (x, v')"
      then show "socks v' = socks v" using Cons.prems(1) [of c v x v'] by simp
    qed
    with same show ?thesis by simp
  next
    case (Some e)
    then show ?thesis using Cons.prems(2) q same by simp
  qed
qed simp

lemma transport_close_books:
  assumes "socket_books k socks" and "transport_close k h w = (r, h1, w1)" and "\<not> th_closed h"
  shows "th_raw h1 = th_raw h \<and> (th_closed h1 \<longleftrightarrow> r = None) \<and> socks w1 = (if r = None then socks w - {th_raw h} else socks w)"
proof -
  obtain q w2 where q: "k_socket_close k (th_raw h) w = (q, w2)" by fastforce
  note socks = books_close [OF assms(1) q]
  show ?thesis
  proof (cases q)
    case None
    then have "r = None" "h1 = h\<lparr>th_closed := True, th_close_error := None\<rparr>" "w1 = w2"
      using assms(2,3) q by (auto simp: transport_close_def)
    then show ?thesis using socks None by simp
  next
    case (Some e)
    then have "r = Some e" "h1 = h\<lparr>th_close_error := Some e\<rparr>" "w1 = w2"
      using assms(2,3) q by (auto simp: transport_close_def)
    then show ?thesis using socks Some assms(3) by simp
  qed
qed

text \<open>A rollback of the socket that has just been opened.\<close>

lemma roll_back_no_leak:
  assumes books: "socket_books k socks" and new: "raw \<notin> before" "socks w = insert raw before"
    and run: "roll_back k name primary (new_handle raw) w = (r, w')"
  shows "no_leak socks before r w'"
proof -
  obtain q h1 w1 where c: "transport_close k (new_handle raw) w = (q, h1, w1)" by (metis prod_cases3)
  note closed = transport_close_books [OF books c]
  show ?thesis
  proof (cases q)
    case None
    then have "r = AcquireRaised primary" "w' = w1" using run c by (simp_all add: roll_back_def)
    then show ?thesis using None closed new by (simp add: no_leak_def new_handle_def)
  next
    case (Some e)
    let ?key = "free_key [] (lit name) 0"
    let ?t = "cleanup_add (lit name) (close_action k) (Some e) cleanup_init"
    have r: "r = Unrolled primary ?t h1" "w' = w1" using run c Some by (simp_all add: roll_back_def)
    have h1: "th_raw h1 = raw" "\<not> th_closed h1" "socks w1 = insert raw before"
      using closed Some new by (simp_all add: new_handle_def)
    obtain q2 h2 w2 where c2: "transport_close k h1 w1 = (q2, h2, w2)" by (metis prod_cases3)
    have t: "cl_actions ?t = [(?key, close_action k)]" "cl_errors ?t = [(?key, e)]"
      by (simp_all add: cleanup_add_def cleanup_init_def Let_def)
    show ?thesis
    proof (cases q2)
      case None
      then have "cleanup_retry ?t (h1, w1) = ([], ?t\<lparr>cl_actions := [], cl_errors := []\<rparr>, h2, w2)"
        using c2 t by (simp add: cleanup_retry_def close_action_def dict_pop_def)
      then show ?thesis
        using transport_close_books [OF books c2 h1(2)] None h1 new r by (simp add: no_leak_def cleanup_complete_def)
    next
      case (Some e2)
      then have "cleanup_retry ?t (h1, w1) = ([e2], ?t\<lparr>cl_errors := [(?key, e2)]\<rparr>, h2, w2)"
        using c2 t by (simp add: cleanup_retry_def close_action_def)
      then show ?thesis
        using transport_close_books [OF books c2 h1(2)] Some h1 new r t by (simp add: no_leak_def cleanup_complete_def)
    qed
  qed
qed

lemma open_listener_no_leak:
  assumes books: "socket_books k socks" and run: "open_listener k host port backlog reuse w = (r, w')"
  shows "no_leak socks (socks w) r w'"
proof -
  obtain q w1 where q: "k_resolve_passive_address k host port w = (q, w1)" by fastforce
  note same = books_resolve [OF books q]
  show ?thesis
  proof (cases q)
    case (Inl e)
    then have "r = AcquireRaised (KernelRaised e)" "w' = w1" using run q by (simp_all add: open_listener_def)
    then show ?thesis using same by (simp add: no_leak_def)
  next
    case (Inr address)
    obtain s w2 where s: "k_socket_open k address w1 = (s, w2)" by fastforce
    show ?thesis
    proof (cases s)
      case i: (Inl e)
      then have "r = AcquireRaised (KernelRaised e)" "w' = w2" using run q Inr s by (simp_all add: open_listener_def)
      then show ?thesis using same books_not_open [OF books s [unfolded i]] by (simp add: no_leak_def)
    next
      case i: (Inr raw)
      let ?calls = "[k_socket_set_reuse_address k raw reuse, k_socket_bind k raw address, k_socket_listen k raw backlog,
        k_socket_setblocking k raw False]"
      note new = books_open [OF books s [unfolded i]]
      obtain f w3 where f: "first_raise ?calls w2 = (f, w3)" by fastforce
      have "socks w3 = socks w2"
        by (rule first_raise_books [OF _ f])
          (auto dest: books_reuse [OF books] books_bind [OF books] books_listen [OF books] books_blocking [OF books])
      then have new3: "raw \<notin> socks w" "socks w3 = insert raw (socks w)" using new same by simp_all
      show ?thesis
      proof (cases f)
        case None
        then have "r = Acquired (new_handle raw)" "w' = w3" using run q Inr s i f by (simp_all add: open_listener_def)
        then show ?thesis using new3 by (simp add: no_leak_def new_handle_def)
      next
        case (Some primary)
        then have "roll_back k ''listener'' (KernelRaised primary) (new_handle raw) w3 = (r, w')"
          using run q Inr s i f by (simp add: open_listener_def)
        from roll_back_no_leak [OF books new3 this] show ?thesis .
      qed
    qed
  qed
qed

lemma wait_for_retry_books:
  assumes books: "socket_books k socks" and run: "wait_for_retry k raw e op w = (r, w')"
  shows "socks w' = socks w"
proof -
  obtain m w1 where m: "k_socket_retry_mode k e op w = (m, w1)" by fastforce
  note same = books_mode [OF books m]
  consider (raised) x where "m = Inl x" | (readable) "m = Inr ModeRead" | (writable) "m = Inr ModeWrite" | (other) "m = Inr ModeOther"
    by (metis retry_mode.exhaust sum.exhaust)
  then show ?thesis
  proof cases
    case readable
    then have "k_wait_readable k raw w1 = (r, w')" using run m by (simp add: wait_for_retry_def)
    from books_readable [OF books this] same show ?thesis by simp
  next
    case writable
    then have "k_wait_writable k raw w1 = (r, w')" using run m by (simp add: wait_for_retry_def)
    from books_writable [OF books this] same show ?thesis by simp
  qed (use run m same in \<open>simp_all add: wait_for_retry_def\<close>)
qed

lemma accept_raw_books:
  fixes k0 :: "('s, 'a, 'c, 'o, 'e, 'w) kernel"
  assumes books: "socket_books k0 socks" and run: "accept_raw k0 raw0 w0 = Some y0"
  shows "case fst y0 of Inl e \<Rightarrow> socks (snd y0) = socks w0
    | Inr (s, _) \<Rightarrow> s \<notin> socks w0 \<and> socks (snd y0) = insert s (socks w0)"
proof -
  define P :: "('s, 'a, 'c, 'o, 'e, 'w) kernel \<Rightarrow> 'w \<Rightarrow> ('e + 's \<times> 'a) \<times> 'w \<Rightarrow> bool" where "P k w y \<longleftrightarrow> (k0 = k \<longrightarrow> (case fst y of Inl e \<Rightarrow> socks (snd y) = socks w
    | Inr (s, _) \<Rightarrow> s \<notin> socks w \<and> socks (snd y) = insert s (socks w)))" for k w y
  have "P k0 w0 y0"
  proof (rule accept_raw.raw_induct [of "\<lambda>k raw w y. P k w y", OF _ run])
    fix again k raw w y
    assume IH: "\<And>k raw w y. again k raw w = Some y \<Longrightarrow> P k w y"
      and step: "(case k_socket_accept k raw w of
        (Inl exc, w1) \<Rightarrow> (case wait_for_retry k raw exc OpAccept w1 of
            (None, w2) \<Rightarrow> again k raw w2 | (Some e, w2) \<Rightarrow> Some (Inl e, w2))
      | (Inr accepted, w1) \<Rightarrow> Some (Inr accepted, w1)) = Some y"
    show "P k w y"
      unfolding P_def
    proof
      assume k: "k0 = k"
      note books = books [unfolded k]
      obtain q w1 where q: "k_socket_accept k raw w = (q, w1)" by fastforce
      show "case fst y of Inl e \<Rightarrow> socks (snd y) = socks w
        | Inr (s, _) \<Rightarrow> s \<notin> socks w \<and> socks (snd y) = insert s (socks w)"
      proof (cases q)
        case (Inr accepted)
        then have "y = (Inr accepted, w1)" using step q by simp
        then show ?thesis using books_accept [OF books] q Inr by (auto split: prod.split)
      next
        case (Inl exc)
        obtain r w2 where r: "wait_for_retry k raw exc OpAccept w1 = (r, w2)" by fastforce
        have same: "socks w2 = socks w"
          using wait_for_retry_books [OF books r] books_not_accept [OF books] q Inl by auto
        show ?thesis
        proof (cases r)
          case (Some e)
          then have "y = (Inl e, w2)" using step q Inl r by simp
          then show ?thesis using same by simp
        next
          case None
          then have "again k raw w2 = Some y" using step q Inl r by simp
          from IH [OF this] same k show ?thesis by (auto simp: P_def split: sum.splits prod.splits)
        qed
      qed
    qed
  qed
  then show ?thesis by (simp add: P_def)
qed

lemma transport_accept_no_leak:
  assumes books: "socket_books k socks" and run: "transport_accept k listener w = Some (address, r, w')"
  shows "no_leak socks (socks w) r w'"
proof -
  obtain a w1 where a: "accept_raw k (th_raw listener) w = Some (a, w1)"
    using run by (auto simp: transport_accept_def split: option.splits)
  note out = accept_raw_books [OF books a]
  show ?thesis
  proof (cases a)
    case (Inl e)
    then have "r = AcquireRaised (KernelRaised e)" "w' = w1" using run a by (simp_all add: transport_accept_def)
    then show ?thesis using out Inl by (simp add: no_leak_def)
  next
    case (Inr accepted)
    obtain raw ad where p: "accepted = (raw, ad)" by fastforce
    have new: "raw \<notin> socks w" "socks w1 = insert raw (socks w)" using out Inr p by simp_all
    obtain b w2 where b: "k_socket_setblocking k raw False w1 = (b, w2)" by fastforce
    have new2: "socks w2 = insert raw (socks w)" using books_blocking [OF books b] new(2) by simp
    show ?thesis
    proof (cases b)
      case (Some primary)
      then have "roll_back k ''accepted-connection'' (KernelRaised primary) (new_handle raw) w2 = (r, w')"
        using run a Inr p b by (simp add: transport_accept_def)
      from roll_back_no_leak [OF books new(1) new2 this] show ?thesis .
    next
      case None
      obtain pa w3 where pa: "k_socket_peer_address k raw w2 = (pa, w3)" by fastforce
      have new3: "socks w3 = insert raw (socks w)" using books_peer [OF books pa] new2 by simp
      show ?thesis
      proof (cases pa)
        case i: (Inl primary)
        then have "roll_back k ''accepted-connection'' (KernelRaised primary) (new_handle raw) w3 = (r, w')"
          using run a Inr p b None pa by (simp add: transport_accept_def)
        from roll_back_no_leak [OF books new(1) new3 this] show ?thesis .
      next
        case i: (Inr peer)
        then have "r = Acquired (new_handle raw)" "w' = w3"
          using run a Inr p b None pa by (simp_all add: transport_accept_def)
        then show ?thesis using new(1) new3 by (simp add: no_leak_def new_handle_def)
      qed
    qed
  qed
qed

text \<open>A kernel whose world is the list of open sockets; binding fails, and the first socket does not close.\<close>

definition leaky_kernel :: "(nat, nat, nat, nat, nat, nat list) kernel" where
  "leaky_kernel = \<lparr>k_resolve_passive_address = \<lambda>h p w. (Inr 0, w),
     k_socket_open = \<lambda>a w. (Inr (Suc (sum_list w)), Suc (sum_list w) # w),
     k_socket_setblocking = \<lambda>s b w. (None, w), k_socket_set_reuse_address = \<lambda>s b w. (None, w),
     k_socket_bind = \<lambda>s a w. (Some 3, w), k_socket_listen = \<lambda>s b w. (None, w),
     k_socket_accept = \<lambda>s w. (Inr (Suc (sum_list w), 0), Suc (sum_list w) # w),
     k_socket_local_address = \<lambda>s w. (Inr None, w), k_socket_peer_address = \<lambda>s w. (Inr None, w),
     k_socket_recv = \<lambda>s n w. (Inr None, w), k_socket_send = \<lambda>s d w. (Inr None, w),
     k_socket_close = \<lambda>s w. if s = 1 then (Some 5, w) else (None, removeAll s w),
     k_socket_retry_mode = \<lambda>e op w. (Inr ModeOther, w), k_wait_readable = \<lambda>s w. (None, w),
     k_wait_writable = \<lambda>s w. (None, w), k_create_wakeup_channel = \<lambda>w. (Inl 0, w),
     k_validate_io_wait_object = \<lambda>x w. (Inr (True, None), w), k_channel_callable = \<lambda>c n. True,
     k_channel_wait_object = \<lambda>c w. (Inr 0, w), k_channel_notify = \<lambda>c w. (None, w), k_channel_drain = \<lambda>c w. (None, w),
     k_channel_close = \<lambda>c w. (None, w)\<rparr>"

lemma leaky_kernel_books: "socket_books leaky_kernel set"
proof -
  have fresh: "Suc (sum_list w) \<notin> set w" for w :: "nat list"
    using member_le_sum_list [of "Suc (sum_list w)" w] by auto
  show ?thesis by (auto simp: socket_books_def leaky_kernel_def fresh)
qed

text \<open>C32. Opening a listener and accepting a stream lose no socket, whatever call of the kernel fails in between:
  on success the caller owns the one socket that has been opened; when they raise, every socket opened on the
  way has been closed; and when that close failed too, the transaction handed to the caller is what
  owns the socket: retrying it closes the socket and completes it, or keeps it for the next retry.\<close>

theorem acquisitions_never_leak:
  assumes "socket_books k socks"
  shows "(case open_listener k host port backlog reuse w of (r, w') \<Rightarrow> no_leak socks (socks w) r w') \<and>
    (case transport_accept k listener w of None \<Rightarrow> True | Some (address, r, w') \<Rightarrow> no_leak socks (socks w) r w')"
  using open_listener_no_leak [OF assms] transport_accept_no_leak [OF assms] by (auto split: option.split)

lemma acquisitions_never_leak_witness:
  "\<exists>r w'. open_listener leaky_kernel (lit ''h'') 80 5 True [] = (r, w') \<and> w' = [1] \<and> no_leak set {} r w' \<and>
    transport_accept leaky_kernel (new_handle 2) [2] \<noteq> None"
proof -
  obtain r w' where o: "open_listener leaky_kernel (lit ''h'') 80 5 True [] = (r, w')" by fastforce
  then have "w' = [1]"
    by (auto simp: open_listener_def leaky_kernel_def roll_back_def transport_close_def new_handle_def)
  moreover have "no_leak set {} r w'"
    using acquisitions_never_leak [OF leaky_kernel_books, where host = "lit ''h''" and port = 80 and backlog = 5 and reuse = True and w = "[]"] o by simp
  moreover have "transport_accept leaky_kernel (new_handle 2) [2] \<noteq> None"
    by (simp add: transport_accept_def accept_raw.simps leaky_kernel_def new_handle_def)
  ultimately show ?thesis using o by blast
qed

end
