(* ===== verification/WS_Upgrade.thy ===== *)
theory WS_Upgrade
  imports Http_Values
begin

text \<open>
  The opening handshake of \<open>smallserver/websocket.py\<close>: when a request is an upgrade attempt, when it is
  refused and how, and the bytes of the 101 response. SHA-1 is a parameter, base64 is written out.
\<close>

section \<open>Tokens and keys\<close>

definition token_list :: "pystr option \<Rightarrow> pystr list" where
  "token_list text =
     (case text of
        None \<Rightarrow> []
      | Some s \<Rightarrow> filter (\<lambda>t. t \<noteq> []) (map (strip_with py_space) (split_on 44 s)))"

definition http_token_characters :: "nat list" where
  "http_token_characters = [33, 35, 36, 37, 38, 39, 42, 43, 45, 46, 94, 95, 96, 124, 126]
     @ lit ''0123456789ABCDEFGHIJKLMNOPQRSTUVWXYZabcdefghijklmnopqrstuvwxyz''"

definition is_http_token :: "pystr \<Rightarrow> bool" where
  "is_http_token s = (s \<noteq> [] \<and> list_all (\<lambda>c. c \<in> set http_token_characters) s)"

definition b64_alphabet :: pystr where
  "b64_alphabet = lit ''ABCDEFGHIJKLMNOPQRSTUVWXYZabcdefghijklmnopqrstuvwxyz0123456789+/''"

text \<open>The length of \<open>base64.b64decode(s, validate=True)\<close>, \<open>None\<close> when it raises: alphabet characters in
  groups of four, the last of which may end in one or two equals signs.\<close>

definition b64_length :: "pystr \<Rightarrow> nat option" where
  "b64_length s =
     (let body = takeWhile (\<lambda>c. c \<in> set b64_alphabet) s; pad = drop (length body) s
      in if pad = replicate (length pad) 61 \<and> length pad = (4 - length body mod 4) mod 4 \<and> length pad \<le> 2
         then Some (length body * 6 div 8) else None)"

definition valid_websocket_key :: "pystr option \<Rightarrow> bool" where
  "valid_websocket_key key =
     (case key of None \<Rightarrow> False | Some s \<Rightarrow> is_ascii s \<and> b64_length s = Some 16)"

section \<open>The decision\<close>

definition truthy :: "pystr option \<Rightarrow> bool" where
  "truthy s = (case s of None \<Rightarrow> False | Some t \<Rightarrow> t \<noteq> [])"

definition is_upgrade_attempt :: "request \<Rightarrow> bool" where
  "is_upgrade_attempt r =
     (let header = (\<lambda>name. headers_get (req_headers r) (lit name))
      in truthy (header ''upgrade'') \<or> truthy (header ''sec-websocket-key'') \<or> truthy (header ''sec-websocket-version'') \<or>
         list_ex (\<lambda>t. py_lower t = lit ''upgrade'') (token_list (header ''connection'')))"

record 'h ws_route =
  wr_handler :: 'h
  wr_origins :: "pystr list option"
  wr_subprotocols :: "pystr list"

text \<open>\<open>None\<close> admits the request; otherwise the response that refuses it.\<close>

definition validate_upgrade :: "request \<Rightarrow> 'h ws_route \<Rightarrow> (py_error + response) option" where
  "validate_upgrade r route =
     (let header = (\<lambda>name. headers_get (req_headers r) (lit name));
          offered = header ''sec-websocket-protocol'';
          offered_subprotocols = token_list offered
      in if py_upper (req_method r) \<noteq> lit ''GET'' then Some (response_text (lit ''WebSocket upgrade requires GET'') 400 [])
         else if req_version r \<noteq> lit ''HTTP/1.1'' then Some (response_text (lit ''WebSocket upgrade requires HTTP/1.1'') 400 [])
         else if req_body r \<noteq> [] then Some (response_text (lit ''WebSocket upgrade must not include a body'') 400 [])
         else if map_option py_lower (header ''upgrade'') \<noteq> Some (lit ''websocket'')
         then Some (response_text (lit ''invalid WebSocket Upgrade header'') 400 [])
         else if lit ''upgrade'' \<notin> set (map py_lower (token_list (header ''connection'')))
         then Some (response_text (lit ''invalid WebSocket Connection header'') 400 [])
         else if header ''sec-websocket-version'' \<noteq> Some (lit ''13'')
         then Some (response_text (lit ''unsupported WebSocket version'') 426 [(lit ''Sec-WebSocket-Version'', lit ''13'')])
         else if \<not> valid_websocket_key (header ''sec-websocket-key'')
         then Some (response_text (lit ''invalid WebSocket key'') 400 [])
         else if offered \<noteq> None \<and> (offered_subprotocols = [] \<or> list_ex (\<lambda>t. \<not> is_http_token t) offered_subprotocols)
         then Some (response_text (lit ''invalid WebSocket subprotocol'') 400 [])
         else if (case wr_origins route of None \<Rightarrow> False
                  | Some origins \<Rightarrow> (case header ''origin'' of None \<Rightarrow> True | Some origin \<Rightarrow> origin \<notin> set origins))
         then Some (response_text (lit ''WebSocket origin is not allowed'') 403 [])
         else None)"

section \<open>The 101 response\<close>

definition ws_guid :: pystr where
  "ws_guid = lit ''258EAFA5-E914-47DA-95CA-C5AB0DC85B11''"

text \<open>\<open>base64.b64encode\<close>.\<close>

definition b64_char :: "nat \<Rightarrow> nat" where
  "b64_char n = b64_alphabet ! (n mod 64)"

fun b64_encode :: "bytes \<Rightarrow> pystr" where
  "b64_encode [] = []"
| "b64_encode [a] = (let n = unat a * 16 in [b64_char (n div 64), b64_char n, 61, 61])"
| "b64_encode [a, b] = (let n = (unat a * 256 + unat b) * 4 in [b64_char (n div 4096), b64_char (n div 64), b64_char n, 61])"
| "b64_encode (a # b # c # bs) =
     (let n = unat a * 65536 + unat b * 256 + unat c
      in [b64_char (n div 262144), b64_char (n div 4096), b64_char (n div 64), b64_char n] @ b64_encode bs)"

datatype accept_error = AlreadyDecided | SubprotocolNotAllowed | SubprotocolNotOffered | AcceptRaised py_error

definition reserved_handshake_headers :: "pystr list" where
  "reserved_handshake_headers = map lit [''connection'', ''upgrade'', ''sec-websocket-accept'', ''sec-websocket-protocol'',
     ''sec-websocket-extensions'', ''content-length'']"

definition accept_lines :: "(bytes \<Rightarrow> bytes) \<Rightarrow> pystr \<Rightarrow> pystr option \<Rightarrow> headers \<Rightarrow> pystr list" where
  "accept_lines sha1 key subprotocol extra =
     [lit ''HTTP/1.1 101 Switching Protocols'', lit ''Upgrade: websocket'', lit ''Connection: Upgrade'',
      lit ''Sec-WebSocket-Accept: '' @ b64_encode (sha1 (map of_nat (key @ ws_guid)))] @
     (case subprotocol of None \<Rightarrow> [] | Some p \<Rightarrow> [lit ''Sec-WebSocket-Protocol: '' @ p]) @
     map header_line (headers_items extra)"

text \<open>\<open>accept\<close> up to the send; the request has passed \<open>validate_upgrade\<close>.\<close>

definition accept_payload ::
  "(bytes \<Rightarrow> bytes) \<Rightarrow> request \<Rightarrow> 'h ws_route \<Rightarrow> pystr option \<Rightarrow> (pystr \<times> pystr) list \<Rightarrow> accept_error + bytes" where
  "accept_payload sha1 r route subprotocol headers =
     (if (case subprotocol of None \<Rightarrow> False | Some p \<Rightarrow> p \<notin> set (wr_subprotocols route)) then Inl SubprotocolNotAllowed
      else if (case subprotocol of None \<Rightarrow> False
               | Some p \<Rightarrow> p \<notin> set (token_list (headers_get (req_headers r) (lit ''sec-websocket-protocol''))))
      then Inl SubprotocolNotOffered
      else case headers_init headers of
             Inl e \<Rightarrow> Inl (AcceptRaised e)
           | Inr extra \<Rightarrow>
               if list_ex (\<lambda>name. py_lower name \<in> set reserved_handshake_headers) (headers_names extra)
               then Inl (AcceptRaised (ValueError (lit ''handshake headers contain a reserved field'')))
               else case headers_getitem (req_headers r) (lit ''sec-websocket-key'') of
                      Inl e \<Rightarrow> Inl (AcceptRaised e)
                    | Inr key \<Rightarrow>
                        if \<not> is_ascii key then Inl (AcceptRaised (ValueError (lit ''ordinal not in range(128)'')))
                        else case latin1_encode (join_with crlf (accept_lines sha1 key subprotocol extra) @ crlf @ crlf) of
                               None \<Rightarrow> Inl (AcceptRaised (ValueError (lit ''ordinal not in range(256)'')))
                             | Some payload \<Rightarrow> Inr payload)"

section \<open>Close codes and sizes\<close>

definition valid_close_code :: "int \<Rightarrow> bool" where
  "valid_close_code code =
     ((1000 \<le> code \<and> code \<le> 1014 \<and> code \<notin> {1004, 1005, 1006}) \<or> (3000 \<le> code \<and> code \<le> 4999))"

datatype ws_data = TextData pystr | BytesData bytes

text \<open>\<open>None\<close> when the text has no UTF-8 encoding.\<close>

definition message_size :: "ws_data \<Rightarrow> nat option" where
  "message_size m = (case m of TextData s \<Rightarrow> utf8_len s | BytesData b \<Rightarrow> Some (length b))"

section \<open>The handshake is well formed\<close>

lemma http_token_characters_ok: "list_all token_char http_token_characters"
  by (simp add: http_token_characters_def lit_def token_char_def)

lemma http_token_is_token: "is_http_token p \<Longrightarrow> is_token p"
  using http_token_characters_ok by (auto simp: is_http_token_def is_token_def list_all_iff)

lemma b64_alphabet_range: "list_all (\<lambda>c. 43 \<le> c \<and> c \<le> 122) b64_alphabet" and b64_alphabet_length: "length b64_alphabet = 64"
  by (simp_all add: b64_alphabet_def lit_def)

lemma b64_char_range: "43 \<le> b64_char n \<and> b64_char n \<le> 122"
proof -
  have "b64_char n \<in> set b64_alphabet" by (simp add: b64_char_def b64_alphabet_length)
  with b64_alphabet_range show ?thesis by (auto simp: list_all_iff)
qed

lemma b64_encode_range: "c \<in> set (b64_encode bs) \<Longrightarrow> 43 \<le> c \<and> c \<le> 122"
  by (induction bs rule: b64_encode.induct) (auto simp: Let_def b64_char_range)

lemma accept_lines_clean:
  assumes "headers_wf extra" and "\<And>p. subprotocol = Some p \<Longrightarrow> is_token p"
  shows "\<forall>l \<in> set (accept_lines sha1 key subprotocol extra). clean_line l"
proof -
  have "clean_line (lit ''Sec-WebSocket-Accept: '' @ b64_encode bs)" for bs
    using b64_encode_range [of _ bs] by (fastforce simp: clean_line_def py_text)
  moreover have "clean_line (lit ''Sec-WebSocket-Protocol: '' @ p)" if "subprotocol = Some p" for p
    using is_token_chars [OF assms(2) [OF that]] by (fastforce simp: clean_line_def py_text)
  ultimately show ?thesis
    using assms(1)
    by (auto simp: accept_lines_def py_text clean_line_def [of "_ # _"] split: option.splits
        intro!: clean_header_line dest: headers_wf_item)
qed

text \<open>What an admitted request looks like.\<close>

definition upgrade_ok :: "request \<Rightarrow> 'h ws_route \<Rightarrow> bool" where
  "upgrade_ok r route =
     (py_upper (req_method r) = lit ''GET'' \<and> req_version r = lit ''HTTP/1.1'' \<and> req_body r = [] \<and>
      (\<exists>u. headers_get (req_headers r) (lit ''upgrade'') = Some u \<and> py_lower u = lit ''websocket'') \<and>
      (\<exists>t \<in> set (token_list (headers_get (req_headers r) (lit ''connection''))). py_lower t = lit ''upgrade'') \<and>
      headers_get (req_headers r) (lit ''sec-websocket-version'') = Some (lit ''13'') \<and>
      (\<exists>key. headers_get (req_headers r) (lit ''sec-websocket-key'') = Some key \<and> is_ascii key \<and> b64_length key = Some 16) \<and>
      (\<forall>t \<in> set (token_list (headers_get (req_headers r) (lit ''sec-websocket-protocol''))). is_http_token t) \<and>
      (\<forall>origins. wr_origins route = Some origins \<longrightarrow>
         (\<exists>origin \<in> set origins. headers_get (req_headers r) (lit ''origin'') = Some origin)))"

lemma text_response_ok:
  assumes "is_ascii msg" and "100 \<le> status" "status \<le> 599" and "hs = [] \<or> hs = [(lit ''Sec-WebSocket-Version'', lit ''13'')]"
  shows "\<exists>resp. response_text msg status hs = Inr resp \<and> resp_status resp = status \<and> response_wf resp"
proof -
  have u: "utf8_encode msg = Some (map of_nat msg)" using assms(1) by (rule utf8_encode_ascii)
  show ?thesis
    using assms(2-4) u
    by (elim disjE)
      (simp_all add: response_text_def dict_setdefault_def headers_init_def bind_sum_def response_init_def content_length_ok_def
        headers_get_def response_wf_def headers_wf_def is_token_def token_char_def header_value_ok_def py_text py_lower_def lower1_def)
qed

lemma validate_upgrade_None: "validate_upgrade r route = None \<Longrightarrow> upgrade_ok r route"
  by (auto simp: validate_upgrade_def upgrade_ok_def Let_def valid_websocket_key_def list_ex_iff image_iff token_list_def
      split: if_splits option.splits)

lemma validate_upgrade_Some:
  assumes "validate_upgrade r route = Some answer"
  shows "\<exists>resp. answer = Inr resp \<and> resp_status resp \<in> {400, 403, 426} \<and> response_wf resp"
proof -
  have ok: "\<exists>resp. response_text msg status hs = Inr resp \<and> resp_status resp \<in> {400, 403, 426} \<and> response_wf resp"
    if "is_ascii msg" "status \<in> {400, 403, 426}" "hs = [] \<or> hs = [(lit ''Sec-WebSocket-Version'', lit ''13'')]" for msg status hs
    using text_response_ok [OF that(1) _ _ that(3), of status] that(2) by auto
  obtain msg status hs where "answer = response_text msg status hs" "is_ascii msg" "status \<in> {400, 403, 426}"
    "hs = [] \<or> hs = [(lit ''Sec-WebSocket-Version'', lit ''13'')]"
    using assms unfolding validate_upgrade_def Let_def
    by (simp split: if_split_asm; (fastforce simp: is_ascii_def py_text)?)
  then show ?thesis using ok by blast
qed

lemma accept_payload_ok:
  assumes key: "headers_get (req_headers r) (lit ''sec-websocket-key'') = Some key" "is_ascii key"
    and offered: "\<And>p. subprotocol = Some p \<Longrightarrow>
      p \<in> set (wr_subprotocols route) \<and> p \<in> set (token_list (headers_get (req_headers r) (lit ''sec-websocket-protocol'')))"
    and token: "\<And>p. subprotocol = Some p \<Longrightarrow> is_token p"
    and extra: "headers_init hs = Inr extra" "list_all (\<lambda>name. py_lower name \<notin> set reserved_handshake_headers) (headers_names extra)"
  shows "accept_payload sha1 r route subprotocol hs =
    Inr (map of_nat (join_with crlf (accept_lines sha1 key subprotocol extra)) @ [13, 10, 13, 10])"
proof -
  let ?ls = "accept_lines sha1 key subprotocol extra"
  have "\<forall>l \<in> set ?ls. clean_line l"
    using accept_lines_clean headers_init_wf [OF extra(1)] token by blast
  then have "list_all (\<lambda>c. c < 256) (join_with crlf ?ls @ crlf @ crlf)"
    using join_clean [of ?ls] by (simp add: crlf_def)
  then have enc: "latin1_encode (join_with crlf ?ls @ crlf @ crlf) = Some (map of_nat (join_with crlf ?ls) @ [13, 10, 13, 10])"
    by (simp add: latin1_encode_def crlf_def)
  have item: "headers_getitem (req_headers r) (lit ''sec-websocket-key'') = Inr key"
    using key(1) by (auto simp: headers_get_def headers_getitem_def)
  have "\<not> list_ex (\<lambda>name. py_lower name \<in> set reserved_handshake_headers) (headers_names extra)"
    using extra(2) by (auto simp: list_all_iff list_ex_iff)
  then show ?thesis
    using offered key(2) extra(1) item enc by (auto simp: accept_payload_def split: option.splits)
qed

definition sample_upgrade :: request where
  "sample_upgrade = \<lparr>req_method = lit ''GET'', req_path = lit ''/ws'',
     req_headers = map header_entry [(lit ''Upgrade'', lit ''WebSocket''), (lit ''Connection'', lit ''keep-alive, Upgrade''),
       (lit ''Sec-WebSocket-Version'', lit ''13''), (lit ''Sec-WebSocket-Key'', lit ''dGhlIHNhbXBsZSBub25jZQ==''),
       (lit ''Sec-WebSocket-Protocol'', lit ''chat, superchat'')],
     req_body = [], req_version = lit ''HTTP/1.1'', req_raw_target = lit ''/ws'', req_query_string = [], req_path_params = [],
     req_route_pattern = None\<rparr>"

definition sample_ws_route :: "nat ws_route" where
  "sample_ws_route = \<lparr>wr_handler = 0, wr_origins = None, wr_subprotocols = [lit ''chat'']\<rparr>"

text \<open>C31. The upgrade decision never raises: a refusal is a well-formed response with status 400, 403 or 426. An
  admitted request is a \<open>GET\<close> over HTTP/1.1 without body that asks for \<open>websocket\<close> in version 13 with a
  16-byte key, offers only tokens and comes from an allowed origin; and the application can then accept it:
  with any offered subprotocol of the route and any valid extra headers that are not reserved, \<open>accept\<close>
  sends one 101 head whose lines are exactly the intended ones, with nothing after it.\<close>

theorem upgrade_decision:
  assumes "list_all is_http_token (wr_subprotocols route)"
  shows "case validate_upgrade r route of
      Some answer \<Rightarrow> \<exists>resp. answer = Inr resp \<and> resp_status resp \<in> {400, 403, 426} \<and> response_wf resp
    | None \<Rightarrow> upgrade_ok r route \<and>
        (\<forall>subprotocol hs extra.
           (\<forall>p. subprotocol = Some p \<longrightarrow> p \<in> set (wr_subprotocols route) \<and>
              p \<in> set (token_list (headers_get (req_headers r) (lit ''sec-websocket-protocol'')))) \<longrightarrow>
           headers_init hs = Inr extra \<longrightarrow>
           list_all (\<lambda>name. py_lower name \<notin> set reserved_handshake_headers) (headers_names extra) \<longrightarrow>
           (\<exists>key payload n. headers_get (req_headers r) (lit ''sec-websocket-key'') = Some key \<and>
              accept_payload sha1 r route subprotocol hs = Inr payload \<and>
              find_sub [13, 10, 13, 10] payload = Some n \<and> length payload = n + 4 \<and>
              split_crlf (latin1_decode (take n payload)) = accept_lines sha1 key subprotocol extra))"
proof (cases "validate_upgrade r route")
  case (Some answer)
  then show ?thesis using validate_upgrade_Some by simp
next
  case None
  note ok = validate_upgrade_None [OF None]
  then obtain key where key: "headers_get (req_headers r) (lit ''sec-websocket-key'') = Some key" "is_ascii key"
    by (auto simp: upgrade_ok_def)
  have "\<exists>key payload n. headers_get (req_headers r) (lit ''sec-websocket-key'') = Some key \<and>
      accept_payload sha1 r route subprotocol hs = Inr payload \<and>
      find_sub [13, 10, 13, 10] payload = Some n \<and> length payload = n + 4 \<and>
      split_crlf (latin1_decode (take n payload)) = accept_lines sha1 key subprotocol extra"
    if offered: "\<forall>p. subprotocol = Some p \<longrightarrow> p \<in> set (wr_subprotocols route) \<and>
        p \<in> set (token_list (headers_get (req_headers r) (lit ''sec-websocket-protocol'')))"
      and extra: "headers_init hs = Inr extra" "list_all (\<lambda>name. py_lower name \<notin> set reserved_handshake_headers) (headers_names extra)"
    for subprotocol hs extra
  proof -
    let ?ls = "accept_lines sha1 key subprotocol extra"
    let ?payload = "map of_nat (join_with crlf ?ls) @ [13, 10, 13, 10] @ [] :: bytes"
    have token: "is_token p" if "subprotocol = Some p" for p
      using that offered assms http_token_is_token by (auto simp: list_all_iff)
    have clean: "?ls \<noteq> []" "\<forall>l \<in> set ?ls. clean_line l"
      using accept_lines_clean [OF headers_init_wf [OF extra(1)] token] by (simp_all add: accept_lines_def)
    have "accept_payload sha1 r route subprotocol hs = Inr ?payload"
      unfolding append_Nil2 by (rule accept_payload_ok [OF key _ _ extra]) (use offered token in blast)+
    then show ?thesis
      using head_of_clean_lines(1,2) [OF clean refl, of "[]"] key(1)
      by (intro exI [of _ key] exI [of _ ?payload] exI [of _ "length (join_with crlf ?ls)"]) simp
  qed
  with ok None show ?thesis by simp
qed

lemma upgrade_decision_witness:
  "validate_upgrade sample_upgrade sample_ws_route = None \<and>
    (\<exists>payload n. accept_payload (\<lambda>bs. take 20 bs) sample_upgrade sample_ws_route (Some (lit ''chat'')) [] = Inr payload \<and>
       find_sub [13, 10, 13, 10] payload = Some n)"
proof -
  have get: "headers_get (req_headers sample_upgrade) (lit ''upgrade'') = Some (lit ''WebSocket'')"
    "headers_get (req_headers sample_upgrade) (lit ''connection'') = Some (lit ''keep-alive, Upgrade'')"
    "headers_get (req_headers sample_upgrade) (lit ''sec-websocket-version'') = Some (lit ''13'')"
    "headers_get (req_headers sample_upgrade) (lit ''sec-websocket-key'') = Some (lit ''dGhlIHNhbXBsZSBub25jZQ=='')"
    "headers_get (req_headers sample_upgrade) (lit ''sec-websocket-protocol'') = Some (lit ''chat, superchat'')"
    by (simp_all add: sample_upgrade_def headers_get_def header_entry_def py_lower_def lower1_def py_text)
  have tokens: "token_list (Some (lit ''keep-alive, Upgrade'')) = [lit ''keep-alive'', lit ''Upgrade'']"
    "token_list (Some (lit ''chat, superchat'')) = [lit ''chat'', lit ''superchat'']"
    by (simp_all add: token_list_def strip_with_def py_space_def py_text)
  have key: "valid_websocket_key (Some (lit ''dGhlIHNhbXBsZSBub25jZQ==''))"
    by (simp add: valid_websocket_key_def b64_length_def b64_alphabet_def is_ascii_def py_text Let_def)
  have http: "is_http_token (lit ''chat'')" "is_http_token (lit ''superchat'')"
    by (simp_all add: is_http_token_def http_token_characters_def py_text)
  have none: "validate_upgrade sample_upgrade sample_ws_route = None"
    unfolding validate_upgrade_def Let_def get tokens
    using key http by (simp add: sample_upgrade_def sample_ws_route_def py_upper_def upper1_def py_lower_def lower1_def py_text)
  have "list_all is_http_token (wr_subprotocols sample_ws_route)" using http by (simp add: sample_ws_route_def)
  from upgrade_decision [OF this, of sample_upgrade "\<lambda>bs. take 20 bs"] none
  have "\<exists>payload n. accept_payload (\<lambda>bs. take 20 bs) sample_upgrade sample_ws_route (Some (lit ''chat'')) [] = Inr payload \<and>
      find_sub [13, 10, 13, 10] payload = Some n"
    by (simp only: option.case) (drule conjunct2, drule spec [of _ "Some (lit ''chat'')"], drule spec [of _ "[]"], drule spec [of _ "[]"],
        simp add: get tokens sample_ws_route_def headers_init_def headers_names_def, blast)
  with none show ?thesis by simp
qed

end
