(* ===== verification/WS_State.thy ===== *)
theory WS_State
  imports WS_Upgrade WS_Frames Registry
begin

text \<open>
  \<open>_WebSocketState\<close> of \<open>smallserver/websocket.py\<close> and the tasks around it: the handshake, the two bounded
  mailboxes, the reader, the writer and the deadlines. An operation is one uninterrupted stretch of code between
  two awaits; an \<open>async\<close> method is cut into the part before its await and the parts that follow a result.

  wsproto is a parameter: \<open>ws_lib\<close> holds its calls as functions on a state of its own. Signals and
  cancellations are the effects on the scheduler and are kept in order in \<open>ws_log\<close>. The runtime is the field
  \<open>ws_runtime\<close>, an arbitrary function that says of each call of \<open>cancel_task\<close>, from the target and the effects before
  the call, whether it raises \<open>KeyboardInterrupt\<close> or \<open>SystemExit\<close>; what else it raises is swallowed. An operation that
  can pass such an exit on returns it with the state it leaves. Time is an integer passed to the operations that
  read the clock.
\<close>

section \<open>Data\<close>

record ws_config =
  wc_max_frame_payload_bytes :: int
  wc_max_message_bytes :: int
  wc_max_inbound_messages :: int
  wc_max_inbound_bytes :: int
  wc_max_outbound_commands :: int
  wc_max_outbound_bytes :: int
  wc_receive_chunk_bytes :: int
  wc_write_chunk_bytes :: int
  wc_max_connections :: int
  wc_handshake_timeout :: int
  wc_idle_timeout :: int
  wc_pong_timeout :: int
  wc_write_timeout :: int
  wc_close_timeout :: int
  wc_deadline_resolution :: int

datatype 'e ws_failure =
  WSDisconnected int pystr | WSState | WSCapacity | WSValue | WSExit 'e | WSRaised 'e

datatype 'r out_event = OutMessage ws_data | OutPing bytes | OutClose int pystr | OutResponse 'r

record 'r ws_command =
  oc_id :: nat
  oc_event :: "'r out_event"
  oc_size :: nat
  oc_waiter :: "nat option"

text \<open>What wsproto reports. The flag of a data event is \<open>message_finished\<close>.\<close>

datatype in_event = InText pystr bool | InBytes bytes bool | InPing bytes | InPong bytes | InClose int "pystr option" | InOther

record ('p, 'r, 'e) ws_lib =
  wl_new :: 'p
  wl_send :: "'p \<Rightarrow> 'r out_event \<Rightarrow> ('e ws_failure + bytes) \<times> 'p"
  wl_receive :: "'p \<Rightarrow> bytes option \<Rightarrow> 'e ws_failure option \<times> 'p"
  wl_events :: "'p \<Rightarrow> in_event list \<times> 'p"
  wl_ping_response :: "bytes \<Rightarrow> 'r"
  wl_close_response :: "int \<Rightarrow> pystr option \<Rightarrow> 'r"
  wl_response_code :: "'r \<Rightarrow> int"
  wl_response_reason :: "'r \<Rightarrow> pystr option"

datatype handshake = HsPending | HsAccepting | HsRejecting | HsAccepted | HsRejected | HsFailed

datatype ws_effect = Signalled nat int | CancelledTask nat

datatype data_kind = TextKind | BytesKind

record ('p, 'r, 'e) ws =
  ws_runtime :: "nat \<Rightarrow> ws_effect list \<Rightarrow> 'e option"
  ws_config :: ws_config
  ws_cursor :: "nat option"
  ws_protocol :: "'p option"
  ws_coordinator_task :: "nat option"
  ws_handler_task :: "nat option"
  ws_writer_task :: "nat option"
  ws_accepted :: bool
  ws_rejected :: bool
  ws_handshake :: handshake
  ws_handshake_error :: "'e ws_failure option"
  ws_shutdown :: bool
  ws_peer_closed :: bool
  ws_close_sent :: bool
  ws_subprotocol :: "pystr option"
  ws_disconnect :: "(int \<times> pystr) option"
  ws_fatal_error :: "'e ws_failure option"
  ws_inbox :: "ws_data list"
  ws_inbox_bytes :: int
  ws_outbox :: "'r ws_command list"
  ws_outbox_bytes :: int
  ws_writer_busy :: bool
  ws_active :: "'r ws_command option"
  ws_next_command :: nat
  ws_done :: "(nat \<times> 'e ws_failure option) list"
  ws_message_kind :: "data_kind option"
  ws_message_buffer :: bytes
  ws_message_bytes :: int
  ws_guard :: guard
  ws_created_at :: int
  ws_last_activity :: int
  ws_pong_deadline :: "int option"
  ws_ping_generation :: int
  ws_pending_ping :: "(int \<times> bytes) option"
  ws_close_deadline :: "int option"
  ws_write_deadline :: "int option"
  ws_log :: "ws_effect list"

text \<open>The commands carry their identity; \<open>ws_done\<close> maps it to \<open>error\<close> once \<open>done\<close> is set.\<close>

definition ws_init :: "(nat \<Rightarrow> ws_effect list \<Rightarrow> 'e option) \<Rightarrow> ws_config \<Rightarrow> int \<Rightarrow> ('p, 'r, 'e) ws" where
  "ws_init runtime config now =
     \<lparr>ws_runtime = runtime, ws_config = config, ws_cursor = None, ws_protocol = None, ws_coordinator_task = None, ws_handler_task = None,
      ws_writer_task = None, ws_accepted = False, ws_rejected = False, ws_handshake = HsPending, ws_handshake_error = None,
      ws_shutdown = False, ws_peer_closed = False, ws_close_sent = False, ws_subprotocol = None, ws_disconnect = None,
      ws_fatal_error = None, ws_inbox = [], ws_inbox_bytes = 0, ws_outbox = [], ws_outbox_bytes = 0,
      ws_writer_busy = False, ws_active = None, ws_next_command = 0, ws_done = [], ws_message_kind = None,
      ws_message_buffer = [], ws_message_bytes = 0, ws_guard = guard_init (wc_max_frame_payload_bytes config),
      ws_created_at = now, ws_last_activity = now, ws_pong_deadline = None, ws_ping_generation = 0,
      ws_pending_ping = None, ws_close_deadline = None, ws_write_deadline = None, ws_log = []\<rparr>"

section \<open>Signals, cancellation, disconnection\<close>

definition decision_signal :: int where "decision_signal = 24"

definition inbox_signal :: int where "inbox_signal = 25"

definition outbox_signal :: int where "outbox_signal = 26"

definition ack_signal :: int where "ack_signal = 27"

definition ws_signal :: "nat option \<Rightarrow> int \<Rightarrow> ('p, 'r, 'e) ws \<Rightarrow> ('p, 'r, 'e) ws" where
  "ws_signal task n s = (case task of None \<Rightarrow> s | Some t \<Rightarrow> s\<lparr>ws_log := ws_log s @ [Signalled t n]\<rparr>)"

text \<open>\<open>_cancel_task\<close>: an exit that the runtime raises becomes the fatal error and goes on.\<close>

definition ws_cancel_task :: "nat option \<Rightarrow> ('p, 'r, 'e) ws \<Rightarrow> 'e ws_failure option \<times> ('p, 'r, 'e) ws" where
  "ws_cancel_task target s =
     (case target of
        None \<Rightarrow> (None, s)
      | Some t \<Rightarrow>
          if ws_cursor s = Some t then (None, s)
          else
            let s1 = s\<lparr>ws_log := ws_log s @ [CancelledTask t]\<rparr>
            in case ws_runtime s t (ws_log s) of
                 None \<Rightarrow> (None, s1)
               | Some e \<Rightarrow> (Some (WSExit e), s1\<lparr>ws_fatal_error := Some (WSExit e)\<rparr>))"

definition cancel_handler :: "('p, 'r, 'e) ws \<Rightarrow> 'e ws_failure option \<times> ('p, 'r, 'e) ws" where
  "cancel_handler s = ws_cancel_task (ws_handler_task s) s"

definition ws_disconnected :: "int \<Rightarrow> pystr \<Rightarrow> ('p, 'r, 'e) ws \<Rightarrow> ('p, 'r, 'e) ws" where
  "ws_disconnected code reason s =
     (let s1 = (case ws_disconnect s of None \<Rightarrow> s\<lparr>ws_disconnect := Some (code, reason)\<rparr> | Some _ \<Rightarrow> s)
      in ws_signal (ws_coordinator_task s1) decision_signal (ws_signal (ws_handler_task s1) inbox_signal s1))"

fun is_exit :: "'e ws_failure \<Rightarrow> bool" where
  "is_exit (WSExit e) = True"
| "is_exit _ = False"

definition fail_handshake :: "'e ws_failure \<Rightarrow> ('p, 'r, 'e) ws \<Rightarrow> ('p, 'r, 'e) ws" where
  "fail_handshake err s =
     (if ws_handshake s = HsFailed then s
      else
        let s1 = s\<lparr>ws_accepted := False, ws_rejected := False, ws_protocol := None, ws_handshake := HsFailed,
                   ws_handshake_error := Some err\<rparr>;
            s2 = (if is_exit err then s1\<lparr>ws_fatal_error := Some err\<rparr> else s1)
        in ws_disconnected 1006 [] s2)"

section \<open>The outbound mailbox\<close>

definition outbox_full :: "nat \<Rightarrow> ('p, 'r, 'e) ws \<Rightarrow> bool" where
  "outbox_full size1 s =
     (int (length (ws_outbox s)) \<ge> wc_max_outbound_commands (ws_config s) \<or>
      ws_outbox_bytes s + int size1 > wc_max_outbound_bytes (ws_config s))"

definition push_command :: "'r out_event \<Rightarrow> nat \<Rightarrow> nat option \<Rightarrow> ('p, 'r, 'e) ws \<Rightarrow> ('p, 'r, 'e) ws" where
  "push_command event size1 waiter s =
     ws_signal (ws_writer_task s) outbox_signal
       (s\<lparr>ws_outbox := ws_outbox s @ [\<lparr>oc_id = ws_next_command s, oc_event = event, oc_size = size1, oc_waiter = waiter\<rparr>],
          ws_outbox_bytes := ws_outbox_bytes s + int size1, ws_next_command := Suc (ws_next_command s)\<rparr>)"

text \<open>\<open>_enqueue\<close> with \<open>wait=True\<close> up to the wait; the result names the command.\<close>

definition enqueue :: "'r out_event \<Rightarrow> nat \<Rightarrow> ('p, 'r, 'e) ws \<Rightarrow> ('e ws_failure + nat) \<times> ('p, 'r, 'e) ws" where
  "enqueue event size1 s =
     (if outbox_full size1 s then (Inl WSCapacity, s)
      else case ws_cursor s of
             None \<Rightarrow> (Inl WSState, s)
           | Some t \<Rightarrow> (Inr (ws_next_command s), push_command event size1 (Some t) s))"

text \<open>The loop after it: \<open>None\<close> keeps waiting.\<close>

definition command_result :: "nat \<Rightarrow> ('p, 'r, 'e) ws \<Rightarrow> 'e ws_failure option option" where
  "command_result cid s = map_of (ws_done s) cid"

definition enqueue_control :: "'r out_event \<Rightarrow> nat \<Rightarrow> ('p, 'r, 'e) ws \<Rightarrow> bool \<times> ('p, 'r, 'e) ws" where
  "enqueue_control event size1 s =
     (if outbox_full size1 s then (False, s) else (True, push_command event size1 None s))"

definition finish_command :: "'e ws_failure option \<Rightarrow> 'r ws_command \<Rightarrow> ('p, 'r, 'e) ws \<Rightarrow> ('p, 'r, 'e) ws" where
  "finish_command err c s =
     ws_signal (oc_waiter c) ack_signal (s\<lparr>ws_done := dict_set (oc_id c) err (ws_done s)\<rparr>)"

text \<open>The loop of \<open>_fail_outbound\<close>; \<open>seen\<close> as in the code.\<close>

fun fail_commands :: "'e ws_failure \<Rightarrow> 'r ws_command list \<Rightarrow> nat list \<Rightarrow> ('p, 'r, 'e) ws \<Rightarrow> ('p, 'r, 'e) ws" where
  "fail_commands err [] seen s = s"
| "fail_commands err (c # cs) seen s =
     (if oc_id c \<in> set seen then fail_commands err cs seen s
      else fail_commands err cs (oc_id c # seen) (finish_command (Some err) c s))"

definition fail_outbound :: "'e ws_failure \<Rightarrow> ('p, 'r, 'e) ws \<Rightarrow> ('p, 'r, 'e) ws" where
  "fail_outbound err s =
     fail_commands err ((case ws_active s of None \<Rightarrow> [] | Some c \<Rightarrow> [c]) @ ws_outbox s) []
       (s\<lparr>ws_outbox := [], ws_outbox_bytes := 0\<rparr>)"

definition abort_writer :: "'e ws_failure \<Rightarrow> ('p, 'r, 'e) ws \<Rightarrow> 'e ws_failure option \<times> ('p, 'r, 'e) ws" where
  "abort_writer err s = (let s1 = fail_outbound err s in ws_cancel_task (ws_writer_task s1) s1)"

section \<open>The inbound mailbox\<close>

definition deliver_message :: "ws_data \<Rightarrow> nat \<Rightarrow> ('p, 'r, 'e) ws \<Rightarrow> bool \<times> ('p, 'r, 'e) ws" where
  "deliver_message m size1 s =
     (if int (length (ws_inbox s)) \<ge> wc_max_inbound_messages (ws_config s) \<or>
         ws_inbox_bytes s + int size1 > wc_max_inbound_bytes (ws_config s)
      then (False, s)
      else (True, ws_signal (ws_handler_task s) inbox_signal
              (s\<lparr>ws_inbox := ws_inbox s @ [m], ws_inbox_bytes := ws_inbox_bytes s + int size1\<rparr>)))"

text \<open>\<open>receive\<close>: \<open>begin\<close> holds at its entry, not after a wait; \<open>Inr None\<close> waits for the signal.\<close>

definition ws_receive :: "bool \<Rightarrow> ('p, 'r, 'e) ws \<Rightarrow> ('e ws_failure + ws_data option) \<times> ('p, 'r, 'e) ws" where
  "ws_receive entry s =
     (if entry \<and> (ws_cursor s = None \<or> \<not> ws_accepted s) then (Inl WSState, s)
      else case ws_inbox s of
             [] \<Rightarrow> (case ws_disconnect s of
                     Some (code, reason) \<Rightarrow> (Inl (WSDisconnected code reason), s)
                   | None \<Rightarrow> (Inr None, s))
           | m # ms \<Rightarrow>
               (Inr (Some m), s\<lparr>ws_inbox := ms, ws_inbox_bytes := ws_inbox_bytes s -
                  (case message_size m of None \<Rightarrow> 0 | Some n \<Rightarrow> int n)\<rparr>))"

section \<open>The application's calls\<close>

definition require_open :: "('p, 'r, 'e) ws \<Rightarrow> 'e ws_failure option" where
  "require_open s =
     (if \<not> ws_accepted s then Some WSState
      else case ws_disconnect s of
             Some (code, reason) \<Rightarrow> Some (WSDisconnected code reason)
           | None \<Rightarrow> if ws_shutdown s then Some WSState else None)"

definition send_message :: "ws_data \<Rightarrow> ('p, 'r, 'e) ws \<Rightarrow> ('e ws_failure + nat) \<times> ('p, 'r, 'e) ws" where
  "send_message m s =
     (case require_open s of
        Some e \<Rightarrow> (Inl e, s)
      | None \<Rightarrow>
          case message_size m of
            None \<Rightarrow> (Inl WSValue, s)
          | Some n \<Rightarrow> if int n > wc_max_message_bytes (ws_config s) then (Inl WSCapacity, s) else enqueue (OutMessage m) n s)"

definition clear_pending_ping :: "('p, 'r, 'e) ws \<Rightarrow> ('p, 'r, 'e) ws" where
  "clear_pending_ping s = s\<lparr>ws_pending_ping := None, ws_pong_deadline := None\<rparr>"

text \<open>The handler of \<open>ping\<close> when its command failed or it was cancelled.\<close>

definition ping_failed :: "int \<Rightarrow> ('p, 'r, 'e) ws \<Rightarrow> ('p, 'r, 'e) ws" where
  "ping_failed generation s =
     (case ws_pending_ping s of
        None \<Rightarrow> s
      | Some (g, _) \<Rightarrow> if g = generation then clear_pending_ping s else s)"

definition ws_ping :: "bytes \<Rightarrow> int \<Rightarrow> ('p, 'r, 'e) ws \<Rightarrow> ('e ws_failure + nat) \<times> ('p, 'r, 'e) ws" where
  "ws_ping payload now s =
     (case require_open s of
        Some e \<Rightarrow> (Inl e, s)
      | None \<Rightarrow>
          if ws_pending_ping s \<noteq> None then (Inl WSState, s)
          else
            let generation = ws_ping_generation s + 1;
                s1 = s\<lparr>ws_ping_generation := generation, ws_pending_ping := Some (generation, payload),
                       ws_pong_deadline := Some (now + wc_pong_timeout (ws_config s))\<rparr>
            in case enqueue (OutPing payload) (length payload) s1 of
                 (Inl e, s2) \<Rightarrow> (Inl e, ping_failed generation s2)
               | (Inr cid, s2) \<Rightarrow> (Inr cid, s2))"

text \<open>\<open>WebSocket.ping\<close>, what the application calls.\<close>

definition socket_ping :: "bytes \<Rightarrow> int \<Rightarrow> ('p, 'r, 'e) ws \<Rightarrow> ('e ws_failure + nat) \<times> ('p, 'r, 'e) ws" where
  "socket_ping payload now s = (if length payload > 125 then (Inl WSValue, s) else ws_ping payload now s)"

definition ws_close :: "int \<Rightarrow> pystr \<Rightarrow> int \<Rightarrow> ('p, 'r, 'e) ws \<Rightarrow> ('e ws_failure + nat) \<times> ('p, 'r, 'e) ws" where
  "ws_close code reason now s =
     (case require_open s of
        Some e \<Rightarrow> (Inl e, s)
      | None \<Rightarrow>
          if \<not> valid_close_code code then (Inl WSValue, s)
          else case utf8_len reason of
                 None \<Rightarrow> (Inl WSValue, s)
               | Some n \<Rightarrow>
                   if n > 123 then (Inl WSValue, s)
                   else
                     let s1 = s\<lparr>ws_close_sent := True, ws_close_deadline := Some (now + wc_close_timeout (ws_config s))\<rparr>
                     in case enqueue (OutClose code reason) (2 + n) s1 of
                          (Inl e, s2) \<Rightarrow> (Inl e, ws_disconnected code reason s2)
                        | (Inr cid, s2) \<Rightarrow> (Inr cid, s2))"

text \<open>\<open>close\<close> after its command: \<open>failed\<close> when it raised. Then the wait for the peer, which goes on while \<open>close_waits\<close>.\<close>

definition close_failed :: "int \<Rightarrow> pystr \<Rightarrow> ('p, 'r, 'e) ws \<Rightarrow> ('p, 'r, 'e) ws" where
  "close_failed code reason s = ws_disconnected code reason s"

definition close_waits :: "int \<Rightarrow> ('p, 'r, 'e) ws \<Rightarrow> bool" where
  "close_waits now s = (\<not> ws_peer_closed s \<and> (case ws_close_deadline s of None \<Rightarrow> False | Some d \<Rightarrow> now < d))"

definition close_done :: "int \<Rightarrow> pystr \<Rightarrow> ('p, 'r, 'e) ws \<Rightarrow> ('p, 'r, 'e) ws" where
  "close_done code reason s =
     (case ws_disconnect s of None \<Rightarrow> s\<lparr>ws_disconnect := Some (code, reason)\<rparr> | Some _ \<Rightarrow> s)"

section \<open>Shutdown\<close>

definition request_shutdown :: "int \<Rightarrow> ('p, 'r, 'e) ws \<Rightarrow> 'e ws_failure option \<times> ('p, 'r, 'e) ws" where
  "request_shutdown code s =
     (if ws_shutdown s then (None, s)
      else
        let s1 = s\<lparr>ws_shutdown := True\<rparr>;
            s2 = (if ws_accepted s1 \<and> \<not> ws_close_sent s1 \<and> ws_protocol s1 \<noteq> None
                  then (snd (enqueue_control (OutClose code (lit ''server shutdown'')) 17 s1))\<lparr>ws_close_sent := True\<rparr>
                  else s1);
            s3 = (if ws_handshake s2 \<in> {HsPending, HsAccepting, HsRejecting}
                  then fail_handshake (WSDisconnected code (lit ''server shutdown'')) s2
                  else ws_disconnected code (lit ''server shutdown'') s2)
        in case cancel_handler s3 of
             (Some e, s4) \<Rightarrow> (Some e, s4)
           | (None, s4) \<Rightarrow> (None, ws_signal (ws_writer_task s4) outbox_signal s4))"

end
