(* ===== verification/WS_Tasks.thy ===== *)
theory WS_Tasks
  imports WS_State
begin

text \<open>
  The tasks of one WebSocket connection in \<open>smallserver/websocket.py\<close>: the reader with the reassembly of
  fragmented messages, the writer, the deadlines, the two ways to decide the handshake, and the coordinator's
  last Close. The sends and receives themselves are the transport's.
\<close>

section \<open>Strict UTF-8 decoding\<close>

definition utf8_value :: "nat list \<Rightarrow> nat" where
  "utf8_value ds =
     (case ds of
        [a] \<Rightarrow> a
      | [a, b] \<Rightarrow> (a - 192) * 64 + (b - 128)
      | [a, b, c] \<Rightarrow> (a - 224) * 4096 + (b - 128) * 64 + (c - 128)
      | [a, b, c, d] \<Rightarrow> (a - 240) * 262144 + (b - 128) * 4096 + (c - 128) * 64 + (d - 128)
      | _ \<Rightarrow> 0)"

definition utf8_width :: "nat \<Rightarrow> nat" where
  "utf8_width a = (if a < 128 then 1 else if a < 224 then 2 else if a < 240 then 3 else 4)"

text \<open>A sequence is accepted when it is the encoding of the code point it denotes, so overlong forms, surrogates and
  stray continuation bytes are not.\<close>

definition utf8_next :: "bytes \<Rightarrow> (nat \<times> bytes) option" where
  "utf8_next bs =
     (case bs of
        [] \<Rightarrow> None
      | b # _ \<Rightarrow>
          (let n = utf8_width (unat b); ds = map unat (take n bs); c = utf8_value ds
           in if utf8_char c = Some ds then Some (c, drop n bs) else None))"

function utf8_decode :: "bytes \<Rightarrow> pystr option" where
  "utf8_decode bs =
     (if bs = [] then Some []
      else case utf8_next bs of
             None \<Rightarrow> None
           | Some (c, rest) \<Rightarrow> (case utf8_decode rest of None \<Rightarrow> None | Some cs \<Rightarrow> Some (c # cs)))"
  by pat_completeness auto
termination
  by (relation "measure length")
    (auto simp: utf8_next_def utf8_width_def Let_def split: list.splits if_splits)

declare utf8_decode.simps [simp del]

section \<open>What wsproto reports\<close>

text \<open>One data event, of which \<open>encoded\<close> is \<open>data.encode("utf-8")\<close>, \<open>None\<close> when that raises, or the bytes; the result is
  what it raises.\<close>

definition data_value :: "data_kind \<Rightarrow> bytes \<Rightarrow> ws_data option" where
  "data_value kind buffer =
     (case kind of TextKind \<Rightarrow> map_option TextData (utf8_decode buffer) | BytesKind \<Rightarrow> Some (BytesData buffer))"

definition data_event ::
  "data_kind \<Rightarrow> bytes option \<Rightarrow> bool \<Rightarrow> ('p, 'r, 'e) ws \<Rightarrow> 'e ws_failure option \<times> ('p, 'r, 'e) ws" where
  "data_event kind encoded finished s =
     (let s1 = (case ws_message_kind s of
                  None \<Rightarrow> s\<lparr>ws_message_kind := Some kind, ws_message_buffer := [], ws_message_bytes := 0\<rparr>
                | Some _ \<Rightarrow> s)
      in if ws_message_kind s1 \<noteq> Some kind then (Some WSValue, s1)
         else case encoded of None \<Rightarrow> (Some WSValue, s1) | Some data \<Rightarrow>
           let s2 = s1\<lparr>ws_message_bytes := ws_message_bytes s1 + int (length data)\<rparr>
           in if ws_message_bytes s2 > wc_max_message_bytes (ws_config s2) then (Some WSCapacity, s2)
              else
                let s3 = s2\<lparr>ws_message_buffer := ws_message_buffer s2 @ data\<rparr>
                in if \<not> finished then (None, s3)
                   else case data_value kind (ws_message_buffer s3) of
                          None \<Rightarrow> (Some WSValue, s3)
                        | Some m \<Rightarrow>
                            (let s4 = s3\<lparr>ws_message_kind := None, ws_message_buffer := [], ws_message_bytes := 0\<rparr>
                             in case message_size m of
                                  None \<Rightarrow> (Some WSValue, s4)
                                | Some n \<Rightarrow>
                                    (case deliver_message m n s4 of
                                       (True, s5) \<Rightarrow> (None, s5) | (False, s5) \<Rightarrow> (Some WSCapacity, s5))))"

definition handle_pong :: "bytes \<Rightarrow> ('p, 'r, 'e) ws \<Rightarrow> ('p, 'r, 'e) ws" where
  "handle_pong payload s =
     (case ws_pending_ping s of
        None \<Rightarrow> s
      | Some (_, expected) \<Rightarrow> if payload = expected then clear_pending_ping s else s)"

text \<open>\<open>_close_event_size\<close>; a reason without UTF-8 encoding does not occur in an event.\<close>

definition close_event_size :: "int \<Rightarrow> pystr option \<Rightarrow> nat" where
  "close_event_size code reason =
     (if code = 1005 then 0
      else 2 + (case reason of None \<Rightarrow> 0 | Some r \<Rightarrow> (case utf8_len r of None \<Rightarrow> 0 | Some n \<Rightarrow> n)))"

definition close_reply :: "('p, 'r, 'e) ws_lib \<Rightarrow> int \<Rightarrow> pystr option \<Rightarrow> 'r out_event \<times> nat" where
  "close_reply lib code reason =
     (if code = 1002 then (OutClose 1002 (lit ''protocol error''), close_event_size 1002 (Some (lit ''protocol error'')))
      else if code = 1007 then (OutClose 1007 (lit ''invalid payload''), close_event_size 1007 (Some (lit ''invalid payload'')))
      else (let response = wl_close_response lib code reason
            in (OutResponse response, close_event_size (wl_response_code lib response) (wl_response_reason lib response))))"

definition close_event ::
  "('p, 'r, 'e) ws_lib \<Rightarrow> int \<Rightarrow> pystr option \<Rightarrow> ('p, 'r, 'e) ws \<Rightarrow> 'e ws_failure option \<times> ('p, 'r, 'e) ws" where
  "close_event lib code reason s =
     (let s1 = s\<lparr>ws_peer_closed := True\<rparr>;
          disconnect_reason = (if code = 1002 then lit ''protocol error'' else if code = 1007 then lit ''invalid payload''
                               else (case reason of None \<Rightarrow> [] | Some r \<Rightarrow> r))
      in if ws_close_sent s1 then (None, ws_disconnected code disconnect_reason s1)
         else case close_reply lib code reason of (event, size1) \<Rightarrow>
              case enqueue_control event size1 s1 of
                (False, s2) \<Rightarrow> (Some WSCapacity, s2)
              | (True, s2) \<Rightarrow> (None, ws_disconnected code disconnect_reason (s2\<lparr>ws_close_sent := True\<rparr>)))"

text \<open>\<open>_drain_protocol_events\<close>: what it raises, and else whether the peer has closed.\<close>

fun drain_protocol ::
  "('p, 'r, 'e) ws_lib \<Rightarrow> in_event list \<Rightarrow> ('p, 'r, 'e) ws \<Rightarrow> ('e ws_failure + bool) \<times> ('p, 'r, 'e) ws" where
  "drain_protocol lib [] s = (Inr False, s)"
| "drain_protocol lib (InText t finished # events) s =
     (case data_event TextKind (utf8_encode t) finished s of
        (Some e, s1) \<Rightarrow> (Inl e, s1) | (None, s1) \<Rightarrow> drain_protocol lib events s1)"
| "drain_protocol lib (InBytes b finished # events) s =
     (case data_event BytesKind (Some b) finished s of
        (Some e, s1) \<Rightarrow> (Inl e, s1) | (None, s1) \<Rightarrow> drain_protocol lib events s1)"
| "drain_protocol lib (InPing payload # events) s =
     (case enqueue_control (OutResponse (wl_ping_response lib payload)) (length payload) s of
        (False, s1) \<Rightarrow> (Inl WSCapacity, s1) | (True, s1) \<Rightarrow> drain_protocol lib events s1)"
| "drain_protocol lib (InPong payload # events) s = drain_protocol lib events (handle_pong payload s)"
| "drain_protocol lib (InClose code reason # events) s =
     (case close_event lib code reason s of (Some e, s1) \<Rightarrow> (Inl e, s1) | (None, s1) \<Rightarrow> (Inr True, s1))"
| "drain_protocol lib (InOther # events) s = drain_protocol lib events s"

definition drain_protocol_events ::
  "('p, 'r, 'e) ws_lib \<Rightarrow> ('p, 'r, 'e) ws \<Rightarrow> ('e ws_failure + bool) \<times> ('p, 'r, 'e) ws" where
  "drain_protocol_events lib s =
     (case ws_protocol s of
        None \<Rightarrow> (Inl WSValue, s)
      | Some p \<Rightarrow> (case wl_events lib p of (events, p1) \<Rightarrow> drain_protocol lib events (s\<lparr>ws_protocol := Some p1\<rparr>)))"

section \<open>The reader\<close>

definition protocol_receive ::
  "('p, 'r, 'e) ws_lib \<Rightarrow> bytes option \<Rightarrow> ('p, 'r, 'e) ws \<Rightarrow> 'e ws_failure option \<times> ('p, 'r, 'e) ws" where
  "protocol_receive lib data s =
     (case ws_protocol s of
        None \<Rightarrow> (Some WSValue, s)
      | Some p \<Rightarrow> (case wl_receive lib p data of (err, p1) \<Rightarrow> (err, s\<lparr>ws_protocol := Some p1\<rparr>)))"

fun receive_pieces ::
  "('p, 'r, 'e) ws_lib \<Rightarrow> bytes list \<Rightarrow> ('p, 'r, 'e) ws \<Rightarrow> 'e ws_failure option \<times> ('p, 'r, 'e) ws" where
  "receive_pieces lib [] s = (None, s)"
| "receive_pieces lib (chunk # chunks) s =
     (case protocol_receive lib (Some chunk) s of
        (Some e, s1) \<Rightarrow> (Some e, s1) | (None, s1) \<Rightarrow> receive_pieces lib chunks s1)"

definition receive_protocol_data ::
  "('p, 'r, 'e) ws_lib \<Rightarrow> bytes \<Rightarrow> ('p, 'r, 'e) ws \<Rightarrow> 'e ws_failure option \<times> ('p, 'r, 'e) ws" where
  "receive_protocol_data lib data s =
     (case guard_feed (ws_guard s) data of
        (Inl WebSocketCapacityError, g) \<Rightarrow> (Some WSCapacity, s\<lparr>ws_guard := g\<rparr>)
      | (Inl WebSocketStateError, g) \<Rightarrow> (Some WSState, s\<lparr>ws_guard := g\<rparr>)
      | (Inl WSValueError, g) \<Rightarrow> (Some WSValue, s\<lparr>ws_guard := g\<rparr>)
      | (Inr chunks, g) \<Rightarrow> receive_pieces lib chunks (s\<lparr>ws_guard := g\<rparr>))"

text \<open>The exception handlers of the reader. Cancelling the handler is the last thing they do, so an exit it raises
  only ends the reader with that exit, and the state is what is left.\<close>

definition reader_close :: "int \<Rightarrow> pystr \<Rightarrow> nat \<Rightarrow> ('p, 'r, 'e) ws \<Rightarrow> ('p, 'r, 'e) ws" where
  "reader_close code reason size1 s =
     (if ws_shutdown s then s
      else snd (cancel_handler (ws_disconnected code reason
             ((snd (enqueue_control (OutClose code reason) size1 s))\<lparr>ws_close_sent := True\<rparr>))))"

fun reader_failed :: "'e ws_failure \<Rightarrow> ('p, 'r, 'e) ws \<Rightarrow> ('p, 'r, 'e) ws" where
  "reader_failed WSCapacity s = reader_close 1009 (lit ''message too large'') 19 s"
| "reader_failed (WSExit e) s = snd (cancel_handler (ws_disconnected 1006 [] (s\<lparr>ws_fatal_error := Some (WSExit e)\<rparr>)))"
| "reader_failed _ s = reader_close 1002 (lit ''protocol error'') 16 s"

text \<open>One turn on data, also on the trailing data of the upgrade; the result is whether the reader ends.\<close>

definition reader_data :: "('p, 'r, 'e) ws_lib \<Rightarrow> bytes \<Rightarrow> ('p, 'r, 'e) ws \<Rightarrow> bool \<times> ('p, 'r, 'e) ws" where
  "reader_data lib data s =
     (case receive_protocol_data lib data s of
        (Some e, s1) \<Rightarrow> (True, reader_failed e s1)
      | (None, s1) \<Rightarrow>
          (case drain_protocol_events lib s1 of
             (Inl e, s2) \<Rightarrow> (True, reader_failed e s2) | (Inr closed, s2) \<Rightarrow> (closed, s2)))"

text \<open>Here the handler is cancelled inside the \<open>try\<close>, so an exit it raises is caught by the exception handlers.\<close>

definition reader_eof :: "('p, 'r, 'e) ws_lib \<Rightarrow> ('p, 'r, 'e) ws \<Rightarrow> ('p, 'r, 'e) ws" where
  "reader_eof lib s =
     (case protocol_receive lib None s of
        (Some e, s1) \<Rightarrow> reader_failed e s1
      | (None, s1) \<Rightarrow>
          (case drain_protocol_events lib s1 of
             (Inl e, s2) \<Rightarrow> reader_failed e s2
           | (Inr _, s2) \<Rightarrow>
               (case cancel_handler (ws_disconnected 1006 [] s2) of
                  (Some e, s3) \<Rightarrow> reader_failed e s3 | (None, s3) \<Rightarrow> s3)))"

definition reader_chunk :: "('p, 'r, 'e) ws_lib \<Rightarrow> int \<Rightarrow> bytes \<Rightarrow> ('p, 'r, 'e) ws \<Rightarrow> bool \<times> ('p, 'r, 'e) ws" where
  "reader_chunk lib now chunk s =
     (if chunk = [] then (True, reader_eof lib s) else reader_data lib chunk (s\<lparr>ws_last_activity := now\<rparr>))"

section \<open>The writer\<close>

fun slices :: "nat \<Rightarrow> nat \<Rightarrow> bytes \<Rightarrow> bytes list" where
  "slices 0 n payload = []"
| "slices (Suc fuel) n payload = (if payload = [] then [] else take n payload # slices fuel n (drop n payload))"

text \<open>Taking the next command: what is sent for it, in slices, or what encoding it raised.\<close>

definition writer_take ::
  "('p, 'r, 'e) ws_lib \<Rightarrow> int \<Rightarrow> ('p, 'r, 'e) ws \<Rightarrow> ('r ws_command \<times> ('e ws_failure + bytes list)) option \<times> ('p, 'r, 'e) ws" where
  "writer_take lib now s =
     (case ws_outbox s of
        [] \<Rightarrow> (None, s)
      | c # cs \<Rightarrow>
          let s1 = s\<lparr>ws_outbox := cs, ws_outbox_bytes := ws_outbox_bytes s - int (oc_size c), ws_writer_busy := True,
                     ws_active := Some c, ws_write_deadline := Some (now + wc_write_timeout (ws_config s))\<rparr>
          in case ws_protocol s1 of
               None \<Rightarrow> (Some (c, Inl WSValue), s1)
             | Some p \<Rightarrow>
                 (case wl_send lib p (oc_event c) of
                    (Inl e, p1) \<Rightarrow> (Some (c, Inl e), s1\<lparr>ws_protocol := Some p1\<rparr>)
                  | (Inr payload, p1) \<Rightarrow>
                      (Some (c, Inr (slices (length payload) (nat (wc_write_chunk_bytes (ws_config s1))) payload)),
                       s1\<lparr>ws_protocol := Some p1\<rparr>)))"

text \<open>How the command's send ended; \<open>WriterKilled\<close> is \<open>GeneratorExit\<close>. The \<open>finally\<close> block runs also when cancelling the
  handler raises an exit.\<close>

datatype 'e send_outcome = SentAll int | SendRaised "'e ws_failure" | WriterKilled

definition writer_finish :: "'r ws_command \<Rightarrow> 'e send_outcome \<Rightarrow> ('p, 'r, 'e) ws \<Rightarrow> ('p, 'r, 'e) ws" where
  "writer_finish c outcome s =
     (let s1 = (case outcome of
                  SentAll now \<Rightarrow> s\<lparr>ws_last_activity := now\<rparr>
                | SendRaised e \<Rightarrow>
                    snd (cancel_handler (ws_disconnected 1006 [] (if is_exit e then s\<lparr>ws_fatal_error := Some e\<rparr> else s)))
                | WriterKilled \<Rightarrow> s);
          err = (case outcome of
                   SendRaised e \<Rightarrow> Some e
                 | _ \<Rightarrow> (case map_of (ws_done s) (oc_id c) of Some (Some e) \<Rightarrow> Some e | _ \<Rightarrow> None));
          active = (case ws_active s1 of None \<Rightarrow> None | Some a \<Rightarrow> if oc_id a = oc_id c then None else Some a)
      in finish_command err c (s1\<lparr>ws_writer_busy := False, ws_active := active, ws_write_deadline := None\<rparr>))"

section \<open>The deadlines\<close>

definition begin_deadline_close :: "int \<Rightarrow> pystr \<Rightarrow> int \<Rightarrow> ('p, 'r, 'e) ws \<Rightarrow> 'e ws_failure option \<times> ('p, 'r, 'e) ws" where
  "begin_deadline_close code reason now s =
     (let s1 = (if \<not> ws_close_sent s \<and> ws_protocol s \<noteq> None
                then (snd (enqueue_control (OutClose code reason)
                             (2 + (case utf8_len reason of None \<Rightarrow> 0 | Some n \<Rightarrow> n)) s))\<lparr>ws_close_sent := True\<rparr>
                else s);
          s2 = (case ws_close_deadline s1 of
                  None \<Rightarrow> s1\<lparr>ws_close_deadline := Some (now + wc_close_timeout (ws_config s1))\<rparr> | Some _ \<Rightarrow> s1)
      in cancel_handler (ws_disconnected code reason s2))"

datatype 'e deadline_outcome = DlContinue | DlReject | DlStop | DlRaise "'e ws_failure"

definition expired :: "int \<Rightarrow> int option \<Rightarrow> bool" where
  "expired now deadline = (case deadline of None \<Rightarrow> False | Some d \<Rightarrow> now \<ge> d)"

text \<open>The deadline task stops, with the exit that stopped it.\<close>

definition deadline_stops :: "'e ws_failure option \<times> ('p, 'r, 'e) ws \<Rightarrow> 'e deadline_outcome \<times> ('p, 'r, 'e) ws" where
  "deadline_stops r = (case r of (None, s) \<Rightarrow> (DlStop, s) | (Some e, s) \<Rightarrow> (DlRaise e, s))"

definition abort_connection :: "int \<times> pystr \<Rightarrow> ('p, 'r, 'e) ws \<Rightarrow> 'e ws_failure option \<times> ('p, 'r, 'e) ws" where
  "abort_connection err s =
     (case abort_writer (WSDisconnected (fst err) (snd err)) s of
        (Some e, s1) \<Rightarrow> (Some e, s1)
      | (None, s1) \<Rightarrow>
          (case cancel_handler s1 of
             (Some e, s2) \<Rightarrow> (Some e, s2)
           | (None, s2) \<Rightarrow> (None, ws_disconnected (fst err) (snd err) s2)))"

definition deadline_tick :: "int \<Rightarrow> ('p, 'r, 'e) ws \<Rightarrow> 'e deadline_outcome \<times> ('p, 'r, 'e) ws" where
  "deadline_tick now s =
     (if ws_handshake s \<in> {HsPending, HsAccepting, HsRejecting} then
        (if now - ws_created_at s \<ge> wc_handshake_timeout (ws_config s) then
           (if ws_handshake s = HsPending then (DlReject, s)
            else deadline_stops (cancel_handler (fail_handshake (WSDisconnected 1006 (lit ''handshake timed out'')) s)))
         else (DlContinue, s))
      else
        case (if expired now (ws_pong_deadline s) then begin_deadline_close 1002 (lit ''Pong timeout'') now s
              else if ws_accepted s \<and> now - ws_last_activity s \<ge> wc_idle_timeout (ws_config s)
              then begin_deadline_close 1001 (lit ''idle timeout'') now s else (None, s)) of
          (Some e, s1) \<Rightarrow> (DlRaise e, s1)
        | (None, s1) \<Rightarrow>
            if expired now (ws_write_deadline s1) then deadline_stops (abort_connection (1006, lit ''write timed out'') s1)
            else if expired now (ws_close_deadline s1)
            then deadline_stops
              (abort_connection (case ws_disconnect s1 of None \<Rightarrow> (1006, lit ''close timed out'') | Some d \<Rightarrow> d) s1)
            else (DlContinue, s1))"

section \<open>Deciding the handshake\<close>

text \<open>\<open>_send_http\<close> of the state and \<open>_send_response\<close> of the server: the same response with \<open>Connection: close\<close>.\<close>

definition closing_payload :: "response \<Rightarrow> py_error + bytes" where
  "closing_payload r =
     bind_sum (headers_init (filter (\<lambda>e. py_lower (fst e) \<noteq> lit ''connection'') (headers_items (resp_headers r)) @
                 [(lit ''Connection'', lit ''close'')]))
       (\<lambda>h. bind_sum (response_init (resp_status r) (resp_body r) h) to_http1)"

definition ws_accept ::
  "('p, 'r, 'e) ws_lib \<Rightarrow> (bytes \<Rightarrow> bytes) \<Rightarrow> request \<Rightarrow> 'h ws_route \<Rightarrow> pystr option \<Rightarrow> (pystr \<times> pystr) list \<Rightarrow>
   ('p, 'r, 'e) ws \<Rightarrow> ('e ws_failure + accept_error + bytes) \<times> ('p, 'r, 'e) ws" where
  "ws_accept lib sha1 r route subprotocol headers s =
     (if ws_cursor s = None then (Inl WSState, s)
      else if ws_handshake s \<noteq> HsPending then (Inr (Inl AlreadyDecided), s)
      else case accept_payload sha1 r route subprotocol headers of
             Inl e \<Rightarrow> (Inr (Inl e), s)
           | Inr payload \<Rightarrow> (Inr (Inr payload), s\<lparr>ws_handshake := HsAccepting, ws_protocol := Some (wl_new lib)\<rparr>))"

definition accept_sent :: "int \<Rightarrow> pystr option \<Rightarrow> ('p, 'r, 'e) ws \<Rightarrow> ('p, 'r, 'e) ws" where
  "accept_sent now subprotocol s =
     ws_signal (ws_coordinator_task s) decision_signal
       (s\<lparr>ws_subprotocol := subprotocol, ws_accepted := True, ws_handshake := HsAccepted, ws_last_activity := now\<rparr>)"

datatype 'e reject_result = RejectFails "'e ws_failure" | RejectSends bytes

definition ws_reject :: "response \<Rightarrow> ('p, 'r, 'e) ws \<Rightarrow> 'e reject_result \<times> ('p, 'r, 'e) ws" where
  "ws_reject r s =
     (if ws_cursor s = None \<or> ws_handshake s \<noteq> HsPending then (RejectFails WSState, s)
      else if resp_status r < 300 then (RejectFails WSValue, s)
      else
        let s1 = s\<lparr>ws_handshake := HsRejecting\<rparr>
        in case closing_payload r of
             Inl e \<Rightarrow> (RejectFails WSValue, fail_handshake WSValue s1)
           | Inr payload \<Rightarrow> (RejectSends payload, s1))"

definition reject_sent :: "('p, 'r, 'e) ws \<Rightarrow> ('p, 'r, 'e) ws" where
  "reject_sent s =
     ws_signal (ws_coordinator_task s) decision_signal (s\<lparr>ws_rejected := True, ws_handshake := HsRejected\<rparr>)"

section \<open>The coordinator\<close>

definition coordinator_begun :: "nat \<Rightarrow> nat \<Rightarrow> ('p, 'r, 'e) ws \<Rightarrow> ('p, 'r, 'e) ws" where
  "coordinator_begun task handler s = s\<lparr>ws_coordinator_task := Some task, ws_handler_task := Some handler\<rparr>"

definition writer_begun :: "nat \<Rightarrow> ('p, 'r, 'e) ws \<Rightarrow> ('p, 'r, 'e) ws" where
  "writer_begun task s = s\<lparr>ws_writer_task := Some task\<rparr>"

text \<open>The Close the coordinator sends when the handler has ended; \<open>None\<close> when it sends none.\<close>

definition coordinator_close ::
  "bool \<Rightarrow> int \<Rightarrow> ('p, 'r, 'e) ws \<Rightarrow> ('e ws_failure + nat) option \<times> ('p, 'r, 'e) ws" where
  "coordinator_close handler_failed now s =
     (if ws_close_sent s then (None, s)
      else if handler_failed then
        (case enqueue (OutClose 1011 (lit ''handler failed'')) 16
                (s\<lparr>ws_close_deadline := Some (now + wc_close_timeout (ws_config s))\<rparr>) of (r, s1) \<Rightarrow> (Some r, s1))
      else if ws_disconnect s = None then
        (case enqueue (OutClose 1000 []) 2
                (s\<lparr>ws_close_deadline := Some (now + wc_close_timeout (ws_config s))\<rparr>) of (r, s1) \<Rightarrow> (Some r, s1))
      else (None, s))"

definition coordinator_close_sent :: "('p, 'r, 'e) ws \<Rightarrow> ('p, 'r, 'e) ws" where
  "coordinator_close_sent s = s\<lparr>ws_close_sent := True\<rparr>"

definition coordinator_waits :: "int \<Rightarrow> int \<Rightarrow> ('p, 'r, 'e) ws \<Rightarrow> bool" where
  "coordinator_waits now deadline s = ((ws_outbox s \<noteq> [] \<or> ws_writer_busy s \<or> \<not> ws_peer_closed s) \<and> now < deadline)"

text \<open>The response of a handler that ended without deciding.\<close>

definition undecided_response :: "bool \<Rightarrow> py_error + response" where
  "undecided_response handler_failed =
     response_text (if handler_failed then lit ''internal server error'' else lit ''forbidden'')
       (if handler_failed then 500 else 403) []"

end
