(* ===== verification/WS_Mailboxes.thy ===== *)
theory WS_Mailboxes
  imports WS_Tasks "HOL-Library.Sublist"
begin

text \<open>
  The two mailboxes of a WebSocket connection over every run of its tasks: they stay inside their bounds, the byte
  counters are exact, no command of a sender is lost, and the application receives the peer's messages
  reassembled and in order.
\<close>

section \<open>The two halves of the state\<close>

definition same_in :: "('p, 'r, 'e) ws \<Rightarrow> ('p, 'r, 'e) ws \<Rightarrow> bool" where
  "same_in s s' = (ws_config s' = ws_config s \<and> ws_inbox s' = ws_inbox s \<and> ws_inbox_bytes s' = ws_inbox_bytes s \<and>
     ws_message_kind s' = ws_message_kind s \<and> ws_message_buffer s' = ws_message_buffer s \<and>
     ws_message_bytes s' = ws_message_bytes s)"

definition same_out :: "('p, 'r, 'e) ws \<Rightarrow> ('p, 'r, 'e) ws \<Rightarrow> bool" where
  "same_out s s' = (ws_config s' = ws_config s \<and> ws_outbox s' = ws_outbox s \<and> ws_outbox_bytes s' = ws_outbox_bytes s \<and>
     ws_writer_busy s' = ws_writer_busy s \<and> ws_active s' = ws_active s \<and> ws_next_command s' = ws_next_command s \<and>
     ws_done s' = ws_done s)"

text \<open>Neither mailbox is touched.\<close>

definition aside :: "('p, 'r, 'e) ws \<Rightarrow> ('p, 'r, 'e) ws \<Rightarrow> bool" where
  "aside s s' = (same_in s s' \<and> same_out s s')"

lemma aside_refl [simp]: "aside s s"
  by (simp add: aside_def same_in_def same_out_def)

lemma aside_trans: "aside s s1 \<Longrightarrow> aside s1 s2 \<Longrightarrow> aside s s2"
  by (simp add: aside_def same_in_def same_out_def)

lemma same_in_trans: "same_in s s1 \<Longrightarrow> same_in s1 s2 \<Longrightarrow> same_in s s2"
  by (simp add: same_in_def)

lemma aside_signal [simp]: "aside s (ws_signal t n s)"
  by (simp add: ws_signal_def aside_def same_in_def same_out_def split: option.split)

lemma aside_cancel [simp]: "aside s (snd (ws_cancel_task t s))"
  by (simp add: ws_cancel_task_def aside_def same_in_def same_out_def Let_def split: option.split)

lemma aside_cancel_handler [simp]: "aside s (snd (cancel_handler s))"
  by (simp add: cancel_handler_def)

lemma aside_disconnected [simp]: "aside s (ws_disconnected code reason s)"
proof -
  define s1 where "s1 = (case ws_disconnect s of None \<Rightarrow> s\<lparr>ws_disconnect := Some (code, reason)\<rparr> | Some _ \<Rightarrow> s)"
  have one: "aside s s1" by (simp add: s1_def aside_def same_in_def same_out_def split: option.split)
  have "aside s1 (ws_signal (ws_coordinator_task s1) decision_signal (ws_signal (ws_handler_task s1) inbox_signal s1))"
    by (rule aside_trans [OF aside_signal aside_signal])
  then show ?thesis using aside_trans [OF one] by (simp add: ws_disconnected_def Let_def s1_def)
qed

lemma aside_fail_handshake [simp]: "aside s (fail_handshake e s)"
proof (cases "ws_handshake s = HsFailed")
  case False
  define s1 where "s1 = s\<lparr>ws_accepted := False, ws_rejected := False, ws_protocol := None, ws_handshake := HsFailed,
    ws_handshake_error := Some e\<rparr>"
  define s2 where "s2 = (if is_exit e then s1\<lparr>ws_fatal_error := Some e\<rparr> else s1)"
  have "aside s s2" by (simp add: s1_def s2_def aside_def same_in_def same_out_def)
  then have "aside s (ws_disconnected 1006 [] s2)" by (rule aside_trans) simp
  moreover have "fail_handshake e s = ws_disconnected 1006 [] s2"
    using False by (simp add: fail_handshake_def Let_def s1_def s2_def)
  ultimately show ?thesis by simp
qed (simp add: fail_handshake_def)

section \<open>The outbound mailbox\<close>

definition out_ok :: "('p, 'r, 'e) ws \<Rightarrow> bool" where
  "out_ok s =
     (ws_outbox_bytes s = (\<Sum>c \<leftarrow> ws_outbox s. int (oc_size c)) \<and> ws_outbox_bytes s \<le> wc_max_outbound_bytes (ws_config s) \<and>
      int (length (ws_outbox s)) \<le> wc_max_outbound_commands (ws_config s) \<and> (ws_writer_busy s \<longleftrightarrow> ws_active s \<noteq> None) \<and>
      {0..<ws_next_command s} \<subseteq> oc_id ` set (ws_outbox s) \<union> oc_id ` set_option (ws_active s) \<union> fst ` set (ws_done s))"

lemma out_ok_same: "same_out s s' \<Longrightarrow> out_ok s \<Longrightarrow> out_ok s'"
  by (simp add: same_out_def out_ok_def)

lemma out_ok_aside: "aside s s' \<Longrightarrow> out_ok s \<Longrightarrow> out_ok s'"
  by (auto simp: aside_def intro: out_ok_same)

text \<open>What an operation on the outbox does to both halves.\<close>

definition out_step :: "('p, 'r, 'e) ws \<Rightarrow> ('p, 'r, 'e) ws \<Rightarrow> bool" where
  "out_step s s' = (same_in s s' \<and> (out_ok s \<longrightarrow> out_ok s'))"

lemma out_step_trans: "out_step s s1 \<Longrightarrow> out_step s1 s2 \<Longrightarrow> out_step s s2"
  by (auto simp: out_step_def intro: same_in_trans)

lemma out_step_aside: "aside s s' \<Longrightarrow> out_step s s'"
  by (auto simp: out_step_def aside_def intro: out_ok_same)

lemma push_command_step: "\<not> outbox_full size1 s \<Longrightarrow> out_step s (push_command event size1 waiter s)"
proof -
  assume room: "\<not> outbox_full size1 s"
  let ?c = "\<lparr>oc_id = ws_next_command s, oc_event = event, oc_size = size1, oc_waiter = waiter\<rparr>"
  define s1 where "s1 = s\<lparr>ws_outbox := ws_outbox s @ [?c], ws_outbox_bytes := ws_outbox_bytes s + int size1,
    ws_next_command := Suc (ws_next_command s)\<rparr>"
  have "same_in s s1" by (simp add: s1_def same_in_def)
  moreover have "out_ok s1" if "out_ok s"
  proof -
    have "{0..<Suc (ws_next_command s)} = insert (ws_next_command s) {0..<ws_next_command s}" by auto
    then show ?thesis using that room by (auto simp: out_ok_def outbox_full_def s1_def)
  qed
  ultimately have "out_step s s1" by (simp add: out_step_def)
  from out_step_trans [OF this out_step_aside [OF aside_signal]] show ?thesis by (simp add: push_command_def s1_def)
qed

lemma enqueue_step: "enqueue event size1 s = (r, s') \<Longrightarrow> out_step s s'"
  using push_command_step [of size1 s event] out_step_aside [OF aside_refl, of s]
  by (auto simp: enqueue_def split: if_splits option.splits)

lemma enqueue_control_step: "out_step s (snd (enqueue_control event size1 s))"
  using push_command_step [of size1 s event None] out_step_aside [OF aside_refl, of s]
  by (simp add: enqueue_control_def)

lemma finish_command_done: "fst ` set (ws_done (finish_command err c s)) = insert (oc_id c) (fst ` set (ws_done s))"
  by (simp add: finish_command_def ws_signal_def split: option.split)

lemma finish_command_rest:
  "same_in s (finish_command err c s)" "ws_outbox (finish_command err c s) = ws_outbox s"
  "ws_outbox_bytes (finish_command err c s) = ws_outbox_bytes s" "ws_writer_busy (finish_command err c s) = ws_writer_busy s"
  "ws_active (finish_command err c s) = ws_active s" "ws_next_command (finish_command err c s) = ws_next_command s"
  by (simp_all add: finish_command_def ws_signal_def same_in_def split: option.split)

lemma fail_commands_rest:
  "same_in s (fail_commands err cs seen s) \<and> ws_outbox (fail_commands err cs seen s) = ws_outbox s \<and>
   ws_outbox_bytes (fail_commands err cs seen s) = ws_outbox_bytes s \<and>
   ws_writer_busy (fail_commands err cs seen s) = ws_writer_busy s \<and> ws_active (fail_commands err cs seen s) = ws_active s \<and>
   ws_next_command (fail_commands err cs seen s) = ws_next_command s"
proof (induction err cs seen s rule: fail_commands.induct)
  case (2 err c cs seen s)
  then show ?case
    using finish_command_rest [where s = s and err = "Some err" and c = c] same_in_trans [of s "finish_command (Some err) c s"] by simp
qed (simp add: same_in_def)

lemma fail_commands_done:
  "set seen \<subseteq> fst ` set (ws_done s) \<Longrightarrow>
     oc_id ` set cs \<union> fst ` set (ws_done s) \<subseteq> fst ` set (ws_done (fail_commands err cs seen s))"
proof (induction err cs seen s rule: fail_commands.induct)
  case (2 err c cs seen s)
  show ?case
  proof (cases "oc_id c \<in> set seen")
    case True
    then show ?thesis using 2 by auto
  next
    case False
    have "set (oc_id c # seen) \<subseteq> fst ` set (ws_done (finish_command (Some err) c s))"
      using "2.prems" finish_command_done [of "Some err" c s] by auto
    from "2.IH"(2) [OF False this] show ?thesis using False finish_command_done [of "Some err" c s] by simp
  qed
qed simp

text \<open>Every sender that waited is answered.\<close>

lemma fail_outbound_done:
  "oc_id ` set (ws_outbox s) \<union> oc_id ` set_option (ws_active s) \<union> fst ` set (ws_done s) \<subseteq>
     fst ` set (ws_done (fail_outbound err s))"
proof -
  let ?cs = "(case ws_active s of None \<Rightarrow> [] | Some c \<Rightarrow> [c]) @ ws_outbox s"
  have "oc_id ` set ?cs \<union> fst ` set (ws_done s) \<subseteq> fst ` set (ws_done (fail_outbound err s))"
    using fail_commands_done [of "[]" "s\<lparr>ws_outbox := [], ws_outbox_bytes := 0\<rparr>" ?cs err] by (simp add: fail_outbound_def)
  moreover have "set_option (ws_active s) \<subseteq> set ?cs" by (cases "ws_active s") auto
  ultimately show ?thesis by auto
qed

lemma fail_outbound_rest:
  "same_in s (fail_outbound err s) \<and> ws_outbox (fail_outbound err s) = [] \<and> ws_outbox_bytes (fail_outbound err s) = 0 \<and>
   ws_writer_busy (fail_outbound err s) = ws_writer_busy s \<and> ws_active (fail_outbound err s) = ws_active s \<and>
   ws_next_command (fail_outbound err s) = ws_next_command s"
  using fail_commands_rest [of "s\<lparr>ws_outbox := [], ws_outbox_bytes := 0\<rparr>" err] by (simp add: fail_outbound_def same_in_def)

lemma fail_outbound_step:
  assumes "0 \<le> wc_max_outbound_commands (ws_config s)" and "0 \<le> wc_max_outbound_bytes (ws_config s)"
  shows "out_step s (fail_outbound err s)"
proof -
  note rest = fail_outbound_rest [of s err] and all_done = fail_outbound_done [of s err]
  have "out_ok (fail_outbound err s)" if "out_ok s"
  proof -
    have "{0..<ws_next_command s} \<subseteq> fst ` set (ws_done (fail_outbound err s))"
      using that all_done unfolding out_ok_def by (meson order.trans)
    then show ?thesis using that rest assms by (auto simp: out_ok_def same_in_def)
  qed
  then show ?thesis using rest by (simp add: out_step_def)
qed

lemma writer_take_step:
  assumes "\<not> ws_writer_busy s"
  shows "out_step s (snd (writer_take lib now s))"
proof (cases "ws_outbox s")
  case Nil
  then show ?thesis using out_step_aside [OF aside_refl] by (simp add: writer_take_def)
next
  case (Cons c cs)
  define s1 where "s1 = s\<lparr>ws_outbox := cs, ws_outbox_bytes := ws_outbox_bytes s - int (oc_size c), ws_writer_busy := True,
    ws_active := Some c, ws_write_deadline := Some (now + wc_write_timeout (ws_config s))\<rparr>"
  have "out_ok s1" if "out_ok s"
    using that Cons assms by (auto simp: out_ok_def s1_def)
  then have one: "out_step s s1" by (simp add: out_step_def same_in_def s1_def)
  have "aside s1 (snd (writer_take lib now s))"
    using Cons by (auto simp: writer_take_def s1_def [symmetric] Let_def aside_def same_in_def same_out_def
        split: option.split prod.split sum.split)
  from out_step_trans [OF one out_step_aside [OF this]] show ?thesis .
qed

lemma writer_finish_step:
  assumes "ws_active s = Some c"
  shows "out_step s (writer_finish c outcome s)"
proof -
  define s1 where "s1 = (case outcome of
      SentAll now \<Rightarrow> s\<lparr>ws_last_activity := now\<rparr>
    | SendRaised e \<Rightarrow> snd (cancel_handler (ws_disconnected 1006 [] (if is_exit e then s\<lparr>ws_fatal_error := Some e\<rparr> else s)))
    | WriterKilled \<Rightarrow> s)"
  define s2 where "s2 = s1\<lparr>ws_writer_busy := False, ws_active := None, ws_write_deadline := None\<rparr>"
  have "aside s s1"
  proof (cases outcome)
    case (SendRaised e)
    let ?s = "if is_exit e then s\<lparr>ws_fatal_error := Some e\<rparr> else s"
    have "aside s ?s" by (simp add: aside_def same_in_def same_out_def)
    from aside_trans [OF aside_trans [OF this aside_disconnected] aside_cancel_handler] SendRaised show ?thesis
      by (simp add: s1_def)
  qed (simp_all add: s1_def aside_def same_in_def same_out_def)
  then have one: "same_in s s1" "same_out s s1" by (simp_all add: aside_def)
  obtain err where fin: "writer_finish c outcome s = finish_command err c s2"
    using one(2) assms by (simp add: writer_finish_def Let_def s1_def [symmetric] s2_def same_out_def)
  have s2: "same_in s s2" using one(1) by (simp add: s2_def same_in_def)
  have "out_ok (finish_command err c s2)" if "out_ok s"
    using that one assms finish_command_rest [where s = s2 and err = err and c = c] finish_command_done [of err c s2]
    by (auto simp: out_ok_def s2_def same_out_def same_in_def)
  then show ?thesis unfolding fin out_step_def using same_in_trans [OF s2 finish_command_rest(1)] by blast
qed

end
