(* ===== verification/WS_Messages.thy ===== *)
theory WS_Messages
  imports WS_Mailboxes
begin

text \<open>
  The inbound side: the reassembly of fragmented messages against a reference that knows nothing of buffers,
  UTF-8 or limits, and the bounds of the inbox and of the reassembly buffer.
\<close>

section \<open>Decoding inverts encoding\<close>

lemma div_mod_64: "c div 4096 * 4096 + c div 64 mod 64 * 64 + c mod 64 = (c :: nat)"
proof -
  have "c div 4096 = c div 64 div 64" by (simp flip: div_mult2_eq)
  then have "c div 64 = c div 4096 * 64 + c div 64 mod 64" using div_mult_mod_eq [of "c div 64" 64] by linarith
  then show ?thesis using div_mult_mod_eq [of c 64] by linarith
qed

lemma div_mod_4096: "c div 262144 * 262144 + c div 4096 mod 64 * 4096 + c div 64 mod 64 * 64 + c mod 64 = (c :: nat)"
proof -
  have "c div 262144 = c div 4096 div 64" by (simp flip: div_mult2_eq)
  then have "c div 4096 = c div 262144 * 64 + c div 4096 mod 64" using div_mult_mod_eq [of "c div 4096" 64] by linarith
  then show ?thesis using div_mod_64 [of c] by linarith
qed

lemma utf8_char_value:
  assumes "utf8_char c = Some ds"
  shows "utf8_value ds = c \<and> ds \<noteq> [] \<and> utf8_width (hd ds) = length ds \<and> (\<forall>d \<in> set ds. d < 256)"
proof -
  consider (one) "c < 128" "ds = [c]" | (two) "128 \<le> c" "c < 2048" "ds = [192 + c div 64, 128 + c mod 64]"
    | (three) "2048 \<le> c" "c < 65536" "ds = [224 + c div 4096, 128 + c div 64 mod 64, 128 + c mod 64]"
    | (four) "65536 \<le> c" "c < 1114112" "ds = [240 + c div 262144, 128 + c div 4096 mod 64, 128 + c div 64 mod 64, 128 + c mod 64]"
    using assms by (auto simp: utf8_char_def split: if_splits)
  then show ?thesis
  proof cases
    case two
    then show ?thesis by (auto simp: utf8_value_def utf8_width_def)
  next
    case three
    then have "c div 4096 < 16" by (simp add: less_mult_imp_div_less)
    with three show ?thesis using div_mod_64 [of c] by (auto simp: utf8_value_def utf8_width_def)
  next
    case four
    then have "c div 262144 < 5" by (simp add: less_mult_imp_div_less)
    with four show ?thesis using div_mod_4096 [of c] by (auto simp: utf8_value_def utf8_width_def)
  qed (auto simp: utf8_value_def utf8_width_def)
qed

lemma utf8_next_char:
  assumes "utf8_char c = Some ds"
  shows "utf8_next (map of_nat ds @ rest) = Some (c, rest)"
proof -
  note v = utf8_char_value [OF assms]
  have unats: "map unat (map of_nat ds :: bytes) = ds"
    using v by (simp add: unat_of_nat_byte map_idI)
  obtain d ds' where ds: "ds = d # ds'" using v by (cases ds) auto
  have d: "unat (of_nat d :: byte) = d" using v ds by (simp add: unat_of_nat_byte)
  have "take (length ds) (map of_nat ds @ rest) = (map of_nat ds :: bytes)" "drop (length ds) (map of_nat ds @ rest) = rest"
    by simp_all
  then show ?thesis
    using v unats d assms unfolding utf8_next_def by (simp add: ds Let_def)
qed

lemma utf8_decode_encode: "utf8_encode s = Some bs \<Longrightarrow> utf8_decode bs = Some s"
proof (induction s arbitrary: bs)
  case Nil
  then show ?case by (simp add: utf8_decode.simps)
next
  case (Cons c cs)
  then obtain ds rest where c: "utf8_char c = Some ds" and rest: "utf8_encode cs = Some rest" "bs = map of_nat ds @ rest"
    by (auto split: option.splits)
  have "bs \<noteq> []" using utf8_char_value [OF c] rest(2) by simp
  then show ?case using utf8_next_char [OF c, of rest] Cons.IH [OF rest(1)] rest(2) by (subst utf8_decode.simps) simp
qed

section \<open>The reference\<close>

text \<open>Adding a fragment to what is pending; \<open>None\<close> when the kind changes inside a message.\<close>

fun add_fragment :: "ws_data option \<Rightarrow> ws_data \<Rightarrow> ws_data option" where
  "add_fragment None m = Some m"
| "add_fragment (Some (TextData a)) (TextData b) = Some (TextData (a @ b))"
| "add_fragment (Some (BytesData a)) (BytesData b) = Some (BytesData (a @ b))"
| "add_fragment _ _ = None"

text \<open>The complete messages of an event sequence up to a Close, and what is pending at its end.\<close>

fun assembled :: "ws_data option \<Rightarrow> in_event list \<Rightarrow> ws_data list \<times> ws_data option" where
  "assembled p [] = ([], p)"
| "assembled p (InText t finished # es) =
     (case add_fragment p (TextData t) of
        None \<Rightarrow> ([], p)
      | Some m \<Rightarrow> if finished then (case assembled None es of (ms, q) \<Rightarrow> (m # ms, q)) else assembled (Some m) es)"
| "assembled p (InBytes b finished # es) =
     (case add_fragment p (BytesData b) of
        None \<Rightarrow> ([], p)
      | Some m \<Rightarrow> if finished then (case assembled None es of (ms, q) \<Rightarrow> (m # ms, q)) else assembled (Some m) es)"
| "assembled p (InClose code reason # es) = ([], p)"
| "assembled p (_ # es) = assembled p es"

text \<open>The reassembly fields hold the pending message.\<close>

definition holds :: "ws_data option \<Rightarrow> ('p, 'r, 'e) ws \<Rightarrow> bool" where
  "holds p s =
     (case p of
        None \<Rightarrow> ws_message_kind s = None
      | Some (TextData t) \<Rightarrow> ws_message_kind s = Some TextKind \<and> utf8_encode t = Some (ws_message_buffer s)
      | Some (BytesData b) \<Rightarrow> ws_message_kind s = Some BytesKind \<and> ws_message_buffer s = b)"

lemma holds_same_in: "same_in s s' \<Longrightarrow> holds p s \<Longrightarrow> holds p s'"
  by (simp add: same_in_def holds_def split: option.splits ws_data.splits)

section \<open>The inbound books\<close>

definition stored :: "ws_data \<Rightarrow> int" where
  "stored m = (case message_size m of None \<Rightarrow> 0 | Some n \<Rightarrow> int n)"

definition in_ok :: "('p, 'r, 'e) ws \<Rightarrow> bool" where
  "in_ok s =
     (ws_inbox_bytes s = (\<Sum>m \<leftarrow> ws_inbox s. stored m) \<and> ws_inbox_bytes s \<le> wc_max_inbound_bytes (ws_config s) \<and>
      int (length (ws_inbox s)) \<le> wc_max_inbound_messages (ws_config s) \<and>
      int (length (ws_message_buffer s)) \<le> wc_max_message_bytes (ws_config s) \<and>
      int (length (ws_message_buffer s)) \<le> ws_message_bytes s)"

lemma in_ok_same: "same_in s s' \<Longrightarrow> in_ok s \<Longrightarrow> in_ok s'"
  by (simp add: same_in_def in_ok_def)

lemma stored_nonneg: "0 \<le> stored m"
  by (simp add: stored_def split: option.split)

text \<open>What an operation on the inbox does: \<open>ms\<close> are the messages it puts in.\<close>

definition in_step :: "ws_data list \<Rightarrow> ('p, 'r, 'e) ws \<Rightarrow> ('p, 'r, 'e) ws \<Rightarrow> bool" where
  "in_step ms s s' = (ws_config s' = ws_config s \<and> ws_inbox s' = ws_inbox s @ ms \<and> (out_ok s \<longrightarrow> out_ok s') \<and>
     (0 \<le> wc_max_message_bytes (ws_config s) \<and> in_ok s \<longrightarrow> in_ok s'))"

lemma in_step_trans: "in_step ms s s1 \<Longrightarrow> in_step ms' s1 s2 \<Longrightarrow> in_step (ms @ ms') s s2"
  by (simp add: in_step_def)

lemma in_step_out: "out_step s s' \<Longrightarrow> in_step [] s s'"
  by (auto simp: out_step_def in_step_def same_in_def intro: in_ok_same)

lemma in_step_aside: "aside s s' \<Longrightarrow> in_step [] s s'"
  by (intro in_step_out out_step_aside)

lemma deliver_step:
  assumes run: "deliver_message m n s = (ok, s')" and size: "message_size m = Some n"
  shows "in_step (if ok then [m] else []) s s' \<and> ws_message_kind s' = ws_message_kind s"
proof (cases ok)
  case False
  then have "s' = s" using run by (auto simp: deliver_message_def split: if_splits)
  then show ?thesis using False by (simp add: in_step_def)
next
  case True
  define s1 where "s1 = s\<lparr>ws_inbox := ws_inbox s @ [m], ws_inbox_bytes := ws_inbox_bytes s + int n\<rparr>"
  have room: "int (length (ws_inbox s)) < wc_max_inbound_messages (ws_config s)"
    "ws_inbox_bytes s + int n \<le> wc_max_inbound_bytes (ws_config s)" and s': "s' = ws_signal (ws_handler_task s) inbox_signal s1"
    using run True by (auto simp: deliver_message_def s1_def split: if_splits)
  have "in_step [m] s s1"
    using room size by (auto simp: in_step_def in_ok_def out_ok_def s1_def stored_def)
  moreover have after: "aside s1 s'" by (simp add: s')
  ultimately have "in_step [m] s s'"
    using in_step_trans [of "[m]" s s1 "[]" s'] in_step_aside [OF after] by simp
  then show ?thesis using True after by (simp add: aside_def same_in_def s1_def)
qed

definition kind_of :: "ws_data \<Rightarrow> data_kind" where
  "kind_of m = (case m of TextData _ \<Rightarrow> TextKind | BytesData _ \<Rightarrow> BytesKind)"

definition encoded :: "ws_data \<Rightarrow> bytes option" where
  "encoded m = (case m of TextData t \<Rightarrow> utf8_encode t | BytesData b \<Rightarrow> Some b)"

lemma holds_iff:
  "holds p s \<longleftrightarrow> (case p of None \<Rightarrow> ws_message_kind s = None
     | Some m \<Rightarrow> ws_message_kind s = Some (kind_of m) \<and> encoded m = Some (ws_message_buffer s))"
  by (auto simp: holds_def kind_of_def encoded_def split: option.split ws_data.split)

lemma add_fragment_encoded:
  assumes "encoded m = Some data" and "case p of None \<Rightarrow> before = [] | Some q \<Rightarrow> kind_of q = kind_of m \<and> encoded q = Some before"
  shows "\<exists>m'. add_fragment p m = Some m' \<and> kind_of m' = kind_of m \<and> encoded m' = Some (before @ data)"
  using assms
  by (cases p; cases m; cases "the p") (auto simp: kind_of_def encoded_def utf8_encode_append)

lemma data_value_encoded: "encoded m = Some data \<Longrightarrow> data_value (kind_of m) data = Some m"
  by (cases m) (auto simp: encoded_def kind_of_def data_value_def utf8_decode_encode)

lemma message_size_encoded: "encoded m = Some data \<Longrightarrow> message_size m = Some (length data)"
  by (cases m) (auto simp: encoded_def message_size_def utf8_len_def)

text \<open>One data event against the reference.\<close>

lemma data_event_step:
  assumes holds: "holds p s" and run: "data_event (kind_of m) (encoded m) finished s = (err, s')"
  shows "case err of
      Some e \<Rightarrow> in_step [] s s'
    | None \<Rightarrow> \<exists>m'. add_fragment p m = Some m' \<and>
        (if finished then in_step [m'] s s' \<and> holds None s' else in_step [] s s' \<and> holds (Some m') s')"
proof -
  define s1 where "s1 = (case ws_message_kind s of
      None \<Rightarrow> s\<lparr>ws_message_kind := Some (kind_of m), ws_message_buffer := [], ws_message_bytes := 0\<rparr> | Some _ \<Rightarrow> s)"
  have s1: "in_step [] s s1"
    by (auto simp: s1_def in_step_def in_ok_def out_ok_def split: option.split)
  note run1 = run [unfolded data_event_def Let_def, folded s1_def]
  show ?thesis
  proof (cases "ws_message_kind s1 = Some (kind_of m)")
    case False
    then show ?thesis using run1 s1 by auto
  next
    case True
    have before: "case p of None \<Rightarrow> ws_message_buffer s1 = [] | Some q \<Rightarrow> kind_of q = kind_of m \<and> encoded q = Some (ws_message_buffer s1)"
      using holds True by (cases p) (auto simp: holds_iff s1_def)
    show ?thesis
    proof (cases "encoded m")
      case None
      then show ?thesis using run1 True s1 by auto
    next
      case (Some data)
      obtain m' where m': "add_fragment p m = Some m'" "kind_of m' = kind_of m" "encoded m' = Some (ws_message_buffer s1 @ data)"
        using add_fragment_encoded [OF Some before] by blast
      define s2 where "s2 = s1\<lparr>ws_message_bytes := ws_message_bytes s1 + int (length data)\<rparr>"
      define s3 where "s3 = s2\<lparr>ws_message_buffer := ws_message_buffer s2 @ data\<rparr>"
      define s4 where "s4 = s3\<lparr>ws_message_kind := None, ws_message_buffer := [], ws_message_bytes := 0\<rparr>"
      show ?thesis
      proof (cases "ws_message_bytes s2 > wc_max_message_bytes (ws_config s2)")
        case big: True
        have "in_step [] s1 s2" by (auto simp: in_step_def in_ok_def out_ok_def s2_def)
        moreover have "err = Some WSCapacity" "s' = s2" using run1 True Some big by (simp_all add: s2_def)
        ultimately show ?thesis using in_step_trans [OF s1, of "[]" s2] by simp
      next
        case small: False
        have three: "in_step [] s s3"
          using in_step_trans [OF s1, of "[]" s3] small
          by (auto simp: in_step_def in_ok_def out_ok_def s2_def s3_def)
        have h3: "holds (Some m') s3" using True m' by (simp add: holds_iff s2_def s3_def)
        show ?thesis
        proof (cases finished)
          case f: False
          then have "err = None" "s' = s3" using run1 True Some small by (simp_all add: s2_def s3_def)
          then show ?thesis using m'(1) three h3 f by simp
        next
          case f: True
          have "in_step [] s3 s4" by (auto simp: in_step_def in_ok_def out_ok_def s4_def)
          from in_step_trans [OF three this] have four: "in_step [] s s4" by simp
          obtain ok s5 where d: "deliver_message m' (length (ws_message_buffer s3)) s4 = (ok, s5)" by fastforce
          have enc: "encoded m' = Some (ws_message_buffer s3)" using m'(3) by (simp add: s2_def s3_def)
          have r: "err = (if ok then None else Some WSCapacity)" "s' = s5"
            using run1 True Some small f data_value_encoded [OF enc] message_size_encoded [OF enc] d m'(2)
            by (auto simp: s2_def s3_def s4_def split: bool.splits)
          have five: "in_step (if ok then [m'] else []) s4 s5" "ws_message_kind s5 = None"
            using deliver_step [OF d message_size_encoded [OF enc]] by (simp_all add: s4_def)
          have "in_step (if ok then [m'] else []) s s'" using in_step_trans [OF four five(1)] r(2) by simp
          then show ?thesis using m'(1) f r five(2) by (cases ok) (simp_all add: holds_iff)
        qed
      qed
    qed
  qed
qed

section \<open>Draining\<close>

lemma clear_pending_aside: "aside s (clear_pending_ping s)"
  by (simp add: clear_pending_ping_def aside_def same_in_def same_out_def)

lemma handle_pong_aside: "aside s (handle_pong payload s)"
  by (auto simp: handle_pong_def clear_pending_aside split: option.split)

lemma enqueue_control_in: "enqueue_control event n s = (ok, s') \<Longrightarrow> in_step [] s s' \<and> same_in s s'"
  using enqueue_control_step [of s event n] by (auto simp: out_step_def intro: in_step_out)

lemma close_event_step:
  assumes run: "close_event lib code reason s = (err, s')"
  shows "in_step [] s s' \<and> same_in s s'"
proof -
  define s1 where "s1 = s\<lparr>ws_peer_closed := True\<rparr>"
  have one: "out_step s s1" by (rule out_step_aside) (simp add: s1_def aside_def same_in_def same_out_def)
  obtain event n where r: "close_reply lib code reason = (event, n)" by fastforce
  obtain ok s2 where e: "enqueue_control event n s1 = (ok, s2)" by fastforce
  have two: "out_step s1 s2" using enqueue_control_step [of s1 event n] e by simp
  have sent: "out_step s2 (s2\<lparr>ws_close_sent := True\<rparr>)"
    by (rule out_step_aside) (simp add: aside_def same_in_def same_out_def)
  have "out_step s s'"
    using run r e one out_step_trans [OF one two] out_step_trans [OF one out_step_aside [OF aside_disconnected]]
      out_step_trans [OF out_step_trans [OF out_step_trans [OF one two] sent] out_step_aside [OF aside_disconnected]]
    by (auto simp: close_event_def Let_def s1_def [symmetric] split: if_splits bool.splits)
  then show ?thesis using in_step_out by (simp add: out_step_def)
qed

text \<open>What draining \<open>es\<close> does: all messages put in when it ends well, some first ones when it raises. A Close ends the
  sequence, so what follows it is not looked at.\<close>

definition drained ::
  "ws_data option \<Rightarrow> in_event list \<Rightarrow> ('p, 'r, 'e) ws \<Rightarrow> 'e ws_failure + bool \<Rightarrow> ('p, 'r, 'e) ws \<Rightarrow> bool" where
  "drained p es s r s' =
     (case r of
        Inl e \<Rightarrow> (\<exists>ms. in_step ms s s' \<and> prefix ms (fst (assembled p es)))
      | Inr closed \<Rightarrow>
          (if closed then in_step (fst (assembled p es)) s s'
           else \<exists>ms q. in_step ms s s' \<and> holds q s' \<and>
             (\<forall>more. assembled p (es @ more) = (ms @ fst (assembled q more), snd (assembled q more)))))"

lemma drained_after:
  assumes step: "in_step ms0 s s1"
    and eq: "\<And>more. assembled p (ev # es @ more) = (ms0 @ fst (assembled q (es @ more)), snd (assembled q (es @ more)))"
    and rest: "drained q es s1 r s'"
  shows "drained p (ev # es) s r s'"
proof (cases r)
  case (Inl e)
  then obtain ms where ms: "in_step ms s1 s'" "prefix ms (fst (assembled q es))" using rest by (auto simp: drained_def)
  have "in_step (ms0 @ ms) s s'" "prefix (ms0 @ ms) (fst (assembled p (ev # es)))"
    using in_step_trans [OF step ms(1)] ms(2) eq [of "[]"] by simp_all
  then show ?thesis unfolding drained_def Inl by auto
next
  case (Inr closed)
  show ?thesis
  proof (cases closed)
    case True
    then have "in_step (fst (assembled q es)) s1 s'" using rest Inr by (simp add: drained_def)
    from in_step_trans [OF step this] show ?thesis using True Inr eq [of "[]"] by (simp add: drained_def)
  next
    case False
    then obtain ms q' where ms: "in_step ms s1 s'" "holds q' s'"
      "\<And>more. assembled q (es @ more) = (ms @ fst (assembled q' more), snd (assembled q' more))"
      using rest Inr by (auto simp: drained_def)
    have "in_step (ms0 @ ms) s s'" by (rule in_step_trans [OF step ms(1)])
    moreover have "assembled p ((ev # es) @ more) = ((ms0 @ ms) @ fst (assembled q' more), snd (assembled q' more))" for more
      using eq [of more] ms(3) [of more] by simp
    ultimately have "\<exists>ms q. in_step ms s s' \<and> holds q s' \<and>
        (\<forall>more. assembled p ((ev # es) @ more) = (ms @ fst (assembled q more), snd (assembled q more)))"
      using ms(2) by blast
    then show ?thesis unfolding drained_def Inr using False by simp
  qed
qed

lemma drained_data:
  assumes holds: "holds p s" and step: "data_event (kind_of m) (encoded m) finished s = (err, s1)"
    and eq: "\<And>es. assembled p (ev # es) = (case add_fragment p m of
        None \<Rightarrow> ([], p)
      | Some m' \<Rightarrow> if finished then (case assembled None es of (ms, q) \<Rightarrow> (m' # ms, q)) else assembled (Some m') es)"
    and raised: "\<And>e. err = Some e \<Longrightarrow> r = Inl e \<and> s' = s1"
    and rest: "\<And>q. err = None \<Longrightarrow> holds q s1 \<Longrightarrow> drained q es s1 r s'"
  shows "drained p (ev # es) s r s'"
proof (cases err)
  case (Some e)
  then have "in_step [] s s'" using data_event_step [OF holds step] raised by simp
  then show ?thesis using raised [OF Some] unfolding drained_def by (auto intro: exI [of _ "[]"])
next
  case None
  then obtain m' where m': "add_fragment p m = Some m'"
    "if finished then in_step [m'] s s1 \<and> holds None s1 else in_step [] s s1 \<and> holds (Some m') s1"
    using data_event_step [OF holds step] by auto
  show ?thesis
  proof (cases finished)
    case True
    then show ?thesis using m' eq rest [OF None] by (intro drained_after [of "[m']" s s1 p ev es None]) (auto split: prod.split)
  next
    case False
    then show ?thesis using m' eq rest [OF None] by (intro drained_after [of "[]" s s1 p ev es "Some m'"]) auto
  qed
qed

lemma drain_step: "drain_protocol lib es s = (r, s') \<Longrightarrow> holds p s \<Longrightarrow> drained p es s r s'"
proof (induction lib es s arbitrary: p rule: drain_protocol.induct)
  case (1 lib s)
  then have "r = Inr False" "s' = s" by simp_all
  moreover have "in_step [] s s" by (rule in_step_aside) simp
  ultimately show ?case using "1.prems"(2) by (auto simp: drained_def intro!: exI [of _ "[]"] exI [of _ p])
next
  case (2 lib t finished events s)
  obtain err s1 where d: "data_event TextKind (utf8_encode t) finished s = (err, s1)" by fastforce
  show ?case
  proof (rule drained_data [OF "2.prems"(2), of "TextData t" finished err s1])
    show "data_event (kind_of (TextData t)) (encoded (TextData t)) finished s = (err, s1)"
      using d by (simp add: kind_of_def encoded_def)
  qed (use "2.prems"(1) "2.IH" d in \<open>auto\<close>)
next
  case (3 lib b finished events s)
  obtain err s1 where d: "data_event BytesKind (Some b) finished s = (err, s1)" by fastforce
  show ?case
  proof (rule drained_data [OF "3.prems"(2), of "BytesData b" finished err s1])
    show "data_event (kind_of (BytesData b)) (encoded (BytesData b)) finished s = (err, s1)"
      using d by (simp add: kind_of_def encoded_def)
  qed (use "3.prems"(1) "3.IH" d in \<open>auto\<close>)
next
  case (4 lib payload events s)
  obtain ok s1 where e: "enqueue_control (OutResponse (wl_ping_response lib payload)) (length payload) s = (ok, s1)" by fastforce
  have one: "in_step [] s s1" "holds p s1"
    using enqueue_control_in [OF e] "4.prems"(2) by (auto intro: holds_same_in)
  show ?case
  proof (cases ok)
    case True
    then have "drain_protocol lib events s1 = (r, s')" using "4.prems"(1) e by simp
    from "4.IH" [OF e [symmetric] _ this one(2)] True have "drained p events s1 r s'" by simp
    then show ?thesis
      by (intro drained_after [OF one(1), of p _ _ p]) simp_all
  next
    case False
    then have "r = Inl WSCapacity" "s' = s1" using "4.prems"(1) e by simp_all
    then show ?thesis using one(1) by (auto simp: drained_def intro!: exI [of _ "[]"])
  qed
next
  case (5 lib payload events s)
  have one: "in_step [] s (handle_pong payload s)" "holds p (handle_pong payload s)"
    using handle_pong_aside [of s payload] "5.prems"(2) by (auto simp: aside_def intro: holds_same_in in_step_aside)
  have "drain_protocol lib events (handle_pong payload s) = (r, s')" using "5.prems"(1) by simp
  from "5.IH" [OF this one(2)] show ?case by (intro drained_after [OF one(1), of p _ _ p]) simp_all
next
  case (6 lib code reason events s)
  obtain err s1 where c: "close_event lib code reason s = (err, s1)" by fastforce
  have "in_step [] s s1" using close_event_step [OF c] by simp
  then show ?case using "6.prems"(1) c by (cases err) (auto simp: drained_def intro!: exI [of _ "[]"])
next
  case (7 lib events s)
  have one: "in_step [] s s" by (rule in_step_aside) simp
  have "drain_protocol lib events s = (r, s')" using "7.prems"(1) by simp
  from "7.IH" [OF this "7.prems"(2)] show ?case by (intro drained_after [OF one, of p _ _ p]) simp_all
qed

section \<open>The reader\<close>

lemma protocol_receive_aside: "protocol_receive lib data s = (err, s') \<Longrightarrow> aside s s'"
  by (auto simp: protocol_receive_def aside_def same_in_def same_out_def split: option.splits prod.splits)

lemma receive_pieces_aside: "receive_pieces lib cs s = (err, s') \<Longrightarrow> aside s s'"
proof (induction lib cs s rule: receive_pieces.induct)
  case (2 lib c cs s)
  obtain e s1 where p: "protocol_receive lib (Some c) s = (e, s1)" by fastforce
  note one = protocol_receive_aside [OF p]
  show ?case
  proof (cases e)
    case None
    then have "receive_pieces lib cs s1 = (err, s')" using "2.prems" p by simp
    from "2.IH" [OF p [symmetric] None this] show ?thesis by (rule aside_trans [OF one])
  next
    case (Some x)
    then show ?thesis using "2.prems" p one by simp
  qed
qed simp

lemma receive_data_aside: "receive_protocol_data lib data s = (err, s') \<Longrightarrow> aside s s'"
proof -
  assume run: "receive_protocol_data lib data s = (err, s')"
  obtain q g where g: "guard_feed (ws_guard s) data = (q, g)" by fastforce
  have one: "aside s (s\<lparr>ws_guard := g\<rparr>)" by (simp add: aside_def same_in_def same_out_def)
  show ?thesis
  proof (cases q)
    case (Inl e)
    then have "s' = s\<lparr>ws_guard := g\<rparr>" using run g by (cases e) (simp_all add: receive_protocol_data_def)
    then show ?thesis using one by simp
  next
    case (Inr chunks)
    then have "receive_pieces lib chunks (s\<lparr>ws_guard := g\<rparr>) = (err, s')" using run g by (simp add: receive_protocol_data_def)
    from aside_trans [OF one receive_pieces_aside [OF this]] show ?thesis .
  qed
qed

lemma control_sent_step: "out_step s ((snd (enqueue_control event n s))\<lparr>ws_close_sent := True\<rparr>)"
  by (rule out_step_trans [OF enqueue_control_step out_step_aside]) (simp add: aside_def same_in_def same_out_def)

lemma reader_failed_step: "out_step s (reader_failed e s)"
proof -
  have close: "out_step s (reader_close code reason n s)" for code reason n
  proof -
    have "out_step s (snd (cancel_handler (ws_disconnected code reason
        ((snd (enqueue_control (OutClose code reason) n s))\<lparr>ws_close_sent := True\<rparr>))))"
      by (rule out_step_trans [OF control_sent_step out_step_aside [OF aside_trans [OF aside_disconnected aside_cancel_handler]]])
    then show ?thesis using out_step_aside [OF aside_refl [of s]] by (simp add: reader_close_def)
  qed
  have "aside s (snd (cancel_handler (ws_disconnected 1006 [] (s\<lparr>ws_fatal_error := Some x\<rparr>))))" for x
    by (rule aside_trans [OF _ aside_trans [OF aside_disconnected aside_cancel_handler]])
      (simp add: aside_def same_in_def same_out_def)
  with close show ?thesis by (cases e) (simp_all add: out_step_aside)
qed

text \<open>The events a turn of the reader takes from wsproto.\<close>

definition taken_events :: "('p, 'r, 'e) ws_lib \<Rightarrow> 'e ws_failure option \<times> ('p, 'r, 'e) ws \<Rightarrow> in_event list" where
  "taken_events lib fed =
     (case fed of
        (None, s) \<Rightarrow> (case ws_protocol s of None \<Rightarrow> [] | Some p \<Rightarrow> fst (wl_events lib p))
      | _ \<Rightarrow> [])"

lemma drain_protocol_events_step:
  assumes "drain_protocol_events lib s = (r, s')" and "holds p s" and "taken_events lib (None, s) = es"
  shows "drained p es s r s'"
proof (cases "ws_protocol s")
  case None
  then show ?thesis
    using assms in_step_aside [OF aside_refl, of s] by (auto simp: drain_protocol_events_def drained_def intro!: exI [of _ "[]"])
next
  case (Some pr)
  obtain es' pr1 where e: "wl_events lib pr = (es', pr1)" by fastforce
  define s1 where "s1 = s\<lparr>ws_protocol := Some pr1\<rparr>"
  have one: "aside s s1" by (simp add: s1_def aside_def same_in_def same_out_def)
  have "drain_protocol lib es s1 = (r, s')" "es' = es" using assms Some e by (simp_all add: drain_protocol_events_def taken_events_def s1_def)
  moreover have "holds p s1" using one assms(2) by (auto simp: aside_def intro: holds_same_in)
  ultimately have "drained p es s1 r s'" using drain_step by blast
  moreover have "in_step ms s s'" if "in_step ms s1 s'" for ms
    using in_step_trans [OF in_step_aside [OF one] that] by simp
  ultimately show ?thesis by (auto simp: drained_def split: sum.splits if_splits)
qed

end
