(* ===== verification/WS_Runs.thy ===== *)
theory WS_Runs
  imports WS_Messages
begin

text \<open>
  Every run of the tasks of one WebSocket connection: the application's calls, the reader, the writer, the
  deadlines and the coordinator in any order the scheduler chooses.
\<close>

section \<open>The operations that do not touch the inbox\<close>

lemmas aside_simps = aside_def same_in_def same_out_def

lemma out_step_refl [simp]: "out_step s s"
  by (rule out_step_aside) simp

lemma send_message_step: "out_step s (snd (send_message m s))"
  by (simp add: send_message_def enqueue_step [OF prod.collapse [symmetric]] split: option.split)

lemma ping_failed_aside: "aside s (ping_failed g s)"
  by (auto simp: ping_failed_def clear_pending_aside split: option.split)

lemma ws_ping_step: "out_step s (snd (ws_ping payload now s))"
proof -
  define s1 where "s1 = s\<lparr>ws_ping_generation := ws_ping_generation s + 1,
    ws_pending_ping := Some (ws_ping_generation s + 1, payload), ws_pong_deadline := Some (now + wc_pong_timeout (ws_config s))\<rparr>"
  obtain r s2 where e: "enqueue (OutPing payload) (length payload) s1 = (r, s2)" by fastforce
  have two: "out_step s s2"
    by (rule out_step_trans [OF out_step_aside enqueue_step [OF e]]) (simp add: s1_def aside_simps)
  from out_step_trans [OF this out_step_aside [OF ping_failed_aside]] two show ?thesis
    using e by (cases r) (simp_all add: ws_ping_def Let_def s1_def [symmetric] split: option.split)
qed

lemma socket_ping_step: "out_step s (snd (socket_ping payload now s))"
  by (simp add: socket_ping_def ws_ping_step)

lemma ws_close_step: "out_step s (snd (ws_close code reason now s))"
proof -
  define s1 where "s1 = s\<lparr>ws_close_sent := True, ws_close_deadline := Some (now + wc_close_timeout (ws_config s))\<rparr>"
  have "out_step s (snd (case enqueue (OutClose code reason) (2 + n) s1 of
      (Inl e, s2) \<Rightarrow> (Inl e, ws_disconnected code reason s2) | (Inr cid, s2) \<Rightarrow> (Inr cid, s2)))" for n
  proof -
    obtain r s2 where e: "enqueue (OutClose code reason) (2 + n) s1 = (r, s2)" by fastforce
    have two: "out_step s s2"
      by (rule out_step_trans [OF out_step_aside enqueue_step [OF e]]) (simp add: s1_def aside_simps)
    from out_step_trans [OF this out_step_aside [OF aside_disconnected]] two show ?thesis
      using e by (cases r) simp_all
  qed
  then show ?thesis by (simp add: ws_close_def Let_def s1_def [symmetric] split: option.split)
qed

lemma close_done_aside: "aside s (close_done code reason s)"
  by (simp add: close_done_def aside_simps split: option.split)

lemma request_shutdown_step: "out_step s (snd (request_shutdown code s))"
proof (cases "ws_shutdown s")
  case True
  then show ?thesis by (simp add: request_shutdown_def)
next
  case False
  define s1 where "s1 = s\<lparr>ws_shutdown := True\<rparr>"
  define s2 where "s2 = (if ws_accepted s1 \<and> \<not> ws_close_sent s1 \<and> ws_protocol s1 \<noteq> None
    then (snd (enqueue_control (OutClose code (lit ''server shutdown'')) 17 s1))\<lparr>ws_close_sent := True\<rparr> else s1)"
  define s3 where "s3 = (if ws_handshake s2 \<in> {HsPending, HsAccepting, HsRejecting}
    then fail_handshake (WSDisconnected code (lit ''server shutdown'')) s2 else ws_disconnected code (lit ''server shutdown'') s2)"
  have one: "out_step s s1" by (rule out_step_aside) (simp add: s1_def aside_simps)
  have two: "out_step s1 s2" by (simp add: s2_def control_sent_step)
  have three: "aside s2 s3" by (simp add: s3_def)
  obtain raised s4 where cancel: "cancel_handler s3 = (raised, s4)" by fastforce
  then have four: "aside s2 s4" using aside_trans [OF three aside_cancel_handler] by simp
  have "request_shutdown code s = (case cancel_handler s3 of
      (Some e, s4) \<Rightarrow> (Some e, s4) | (None, s4) \<Rightarrow> (None, ws_signal (ws_writer_task s4) outbox_signal s4))"
    using False by (simp only: request_shutdown_def Let_def if_False s1_def s2_def s3_def)
  then have "aside s2 (snd (request_shutdown code s))"
    using four aside_trans [OF four aside_signal] cancel by (cases raised) simp_all
  with out_step_trans [OF out_step_trans [OF one two] out_step_aside] show ?thesis by blast
qed

lemma begin_deadline_close_step: "out_step s (snd (begin_deadline_close code reason now s))"
proof -
  define s1 where "s1 = (if \<not> ws_close_sent s \<and> ws_protocol s \<noteq> None
    then (snd (enqueue_control (OutClose code reason) (2 + (case utf8_len reason of None \<Rightarrow> 0 | Some n \<Rightarrow> n)) s))
      \<lparr>ws_close_sent := True\<rparr> else s)"
  define s2 where "s2 = (case ws_close_deadline s1 of
    None \<Rightarrow> s1\<lparr>ws_close_deadline := Some (now + wc_close_timeout (ws_config s1))\<rparr> | Some _ \<Rightarrow> s1)"
  have one: "out_step s s1" by (simp add: s1_def control_sent_step)
  have two: "aside s1 s2" by (simp add: s2_def aside_simps split: option.split)
  from out_step_trans [OF one out_step_aside [OF aside_trans [OF two aside_trans [OF aside_disconnected aside_cancel_handler]]]]
  show ?thesis unfolding begin_deadline_close_def Let_def s1_def [symmetric] s2_def [symmetric] .
qed

definition ws_limits_ok :: "ws_config \<Rightarrow> bool" where
  "ws_limits_ok c = (0 \<le> wc_max_message_bytes c \<and> 0 \<le> wc_max_inbound_messages c \<and> 0 \<le> wc_max_inbound_bytes c \<and>
     0 \<le> wc_max_outbound_commands c \<and> 0 \<le> wc_max_outbound_bytes c)"

lemma abort_connection_step: "ws_limits_ok (ws_config s) \<Longrightarrow> out_step s (snd (abort_connection d s))"
proof -
  assume "ws_limits_ok (ws_config s)"
  then have one: "out_step s (fail_outbound (WSDisconnected (fst d) (snd d)) s)"
    by (intro fail_outbound_step) (simp_all add: ws_limits_ok_def)
  let ?s1 = "fail_outbound (WSDisconnected (fst d) (snd d)) s"
  obtain r2 s2 where c2: "ws_cancel_task (ws_writer_task ?s1) ?s1 = (r2, s2)" by fastforce
  obtain r3 s3 where c3: "cancel_handler s2 = (r3, s3)" by fastforce
  have two: "aside ?s1 s2" using aside_cancel [of ?s1 "ws_writer_task ?s1"] c2 by simp
  have three: "aside ?s1 s3" using aside_trans [OF two aside_cancel_handler] c3 by simp
  have "aside ?s1 (snd (abort_connection d s))"
    using two three aside_trans [OF three aside_disconnected] c2 c3
    by (simp add: abort_connection_def abort_writer_def Let_def split: option.split)
  from out_step_trans [OF one out_step_aside [OF this]] show ?thesis .
qed

lemma deadline_stops_state [simp]: "snd (deadline_stops r) = snd r"
  by (simp add: deadline_stops_def split: prod.split option.split)

lemma deadline_tick_step:
  assumes "ws_limits_ok (ws_config s)"
  shows "out_step s (snd (deadline_tick now s))"
proof (cases "ws_handshake s \<in> {HsPending, HsAccepting, HsRejecting}")
  case True
  have "out_step s (snd (cancel_handler (fail_handshake (WSDisconnected 1006 (lit ''handshake timed out'')) s)))"
    by (rule out_step_aside [OF aside_trans [OF aside_fail_handshake aside_cancel_handler]])
  with True show ?thesis unfolding deadline_tick_def by (simp only: if_True) simp
next
  case False
  define r where "r = (if expired now (ws_pong_deadline s) then begin_deadline_close 1002 (lit ''Pong timeout'') now s
    else if ws_accepted s \<and> now - ws_last_activity s \<ge> wc_idle_timeout (ws_config s)
    then begin_deadline_close 1001 (lit ''idle timeout'') now s else (None, s))"
  obtain raised s1 where r1: "r = (raised, s1)" by fastforce
  have "out_step s (snd r)" using out_step_aside [OF aside_refl [of s]] by (simp add: r_def begin_deadline_close_step)
  then have one: "out_step s s1" using r1 by simp
  then have "ws_limits_ok (ws_config s1)" using assms by (simp add: out_step_def same_in_def)
  then have "out_step s (snd (abort_connection d s1))" for d by (rule out_step_trans [OF one abort_connection_step])
  then show ?thesis
    using False one r1 unfolding deadline_tick_def r_def [symmetric] by (simp only: if_False) (simp split: option.split)
qed

lemma ws_accept_aside: "aside s (snd (ws_accept lib sha1 r route subprotocol headers s))"
  by (simp add: ws_accept_def aside_simps split: sum.split)

lemma accept_sent_aside: "aside s (accept_sent now subprotocol s)"
  unfolding accept_sent_def by (rule aside_trans [OF _ aside_signal]) (simp add: aside_simps)

lemma ws_reject_aside: "aside s (snd (ws_reject r s))"
proof -
  have one: "aside s (s\<lparr>ws_handshake := HsRejecting\<rparr>)" by (simp add: aside_simps)
  from aside_trans [OF one aside_fail_handshake] one show ?thesis by (simp add: ws_reject_def Let_def split: sum.split)
qed

lemma reject_sent_aside: "aside s (reject_sent s)"
  unfolding reject_sent_def by (rule aside_trans [OF _ aside_signal]) (simp add: aside_simps)

lemma coordinator_close_step: "out_step s (snd (coordinator_close handler_failed now s))"
proof -
  define s1 where "s1 = s\<lparr>ws_close_deadline := Some (now + wc_close_timeout (ws_config s))\<rparr>"
  have "aside s s1" by (simp add: s1_def aside_simps)
  then have "out_step s (snd (enqueue event n s1))" for event n
    by (rule out_step_trans [OF out_step_aside enqueue_step [OF prod.collapse [symmetric]]])
  then show ?thesis by (simp add: coordinator_close_def s1_def [symmetric] split: prod.split) (metis snd_conv)
qed

section \<open>The reader's turns\<close>

datatype reader_status = Reading | Ended | Broken

definition turn_status :: "('e ws_failure + bool) \<Rightarrow> reader_status" where
  "turn_status r = (case r of Inl _ \<Rightarrow> Broken | Inr True \<Rightarrow> Ended | Inr False \<Rightarrow> Reading)"

definition data_status :: "('p, 'r, 'e) ws_lib \<Rightarrow> bytes \<Rightarrow> ('p, 'r, 'e) ws \<Rightarrow> reader_status" where
  "data_status lib data s =
     (case receive_protocol_data lib data s of
        (Some _, _) \<Rightarrow> Broken | (None, s1) \<Rightarrow> turn_status (fst (drain_protocol_events lib s1)))"

definition eof_status :: "('p, 'r, 'e) ws_lib \<Rightarrow> ('p, 'r, 'e) ws \<Rightarrow> reader_status" where
  "eof_status lib s =
     (case protocol_receive lib None s of
        (Some _, _) \<Rightarrow> Broken | (None, s1) \<Rightarrow> (if turn_status (fst (drain_protocol_events lib s1)) = Broken then Broken else Ended))"

text \<open>What a turn did to the inbox, with \<open>es\<close> the events it took.\<close>

definition turned ::
  "ws_data option \<Rightarrow> in_event list \<Rightarrow> ('p, 'r, 'e) ws \<Rightarrow> reader_status \<Rightarrow> ('p, 'r, 'e) ws \<Rightarrow> bool" where
  "turned p es s status s' =
     (\<exists>ms. in_step ms s s' \<and> prefix ms (fst (assembled p es)) \<and> (status \<noteq> Broken \<longrightarrow> ms = fst (assembled p es)) \<and>
        (status = Reading \<longrightarrow> (\<exists>q. holds q s' \<and>
           (\<forall>more. assembled p (es @ more) = (ms @ fst (assembled q more), snd (assembled q more))))))"

lemma drained_turned:
  assumes d: "drained p es s r s'" and after: "out_step s' s''" and stay: "turn_status r = Reading \<Longrightarrow> s'' = s' \<or> status = Ended"
    and status: "status = turn_status r \<or> (status = Ended \<and> turn_status r \<noteq> Broken)"
  shows "turned p es s status s''"
proof (cases r)
  case (Inl e)
  then obtain ms where ms: "in_step ms s s'" "prefix ms (fst (assembled p es))" using d by (auto simp: drained_def)
  have "status = Broken" using status Inl by (auto simp: turn_status_def)
  then show ?thesis using in_step_trans [OF ms(1) in_step_out [OF after]] ms(2) by (auto simp: turned_def)
next
  case (Inr closed)
  show ?thesis
  proof (cases closed)
    case True
    then have "in_step (fst (assembled p es)) s s'" "status = Ended"
      using d Inr status by (auto simp: drained_def turn_status_def)
    then show ?thesis using in_step_trans [OF _ in_step_out [OF after]] by (auto simp: turned_def)
  next
    case False
    then obtain ms q where ms: "in_step ms s s'" "holds q s'"
      "\<forall>more. assembled p (es @ more) = (ms @ fst (assembled q more), snd (assembled q more))"
      using d Inr by (auto simp: drained_def)
    have all: "ms = fst (assembled p es)" using ms(3) [rule_format, of "[]"] by simp
    have put: "in_step ms s s''" using in_step_trans [OF ms(1) in_step_out [OF after]] by simp
    have "holds q s''" using ms(2) after by (auto simp: out_step_def intro: holds_same_in)
    then show ?thesis using all put ms(3) by (auto simp: turned_def)
  qed
qed

lemma reader_data_turn:
  assumes run: "reader_data lib data s = (stop, s')" and holds: "holds p s"
  shows "turned p (taken_events lib (receive_protocol_data lib data s)) s (data_status lib data s) s' \<and>
    (stop \<longleftrightarrow> data_status lib data s \<noteq> Reading)"
proof -
  obtain err s1 where r: "receive_protocol_data lib data s = (err, s1)" by fastforce
  note one = receive_data_aside [OF r]
  show ?thesis
  proof (cases err)
    case (Some e)
    have "in_step [] s (reader_failed e s1)"
      using in_step_trans [OF in_step_aside [OF one] in_step_out [OF reader_failed_step]] by simp
    then show ?thesis
      using run r Some by (auto simp: reader_data_def data_status_def turned_def taken_events_def)
  next
    case None
    obtain q s2 where d: "drain_protocol_events lib s1 = (q, s2)" by fastforce
    have "holds p s1" using one holds by (auto simp: aside_def intro: holds_same_in)
    then have dr: "drained p (taken_events lib (None, s1)) s1 q s2" by (rule drain_protocol_events_step [OF d _ refl])
    have "drained p (taken_events lib (None, s1)) s q s2"
      using dr in_step_trans [OF in_step_aside [OF one]] by (fastforce simp: drained_def split: sum.splits if_splits)
    moreover have "s' = (case q of Inl e \<Rightarrow> reader_failed e s2 | Inr _ \<Rightarrow> s2)" "stop \<longleftrightarrow> turn_status q \<noteq> Reading"
      using run r None d by (auto simp: reader_data_def turn_status_def split: sum.splits bool.splits)
    moreover have "data_status lib data s = turn_status q" using r None d by (simp add: data_status_def)
    ultimately show ?thesis
      using drained_turned [of p _ s q s2 s' "turn_status q"] reader_failed_step r None
      by (auto simp: turn_status_def split: sum.splits bool.splits)
  qed
qed

lemma reader_eof_turn:
  assumes holds: "holds p s"
  shows "turned p (taken_events lib (protocol_receive lib None s)) s (eof_status lib s) (reader_eof lib s) \<and>
    eof_status lib s \<noteq> Reading"
proof -
  obtain err s1 where r: "protocol_receive lib None s = (err, s1)" by fastforce
  note one = protocol_receive_aside [OF r]
  show ?thesis
  proof (cases err)
    case (Some e)
    have "in_step [] s (reader_failed e s1)"
      using in_step_trans [OF in_step_aside [OF one] in_step_out [OF reader_failed_step]] by simp
    then show ?thesis using r Some by (auto simp: reader_eof_def eof_status_def turned_def taken_events_def)
  next
    case None
    obtain q s2 where d: "drain_protocol_events lib s1 = (q, s2)" by fastforce
    have "holds p s1" using one holds by (auto simp: aside_def intro: holds_same_in)
    then have dr: "drained p (taken_events lib (None, s1)) s1 q s2" by (rule drain_protocol_events_step [OF d _ refl])
    have dr: "drained p (taken_events lib (None, s1)) s q s2"
      using dr in_step_trans [OF in_step_aside [OF one]] by (fastforce simp: drained_def split: sum.splits if_splits)
    obtain raised s3 where c: "cancel_handler (ws_disconnected 1006 [] s2) = (raised, s3)" by fastforce
    have "aside s2 s3" using aside_trans [OF aside_disconnected aside_cancel_handler, of s2 1006 "[]"] c by simp
    then have last: "out_step s2 (case raised of Some e \<Rightarrow> reader_failed e s3 | None \<Rightarrow> s3)"
      by (cases raised) (auto intro: out_step_aside out_step_trans [OF out_step_aside reader_failed_step])
    show ?thesis
    proof (cases q)
      case (Inl e)
      then show ?thesis
        using drained_turned [OF dr reader_failed_step [of s2 e], of Broken] r None d
        by (simp add: reader_eof_def eof_status_def turn_status_def)
    next
      case (Inr closed)
      then have "turn_status q \<noteq> Broken" by (simp add: turn_status_def split: bool.split)
      then show ?thesis
        using drained_turned [OF dr last, of Ended] r None d Inr c
        by (simp add: reader_eof_def eof_status_def)
    qed
  qed
qed

end
