(* ===== verification/WS_Sessions.thy ===== *)
theory WS_Sessions
  imports WS_Runs
begin

text \<open>
  A whole WebSocket connection: the tasks of \<open>smallserver/websocket.py\<close> interleaved in any order. An event is one
  stretch of one task; the model keeps what the reader has taken from wsproto and what the application has
  received, so that the two can be compared.
\<close>

section \<open>The events\<close>

datatype ('h, 'r, 'e) ws_event =
  EvSwitch "nat option"
| EvBegin nat nat
| EvWriterBegun nat
| EvAccept request "'h ws_route" "pystr option" "(pystr \<times> pystr) list"
| EvAcceptSent int "pystr option"
| EvReject response
| EvRejectSent
| EvHandshakeRaised "'e ws_failure"
| EvSend ws_data
| EvPing bytes int
| EvPingFailed int
| EvClose int pystr int
| EvCloseFailed int pystr
| EvCloseDone int pystr
| EvShutdown int
| EvTake int
| EvWritten "'e send_outcome"
| EvDeadline int
| EvLastClose bool int
| EvLastCloseSent
| EvReceive bool
| EvTrailing bytes
| EvChunk int bytes

text \<open>The tasks other than the reader, and the application's calls other than \<open>receive\<close>. A writer takes a command only
  when it has none, and finishes the one it has.\<close>

fun ws_op ::
  "('p, 'r, 'e) ws_lib \<Rightarrow> (bytes \<Rightarrow> bytes) \<Rightarrow> ('h, 'r, 'e) ws_event \<Rightarrow> ('p, 'r, 'e) ws \<Rightarrow> ('p, 'r, 'e) ws option" where
  "ws_op lib sha1 (EvSwitch task) s = Some (s\<lparr>ws_cursor := task\<rparr>)"
| "ws_op lib sha1 (EvBegin task handler) s = Some (coordinator_begun task handler s)"
| "ws_op lib sha1 (EvWriterBegun task) s = Some (writer_begun task s)"
| "ws_op lib sha1 (EvAccept r route subprotocol headers) s = Some (snd (ws_accept lib sha1 r route subprotocol headers s))"
| "ws_op lib sha1 (EvAcceptSent now subprotocol) s = Some (accept_sent now subprotocol s)"
| "ws_op lib sha1 (EvReject r) s = Some (snd (ws_reject r s))"
| "ws_op lib sha1 EvRejectSent s = Some (reject_sent s)"
| "ws_op lib sha1 (EvHandshakeRaised e) s = Some (fail_handshake e s)"
| "ws_op lib sha1 (EvSend m) s = Some (snd (send_message m s))"
| "ws_op lib sha1 (EvPing payload now) s = Some (snd (socket_ping payload now s))"
| "ws_op lib sha1 (EvPingFailed generation) s = Some (ping_failed generation s)"
| "ws_op lib sha1 (EvClose code reason now) s = Some (snd (ws_close code reason now s))"
| "ws_op lib sha1 (EvCloseFailed code reason) s = Some (close_failed code reason s)"
| "ws_op lib sha1 (EvCloseDone code reason) s = Some (close_done code reason s)"
| "ws_op lib sha1 (EvShutdown code) s = Some (snd (request_shutdown code s))"
| "ws_op lib sha1 (EvTake now) s = (if ws_writer_busy s then None else Some (snd (writer_take lib now s)))"
| "ws_op lib sha1 (EvWritten outcome) s = map_option (\<lambda>c. writer_finish c outcome s) (ws_active s)"
| "ws_op lib sha1 (EvDeadline now) s = Some (snd (deadline_tick now s))"
| "ws_op lib sha1 (EvLastClose handler_failed now) s = Some (snd (coordinator_close handler_failed now s))"
| "ws_op lib sha1 EvLastCloseSent s = Some (coordinator_close_sent s)"
| "ws_op lib sha1 _ s = None"

lemma switches_aside:
  "aside s (s\<lparr>ws_cursor := task\<rparr>)" "aside s (coordinator_begun t h s)" "aside s (writer_begun t s)" "aside s (coordinator_close_sent s)"
  by (simp_all add: coordinator_begun_def writer_begun_def coordinator_close_sent_def aside_simps)

lemma ws_op_step:
  assumes run: "ws_op lib sha1 ev s = Some s'" and limits: "ws_limits_ok (ws_config s)"
  shows "out_step s s'"
proof (cases ev)
  case (EvTake now)
  then show ?thesis using run by (auto simp: writer_take_step split: if_split_asm)
next
  case (EvWritten outcome)
  then show ?thesis using run by (auto simp: writer_finish_step)
next
  case (EvDeadline now)
  then show ?thesis using run deadline_tick_step [OF limits] by auto
next
  case (EvClose code reason now)
  then show ?thesis using run ws_close_step by auto
qed (use run in \<open>auto intro: out_step_aside simp: send_message_step socket_ping_step request_shutdown_step coordinator_close_step
  switches_aside ws_accept_aside accept_sent_aside ws_reject_aside reject_sent_aside ping_failed_aside close_done_aside
  close_failed_def\<close>)

section \<open>The run\<close>

record ('p, 'r, 'e) ws_session =
  sn_state :: "('p, 'r, 'e) ws"
  sn_reader :: reader_status
  sn_seen :: "in_event list"
  sn_received :: "ws_data list"

definition session_init :: "(nat \<Rightarrow> ws_effect list \<Rightarrow> 'e option) \<Rightarrow> ws_config \<Rightarrow> int \<Rightarrow> ('p, 'r, 'e) ws_session" where
  "session_init runtime config now = \<lparr>sn_state = ws_init runtime config now, sn_reader = Reading, sn_seen = [], sn_received = []\<rparr>"

text \<open>\<open>runtime\<close> says which cancellations raise an exit. The reader's first turn is on the trailing data of the upgrade; it takes no chunk once it has ended, or when it finds
  the connection shut down.\<close>

fun ws_step ::
  "('p, 'r, 'e) ws_lib \<Rightarrow> (bytes \<Rightarrow> bytes) \<Rightarrow> ('h, 'r, 'e) ws_event \<Rightarrow> ('p, 'r, 'e) ws_session \<Rightarrow>
   ('p, 'r, 'e) ws_session option" where
  "ws_step lib sha1 (EvReceive entry) n =
     (case ws_receive entry (sn_state n) of
        (Inr (Some m), s) \<Rightarrow> Some (n\<lparr>sn_state := s, sn_received := sn_received n @ [m]\<rparr>)
      | (_, s) \<Rightarrow> Some (n\<lparr>sn_state := s\<rparr>))"
| "ws_step lib sha1 (EvTrailing data) n =
     (if sn_reader n \<noteq> Reading \<or> data = [] then None
      else let s = sn_state n in
        Some (n\<lparr>sn_state := snd (reader_data lib data s), sn_reader := data_status lib data s,
                sn_seen := sn_seen n @ taken_events lib (receive_protocol_data lib data s)\<rparr>))"
| "ws_step lib sha1 (EvChunk now chunk) n =
     (if sn_reader n \<noteq> Reading then None
      else let s = (if chunk = [] then sn_state n else (sn_state n)\<lparr>ws_last_activity := now\<rparr>) in
        Some (n\<lparr>sn_state := snd (reader_chunk lib now chunk (sn_state n)),
                sn_reader := (if chunk = [] then eof_status lib s else data_status lib chunk s),
                sn_seen := sn_seen n @ taken_events lib
                  (if chunk = [] then protocol_receive lib None s else receive_protocol_data lib chunk s)\<rparr>))"
| "ws_step lib sha1 ev n = map_option (\<lambda>s. n\<lparr>sn_state := s\<rparr>) (ws_op lib sha1 ev (sn_state n))"

fun ws_run ::
  "('p, 'r, 'e) ws_lib \<Rightarrow> (bytes \<Rightarrow> bytes) \<Rightarrow> ('h, 'r, 'e) ws_event list \<Rightarrow> ('p, 'r, 'e) ws_session \<Rightarrow>
   ('p, 'r, 'e) ws_session option" where
  "ws_run lib sha1 [] n = Some n"
| "ws_run lib sha1 (ev # evs) n = (case ws_step lib sha1 ev n of None \<Rightarrow> None | Some n1 \<Rightarrow> ws_run lib sha1 evs n1)"

section \<open>The invariant\<close>

text \<open>After \<open>es\<close> the messages \<open>got\<close> are complete and the reassembly fields hold what is pending.\<close>

definition caught_up :: "ws_data list \<Rightarrow> in_event list \<Rightarrow> ('p, 'r, 'e) ws \<Rightarrow> bool" where
  "caught_up got es s =
     (\<exists>q. holds q s \<and> (\<forall>more. assembled None (es @ more) = (got @ fst (assembled q more), snd (assembled q more))))"

lemma caught_up_same: "caught_up got es s \<Longrightarrow> (\<And>q. holds q s \<Longrightarrow> holds q s') \<Longrightarrow> caught_up got es s'"
  by (auto simp: caught_up_def)

text \<open>\<open>got\<close> is what the application has received and what waits for it.\<close>

definition in_order :: "('p, 'r, 'e) ws_session \<Rightarrow> bool" where
  "in_order n =
     (let got = sn_received n @ ws_inbox (sn_state n) in
        prefix got (fst (assembled None (sn_seen n))) \<and>
        (sn_reader n \<noteq> Broken \<longrightarrow> got = fst (assembled None (sn_seen n))) \<and>
        (sn_reader n = Reading \<longrightarrow> caught_up got (sn_seen n) (sn_state n)))"

definition session_ok :: "ws_config \<Rightarrow> ('p, 'r, 'e) ws_session \<Rightarrow> bool" where
  "session_ok config n = (ws_config (sn_state n) = config \<and> ws_limits_ok config \<and> out_ok (sn_state n) \<and> in_ok (sn_state n) \<and> in_order n)"

lemma session_ok_init: "ws_limits_ok config \<Longrightarrow> session_ok config (session_init runtime config now)"
  by (auto simp: session_ok_def session_init_def ws_init_def ws_limits_ok_def out_ok_def in_ok_def in_order_def holds_def caught_up_def
      intro!: exI [of _ None])

lemma in_order_same:
  assumes "in_order n" and "same_in (sn_state n) s'"
  shows "in_order (n\<lparr>sn_state := s'\<rparr>)"
proof -
  have "caught_up got es (sn_state n) \<Longrightarrow> caught_up got es s'" for got es
    by (rule caught_up_same) (use holds_same_in [OF assms(2)] in blast)+
  then show ?thesis using assms by (cases "sn_reader n") (auto simp: in_order_def Let_def same_in_def)
qed

lemma session_ok_out:
  assumes "session_ok config n" and "out_step (sn_state n) s'"
  shows "session_ok config (n\<lparr>sn_state := s'\<rparr>)"
proof -
  have same: "same_in (sn_state n) s'" using assms(2) by (simp add: out_step_def)
  have "in_order (n\<lparr>sn_state := s'\<rparr>)" "in_ok s'" "out_ok s'"
    using assms in_order_same [OF _ same] in_ok_same [OF same] by (auto simp: session_ok_def out_step_def)
  then show ?thesis using assms(1) same by (auto simp: session_ok_def same_in_def)
qed

lemma session_ok_turn:
  assumes ok: "session_ok config n" and reading: "sn_reader n = Reading"
    and turn: "\<And>q. holds q (sn_state n) \<Longrightarrow> turned q es (sn_state n) status s'"
  shows "session_ok config (n\<lparr>sn_state := s', sn_reader := status, sn_seen := sn_seen n @ es\<rparr>)"
proof -
  let ?got = "sn_received n @ ws_inbox (sn_state n)"
  obtain q where q: "holds q (sn_state n)"
    "\<And>more. assembled None (sn_seen n @ more) = (?got @ fst (assembled q more), snd (assembled q more))"
    using ok reading by (auto simp: session_ok_def in_order_def Let_def caught_up_def)
  obtain ms where ms: "in_step ms (sn_state n) s'" "prefix ms (fst (assembled q es))"
    "status \<noteq> Broken \<Longrightarrow> ms = fst (assembled q es)"
    "status = Reading \<Longrightarrow> \<exists>q'. holds q' s' \<and>
      (\<forall>more. assembled q (es @ more) = (ms @ fst (assembled q' more), snd (assembled q' more)))"
    using turn [OF q(1)] by (auto simp: turned_def)
  have inbox: "ws_inbox s' = ws_inbox (sn_state n) @ ms" and rest: "ws_config s' = ws_config (sn_state n)" "out_ok s'" "in_ok s'"
    using ms(1) ok by (auto simp: in_step_def session_ok_def ws_limits_ok_def)
  have "caught_up (?got @ ms) (sn_seen n @ es) s'" if "status = Reading"
    using ms(4) [OF that] q(2) by (force simp: caught_up_def)
  then have "in_order (n\<lparr>sn_state := s', sn_reader := status, sn_seen := sn_seen n @ es\<rparr>)"
    using q(2) [of es] ms(2,3) inbox by (simp add: in_order_def Let_def)
  then show ?thesis using ok rest by (simp add: session_ok_def)
qed

lemma session_ok_op:
  assumes ok: "session_ok config n" and run: "map_option (\<lambda>s. n\<lparr>sn_state := s\<rparr>) (ws_op lib sha1 ev (sn_state n)) = Some n'"
  shows "session_ok config n'"
proof -
  obtain s' where s': "ws_op lib sha1 ev (sn_state n) = Some s'" "n' = n\<lparr>sn_state := s'\<rparr>" using run by auto
  have "ws_limits_ok (ws_config (sn_state n))" using ok by (simp add: session_ok_def)
  from session_ok_out [OF ok ws_op_step [OF s'(1) this]] show ?thesis by (simp add: s'(2))
qed

lemma receive_step:
  assumes ok: "session_ok config n" and r: "ws_receive entry (sn_state n) = (Inr (Some m), s')"
  shows "session_ok config (n\<lparr>sn_state := s', sn_received := sn_received n @ [m]\<rparr>)"
proof -
  let ?s = "sn_state n"
  obtain ms where inbox: "ws_inbox ?s = m # ms" "s' = ?s\<lparr>ws_inbox := ms, ws_inbox_bytes := ws_inbox_bytes ?s - stored m\<rparr>"
    using r by (auto simp: ws_receive_def stored_def split: if_splits list.splits option.splits)
  have "in_ok s'" using ok inbox stored_nonneg [of m] by (auto simp: session_ok_def in_ok_def)
  moreover have "same_out ?s s'" by (simp add: inbox(2) same_out_def)
  then have "out_ok s'" using ok out_ok_same by (auto simp: session_ok_def)
  moreover have "caught_up got es ?s \<Longrightarrow> caught_up got es s'" for got es
    by (erule caught_up_same) (simp add: inbox(2) holds_def split: option.splits ws_data.splits)
  then have "in_order (n\<lparr>sn_state := s', sn_received := sn_received n @ [m]\<rparr>)"
    using ok inbox by (cases "sn_reader n") (auto simp: session_ok_def in_order_def Let_def)
  ultimately show ?thesis using ok by (simp add: session_ok_def inbox(2))
qed

lemma ws_step_ok:
  assumes "session_ok config n" and "ws_step lib sha1 ev n = Some n'"
  shows "session_ok config n'"
proof (cases ev)
  case (EvReceive entry)
  obtain res s' where r: "ws_receive entry (sn_state n) = (res, s')" by fastforce
  consider (got) m where "res = Inr (Some m)" | (same) "s' = sn_state n" "\<forall>m. res \<noteq> Inr (Some m)"
    using r by (auto simp: ws_receive_def split: if_splits list.splits option.splits)
  then show ?thesis
    using assms receive_step [of config n entry] r session_ok_out [OF assms(1) out_step_refl] EvReceive
    by cases (auto split: sum.splits option.splits)
next
  case (EvTrailing data)
  then have n': "sn_reader n = Reading" "n' = n\<lparr>sn_state := snd (reader_data lib data (sn_state n)),
      sn_reader := data_status lib data (sn_state n),
      sn_seen := sn_seen n @ taken_events lib (receive_protocol_data lib data (sn_state n))\<rparr>"
    using assms(2) by (auto simp: Let_def split: if_splits)
  show ?thesis unfolding n'(2)
    by (rule session_ok_turn [OF assms(1) n'(1)]) (use reader_data_turn [OF prod.collapse [symmetric]] in blast)
next
  case (EvChunk now chunk)
  define s where "s = (if chunk = [] then sn_state n else (sn_state n)\<lparr>ws_last_activity := now\<rparr>)"
  have ok: "session_ok config (n\<lparr>sn_state := s\<rparr>)"
    by (rule session_ok_out [OF assms(1) out_step_aside]) (simp add: s_def aside_simps)
  let ?es = "taken_events lib (if chunk = [] then protocol_receive lib None s else receive_protocol_data lib chunk s)"
  let ?status = "if chunk = [] then eof_status lib s else data_status lib chunk s"
  have n': "sn_reader n = Reading" "n' = (n\<lparr>sn_state := s\<rparr>)\<lparr>sn_state := snd (reader_chunk lib now chunk (sn_state n)),
      sn_reader := ?status, sn_seen := sn_seen (n\<lparr>sn_state := s\<rparr>) @ ?es\<rparr>"
    using assms(2) EvChunk by (auto simp: Let_def s_def split: if_splits)
  have "turned q ?es s ?status (snd (reader_chunk lib now chunk (sn_state n)))" if "holds q s" for q
    using reader_data_turn [OF prod.collapse [symmetric] that, of lib chunk] reader_eof_turn [OF that, of lib]
    by (cases "chunk = []") (simp_all add: reader_chunk_def s_def)
  then show ?thesis unfolding n'(2) using session_ok_turn [OF ok] n'(1) by simp
qed (rule session_ok_op [OF assms(1), of lib sha1 ev], insert assms(2), simp)+

lemma ws_run_ok: "ws_run lib sha1 evs n = Some n' \<Longrightarrow> session_ok config n \<Longrightarrow> session_ok config n'"
  by (induction evs arbitrary: n) (auto split: option.splits intro: ws_step_ok)

section \<open>The properties\<close>

definition sample_limits :: ws_config where
  "sample_limits =
     \<lparr>wc_max_frame_payload_bytes = 10, wc_max_message_bytes = 10, wc_max_inbound_messages = 2, wc_max_inbound_bytes = 10,
      wc_max_outbound_commands = 2, wc_max_outbound_bytes = 40, wc_receive_chunk_bytes = 4, wc_write_chunk_bytes = 4,
      wc_max_connections = 1, wc_handshake_timeout = 5, wc_idle_timeout = 5, wc_pong_timeout = 5, wc_write_timeout = 5,
      wc_close_timeout = 5, wc_deadline_resolution = 1\<rparr>"

text \<open>A wsproto that reports a text in two fragments, and a ping between them, whatever it is given.\<close>

definition sample_lib :: "(unit, nat, nat) ws_lib" where
  "sample_lib =
     \<lparr>wl_new = (), wl_send = (\<lambda>p ev. (Inr [1], p)), wl_receive = (\<lambda>p data. (None, p)),
      wl_events = (\<lambda>p. ([InText (lit ''h'') False, InPing [7], InText (lit ''i'') True], p)),
      wl_ping_response = (\<lambda>b. 0), wl_close_response = (\<lambda>c r. 0), wl_response_code = (\<lambda>r. 1000), wl_response_reason = (\<lambda>r. None)\<rparr>"

definition sample_events :: "(nat, nat, nat) ws_event list" where
  "sample_events =
     [EvSwitch (Some 1), EvBegin 1 2, EvAccept sample_upgrade sample_ws_route None [], EvAcceptSent 0 None,
      EvTrailing (frame_bytes sample_frame), EvTake 1]"

lemma sample_accept:
  "\<exists>payload. accept_payload (take 20) sample_upgrade sample_ws_route None [] = Inr payload"
proof -
  have key: "headers_get (req_headers sample_upgrade) (lit ''sec-websocket-key'') = Some (lit ''dGhlIHNhbXBsZSBub25jZQ=='')"
    by (simp add: sample_upgrade_def headers_get_def header_entry_def py_lower_def lower1_def py_text)
  have "is_ascii (lit ''dGhlIHNhbXBsZSBub25jZQ=='')" by (simp add: is_ascii_def py_text)
  from accept_payload_ok [OF key this, of None sample_ws_route "[]" "[]" "take 20"] show ?thesis
    by (simp add: headers_init_def headers_names_def)
qed

lemma sample_lib_calls:
  "wl_new sample_lib = ()" "wl_send sample_lib p ev = (Inr [1], p)" "wl_ping_response sample_lib b = 0"
  "wl_events sample_lib p = ([InText (lit ''h'') False, InPing [7], InText (lit ''i'') True], p)"
  by (simp_all add: sample_lib_def)

lemma sample_pieces:
  assumes "ws_protocol s = Some ()"
  shows "receive_pieces sample_lib cs s = (None, s)"
proof -
  have "protocol_receive sample_lib (Some c) s = (None, s)" for c
    using assms by (simp add: protocol_receive_def sample_lib_def)
  then show ?thesis by (induction cs) simp_all
qed

lemma sample_fed:
  assumes "ws_protocol s = Some ()" and "ws_guard s = guard_init 10"
  shows "receive_protocol_data sample_lib (frame_bytes sample_frame) s = (None, s)"
proof -
  have "guard_stream (guard_init 10) (frame_bytes sample_frame) = Inr (guard_init 10, frame_bytes sample_frame)"
    by (simp add: guard_stream_steps guard_wf_init valid_frame_steps sample_frame_valid)
  then obtain cs where "guard_feed (guard_init 10) (frame_bytes sample_frame) = (Inr cs, guard_init 10)"
    by (auto simp: guard_stream_def split: prod.splits sum.splits)
  then show ?thesis using assms sample_pieces [of "s\<lparr>ws_guard := guard_init 10\<rparr>"] by (simp add: receive_protocol_data_def)
qed

lemma sample_run:
  "\<exists>n. ws_run sample_lib (take 20) sample_events (session_init (\<lambda>t log. None) sample_limits 0) = Some n \<and>
     ws_inbox (sn_state n) = [TextData (lit ''hi'')] \<and> ws_outbox (sn_state n) = [] \<and> ws_active (sn_state n) \<noteq> None \<and>
     ws_next_command (sn_state n) = 1 \<and> sn_reader n = Reading \<and> sn_received n = []"
proof -
  obtain payload where a: "accept_payload (take 20) sample_upgrade sample_ws_route None [] = Inr payload"
    using sample_accept by blast
  have codes: "utf8_encode (lit ''h'') = Some [104]" "utf8_encode (lit ''i'') = Some [105]" "utf8_encode (lit ''hi'') = Some [104, 105]"
    by (simp_all add: utf8_char_def py_text)
  note whole = utf8_decode_encode [OF codes(3)]
  have frame: "frame_bytes sample_frame \<noteq> []" by (simp add: frame_bytes_def sample_frame_def)
  show ?thesis
    by (simp add: sample_events_def session_init_def ws_init_def sample_limits_def coordinator_begun_def ws_accept_def a frame
      sample_fed accept_sent_def ws_signal_def reader_data_def data_status_def turn_status_def taken_events_def Let_def
      drain_protocol_events_def codes whole data_event_def sample_lib_calls data_value_def deliver_message_def message_size_def
      utf8_len_def enqueue_control_def outbox_full_def push_command_def writer_take_def)
qed

lemma session_run_ok:
  "ws_limits_ok config \<Longrightarrow> ws_run lib sha1 evs (session_init runtime config now) = Some n \<Longrightarrow> session_ok config n"
  using ws_run_ok session_ok_init by blast

text \<open>C21. The application receives what the peer has sent. In any interleaving of the tasks of a connection, for any
  wsproto, the messages handed out by \<open>receive\<close> followed by those that wait in the inbox are the messages of
  the events wsproto has reported, in their order: the fragments of a message joined, nothing lost, doubled or
  reordered, and control frames between the fragments without effect. When the reader has ended with an
  error they are the first of them.\<close>

theorem messages_in_order:
  assumes "ws_limits_ok config" and "ws_run lib sha1 evs (session_init runtime config now) = Some n"
  shows "(let got = sn_received n @ ws_inbox (sn_state n); sent = fst (assembled None (sn_seen n)) in
     prefix got sent \<and> (sn_reader n \<noteq> Broken \<longrightarrow> got = sent))"
  using session_run_ok [OF assms] by (simp add: session_ok_def in_order_def Let_def)

lemma messages_in_order_witness:
  "\<exists>n. ws_run sample_lib (take 20) sample_events (session_init (\<lambda>t log. None) sample_limits 0) = Some n \<and>
     fst (assembled None (sn_seen n)) = [TextData (lit ''hi'')]"
proof -
  obtain n where n: "ws_run sample_lib (take 20) sample_events (session_init (\<lambda>t log. None) sample_limits 0) = Some n"
    "ws_inbox (sn_state n) = [TextData (lit ''hi'')]" "sn_reader n = Reading" "sn_received n = []"
    using sample_run by blast
  have "ws_limits_ok sample_limits" by (simp add: ws_limits_ok_def sample_limits_def)
  from messages_in_order [OF this n(1)] n show ?thesis by (auto simp: Let_def)
qed

text \<open>C22. Both mailboxes stay inside their limits and no sender is forgotten. In any interleaving of the tasks the byte
  counters are exactly the sizes of what is queued, the two queues and the message being put together respect
  the configured limits, the writer is busy exactly while it has a command, and every command that was ever
  queued is still queued, being written, or finished with its outcome on record.\<close>

theorem mailboxes_bounded:
  assumes "ws_limits_ok config" and "ws_run lib sha1 evs (session_init runtime config now) = Some n"
  shows "let s = sn_state n in
     ws_inbox_bytes s = (\<Sum>m \<leftarrow> ws_inbox s. stored m) \<and> ws_inbox_bytes s \<le> wc_max_inbound_bytes config \<and>
     int (length (ws_inbox s)) \<le> wc_max_inbound_messages config \<and>
     int (length (ws_message_buffer s)) \<le> wc_max_message_bytes config \<and>
     ws_outbox_bytes s = (\<Sum>c \<leftarrow> ws_outbox s. int (oc_size c)) \<and> ws_outbox_bytes s \<le> wc_max_outbound_bytes config \<and>
     int (length (ws_outbox s)) \<le> wc_max_outbound_commands config \<and>
     (ws_writer_busy s \<longleftrightarrow> ws_active s \<noteq> None) \<and>
     (\<forall>i. i < ws_next_command s \<longrightarrow> i \<in> oc_id ` set (ws_outbox s) \<or> (\<exists>c. ws_active s = Some c \<and> oc_id c = i) \<or>
        command_result i s \<noteq> None)"
proof -
  have ok: "out_ok (sn_state n)" "in_ok (sn_state n)" and config: "ws_config (sn_state n) = config"
    using session_run_ok [OF assms] by (simp_all add: session_ok_def)
  have "i \<in> oc_id ` set (ws_outbox s) \<or> (\<exists>c. ws_active s = Some c \<and> oc_id c = i) \<or> command_result i s \<noteq> None"
    if "i < ws_next_command s" "out_ok s" for i and s :: "('a, 'b, 'c) ws"
  proof -
    have "i \<in> {0..<ws_next_command s}" using that(1) by simp
    then have "i \<in> oc_id ` set (ws_outbox s) \<union> oc_id ` set_option (ws_active s) \<union> fst ` set (ws_done s)"
      using that(2) unfolding out_ok_def by blast
    then show ?thesis using weak_map_of_SomeI by (fastforce simp: command_result_def)
  qed
  then show ?thesis using ok config by (simp add: Let_def out_ok_def in_ok_def)
qed

lemma mailboxes_bounded_witness:
  "\<exists>n. ws_run sample_lib (take 20) sample_events (session_init (\<lambda>t log. None) sample_limits 0) = Some n \<and>
     ws_active (sn_state n) \<noteq> None \<and> ws_writer_busy (sn_state n) \<and> ws_inbox_bytes (sn_state n) \<le> 10"
proof -
  obtain n where n: "ws_run sample_lib (take 20) sample_events (session_init (\<lambda>t log. None) sample_limits 0) = Some n"
    "ws_active (sn_state n) \<noteq> None"
    using sample_run by blast
  have "ws_limits_ok sample_limits" by (simp add: ws_limits_ok_def sample_limits_def)
  from mailboxes_bounded [OF this n(1)] n show ?thesis by (auto simp: Let_def sample_limits_def)
qed

end
