(* ===== verification/Dispatch.thy ===== *)
theory Dispatch
  imports Resolution WS_Upgrade Server_Handle
begin

text \<open>
  \<open>SmallServer.dispatch\<close> of \<open>smallserver/app.py\<close>, what the two connection loops make of its outcome, and the
  dispatch of WebSocket upgrades. The route handlers are a parameter: \<open>hs h r w\<close> is the awaited call of handler
  \<open>h\<close> on request \<open>r\<close> in the world \<open>w\<close>.
\<close>

section \<open>Handlers\<close>

text \<open>\<open>RaisedException\<close> is any \<open>Exception\<close> that is neither an \<open>HTTPError\<close> nor one of the router's; \<open>RaisedBase\<close> is a
  \<open>BaseException\<close> that is not an \<open>Exception\<close>. The call itself may raise too, or return no awaitable.\<close>

datatype 'e handler_result =
  Replied response
| NotAwaitable
| NotResponse
| RaisedHTTPError int pystr
| RaisedRoute route_error
| RaisedException 'e
| RaisedBase 'e

datatype 'e dispatch_error = DispatchRoute route_error | DispatchRaised py_error | DispatchException 'e | DispatchBase 'e

type_synonym ('h, 'e, 'w) handlers = "'h \<Rightarrow> request \<Rightarrow> 'w \<Rightarrow> 'e handler_result \<times> 'w"

definition http_error_init :: "int \<Rightarrow> pystr \<Rightarrow> py_error + int \<times> pystr" where
  "http_error_init status detail =
     (if 400 \<le> status \<and> status \<le> 599 then Inr (status, detail)
      else Inl (ValueError (lit ''HTTPError status must be between 400 and 599'')))"

definition http_error_response :: "int \<Rightarrow> pystr \<Rightarrow> py_error + response" where
  "http_error_response status detail =
     response_text (if detail \<noteq> [] then detail else lit ''HTTP '' @ int_str status) status []"

definition raised_py :: "py_error + response \<Rightarrow> 'e dispatch_error + response" where
  "raised_py r = map_sum DispatchRaised id r"

definition call_handler ::
  "('h, 'e, 'w) handlers \<Rightarrow> 'h \<Rightarrow> request \<Rightarrow> 'w \<Rightarrow> ('e dispatch_error + response) \<times> 'w" where
  "call_handler hs h r w =
     (case hs h r w of
        (Replied resp, w1) \<Rightarrow> (Inr resp, w1)
      | (NotAwaitable, w1) \<Rightarrow> (Inl (DispatchRaised (TypeError (lit ''route handlers must return an awaitable Response''))), w1)
      | (NotResponse, w1) \<Rightarrow> (Inl (DispatchRaised (TypeError (lit ''route handlers must return Response''))), w1)
      | (RaisedHTTPError status detail, w1) \<Rightarrow> (raised_py (http_error_response status detail), w1)
      | (RaisedRoute err, w1) \<Rightarrow> (Inl (DispatchRoute err), w1)
      | (RaisedException e, w1) \<Rightarrow> (Inl (DispatchException e), w1)
      | (RaisedBase e, w1) \<Rightarrow> (Inl (DispatchBase e), w1))"

section \<open>Dispatch\<close>

definition call_replaced ::
  "('h, 'e, 'w) handlers \<Rightarrow> 'h \<Rightarrow> (pystr \<times> pystr) list \<Rightarrow> pystr option \<Rightarrow> request \<Rightarrow> 'w \<Rightarrow>
   ('e dispatch_error + response) \<times> 'w" where
  "call_replaced hs h params pattern r w =
     (case request_replace r params pattern of
        Inl err \<Rightarrow> (Inl (DispatchRaised err), w)
      | Inr r1 \<Rightarrow> call_handler hs h r1 w)"

definition allow_header :: "pystr list \<Rightarrow> (pystr \<times> pystr) list" where
  "allow_header methods = [(lit ''Allow'', join_with (lit '', '') methods)]"

definition dispatch ::
  "('c, 'w) engine \<Rightarrow> ('h, 'c) router \<Rightarrow> ('h, 'e, 'w) handlers \<Rightarrow> request \<Rightarrow> 'w \<Rightarrow> ('e dispatch_error + response) \<times> 'w" where
  "dispatch eng rt hs r w =
     (case static_handler rt (req_method r) (req_path r) of
        Some h \<Rightarrow>
          (if req_path_params r \<noteq> [] \<or> req_route_pattern r \<noteq> None then call_replaced hs h [] None r w
           else call_handler hs h r w)
      | None \<Rightarrow>
          (case resolve eng rt (req_method r) (req_path r) w of
             (Inl RoutePathTooLarge, w1) \<Rightarrow> (raised_py (response_text (lit ''request target is too large'') 414 []), w1)
           | (Inl err, w1) \<Rightarrow> (Inl (DispatchRoute err), w1)
           | (Inr m, w1) \<Rightarrow>
               (case rm_handler m of
                  None \<Rightarrow>
                    (if rm_allowed_methods m \<noteq> []
                     then (raised_py (response_text (lit ''method not allowed'') 405 (allow_header (rm_allowed_methods m))), w1)
                     else (raised_py (response_text (lit ''not found'') 404 []), w1))
                | Some h \<Rightarrow> call_replaced hs h (rm_path_params m) (rm_route_pattern m) r w1)))"

text \<open>What \<open>_connection_loop\<close> and \<open>_http2_handler\<close> make of it: the response, and the route to report to the observer. A
  \<open>BaseException\<close> goes through; it is \<open>Inl\<close>.\<close>

definition answer_outcome ::
  "('e dispatch_error + response) \<Rightarrow> (py_error + 'e) + (response \<times> pystr option)" where
  "answer_outcome r =
     (let fallback = (\<lambda>event. case response_text (lit ''internal server error'') 500 [] of
            Inl err \<Rightarrow> Inl (Inl err) | Inr resp \<Rightarrow> Inr (resp, event))
      in case r of
           Inr resp \<Rightarrow> Inr (resp, None)
         | Inl (DispatchRoute (RouteMatchTimeout route_id)) \<Rightarrow> fallback (Some route_id)
         | Inl (DispatchRoute _) \<Rightarrow> fallback None
         | Inl (DispatchRaised _) \<Rightarrow> fallback None
         | Inl (DispatchException _) \<Rightarrow> fallback None
         | Inl (DispatchBase e) \<Rightarrow> Inl (Inr e))"

text \<open>\<open>signal\<close> is \<open>sendSignal\<close> of the reporting task, as in the channel.\<close>

definition enqueue_route_error ::
  "(nat \<Rightarrow> 'w \<Rightarrow> bool \<times> 'w) \<Rightarrow> pystr option \<Rightarrow> (pystr, 'e) handle \<Rightarrow> 'w \<Rightarrow> (pystr, 'e) handle \<times> 'w" where
  "enqueue_route_error signal event h w =
     (case event of
        None \<Rightarrow> (h, w)
      | Some route_id \<Rightarrow>
          (case sh_channel h of
             None \<Rightarrow> (h, w)
           | Some ch \<Rightarrow> (case channel_enqueue signal route_id ch w of (_, ch1, w1) \<Rightarrow> (h\<lparr>sh_channel := Some ch1\<rparr>, w1))))"

section \<open>WebSocket routes\<close>

text \<open>\<open>open_sockets\<close> is \<open>len(handle._websocket_states)\<close>; \<open>unavailable\<close> the message of \<open>WebSocketUnavailable\<close> when wsproto
  cannot be imported.\<close>

datatype 'k ws_choice = AnswerUpgrade "py_error + response" | RunUpgrade "'k ws_route"

definition dispatch_websocket ::
  "(pystr \<times> 'k ws_route) list \<Rightarrow> int \<Rightarrow> int \<Rightarrow> pystr option \<Rightarrow> nat \<Rightarrow> request \<Rightarrow> 'k ws_choice" where
  "dispatch_websocket routes ws_limit limit unavailable open_sockets r =
     (case map_of routes (req_path r) of
        None \<Rightarrow> AnswerUpgrade (response_text (lit ''not found'') 404 [])
      | Some route \<Rightarrow>
          (case validate_upgrade r route of
             Some answer \<Rightarrow> AnswerUpgrade answer
           | None \<Rightarrow>
               if int open_sockets \<ge> min ws_limit limit
               then AnswerUpgrade (response_text (lit ''WebSocket capacity reached'') 503 [])
               else (case unavailable of
                       Some message \<Rightarrow> AnswerUpgrade (response_text message 503 [])
                     | None \<Rightarrow> RunUpgrade route)))"

section \<open>Registration of WebSocket routes\<close>

text \<open>\<open>websocket\<close> up to its decorator, and the decorator. The entries of \<open>origins\<close> and \<open>subprotocols\<close> are strings.\<close>

definition websocket_check ::
  "(pystr \<times> 'k ws_route) list \<Rightarrow> pystr \<Rightarrow> pystr list option \<Rightarrow> pystr list \<Rightarrow> py_error + pystr list option \<times> pystr list" where
  "websocket_check routes path origins subprotocols =
     (if \<not> starts_with (lit ''/'') path then Inl (ValueError (lit ''WebSocket route path must start with '' @ [39, 47, 39]))
      else if 63 \<in> set path \<or> 35 \<in> set path
      then Inl (ValueError (lit ''WebSocket route path must not contain query or fragment''))
      else if map_of routes path \<noteq> None then Inl (ValueError (lit ''WebSocket route already registered: '' @ path))
      else if (case origins of None \<Rightarrow> False | Some os \<Rightarrow> [] \<in> set os)
      then Inl (ValueError (lit ''WebSocket origins must be non-empty strings''))
      else
        let protocols = dedup subprotocols
        in if \<not> list_all is_http_token protocols
           then Inl (ValueError (lit ''WebSocket subprotocols must be valid HTTP tokens''))
           else Inr (map_option dedup origins, protocols))"

definition websocket_register ::
  "pystr \<Rightarrow> pystr list option \<times> pystr list \<Rightarrow> 'k \<Rightarrow> (pystr \<times> 'k ws_route) list \<Rightarrow> py_error + (pystr \<times> 'k ws_route) list" where
  "websocket_register path checked handler routes =
     (if map_of routes path \<noteq> None then Inl (ValueError (lit ''WebSocket route already registered: '' @ path))
      else Inr (dict_set path \<lparr>wr_handler = handler, wr_origins = fst checked, wr_subprotocols = snd checked\<rparr> routes))"

definition route_check :: "pystr \<Rightarrow> pystr list \<Rightarrow> py_error + pystr list" where
  "route_check path methods =
     (if \<not> starts_with (lit ''/'') path then Inl (ValueError (lit ''route path must start with '' @ [39, 47, 39]))
      else if 63 \<in> set path \<or> 35 \<in> set path
      then Inl (ValueError (lit ''route path must not contain a query string or fragment''))
      else normalize_methods methods)"

end
