(* ===== verification/Http1_Connection.thy ===== *)
theory Http1_Connection
  imports Dispatch Http1_Parser Transport_Laws WS_Tasks
begin

text \<open>
  \<open>_connection_loop\<close> of \<open>smallserver/app.py\<close>: one HTTP/1.1 connection from its first byte to its one answer. It
  composes the transport, the parser, the dispatch and the framing of responses. What runs at the same time in other tasks is
  seen through the world: \<open>he_closed\<close> is \<open>handle.closed\<close>, \<open>he_open_sockets\<close> the number of WebSocket states.

  The result \<open>conn_end\<close> is what the \<open>finally\<close> block works on: the error passed to \<open>_connection_finished\<close> and the route
  to report; it also records the response that was sent, or the upgrade with which the WebSocket coordinator went on.
\<close>

section \<open>The environment\<close>

datatype 'e conn_error = ConnPy py_error | ConnTransport "'e transport_error" | ConnRaised 'e

record ('s, 'a, 'ch, 'o, 'c, 'h, 'k, 'e, 'w) http_env =
  he_kernel :: "('s, 'a, 'ch, 'o, 'e, 'w) kernel"
  he_engine :: "('c, 'w) engine"
  he_router :: "('h, 'c) router"
  he_handlers :: "('h, 'e, 'w) handlers"
  he_ws_routes :: "(pystr \<times> 'k ws_route) list"
  he_ws_limit :: int
  he_max_connections :: int
  he_ws_unavailable :: "pystr option"
  he_receive_chunk_bytes :: int
  he_closed :: "'w \<Rightarrow> bool"
  he_open_sockets :: "'w \<Rightarrow> nat"
  he_base :: "'e \<Rightarrow> bool"

text \<open>\<open>he_base\<close> tells the exceptions that are no \<open>Exception\<close>.\<close>

record ('k, 'e) conn_end =
  ce_answer :: "response option"
  ce_upgrade :: "(request \<times> 'k ws_route \<times> bytes) option"
  ce_error :: "'e conn_error option"
  ce_event :: "pystr option"

definition quiet_end :: "('k, 'e) conn_end" where
  "quiet_end = \<lparr>ce_answer = None, ce_upgrade = None, ce_error = None, ce_event = None\<rparr>"

section \<open>Answering\<close>

definition send_response ::
  "('s, 'a, 'ch, 'o, 'c, 'h, 'k, 'e, 'w) http_env \<Rightarrow> 's \<Rightarrow> response \<Rightarrow> 'w \<Rightarrow> ('e conn_error option \<times> 'w) option" where
  "send_response env raw resp w =
     (case closing_payload resp of
        Inl err \<Rightarrow> Some (Some (ConnPy err), w)
      | Inr payload \<Rightarrow>
          (case send_all (he_kernel env) raw payload w of
             None \<Rightarrow> None | Some (r, w1) \<Rightarrow> Some (map_option ConnTransport r, w1)))"

definition answer ::
  "('s, 'a, 'ch, 'o, 'c, 'h, 'k, 'e, 'w) http_env \<Rightarrow> 's \<Rightarrow> py_error + response \<Rightarrow> pystr option \<Rightarrow> 'w \<Rightarrow>
   (('k, 'e) conn_end \<times> 'w) option" where
  "answer env raw r event w =
     (case r of
        Inl err \<Rightarrow> Some (quiet_end\<lparr>ce_error := Some (ConnPy err), ce_event := event\<rparr>, w)
      | Inr resp \<Rightarrow>
          (case send_response env raw resp w of
             None \<Rightarrow> None
           | Some (err, w1) \<Rightarrow> Some (quiet_end\<lparr>ce_answer := Some resp, ce_error := err, ce_event := event\<rparr>, w1)))"

text \<open>The rest of a turn once \<open>parser.feed\<close> has returned a request or raised.\<close>

definition respond ::
  "('s, 'a, 'ch, 'o, 'c, 'h, 'k, 'e, 'w) http_env \<Rightarrow> 's \<Rightarrow> parse_error + request \<Rightarrow> bytes \<Rightarrow> 'w \<Rightarrow>
   (('k, 'e) conn_end \<times> 'w) option" where
  "respond env raw parsed trailing w =
     (case parsed of
        Inl (HTTPParseError status detail) \<Rightarrow> answer env raw (response_text detail status []) None w
      | Inl (Escaped err) \<Rightarrow> Some (quiet_end\<lparr>ce_error := Some (ConnPy err)\<rparr>, w)
      | Inr r \<Rightarrow>
          if is_upgrade_attempt r then
            (case dispatch_websocket (he_ws_routes env) (he_ws_limit env) (he_max_connections env) (he_ws_unavailable env)
                    (he_open_sockets env w) r of
               AnswerUpgrade resp \<Rightarrow> answer env raw resp None w
             | RunUpgrade route \<Rightarrow> Some (quiet_end\<lparr>ce_upgrade := Some (r, route, trailing)\<rparr>, w))
          else if trailing \<noteq> [] then answer env raw (response_text (lit ''pipelined requests are not supported'') 400 []) None w
          else
            (case dispatch (he_engine env) (he_router env) (he_handlers env) r w of
               (outcome, w1) \<Rightarrow>
                 (case answer_outcome outcome of
                    Inl (Inl err) \<Rightarrow> Some (quiet_end\<lparr>ce_error := Some (ConnPy err)\<rparr>, w1)
                  | Inl (Inr e) \<Rightarrow> Some (quiet_end\<lparr>ce_error := Some (ConnRaised e)\<rparr>, w1)
                  | Inr (resp, event) \<Rightarrow> answer env raw (Inr resp) event w1)))"

section \<open>The loop\<close>

partial_function (option) connection_loop ::
  "('s, 'a, 'ch, 'o, 'c, 'h, 'k, 'e, 'w) http_env \<Rightarrow> 's \<Rightarrow> h1_parser \<Rightarrow> 'w \<Rightarrow> (('k, 'e) conn_end \<times> 'w) option" where
  "connection_loop env raw parser w =
     (if he_closed env w then Some (quiet_end, w)
      else case transport_recv (he_kernel env) raw (he_receive_chunk_bytes env) w of
             None \<Rightarrow> None
           | Some (Inl err, w1) \<Rightarrow>
               Some (if (case err of KernelRaised e \<Rightarrow> he_base env e | _ \<Rightarrow> False)
                     then quiet_end\<lparr>ce_error := Some (ConnTransport err)\<rparr> else quiet_end, w1)
           | Some (Inr chunk, w1) \<Rightarrow>
               if chunk = [] then Some (quiet_end, w1)
               else case h1_feed parser chunk of
                      (Inr None, parser1) \<Rightarrow> connection_loop env raw parser1 w1
                    | (Inr (Some r), parser1) \<Rightarrow> respond env raw (Inr r) (hp_trailing parser1) w1
                    | (Inl err, parser1) \<Rightarrow> respond env raw (Inl err) [] w1)"

text \<open>The \<open>finally\<close> block.\<close>

definition connection_done ::
  "('e conn_error, 'w) host \<Rightarrow> (nat \<Rightarrow> 'w \<Rightarrow> bool \<times> 'w) \<Rightarrow> nat \<Rightarrow> nat \<Rightarrow> ('k, 'e) conn_end \<Rightarrow>
   (pystr, 'e conn_error) handle \<Rightarrow> 'w \<Rightarrow> (pystr, 'e conn_error) handle \<times> 'w" where
  "connection_done host signal task c ce h w =
     (case enqueue_route_error signal (ce_event ce) h w of (h1, w1) \<Rightarrow> connection_finished host task c (ce_error ce) h1 w1)"

section \<open>What the rest of the program is asked\<close>

text \<open>Reading from the stream: \<open>got\<close> is what has been received from it and \<open>wrote\<close> what has been sent on it. A receive appends
  what it returns to \<open>got\<close>; nothing else about a receive, an error or a wait changes either. The kernel does not
  ask for a retry for ever.\<close>

definition reading_kernel ::
  "('s, 'a, 'ch, 'o, 'e, 'w) kernel \<Rightarrow> 's \<Rightarrow> int \<Rightarrow> ('w \<Rightarrow> bytes) \<Rightarrow> ('w \<Rightarrow> bytes) \<Rightarrow> ('w \<Rightarrow> nat) \<Rightarrow> bool" where
  "reading_kernel k raw limit got wrote stalls =
     ((\<forall>w r w'. k_socket_recv k raw limit w = (r, w') \<longrightarrow> wrote w' = wrote w \<and>
         got w' = got w @ (case r of Inr (Some data) \<Rightarrow> data | _ \<Rightarrow> [])) \<and>
      (\<forall>e w r w'. wait_for_retry k raw e OpRecv w = (r, w') \<longrightarrow> wrote w' = wrote w \<and> got w' = got w) \<and>
      (\<forall>w e w1 w2. k_socket_recv k raw limit w = (Inl e, w1) \<longrightarrow> wait_for_retry k raw e OpRecv w1 = (None, w2) \<longrightarrow>
         stalls w2 < stalls w))"

text \<open>The application does not write to the stream behind the server's back, and its responses are \<open>Response\<close> objects.\<close>

definition quiet_app :: "('s, 'a, 'ch, 'o, 'c, 'h, 'k, 'e, 'w) http_env \<Rightarrow> ('w \<Rightarrow> bytes) \<Rightarrow> bool" where
  "quiet_app env wrote =
     ((\<forall>h r w. wrote (snd (he_handlers env h r w)) = wrote w) \<and>
      (\<forall>w. wrote (snd (eng_clock (he_engine env) w)) = wrote w) \<and>
      (\<forall>c path limit w. wrote (snd (eng_fullmatch (he_engine env) c path limit w)) = wrote w))"

definition valid_replies :: "('h, 'e, 'w) handlers \<Rightarrow> bool" where
  "valid_replies hs = (\<forall>h r w resp w'. hs h r w = (Replied resp, w') \<longrightarrow> response_wf resp)"

section \<open>The transport returns\<close>

lemma transport_recv_returns:
  assumes k: "reading_kernel k raw limit got wrote stalls"
  shows "\<exists>r w'. transport_recv k raw limit w = Some (r, w') \<and> wrote w' = wrote w \<and>
    got w' = got w @ (case r of Inr data \<Rightarrow> data | Inl _ \<Rightarrow> [])"
proof (induction "stalls w" arbitrary: w rule: less_induct)
  case less
  obtain r w1 where r: "k_socket_recv k raw limit w = (r, w1)" by fastforce
  have one: "wrote w1 = wrote w" "got w1 = got w @ (case r of Inr (Some data) \<Rightarrow> data | _ \<Rightarrow> [])"
    using k r unfolding reading_kernel_def by blast+
  show ?case
  proof (cases r)
    case (Inr data)
    then show ?thesis using r one by (subst transport_recv.simps) (cases data; simp)
  next
    case (Inl e)
    obtain q w2 where q: "wait_for_retry k raw e OpRecv w1 = (q, w2)" by fastforce
    have two: "wrote w2 = wrote w1" "got w2 = got w1" using k q unfolding reading_kernel_def by blast+
    show ?thesis
    proof (cases q)
      case (Some e')
      then show ?thesis using r q Inl one two by (subst transport_recv.simps) simp
    next
      case None
      have "stalls w2 < stalls w" using k r q Inl None unfolding reading_kernel_def by blast
      from less [OF this] obtain r' w' where "transport_recv k raw limit w2 = Some (r', w')" "wrote w' = wrote w2"
        "got w' = got w2 @ (case r' of Inr data \<Rightarrow> data | Inl _ \<Rightarrow> [])" by blast
      then show ?thesis using r q Inl None one two by (subst transport_recv.simps) simp
    qed
  qed
qed

lemma send_response_returns:
  assumes "wire_kernel (he_kernel env) raw wrote" and "finite_stalls (he_kernel env) raw stalls"
  shows "\<exists>err w'. send_response env raw resp w = Some (err, w') \<and>
    (case closing_payload resp of
       Inl e \<Rightarrow> err = Some (ConnPy e) \<and> wrote w' = wrote w
     | Inr payload \<Rightarrow> \<exists>r. err = map_option ConnTransport r \<and> sent_right wrote payload w r w')"
proof (cases "closing_payload resp")
  case (Inr payload)
  obtain r w' where "send_from (he_kernel env) raw payload 0 w = Some (r, w')" "sent_right wrote payload w r w'"
    using send_from_returns [OF assms, of 0 payload w] by auto
  then show ?thesis using Inr by (auto simp: send_response_def send_all_def)
qed (simp add: send_response_def)

section \<open>A connection comes to an end\<close>

text \<open>The parser waits for a bounded number of bytes.\<close>

definition parser_room :: "h1_parser \<Rightarrow> nat \<times> nat" where
  "parser_room p =
     (case hp_head p of
        None \<Rightarrow> (1, nat (hp_max_header_bytes p) - length (hp_buffer p))
      | Some (m, t, h, n) \<Rightarrow> (0, n - length (hp_buffer p)))"

lemma parser_room_less:
  assumes "h1_pending p" and "h1_feed p chunk = (Inr None, p')" and "chunk \<noteq> []"
  shows "(parser_room p', parser_room p) \<in> less_than <*lex*> less_than"
proof (cases "hp_head p")
  case None
  show ?thesis
  proof (cases "find_sub [13, 10, 13, 10] (hp_buffer p @ chunk)")
    case no_marker: None
    then have "p' = p\<lparr>hp_buffer := hp_buffer p @ chunk\<rparr>" "int (length (hp_buffer p @ chunk)) \<le> hp_max_header_bytes p"
      using assms(2) None by (auto simp: h1_feed_def Let_def split: if_splits)
    then have full: "length (hp_buffer p) + length chunk \<le> nat (hp_max_header_bytes p)" "hp_head p' = None"
      "length (hp_buffer p') = length (hp_buffer p) + length chunk" "hp_max_header_bytes p' = hp_max_header_bytes p"
      using None by simp_all
    have grow: "length (hp_buffer p) < length (hp_buffer p) + length chunk" using assms(3) by simp
    with full(1) have "length (hp_buffer p) < nat (hp_max_header_bytes p)" by linarith
    from diff_less_mono2 [OF grow this] show ?thesis using None full by (simp add: parser_room_def)
  next
    case (Some marker)
    then obtain rh where "feed_body (p\<lparr>hp_head := Some rh, hp_buffer := drop (marker + 4) (hp_buffer p @ chunk)\<rparr>) rh = (Inr None, p')"
      using assms(2) None by (auto simp: h1_feed_def Let_def split: if_splits sum.splits)
    moreover have "hp_preserve_trailing p" using assms(1) by (simp add: h1_pending_def)
    ultimately have "hp_head p' \<noteq> None" by (cases rh) (auto simp: feed_body_None_iff)
    then show ?thesis using None by (auto simp: parser_room_def)
  qed
next
  case (Some rh)
  obtain m t h n where rh: "rh = (m, t, h, n)" by (cases rh)
  have "hp_preserve_trailing p" "length (hp_buffer p) < n" using assms(1) Some rh by (simp_all add: h1_pending_def)
  then have "p' = p\<lparr>hp_buffer := hp_buffer p @ chunk\<rparr>"
    using assms(2) Some rh by (simp add: h1_feed_def Let_def feed_body_None_iff)
  moreover have "length (hp_buffer p) < length (hp_buffer p) + length chunk" using assms(3) by simp
  ultimately show ?thesis using Some rh \<open>length (hp_buffer p) < n\<close> by (simp add: parser_room_def diff_less_mono2)
qed

text \<open>What a turn left when all bytes received are parsed at once, \<open>fed\<close>: the connection is undecided and ends without an
  answer, or it responds in the world \<open>w1\<close>.\<close>

definition settled ::
  "('s, 'a, 'ch, 'o, 'c, 'h, 'k, 'e, 'w) http_env \<Rightarrow> 's \<Rightarrow> (parse_error + request option) \<times> h1_parser \<Rightarrow>
   ('k, 'e) conn_end \<Rightarrow> 'w \<Rightarrow> 'w \<Rightarrow> bool" where
  "settled env raw fed ce w1 w' =
     (case fed of
        (Inr None, _) \<Rightarrow> ce_answer ce = None \<and> ce_upgrade ce = None \<and> ce_event ce = None \<and> w' = w1
      | (Inr (Some r), parser) \<Rightarrow> respond env raw (Inr r) (hp_trailing parser) w1 = Some (ce, w')
      | (Inl err, _) \<Rightarrow> respond env raw (Inl err) [] w1 = Some (ce, w'))"

lemma answer_returns:
  assumes "wire_kernel (he_kernel env) raw wrote" and "finite_stalls (he_kernel env) raw stalls"
  shows "\<exists>ce w'. answer env raw r event w = Some (ce, w')"
proof (cases r)
  case (Inr resp)
  then show ?thesis using send_response_returns [OF assms, of resp w] by (auto simp: answer_def)
qed (simp add: answer_def)

lemma respond_returns:
  assumes "wire_kernel (he_kernel env) raw wrote" and "finite_stalls (he_kernel env) raw stalls"
  shows "\<exists>ce w'. respond env raw parsed trailing w = Some (ce, w')"
  using answer_returns [OF assms]
  by (auto simp: respond_def split: sum.split parse_error.split ws_choice.split prod.split)

lemma connection_loop_settles:
  assumes w: "wire_kernel (he_kernel env) raw wrote" and s: "finite_stalls (he_kernel env) raw stalls"
    and r: "reading_kernel (he_kernel env) raw (he_receive_chunk_bytes env) got wrote waits"
  shows "h1_pending p \<Longrightarrow> \<exists>ce w' data w1. connection_loop env raw p w = Some (ce, w') \<and> got w1 = got w @ data \<and>
    wrote w1 = wrote w \<and> settled env raw (h1_feed p data) ce w1 w'"
proof (induction "parser_room p" arbitrary: p w rule: wf_induct_rule [OF wf_lex_prod [OF wf_less_than wf_less_than]])
  case (1 p)
  note IH = "1.hyps" and pending = "1.prems"
  have idle: "h1_feed p [] = (Inr None, p)" using pending by (rule h1_feed_nothing)
  show ?case
  proof (cases "he_closed env w")
    case True
    then show ?thesis
      by (subst connection_loop.simps)
        (auto simp: settled_def idle quiet_end_def intro!: exI [of _ "[]"] exI [of _ w])
  next
    case False
    obtain q w1 where q: "transport_recv (he_kernel env) raw (he_receive_chunk_bytes env) w = Some (q, w1)"
      "wrote w1 = wrote w" "got w1 = got w @ (case q of Inr data \<Rightarrow> data | Inl _ \<Rightarrow> [])"
      using transport_recv_returns [OF r] by blast
    show ?thesis
    proof (cases "q = Inr [] \<or> (\<exists>e. q = Inl e)")
      case True
      then show ?thesis using False q
        by (subst connection_loop.simps)
          (auto simp: settled_def idle quiet_end_def intro!: exI [of _ "[]"] exI [of _ w1])
    next
      case more: False
      then obtain chunk where chunk: "q = Inr chunk" "chunk \<noteq> []" by (cases q) auto
      obtain v p' where f: "h1_feed p chunk = (v, p')" by fastforce
      show ?thesis
      proof (cases "v = Inr None")
        case True
        have "(parser_room p', parser_room p) \<in> less_than <*lex*> less_than"
          using parser_room_less [OF pending _ chunk(2)] f True by simp
        moreover have "h1_pending p'" using h1_feed_pending [OF pending] f True by simp
        ultimately obtain ce w' data w2 where IH': "connection_loop env raw p' w1 = Some (ce, w')" "got w2 = got w1 @ data"
          "wrote w2 = wrote w1" "settled env raw (h1_feed p' data) ce w2 w'"
          using IH by blast
        have "h1_feed p (chunk @ data) = h1_feed p' data" using h1_feed_more [OF pending] f True by simp
        moreover have "connection_loop env raw p w = Some (ce, w')"
          using False q chunk f True IH'(1) by (subst connection_loop.simps) simp
        ultimately show ?thesis
          using IH' q chunk by (intro exI [of _ ce] exI [of _ w'] exI [of _ "chunk @ data"] exI [of _ w2]) simp
      next
        case False
        define next_step where "next_step = (case v of Inr (Some req) \<Rightarrow> respond env raw (Inr req) (hp_trailing p') w1
          | Inl err \<Rightarrow> respond env raw (Inl err) [] w1 | Inr None \<Rightarrow> None)"
        have "\<exists>ce w'. next_step = Some (ce, w')"
          using respond_returns [OF w s] False by (cases v) (auto simp: next_step_def split: option.split)
        then obtain ce w' where n: "next_step = Some (ce, w')" by blast
        have "connection_loop env raw p w = next_step"
          using \<open>\<not> he_closed env w\<close> q chunk f False
          by (subst connection_loop.simps) (auto simp: next_step_def split: sum.split option.split)
        moreover have "settled env raw (h1_feed p chunk) ce w1 w'"
          using n f False by (auto simp: settled_def next_step_def split: sum.splits option.splits)
        ultimately show ?thesis
          using n q chunk by (intro exI [of _ ce] exI [of _ w'] exI [of _ chunk] exI [of _ w1]) simp
      qed
    qed
  qed
qed

section \<open>What is on the wire\<close>

lemma match_route_quiet:
  assumes "\<And>w. wrote (snd (eng_clock e w)) = wrote w" and "\<And>c path limit w. wrote (snd (eng_fullmatch e c path limit w)) = wrote w"
    and "match_route e config route path deadline w = (r, w')"
  shows "wrote w' = wrote w"
proof -
  obtain now w1 where c: "eng_clock e w = (now, w1)" by fastforce
  define limit where "limit = min (rc_match_timeout config) (deadline - now)"
  obtain outcome w2 where m: "eng_fullmatch e (rr_compiled route) path limit w1 = (outcome, w2)" by fastforce
  have "wrote w1 = wrote w" "wrote w2 = wrote w1"
    using assms(1) [of w] assms(2) [of "rr_compiled route" path limit w1] c m by simp_all
  moreover have "w' = w1 \<or> w' = w2"
    using assms(3) c m unfolding match_route_def Let_def limit_def by (auto split: if_splits match_outcome.splits)
  ultimately show ?thesis by auto
qed

lemma scan_routes_quiet:
  assumes "\<And>w. wrote (snd (eng_clock e w)) = wrote w" and "\<And>c path limit w. wrote (snd (eng_fullmatch e c path limit w)) = wrote w"
  shows "scan_routes e config meth path deadline i routes cached w = (r, w') \<Longrightarrow> wrote w' = wrote w"
proof (induction routes arbitrary: i cached w)
  case (Cons route routes)
  obtain q w1 where q: "match_route e config route path deadline w = (q, w1)" by fastforce
  have "wrote w1 = wrote w" by (rule match_route_quiet [where wrote = wrote, OF assms q])
  then show ?case using Cons q by (auto split: if_splits sum.splits option.splits)
qed simp

lemma collect_allowed_quiet:
  assumes "\<And>w. wrote (snd (eng_clock e w)) = wrote w" and "\<And>c path limit w. wrote (snd (eng_fullmatch e c path limit w)) = wrote w"
  shows "collect_allowed e config path deadline i routes cached allowed w = (r, w') \<Longrightarrow> wrote w' = wrote w"
proof (induction routes arbitrary: i allowed w)
  case (Cons route routes)
  obtain q w1 where q: "(case map_of cached i of Some m \<Rightarrow> (Inr m, w) | None \<Rightarrow> match_route e config route path deadline w) = (q, w1)"
    by fastforce
  then have "wrote w1 = wrote w"
    using match_route_quiet [where wrote = wrote, OF assms] by (auto split: option.splits)
  then show ?case using Cons q by (auto split: sum.splits)
qed simp

lemma resolve_quiet:
  assumes "\<And>w. wrote (snd (eng_clock e w)) = wrote w" and "\<And>c path limit w. wrote (snd (eng_fullmatch e c path limit w)) = wrote w"
    and "resolve e rt meth path w = (r, w')"
  shows "wrote w' = wrote w"
  using assms(1) [of w] assms(3) scan_routes_quiet [where wrote = wrote, OF assms(1,2)]
    collect_allowed_quiet [where wrote = wrote, OF assms(1,2)]
  by (fastforce simp: resolve_def Let_def split: option.splits if_splits sum.splits prod.splits)

lemma dispatch_quiet:
  assumes "quiet_app env wrote" and "dispatch (he_engine env) (he_router env) (he_handlers env) r w = (q, w')"
  shows "wrote w' = wrote w"
proof -
  have call: "call_handler (he_handlers env) h r w = (q, w') \<Longrightarrow> wrote w' = wrote w" for h r q w w'
    using assms(1) unfolding quiet_app_def call_handler_def
    by (cases "he_handlers env h r w") (auto split: handler_result.splits dest: spec [of _ h] elim!: allE [of _ r] allE [of _ w])
  have replaced: "call_replaced (he_handlers env) h ps pat r w = (q, w') \<Longrightarrow> wrote w' = wrote w" for h ps pat r q w w'
    using call by (auto simp: call_replaced_def split: sum.splits)
  have resolved: "resolve (he_engine env) (he_router env) meth path w = (q, w') \<Longrightarrow> wrote w' = wrote w" for meth path q w w'
    using assms(1) resolve_quiet [where wrote = wrote] unfolding quiet_app_def by blast
  obtain m w1 where m: "resolve (he_engine env) (he_router env) (req_method r) (req_path r) w = (m, w1)" by fastforce
  show ?thesis
    using assms(2) call replaced resolved [OF m] m unfolding dispatch_def
    by (auto split: option.splits if_splits sum.splits route_error.splits; metis)
qed

section \<open>The one answer\<close>

lemma closing_payload_ok:
  assumes wf: "response_wf r"
  shows "\<exists>r'. response_wf r' \<and> resp_status r' = resp_status r \<and> resp_body r' = resp_body r \<and>
    headers_items (resp_headers r') =
      filter (\<lambda>e. py_lower (fst e) \<noteq> lit ''connection'') (headers_items (resp_headers r)) @ [(lit ''Connection'', lit ''close'')] \<and>
    closing_payload r = to_http1 r'"
proof -
  let ?items = "filter (\<lambda>e. py_lower (fst e) \<noteq> lit ''connection'') (headers_items (resp_headers r)) @ [(lit ''Connection'', lit ''close'')]"
  have h: "headers_wf (resp_headers r)" using wf by (simp add: response_wf_def)
  have lower: "py_lower (lit ''Connection'') = lit ''connection''" by (simp add: py_lower_def lower1_def py_text)
  have ok: "list_all (\<lambda>(n, v). is_token n \<and> header_value_ok v) ?items"
    using headers_wf_item [OF h] by (auto simp: list_all_iff is_token_def token_char_def header_value_ok_def py_text)
  have "distinct (map (\<lambda>e. py_lower (fst e)) (headers_items (resp_headers r)))"
    using headers_wf_init [OF h] by (simp add: headers_init_Inr_iff)
  then have "distinct (map (\<lambda>e. py_lower (fst e)) ?items)" using lower by (auto simp: distinct_map_filter)
  with ok obtain hd' where hd': "headers_init ?items = Inr hd'" by (simp add: headers_init_Inr_iff)
  note wf' = headers_init_wf [OF hd'] and items = headers_init_items [OF hd']
  have len: "py_lower (lit ''content-length'') \<noteq> lit ''connection''" by (simp add: py_lower_def lower1_def py_text)
  have "headers_get hd' (lit ''content-length'') = Some v \<longleftrightarrow> headers_get (resp_headers r) (lit ''content-length'') = Some v" for v
    unfolding headers_get_Some_iff [OF wf'] headers_get_Some_iff [OF h] items using len lower by auto
  then have "headers_get hd' (lit ''content-length'') = headers_get (resp_headers r) (lit ''content-length'')"
    by (metis not_None_eq)
  then have "content_length_ok hd' (resp_body r)" using wf by (simp add: response_wf_def content_length_ok_def)
  then have "response_init (resp_status r) (resp_body r) hd' = Inr \<lparr>resp_status = resp_status r, resp_body = resp_body r, resp_headers = hd'\<rparr>"
    "response_wf \<lparr>resp_status = resp_status r, resp_body = resp_body r, resp_headers = hd'\<rparr>"
    using wf wf' by (simp_all add: response_init_def response_wf_def)
  then show ?thesis using hd' items
    by (intro exI [of _ "\<lparr>resp_status = resp_status r, resp_body = resp_body r, resp_headers = hd'\<rparr>"])
      (simp add: closing_payload_def bind_sum_def)
qed

lemma closing_payload_framed:
  assumes "response_wf r" and "closing_payload r = Inr payload"
  shows "\<exists>n. find_sub [13, 10, 13, 10] payload = Some n \<and> drop (n + 4) payload = resp_body r \<and>
    hd (split_crlf (latin1_decode (take n payload))) = status_line (resp_status r) \<and>
    last (split_crlf (latin1_decode (take n payload))) = lit ''Connection: close''"
proof -
  obtain r' where r': "response_wf r'" "resp_status r' = resp_status r" "resp_body r' = resp_body r"
    "headers_items (resp_headers r') =
      filter (\<lambda>e. py_lower (fst e) \<noteq> lit ''connection'') (headers_items (resp_headers r)) @ [(lit ''Connection'', lit ''close'')]"
    "closing_payload r = to_http1 r'"
    using closing_payload_ok [OF assms(1)] by blast
  have h: "headers_wf (resp_headers r')" using r'(1) by (simp add: response_wf_def)
  have "payload = map of_nat (join_with crlf (response_lines r')) @ [13, 10, 13, 10] @ resp_body r'"
    using assms(2) r'(5) to_http1_eq [OF h] by simp
  note framed = head_of_clean_lines [OF response_lines_not_Nil response_lines_clean [OF h] this]
  have "last (response_lines r') = lit ''Connection: close''"
    by (simp add: response_lines_def r'(4) header_line_def py_text)
  moreover have "hd (response_lines r') = status_line (resp_status r)" by (simp add: response_lines_def r'(2))
  ultimately show ?thesis using framed r'(3) by auto
qed

definition answered :: "('w \<Rightarrow> bytes) \<Rightarrow> 'w \<Rightarrow> ('k, 'e) conn_end \<Rightarrow> 'w \<Rightarrow> bool" where
  "answered wrote w ce w' =
     (case ce_answer ce of
        None \<Rightarrow> wrote w' = wrote w
      | Some resp \<Rightarrow> response_wf resp \<and>
          (\<exists>payload r. closing_payload resp = Inr payload \<and> ce_error ce = map_option ConnTransport r \<and>
             sent_right wrote payload w r w'))"

lemma sent_right_same: "wrote w1 = wrote w \<Longrightarrow> sent_right wrote data w1 r w' = sent_right wrote data w r w'"
  unfolding sent_right_def by (simp split: option.split transport_error.split)

lemma answered_same: "answered wrote w1 ce w' \<Longrightarrow> wrote w1 = wrote w \<Longrightarrow> answered wrote w ce w'"
  by (cases "ce_answer ce") (simp_all add: answered_def sent_right_same [of wrote w1 w])

lemma answer_answered:
  assumes "wire_kernel (he_kernel env) raw wrote" and "finite_stalls (he_kernel env) raw stalls"
    and wf: "\<And>resp. r = Inr resp \<Longrightarrow> response_wf resp" and run: "answer env raw r event w = Some (ce, w')"
  shows "answered wrote w ce w'"
proof (cases r)
  case (Inr resp)
  obtain payload where payload: "closing_payload resp = Inr payload"
    using closing_payload_ok [OF wf [OF Inr]] to_http1_eq by (metis response_wf_def)
  obtain q w2 where q: "send_response env raw resp w = Some (map_option ConnTransport q, w2)" "sent_right wrote payload w q w2"
    using send_response_returns [OF assms(1,2), of resp w] payload by auto
  then show ?thesis using run Inr wf payload by (auto simp: answer_def answered_def quiet_end_def)
qed (use run in \<open>auto simp: answer_def answered_def quiet_end_def\<close>)

lemma response_text_wf: "response_text value_text status hs = Inr resp \<Longrightarrow> response_wf resp"
  using headers_init_wf
  by (auto simp: response_text_def response_init_def response_wf_def Let_def bind_sum_def split: option.splits sum.splits if_splits)

lemma dispatch_wf:
  assumes "valid_replies hs" and "dispatch eng rt hs r w = (Inr resp, w')"
  shows "response_wf resp"
proof -
  have py: "raised_py q = Inr resp \<Longrightarrow> (\<And>a. q = Inr a \<Longrightarrow> response_wf a) \<Longrightarrow> response_wf resp" for q :: "py_error + response"
    by (cases q) (auto simp: raised_py_def)
  have call: "call_handler hs h r w = (Inr resp, w') \<Longrightarrow> response_wf resp" for h r w w'
    using assms(1) response_text_wf py unfolding valid_replies_def call_handler_def http_error_response_def
    by (cases "hs h r w") (auto split: handler_result.splits; blast)
  have "call_replaced hs h ps pat r w = (Inr resp, w') \<Longrightarrow> response_wf resp" for h ps pat r w w'
    using call by (auto simp: call_replaced_def split: sum.splits)
  with assms(2) call py response_text_wf show ?thesis
    unfolding dispatch_def by (auto split: option.splits if_splits sum.splits route_error.splits prod.splits; blast)
qed

lemma respond_answered:
  assumes w: "wire_kernel (he_kernel env) raw wrote" and s: "finite_stalls (he_kernel env) raw stalls"
    and quiet: "quiet_app env wrote" and valid: "valid_replies (he_handlers env)"
    and run: "respond env raw parsed trailing w = Some (ce, w')"
  shows "answered wrote w ce w'"
proof -
  note sent = answer_answered [OF w s]
  have sent_text: "answered wrote w ce w'" if "answer env raw (response_text v st hs) event w = Some (ce, w')" for v st hs event
    by (rule sent [OF _ that]) (rule response_text_wf)
  have silent: "answered wrote w (quiet_end\<lparr>ce_error := err\<rparr>) w1" "answered wrote w (quiet_end\<lparr>ce_upgrade := up\<rparr>) w1"
    if "wrote w1 = wrote w" for err up w1
    using that by (simp_all add: answered_def quiet_end_def)
  show ?thesis
  proof (cases parsed)
    case (Inl err)
    then show ?thesis using run sent_text silent(1) [OF refl] by (cases err) (auto simp: respond_def)
  next
    case (Inr r)
    show ?thesis
    proof (cases "is_upgrade_attempt r")
      case True
      let ?choice = "dispatch_websocket (he_ws_routes env) (he_ws_limit env) (he_max_connections env) (he_ws_unavailable env)
        (he_open_sockets env w) r"
      show ?thesis
      proof (cases ?choice)
        case (AnswerUpgrade q)
        have "response_wf resp" if "q = Inr resp" for resp
          using AnswerUpgrade that response_text_wf validate_upgrade_Some
          by (fastforce simp: dispatch_websocket_def split: option.splits if_splits)
        then show ?thesis using run Inr True AnswerUpgrade sent [of q None w ce w'] by (auto simp: respond_def)
      next
        case (RunUpgrade route)
        then show ?thesis using run Inr True silent [OF refl] by (auto simp: respond_def)
      qed
    next
      case False
      show ?thesis
      proof (cases "trailing = []")
        case no_trailing: False
        then show ?thesis using run Inr False sent_text by (auto simp: respond_def)
      next
        case True
        obtain q w1 where q: "dispatch (he_engine env) (he_router env) (he_handlers env) r w = (q, w1)" by fastforce
        note same = dispatch_quiet [OF quiet q]
        have wf: "response_wf resp" if "answer_outcome q = Inr (resp, event)" for resp event
          using that dispatch_wf [OF valid] q response_text_wf
          by (auto simp: answer_outcome_def Let_def split: sum.splits dispatch_error.splits route_error.splits)
        show ?thesis
        proof (cases "answer_outcome q")
          case (Inl err)
          then show ?thesis using run Inr False True q silent(1) [OF same] by (cases err) (auto simp: respond_def)
        next
          case out: (Inr a)
          obtain resp event where a: "a = (resp, event)" by (cases a)
          have "answered wrote w1 ce w'"
            using run Inr False True q out a sent [of "Inr resp" event w1 ce w'] wf by (auto simp: respond_def)
          then show ?thesis using same by (rule answered_same)
        qed
      qed
    qed
  qed
qed

section \<open>The properties\<close>

text \<open>A kernel with the chunks still to come, what has been received and what has been sent.\<close>

definition pipe_kernel :: "(nat, nat, nat, nat, nat, bytes list \<times> bytes \<times> bytes) kernel" where
  "pipe_kernel = \<lparr>k_resolve_passive_address = \<lambda>h p w. (Inr 0, w), k_socket_open = \<lambda>a w. (Inr 0, w),
     k_socket_setblocking = \<lambda>s b w. (None, w), k_socket_set_reuse_address = \<lambda>s b w. (None, w),
     k_socket_bind = \<lambda>s a w. (None, w), k_socket_listen = \<lambda>s b w. (None, w), k_socket_accept = \<lambda>s w. (Inr (0, 0), w),
     k_socket_local_address = \<lambda>s w. (Inr None, w), k_socket_peer_address = \<lambda>s w. (Inr None, w),
     k_socket_recv = \<lambda>s n w. (case w of ([], r, t) \<Rightarrow> (Inr (Some []), w) | (c # cs, r, t) \<Rightarrow> (Inr (Some c), (cs, r @ c, t))),
     k_socket_send = \<lambda>s data w. (case w of (cs, r, t) \<Rightarrow> (Inr (Some (int (length data))), (cs, r, t @ data))),
     k_socket_close = \<lambda>s w. (None, w), k_socket_retry_mode = \<lambda>e op w. (Inr ModeOther, w),
     k_wait_readable = \<lambda>s w. (None, w), k_wait_writable = \<lambda>s w. (None, w),
     k_create_wakeup_channel = \<lambda>w. (Inr 0, w), k_validate_io_wait_object = \<lambda>ob w. (Inr (True, None), w),
     k_channel_callable = \<lambda>c n. True, k_channel_wait_object = \<lambda>c w. (Inr 0, w), k_channel_notify = \<lambda>c w. (None, w),
     k_channel_drain = \<lambda>c w. (None, w), k_channel_close = \<lambda>c w. (None, w)\<rparr>"

definition pipe_env :: "(nat, nat, nat, nat, nat, nat, nat, nat, bytes list \<times> bytes \<times> bytes) http_env" where
  "pipe_env = \<lparr>he_kernel = pipe_kernel,
     he_engine = \<lparr>eng_compile = \<lambda>s. None, eng_groups = \<lambda>c. [], eng_fullmatch = \<lambda>c path limit w. (NoMatch, w), eng_clock = \<lambda>w. (0, w)\<rparr>,
     he_router = router_init sample_config,
     he_handlers = \<lambda>h r w. (NotResponse, w), he_ws_routes = [], he_ws_limit = 1, he_max_connections = 1, he_ws_unavailable = None,
     he_receive_chunk_bytes = 4, he_closed = \<lambda>w. False, he_open_sockets = \<lambda>w. 0, he_base = \<lambda>e. False\<rparr>"

lemma pipe_env_ok:
  "wire_kernel (he_kernel pipe_env) 0 (\<lambda>w. snd (snd w))" "finite_stalls (he_kernel pipe_env) 0 (\<lambda>w. 0)"
  "reading_kernel (he_kernel pipe_env) 0 (he_receive_chunk_bytes pipe_env) (\<lambda>w. fst (snd w)) (\<lambda>w. snd (snd w)) (\<lambda>w. 0)"
  "quiet_app pipe_env (\<lambda>w. snd (snd w))" "valid_replies (he_handlers pipe_env)"
  by (auto simp: wire_kernel_def finite_stalls_def reading_kernel_def quiet_app_def valid_replies_def pipe_env_def pipe_kernel_def
      wait_for_retry_def split: list.splits prod.splits)

lemma pipe_calls:
  "transport_recv pipe_kernel raw n (c # cs, r, t) = Some (Inr c, (cs, r @ c, t))"
  "send_all pipe_kernel raw data (cs, r, t) = Some (None, (cs, r, t @ data))"
proof -
  show "transport_recv pipe_kernel raw n (c # cs, r, t) = Some (Inr c, (cs, r @ c, t))"
    by (subst transport_recv.simps) (simp add: pipe_kernel_def)
  have stop: "send_from pipe_kernel raw data (length data) (cs, r, t @ data) = Some (None, (cs, r, t @ data))"
    by (subst send_from.simps) simp
  show "send_all pipe_kernel raw data (cs, r, t) = Some (None, (cs, r, t @ data))"
    unfolding send_all_def by (subst send_from.simps) (use stop in \<open>simp add: pipe_kernel_def\<close>)
qed

lemma pipe_run:
  "\<exists>ce w'. connection_loop pipe_env 0 (h1_init 64 4 8 16 True) ([[71], [13, 10, 13, 10]], [], []) = Some (ce, w') \<and>
     (\<exists>resp. ce_answer ce = Some resp \<and> resp_status resp = 400) \<and> ce_error ce = None"
proof -
  let ?p = "h1_init 64 4 8 16 True"
  have one: "h1_feed ?p [71] = (Inr None, ?p\<lparr>hp_buffer := [71]\<rparr>)" by (simp add: h1_feed_def h1_init_def)
  have two: "fst (h1_feed (?p\<lparr>hp_buffer := [71]\<rparr>) [13, 10, 13, 10]) = Inl (HTTPParseError 400 (lit ''malformed request line''))"
    by (simp add: h1_feed_def h1_init_def parse_head_def latin1_decode_def)
  obtain resp where resp: "response_text (lit ''malformed request line'') 400 [] = Inr resp" "resp_status resp = 400" "response_wf resp"
    using text_response_ok [of "lit ''malformed request line''" 400 "[]"] by (auto simp: is_ascii_def py_text)
  then obtain payload where payload: "closing_payload resp = Inr payload"
    using closing_payload_ok to_http1_eq by (metis response_wf_def)
  have env: "he_kernel pipe_env = pipe_kernel" "\<not> he_closed pipe_env w" for w by (simp_all add: pipe_env_def)
  obtain p2 where two': "h1_feed (?p\<lparr>hp_buffer := [71]\<rparr>) [13, 10, 13, 10] = (Inl (HTTPParseError 400 (lit ''malformed request line'')), p2)"
    using two by (metis prod.collapse)
  have "connection_loop pipe_env 0 (?p\<lparr>hp_buffer := [71]\<rparr>) ([[13, 10, 13, 10]], [71], []) =
      Some (quiet_end\<lparr>ce_answer := Some resp, ce_error := None, ce_event := None\<rparr>, ([], [71, 13, 10, 13, 10], payload))"
    using resp payload two' env by (subst connection_loop.simps) (simp add: pipe_calls respond_def answer_def send_response_def)
  then have "connection_loop pipe_env 0 ?p ([[71], [13, 10, 13, 10]], [], []) =
      Some (quiet_end\<lparr>ce_answer := Some resp, ce_error := None, ce_event := None\<rparr>, ([], [71, 13, 10, 13, 10], payload))"
    using one env by (subst connection_loop.simps) (simp add: pipe_calls)
  then show ?thesis using resp(2) by simp
qed

text \<open>C23. A connection ends, and its chunks do not matter. For any kernel that does not stall for ever and any
  application, the loop of an HTTP/1.1 connection returns; and what it did is what a server does that gets all the
  received bytes at once: undecided bytes get no answer, a parse error or a request is responded to once,
  and from then on nothing more is read. The parser's limits are what bounds the loop.\<close>

theorem connection_is_one_shot:
  assumes "wire_kernel (he_kernel env) raw wrote" and "finite_stalls (he_kernel env) raw stalls"
    and "reading_kernel (he_kernel env) raw (he_receive_chunk_bytes env) got wrote waits" and "0 \<le> header_bytes"
  shows "\<exists>ce w' data w1. connection_loop env raw (h1_init header_bytes headers body_bytes target_bytes True) w = Some (ce, w') \<and>
    got w1 = got w @ data \<and> wrote w1 = wrote w \<and>
    (case h1_feed (h1_init header_bytes headers body_bytes target_bytes True) data of
       (Inr None, _) \<Rightarrow> ce_answer ce = None \<and> ce_upgrade ce = None \<and> ce_event ce = None \<and> w' = w1
     | (Inr (Some r), parser) \<Rightarrow> respond env raw (Inr r) (hp_trailing parser) w1 = Some (ce, w')
     | (Inl err, _) \<Rightarrow> respond env raw (Inl err) [] w1 = Some (ce, w'))"
  using connection_loop_settles [OF assms(1-3) h1_pending_init [OF assms(4)]] unfolding settled_def .

lemma connection_is_one_shot_witness:
  "\<exists>ce w'. connection_loop pipe_env 0 (h1_init 64 4 8 16 True) ([[71], [13, 10, 13, 10]], [], []) = Some (ce, w')"
  using connection_is_one_shot [OF pipe_env_ok(1-3), of 64 4 8 16 "([[71], [13, 10, 13, 10]], [], [])"] by auto

text \<open>C24. A connection gets at most one answer. What the server has sent on it when the loop ends is nothing, or the
  serialisation of one well-formed response: its own status line first, \<open>Connection: close\<close> as its last header, then a blank
  line and exactly its body. All of it is sent when no error is reported, a prefix when the kernel failed in the
  middle. Errors of handlers, of the router and of the parser never leak bytes of a second response.\<close>

theorem connection_answers_once:
  assumes "wire_kernel (he_kernel env) raw wrote" and "finite_stalls (he_kernel env) raw stalls"
    and "reading_kernel (he_kernel env) raw (he_receive_chunk_bytes env) got wrote waits" and "0 \<le> header_bytes"
    and "quiet_app env wrote" and "valid_replies (he_handlers env)"
    and "connection_loop env raw (h1_init header_bytes headers body_bytes target_bytes True) w = Some (ce, w')"
  shows "case ce_answer ce of
      None \<Rightarrow> wrote w' = wrote w
    | Some resp \<Rightarrow> \<exists>payload n. closing_payload resp = Inr payload \<and>
        find_sub [13, 10, 13, 10] payload = Some n \<and> drop (n + 4) payload = resp_body resp \<and>
        hd (split_crlf (latin1_decode (take n payload))) = status_line (resp_status resp) \<and>
        last (split_crlf (latin1_decode (take n payload))) = lit ''Connection: close'' \<and>
        (ce_error ce = None \<longrightarrow> wrote w' = wrote w @ payload) \<and>
        (\<forall>e. ce_error ce = Some (ConnTransport (KernelRaised e)) \<longrightarrow> (\<exists>sent. prefix sent payload \<and> wrote w' = wrote w @ sent))"
proof -
  let ?p = "h1_init header_bytes headers body_bytes target_bytes True"
  obtain data w1 where s: "wrote w1 = wrote w" "settled env raw (h1_feed ?p data) ce w1 w'"
    using connection_loop_settles [OF assms(1-3) h1_pending_init [OF assms(4), of headers body_bytes target_bytes], of w] assms(7) by auto
  obtain v q where v: "h1_feed ?p data = (v, q)" by fastforce
  have "answered wrote w1 ce w'"
  proof (cases "v = Inr None")
    case True
    then show ?thesis using s(2) v by (simp add: settled_def answered_def)
  next
    case False
    then obtain parsed trailing where "respond env raw parsed trailing w1 = Some (ce, w')"
      using s(2) v by (auto simp: settled_def split: sum.splits option.splits)
    then show ?thesis by (rule respond_answered [OF assms(1,2,5,6)])
  qed
  then have a: "answered wrote w ce w'" using s(1) by (rule answered_same)
  show ?thesis
  proof (cases "ce_answer ce")
    case (Some resp)
    then obtain payload r where p: "response_wf resp" "closing_payload resp = Inr payload"
      "ce_error ce = map_option ConnTransport r" "sent_right wrote payload w r w'"
      using a by (auto simp: answered_def)
    from closing_payload_framed [OF p(1,2)] show ?thesis
      using p(2-4) Some by (cases r) (auto simp: sent_right_def)
  qed (use a in \<open>simp add: answered_def\<close>)
qed

lemma connection_answers_once_witness:
  "\<exists>ce w' payload resp. connection_loop pipe_env 0 (h1_init 64 4 8 16 True) ([[71], [13, 10, 13, 10]], [], []) = Some (ce, w') \<and>
     ce_answer ce = Some resp \<and> resp_status resp = 400 \<and> closing_payload resp = Inr payload \<and> snd (snd w') = payload"
proof -
  obtain ce w' resp where run: "connection_loop pipe_env 0 (h1_init 64 4 8 16 True) ([[71], [13, 10, 13, 10]], [], []) = Some (ce, w')"
    "ce_answer ce = Some resp" "resp_status resp = 400" "ce_error ce = None"
    using pipe_run by blast
  from connection_answers_once [OF pipe_env_ok(1-3) _ pipe_env_ok(4,5) run(1)] run(2-4) show ?thesis
    by (intro exI [of _ ce] exI [of _ w']) (auto simp: run(1))
qed

end
