(* ===== verification/Configs.thy ===== *)
theory Configs
  imports Routing WS_State
begin

text \<open>
  The configuration of a listener: \<open>ServerConfig\<close> of \<open>smallserver/server.py\<close>, \<open>ManagedRuntimeConfig\<close> of
  \<open>runtime.py\<close>, \<open>WebSocketConfig\<close> of \<open>websocket.py\<close>, and how \<open>SmallServer\<close> (\<open>app.py\<close>) resolves it and gives priorities
  to its tasks. The constructors' checks come in the order of the code; the checks that a value is an
  \<open>int\<close>, a \<open>bool\<close> or a mapping are ruled out by the types of the records. Times are integers, milliseconds in the defaults.
\<close>

section \<open>The managed runtime\<close>

record managed_config =
  mc_task_capacity :: int
  mc_priority_levels :: int
  mc_io_buffer_length :: int
  mc_eternal_watchers :: bool
  mc_client_defaults :: "(pystr \<times> (pystr \<times> int) list) list option"

definition positive_int :: "pystr \<Rightarrow> int \<Rightarrow> py_error + unit" where
  "positive_int name v = (if v \<le> 0 then Inl (ValueError (name @ lit '' must be greater than 0'')) else Inr ())"

definition non_negative_int :: "pystr \<Rightarrow> int \<Rightarrow> py_error + unit" where
  "non_negative_int name v = (if v < 0 then Inl (ValueError (name @ lit '' must be 0 or greater'')) else Inr ())"

text \<open>The two loops over \<open>client_defaults\<close>: the settings of a section, then the sections.\<close>

fun check_settings :: "pystr \<Rightarrow> (pystr \<times> int) list \<Rightarrow> py_error + (pystr \<times> int) list" where
  "check_settings section_name [] = Inr []"
| "check_settings section_name ((name, v) # settings) =
     (if name = [] then Inl (TypeError (lit ''client_defaults setting names must be non-empty strings''))
      else bind_sum (non_negative_int (lit ''client_defaults.'' @ section_name @ lit ''.'' @ name) v)
        (\<lambda>_. bind_sum (check_settings section_name settings) (\<lambda>checked. Inr ((name, v) # checked))))"

fun check_sections :: "(pystr \<times> (pystr \<times> int) list) list \<Rightarrow> py_error + (pystr \<times> (pystr \<times> int) list) list" where
  "check_sections [] = Inr []"
| "check_sections ((section_name, settings) # sections) =
     (if section_name = [] then Inl (TypeError (lit ''client_defaults section names must be non-empty strings''))
      else bind_sum (check_settings section_name settings)
        (\<lambda>checked. bind_sum (check_sections sections) (\<lambda>others. Inr ((section_name, checked) # others))))"

definition managed_init :: "managed_config \<Rightarrow> py_error + managed_config" where
  "managed_init c =
     bind_sum (positive_int (lit ''task_capacity'') (mc_task_capacity c)) (\<lambda>_.
     bind_sum (positive_int (lit ''priority_levels'') (mc_priority_levels c)) (\<lambda>_.
       if mc_priority_levels c < 2 then Inl (ValueError (lit ''priority_levels must be at least 2''))
       else bind_sum (non_negative_int (lit ''io_buffer_length'') (mc_io_buffer_length c)) (\<lambda>_.
         case mc_client_defaults c of
           None \<Rightarrow> Inr c
         | Some sections \<Rightarrow>
             bind_sum (check_sections sections) (\<lambda>normalized. Inr (c\<lparr>mc_client_defaults := Some normalized\<rparr>)))))"

definition managed_default :: managed_config where
  "managed_default =
     \<lparr>mc_task_capacity = 1024, mc_priority_levels = 10, mc_io_buffer_length = 1024, mc_eternal_watchers = False,
      mc_client_defaults = None\<rparr>"

text \<open>The plain data for SmallOS.\<close>

datatype plain = PInt int | PBool bool | PNone | PDict "(pystr \<times> (pystr \<times> int) list) list"

definition to_smallos_config :: "managed_config \<Rightarrow> (pystr \<times> plain) list" where
  "to_smallos_config c =
     [(lit ''task_capacity'', PInt (mc_task_capacity c)), (lit ''priority_levels'', PInt (mc_priority_levels c)),
      (lit ''io_buffer_length'', PInt (mc_io_buffer_length c)), (lit ''eternal_watchers'', PBool (mc_eternal_watchers c)),
      (lit ''client_defaults'', case mc_client_defaults c of None \<Rightarrow> PNone | Some sections \<Rightarrow> PDict sections)]"

section \<open>The server\<close>

record server_config =
  sc_max_connections :: int
  sc_max_header_bytes :: int
  sc_max_header_count :: int
  sc_max_body_bytes :: int
  sc_receive_chunk_bytes :: int
  sc_listener_priority :: int
  sc_connection_priority :: int
  sc_accept_batch_size :: int
  sc_max_request_target_bytes :: int
  sc_max_route_error_events :: int
  sc_managed_runtime :: "managed_config option"

definition server_config_default :: server_config where
  "server_config_default =
     \<lparr>sc_max_connections = 100, sc_max_header_bytes = 16 * 1024, sc_max_header_count = 100, sc_max_body_bytes = 1024 * 1024,
      sc_receive_chunk_bytes = 8 * 1024, sc_listener_priority = 1, sc_connection_priority = 2, sc_accept_batch_size = 16,
      sc_max_request_target_bytes = 8 * 1024, sc_max_route_error_events = 16, sc_managed_runtime = None\<rparr>"

definition server_config_init :: "server_config \<Rightarrow> py_error + server_config" where
  "server_config_init c =
     bind_sum (check_positive
       [(lit ''max_connections'', sc_max_connections c), (lit ''max_header_bytes'', sc_max_header_bytes c),
        (lit ''max_header_count'', sc_max_header_count c), (lit ''max_body_bytes'', sc_max_body_bytes c),
        (lit ''receive_chunk_bytes'', sc_receive_chunk_bytes c), (lit ''listener_priority'', sc_listener_priority c),
        (lit ''connection_priority'', sc_connection_priority c), (lit ''accept_batch_size'', sc_accept_batch_size c),
        (lit ''max_request_target_bytes'', sc_max_request_target_bytes c),
        (lit ''max_route_error_events'', sc_max_route_error_events c)] (lit '' must be a positive integer''))
     (\<lambda>_. Inr c)"

section \<open>WebSockets\<close>

definition ws_config_default :: ws_config where
  "ws_config_default =
     \<lparr>wc_max_frame_payload_bytes = 1024 * 1024, wc_max_message_bytes = 1024 * 1024, wc_max_inbound_messages = 16,
      wc_max_inbound_bytes = 2 * 1024 * 1024, wc_max_outbound_commands = 16, wc_max_outbound_bytes = 2 * 1024 * 1024,
      wc_receive_chunk_bytes = 16 * 1024, wc_write_chunk_bytes = 16 * 1024, wc_max_connections = 100,
      wc_handshake_timeout = 10000, wc_idle_timeout = 300000, wc_pong_timeout = 10000, wc_write_timeout = 30000,
      wc_close_timeout = 5000, wc_deadline_resolution = 50\<rparr>"

definition ws_config_init :: "ws_config \<Rightarrow> py_error + ws_config" where
  "ws_config_init c =
     bind_sum (check_positive
       [(lit ''max_frame_payload_bytes'', wc_max_frame_payload_bytes c), (lit ''max_message_bytes'', wc_max_message_bytes c),
        (lit ''max_inbound_messages'', wc_max_inbound_messages c), (lit ''max_inbound_bytes'', wc_max_inbound_bytes c),
        (lit ''max_outbound_commands'', wc_max_outbound_commands c), (lit ''max_outbound_bytes'', wc_max_outbound_bytes c),
        (lit ''receive_chunk_bytes'', wc_receive_chunk_bytes c), (lit ''write_chunk_bytes'', wc_write_chunk_bytes c),
        (lit ''max_connections'', wc_max_connections c)] (lit '' must be a positive integer''))
     (\<lambda>_. bind_sum (check_positive
       [(lit ''handshake_timeout'', wc_handshake_timeout c), (lit ''idle_timeout'', wc_idle_timeout c),
        (lit ''pong_timeout'', wc_pong_timeout c), (lit ''write_timeout'', wc_write_timeout c),
        (lit ''close_timeout'', wc_close_timeout c), (lit ''deadline_resolution'', wc_deadline_resolution c)]
       (lit '' must be a finite positive number''))
     (\<lambda>_. if wc_max_frame_payload_bytes c > wc_max_message_bytes c
          then Inl (ValueError (lit ''max_frame_payload_bytes must not exceed max_message_bytes'')) else Inr c))"

section \<open>Resolving the configuration\<close>

text \<open>\<open>observed\<close> is whether a route error observer is set. \<open>resolve_runtime\<close> is the configuration of the runtime that
  \<open>listen\<close> creates.\<close>

definition resolve_runtime :: "server_config \<Rightarrow> managed_config" where
  "resolve_runtime c = (case sc_managed_runtime c of None \<Rightarrow> managed_default | Some m \<Rightarrow> m)"

definition resolve_server_config :: "bool \<Rightarrow> server_config option \<Rightarrow> bool \<Rightarrow> py_error + server_config" where
  "resolve_server_config observed config managed =
     (let resolved = (case config of None \<Rightarrow> server_config_default | Some c \<Rightarrow> c)
      in if \<not> managed \<and> sc_managed_runtime resolved \<noteq> None
         then Inl (ValueError (lit ''managed_runtime config applies only when SmallServer creates the runtime; configure a caller-supplied SmallOS directly''))
         else if managed then
           (let runtime = resolve_runtime resolved
            in if max (sc_listener_priority resolved) (sc_connection_priority resolved) \<ge> mc_priority_levels runtime
               then Inl (ValueError (lit ''server task priorities must be lower than managed runtime priority_levels''))
               else
                 let control_tasks = (if observed then 3 else 2);
                     required_tasks = sc_max_connections resolved + control_tasks
                 in if mc_task_capacity runtime < required_tasks
                    then Inl (ValueError (lit ''managed runtime task_capacity must be at least max_connections + '' @
                      int_str control_tasks @ lit '' for server control tasks''))
                    else Inr resolved)
         else Inr resolved)"

text \<open>The priorities of the tasks the server creates: the listener, the close watcher and the observer; the task of a
  connection and its WebSocket children; the writer, the shutdown enforcer and the watchdog of an HTTP/2 connection
  and its stream handlers.\<close>

definition control_priorities :: "server_config \<Rightarrow> int list" where
  "control_priorities c = [sc_listener_priority c, sc_listener_priority c, sc_listener_priority c]"

definition http2_priorities :: "server_config \<Rightarrow> int list" where
  "http2_priorities c =
     [sc_connection_priority c, sc_connection_priority c + 1, sc_connection_priority c + 1, sc_connection_priority c]"

section \<open>Lemmas\<close>

lemma check_positive_Inr: "check_positive entries msg = Inr u \<longleftrightarrow> (\<forall>e \<in> set entries. 0 < snd e)"
  by (induction entries msg rule: check_positive.induct) auto

lemma server_config_init_iff:
  "server_config_init c = Inr c' \<longleftrightarrow> c' = c \<and> 0 < sc_max_connections c \<and> 0 < sc_max_header_bytes c \<and> 0 < sc_max_header_count c \<and>
     0 < sc_max_body_bytes c \<and> 0 < sc_receive_chunk_bytes c \<and> 0 < sc_listener_priority c \<and> 0 < sc_connection_priority c \<and>
     0 < sc_accept_batch_size c \<and> 0 < sc_max_request_target_bytes c \<and> 0 < sc_max_route_error_events c"
  by (auto simp: server_config_init_def bind_sum_Inr_iff check_positive_Inr)

lemma check_settings_iff:
  "check_settings name settings = Inr r \<longleftrightarrow> r = settings \<and> (\<forall>(n, v) \<in> set settings. n \<noteq> [] \<and> 0 \<le> v)"
  by (induction name settings arbitrary: r rule: check_settings.induct) (auto simp: bind_sum_Inr_iff non_negative_int_def)

lemma check_sections_iff:
  "check_sections sections = Inr r \<longleftrightarrow>
     r = sections \<and> (\<forall>(s, settings) \<in> set sections. s \<noteq> [] \<and> (\<forall>(n, v) \<in> set settings. n \<noteq> [] \<and> 0 \<le> v))"
  by (induction sections arbitrary: r rule: check_sections.induct) (auto simp: bind_sum_Inr_iff check_settings_iff)

lemma managed_init_iff:
  "managed_init c = Inr c' \<longleftrightarrow> c' = c \<and> 0 < mc_task_capacity c \<and> 2 \<le> mc_priority_levels c \<and> 0 \<le> mc_io_buffer_length c \<and>
     (\<forall>sections. mc_client_defaults c = Some sections \<longrightarrow>
        (\<forall>(s, settings) \<in> set sections. s \<noteq> [] \<and> (\<forall>(n, v) \<in> set settings. n \<noteq> [] \<and> 0 \<le> v)))"
  by (cases c; cases "mc_client_defaults c")
    (auto simp: managed_init_def bind_sum_Inr_iff positive_int_def non_negative_int_def check_sections_iff)

lemma ws_config_init_iff:
  "ws_config_init c = Inr c' \<longleftrightarrow> c' = c \<and> 0 < wc_max_frame_payload_bytes c \<and> wc_max_frame_payload_bytes c \<le> wc_max_message_bytes c \<and>
     0 < wc_max_inbound_messages c \<and> 0 < wc_max_inbound_bytes c \<and> 0 < wc_max_outbound_commands c \<and>
     0 < wc_max_outbound_bytes c \<and> 0 < wc_receive_chunk_bytes c \<and> 0 < wc_write_chunk_bytes c \<and> 0 < wc_max_connections c \<and>
     0 < wc_handshake_timeout c \<and> 0 < wc_idle_timeout c \<and> 0 < wc_pong_timeout c \<and> 0 < wc_write_timeout c \<and>
     0 < wc_close_timeout c \<and> 0 < wc_deadline_resolution c"
  by (auto simp: ws_config_init_def bind_sum_Inr_iff check_positive_Inr split: if_splits)

lemma defaults_ok:
  "managed_init managed_default = Inr managed_default" "server_config_init server_config_default = Inr server_config_default"
  "ws_config_init ws_config_default = Inr ws_config_default"
  by (simp_all add: managed_init_iff managed_default_def server_config_init_iff server_config_default_def ws_config_init_iff
      ws_config_default_def)

text \<open>What the constructors have seen to.\<close>

definition constructed :: "server_config \<Rightarrow> bool" where
  "constructed c =
     (server_config_init c = Inr c \<and> (case sc_managed_runtime c of None \<Rightarrow> True | Some m \<Rightarrow> managed_init m = Inr m))"

lemma constructed_default: "constructed server_config_default"
  by (simp add: constructed_def defaults_ok) (simp add: server_config_default_def)

section \<open>The properties\<close>

text \<open>C30. The configuration a server starts with is in order. When \<open>listen\<close> or \<open>serve\<close> accepts a configuration built by the
  constructors, or none, every limit is positive; on a managed runtime the runtime's own configuration is valid
  too, the priorities of the control tasks and of the connections are below its levels, and all connections and
  the control tasks fit into its task table at the same time. It accepts every configuration of which this holds, and
  a caller's runtime exactly without a managed configuration.\<close>

theorem resolved_config_ok:
  assumes "\<And>c. config = Some c \<Longrightarrow> constructed c"
  shows "resolve_server_config observed config managed = Inr resolved \<longleftrightarrow>
    resolved = (case config of None \<Rightarrow> server_config_default | Some c \<Rightarrow> c) \<and>
    0 < sc_max_connections resolved \<and> 0 < sc_max_header_bytes resolved \<and> 0 < sc_max_header_count resolved \<and>
    0 < sc_max_body_bytes resolved \<and> 0 < sc_receive_chunk_bytes resolved \<and> 0 < sc_accept_batch_size resolved \<and>
    0 < sc_max_request_target_bytes resolved \<and> 0 < sc_max_route_error_events resolved \<and>
    (if managed then
       managed_init (resolve_runtime resolved) = Inr (resolve_runtime resolved) \<and>
       (\<forall>p \<in> set (control_priorities resolved) \<union> {sc_connection_priority resolved}.
          0 < p \<and> p < mc_priority_levels (resolve_runtime resolved)) \<and>
       sc_max_connections resolved + (if observed then 3 else 2) \<le> mc_task_capacity (resolve_runtime resolved)
     else sc_managed_runtime resolved = None)"
proof -
  define c where "c = (case config of None \<Rightarrow> server_config_default | Some c \<Rightarrow> c)"
  have c: "constructed c" using assms constructed_default by (simp add: c_def split: option.split)
  then have fields: "0 < sc_max_connections c" "0 < sc_max_header_bytes c" "0 < sc_max_header_count c" "0 < sc_max_body_bytes c"
    "0 < sc_receive_chunk_bytes c" "0 < sc_accept_batch_size c" "0 < sc_max_request_target_bytes c" "0 < sc_max_route_error_events c"
    "0 < sc_listener_priority c" "0 < sc_connection_priority c"
    by (simp_all add: constructed_def server_config_init_iff)
  have runtime: "managed_init (resolve_runtime c) = Inr (resolve_runtime c)"
    using c defaults_ok(1) by (auto simp: constructed_def resolve_runtime_def split: option.splits)
  have "resolve_server_config observed config managed = Inr resolved \<longleftrightarrow> resolved = c \<and>
      (if managed then max (sc_listener_priority c) (sc_connection_priority c) < mc_priority_levels (resolve_runtime c) \<and>
         sc_max_connections c + (if observed then 3 else 2) \<le> mc_task_capacity (resolve_runtime c)
       else sc_managed_runtime c = None)"
    unfolding resolve_server_config_def c_def [symmetric] Let_def by auto
  then show ?thesis unfolding c_def [symmetric] using fields runtime by (auto simp: control_priorities_def)
qed

lemma resolved_config_ok_witness: "resolve_server_config True None True = Inr server_config_default"
  using resolved_config_ok [of None True True server_config_default] defaults_ok(1)
  by (simp add: server_config_default_def resolve_runtime_def managed_default_def control_priorities_def)

text \<open>The check of the priorities misses the tasks of HTTP/2 connections. It compares the connection priority with the
  levels of the runtime, but the shutdown enforcer and the watchdog of an HTTP/2 connection run one level above it:
  with the highest priority the check admits, their priority is not one of the runtime's.\<close>

theorem http2_priority_unchecked:
  assumes "constructed c" and "sc_connection_priority c = mc_priority_levels (resolve_runtime c) - 1"
    and "sc_listener_priority c \<le> sc_connection_priority c"
    and "sc_max_connections c + 3 \<le> mc_task_capacity (resolve_runtime c)"
  shows "resolve_server_config observed (Some c) True = Inr c \<and>
    (\<exists>p \<in> set (http2_priorities c). \<not> p < mc_priority_levels (resolve_runtime c))"
  using assms by (auto simp: resolve_server_config_def Let_def http2_priorities_def)

lemma http2_priority_unchecked_witness:
  "resolve_server_config False (Some (server_config_default\<lparr>sc_connection_priority := 9\<rparr>)) True =
     Inr (server_config_default\<lparr>sc_connection_priority := 9\<rparr>)"
proof -
  let ?c = "server_config_default\<lparr>sc_connection_priority := 9\<rparr>"
  have "constructed ?c" by (simp add: constructed_def server_config_init_iff server_config_default_def)
  from http2_priority_unchecked [OF this, of False] show ?thesis
    by (simp add: server_config_default_def resolve_runtime_def managed_default_def)
qed

end
