(* ===== verification/H2_Connection.thy ===== *)
theory H2_Connection
  imports H2_Protocol Dispatch
begin

text \<open>
  The tasks of one HTTP/2 connection in \<open>smallserver/app.py\<close>: the reader \<open>_http2_connection_loop\<close>, the stream handlers,
  the writer, the shutdown enforcer and the watchdog, around \<open>_H2ConnectionState\<close>. A definition is one stretch of
  a task between two awaits. The server's handle, its host and hyper-h2 are as in the other theories; \<open>h2_tasks\<close> adds
  what this code asks of SmallOS tasks. Times are integers, in milliseconds.
\<close>

section \<open>The connection state\<close>

datatype 'e c2_error = C2Protocol h2_failure | C2Host 'e | C2Signal | C2Timeout pystr

text \<open>\<open>tk_signal\<close> is \<open>acceptSignal\<close> with its result code, \<open>tk_fork\<close> is \<open>fork\<close> of one or several tasks, \<open>tk_send\<close> is \<open>sendSignal\<close>
  as the observer channel uses it.\<close>

record ('x, 'v) h2_tasks =
  tk_done :: "nat \<Rightarrow> 'v \<Rightarrow> bool"
  tk_signal :: "nat \<Rightarrow> int \<Rightarrow> 'v \<Rightarrow> int \<times> 'v"
  tk_fork :: "nat list \<Rightarrow> 'v \<Rightarrow> 'x option \<times> 'v"
  tk_send :: "nat \<Rightarrow> 'v \<Rightarrow> bool \<times> 'v"

record ('w, 'e) c2 =
  cs_protocol :: "'w h2_state"
  cs_writer_task :: "nat option"
  cs_shutdown_task :: "nat option"
  cs_watchdog_task :: "nat option"
  cs_handlers :: "(nat \<times> nat) list"
  cs_closing :: bool
  cs_shutdown_requested :: bool
  cs_close_error_code :: h2_code
  cs_activity_epoch :: nat
  cs_failure :: "'e c2_error option"

definition c2_init :: "'w h2_state \<Rightarrow> ('w, 'e) c2" where
  "c2_init p =
     \<lparr>cs_protocol = p, cs_writer_task = None, cs_shutdown_task = None, cs_watchdog_task = None, cs_handlers = [],
      cs_closing = False, cs_shutdown_requested = False, cs_close_error_code = NO_ERROR, cs_activity_epoch = 0,
      cs_failure = None\<rparr>"

definition writer_signal :: int where "writer_signal = 30"

definition shutdown_signal :: int where "shutdown_signal = 29"

definition signal_task :: "('e c2_error, 'v) h2_tasks \<Rightarrow> nat option \<Rightarrow> int \<Rightarrow> 'v \<Rightarrow> 'e c2_error option \<times> 'v" where
  "signal_task tk target signal v =
     (case target of
        None \<Rightarrow> (None, v)
      | Some t \<Rightarrow>
          if tk_done tk t v then (None, v)
          else (case tk_signal tk t signal v of (code, v1) \<Rightarrow> (if code \<noteq> 0 then Some C2Signal else None, v1)))"

definition wake_writer :: "('e c2_error, 'v) h2_tasks \<Rightarrow> ('w, 'e) c2 \<Rightarrow> 'v \<Rightarrow> 'e c2_error option \<times> 'v" where
  "wake_writer tk s v = signal_task tk (cs_writer_task s) writer_signal v"

definition c2_request_shutdown :: "('e c2_error, 'v) h2_tasks \<Rightarrow> ('w, 'e) c2 \<Rightarrow> 'v \<Rightarrow> 'e c2_error option \<times> ('w, 'e) c2 \<times> 'v" where
  "c2_request_shutdown tk s v =
     (let s1 = s\<lparr>cs_shutdown_requested := True\<rparr>
      in case wake_writer tk s1 v of
           (Some err, v1) \<Rightarrow> (Some err, s1, v1)
         | (None, v1) \<Rightarrow> (case signal_task tk (cs_shutdown_task s1) shutdown_signal v1 of (err, v2) \<Rightarrow> (err, s1, v2)))"

definition mark_activity :: "('w, 'e) c2 \<Rightarrow> ('w, 'e) c2" where
  "mark_activity s = s\<lparr>cs_activity_epoch := cs_activity_epoch s + 1\<rparr>"

section \<open>The reader\<close>

text \<open>What the tasks of a connection share: the connection state, the handle and the world.\<close>

type_synonym ('w, 'e, 'v) shared = "('w, 'e) c2 \<times> (pystr, 'e c2_error) handle \<times> 'v"

text \<open>\<open>take_cancelled_streams\<close>: the handlers of reset streams are cancelled.\<close>

fun cancel_streams :: "('e c2_error, 'v) host \<Rightarrow> nat list \<Rightarrow> ('w, 'e, 'v) shared \<Rightarrow> ('w, 'e, 'v) shared" where
  "cancel_streams host [] st = st"
| "cancel_streams host (sid # sids) (s, h, v) =
     (case map_of (cs_handlers s) sid of
        None \<Rightarrow> cancel_streams host sids (s, h, v)
      | Some t \<Rightarrow>
          (case cancel_or_retain_task host t h v of
             (_, h1, v1) \<Rightarrow> cancel_streams host sids (s\<lparr>cs_handlers := dict_pop sid (cs_handlers s)\<rparr>, h1, v1)))"

text \<open>One handler task per completed request; creating or forking a task may raise.\<close>

fun spawn_handlers ::
  "('e c2_error, 'v) h2_tasks \<Rightarrow> ('e c2_error, 'v) host \<Rightarrow> (nat \<times> request) list \<Rightarrow> ('w, 'e, 'v) shared \<Rightarrow> 'e c2_error option \<times> ('w, 'e, 'v) shared" where
  "spawn_handlers tk host [] st = (None, st)"
| "spawn_handlers tk host ((sid, r) # items) (s, h, v) =
     (if \<not> is_stream_active sid (cs_protocol s) then spawn_handlers tk host items (s, h, v)
      else case host_new_task host v of
             (Inl err, v1) \<Rightarrow> (Some err, s, h, v1)
           | (Inr t, v1) \<Rightarrow>
               let s1 = s\<lparr>cs_handlers := dict_set sid t (cs_handlers s)\<rparr>;
                   h1 = h\<lparr>sh_owned_tasks := sh_owned_tasks h @ [t]\<rparr>
               in case tk_fork tk [t] v1 of
                    (Some err, v2) \<Rightarrow> (Some err, s1, h1, v2)
                  | (None, v2) \<Rightarrow> spawn_handlers tk host items (s1, h1, v2))"

text \<open>One round of the inner loop: \<open>Inl\<close> is the \<open>primary_error\<close> that ends the connection; \<open>Inr True\<close> asks for another round after
  a yield because whole frames are still queued.\<close>

definition reader_round ::
  "('e c2_error, 'v) h2_tasks \<Rightarrow> ('e c2_error, 'v) host \<Rightarrow> 'w h2lib \<Rightarrow> bytes \<Rightarrow> ('w, 'e, 'v) shared \<Rightarrow>
   ('e c2_error + bool) \<times> ('w, 'e, 'v) shared" where
  "reader_round tk host lib data st =
     (case st of (s, h, v) \<Rightarrow>
        case receive_data lib data (cs_protocol s) of
          (Inl err, p) \<Rightarrow> (Inl (C2Protocol err), s\<lparr>cs_protocol := p, cs_close_error_code := PROTOCOL_ERROR\<rparr>, h, v)
        | (Inr ready, p) \<Rightarrow>
            (case take_cancelled p of (sids, p1) \<Rightarrow>
               case spawn_handlers tk host ready (cancel_streams host sids (s\<lparr>cs_protocol := p1\<rparr>, h, v)) of
                 (Some err, st1) \<Rightarrow> (Inl err, st1)
               | (None, s1, h1, v1) \<Rightarrow>
                   (case wake_writer tk s1 v1 of
                      (Some err, v2) \<Rightarrow> (Inl err, s1, h1, v2)
                    | (None, v2) \<Rightarrow> (Inr (has_pending_input (cs_protocol s1)), s1, h1, v2))))"

definition reader_chunk2 ::
  "('e c2_error, 'v) h2_tasks \<Rightarrow> ('e c2_error, 'v) host \<Rightarrow> 'w h2lib \<Rightarrow> bytes \<Rightarrow> ('w, 'e, 'v) shared \<Rightarrow>
   ('e c2_error + bool) \<times> ('w, 'e, 'v) shared" where
  "reader_chunk2 tk host lib chunk st = (case st of (s, h, v) \<Rightarrow> reader_round tk host lib chunk (mark_activity s, h, v))"

text \<open>The condition of the outer loop.\<close>

definition reader_goes_on :: "('w, 'e, 'v) shared \<Rightarrow> bool" where
  "reader_goes_on st = (case st of (s, h, v) \<Rightarrow> \<not> handle_closed h \<and> \<not> h2_remote_closed (cs_protocol s))"

text \<open>Whether the reader yields before its next receive, and the count of batches then.\<close>

definition batch_yield :: "h2_config \<Rightarrow> nat \<Rightarrow> bool \<times> nat" where
  "batch_yield c batches =
     (if int (batches + 1) \<ge> hc_reader_frame_batch_size c then (True, 0) else (False, batches + 1))"

text \<open>The start: the three helpers are created in this order, and registered before they are forked.\<close>

definition start_helpers ::
  "('e c2_error, 'v) h2_tasks \<Rightarrow> ('e c2_error, 'v) host \<Rightarrow> nat \<Rightarrow> ('w, 'e, 'v) shared \<Rightarrow> 'e c2_error option \<times> ('w, 'e, 'v) shared" where
  "start_helpers tk host client st =
     (case st of (s, h, v) \<Rightarrow>
        case host_new_task host v of
          (Inl err, v1) \<Rightarrow> (Some err, s, h, v1)
        | (Inr writer, v1) \<Rightarrow>
            let s1 = s\<lparr>cs_writer_task := Some writer\<rparr>
            in case host_new_task host v1 of
                 (Inl err, v2) \<Rightarrow> (Some err, s1, h, v2)
               | (Inr enforcer, v2) \<Rightarrow>
                   let s2 = s1\<lparr>cs_shutdown_task := Some enforcer\<rparr>
                   in case host_new_task host v2 of
                        (Inl err, v3) \<Rightarrow> (Some err, s2, h, v3)
                      | (Inr watchdog, v3) \<Rightarrow>
                          let s3 = s2\<lparr>cs_watchdog_task := Some watchdog\<rparr>;
                              h1 = h\<lparr>sh_owned_tasks := sh_owned_tasks h @ [writer, enforcer, watchdog]\<rparr>
                          in case tk_fork tk [writer, enforcer, watchdog] v3 of
                               (Some err, v4) \<Rightarrow> (Some err, s3, h1, v4)
                             | (None, v4) \<Rightarrow> (None, s3, register_graceful client h1, v4))"

text \<open>The \<open>finally\<close> block up to its last send: every handler and helper is cancelled, and the GOAWAY is made.\<close>

fun cancel_all :: "('e c2_error, 'v) host \<Rightarrow> nat list \<Rightarrow> (pystr, 'e c2_error) handle \<Rightarrow> 'v \<Rightarrow> (pystr, 'e c2_error) handle \<times> 'v" where
  "cancel_all host [] h v = (h, v)"
| "cancel_all host (t # ts) h v = (case cancel_or_retain_task host t h v of (_, h1, v1) \<Rightarrow> cancel_all host ts h1 v1)"

fun cancel_helpers ::
  "('e c2_error, 'v) host \<Rightarrow> nat \<Rightarrow> nat option list \<Rightarrow> (pystr, 'e c2_error) handle \<Rightarrow> 'v \<Rightarrow> (pystr, 'e c2_error) handle \<times> 'v" where
  "cancel_helpers host task [] h v = (h, v)"
| "cancel_helpers host task (child # children) h v =
     (case child of
        None \<Rightarrow> cancel_helpers host task children h v
      | Some t \<Rightarrow>
          if t = task then cancel_helpers host task children h v
          else (case cancel_or_retain_task host t h v of
                  (_, h1, v1) \<Rightarrow>
                    cancel_helpers host task children (h1\<lparr>sh_owned_tasks := remove1 t (sh_owned_tasks h1)\<rparr>) v1))"

definition connection_ending ::
  "('e c2_error, 'v) host \<Rightarrow> 'w h2lib \<Rightarrow> nat \<Rightarrow> nat \<Rightarrow> bool \<Rightarrow> ('w, 'e, 'v) shared \<Rightarrow> bytes \<times> ('w, 'e, 'v) shared" where
  "connection_ending host lib task client interrupted st =
     (case st of (s, h, v) \<Rightarrow>
        case cancel_all host (map snd (cs_handlers s)) h v of (h1, v1) \<Rightarrow>
        case cancel_helpers host task [cs_writer_task s, cs_shutdown_task s, cs_watchdog_task s] h1 v1 of (h2, v2) \<Rightarrow>
          let s1 = s\<lparr>cs_closing := True, cs_handlers := []\<rparr>
          in if interrupted then ([], s1, h2, v2)
             else (case h2_close lib (cs_close_error_code s1) (cs_protocol s1) of
                     (goaway, p) \<Rightarrow> (if client \<in> set (sh_closed h2) then [] else goaway, s1\<lparr>cs_protocol := p\<rparr>, h2, v2)))"

text \<open>The error the connection ends with, taken before that send; and its end.\<close>

definition ending_error :: "'e c2_error option \<Rightarrow> ('w, 'e) c2 \<Rightarrow> 'e c2_error option" where
  "ending_error primary s = (case primary of None \<Rightarrow> cs_failure s | Some e \<Rightarrow> Some e)"

definition connection_ended2 ::
  "('e c2_error, 'v) host \<Rightarrow> nat \<Rightarrow> nat \<Rightarrow> 'e c2_error option \<Rightarrow> ('w, 'e, 'v) shared \<Rightarrow> ('w, 'e, 'v) shared" where
  "connection_ended2 host task client primary st =
     (case st of (s, h, v) \<Rightarrow> case connection_finished host task client primary h v of (h1, v1) \<Rightarrow> (s, h1, v1))"

section \<open>A stream handler\<close>

text \<open>What the dispatch came to is \<open>answer_outcome\<close>; a \<open>BaseException\<close> leaves the stream unanswered.\<close>

definition handler_leaves :: "nat \<Rightarrow> nat \<Rightarrow> ('w, 'e, 'v) shared \<Rightarrow> ('w, 'e, 'v) shared" where
  "handler_leaves sid task st =
     (case st of (s, h, v) \<Rightarrow>
        (s\<lparr>cs_handlers := dict_pop sid (cs_handlers s)\<rparr>, h\<lparr>sh_owned_tasks := remove1 task (sh_owned_tasks h)\<rparr>, v))"

definition handler_ended ::
  "('e c2_error, 'v) h2_tasks \<Rightarrow> 'w h2lib \<Rightarrow> nat \<Rightarrow> nat \<Rightarrow> (py_error + 'e) + (response \<times> pystr option) \<Rightarrow> ('w, 'e, 'v) shared \<Rightarrow>
   'e c2_error option \<times> ('w, 'e, 'v) shared" where
  "handler_ended tk lib sid task outcome st =
     (case st of (s, h, v) \<Rightarrow>
        case outcome of
          Inl err \<Rightarrow>
            (Some (case err of Inl e \<Rightarrow> C2Protocol (H2Error e) | Inr e \<Rightarrow> C2Host e),
             handler_leaves sid task (s\<lparr>cs_protocol := drop_stream sid (cs_protocol s)\<rparr>, h, v))
        | Inr (resp, event) \<Rightarrow>
            (case enqueue_route_error (tk_send tk) event h v of (h1, v1) \<Rightarrow>
               let s1 = s\<lparr>cs_protocol := snd (queue_response lib sid resp (cs_protocol s))\<rparr>
               in case wake_writer tk s1 v1 of (err, v2) \<Rightarrow> (err, handler_leaves sid task (s1, h1, v2))))"

text \<open>A handler cancelled while it waits, after its first step, runs its \<open>finally\<close> block.\<close>

definition handler_unwound :: "nat \<Rightarrow> nat \<Rightarrow> ('w, 'e, 'v) shared \<Rightarrow> ('w, 'e, 'v) shared" where
  "handler_unwound sid task st =
     (case st of (s, h, v) \<Rightarrow> handler_leaves sid task (s\<lparr>cs_protocol := drop_stream sid (cs_protocol s)\<rparr>, h, v))"

section \<open>The writer\<close>

datatype 'e writer_next = WrSend bytes | WrWait | WrEnd | WrClose bytes | WrFail "'e c2_error"

text \<open>The top of the inner loop, and of the outer one when there is nothing to send.\<close>

definition writer_flush :: "'w h2lib \<Rightarrow> ('w, 'e) c2 \<Rightarrow> 'e writer_next \<times> ('w, 'e) c2" where
  "writer_flush lib s =
     (if cs_closing s then (WrEnd, s)
      else case h2_flush lib (cs_protocol s) of
             (Inl err, p) \<Rightarrow> (WrFail (C2Protocol err), s\<lparr>cs_protocol := p\<rparr>)
           | (Inr payload, p) \<Rightarrow> (if payload = [] then WrWait else WrSend payload, s\<lparr>cs_protocol := p\<rparr>))"

text \<open>After \<open>wait_signal\<close>.\<close>

definition writer_woken :: "'w h2lib \<Rightarrow> ('w, 'e) c2 \<Rightarrow> 'e writer_next \<times> ('w, 'e) c2" where
  "writer_woken lib s =
     (if cs_shutdown_requested s then
        (case h2_close lib NO_ERROR (cs_protocol s) of
           (payload, p) \<Rightarrow> (WrClose payload, s\<lparr>cs_closing := True, cs_protocol := p\<rparr>))
      else writer_flush lib s)"

definition writer_closed ::
  "('e c2_error, 'v) host \<Rightarrow> nat \<Rightarrow> nat \<Rightarrow> 'e c2_error option \<Rightarrow> ('w, 'e, 'v) shared \<Rightarrow> ('w, 'e, 'v) shared" where
  "writer_closed host client task err st =
     (case st of (s, h, v) \<Rightarrow>
        let s1 = (case err of None \<Rightarrow> s | Some e \<Rightarrow> s\<lparr>cs_failure := Some e, cs_closing := True\<rparr>)
        in case force_connection_close host client (Some task) err h v of
             (_, h1, v1) \<Rightarrow> (s1, h1\<lparr>sh_owned_tasks := remove1 task (sh_owned_tasks h1)\<rparr>, v1))"

section \<open>The shutdown enforcer and the watchdog\<close>

text \<open>After its signal and a yield.\<close>

definition enforce_shutdown ::
  "('e c2_error, 'v) host \<Rightarrow> nat \<Rightarrow> nat \<Rightarrow> ('w, 'e, 'v) shared \<Rightarrow> ('w, 'e, 'v) shared" where
  "enforce_shutdown host client task st =
     (case st of (s, h, v) \<Rightarrow>
        case (if client \<in> set (sh_closed h) then (s, h, v)
              else case force_connection_close host client (Some task) (cs_failure s) h v of
                     (_, h1, v1) \<Rightarrow> (s\<lparr>cs_closing := True\<rparr>, h1, v1)) of
          (s1, h1, v1) \<Rightarrow> (s1, h1\<lparr>sh_owned_tasks := remove1 task (sh_owned_tasks h1)\<rparr>, v1))"

definition http2_force_close ::
  "('e c2_error, 'v) host \<Rightarrow> nat \<Rightarrow> nat \<Rightarrow> 'e c2_error \<Rightarrow> ('w, 'e, 'v) shared \<Rightarrow> ('w, 'e, 'v) shared" where
  "http2_force_close host client task err st =
     (case st of (s, h, v) \<Rightarrow>
        case force_connection_close host client (Some task) (Some err) h v of
          (_, h1, v1) \<Rightarrow> (s\<lparr>cs_failure := Some err, cs_closing := True\<rparr>, h1, v1))"

text \<open>The watchdog between two sleeps: the time counted in its phase, and for the second phase the epoch it has seen. It
  looks at the connection through whether the preface has come, whether it is closing, and its epoch.\<close>

datatype watchdog = AwaitingPreface int | Idling nat int

datatype watchdog_next = WdSleep int watchdog | WdClose pystr | WdEnd

record glance =
  gl_preface :: bool
  gl_closing :: bool
  gl_epoch :: nat

definition glance_at :: "('w, 'e) c2 \<Rightarrow> glance" where
  "glance_at s = \<lparr>gl_preface = preface_received (cs_protocol s), gl_closing = cs_closing s, gl_epoch = cs_activity_epoch s\<rparr>"

definition idle_top :: "h2_config \<Rightarrow> glance \<Rightarrow> nat \<Rightarrow> int \<Rightarrow> watchdog_next" where
  "idle_top c g observed elapsed =
     (if gl_closing g then WdEnd else WdSleep (min 1000 (hc_idle_timeout c - elapsed)) (Idling observed elapsed))"

definition preface_top :: "h2_config \<Rightarrow> glance \<Rightarrow> int \<Rightarrow> watchdog_next" where
  "preface_top c g elapsed =
     (if \<not> gl_preface g \<and> \<not> gl_closing g then WdSleep (min 1000 (hc_handshake_timeout c - elapsed)) (AwaitingPreface elapsed)
      else idle_top c g (gl_epoch g) 0)"

text \<open>After sleeping for \<open>interval\<close>.\<close>

definition watchdog_wakes :: "h2_config \<Rightarrow> int \<Rightarrow> glance \<Rightarrow> watchdog \<Rightarrow> watchdog_next" where
  "watchdog_wakes c interval g wd =
     (case wd of
        AwaitingPreface elapsed \<Rightarrow>
          if elapsed + interval \<ge> hc_handshake_timeout c then WdClose (lit ''HTTP/2 client preface timed out'')
          else preface_top c g (elapsed + interval)
      | Idling observed elapsed \<Rightarrow>
          if observed \<noteq> gl_epoch g then idle_top c g (gl_epoch g) 0
          else if elapsed + interval \<ge> hc_idle_timeout c then WdClose (lit ''HTTP/2 connection was idle too long'')
          else idle_top c g observed (elapsed + interval))"

text \<open>Cancelling the handlers of reset streams leaves them among the owned tasks; only a handler's own \<open>finally\<close> block takes
  it out.\<close>

lemma cancelled_handlers_stay_owned:
  "cancel_streams host sids (s, h, v) = (s', h', v') \<Longrightarrow> sh_owned_tasks h' = sh_owned_tasks h"
proof (induction sids arbitrary: s h v)
  case (Cons sid sids)
  show ?case
  proof (cases "map_of (cs_handlers s) sid")
    case (Some t)
    obtain b h1 v1 where c: "cancel_or_retain_task host t h v = (b, h1, v1)" by (metis prod_cases3)
    have "sh_owned_tasks h1 = sh_owned_tasks h"
      using c by (auto simp: cancel_or_retain_task_def set_error_def pop_error_def split: option.splits prod.splits)
    then show ?thesis using Cons c Some by simp
  qed (use Cons in simp)
qed simp

end
