(* ===== verification/H2_Watchdog.thy ===== *)
theory H2_Watchdog
  imports H2_Connection H2_Sample
begin

text \<open>
  The watchdog of an HTTP/2 connection (\<open>_http2_watchdog\<close> in \<open>smallserver/app.py\<close>) keeps its time: the idle limit is an
  exact sliding window over what it sees of the connection, and the preface limit is not.
\<close>

section \<open>Runs\<close>

text \<open>The time slept over a sequence of glances, and what comes next.\<close>

fun watchdog_run :: "h2_config \<Rightarrow> watchdog_next \<Rightarrow> glance list \<Rightarrow> int \<times> watchdog_next" where
  "watchdog_run c (WdSleep interval wd) (g # gs) =
     (case watchdog_run c (watchdog_wakes c interval g wd) gs of (slept, nxt) \<Rightarrow> (interval + slept, nxt))"
| "watchdog_run c nxt gs = (0, nxt)"

lemma watchdog_run_over [simp]: "watchdog_run c WdEnd gs = (0, WdEnd)" "watchdog_run c (WdClose m) gs = (0, WdClose m)"
  by (cases gs; simp)+

lemma watchdog_run_step:
  "snd (watchdog_run c (WdSleep interval wd) (g # gs)) = snd (watchdog_run c (watchdog_wakes c interval g wd) gs)"
  by (simp split: prod.splits)

abbreviation idle_message :: pystr where
  "idle_message \<equiv> lit ''HTTP/2 connection was idle too long''"

abbreviation preface_message :: pystr where
  "preface_message \<equiv> lit ''HTTP/2 client preface timed out''"

section \<open>The idle limit\<close>

text \<open>The sleeps that make up the idle limit, each a second at most.\<close>

definition idle_sleeps :: "h2_config \<Rightarrow> nat" where
  "idle_sleeps c = nat ((hc_idle_timeout c + 999) div 1000)"

text \<open>The idle phase after \<open>k\<close> whole seconds without activity.\<close>

abbreviation idling :: "h2_config \<Rightarrow> nat \<Rightarrow> nat \<Rightarrow> watchdog_next" where
  "idling c e k \<equiv> WdSleep (min 1000 (hc_idle_timeout c - 1000 * int k)) (Idling e (1000 * int k))"

lemma idle_top_idling: "idle_top c g e (1000 * int k) = (if gl_closing g then WdEnd else idling c e k)"
  by (simp add: idle_top_def)

lemma idle_top_fresh: "idle_top c g e 0 = (if gl_closing g then WdEnd else idling c e 0)"
  using idle_top_idling [of c g e 0] by simp

lemma idling_wakes:
  assumes "k < idle_sleeps c"
  shows "watchdog_wakes c (min 1000 (hc_idle_timeout c - 1000 * int k)) g (Idling e (1000 * int k)) =
    (if e \<noteq> gl_epoch g then (if gl_closing g then WdEnd else idling c (gl_epoch g) 0)
     else if Suc k = idle_sleeps c then WdClose idle_message
     else if gl_closing g then WdEnd else idling c e (Suc k))"
proof -
  have below: "1000 * int k < hc_idle_timeout c" using assms by (simp add: idle_sleeps_def)
  show ?thesis
  proof (cases "Suc k = idle_sleeps c")
    case True
    then have "hc_idle_timeout c - 1000 * int k \<le> 1000" using below by (simp add: idle_sleeps_def)
    then show ?thesis using True by (simp add: watchdog_wakes_def idle_top_fresh)
  next
    case False
    then have "1000 < hc_idle_timeout c - 1000 * int k" using assms by (simp add: idle_sleeps_def)
    then show ?thesis using False idle_top_idling [of c g e "Suc k"]
      by (auto simp: watchdog_wakes_def idle_top_fresh algebra_simps)
  qed
qed

text \<open>A quiet window: \<open>n\<close> sleeps over which the watchdog sees one epoch, with the connection not closing before their end.\<close>

definition quiet_window :: "nat \<Rightarrow> glance list \<Rightarrow> nat \<Rightarrow> bool" where
  "quiet_window n gs i \<longleftrightarrow>
     i + n < length gs \<and> (\<forall>j \<le> n. gl_epoch (gs ! (i + j)) = gl_epoch (gs ! i)) \<and> (\<forall>j < i + n. \<not> gl_closing (gs ! j))"

text \<open>What the watchdog knows at the \<open>m\<close>-th glance, having just gone to sleep after \<open>k\<close> quiet seconds.\<close>

definition idle_here :: "nat \<Rightarrow> glance list \<Rightarrow> nat \<Rightarrow> nat \<Rightarrow> bool" where
  "idle_here n gs m k \<longleftrightarrow>
     k \<le> m \<and> m < length gs \<and> k < n \<and> (\<forall>j \<le> m. \<not> gl_closing (gs ! j)) \<and>
     (\<forall>j. m - k \<le> j \<and> j \<le> m \<longrightarrow> gl_epoch (gs ! j) = gl_epoch (gs ! m)) \<and>
     (m \<noteq> k \<longrightarrow> gl_epoch (gs ! (m - Suc k)) \<noteq> gl_epoch (gs ! m)) \<and> (\<forall>i. quiet_window n gs i \<longrightarrow> m < i + n)"

text \<open>No window ends at the next glance when that glance shows activity, or when the quiet time is still short.\<close>

lemma window_not_next:
  assumes here: "idle_here n gs m k" and w: "quiet_window n gs i" and short: "gl_epoch (gs ! Suc m) = gl_epoch (gs ! m) \<Longrightarrow> Suc k \<noteq> n"
  shows "i + n \<noteq> Suc m"
proof
  assume n: "i + n = Suc m"
  have same: "\<And>j. i \<le> j \<Longrightarrow> j \<le> Suc m \<Longrightarrow> gl_epoch (gs ! j) = gl_epoch (gs ! i)"
    using w n unfolding quiet_window_def by (metis le_add_diff_inverse nat_add_left_cancel_le)
  have k: "k < n" "k \<le> m" using here by (auto simp: idle_here_def)
  then have "gl_epoch (gs ! Suc m) = gl_epoch (gs ! m)" using same [of m] same [of "Suc m"] n by simp
  then have "Suc k < n" using short k by simp
  then have "gl_epoch (gs ! (m - Suc k)) = gl_epoch (gs ! m)" "m \<noteq> k" using same [of "m - Suc k"] same [of m] n by auto
  then show False using here by (simp add: idle_here_def)
qed

lemma idle_here_facts:
  assumes "idle_here n gs m k"
  shows "k \<le> m" "m < length gs" "k < n" "j \<le> m \<Longrightarrow> \<not> gl_closing (gs ! j)"
    "m - k \<le> j \<Longrightarrow> j \<le> m \<Longrightarrow> gl_epoch (gs ! j) = gl_epoch (gs ! m)"
    "m \<noteq> k \<Longrightarrow> gl_epoch (gs ! (m - Suc k)) \<noteq> gl_epoch (gs ! m)" "quiet_window n gs i \<Longrightarrow> m < i + n"
  using assms unfolding idle_here_def by blast+

lemma idle_hereI:
  assumes "k \<le> m" "m < length gs" "k < n" "\<And>j. j \<le> m \<Longrightarrow> \<not> gl_closing (gs ! j)"
    "\<And>j. m - k \<le> j \<Longrightarrow> j \<le> m \<Longrightarrow> gl_epoch (gs ! j) = gl_epoch (gs ! m)"
    "m \<noteq> k \<Longrightarrow> gl_epoch (gs ! (m - Suc k)) \<noteq> gl_epoch (gs ! m)" "\<And>i. quiet_window n gs i \<Longrightarrow> m < i + n"
  shows "idle_here n gs m k"
  unfolding idle_here_def using assms by blast

lemma idle_here_next:
  assumes here: "idle_here n gs m k" and m: "Suc m < length gs" and open_g: "\<not> gl_closing (gs ! Suc m)"
    and k': "k' = (if gl_epoch (gs ! Suc m) = gl_epoch (gs ! m) then Suc k else 0)" and n: "k' < n"
  shows "idle_here n gs (Suc m) k'"
proof -
  have late: "Suc m < i + n" if w: "quiet_window n gs i" for i
  proof -
    have "gl_epoch (gs ! Suc m) = gl_epoch (gs ! m) \<Longrightarrow> Suc k \<noteq> n" using k' n by auto
    then show ?thesis using window_not_next [OF here w] idle_here_facts(7) [OF here w] by linarith
  qed
  have open_m: "\<not> gl_closing (gs ! j)" if "j \<le> Suc m" for j
    using that idle_here_facts(4) [OF here] open_g by (cases "j = Suc m") auto
  have quiet: "gl_epoch (gs ! j) = gl_epoch (gs ! Suc m)" if j: "Suc m - k' \<le> j" "j \<le> Suc m" for j
  proof (cases "j = Suc m")
    case False
    have same: "gl_epoch (gs ! Suc m) = gl_epoch (gs ! m)" using False j k' by (auto split: if_splits)
    have "m - k \<le> j" "j \<le> m" using False j k' same by auto
    then show ?thesis using idle_here_facts(5) [OF here, of j] same by simp
  qed simp
  have start: "gl_epoch (gs ! (Suc m - Suc k')) \<noteq> gl_epoch (gs ! Suc m)" if "Suc m \<noteq> k'"
  proof (cases "gl_epoch (gs ! Suc m) = gl_epoch (gs ! m)")
    case True
    then show ?thesis using that idle_here_facts(6) [OF here] k' by simp
  next
    case False
    then show ?thesis using k' by simp
  qed
  have "k' \<le> Suc m" using idle_here_facts(1) [OF here] k' by simp
  then show ?thesis by (rule idle_hereI) (fact m n open_m quiet start late)+
qed

lemma full_window:
  assumes here: "idle_here n gs m k" and same: "gl_epoch (gs ! Suc m) = gl_epoch (gs ! m)" "Suc k = n" and m: "Suc m < length gs"
  shows "quiet_window n gs (m - k)"
proof -
  note f = idle_here_facts [OF here]
  have "gl_epoch (gs ! (m - k + j)) = gl_epoch (gs ! (m - k))" if "j \<le> n" for j
    using f(5) [of "m - k + j"] f(5) [of "m - k"] f(1) that same by (cases "j = n") auto
  then show ?thesis unfolding quiet_window_def using f(1,4) same m by auto
qed

lemma idle_window_run:
  assumes "idle_here (idle_sleeps c) gs m k"
  shows "snd (watchdog_run c (idling c (gl_epoch (gs ! m)) k) (drop (Suc m) gs)) = WdClose idle_message \<longleftrightarrow>
    (\<exists>i. quiet_window (idle_sleeps c) gs i)"
  using assms
proof (induction "length gs - m" arbitrary: m k)
  case 0
  then show ?case by (simp add: idle_here_def)
next
  case (Suc len)
  let ?n = "idle_sleeps c" and ?g = "gs ! Suc m" and ?e = "gl_epoch (gs ! m)"
  let ?k = "if gl_epoch ?g = ?e then Suc k else 0"
  have kn: "k < ?n" using Suc.prems by (simp add: idle_here_def)
  consider (stop) "length gs = Suc m" | (more) "Suc m < length gs" using Suc.hyps(2) by linarith
  then show ?case
  proof cases
    case stop
    have "\<not> quiet_window ?n gs i" for i
      using stop idle_here_facts(7) [OF Suc.prems, of i] by (auto simp: quiet_window_def)
    then show ?thesis using stop by simp
  next
    case more
    have run: "snd (watchdog_run c (idling c ?e k) (drop (Suc m) gs)) =
        snd (watchdog_run c (watchdog_wakes c (min 1000 (hc_idle_timeout c - 1000 * int k)) ?g (Idling ?e (1000 * int k)))
          (drop (Suc (Suc m)) gs))"
      using watchdog_run_step Cons_nth_drop_Suc [OF more] by metis
    consider (full) "gl_epoch ?g = ?e" "Suc k = ?n" | (ends) "gl_closing ?g" "gl_epoch ?g = ?e \<Longrightarrow> Suc k \<noteq> ?n"
      | (on) "\<not> gl_closing ?g" "?k < ?n"
      using kn by (cases "gl_closing ?g"; cases "gl_epoch ?g = ?e"; cases "Suc k = ?n") simp_all
    then show ?thesis
    proof cases
      case full
      have "quiet_window ?n gs (m - k)"
        by (rule full_window [OF Suc.prems full more])
      then show ?thesis using run idling_wakes [OF kn] full by auto
    next
      case ends
      have "\<not> quiet_window ?n gs i" for i
      proof
        assume w: "quiet_window ?n gs i"
        have "Suc m < i + ?n"
          using window_not_next [OF Suc.prems w ends(2)] idle_here_facts(7) [OF Suc.prems w] by linarith
        then show False using w ends(1) by (simp add: quiet_window_def)
      qed
      then show ?thesis using run idling_wakes [OF kn] ends by auto
    next
      case on
      have "idle_here ?n gs (Suc m) ?k" by (rule idle_here_next [OF Suc.prems more on(1) refl on(2)])
      then have "snd (watchdog_run c (idling c (gl_epoch ?g) ?k) (drop (Suc (Suc m)) gs)) = WdClose idle_message \<longleftrightarrow>
          (\<exists>i. quiet_window ?n gs i)"
        by (rule Suc.hyps(1) [rotated]) (use Suc.hyps(2) in simp)
      then show ?thesis using run idling_wakes [OF kn] on by (auto split: if_splits)
    qed
  qed
qed

definition demo_idle :: h2_config where
  "demo_idle = demo_config\<lparr>hc_idle_timeout := 2500, hc_handshake_timeout := 1000\<rparr>"

definition demo_glance :: "nat \<Rightarrow> glance" where
  "demo_glance e = \<lparr>gl_preface = False, gl_closing = False, gl_epoch = e\<rparr>"

text \<open>C29. A connection is closed for idleness exactly when there is somewhere a run of \<open>idle_timeout\<close>, in sleeps of a second
  (rounded up), over which every look sees the same activity epoch, with the connection not closing on its own before the
  end of that run: neither later nor for any other reason, and never in the other way when activity keeps coming.\<close>

theorem idle_limit_is_window:
  assumes "0 < hc_idle_timeout c"
  shows "snd (watchdog_run c (idle_top c g (gl_epoch g) 0) gs) = WdClose idle_message \<longleftrightarrow>
    (\<exists>i. quiet_window (idle_sleeps c) (g # gs) i)"
proof (cases "gl_closing g")
  case True
  have n: "0 < idle_sleeps c" using assms by (simp add: idle_sleeps_def)
  have "\<not> quiet_window (idle_sleeps c) (g # gs) i" for i
  proof
    assume "quiet_window (idle_sleeps c) (g # gs) i"
    then have "\<not> gl_closing ((g # gs) ! 0)" unfolding quiet_window_def using n by blast
    then show False using True by simp
  qed
  then show ?thesis using True by (simp add: idle_top_fresh)
next
  case False
  have "idle_here (idle_sleeps c) (g # gs) 0 0" using assms False by (auto simp: idle_here_def idle_sleeps_def)
  then show ?thesis using idle_window_run [of c "g # gs" 0 0] False by (simp add: idle_top_fresh)
qed

lemma idle_limit_is_window_witness:
  "0 < hc_idle_timeout demo_idle \<and>
   snd (watchdog_run demo_idle (idle_top demo_idle (demo_glance 0) (gl_epoch (demo_glance 0)) 0)
     (map demo_glance [1, 1, 2, 2, 2, 2])) = WdClose idle_message \<and>
   quiet_window (idle_sleeps demo_idle) (map demo_glance [0, 1, 1, 2, 2, 2, 2]) 3"
proof -
  let ?gs = "demo_glance 0 # map demo_glance [1, 1, 2, 2, 2, 2]"
  have epochs: "gl_epoch (?gs ! (3 + j)) = gl_epoch (?gs ! 3)" if "j \<le> 3" for j
  proof -
    have "j \<in> {0, 1, 2, 3}" using that by auto
    then show ?thesis by (auto simp: demo_glance_def)
  qed
  have closing: "\<not> gl_closing (?gs ! j)" if "j < 3 + 3" for j
  proof -
    have "?gs ! j \<in> set ?gs" using that by (intro nth_mem) simp
    then show ?thesis by (auto simp: demo_glance_def simp del: nth_mem)
  qed
  have sleeps: "idle_sleeps demo_idle = 3" by (simp add: idle_sleeps_def demo_idle_def)
  have w: "quiet_window (idle_sleeps demo_idle) ?gs 3"
    unfolding quiet_window_def sleeps by (intro conjI allI impI) (simp, erule epochs, erule closing)
  have pos: "0 < hc_idle_timeout demo_idle" by (simp add: demo_idle_def)
  have "map demo_glance [0, 1, 1, 2, 2, 2, 2] = ?gs" by simp
  then show ?thesis
    using iffD2 [OF idle_limit_is_window [OF pos, of "demo_glance 0" "map demo_glance [1, 1, 2, 2, 2, 2]"], OF exI, OF w] w pos
    by (metis (no_types))
qed

section \<open>The preface limit\<close>

lemma preface_run:
  assumes "\<forall>g \<in> set gs. \<not> gl_preface g \<and> \<not> gl_closing g" and "\<not> gl_preface g0" and "\<not> gl_closing g0" and "0 \<le> elapsed"
    and "elapsed + 1000 * int (length gs) < hc_handshake_timeout c"
    and "hc_handshake_timeout c \<le> elapsed + 1000 * (int (length gs) + 1)"
  shows "watchdog_run c (preface_top c g0 elapsed) (gs @ [g]) =
    (hc_handshake_timeout c - elapsed, WdClose preface_message)"
  using assms
proof (induction gs arbitrary: g0 elapsed)
  case Nil
  then show ?case by (simp add: preface_top_def watchdog_wakes_def)
next
  case (Cons g1 gs)
  have "watchdog_run c (preface_top c g1 (elapsed + 1000)) (gs @ [g]) =
      (hc_handshake_timeout c - (elapsed + 1000), WdClose preface_message)"
    by (rule Cons.IH) (use Cons.prems in auto)
  then show ?case using Cons.prems by (simp add: preface_top_def watchdog_wakes_def)
qed

text \<open>C38. The preface limit is not checked against the preface: when the client's preface comes during the last sleep of the
  handshake, before the timeout has passed, the watchdog still closes the connection with "client preface timed out" at
  the timeout. With a \<open>handshake_timeout\<close> of a second or less the last sleep is the only one, and every connection is
  closed in this way, however early its preface.\<close>

theorem late_preface_closed:
  assumes "\<forall>g \<in> set (g0 # gs). \<not> gl_preface g \<and> \<not> gl_closing g"
    and "1000 * int (length gs) < hc_handshake_timeout c" and "hc_handshake_timeout c \<le> 1000 * (int (length gs) + 1)"
  shows "watchdog_run c (preface_top c g0 0) (gs @ [g\<lparr>gl_preface := True\<rparr>]) = (hc_handshake_timeout c, WdClose preface_message)"
proof -
  have "watchdog_run c (preface_top c g0 0) (gs @ [g\<lparr>gl_preface := True\<rparr>]) = (hc_handshake_timeout c - 0, WdClose preface_message)"
    by (rule preface_run) (use assms in simp_all)
  then show ?thesis by (simp only: diff_zero)
qed

lemma late_preface_closed_witness:
  "watchdog_run demo_idle (preface_top demo_idle (demo_glance 0) 0) ([] @ [(demo_glance 1)\<lparr>gl_preface := True\<rparr>]) =
     (hc_handshake_timeout demo_idle, WdClose preface_message)"
proof -
  have time: "hc_handshake_timeout demo_idle = 1000" by (simp add: demo_idle_def)
  have look: "\<not> gl_preface (demo_glance 0)" "\<not> gl_closing (demo_glance 0)" by (simp_all add: demo_glance_def)
  show ?thesis
    by (rule late_preface_closed [of "demo_glance 0" "[]" demo_idle "demo_glance 1"]) (simp_all only: time look list.set ball_simps, simp_all)
qed

end
