(* ===== verification/H2_Output.thy ===== *)
theory H2_Output
  imports H2_Connection H2_Requests
begin

text \<open>
  The writer of an HTTP/2 connection against the other tasks of the connection, in any interleaving of their stretches: a
  writer that waits with no signal pending has nothing to send.
\<close>

section \<open>Flushing empties the queues\<close>

lemma drop_stream_queues [simp]:
  "h2_control (drop_stream sid s) = h2_control s" "h2_commands s = [] \<Longrightarrow> h2_commands (drop_stream sid s) = []"
  by (cases "map_of (h2_inbound s) sid"; cases "map_of (h2_outbound s) sid";
      simp add: drop_stream_def release_inbound_def drop_outbound_def Let_def split: option.splits prod.splits)+

lemma reset_stream_queues [simp]: "h2_commands s = [] \<Longrightarrow> h2_commands (reset_stream lib code sid s) = []"
  by (simp add: reset_stream_def)

lemma start_response_queues [simp]: "h2_commands s = [] \<Longrightarrow> h2_commands (start_response lib sid resp s) = []"
  by (simp add: start_response_def Let_def split: prod.splits)

lemma capture_control_queues: "capture_control lib s = (res, t) \<Longrightarrow> h2_commands t = h2_commands s"
  by (auto simp: capture_control_def Let_def split: prod.splits if_splits)

lemma run_commands_queues: "run_commands lib cmds s = (res, t) \<Longrightarrow> h2_commands s = [] \<Longrightarrow> h2_commands t = []"
proof (induction cmds arbitrary: s)
  case (Cons cmd cmds)
  obtain sid r where cmd: "cmd = (sid, r)" by (cases cmd)
  let ?s = "case r of None \<Rightarrow> reset_stream lib ENHANCE_YOUR_CALM sid s | Some resp \<Rightarrow> start_response lib sid resp s"
  obtain e u where cap: "capture_control lib ?s = (e, u)" by fastforce
  have "h2_commands u = []" using capture_control_queues [OF cap] Cons.prems(2) by (simp split: option.splits)
  then show ?case using Cons cap by (auto simp: cmd split: sum.splits)
qed simp

lemma flush_one_queues:
  assumes one: "flush_one lib e out s = (res, t)" and empty: "h2_commands s = []" "h2_control s = []"
  shows "h2_commands t = [] \<and> h2_control t = []"
proof -
  obtain sid ob where e: "e = (sid, ob)" by (cases e)
  show ?thesis using one unfolding e
    by (cases rule: flush_one_cases) (auto simp: empty finish_outbound_def sent_bytes_def)
qed

lemma flush_streams_queues:
  "flush_streams lib es out s = (res, t) \<Longrightarrow> h2_commands s = [] \<Longrightarrow> h2_control s = [] \<Longrightarrow> h2_commands t = [] \<and> h2_control t = []"
proof (induction es arbitrary: out s)
  case (Cons e es)
  obtain r u where one: "flush_one lib e out s = (r, u)" by fastforce
  show ?case using Cons.prems Cons.IH flush_one_queues [OF one] one by (auto split: sum.splits)
qed simp

lemma h2_flush_queues:
  assumes "h2_flush lib s = (Inr payload, t)"
  shows "h2_commands t = [] \<and> h2_control t = []"
proof -
  obtain r s1 where run: "run_commands lib (h2_commands s) (s\<lparr>h2_commands := []\<rparr>) = (r, s1)" by fastforce
  have c1: "h2_commands s1 = []" by (rule run_commands_queues [OF run]) simp
  obtain q s2 where streams: "flush_streams lib (h2_outbound s1) (h2_control s1) (s1\<lparr>h2_control := []\<rparr>) = (q, s2)" by fastforce
  have "h2_commands s2 = [] \<and> h2_control s2 = []" by (rule flush_streams_queues [OF streams]) (simp_all add: c1)
  then show ?thesis using assms run streams by (auto simp: h2_flush_def Let_def split: sum.splits prod.splits if_splits)
qed

section \<open>Interleavings\<close>

text \<open>The phases of the writer: waiting for its signal, in a send, and leaving. Of the scheduler, \<open>sd_live\<close> says that the
  writer task is registered and has not ended, \<open>sd_pending\<close> that its signal waits to be taken.\<close>

datatype writer_phase = Waiting | Sending | Leaving

record ('e, 'v) sched =
  sd_tasks :: "('e c2_error, 'v) h2_tasks"
  sd_host :: "('e c2_error, 'v) host"
  sd_live :: "'v \<Rightarrow> bool"
  sd_pending :: "'v \<Rightarrow> bool"
  sd_taken :: "'v \<Rightarrow> 'v"

definition writer_kept :: "('e, 'v) sched \<Rightarrow> 'v \<Rightarrow> 'v \<Rightarrow> bool" where
  "writer_kept sd v v' \<longleftrightarrow> (sd_pending sd v \<longrightarrow> sd_pending sd v') \<and> (sd_live sd v \<longrightarrow> sd_live sd v')"

text \<open>What is asked of it: a live writer is not done; a signal to it is accepted and pending until taken; no other call ends
  it or takes its signal; and a task made while it lives is another one.\<close>

definition sched_ok :: "('e, 'v) sched \<Rightarrow> nat \<Rightarrow> bool" where
  "sched_ok sd w \<longleftrightarrow>
     (\<forall>v. sd_live sd v \<longrightarrow> \<not> tk_done (sd_tasks sd) w v \<and> sd_live sd (sd_taken sd v)) \<and>
     (\<forall>t n v. writer_kept sd v (snd (tk_signal (sd_tasks sd) t n v)) \<and> fst (tk_signal (sd_tasks sd) t n v) = 0) \<and>
     (\<forall>v. sd_live sd v \<longrightarrow> sd_pending sd (snd (tk_signal (sd_tasks sd) w writer_signal v))) \<and>
     (\<forall>ts v. writer_kept sd v (snd (tk_fork (sd_tasks sd) ts v))) \<and>
     (\<forall>t v. writer_kept sd v (snd (tk_send (sd_tasks sd) t v))) \<and>
     (\<forall>v. writer_kept sd v (snd (host_new_task (sd_host sd) v))) \<and>
     (\<forall>v t. sd_live sd v \<longrightarrow> fst (host_new_task (sd_host sd) v) = Inr t \<longrightarrow> t \<noteq> w) \<and>
     (\<forall>t v. t \<noteq> w \<longrightarrow> writer_kept sd v (snd (host_cancel (sd_host sd) t v)))"

text \<open>What a stretch of the writer leads to.\<close>

definition writer_goes ::
  "('e, 'v) sched \<Rightarrow> nat \<Rightarrow> nat \<Rightarrow> 'e writer_next \<times> ('w, 'e) c2 \<Rightarrow> (pystr, 'e c2_error) handle \<Rightarrow> 'v \<Rightarrow>
   writer_phase \<times> ('w, 'e, 'v) shared" where
  "writer_goes sd client w result h v =
     (case result of (nxt, s) \<Rightarrow>
        case nxt of
          WrSend payload \<Rightarrow> (Sending, s, h, v)
        | WrWait \<Rightarrow> (Waiting, s, h, v)
        | WrEnd \<Rightarrow> (Leaving, s, h, v)
        | WrClose payload \<Rightarrow> (Leaving, s, h, v)
        | WrFail err \<Rightarrow> (Leaving, writer_closed (sd_host sd) client w (Some err) (s, h, v)))"

text \<open>One step of the connection \<open>client\<close>, whose reader runs as the task \<open>reader\<close> and whose writer is \<open>w\<close>.\<close>

inductive c2_step ::
  "('e, 'v) sched \<Rightarrow> 'w h2lib \<Rightarrow> nat \<Rightarrow> nat \<Rightarrow> nat \<Rightarrow> writer_phase \<times> ('w, 'e, 'v) shared \<Rightarrow> writer_phase \<times> ('w, 'e, 'v) shared \<Rightarrow> bool"
  for sd :: "('e, 'v) sched" and lib :: "'w h2lib" and client reader w :: nat where
  read: "reader_chunk2 (sd_tasks sd) (sd_host sd) lib chunk st = (Inr again, st1) \<Longrightarrow> c2_step sd lib client reader w (ph, st) (ph, st1)"
| read_on: "reader_round (sd_tasks sd) (sd_host sd) lib [] st = (Inr again, st1) \<Longrightarrow> c2_step sd lib client reader w (ph, st) (ph, st1)"
| read_error: "reader_chunk2 (sd_tasks sd) (sd_host sd) lib chunk st = (Inl err, st1) \<Longrightarrow>
    c2_step sd lib client reader w (ph, st) (ph, snd (connection_ending (sd_host sd) lib reader client False st1))"
| read_on_error: "reader_round (sd_tasks sd) (sd_host sd) lib [] st = (Inl err, st1) \<Longrightarrow>
    c2_step sd lib client reader w (ph, st) (ph, snd (connection_ending (sd_host sd) lib reader client False st1))"
| ending: "c2_step sd lib client reader w (ph, st) (ph, snd (connection_ending (sd_host sd) lib reader client interrupted st))"
| answered: "handler_ended (sd_tasks sd) lib sid task outcome st = (err, st1) \<Longrightarrow> c2_step sd lib client reader w (ph, st) (ph, st1)"
| unwound: "c2_step sd lib client reader w (ph, st) (ph, handler_unwound sid task st)"
| shutdown: "c2_request_shutdown (sd_tasks sd) s v = (err, s1, v1) \<Longrightarrow> c2_step sd lib client reader w (ph, s, h, v) (ph, s1, h, v1)"
| enforced: "c2_step sd lib client reader w (ph, st) (ph, enforce_shutdown (sd_host sd) client task st)"
| forced: "c2_step sd lib client reader w (ph, st) (ph, http2_force_close (sd_host sd) client task err st)"
| woken: "sd_pending sd v \<Longrightarrow>
    c2_step sd lib client reader w (Waiting, s, h, v) (writer_goes sd client w (writer_woken lib s) h (sd_taken sd v))"
| sent: "c2_step sd lib client reader w (Sending, s, h, v) (writer_goes sd client w (writer_flush lib s) h v)"
| send_failed: "c2_step sd lib client reader w (Sending, st) (Leaving, writer_closed (sd_host sd) client w (Some err) st)"
| left: "c2_step sd lib client reader w (Leaving, st) (Leaving, writer_closed (sd_host sd) client w None st)"
| elsewhere: "writer_kept sd v v1 \<Longrightarrow> c2_step sd lib client reader w (ph, s, h, v) (ph, s, h1, v1)"

section \<open>No wakeup is lost\<close>

text \<open>The start of the connection, and what is reachable from it.\<close>

definition c2_started :: "('e, 'v) sched \<Rightarrow> 'w h2lib \<Rightarrow> nat \<Rightarrow> nat \<Rightarrow> writer_phase \<times> ('w, 'e, 'v) shared \<Rightarrow> bool" where
  "c2_started sd lib client w start \<longleftrightarrow>
     (\<exists>c conn sent p h0 v0 s h v.
        h2_initiate lib (h2_init c conn) = (Inr sent, p) \<and>
        start_helpers (sd_tasks sd) (sd_host sd) client (c2_init p, h0, v0) = (None, s, h, v) \<and>
        cs_writer_task s = Some w \<and> sd_live sd v \<and> start = (Waiting, s, h, v))"

inductive c2_reach ::
  "('e, 'v) sched \<Rightarrow> 'w h2lib \<Rightarrow> nat \<Rightarrow> nat \<Rightarrow> nat \<Rightarrow> writer_phase \<times> ('w, 'e, 'v) shared \<Rightarrow> writer_phase \<times> ('w, 'e, 'v) shared \<Rightarrow> bool"
  for sd lib client reader w start where
  here: "c2_reach sd lib client reader w start start"
| onwards: "c2_reach sd lib client reader w start mid \<Longrightarrow> c2_step sd lib client reader w mid st \<Longrightarrow> c2_reach sd lib client reader w start st"

text \<open>Nothing but the handlers changes, and the writer is left alone.\<close>

definition spared :: "('e, 'v) sched \<Rightarrow> nat \<Rightarrow> ('w, 'e) c2 \<Rightarrow> 'v \<Rightarrow> ('w, 'e) c2 \<Rightarrow> 'v \<Rightarrow> bool" where
  "spared sd w s v s' v' \<longleftrightarrow>
     cs_closing s' = cs_closing s \<and> cs_writer_task s' = cs_writer_task s \<and> cs_shutdown_requested s' = cs_shutdown_requested s \<and>
     (sd_live sd v \<longrightarrow> w \<notin> snd ` set (cs_handlers s) \<longrightarrow> writer_kept sd v v' \<and> w \<notin> snd ` set (cs_handlers s'))"

lemma writer_kept_refl [simp]: "writer_kept sd v v" by (simp add: writer_kept_def)

lemma writer_kept_trans: "writer_kept sd a b \<Longrightarrow> writer_kept sd b c \<Longrightarrow> writer_kept sd a c" by (auto simp: writer_kept_def)

lemma spared_refl [simp]: "spared sd w s v s v" by (simp add: spared_def)

lemma spared_trans: "spared sd w s v s1 v1 \<Longrightarrow> spared sd w s1 v1 s2 v2 \<Longrightarrow> spared sd w s v s2 v2"
  by (auto simp: spared_def writer_kept_def)

lemma snd_dict_pop: "t \<in> snd ` set (dict_pop k d) \<Longrightarrow> t \<in> snd ` set d"
  by (auto simp: set_dict_pop)

lemma snd_dict_set: "t \<in> snd ` set (dict_set k x d) \<Longrightarrow> t = x \<or> t \<in> snd ` set d"
  by (auto dest: set_dict_set_sub)

lemma cancel_streams_aside:
  assumes ok: "sched_ok sd w"
  shows "cancel_streams (sd_host sd) sids (s, h, v) = (s', h', v') \<Longrightarrow> spared sd w s v s' v'"
proof (induction sids arbitrary: s h v)
  case (Cons sid sids)
  show ?case
  proof (cases "map_of (cs_handlers s) sid")
    case None
    then show ?thesis using Cons by simp
  next
    case (Some t)
    obtain b h1 v1 where c: "cancel_or_retain_task (sd_host sd) t h v = (b, h1, v1)" by (metis prod_cases3)
    have v1: "v1 = snd (host_cancel (sd_host sd) t v)"
      using c by (auto simp: cancel_or_retain_task_def split: prod.splits option.splits)
    have "spared sd w s v (s\<lparr>cs_handlers := dict_pop sid (cs_handlers s)\<rparr>) v1"
      using ok Some v1 by (auto simp: spared_def sched_ok_def dest!: snd_dict_pop map_of_SomeD)
    then show ?thesis using Cons.prems Cons.IH c Some by (auto intro: spared_trans)
  qed
qed simp

lemma spawn_handlers_aside:
  assumes ok: "sched_ok sd w"
  shows "spawn_handlers (sd_tasks sd) (sd_host sd) items (s, h, v) = (res, s', h', v') \<Longrightarrow> spared sd w s v s' v'"
proof (induction items arbitrary: s h v)
  case (Cons item items)
  obtain sid r where item: "item = (sid, r)" by (cases item)
  show ?case
  proof (cases "is_stream_active sid (cs_protocol s)")
    case False
    then show ?thesis using Cons by (simp add: item)
  next
    case True
    obtain t v1 where new: "host_new_task (sd_host sd) v = (t, v1)" by fastforce
    have v1: "v1 = snd (host_new_task (sd_host sd) v)" using new by simp
    have kept1: "writer_kept sd v v1" using ok unfolding v1 sched_ok_def by blast
    show ?thesis
    proof (cases t)
      case (Inl err)
      then have "s' = s" "v' = v1" using Cons.prems True new by (simp_all add: item)
      then show ?thesis using kept1 by (simp add: spared_def)
    next
      case (Inr t)
      let ?s1 = "s\<lparr>cs_handlers := dict_set sid t (cs_handlers s)\<rparr>"
      obtain e v2 where fork: "tk_fork (sd_tasks sd) [t] v1 = (e, v2)" by fastforce
      have v2: "v2 = snd (tk_fork (sd_tasks sd) [t] v1)" using fork by simp
      have kept: "writer_kept sd v v2"
        using ok kept1 unfolding v2 sched_ok_def by (blast intro: writer_kept_trans)
      have "t \<noteq> w" if "sd_live sd v" using ok that new Inr unfolding sched_ok_def by fastforce
      then have step: "spared sd w s v ?s1 v2" using kept by (auto simp: spared_def dest!: snd_dict_set)
      show ?thesis using Cons.prems Cons.IH True new Inr fork step by (auto simp: item Let_def split: option.splits intro: spared_trans)
    qed
  qed
qed simp

text \<open>The invariant: unless the connection is closing, the writer lives, a requested shutdown has its signal pending, and so
  has a writer that waits, or there is nothing for it.\<close>

definition nothing_queued :: "'w h2_state \<Rightarrow> bool" where
  "nothing_queued p \<longleftrightarrow> h2_commands p = [] \<and> h2_control p = []"

definition c2_inv :: "('e, 'v) sched \<Rightarrow> nat \<Rightarrow> writer_phase \<times> ('w, 'e, 'v) shared \<Rightarrow> bool" where
  "c2_inv sd w st \<longleftrightarrow>
     (case st of (ph, s, h, v) \<Rightarrow>
        cs_closing s \<or>
        ph \<noteq> Leaving \<and> sd_live sd v \<and> cs_writer_task s = Some w \<and> w \<notin> snd ` set (cs_handlers s) \<and>
        (cs_shutdown_requested s \<longrightarrow> sd_pending sd v) \<and> (ph = Waiting \<longrightarrow> sd_pending sd v \<or> nothing_queued (cs_protocol s)))"

lemma c2_inv_closing [simp]: "cs_closing s \<Longrightarrow> c2_inv sd w (ph, s, h, v)" by (simp add: c2_inv_def)

text \<open>A signal to the live writer.\<close>

lemma wake_writer_pending:
  assumes ok: "sched_ok sd w" and live: "sd_live sd v" and t: "cs_writer_task s = Some w"
    and wake: "wake_writer (sd_tasks sd) s v = (err, v1)"
  shows "err = None \<and> sd_live sd v1 \<and> sd_pending sd v1"
proof -
  obtain code v2 where sig: "tk_signal (sd_tasks sd) w writer_signal v = (code, v2)" by fastforce
  have "\<not> tk_done (sd_tasks sd) w v" "code = 0" "sd_pending sd v2" "sd_live sd v2"
    using ok live sig unfolding sched_ok_def writer_kept_def by (metis fst_conv snd_conv)+
  then show ?thesis using wake t sig by (simp add: wake_writer_def signal_task_def)
qed

lemma signal_task_kept:
  assumes ok: "sched_ok sd w" and sig: "signal_task (sd_tasks sd) target n v = (err, v1)"
  shows "writer_kept sd v v1"
proof -
  have "writer_kept sd v (snd (tk_signal (sd_tasks sd) t n v))" for t using ok by (simp add: sched_ok_def)
  then show ?thesis using sig by (auto simp: signal_task_def split: option.splits if_splits prod.splits) (metis snd_conv)+
qed

text \<open>A round of the reader that goes on ends with a signal to the writer.\<close>

lemma reader_round_inv:
  assumes ok: "sched_ok sd w" and inv: "c2_inv sd w (ph, s, h, v)"
    and round: "reader_round (sd_tasks sd) (sd_host sd) lib data (s, h, v) = (Inr again, s', h', v')"
  shows "c2_inv sd w (ph, s', h', v')"
proof -
  obtain ready p where recv: "receive_data lib data (cs_protocol s) = (Inr ready, p)"
    using round by (cases "receive_data lib data (cs_protocol s)"; cases "fst (receive_data lib data (cs_protocol s))")
      (auto simp: reader_round_def)
  obtain sids p1 where tc: "take_cancelled p = (sids, p1)" by fastforce
  obtain s1 h1 v1 where cs: "cancel_streams (sd_host sd) sids (s\<lparr>cs_protocol := p1\<rparr>, h, v) = (s1, h1, v1)" by (metis prod_cases3)
  obtain res s2 h2 v2 where sp: "spawn_handlers (sd_tasks sd) (sd_host sd) ready (s1, h1, v1) = (res, s2, h2, v2)"
    by (metis prod_cases4)
  obtain err v3 where wake: "wake_writer (sd_tasks sd) s2 v2 = (err, v3)" by fastforce
  have out: "res = None" "err = None" "s' = s2" "h' = h2" "v' = v3"
    using round recv tc cs sp wake by (auto simp: reader_round_def split: option.splits)
  have "spared sd w (s\<lparr>cs_protocol := p1\<rparr>) v s2 v2"
    by (rule spared_trans [OF cancel_streams_aside [OF ok cs] spawn_handlers_aside [OF ok sp]])
  then have calm: "cs_closing s2 = cs_closing s" "cs_writer_task s2 = cs_writer_task s"
    "sd_live sd v \<Longrightarrow> w \<notin> snd ` set (cs_handlers s) \<Longrightarrow> sd_live sd v2 \<and> w \<notin> snd ` set (cs_handlers s2)"
    by (auto simp: spared_def writer_kept_def)
  show ?thesis
  proof (cases "cs_closing s")
    case True
    then show ?thesis using calm(1) by (simp add: out)
  next
    case False
    then have "sd_live sd v2" "cs_writer_task s2 = Some w" using inv calm by (auto simp: c2_inv_def)
    then have "sd_live sd v3 \<and> sd_pending sd v3" using wake_writer_pending [OF ok _ _ wake] by blast
    then show ?thesis using inv calm False by (auto simp: out c2_inv_def)
  qed
qed

lemma enqueue_route_error_kept:
  assumes ok: "sched_ok sd w" and run: "enqueue_route_error (tk_send (sd_tasks sd)) event h v = (h1, v1)"
  shows "writer_kept sd v v1"
proof -
  have "writer_kept sd v (snd (tk_send (sd_tasks sd) t v))" for t using ok by (simp add: sched_ok_def)
  then show ?thesis using run
    by (auto simp: enqueue_route_error_def channel_enqueue_def Let_def split: option.splits prod.splits if_splits) (metis snd_conv)+
qed

lemma handler_leaves_inv:
  "c2_inv sd w (ph, s, h, v) \<Longrightarrow> c2_inv sd w (ph, handler_leaves sid task (s, h, v))"
  using snd_dict_pop [of w sid "cs_handlers s"] by (simp add: c2_inv_def handler_leaves_def) blast

lemma drop_stream_inv:
  "c2_inv sd w (ph, s, h, v) \<Longrightarrow> c2_inv sd w (ph, s\<lparr>cs_protocol := drop_stream sid (cs_protocol s)\<rparr>, h, v)"
  by (auto simp: c2_inv_def nothing_queued_def)

lemma handler_ended_inv:
  assumes ok: "sched_ok sd w" and inv: "c2_inv sd w (ph, s, h, v)"
    and run: "handler_ended (sd_tasks sd) lib sid task outcome (s, h, v) = (err, st1)"
  shows "c2_inv sd w (ph, st1)"
proof (cases outcome)
  case (Inl e)
  then show ?thesis using run drop_stream_inv [OF inv] by (auto simp: handler_ended_def intro: handler_leaves_inv)
next
  case (Inr answer)
  obtain resp event where answer: "answer = (resp, event)" by (cases answer)
  obtain h1 v1 where enq: "enqueue_route_error (tk_send (sd_tasks sd)) event h v = (h1, v1)" by fastforce
  let ?s = "s\<lparr>cs_protocol := snd (queue_response lib sid resp (cs_protocol s))\<rparr>"
  obtain e v2 where wake: "wake_writer (sd_tasks sd) ?s v1 = (e, v2)" by fastforce
  have st1: "st1 = handler_leaves sid task (?s, h1, v2)"
    using run Inr enq wake by (auto simp: handler_ended_def answer Let_def)
  have "c2_inv sd w (ph, ?s, h1, v2)"
  proof (cases "cs_closing s")
    case False
    have "sd_live sd v1" using enqueue_route_error_kept [OF ok enq] inv False by (auto simp: c2_inv_def writer_kept_def)
    then have "sd_live sd v2 \<and> sd_pending sd v2"
      using wake_writer_pending [OF ok _ _ wake] inv False by (auto simp: c2_inv_def)
    then show ?thesis using inv False by (auto simp: c2_inv_def)
  qed simp
  then show ?thesis unfolding st1 by (rule handler_leaves_inv)
qed

lemma request_shutdown_inv:
  assumes ok: "sched_ok sd w" and inv: "c2_inv sd w (ph, s, h, v)"
    and run: "c2_request_shutdown (sd_tasks sd) s v = (err, s1, v1)"
  shows "c2_inv sd w (ph, s1, h, v1)"
proof -
  let ?s = "s\<lparr>cs_shutdown_requested := True\<rparr>"
  obtain e v2 where wake: "wake_writer (sd_tasks sd) ?s v = (e, v2)" by fastforce
  have s1: "s1 = ?s" using run wake by (auto simp: c2_request_shutdown_def Let_def split: option.splits prod.splits)
  show ?thesis
  proof (cases "cs_closing s")
    case False
    have p: "e = None \<and> sd_live sd v2 \<and> sd_pending sd v2"
      using wake_writer_pending [OF ok _ _ wake] inv False by (auto simp: c2_inv_def)
    then have "signal_task (sd_tasks sd) (cs_shutdown_task s) shutdown_signal v2 = (err, v1)"
      using run wake by (auto simp: c2_request_shutdown_def Let_def split: prod.splits)
    then have "sd_live sd v1 \<and> sd_pending sd v1" using signal_task_kept [OF ok] p unfolding writer_kept_def by blast
    then show ?thesis using inv False by (auto simp: c2_inv_def s1)
  qed (simp add: s1)
qed

lemma closing_steps:
  "cs_closing (fst (snd (connection_ending host lib task client interrupted st)))"
  "cs_closing (fst (http2_force_close host client task err st))"
  "cs_closing (fst (writer_closed host client task (Some e) st))"
  "cs_closing (fst st) \<Longrightarrow> cs_closing (fst (writer_closed host client task None st))"
  by (cases st; auto simp: connection_ending_def http2_force_close_def writer_closed_def Let_def split: prod.splits)+

lemma c2_inv_closed: "cs_closing (fst st) \<Longrightarrow> c2_inv sd w (ph, st)"
  by (cases st) simp

lemma enforce_shutdown_inv:
  "c2_inv sd w (ph, st) \<Longrightarrow> c2_inv sd w (ph, enforce_shutdown host client task st)"
  by (cases st) (auto simp: enforce_shutdown_def c2_inv_def split: prod.splits)

text \<open>The writer's own stretches: after a flush there is nothing queued, or a send under way.\<close>

lemma writer_goes_flush:
  assumes inv: "\<not> cs_closing s \<Longrightarrow> sd_live sd v \<and> cs_writer_task s = Some w \<and> w \<notin> snd ` set (cs_handlers s) \<and>
      (cs_shutdown_requested s \<longrightarrow> sd_pending sd v)"
  shows "c2_inv sd w (writer_goes sd client w (writer_flush lib s) h v)"
proof (cases "cs_closing s")
  case True
  then show ?thesis by (simp add: writer_flush_def writer_goes_def)
next
  case False
  obtain r p where flush: "h2_flush lib (cs_protocol s) = (r, p)" by fastforce
  show ?thesis
  proof (cases r)
    case (Inl e)
    then show ?thesis using False flush by (simp add: writer_flush_def writer_goes_def c2_inv_closed closing_steps)
  next
    case (Inr payload)
    have "nothing_queued p" using h2_flush_queues flush Inr by (auto simp: nothing_queued_def)
    then show ?thesis using False flush Inr inv by (simp add: writer_flush_def writer_goes_def c2_inv_def)
  qed
qed

lemma writer_goes_woken:
  assumes ok: "sched_ok sd w" and inv: "c2_inv sd w (Waiting, s, h, v)"
  shows "c2_inv sd w (writer_goes sd client w (writer_woken lib s) h (sd_taken sd v))"
proof (cases "cs_shutdown_requested s")
  case True
  then show ?thesis by (cases "h2_close lib NO_ERROR (cs_protocol s)") (simp add: writer_woken_def writer_goes_def)
next
  case False
  have "sd_live sd (sd_taken sd v)" if "\<not> cs_closing s"
    using inv that ok unfolding sched_ok_def by (auto simp: c2_inv_def)
  then have "c2_inv sd w (writer_goes sd client w (writer_flush lib s) h (sd_taken sd v))"
    using inv False by (intro writer_goes_flush) (auto simp: c2_inv_def)
  then show ?thesis using False by (simp add: writer_woken_def)
qed

lemma c2_step_inv:
  assumes ok: "sched_ok sd w" and step: "c2_step sd lib client reader w a b" and inv: "c2_inv sd w a"
  shows "c2_inv sd w b"
  using step inv
proof (cases rule: c2_step.cases)
  case (read chunk st again st1 ph)
  obtain s h v where st: "st = (s, h, v)" by (metis prod_cases3)
  have "c2_inv sd w (ph, mark_activity s, h, v)" using inv read st by (simp add: c2_inv_def mark_activity_def)
  then show ?thesis using reader_round_inv [OF ok] read st by (cases st1) (simp add: reader_chunk2_def)
next
  case (read_on st again st1 ph)
  then show ?thesis using reader_round_inv [OF ok] inv by (cases st; cases st1) blast
next
  case (answered sid task outcome st err st1 ph)
  then show ?thesis using handler_ended_inv [OF ok] inv by (cases st) blast
next
  case (unwound ph st sid task)
  obtain s h v where st: "st = (s, h, v)" by (metis prod_cases3)
  have "c2_inv sd w (ph, s\<lparr>cs_protocol := drop_stream sid (cs_protocol s)\<rparr>, h, v)"
    using inv unwound st by (intro drop_stream_inv) simp
  then show ?thesis using unwound st by (simp add: handler_unwound_def handler_leaves_inv)
next
  case (shutdown s v err s1 v1 ph h)
  then show ?thesis using request_shutdown_inv [OF ok] inv by blast
next
  case (enforced ph st task)
  then show ?thesis using enforce_shutdown_inv inv by blast
next
  case (woken v s h)
  then show ?thesis using writer_goes_woken [OF ok] inv by blast
next
  case (sent s h v)
  have "c2_inv sd w (writer_goes sd client w (writer_flush lib s) h v)"
    using inv sent by (intro writer_goes_flush) (auto simp: c2_inv_def)
  then show ?thesis using sent by simp
next
  case (left st)
  have "cs_closing (fst st)" using inv left by (cases st) (simp add: c2_inv_def)
  then have "c2_inv sd w (Leaving, writer_closed (sd_host sd) client w None st)" by (intro c2_inv_closed closing_steps)
  then show ?thesis using left by simp
next
  case (elsewhere v v1 ph s h h1)
  then show ?thesis using inv by (auto simp: c2_inv_def writer_kept_def)
qed (auto intro!: c2_inv_closed closing_steps)

lemma c2_started_inv:
  assumes "c2_started sd lib client w start" shows "c2_inv sd w start"
proof -
  from assms obtain c conn sent p h0 v0 s h v where init: "h2_initiate lib (h2_init c conn) = (Inr sent, p)"
    and st: "start_helpers (sd_tasks sd) (sd_host sd) client (c2_init p, h0, v0) = (None, s, h, v)"
    and w: "cs_writer_task s = Some w" "sd_live sd v" "start = (Waiting, s, h, v)"
    unfolding c2_started_def by blast
  have "nothing_queued p"
    using init by (auto simp: h2_initiate_def h2_init_def nothing_queued_def Let_def split: prod.splits if_splits)
  moreover have "cs_handlers s = [] \<and> \<not> cs_shutdown_requested s \<and> cs_protocol s = p"
    using st by (auto simp: start_helpers_def c2_init_def Let_def split: prod.splits sum.splits option.splits)
  ultimately show ?thesis using w by (simp add: c2_inv_def)
qed

lemma c2_reach_inv:
  assumes "sched_ok sd w" and "c2_reach sd lib client reader w start st" and "c2_started sd lib client w start"
  shows "c2_inv sd w st"
  using assms(2) by (induction rule: c2_reach.induct) (use assms c2_started_inv c2_step_inv in blast)+

section \<open>A connection at work\<close>

definition demo_sched :: "(nat, bool \<times> nat) sched" where
  "demo_sched =
     \<lparr>sd_tasks = \<lparr>tk_done = \<lambda>t v. False, tk_signal = \<lambda>t n v. (0, if t = 0 \<and> n = writer_signal then (True, snd v) else v),
                  tk_fork = \<lambda>ts v. (None, v), tk_send = \<lambda>t v. (True, v)\<rparr>,
      sd_host = \<lparr>host_socket_close = \<lambda>c v. (None, v), host_listener_close = \<lambda>v. (None, v), host_wakeup_close = \<lambda>v. (None, v),
                 host_notify = \<lambda>v. (None, v), host_cancel = \<lambda>t v. (None, v), host_resume = \<lambda>t v. v, host_signal = \<lambda>t v. (None, v),
                 host_cursor = \<lambda>v. None, host_graceful = \<lambda>c v. (True, v), host_ws_shutdown = \<lambda>c v. v,
                 host_wake_observer = \<lambda>t v. v, host_new_task = \<lambda>v. (Inr (snd v), (fst v, Suc (snd v))),
                 host_fork = \<lambda>t v. (None, v), host_finalized = \<lambda>v. v\<rparr>,
      sd_live = \<lambda>v. 0 < snd v, sd_pending = fst, sd_taken = \<lambda>v. (False, snd v)\<rparr>"

lemma demo_sched_ok: "sched_ok demo_sched 0"
  by (simp add: sched_ok_def writer_kept_def demo_sched_def)

text \<open>C28. Output is never stranded, in any interleaving of the reader, the stream handlers, the writer and the shutdown and
  timeout tasks of an HTTP/2 connection: while the connection is not closing its writer has not left, and when the writer
  waits then either its wakeup signal is pending, or no response and no control output is queued and no shutdown has been
  asked for. So no response waits for a wakeup that was lost or never sent.\<close>

theorem http2_output_never_stranded:
  assumes "sched_ok sd w" and "c2_started sd lib client w start" and "c2_reach sd lib client reader w start (phase, s, h, v)"
    and "\<not> cs_closing s"
  shows "phase \<noteq> Leaving \<and>
    (phase = Waiting \<longrightarrow> sd_pending sd v \<or> h2_commands (cs_protocol s) = [] \<and> h2_control (cs_protocol s) = [] \<and> \<not> cs_shutdown_requested s)"
  using c2_reach_inv [OF assms(1,3,2)] assms(4) by (auto simp: c2_inv_def nothing_queued_def)

definition demo_start :: "writer_phase \<times> (nat \<times> bytes, nat, bool \<times> nat) shared" where
  "demo_start =
     (Waiting, (c2_init (h2_init demo_config (0, [])))\<lparr>cs_writer_task := Some 0, cs_shutdown_task := Some 1, cs_watchdog_task := Some 2\<rparr>,
      register_graceful 7 ((handle_init 4 None True)\<lparr>sh_owned_tasks := [0, 1, 2]\<rparr>), (False, 3))"

lemma demo_received_facts:
  "take_cancelled demo_received = ([], demo_received)" "is_stream_active 1 demo_received"
  "has_ready_frames (h2_frames demo_received) = False"
  by (simp_all add: take_cancelled_def is_stream_active_def demo_received_def h2_init_def demo_frames_ready)

lemma demo_started: "c2_started demo_sched demo_lib 7 0 demo_start"
  unfolding c2_started_def
  by (intro exI [of _ demo_config] exI [of _ "(0, [])"] exI [of _ "[]"] exI [of _ "h2_init demo_config (0, [])"]
      exI [of _ "handle_init 4 None True"] exI [of _ "(False, 0)"])
    (simp add: h2_initiate_def h2_init_def demo_lib_def demo_limits wire_output_ok_def start_helpers_def demo_sched_def
      c2_init_def demo_start_def handle_init_def numeral_2_eq_2 numeral_3_eq_3)

lemma http2_output_never_stranded_witness:
  "\<exists>s h v. c2_reach demo_sched demo_lib 7 5 0 demo_start (Waiting, s, h, v) \<and> \<not> cs_closing s \<and> h2_commands (cs_protocol s) \<noteq> [] \<and>
     sd_pending demo_sched v"
proof -
  let ?s0 = "fst (snd demo_start)" and ?h0 = "fst (snd (snd demo_start))"
  let ?s1 = "?s0\<lparr>cs_protocol := demo_received, cs_handlers := [(1, 3)], cs_activity_epoch := 1\<rparr>"
  let ?h1 = "?h0\<lparr>sh_owned_tasks := [0, 1, 2, 3]\<rparr>"
  let ?s2 = "?s1\<lparr>cs_protocol := demo_queued, cs_handlers := []\<rparr>"
  have recv: "receive_data demo_lib demo_input (h2_init demo_config (0, [])) = (Inr [(1, demo_request)], demo_received)"
    by (rule demo_receive)
  have r1: "reader_chunk2 (sd_tasks demo_sched) (sd_host demo_sched) demo_lib demo_input (snd demo_start) =
      (Inr False, ?s1, ?h1, (True, 4))"
    using recv demo_received_facts
    by (simp add: reader_chunk2_def reader_round_def mark_activity_def demo_start_def c2_init_def demo_sched_def
        wake_writer_def signal_task_def has_pending_input_def register_graceful_def handle_init_def)
  have r2: "handler_ended (sd_tasks demo_sched) demo_lib 1 3 (Inr (demo_response, None)) (?s1, ?h1, (True, 4)) =
      (None, ?s2, ?h0, (True, 4))"
    by (simp add: handler_ended_def enqueue_route_error_def demo_queue [simplified] wake_writer_def signal_task_def demo_sched_def
        handler_leaves_def demo_start_def c2_init_def dict_pop_def register_graceful_def handle_init_def)
  have "c2_reach demo_sched demo_lib 7 5 0 demo_start (Waiting, ?s1, ?h1, (True, 4))"
    using c2_reach.onwards [OF c2_reach.here c2_step.read [OF r1]] by (simp add: demo_start_def)
  then have reach: "c2_reach demo_sched demo_lib 7 5 0 demo_start (Waiting, ?s2, ?h0, (True, 4))"
    by (rule c2_reach.onwards) (rule c2_step.answered [OF r2])
  have queued: "\<not> cs_closing ?s2" "h2_commands (cs_protocol ?s2) \<noteq> []"
    by (simp_all add: demo_start_def c2_init_def demo_queued_def)
  have "sd_pending demo_sched (True, 4)"
    using http2_output_never_stranded [OF demo_sched_ok demo_started reach queued(1)] queued(2) by blast
  then show ?thesis using reach queued by blast
qed

end
