(* ===== verification/Startup.thy ===== *)
theory Startup
  imports Configs Dispatch Transport
begin

text \<open>
  How \<open>SmallServer\<close> in \<open>smallserver/app.py\<close> starts a listener: the mark of the active invocation, the checks, the
  acquisition of listener, wakeup channel and handle with the rollback of each, the scheduling of the control tasks, and
  \<open>listen\<close> around the run of the scheduler. The kernel, the scheduler and SmallOS itself are parameters; \<open>require_http2\<close> of
  \<open>http2.py\<close> is here too.
\<close>

section \<open>The active invocation\<close>

text \<open>Markers and handles are objects, told apart by identity.\<close>

datatype invocation = Marker nat | Serving nat

record 'w app =
  ap_active :: "invocation option"
  ap_world :: 'w

definition reserve_invocation :: "nat \<Rightarrow> 'w app \<Rightarrow> (py_error + invocation) \<times> 'w app" where
  "reserve_invocation fresh s =
     (if ap_active s \<noteq> None then (Inl (RuntimeError (lit ''this SmallServer already has an active listener'')), s)
      else (Inr (Marker fresh), s\<lparr>ap_active := Some (Marker fresh)\<rparr>))"

definition replace_invocation :: "invocation \<Rightarrow> invocation \<Rightarrow> 'w app \<Rightarrow> py_error option \<times> 'w app" where
  "replace_invocation expected replacement s =
     (if ap_active s \<noteq> Some expected
      then (Some (RuntimeError (lit ''SmallServer listener ownership changed unexpectedly'')), s)
      else (None, s\<lparr>ap_active := Some replacement\<rparr>))"

definition release_invocation :: "invocation \<Rightarrow> 'w app \<Rightarrow> 'w app" where
  "release_invocation expected s = (if ap_active s = Some expected then s\<lparr>ap_active := None\<rparr> else s)"

text \<open>Code that does not know the server works on the rest of the world.\<close>

definition in_app :: "('w \<Rightarrow> 'r \<times> 'w) \<Rightarrow> 'w app \<Rightarrow> 'r \<times> 'w app" where
  "in_app f s = (case f (ap_world s) of (r, w) \<Rightarrow> (r, s\<lparr>ap_world := w\<rparr>))"

section \<open>The checks\<close>

text \<open>What \<open>import h2\<close> and its submodules give: nothing, or the version when it is a string, and whether \<open>H2Connection\<close> has a
  callable \<open>_begin_new_stream\<close>.\<close>

record h2_module =
  hm_version :: "pystr option"
  hm_begin_new_stream :: bool

datatype startup_check =
  CheckError py_error
| ConfigurationError pystr
| CapabilityError capability_error

definition require_http2 :: "h2_module option \<Rightarrow> startup_check option" where
  "require_http2 m =
     (case m of
        None \<Rightarrow> Some (ConfigurationError (lit ''HTTP/2 requires a complete hyper-h2 4.x installation; install smallserver[http2]''))
      | Some h2 \<Rightarrow>
          if \<not> (case hm_version h2 of None \<Rightarrow> False | Some v \<Rightarrow> starts_with (lit ''4.'') v)
          then Some (ConfigurationError (lit ''HTTP/2 requires hyper-h2 version 4.x''))
          else if \<not> hm_begin_new_stream h2
          then Some (ConfigurationError (lit ''installed hyper-h2 4.x lacks required stream validation support''))
          else None)"

definition required_operations :: "bool \<Rightarrow> pystr list" where
  "required_operations require_start =
     [lit ''fork'', lit ''resume_task'', lit ''cancel_task''] @ (if require_start then [lit ''start''] else [])"

definition validate_runtime :: "(pystr \<Rightarrow> bool) \<Rightarrow> capabilities option \<Rightarrow> bool \<Rightarrow> startup_check option" where
  "validate_runtime callable krn require_start =
     (let missing = filter (\<lambda>name. \<not> callable name) (required_operations require_start)
      in if missing \<noteq> []
         then Some (CheckError (TypeError (lit ''runtime is missing required operations: '' @ join_with (lit '', '') missing)))
         else (case transport_init krn of Inl e \<Rightarrow> Some (CapabilityError e) | Inr _ \<Rightarrow> None))"

text \<open>The code point 39 is the closing quote of a message.\<close>

definition check_binding :: "pystr \<Rightarrow> int \<Rightarrow> pystr \<Rightarrow> bool \<Rightarrow> h2_module option \<Rightarrow> startup_check option" where
  "check_binding host port protocol h2_config_given h2 =
     (if host = [] then Some (CheckError (ValueError (lit ''host must be a non-empty string'')))
      else if \<not> (0 \<le> port \<and> port \<le> 65535) then Some (CheckError (ValueError (lit ''port must be an integer between 0 and 65535'')))
      else if protocol \<notin> {lit ''http1'', lit ''http2''}
      then Some (CheckError (ValueError (lit ''protocol must be 'http1' or 'http2'' @ [39])))
      else if protocol = lit ''http1'' \<and> h2_config_given
      then Some (CheckError (ValueError (lit ''http2_config requires protocol='http2'' @ [39])))
      else if protocol = lit ''http2'' then require_http2 h2
      else None)"

section \<open>Failures that leave resources\<close>

text \<open>What has been acquired before there is a handle: the listener and, if the kernel has one, the wakeup channel. The actions
  of a cleanup transaction act on these and on the application.\<close>

type_synonym ('s, 'c, 'o, 'e) bound = "('s, 'e) thandle \<times> ('c, 'o, 'e) wakeup option"

datatype 'e start_cause = CauseCheck startup_check | CauseTransport "'e transport_error" | CauseHost 'e

text \<open>\<open>Incomplete\<close> is the \<open>RuntimeError\<close> "server finalization cleanup is incomplete".\<close>

datatype 'e handle_error = HandleRaised 'e | Incomplete

text \<open>The outcomes of a start. \<open>StartUncleaned\<close> and \<open>StartUnfinished\<close> are \<open>_raise_startup_cleanup\<close>: the flag says that the
  primary error is an interrupt and is raised itself, from the \<open>ServerStartupError\<close>, else it is the other way around. In both
  the \<open>ServerStartupError\<close> owns what is left.\<close>

datatype ('s, 'c, 'o, 'e, 'w) start_result =
  Started "(pystr, 'e) handle" "('s, 'c, 'o, 'e) bound"
| StartRaised "'e start_cause"
| StartUncleaned "'e start_cause" bool "('e transport_error, ('s, 'c, 'o, 'e) bound \<times> 'w app) cleanup_error" "('s, 'c, 'o, 'e) bound"
| StartUnfinished "'e start_cause" bool "('e handle_error, (pystr, 'e) handle \<times> 'w app) cleanup_error" "(pystr, 'e) handle"

record ('s, 'a, 'c, 'o, 'e, 'w) start_env =
  se_kernel :: "('s, 'a, 'c, 'o, 'e, 'w) kernel"
  se_capabilities :: "capabilities option"
  se_callable :: "pystr \<Rightarrow> bool"
  se_host :: "('e, 'w) host"
  se_fork :: "nat list \<Rightarrow> 'w \<Rightarrow> 'e option \<times> 'w"
  se_interrupt :: "'e start_cause \<Rightarrow> bool"
  se_h2 :: "h2_module option"
  se_observed :: bool

definition listener_action ::
  "('s, 'a, 'c, 'o, 'e, 'w) kernel \<Rightarrow> ('e transport_error, ('s, 'c, 'o, 'e) bound \<times> 'w app) action" where
  "listener_action k = (\<lambda>((h, wk), s).
     case transport_close k h (ap_world s) of
       (err, h1, w1) \<Rightarrow> (map_option KernelRaised err, ((h1, wk), s\<lparr>ap_world := w1\<rparr>)))"

definition wakeup_action ::
  "('s, 'a, 'c, 'o, 'e, 'w) kernel \<Rightarrow> ('e transport_error, ('s, 'c, 'o, 'e) bound \<times> 'w app) action" where
  "wakeup_action k = (\<lambda>((h, wk), s).
     case wk of
       None \<Rightarrow> (None, ((h, wk), s))
     | Some ch \<Rightarrow> (case wakeup_close k ch (ap_world s) of
           (err, ch1, w1) \<Rightarrow> (map_option KernelRaised err, ((h, Some ch1), s\<lparr>ap_world := w1\<rparr>))))"

text \<open>The transaction of the transport's own rollback, among these actions.\<close>

definition of_listener ::
  "('e, ('s, 'e) thandle \<times> 'w) action \<Rightarrow> ('e transport_error, ('s, 'c, 'o, 'e) bound \<times> 'w app) action" where
  "of_listener act = (\<lambda>((h, wk), s).
     case act (h, ap_world s) of (err, (h1, w1)) \<Rightarrow> (map_option KernelRaised err, ((h1, wk), s\<lparr>ap_world := w1\<rparr>)))"

definition of_wakeup ::
  "('e transport_error, ('c, 'o, 'e) wakeup option \<times> 'w) action \<Rightarrow> ('e transport_error, ('s, 'c, 'o, 'e) bound \<times> 'w app) action" where
  "of_wakeup act = (\<lambda>((h, wk), s).
     case act (wk, ap_world s) of (err, (wk1, w1)) \<Rightarrow> (err, ((h, wk1), s\<lparr>ap_world := w1\<rparr>)))"

definition map_cleanup ::
  "(('e, 'v) action \<Rightarrow> ('f, 'u) action) \<Rightarrow> ('e \<Rightarrow> 'f) \<Rightarrow> ('e, 'v) cleanup \<Rightarrow> ('f, 'u) cleanup" where
  "map_cleanup f g t =
     \<lparr>cl_actions = map (\<lambda>(name, act). (name, f act)) (cl_actions t), cl_errors = map (\<lambda>(name, e). (name, g e)) (cl_errors t)\<rparr>"

definition release_action :: "invocation \<Rightarrow> ('f, 'b \<times> 'w app) action" where
  "release_action marker = (\<lambda>(b, s). (None, (b, release_invocation marker s)))"

text \<open>\<open>_raise_startup_cleanup\<close>: whether the primary error is raised itself, and the \<open>ServerStartupError\<close>.\<close>

definition raise_startup_cleanup ::
  "('x \<Rightarrow> bool) \<Rightarrow> 'x \<Rightarrow> ('f, 'v) cleanup \<Rightarrow> ('f, 'v) action option \<Rightarrow> bool \<times> ('f, 'v) cleanup_error" where
  "raise_startup_cleanup interrupt primary t on_cleanup_complete =
     (interrupt primary, cleanup_error_init t on_cleanup_complete)"

lemmas [simp] = raise_startup_cleanup_def

definition raise_acquisition_cleanup ::
  "('s, 'a, 'c, 'o, 'e, 'w) start_env \<Rightarrow> invocation \<Rightarrow> 'e start_cause \<Rightarrow>
   ('e transport_error, ('s, 'c, 'o, 'e) bound \<times> 'w app) cleanup \<Rightarrow> ('s, 'c, 'o, 'e) bound \<Rightarrow> ('s, 'c, 'o, 'e, 'w) start_result" where
  "raise_acquisition_cleanup env marker primary t b =
     (case raise_startup_cleanup (se_interrupt env) primary t (Some (release_action marker)) of
        (interrupt, ce) \<Rightarrow> StartUncleaned primary interrupt ce b)"

text \<open>\<open>_HandleCleanupTransaction\<close>: one action, which finalizes the handle again. Its \<open>errors\<close> are those of the handle while it
  has any and is unfinished.\<close>

definition first_cleanup_error :: "(pystr, 'e) handle \<Rightarrow> 'e handle_error" where
  "first_cleanup_error h = (case sh_cleanup_errors h of [] \<Rightarrow> Incomplete | (_, e) # _ \<Rightarrow> HandleRaised e)"

definition retry_handle_cleanup :: "('e, 'v) host \<Rightarrow> ('e handle_error, (pystr, 'e) handle \<times> 'v) action" where
  "retry_handle_cleanup host = (\<lambda>(h, v).
     case finalize host h v of (h1, v1) \<Rightarrow> (if sh_finished h1 then None else Some (first_cleanup_error h1), (h1, v1)))"

definition handle_cleanup_transaction ::
  "('e, 'v) host \<Rightarrow> (pystr, 'e) handle \<Rightarrow> ('e handle_error, (pystr, 'e) handle \<times> 'v) cleanup" where
  "handle_cleanup_transaction host h =
     cleanup_add (lit ''server'') (retry_handle_cleanup host) (Some (first_cleanup_error h)) cleanup_init"

definition handle_transaction_errors ::
  "(pystr, 'e) handle \<Rightarrow> ('e handle_error, (pystr, 'e) handle \<times> 'v) cleanup \<Rightarrow> 'e handle_error list" where
  "handle_transaction_errors h t =
     (if \<not> sh_finished h \<and> sh_cleanup_errors h \<noteq> [] then map (HandleRaised \<circ> snd) (sh_cleanup_errors h)
      else cleanup_errors t)"

section \<open>Acquiring\<close>

text \<open>Rolling the listener back when the wakeup channel could not be made, with the transaction \<open>t\<close> of that failure if it left
  one. \<open>Inr\<close> is the result the start ends with.\<close>

definition roll_back_listener ::
  "('s, 'a, 'c, 'o, 'e, 'w) start_env \<Rightarrow> invocation \<Rightarrow> 'e start_cause \<Rightarrow>
   ('e transport_error, ('s, 'c, 'o, 'e) bound \<times> 'w app) cleanup option \<Rightarrow> ('s, 'c, 'o, 'e) bound \<Rightarrow> 'w app \<Rightarrow>
   ('s, 'c, 'o, 'e, 'w) start_result \<times> 'w app" where
  "roll_back_listener env marker primary t b s =
     (case listener_action (se_kernel env) (b, s) of
        (Some e, (b1, s1)) \<Rightarrow>
          let t0 = (case t of None \<Rightarrow> cleanup_init | Some t \<Rightarrow> t)
          in (raise_acquisition_cleanup env marker primary
                (cleanup_add (lit ''listener'') (listener_action (se_kernel env)) (Some e) t0) b1, s1)
      | (None, (b1, s1)) \<Rightarrow>
          (case t of
             None \<Rightarrow> (StartRaised primary, release_invocation marker s1)
           | Some t \<Rightarrow> (raise_acquisition_cleanup env marker primary t b1, s1)))"

text \<open>Rolling both back when the handle could not be made.\<close>

definition roll_back_both ::
  "('s, 'a, 'c, 'o, 'e, 'w) start_env \<Rightarrow> invocation \<Rightarrow> 'e start_cause \<Rightarrow> ('s, 'c, 'o, 'e) bound \<Rightarrow> 'w app \<Rightarrow>
   ('s, 'c, 'o, 'e, 'w) start_result \<times> 'w app" where
  "roll_back_both env marker primary b s =
     (case (if snd b = None then (cleanup_init, b, s)
            else case wakeup_action (se_kernel env) (b, s) of
                   (None, (b1, s1)) \<Rightarrow> (cleanup_init, b1, s1)
                 | (Some e, (b1, s1)) \<Rightarrow> (cleanup_add (lit ''wakeup'') (wakeup_action (se_kernel env)) (Some e) cleanup_init, b1, s1)) of
        (t, b1, s1) \<Rightarrow>
          (case listener_action (se_kernel env) (b1, s1) of
             (err, (b2, s2)) \<Rightarrow>
               let t1 = (case err of None \<Rightarrow> t | Some e \<Rightarrow> cleanup_add (lit ''listener'') (listener_action (se_kernel env)) (Some e) t)
               in if \<not> cleanup_complete t1 then (raise_acquisition_cleanup env marker primary t1 b2, s2)
                  else (StartRaised primary, release_invocation marker s2)))"

text \<open>Up to the handle: \<open>Inr\<close> what has been bound, \<open>Inl\<close> the result the start ends with.\<close>

definition acquire ::
  "('s, 'a, 'c, 'o, 'e, 'w) start_env \<Rightarrow> invocation \<Rightarrow> pystr \<Rightarrow> int \<Rightarrow> server_config \<Rightarrow> 'w app \<Rightarrow>
   (('s, 'c, 'o, 'e, 'w) start_result + ('s, 'c, 'o, 'e) bound) \<times> 'w app" where
  "acquire env marker host port config s =
     (let k = se_kernel env
      in case transport_init (se_capabilities env) of
           Inl e \<Rightarrow> (Inl (StartRaised (CauseCheck (CapabilityError e))), release_invocation marker s)
         | Inr wakeup_supported \<Rightarrow>
             (case in_app (open_listener k host port (sc_max_connections config) True) s of
                (AcquireRaised e, s1) \<Rightarrow> (Inl (StartRaised (CauseTransport e)), release_invocation marker s1)
              | (Unrolled primary t h, s1) \<Rightarrow>
                  (Inl (raise_acquisition_cleanup env marker (CauseTransport primary) (map_cleanup of_listener KernelRaised t) (h, None)), s1)
              | (Acquired listener, s1) \<Rightarrow>
                  (case in_app (create_wakeup_channel k wakeup_supported) s1 of
                     (Unrolled primary t wk, s2) \<Rightarrow>
                       map_prod Inl id (roll_back_listener env marker (CauseTransport primary)
                         (Some (map_cleanup of_wakeup id t)) (listener, wk) s2)
                   | (AcquireRaised e, s2) \<Rightarrow>
                       map_prod Inl id (roll_back_listener env marker (CauseTransport e) None (listener, None) s2)
                   | (Acquired wk, s2) \<Rightarrow>
                       (case in_app (local_address k listener) s2 of
                          (Inl e, s3) \<Rightarrow> map_prod Inl id (roll_back_both env marker (CauseTransport e) (listener, wk) s3)
                        | (Inr address, s3) \<Rightarrow> (Inr (listener, wk), s3)))))"

section \<open>Scheduling\<close>

text \<open>The handle's host: its listener and wakeup channel are those that were bound, and its completion callback releases the
  invocation.\<close>

definition app_host ::
  "('s, 'a, 'c, 'o, 'e, 'w) start_env \<Rightarrow> ('s, 'c, 'o, 'e) bound \<Rightarrow> invocation \<Rightarrow> ('e, 'w app) host" where
  "app_host env b serving =
     (let k = se_kernel env; host = se_host env
      in \<lparr>host_socket_close = \<lambda>c. in_app (host_socket_close host c),
          host_listener_close = in_app (k_socket_close k (th_raw (fst b))),
          host_wakeup_close = (case snd b of None \<Rightarrow> Pair None | Some ch \<Rightarrow> in_app (k_channel_close k (wk_raw ch))),
          host_notify = (case snd b of None \<Rightarrow> Pair None | Some ch \<Rightarrow> in_app (k_channel_notify k (wk_raw ch))),
          host_cancel = \<lambda>t. in_app (host_cancel host t), host_resume = \<lambda>t s. s\<lparr>ap_world := host_resume host t (ap_world s)\<rparr>,
          host_signal = \<lambda>t. in_app (host_signal host t), host_cursor = \<lambda>s. host_cursor host (ap_world s),
          host_graceful = \<lambda>c. in_app (host_graceful host c),
          host_ws_shutdown = \<lambda>c s. s\<lparr>ap_world := host_ws_shutdown host c (ap_world s)\<rparr>,
          host_wake_observer = \<lambda>t s. s\<lparr>ap_world := host_wake_observer host t (ap_world s)\<rparr>,
          host_new_task = in_app (host_new_task host), host_fork = \<lambda>t. in_app (host_fork host t),
          host_finalized = release_invocation serving\<rparr>)"

text \<open>The control tasks, created one after the other; each call may raise. The tasks created so far are what \<open>_abort_startup\<close>
  takes over.\<close>

definition schedule_tasks ::
  "('s, 'a, 'c, 'o, 'e, 'w) start_env \<Rightarrow> bool \<Rightarrow> (pystr, 'e) handle \<Rightarrow> 'w app \<Rightarrow>
   'e option \<times> nat list \<times> (pystr, 'e) handle \<times> 'w app" where
  "schedule_tasks env has_wakeup h s =
     (let new_task = in_app (host_new_task (se_host env));
          fork = (\<lambda>tasks h s. case in_app (se_fork env tasks) s of (err, s1) \<Rightarrow> (err, tasks, h, s1));
          observe = (\<lambda>tasks h s.
            case sh_channel h of
              None \<Rightarrow> fork tasks h s
            | Some ch \<Rightarrow>
                (case new_task s of
                   (Inl e, s1) \<Rightarrow> (Some e, tasks, h, s1)
                 | (Inr t, s1) \<Rightarrow>
                     fork (tasks @ [t]) (h\<lparr>sh_channel := Some (channel_bind t ch), sh_owned_tasks := sh_owned_tasks h @ [t]\<rparr>) s1))
      in case new_task s of
           (Inl e, s1) \<Rightarrow> (Some e, [], h, s1)
         | (Inr listener_task, s1) \<Rightarrow>
             let h1 = h\<lparr>sh_listener_task := Some listener_task, sh_owned_tasks := sh_owned_tasks h @ [listener_task]\<rparr>
             in if has_wakeup then
                  (case new_task s1 of
                     (Inl e, s2) \<Rightarrow> (Some e, [listener_task], h1, s2)
                   | (Inr close_task, s2) \<Rightarrow>
                       observe [listener_task, close_task] (h1\<lparr>sh_owned_tasks := sh_owned_tasks h1 @ [close_task]\<rparr>) s2)
                else observe [listener_task] h1 s1)"

text \<open>\<open>marker\<close> and \<open>serving\<close> are the identities of the marker and of the handle.\<close>

definition bind_and_schedule ::
  "('s, 'a, 'c, 'o, 'e, 'w) start_env \<Rightarrow> nat \<Rightarrow> nat \<Rightarrow> pystr \<Rightarrow> int \<Rightarrow> server_config \<Rightarrow> pystr \<Rightarrow> bool \<Rightarrow> 'w app \<Rightarrow>
   ('s, 'c, 'o, 'e, 'w) start_result \<times> 'w app" where
  "bind_and_schedule env fresh serving host port config protocol h2_config_given s =
     (case check_binding host port protocol h2_config_given (se_h2 env) of
        Some err \<Rightarrow> (StartRaised (CauseCheck err), s)
      | None \<Rightarrow>
     (case reserve_invocation fresh s of
        (Inl err, s1) \<Rightarrow> (StartRaised (CauseCheck (CheckError err)), s1)
      | (Inr marker, s1) \<Rightarrow>
     (case acquire env marker host port config s1 of
        (Inl result, s2) \<Rightarrow> (result, s2)
      | (Inr b, s2) \<Rightarrow>
     (let channel = (if se_observed env then Some (channel_init (sc_max_route_error_events config)) else None);
          h = handle_init (sc_max_connections config) channel (snd b \<noteq> None)
      in case replace_invocation marker (Serving serving) s2 of
           (Some err, s3) \<Rightarrow> (StartRaised (CauseCheck (CheckError err)), s3)
         | (None, s3) \<Rightarrow>
             (case schedule_tasks env (snd b \<noteq> None) h s3 of
                (None, tasks, h1, s4) \<Rightarrow> (Started h1 b, s4)
              | (Some e, tasks, h1, s4) \<Rightarrow>
                  (case abort_startup (app_host env b (Serving serving)) tasks h1 s4 of
                     (h2, s5) \<Rightarrow>
                       (if sh_finished h2 then StartRaised (CauseHost e)
                        else (case raise_startup_cleanup (se_interrupt env) (CauseHost e)
                                     (handle_cleanup_transaction (app_host env b (Serving serving)) h2) None of
                                (interrupt, ce) \<Rightarrow> StartUnfinished (CauseHost e) interrupt ce h2), s5)))))))"

text \<open>The close watcher: \<open>drained\<close> is its wait for the wakeup channel and the drain, of which each may raise; it shuts the server
  down in any case.\<close>

definition close_watcher ::
  "('e, 'v) host \<Rightarrow> ('v \<Rightarrow> 'e option \<times> 'v) \<Rightarrow> nat \<Rightarrow> (pystr, 'e) handle \<Rightarrow> 'v \<Rightarrow> 'e option \<times> (pystr, 'e) handle \<times> 'v" where
  "close_watcher host drained task h v =
     (case drained v of (err, v1) \<Rightarrow> case finish_close host False (Some task) h v1 of (h1, v2) \<Rightarrow> (err, h1, v2))"

section \<open>\<open>serve\<close> and \<open>listen\<close>\<close>

text \<open>\<open>serve\<close> raises what these return as \<open>StartRaised\<close>. \<open>given\<close>: an \<open>http2_config\<close> was passed.\<close>

definition start_on ::
  "('s, 'a, 'c, 'o, 'e, 'w) start_env \<Rightarrow> bool \<Rightarrow> nat \<Rightarrow> nat \<Rightarrow> pystr \<Rightarrow> int \<Rightarrow> server_config \<Rightarrow> pystr \<Rightarrow> bool \<Rightarrow> 'w app \<Rightarrow>
   ('s, 'c, 'o, 'e, 'w) start_result \<times> 'w app" where
  "start_on env require_start fresh serving host port config protocol given s =
     (case validate_runtime (se_callable env) (se_capabilities env) require_start of
        Some err \<Rightarrow> (StartRaised (CauseCheck err), s)
      | None \<Rightarrow> bind_and_schedule env fresh serving host port config protocol given s)"

definition serve ::
  "('s, 'a, 'c, 'o, 'e, 'w) start_env \<Rightarrow> nat \<Rightarrow> nat \<Rightarrow> pystr \<Rightarrow> int \<Rightarrow> server_config option \<Rightarrow> pystr \<Rightarrow> bool \<Rightarrow> 'w app \<Rightarrow>
   ('s, 'c, 'o, 'e, 'w) start_result \<times> 'w app" where
  "serve env fresh serving host port config protocol given s =
     (case resolve_server_config (se_observed env) config False of
        Inl err \<Rightarrow> (StartRaised (CauseCheck (CheckError err)), s)
      | Inr resolved \<Rightarrow> start_on env False fresh serving host port resolved protocol given s)"

text \<open>\<open>_default_runtime_factory\<close>, which \<open>listen\<close> calls with a configuration: whether SmallOS can be imported, and whether it can
  be created with this configuration.\<close>

definition default_runtime_factory ::
  "((pystr \<times> plain) list \<Rightarrow> 'r option) option \<Rightarrow> managed_config \<Rightarrow> startup_check + 'r" where
  "default_runtime_factory smallos config =
     (case smallos of
        None \<Rightarrow> Inl (ConfigurationError (lit ''managed listen() requires SmallOS with the Unix kernel; install requirements.txt or supply a configured runtime''))
      | Some create \<Rightarrow>
          (case create (to_smallos_config config) of
             None \<Rightarrow> Inl (ConfigurationError (lit ''managed listen() could not create the default SmallOS Unix runtime; supply a configured runtime on this platform''))
           | Some runtime \<Rightarrow> Inr runtime))"

text \<open>The outcomes of \<open>listen\<close>: the start did not give a handle, the handle is returned, or an error is raised: the one the
  scheduler raised, a \<open>ServerStartupError\<close> with it, or a \<open>ServerFinalizationError\<close>.\<close>

datatype ('s, 'c, 'o, 'e, 'w) listen_result =
  NotStarted "('s, 'c, 'o, 'e, 'w) start_result"
| Returned "(pystr, 'e) handle"
| RunRaised 'e "(pystr, 'e) handle"
| RunUncleaned 'e bool "('e handle_error, (pystr, 'e) handle \<times> 'w app) cleanup_error" "(pystr, 'e) handle"
| RunUnfinished "('e handle_error, (pystr, 'e) handle \<times> 'w app) cleanup_error" "(pystr, 'e) handle"

text \<open>After the run of the scheduler, which raised \<open>primary\<close> or returned; \<open>keyboard\<close> recognizes a \<open>KeyboardInterrupt\<close>.\<close>

definition after_run_of ::
  "('e, 'w app) host \<Rightarrow> ('e \<Rightarrow> bool) \<Rightarrow> ('e \<Rightarrow> bool) \<Rightarrow> bool \<Rightarrow> 'e option \<Rightarrow> (pystr, 'e) handle \<Rightarrow> 'w app \<Rightarrow>
   ('s, 'c, 'o, 'e, 'w) listen_result \<times> 'w app" where
  "after_run_of host interrupt keyboard managed primary h s =
     (case finish_close host True None h s of
        (h1, s1) \<Rightarrow>
          let t = handle_cleanup_transaction host h1
          in (case primary of
                Some e \<Rightarrow>
                  if \<not> sh_finished h1
                  then (case raise_startup_cleanup interrupt e t None of (flag, ce) \<Rightarrow> RunUncleaned e flag ce h1)
                  else if managed \<and> keyboard e then Returned h1
                  else RunRaised e h1
              | None \<Rightarrow> if \<not> sh_finished h1 then RunUnfinished (cleanup_error_init t None) h1 else Returned h1, s1))"

text \<open>\<open>given_runtime\<close> is the runtime of the caller, \<open>observed\<close> whether this server has an observer; \<open>run\<close> is the run of the scheduler, on the handle and the application.\<close>

definition listen ::
  "((pystr \<times> plain) list \<Rightarrow> ('s, 'a, 'c, 'o, 'e, 'w) start_env option) option \<Rightarrow> bool \<Rightarrow> ('s, 'a, 'c, 'o, 'e, 'w) start_env option \<Rightarrow>
   ('e \<Rightarrow> bool) \<Rightarrow> ((pystr, 'e) handle \<Rightarrow> 'w app \<Rightarrow> 'e option \<times> (pystr, 'e) handle \<times> 'w app) \<Rightarrow>
   nat \<Rightarrow> nat \<Rightarrow> pystr \<Rightarrow> int \<Rightarrow> server_config option \<Rightarrow> pystr \<Rightarrow> bool \<Rightarrow> bool option \<Rightarrow> 'w app \<Rightarrow>
   ('s, 'c, 'o, 'e, 'w) listen_result \<times> 'w app" where
  "listen smallos observed given_runtime keyboard run fresh serving host port config protocol given start s =
     (let managed = (given_runtime = None);
          refused = (\<lambda>err. (NotStarted (StartRaised (CauseCheck err)), s))
      in if managed \<and> start = Some False
         then refused (CheckError (ValueError (lit ''start=False requires a caller-supplied runtime'')))
         else (case resolve_server_config observed config managed of
                 Inl err \<Rightarrow> refused (CheckError err)
               | Inr resolved \<Rightarrow>
                   let should_start = (case start of None \<Rightarrow> managed | Some b \<Rightarrow> b)
                   in case (case given_runtime of
                              Some runtime \<Rightarrow> Inr runtime
                            | None \<Rightarrow> default_runtime_factory smallos (resolve_runtime resolved)) of
                        Inl err \<Rightarrow> refused err
                      | Inr runtime \<Rightarrow>
                          let env = runtime\<lparr>se_observed := observed\<rparr>
                          in (case start_on env should_start fresh serving host port resolved protocol given s of
                             (Started h b, s1) \<Rightarrow>
                               if \<not> should_start then (Returned h, s1)
                               else (case run h s1 of
                                       (primary, h1, s2) \<Rightarrow>
                                         after_run_of (app_host env b (Serving serving)) (\<lambda>e. se_interrupt env (CauseHost e)) keyboard
                                           managed primary h1 s2)
                           | (other, s1) \<Rightarrow> (NotStarted other, s1))))"

end
