(* ===== verification/Startup_Laws.thy ===== *)
theory Startup_Laws
  imports Startup Transport_Laws
begin

text \<open>
  A start of the server keeps all it has acquired, or owns it in an error that can be retried: the sockets and the wakeup
  channels that are open are counted through every path of \<open>_bind_and_schedule\<close>.
\<close>

section \<open>The books\<close>

text \<open>What is asked of the kernel and the scheduler: opening and creating give new objects, a close that raises closes
  nothing, and no other call opens or closes one.\<close>

definition start_books :: "('s, 'a, 'c, 'o, 'e, 'w) start_env \<Rightarrow> ('w \<Rightarrow> 's set) \<Rightarrow> ('w \<Rightarrow> 'c set) \<Rightarrow> bool" where
  "start_books env socks chans \<longleftrightarrow>
     (let k = se_kernel env; host = se_host env; keeps = (\<lambda>w w'. socks w' = socks w \<and> chans w' = chans w)
      in socket_books k socks \<and>
         (\<forall>h p w. chans (snd (k_resolve_passive_address k h p w)) = chans w) \<and>
         (\<forall>a w. chans (snd (k_socket_open k a w)) = chans w) \<and>
         (\<forall>s b w. chans (snd (k_socket_setblocking k s b w)) = chans w) \<and>
         (\<forall>s b w. chans (snd (k_socket_set_reuse_address k s b w)) = chans w) \<and>
         (\<forall>s a w. chans (snd (k_socket_bind k s a w)) = chans w) \<and>
         (\<forall>s b w. chans (snd (k_socket_listen k s b w)) = chans w) \<and>
         (\<forall>s w. chans (snd (k_socket_close k s w)) = chans w) \<and>
         (\<forall>s w. keeps w (snd (k_socket_local_address k s w))) \<and>
         (\<forall>w e w'. k_create_wakeup_channel k w = (Inl e, w') \<longrightarrow> keeps w w') \<and>
         (\<forall>w c w'. k_create_wakeup_channel k w = (Inr c, w') \<longrightarrow>
            socks w' = socks w \<and> c \<notin> chans w \<and> chans w' = insert c (chans w)) \<and>
         (\<forall>x w. keeps w (snd (k_validate_io_wait_object k x w))) \<and>
         (\<forall>c w. keeps w (snd (k_channel_wait_object k c w))) \<and>
         (\<forall>c w r w'. k_channel_close k c w = (r, w') \<longrightarrow>
            socks w' = socks w \<and> chans w' = (if r = None then chans w - {c} else chans w)) \<and>
         (\<forall>w. keeps w (snd (host_new_task host w))) \<and>
         (\<forall>ts w. keeps w (snd (se_fork env ts w))) \<and>
         (\<forall>t w. keeps w (snd (host_cancel host t w))) \<and>
         (\<forall>t w. keeps w (host_wake_observer host t w)))"

lemma start_books_rules:
  assumes "start_books env socks chans"
  shows start_sockets: "socket_books (se_kernel env) socks"
    and chans_resolve: "chans (snd (k_resolve_passive_address (se_kernel env) h p w)) = chans w"
    and chans_open: "chans (snd (k_socket_open (se_kernel env) a w)) = chans w"
    and chans_blocking: "chans (snd (k_socket_setblocking (se_kernel env) s b w)) = chans w"
    and chans_reuse: "chans (snd (k_socket_set_reuse_address (se_kernel env) s b w)) = chans w"
    and chans_bind: "chans (snd (k_socket_bind (se_kernel env) s a w)) = chans w"
    and chans_listen: "chans (snd (k_socket_listen (se_kernel env) s n w)) = chans w"
    and chans_close: "chans (snd (k_socket_close (se_kernel env) s w)) = chans w"
    and books_local: "socks (snd (k_socket_local_address (se_kernel env) s w)) = socks w"
      "chans (snd (k_socket_local_address (se_kernel env) s w)) = chans w"
    and books_not_created: "k_create_wakeup_channel (se_kernel env) w = (Inl e, w') \<Longrightarrow> socks w' = socks w \<and> chans w' = chans w"
    and books_created: "k_create_wakeup_channel (se_kernel env) w = (Inr c, w') \<Longrightarrow>
      socks w' = socks w \<and> c \<notin> chans w \<and> chans w' = insert c (chans w)"
    and books_validate: "socks (snd (k_validate_io_wait_object (se_kernel env) x w)) = socks w"
      "chans (snd (k_validate_io_wait_object (se_kernel env) x w)) = chans w"
    and books_wait_object: "socks (snd (k_channel_wait_object (se_kernel env) c w)) = socks w"
      "chans (snd (k_channel_wait_object (se_kernel env) c w)) = chans w"
    and books_channel_close: "k_channel_close (se_kernel env) c w = (r, w') \<Longrightarrow>
      socks w' = socks w \<and> chans w' = (if r = None then chans w - {c} else chans w)"
    and books_new_task: "socks (snd (host_new_task (se_host env) w)) = socks w" "chans (snd (host_new_task (se_host env) w)) = chans w"
    and books_fork: "socks (snd (se_fork env ts w)) = socks w" "chans (snd (se_fork env ts w)) = chans w"
    and books_cancel: "socks (snd (host_cancel (se_host env) t w)) = socks w" "chans (snd (host_cancel (se_host env) t w)) = chans w"
    and books_observer: "socks (host_wake_observer (se_host env) t w) = socks w"
      "chans (host_wake_observer (se_host env) t w) = chans w"
  using assms by (simp_all add: start_books_def Let_def)

section \<open>The transport's acquisitions\<close>

lemma first_raise_chans:
  assumes "\<And>call w. call \<in> set calls \<Longrightarrow> chans (snd (call w)) = chans w" and "first_raise calls w = (r, w')"
  shows "chans w' = (chans w :: 'c set)"
  using assms
proof (induction calls arbitrary: w)
  case (Cons call calls)
  obtain q w1 where q: "call w = (q, w1)" by fastforce
  have same: "chans w1 = chans w" using Cons.prems(1) [of call w] q by simp
  show ?case
  proof (cases q)
    case None
    then have "first_raise calls w1 = (r, w')" using Cons.prems(2) q by simp
    then show ?thesis using Cons.IH [of w1] Cons.prems(1) same by simp
  qed (use Cons.prems(2) q same in simp)
qed simp

lemma open_listener_chans:
  assumes books: "start_books env socks chans" and run: "open_listener (se_kernel env) host port backlog reuse w = (r, w')"
  shows "chans w' = chans w"
proof -
  note rules = chans_resolve [OF books] chans_open [OF books] chans_blocking [OF books] chans_reuse [OF books]
    chans_bind [OF books] chans_listen [OF books] chans_close [OF books]
  obtain q w1 where q: "k_resolve_passive_address (se_kernel env) host port w = (q, w1)" by fastforce
  have c1: "chans w1 = chans w" using rules(1) q by (metis snd_conv)
  show ?thesis
  proof (cases q)
    case (Inl e)
    then show ?thesis using run q c1 by (simp add: open_listener_def)
  next
    case (Inr address)
    obtain o1 w2 where o1: "k_socket_open (se_kernel env) address w1 = (o1, w2)" by fastforce
    have c2: "chans w2 = chans w" using rules(2) o1 c1 by (metis snd_conv)
    show ?thesis
    proof (cases o1)
      case i: (Inl e)
      then show ?thesis using run q Inr o1 c2 by (simp add: open_listener_def)
    next
      case i: (Inr raw)
      let ?calls = "[k_socket_set_reuse_address (se_kernel env) raw reuse, k_socket_bind (se_kernel env) raw address,
        k_socket_listen (se_kernel env) raw backlog, k_socket_setblocking (se_kernel env) raw False]"
      obtain f w3 where f: "first_raise ?calls w2 = (f, w3)" by fastforce
      have "chans w3 = chans w2" by (rule first_raise_chans [OF _ f]) (auto simp: rules)
      then have c3: "chans w3 = chans w" using c2 by simp
      show ?thesis
      proof (cases f)
        case None
        then show ?thesis using run q Inr o1 i f c3 by (simp add: open_listener_def)
      next
        case (Some e)
        obtain x w4 where x: "k_socket_close (se_kernel env) raw w3 = (x, w4)" by fastforce
        have "chans w4 = chans w" using rules(7) x c3 by (metis snd_conv)
        then show ?thesis using run q Inr o1 i f Some x
          by (auto simp: open_listener_def roll_back_def transport_close_def new_handle_def split: option.splits)
      qed
    qed
  qed
qed

lemma open_listener_unrolled:
  assumes "open_listener k host port backlog reuse w = (Unrolled p t h, w')"
  shows "\<exists>key e. t = \<lparr>cl_actions = [(key, close_action k)], cl_errors = [(key, e)]\<rparr>"
  using assms
  by (auto simp: open_listener_def roll_back_def cleanup_add_def cleanup_init_def Let_def split: prod.splits sum.splits option.splits)

text \<open>The wakeup channel. The rollback that failed is retried on the raw channel.\<close>

definition raw_closer ::
  "('s, 'a, 'c, 'o, 'e, 'w) kernel \<Rightarrow> 'c \<Rightarrow> ('e transport_error, ('c, 'o, 'e) wakeup option \<times> 'w) action" where
  "raw_closer k raw = (\<lambda>(h, w). case close_raw_channel k raw CleanupUnavailable w of (r, w') \<Rightarrow> (r, (h, w')))"

lemma close_raw_channel_books:
  assumes books: "start_books env socks chans" and run: "close_raw_channel (se_kernel env) raw x w = (r, w')"
  shows "socks w' = socks w \<and> chans w' = (if r = None then chans w - {raw} else chans w)"
proof -
  obtain q w1 where q: "k_channel_close (se_kernel env) raw w = (q, w1)" by fastforce
  show ?thesis using run q books_channel_close [OF books q]
    by (auto simp: close_raw_channel_def split: if_splits option.splits)
qed

lemma check_channel_books:
  assumes books: "start_books env socks chans" and run: "check_channel (se_kernel env) raw w = (r, w')"
  shows "socks w' = socks w \<and> chans w' = chans w"
proof -
  obtain q w1 where q: "k_channel_wait_object (se_kernel env) raw w = (q, w1)" by fastforce
  have s1: "socks w1 = socks w" "chans w1 = chans w" using books_wait_object [OF books, of raw w] q by simp_all
  show ?thesis
  proof (cases q)
    case (Inl e)
    then show ?thesis using run q s1 by (auto simp: check_channel_def split: if_splits)
  next
    case (Inr x)
    obtain v w2 where v: "k_validate_io_wait_object (se_kernel env) x w1 = (v, w2)" by fastforce
    have "socks w2 = socks w" "chans w2 = chans w" using books_validate [OF books, of x w1] v s1 by simp_all
    then show ?thesis using run q Inr v s1
      by (auto simp: check_channel_def split: if_splits sum.splits prod.splits bool.splits option.splits)
  qed
qed

definition channel_books ::
  "('s, 'a, 'c, 'o, 'e, 'w) start_env \<Rightarrow> ('w \<Rightarrow> 'c set) \<Rightarrow> 'c set \<Rightarrow>
   (('c, 'o, 'e) wakeup option, 'e transport_error, 'e transport_error, 'w) acquired \<Rightarrow> 'w \<Rightarrow> bool" where
  "channel_books env chans before r w \<longleftrightarrow>
     (case r of
        Acquired None \<Rightarrow> chans w = before
      | Acquired (Some ch) \<Rightarrow> \<not> wk_closed ch \<and> wk_raw ch \<notin> before \<and> chans w = insert (wk_raw ch) before
      | AcquireRaised _ \<Rightarrow> chans w = before
      | Unrolled _ t wk \<Rightarrow> wk = None \<and>
          (\<exists>key e c. t = \<lparr>cl_actions = [(key, raw_closer (se_kernel env) c)], cl_errors = [(key, e)]\<rparr> \<and>
             c \<notin> before \<and> chans w = insert c before))"

lemma create_wakeup_channel_books:
  assumes books: "start_books env socks chans" and run: "create_wakeup_channel (se_kernel env) supported w = (r, w')"
  shows "socks w' = socks w \<and> channel_books env chans (chans w) r w'"
proof (cases supported)
  case False
  then show ?thesis using run by (auto simp: create_wakeup_channel_def channel_books_def)
next
  case True
  obtain q w1 where q: "k_create_wakeup_channel (se_kernel env) w = (q, w1)" by fastforce
  show ?thesis
  proof (cases q)
    case (Inl e)
    then have "r = AcquireRaised (KernelRaised e)" "w' = w1" using run q True by (simp_all add: create_wakeup_channel_def)
    then show ?thesis using books_not_created [OF books q [unfolded Inl]] by (simp add: channel_books_def)
  next
    case (Inr raw)
    note new = books_created [OF books q [unfolded Inr]]
    obtain v w2 where v: "check_channel (se_kernel env) raw w1 = (v, w2)" by fastforce
    note same = check_channel_books [OF books v]
    show ?thesis
    proof (cases v)
      case i: (Inr x)
      then have "r = Acquired (Some \<lparr>wk_raw = raw, wk_wait_object = x, wk_closed = False, wk_close_error = None\<rparr>)" "w' = w2"
        using run q True Inr v by (simp_all add: create_wakeup_channel_def)
      then show ?thesis using new same by (simp add: channel_books_def)
    next
      case i: (Inl primary)
      obtain c w3 where c: "close_raw_channel (se_kernel env) raw ChannelNotCloseable w2 = (c, w3)" by fastforce
      note closed = close_raw_channel_books [OF books c]
      show ?thesis
      proof (cases c)
        case None
        then have "r = AcquireRaised primary" "w' = w3" using run q True Inr v i c by (simp_all add: create_wakeup_channel_def)
        then show ?thesis using new same closed None by (simp add: channel_books_def)
      next
        case (Some e)
        have r: "r = Unrolled primary (cleanup_add (lit ''wakeup'') (raw_closer (se_kernel env) raw) (Some e) cleanup_init) None" "w' = w3"
          using run q True Inr v i c Some by (simp_all add: create_wakeup_channel_def raw_closer_def)
        have "cleanup_add (lit ''wakeup'') (raw_closer (se_kernel env) raw) (Some e) cleanup_init =
            \<lparr>cl_actions = [(free_key [] (lit ''wakeup'') 0, raw_closer (se_kernel env) raw)], cl_errors = [(free_key [] (lit ''wakeup'') 0, e)]\<rparr>"
          by (simp add: cleanup_add_def cleanup_init_def Let_def)
        then show ?thesis using new same closed Some r by (auto simp: channel_books_def)
      qed
    qed
  qed
qed

section \<open>What a transaction owns\<close>

text \<open>An action that closes the channel \<open>c\<close>, for the channel as it is bound.\<close>

definition closes_channel ::
  "('s, 'a, 'c, 'o, 'e, 'w) kernel \<Rightarrow> 'c \<Rightarrow> ('c, 'o, 'e) wakeup option \<Rightarrow>
   ('e transport_error, ('s, 'c, 'o, 'e) bound \<times> 'w app) action \<Rightarrow> bool" where
  "closes_channel k c wk act \<longleftrightarrow>
     act = of_wakeup (raw_closer k c) \<or> act = wakeup_action k \<and> (\<exists>ch. wk = Some ch \<and> \<not> wk_closed ch \<and> wk_raw ch = c)"

text \<open>The transaction owns what is open beyond \<open>before_s\<close> and \<open>before_c\<close>: at most a channel and the listener, in this order.\<close>

definition owns_channel ::
  "('s, 'a, 'c, 'o, 'e, 'w) kernel \<Rightarrow> ('w \<Rightarrow> 'c set) \<Rightarrow> 'c set \<Rightarrow>
   (pystr \<times> ('e transport_error, ('s, 'c, 'o, 'e) bound \<times> 'w app) action) list \<Rightarrow> ('c, 'o, 'e) wakeup option \<Rightarrow> 'w \<Rightarrow> bool" where
  "owns_channel k chans before acts wk w \<longleftrightarrow>
     acts = [] \<and> chans w = before \<or>
     (\<exists>key act c. acts = [(key, act)] \<and> closes_channel k c wk act \<and> c \<notin> before \<and> chans w = insert c before)"

definition owns_listener ::
  "('s, 'a, 'c, 'o, 'e, 'w) kernel \<Rightarrow> ('w \<Rightarrow> 's set) \<Rightarrow> 's set \<Rightarrow>
   (pystr \<times> ('e transport_error, ('s, 'c, 'o, 'e) bound \<times> 'w app) action) list \<Rightarrow> ('s, 'e) thandle \<Rightarrow> 'w \<Rightarrow> bool" where
  "owns_listener k socks before acts h w \<longleftrightarrow>
     acts = [] \<and> socks w = before \<or>
     (\<exists>key. acts = [(key, listener_action k)] \<and> \<not> th_closed h \<and> th_raw h \<notin> before \<and> socks w = insert (th_raw h) before)"

definition owns ::
  "('s, 'a, 'c, 'o, 'e, 'w) kernel \<Rightarrow> ('w \<Rightarrow> 's set) \<Rightarrow> ('w \<Rightarrow> 'c set) \<Rightarrow> 's set \<Rightarrow> 'c set \<Rightarrow>
   ('e transport_error, ('s, 'c, 'o, 'e) bound \<times> 'w app) cleanup \<Rightarrow> ('s, 'c, 'o, 'e) bound \<Rightarrow> 'w app \<Rightarrow> bool" where
  "owns k socks chans before_s before_c t b s \<longleftrightarrow>
     cleanup_wf t \<and>
     (\<exists>cw cl. cl_actions t = cw @ cl \<and> owns_channel k chans before_c cw (snd b) (ap_world s) \<and>
        owns_listener k socks before_s cl (fst b) (ap_world s))"

lemma wakeup_action_run:
  assumes books: "start_books env socks chans" and closes: "closes_channel (se_kernel env) c wk act"
    and run: "act ((h, wk), s) = (err, ((h1, wk1), s1))"
  shows "h1 = h \<and> ap_active s1 = ap_active s \<and> socks (ap_world s1) = socks (ap_world s) \<and>
    chans (ap_world s1) = (if err = None then chans (ap_world s) - {c} else chans (ap_world s)) \<and>
    (err \<noteq> None \<longrightarrow> closes_channel (se_kernel env) c wk1 act)"
proof (cases "act = of_wakeup (raw_closer (se_kernel env) c)")
  case True
  obtain r w1 where r: "close_raw_channel (se_kernel env) c CleanupUnavailable (ap_world s) = (r, w1)" by fastforce
  show ?thesis using run True r close_raw_channel_books [OF books r]
    by (auto simp: of_wakeup_def raw_closer_def closes_channel_def)
next
  case False
  then obtain ch where ch: "act = wakeup_action (se_kernel env)" "wk = Some ch" "\<not> wk_closed ch" "wk_raw ch = c"
    using closes by (auto simp: closes_channel_def)
  obtain r w1 where r: "k_channel_close (se_kernel env) c (ap_world s) = (r, w1)" by fastforce
  show ?thesis using run ch r books_channel_close [OF books r]
    by (auto simp: wakeup_action_def wakeup_close_def closes_channel_def split: option.splits)
qed

lemma listener_action_run:
  assumes books: "start_books env socks chans" and open_h: "\<not> th_closed h"
    and run: "listener_action (se_kernel env) ((h, wk), s) = (err, ((h1, wk1), s1))"
  shows "wk1 = wk \<and> th_raw h1 = th_raw h \<and> ap_active s1 = ap_active s \<and> chans (ap_world s1) = chans (ap_world s) \<and>
    socks (ap_world s1) = (if err = None then socks (ap_world s) - {th_raw h} else socks (ap_world s)) \<and>
    (err \<noteq> None \<longrightarrow> \<not> th_closed h1)"
proof -
  obtain r h2 w1 where r: "transport_close (se_kernel env) h (ap_world s) = (r, h2, w1)" by (metis prod_cases3)
  obtain q w2 where q: "k_socket_close (se_kernel env) (th_raw h) (ap_world s) = (q, w2)" by fastforce
  have "w1 = w2" using r q open_h by (auto simp: transport_close_def split: option.splits)
  then have "chans w1 = chans (ap_world s)" using chans_close [OF books, of "th_raw h" "ap_world s"] q by simp
  then show ?thesis
    using run r transport_close_books [OF start_sockets [OF books] r open_h] by (auto simp: listener_action_def split: if_splits)
qed

lemma of_listener_close: "of_listener (close_action k) = listener_action k"
  by (auto simp: of_listener_def close_action_def listener_action_def fun_eq_iff split: prod.splits)

text \<open>A retry of each part keeps it, and leaves the other and the mark alone.\<close>

abbreviation still_failed :: "(pystr \<times> 'e option) list \<Rightarrow> (pystr \<times> 'b) list \<Rightarrow> (pystr \<times> 'b) list" where
  "still_failed outs acts \<equiv> filter (\<lambda>(n, _). failed outs n) acts"

lemma owns_channel_run:
  assumes books: "start_books env socks chans" and owns: "owns_channel (se_kernel env) chans before cw wk (ap_world s)"
    and run: "run_actions cw ((h, wk), s) = (outs, (h1, wk1), s1)"
  shows "owns_channel (se_kernel env) chans before (still_failed outs cw) wk1 (ap_world s1) \<and> h1 = h \<and> ap_active s1 = ap_active s \<and>
    socks (ap_world s1) = socks (ap_world s)"
proof (cases cw)
  case Nil
  then show ?thesis using owns run by (auto simp: owns_channel_def)
next
  case (Cons a as)
  then obtain key act c where cw: "cw = [(key, act)]" and closes: "closes_channel (se_kernel env) c wk act"
    and c: "c \<notin> before" "chans (ap_world s) = insert c before" using owns unfolding owns_channel_def by auto
  obtain err b1 s2 where act: "act ((h, wk), s) = (err, b1, s2)" by (metis prod_cases3)
  obtain h2 wk2 where b1: "b1 = (h2, wk2)" by fastforce
  note after = wakeup_action_run [OF books closes act [unfolded b1]]
  have "outs = [(key, err)]" "h1 = h2" "wk1 = wk2" "s1 = s2" using run cw act b1 by simp_all
  then show ?thesis using after c cw by (cases err) (auto simp: owns_channel_def failed_def)
qed

lemma owns_listener_run:
  assumes books: "start_books env socks chans" and owns: "owns_listener (se_kernel env) socks before cl h (ap_world s)"
    and run: "run_actions cl ((h, wk), s) = (outs, (h1, wk1), s1)"
  shows "owns_listener (se_kernel env) socks before (still_failed outs cl) h1 (ap_world s1) \<and> wk1 = wk \<and> ap_active s1 = ap_active s \<and>
    chans (ap_world s1) = chans (ap_world s)"
proof (cases cl)
  case Nil
  then show ?thesis using owns run by (auto simp: owns_listener_def)
next
  case (Cons a as)
  then obtain key where cl: "cl = [(key, listener_action (se_kernel env))]" and open_h: "\<not> th_closed h"
    and c: "th_raw h \<notin> before" "socks (ap_world s) = insert (th_raw h) before" using owns unfolding owns_listener_def by auto
  obtain err b1 s2 where act: "listener_action (se_kernel env) ((h, wk), s) = (err, b1, s2)" by (metis prod_cases3)
  obtain h2 wk2 where b1: "b1 = (h2, wk2)" by fastforce
  note after = listener_action_run [OF books open_h act [unfolded b1]]
  have "outs = [(key, err)]" "h1 = h2" "wk1 = wk2" "s1 = s2" using run cl act b1 by simp_all
  then show ?thesis using after c cl by (cases err) (auto simp: owns_listener_def failed_def)
qed

lemma run_actions_append:
  "run_actions (xs @ ys) w = (case run_actions xs w of (o1, w1) \<Rightarrow> case run_actions ys w1 of (o2, w2) \<Rightarrow> (o1 @ o2, w2))"
  by (induction xs arbitrary: w) (auto split: prod.splits)

lemma still_failed_append:
  assumes "distinct (map fst (xs @ ys))" and "map fst o1 = map fst xs" and "map fst o2 = map fst ys"
  shows "still_failed (o1 @ o2) (xs @ ys) = still_failed o1 xs @ still_failed o2 ys"
proof -
  have keys: "dom (map_of o1) = fst ` set xs" "dom (map_of o2) = fst ` set ys"
    using assms(2,3) by (metis dom_map_of_conv_image_fst set_map)+
  have "failed (o1 @ o2) n = failed o1 n" if "n \<in> fst ` set xs" for n
    using that assms(1) keys by (auto simp: failed_def map_add_dom_app_simps dest: map_add_SomeD)
  moreover have "failed (o1 @ o2) n = failed o2 n" if "n \<in> fst ` set ys" for n
  proof -
    have "n \<notin> fst ` set xs" using that assms(1) by auto
    then have "map_of o1 n = None" using keys(1) by (auto simp: domIff)
    then show ?thesis by (simp add: failed_def map_add_def)
  qed
  ultimately show ?thesis by (auto simp: case_prod_unfold intro!: filter_cong arg_cong2 [of _ _ _ _ append])
qed

lemma owns_retry:
  assumes books: "start_books env socks chans" and owns: "owns (se_kernel env) socks chans before_s before_c t b s"
    and retry: "cleanup_retry t (b, s) = (errs, t1, b1, s1)"
  shows "owns (se_kernel env) socks chans before_s before_c t1 b1 s1 \<and> ap_active s1 = ap_active s"
proof -
  have wf: "cleanup_wf t" using owns by (simp add: owns_def)
  obtain outs where run: "run_actions (cl_actions t) (b, s) = (outs, b1, s1)" and wf1: "cleanup_wf t1"
    and left: "cl_actions t1 = still_failed outs (cl_actions t)"
    using retry_core [OF wf retry] by blast
  obtain cw cl where acts: "cl_actions t = cw @ cl"
    and parts: "owns_channel (se_kernel env) chans before_c cw (snd b) (ap_world s)"
      "owns_listener (se_kernel env) socks before_s cl (fst b) (ap_world s)"
    using owns unfolding owns_def by blast
  obtain o1 h1 wk1 s2 where r1: "run_actions cw ((fst b, snd b), s) = (o1, (h1, wk1), s2)" by (metis prod_cases3 surj_pair)
  obtain o2 h2 wk2 s3 where r2: "run_actions cl ((h1, wk1), s2) = (o2, (h2, wk2), s3)" by (metis prod_cases3 surj_pair)
  have out: "outs = o1 @ o2" "b1 = (h2, wk2)" "s1 = s3" using run r1 r2 by (simp_all add: acts run_actions_append)
  note c = owns_channel_run [OF books parts(1) r1]
  have "owns_listener (se_kernel env) socks before_s cl h1 (ap_world s2)"
    using parts(2) c by (auto simp: owns_listener_def)
  note l = owns_listener_run [OF books this r2]
  have "owns_channel (se_kernel env) chans before_c (still_failed o1 cw) wk2 (ap_world s3)"
    using c l by (auto simp: owns_channel_def)
  moreover have "distinct (map fst (cw @ cl))" using wf acts by (simp add: cleanup_wf_def dict_wf_def)
  then have "cl_actions t1 = still_failed o1 cw @ still_failed o2 cl"
    using still_failed_append run_actions_keys [OF r1] run_actions_keys [OF r2] by (simp add: left acts out)
  ultimately show ?thesis using l c wf1 out unfolding owns_def by auto
qed

section \<open>Until there is a handle\<close>

text \<open>A start that ends before there is a handle, from the mark \<open>m\<close>: it released everything and the mark, or it still has the mark
  and owns all that is open.\<close>

definition start_ended ::
  "('s, 'a, 'c, 'o, 'e, 'w) start_env \<Rightarrow> ('w \<Rightarrow> 's set) \<Rightarrow> ('w \<Rightarrow> 'c set) \<Rightarrow> 's set \<Rightarrow> 'c set \<Rightarrow> invocation \<Rightarrow>
   ('s, 'c, 'o, 'e, 'w) start_result \<Rightarrow> 'w app \<Rightarrow> bool" where
  "start_ended env socks chans before_s before_c m result s \<longleftrightarrow>
     (case result of
        StartRaised e \<Rightarrow> ap_active s = None \<and> socks (ap_world s) = before_s \<and> chans (ap_world s) = before_c
      | StartUncleaned e i ce b \<Rightarrow> ap_active s = Some m \<and> \<not> cleanup_complete (ce_transaction ce) \<and>
          ce_callback ce = Some (release_action m) \<and> \<not> ce_notified ce \<and>
          owns (se_kernel env) socks chans before_s before_c (ce_transaction ce) b s
      | _ \<Rightarrow> False)"

text \<open>What is open in between.\<close>

definition holding ::
  "('w \<Rightarrow> 's set) \<Rightarrow> ('w \<Rightarrow> 'c set) \<Rightarrow> 's set \<Rightarrow> 'c set \<Rightarrow> ('s, 'c, 'o, 'e) bound \<Rightarrow> 'w \<Rightarrow> bool" where
  "holding socks chans before_s before_c b w \<longleftrightarrow>
     \<not> th_closed (fst b) \<and> th_raw (fst b) \<notin> before_s \<and> socks w = insert (th_raw (fst b)) before_s \<and>
     (case snd b of
        None \<Rightarrow> chans w = before_c
      | Some ch \<Rightarrow> \<not> wk_closed ch \<and> wk_raw ch \<notin> before_c \<and> chans w = insert (wk_raw ch) before_c)"

lemma cleanup_add_complete [simp]: "\<not> cleanup_complete (cleanup_add name act e t)"
  using cleanup_add_owns [of t name act e] by (auto simp: cleanup_complete_def)

lemma owns_nothing:
  "owns k socks chans before_s before_c cleanup_init b s \<longleftrightarrow> socks (ap_world s) = before_s \<and> chans (ap_world s) = before_c"
  by (auto simp: owns_def owns_channel_def owns_listener_def cleanup_wf_init [unfolded cleanup_init_def] cleanup_init_def)

text \<open>The listener is added to what a transaction owns.\<close>

lemma owns_add_listener:
  assumes owns: "cleanup_wf t" "owns_channel k chans before_c (cl_actions t) (snd b) (ap_world s)"
    and h: "\<not> th_closed (fst b)" "th_raw (fst b) \<notin> before_s" "socks (ap_world s) = insert (th_raw (fst b)) before_s"
  shows "owns k socks chans before_s before_c (cleanup_add name (listener_action k) e t) b s"
proof -
  obtain key where "cl_actions (cleanup_add name (listener_action k) e t) = cl_actions t @ [(key, listener_action k)]"
    using cleanup_add_owns by blast
  then show ?thesis using owns h cleanup_wf_add [OF owns(1)] unfolding owns_def owns_listener_def by blast
qed

lemma roll_back_listener_ended:
  assumes books: "start_books env socks chans" and m: "ap_active s = Some m"
    and h: "\<not> th_closed (fst b)" "th_raw (fst b) \<notin> before_s" "socks (ap_world s) = insert (th_raw (fst b)) before_s"
    and t: "case t of None \<Rightarrow> chans (ap_world s) = before_c
      | Some t \<Rightarrow> cleanup_wf t \<and> \<not> cleanup_complete t \<and> owns_channel (se_kernel env) chans before_c (cl_actions t) (snd b) (ap_world s)"
    and run: "roll_back_listener env m primary t b s = (result, s')"
  shows "start_ended env socks chans before_s before_c m result s'"
proof -
  obtain err b1 s1 where act: "listener_action (se_kernel env) ((fst b, snd b), s) = (err, b1, s1)" by (metis prod_cases3)
  obtain h1 wk1 where b1: "b1 = (h1, wk1)" by fastforce
  note after = listener_action_run [OF books h(1) act [unfolded b1]]
  have chans: "case t of None \<Rightarrow> chans (ap_world s1) = before_c
      | Some t \<Rightarrow> cleanup_wf t \<and> \<not> cleanup_complete t \<and> owns_channel (se_kernel env) chans before_c (cl_actions t) wk1 (ap_world s1)"
    using t after by (auto simp: owns_channel_def split: option.splits)
  show ?thesis
  proof (cases err)
    case None
    have socks: "socks (ap_world s1) = before_s" using after None h by simp
    show ?thesis
    proof (cases t)
      case i: None
      then have "result = StartRaised primary" "s' = release_invocation m s1"
        using run act b1 None by (simp_all add: roll_back_listener_def)
      then show ?thesis using after m socks chans i by (simp add: start_ended_def release_invocation_def)
    next
      case (Some t0)
      then have r: "result = raise_acquisition_cleanup env m primary t0 b1" "s' = s1"
        using run act b1 None by (simp_all add: roll_back_listener_def)
      have "owns (se_kernel env) socks chans before_s before_c t0 b1 s1"
        using chans Some socks b1 unfolding owns_def by (auto simp: owns_listener_def)
      then show ?thesis using r after m chans Some by (simp add: start_ended_def raise_acquisition_cleanup_def cleanup_error_init_def)
    qed
  next
    case (Some e)
    let ?t0 = "case t of None \<Rightarrow> cleanup_init | Some t \<Rightarrow> t"
    have r: "result = raise_acquisition_cleanup env m primary (cleanup_add (lit ''listener'') (listener_action (se_kernel env)) (Some e) ?t0) b1" "s' = s1"
      using run act b1 Some by (simp_all add: roll_back_listener_def)
    have "cleanup_wf ?t0" "owns_channel (se_kernel env) chans before_c (cl_actions ?t0) (snd b1) (ap_world s1)"
      using chans b1 by (auto simp: cleanup_wf_init [unfolded cleanup_init_def] owns_channel_def cleanup_init_def split: option.splits)
    then have "owns (se_kernel env) socks chans before_s before_c (cleanup_add (lit ''listener'') (listener_action (se_kernel env)) (Some e) ?t0) b1 s1"
      using after Some h b1 by (intro owns_add_listener) simp_all
    then show ?thesis using r after m by (simp add: start_ended_def raise_acquisition_cleanup_def cleanup_error_init_def)
  qed
qed

text \<open>The wakeup channel is closed first when both go.\<close>

lemma close_bound_channel:
  assumes books: "start_books env socks chans" and hold: "holding socks chans before_s before_c b (ap_world s)"
    and run: "(if snd b = None then (cleanup_init, b, s)
      else case wakeup_action (se_kernel env) (b, s) of
        (None, (b1, s1)) \<Rightarrow> (cleanup_init, b1, s1)
      | (Some e, (b1, s1)) \<Rightarrow> (cleanup_add (lit ''wakeup'') (wakeup_action (se_kernel env)) (Some e) cleanup_init, b1, s1)) = (t, b1, s1)"
  shows "cleanup_wf t \<and> owns_channel (se_kernel env) chans before_c (cl_actions t) (snd b1) (ap_world s1) \<and> fst b1 = fst b \<and>
    socks (ap_world s1) = socks (ap_world s) \<and> ap_active s1 = ap_active s"
proof (cases "snd b")
  case None
  then show ?thesis using hold run by (auto simp: cleanup_wf_init owns_channel_def holding_def) (simp add: cleanup_init_def)+
next
  case (Some ch)
  have closes: "closes_channel (se_kernel env) (wk_raw ch) (snd b) (wakeup_action (se_kernel env))"
    using hold Some by (simp add: closes_channel_def holding_def)
  obtain err b2 s2 where act: "wakeup_action (se_kernel env) ((fst b, snd b), s) = (err, b2, s2)" by (metis prod_cases3)
  obtain h2 wk2 where b2: "b2 = (h2, wk2)" by fastforce
  note after = wakeup_action_run [OF books closes act [unfolded b2]]
  have act_b: "wakeup_action (se_kernel env) (b, s) = (err, b2, s2)" using act by (simp only: prod.collapse)
  show ?thesis
  proof (cases err)
    case None
    then have "t = cleanup_init" "b1 = b2" "s1 = s2" using run act_b Some by simp_all
    then show ?thesis using after None hold Some b2
      by (auto simp: cleanup_wf_init [unfolded cleanup_init_def] owns_channel_def holding_def cleanup_init_def)
  next
    case i: (Some e)
    let ?t = "cleanup_add (lit ''wakeup'') (wakeup_action (se_kernel env)) (Some e) cleanup_init"
    have r: "t = ?t" "b1 = b2" "s1 = s2" using run act_b Some i by simp_all
    obtain key where "cl_actions ?t = [(key, wakeup_action (se_kernel env))]"
      by (simp add: cleanup_add_def Let_def) (simp add: cleanup_init_def)
    then have "owns_channel (se_kernel env) chans before_c (cl_actions t) (snd b1) (ap_world s1)"
      using after i hold Some b2 r by (auto simp: owns_channel_def holding_def)
    then show ?thesis using after r b2 cleanup_wf_add [OF cleanup_wf_init] by auto
  qed
qed

lemma roll_back_both_ended:
  assumes books: "start_books env socks chans" and m: "ap_active s = Some m"
    and hold: "holding socks chans before_s before_c b (ap_world s)" and run: "roll_back_both env m primary b s = (result, s')"
  shows "start_ended env socks chans before_s before_c m result s'"
proof -
  obtain t b1 s1 where channel: "(if snd b = None then (cleanup_init, b, s)
      else case wakeup_action (se_kernel env) (b, s) of
        (None, (b1, s1)) \<Rightarrow> (cleanup_init, b1, s1)
      | (Some e, (b1, s1)) \<Rightarrow> (cleanup_add (lit ''wakeup'') (wakeup_action (se_kernel env)) (Some e) cleanup_init, b1, s1)) = (t, b1, s1)"
    by (rule prod_cases3)
  note c = close_bound_channel [OF books hold channel]
  have open_h: "\<not> th_closed (fst b1)" "th_raw (fst b1) \<notin> before_s" "socks (ap_world s1) = insert (th_raw (fst b1)) before_s"
    using hold c by (simp_all add: holding_def)
  obtain err b2 s2 where act: "listener_action (se_kernel env) ((fst b1, snd b1), s1) = (err, b2, s2)" by (metis prod_cases3)
  obtain h2 wk2 where b2: "b2 = (h2, wk2)" by fastforce
  note l = listener_action_run [OF books open_h(1) act [unfolded b2]]
  let ?t1 = "case err of None \<Rightarrow> t | Some e \<Rightarrow> cleanup_add (lit ''listener'') (listener_action (se_kernel env)) (Some e) t"
  have r: "(result, s') = (if \<not> cleanup_complete ?t1 then (raise_acquisition_cleanup env m primary ?t1 b2, s2)
      else (StartRaised primary, release_invocation m s2))"
    using run act unfolding roll_back_both_def channel by (simp add: Let_def)
  have channel2: "owns_channel (se_kernel env) chans before_c (cl_actions t) wk2 (ap_world s2)"
    using c l by (auto simp: owns_channel_def)
  have "owns (se_kernel env) socks chans before_s before_c ?t1 b2 s2"
  proof (cases err)
    case None
    then show ?thesis using c l channel2 open_h b2 unfolding owns_def owns_listener_def by auto
  next
    case (Some e)
    then show ?thesis using c l channel2 open_h b2 by (simp add: owns_add_listener)
  qed
  moreover have "ap_active s2 = Some m" using c l m by simp
  moreover have "socks (ap_world s2) = before_s \<and> chans (ap_world s2) = before_c" if "cleanup_complete ?t1"
    using calculation(1) that by (auto simp: owns_def owns_channel_def owns_listener_def cleanup_complete_def)
  ultimately show ?thesis using r
    by (auto simp: start_ended_def raise_acquisition_cleanup_def cleanup_error_init_def release_invocation_def split: if_splits)
qed

lemma map_cleanup_one: "map_cleanup f g \<lparr>cl_actions = [(key, act)], cl_errors = [(key, e)]\<rparr> =
    \<lparr>cl_actions = [(key, f act)], cl_errors = [(key, g e)]\<rparr>"
  by (simp add: map_cleanup_def)

lemma one_action_wf [simp]: "cleanup_wf \<lparr>cl_actions = [(key, act)], cl_errors = [(key, e)]\<rparr>"
  by (simp add: cleanup_wf_def dict_wf_def)

text \<open>Acquiring either leads to a listener and channel that are all that is open beyond before, or ends the start.\<close>

lemma acquire_ended:
  assumes books: "start_books env socks chans" and m: "ap_active s = Some m"
    and run: "acquire env m host port config s = (r, s')"
  shows "case r of
      Inl result \<Rightarrow> start_ended env socks chans (socks (ap_world s)) (chans (ap_world s)) m result s'
    | Inr b \<Rightarrow> ap_active s' = Some m \<and> holding socks chans (socks (ap_world s)) (chans (ap_world s)) b (ap_world s')"
proof (cases "transport_init (se_capabilities env)")
  case (Inl e)
  then show ?thesis using run m by (auto simp: acquire_def start_ended_def release_invocation_def)
next
  case (Inr supported)
  let ?k = "se_kernel env" and ?socks = "socks (ap_world s)" and ?chans = "chans (ap_world s)"
  obtain l w1 where l: "open_listener ?k host port (sc_max_connections config) True (ap_world s) = (l, w1)" by fastforce
  note leak = open_listener_no_leak [OF start_sockets [OF books] l] and c1 = open_listener_chans [OF books l]
  let ?s1 = "s\<lparr>ap_world := w1\<rparr>"
  show ?thesis
  proof (cases l)
    case (AcquireRaised e)
    then have "r = Inl (StartRaised (CauseTransport e))" "s' = release_invocation m ?s1"
      using run Inr l by (simp_all add: acquire_def in_app_def)
    then show ?thesis using leak c1 m AcquireRaised by (simp add: start_ended_def release_invocation_def no_leak_def)
  next
    case (Unrolled p t h)
    obtain key e where t: "t = \<lparr>cl_actions = [(key, close_action ?k)], cl_errors = [(key, e)]\<rparr>"
      using open_listener_unrolled [OF l [unfolded Unrolled]] by blast
    have r: "r = Inl (raise_acquisition_cleanup env m (CauseTransport p) (map_cleanup of_listener KernelRaised t) (h, None))" "s' = ?s1"
      using run Inr l Unrolled by (simp_all add: acquire_def in_app_def)
    have "owns ?k socks chans ?socks ?chans (map_cleanup of_listener KernelRaised t) (h, None) ?s1"
      using leak c1 Unrolled unfolding owns_def owns_listener_def owns_channel_def
      by (intro conjI exI [of _ "[]"] exI [of _ "[(key, listener_action ?k)]"])
        (simp_all add: t map_cleanup_one of_listener_close no_leak_def)
    then show ?thesis using r m
      by (simp add: start_ended_def raise_acquisition_cleanup_def cleanup_error_init_def cleanup_complete_def t map_cleanup_one)
  next
    case (Acquired listener)
    have open_h: "\<not> th_closed listener" "th_raw listener \<notin> ?socks" "socks w1 = insert (th_raw listener) ?socks"
      using leak Acquired by (simp_all add: no_leak_def)
    obtain a w2 where a: "create_wakeup_channel ?k supported w1 = (a, w2)" by fastforce
    note created = create_wakeup_channel_books [OF books a]
    let ?s2 = "s\<lparr>ap_world := w2\<rparr>"
    have open2: "socks (ap_world ?s2) = insert (th_raw listener) ?socks" using created open_h by simp
    show ?thesis
    proof (cases a)
      case i: (Unrolled p t wk)
      then obtain key e c where t: "t = \<lparr>cl_actions = [(key, raw_closer ?k c)], cl_errors = [(key, e)]\<rparr>"
        and c: "c \<notin> ?chans" "chans w2 = insert c ?chans" using created c1 by (auto simp: channel_books_def)
      obtain result where rb: "roll_back_listener env m (CauseTransport p) (Some (map_cleanup of_wakeup id t)) (listener, wk) ?s2 = (result, s')"
        and r: "r = Inl result"
        using run Inr l Acquired a i
        by (cases "roll_back_listener env m (CauseTransport p) (Some (map_cleanup of_wakeup id t)) (listener, wk) ?s2")
          (simp add: acquire_def in_app_def)
      have "owns_channel ?k chans ?chans (cl_actions (map_cleanup of_wakeup id t)) wk w2"
        unfolding owns_channel_def closes_channel_def using c by (simp add: t map_cleanup_one) blast
      then have "start_ended env socks chans ?socks ?chans m result s'"
        by (intro roll_back_listener_ended [OF books _ _ _ _ _ rb])
          (use m open_h open2 in \<open>simp_all add: t map_cleanup_one cleanup_complete_def\<close>)
      then show ?thesis by (simp add: r)
    next
      case i: (AcquireRaised e)
      obtain result where rb: "roll_back_listener env m (CauseTransport e) None (listener, None) ?s2 = (result, s')"
        and r: "r = Inl result"
        using run Inr l Acquired a i
        by (cases "roll_back_listener env m (CauseTransport e) None (listener, None) ?s2") (simp add: acquire_def in_app_def)
      have "start_ended env socks chans ?socks ?chans m result s'"
        by (rule roll_back_listener_ended [OF books _ _ _ _ _ rb])
          (use m open_h open2 created i c1 in \<open>simp_all add: channel_books_def\<close>)
      then show ?thesis by (simp add: r)
    next
      case i: (Acquired wk)
      have hold2: "holding socks chans ?socks ?chans (listener, wk) w2"
        using open_h open2 created i c1 by (auto simp: holding_def channel_books_def split: option.splits)
      obtain ad w3 where ad: "local_address ?k listener w2 = (ad, w3)" by fastforce
      have "w3 = snd (k_socket_local_address ?k (th_raw listener) w2)"
        using ad by (auto simp: local_address_def split: sum.splits option.splits prod.splits)
      then have hold3: "holding socks chans ?socks ?chans (listener, wk) w3"
        using hold2 books_local [OF books] by (cases wk) (simp_all add: holding_def)
      let ?s3 = "s\<lparr>ap_world := w3\<rparr>"
      show ?thesis
      proof (cases ad)
        case j: (Inr address)
        then have "r = Inr (listener, wk)" "s' = ?s3" using run Inr l Acquired a i ad by (simp_all add: acquire_def in_app_def)
        then show ?thesis using hold3 m by simp
      next
        case j: (Inl e)
        obtain result where rb: "roll_back_both env m (CauseTransport e) (listener, wk) ?s3 = (result, s')" and r: "r = Inl result"
          using run Inr l Acquired a i ad j
          by (cases "roll_back_both env m (CauseTransport e) (listener, wk) ?s3") (simp add: acquire_def in_app_def)
        have "start_ended env socks chans ?socks ?chans m result s'"
          by (rule roll_back_both_ended [OF books _ _ rb]) (use m hold3 in simp_all)
        then show ?thesis by (simp add: r)
      qed
    qed
  qed
qed

section \<open>With the handle\<close>

text \<open>An unfinished handle, before any connection: what is open is its listener and its channel, and the mark is its own.\<close>

definition handle_holds ::
  "('w \<Rightarrow> 's set) \<Rightarrow> ('w \<Rightarrow> 'c set) \<Rightarrow> 's set \<Rightarrow> 'c set \<Rightarrow> ('s, 'c, 'o, 'e) bound \<Rightarrow> invocation \<Rightarrow>
   (pystr, 'e) handle \<Rightarrow> 'w app \<Rightarrow> bool" where
  "handle_holds socks chans before_s before_c b m h s \<longleftrightarrow>
     sh_connections h = [] \<and> sh_closing h = [] \<and> sh_websocket_states h = [] \<and> sh_on_finalized h \<and> \<not> sh_finished h \<and>
     ap_active s = Some m \<and> th_raw (fst b) \<notin> before_s \<and>
     socks (ap_world s) = (if sh_listener_closed h then before_s else insert (th_raw (fst b)) before_s) \<and>
     (case snd b of
        None \<Rightarrow> sh_wakeup_closed h = None \<and> chans (ap_world s) = before_c
      | Some ch \<Rightarrow> sh_wakeup_closed h \<noteq> None \<and> wk_raw ch \<notin> before_c \<and>
          chans (ap_world s) = (if sh_wakeup_closed h = Some False then insert (wk_raw ch) before_c else before_c))"

text \<open>What the steps of a shutdown may change without touching this.\<close>

definition unbound_step ::
  "('w \<Rightarrow> 's set) \<Rightarrow> ('w \<Rightarrow> 'c set) \<Rightarrow> (pystr, 'e) handle \<Rightarrow> 'w app \<Rightarrow> (pystr, 'e) handle \<Rightarrow> 'w app \<Rightarrow> bool" where
  "unbound_step socks chans h s h' s' \<longleftrightarrow>
     sh_connections h' = sh_connections h \<and> sh_closing h' = sh_closing h \<and> sh_websocket_states h' = sh_websocket_states h \<and>
     sh_on_finalized h' = sh_on_finalized h \<and> sh_finished h' = sh_finished h \<and> sh_listener_closed h' = sh_listener_closed h \<and>
     sh_wakeup_closed h' = sh_wakeup_closed h \<and> ap_active s' = ap_active s \<and>
     socks (ap_world s') = socks (ap_world s) \<and> chans (ap_world s') = chans (ap_world s)"

lemma unbound_step_refl [simp]: "unbound_step socks chans h s h s" by (simp add: unbound_step_def)

lemma unbound_step_trans:
  "unbound_step socks chans h s h1 s1 \<Longrightarrow> unbound_step socks chans h1 s1 h2 s2 \<Longrightarrow> unbound_step socks chans h s h2 s2"
  by (simp add: unbound_step_def)

lemma unbound_step_holds:
  "unbound_step socks chans h s h' s' \<Longrightarrow> handle_holds socks chans before_s before_c b m h s \<Longrightarrow>
     handle_holds socks chans before_s before_c b m h' s'"
  by (cases "snd b") (simp_all add: unbound_step_def handle_holds_def)

lemma set_error_unbound [simp]: "unbound_step socks chans h s (set_error k e h') s' = unbound_step socks chans h s h' s'"
  "unbound_step socks chans h s (pop_error k h') s' = unbound_step socks chans h s h' s'"
  by (simp_all add: unbound_step_def set_error_def pop_error_def)

lemma app_cancel_books:
  assumes books: "start_books env socks chans" and run: "host_cancel (app_host env b m) t s = (r, s')"
  shows "ap_active s' = ap_active s \<and> socks (ap_world s') = socks (ap_world s) \<and> chans (ap_world s') = chans (ap_world s)"
  using run books_cancel [OF books, of t "ap_world s"]
  by (auto simp: app_host_def Let_def in_app_def split: prod.splits)

lemma cancel_noted_unbound:
  assumes books: "start_books env socks chans" and run: "cancel_noted (app_host env b m) t h s = (h', s')"
  shows "unbound_step socks chans h s h' s'"
proof -
  obtain r s1 where r: "host_cancel (app_host env b m) t s = (r, s1)" by fastforce
  show ?thesis using run r app_cancel_books [OF books r]
    by (cases r) (auto simp: cancel_noted_def cancel_or_retain_task_def unbound_step_def set_error_def pop_error_def)
qed

lemma retry_cancellations_unbound:
  assumes books: "start_books env socks chans"
  shows "retry_cancellations (app_host env b m) ts h s = (h', s') \<Longrightarrow> unbound_step socks chans h s h' s'"
proof (induction ts arbitrary: h s)
  case (Cons t ts)
  obtain h1 s1 where c: "cancel_noted (app_host env b m) t h s = (h1, s1)" by fastforce
  show ?case using Cons c unbound_step_trans [OF cancel_noted_unbound [OF books c]] by simp
qed simp

lemma cancel_owned_unbound:
  assumes books: "start_books env socks chans"
  shows "cancel_owned (app_host env b m) current ts attempted h s = (h', s') \<Longrightarrow> unbound_step socks chans h s h' s'"
proof (induction ts arbitrary: attempted h s)
  case (Cons t ts)
  obtain h1 s1 where c: "cancel_noted (app_host env b m) t h s = (h1, s1)" by fastforce
  show ?case using Cons.prems Cons.IH c unbound_step_trans [OF cancel_noted_unbound [OF books c]] by (auto split: if_splits)
qed simp

lemma stop_observer_unbound:
  assumes books: "start_books env socks chans" and run: "stop_observer (app_host env b m) h s = (h', s')"
  shows "unbound_step socks chans h s h' s'"
  using run books_observer [OF books]
  by (auto simp: stop_observer_def channel_stop_def app_host_def Let_def unbound_step_def split: option.splits)

text \<open>Closing the channel and the listener, and the end.\<close>

lemma close_wakeup_holds:
  assumes books: "start_books env socks chans" and holds: "handle_holds socks chans before_s before_c b m h s"
    and run: "close_wakeup (app_host env b m) h s = (h', s')"
  shows "handle_holds socks chans before_s before_c b m h' s'"
proof (cases "sh_wakeup_closed h = Some False")
  case True
  then obtain ch where ch: "snd b = Some ch" using holds by (cases "snd b") (auto simp: handle_holds_def)
  obtain r w1 where r: "k_channel_close (se_kernel env) (wk_raw ch) (ap_world s) = (r, w1)" by fastforce
  show ?thesis using run True ch r holds books_channel_close [OF books r]
    by (cases r) (auto simp: close_wakeup_def app_host_def Let_def in_app_def handle_holds_def set_error_def pop_error_def)
next
  case False
  then show ?thesis using run holds by (simp add: close_wakeup_def)
qed

lemma close_listener_holds:
  assumes books: "start_books env socks chans" and holds: "handle_holds socks chans before_s before_c b m h s"
    and run: "close_listener (app_host env b m) h s = (h', s')"
  shows "handle_holds socks chans before_s before_c b m h' s'"
proof (cases "sh_listener_closed h")
  case True
  then show ?thesis using run holds by (simp add: close_listener_def)
next
  case False
  obtain r w1 where r: "k_socket_close (se_kernel env) (th_raw (fst b)) (ap_world s) = (r, w1)" by fastforce
  have after: "socks w1 = (if r = None then socks (ap_world s) - {th_raw (fst b)} else socks (ap_world s))" "chans w1 = chans (ap_world s)"
    using books_close [OF start_sockets [OF books] r] chans_close [OF books, of "th_raw (fst b)" "ap_world s"] r by simp_all
  show ?thesis using run False r holds after
    by (cases r; cases "snd b") (auto simp: close_listener_def app_host_def Let_def in_app_def handle_holds_def set_error_def pop_error_def)
qed

text \<open>So a shutdown by the owner ends the handle with everything closed and the mark released, or keeps it all.\<close>

definition handle_ended ::
  "('w \<Rightarrow> 's set) \<Rightarrow> ('w \<Rightarrow> 'c set) \<Rightarrow> 's set \<Rightarrow> 'c set \<Rightarrow> ('s, 'c, 'o, 'e) bound \<Rightarrow> invocation \<Rightarrow>
   (pystr, 'e) handle \<Rightarrow> 'w app \<Rightarrow> bool" where
  "handle_ended socks chans before_s before_c b m h s \<longleftrightarrow>
     (if sh_finished h then ap_active s = None \<and> socks (ap_world s) = before_s \<and> chans (ap_world s) = before_c
      else handle_holds socks chans before_s before_c b m h s)"

lemma update_finished_ended:
  assumes holds: "handle_holds socks chans before_s before_c b m h s" and run: "update_finished (app_host env b m) h s = (h', s')"
  shows "handle_ended socks chans before_s before_c b m h' s'"
proof -
  have on: "sh_on_finalized h" "\<not> sh_finished h" "ap_active s = Some m" using holds by (simp_all add: handle_holds_def)
  show ?thesis
  proof (cases "released h")
    case True
    have "socks (ap_world s) = before_s \<and> chans (ap_world s) = before_c"
      using holds True by (cases "snd b") (auto simp: handle_holds_def released_def)
    then show ?thesis using run True on
      by (auto simp: update_finished_def Let_def app_host_def release_invocation_def handle_ended_def)
  next
    case False
    then have "h' = h\<lparr>sh_finished := False\<rparr>" "s' = s" using run by (simp_all add: update_finished_def Let_def)
    then show ?thesis using holds by (cases "snd b") (simp_all add: handle_ended_def handle_holds_def)
  qed
qed

lemma finish_close_ended:
  assumes books: "start_books env socks chans" and holds: "handle_holds socks chans before_s before_c b m h s"
    and run: "finish_close (app_host env b m) True None h s = (h', s')"
  shows "handle_ended socks chans before_s before_c b m h' s'"
proof -
  let ?host = "app_host env b m"
  have nil: "sh_connections h = []" "sh_closing h = []" "sh_websocket_states h = []" "\<not> sh_finished h"
    using holds by (simp_all add: handle_holds_def)
  define h0 where "h0 = h\<lparr>sh_close_requested := True, sh_finalization_attempted := True\<rparr>"
  have H0: "handle_holds socks chans before_s before_c b m h0 s"
    by (rule unbound_step_holds [OF _ holds]) (simp add: unbound_step_def h0_def)
  obtain h1 s1 where r1: "stop_observer ?host h0 s = (h1, s1)" by fastforce
  note H1 = unbound_step_holds [OF stop_observer_unbound [OF books r1] H0]
  obtain h2 s2 where r2: "close_wakeup ?host h1 s1 = (h2, s2)" by fastforce
  note H2 = close_wakeup_holds [OF books H1 r2]
  obtain h3 s3 where r3: "retry_cancellations ?host (sh_pending_cancellations h2) h2 s2 = (h3, s3)" by fastforce
  note H3 = unbound_step_holds [OF retry_cancellations_unbound [OF books r3] H2]
  obtain h4 s4 where r4: "cancel_owned ?host None (sh_owned_tasks h3) (sh_pending_cancellations h2) h3 s3 = (h4, s4)" by fastforce
  note H4 = unbound_step_holds [OF cancel_owned_unbound [OF books r4] H3]
  define h5 where "h5 = h4\<lparr>sh_listener_resumed := True\<rparr>"
  have H5: "handle_holds socks chans before_s before_c b m h5 s4"
    by (rule unbound_step_holds [OF _ H4]) (simp add: unbound_step_def h5_def)
  obtain h6 s6 where r6: "close_listener ?host h5 s4 = (h6, s6)" by fastforce
  note H6 = close_listener_holds [OF books H5 r6]
  have empty: "sh_websocket_states h0 = []" "sh_closing h2 = []" "sh_connections h3 = []"
    using H0 H2 H3 by (simp_all add: handle_holds_def)
  have "resume_listener ?host None h5 s4 = (h5, s4)" by (simp add: resume_listener_def h5_def split: option.split)
  then have "update_finished ?host h6 s6 = (h', s')"
    using run nil r1 r2 r3 r4 r6 empty by (simp add: finish_close_def Let_def h0_def [symmetric] h5_def [symmetric])
  then show ?thesis by (rule update_finished_ended [OF H6])
qed

lemma new_task_books:
  assumes books: "start_books env socks chans" and run: "in_app (host_new_task (se_host env)) s = (r, s')"
  shows "ap_active s' = ap_active s \<and> socks (ap_world s') = socks (ap_world s) \<and> chans (ap_world s') = chans (ap_world s)"
  using run books_new_task [OF books, of "ap_world s"] by (auto simp: in_app_def split: prod.splits)

lemma fork_books:
  assumes books: "start_books env socks chans" and run: "in_app (se_fork env ts) s = (r, s')"
  shows "ap_active s' = ap_active s \<and> socks (ap_world s') = socks (ap_world s) \<and> chans (ap_world s') = chans (ap_world s)"
  using run books_fork [OF books, of ts "ap_world s"] by (auto simp: in_app_def split: prod.splits)

text \<open>Scheduling opens and closes nothing; when it succeeds the handle owns the control tasks.\<close>

definition control_tasks :: "bool \<Rightarrow> (pystr, 'e) handle \<Rightarrow> nat" where
  "control_tasks has_wakeup h = 1 + (if has_wakeup then 1 else 0) + (if sh_channel h = None then 0 else 1)"

lemma schedule_tasks_unbound:
  assumes books: "start_books env socks chans" and none: "sh_owned_tasks h = []" and h: "\<not> handle_closed h"
    and run: "schedule_tasks env has_wakeup h s = (err, tasks, h', s')"
  shows "unbound_step socks chans h s h' s' \<and>
    (err = None \<longrightarrow> \<not> handle_closed h' \<and> sh_owned_tasks h' = tasks \<and> length tasks = control_tasks has_wakeup h')"
proof -
  let ?new = "in_app (host_new_task (se_host env))"
  let ?fork = "\<lambda>tasks h s. case in_app (se_fork env tasks) s of (err, s1) \<Rightarrow> (err, tasks, h, s1)"
  let ?observe = "\<lambda>tasks h s. case sh_channel h of None \<Rightarrow> ?fork tasks h s
    | Some ch \<Rightarrow> (case ?new s of (Inl e, s1) \<Rightarrow> (Some e, tasks, h, s1)
        | (Inr t, s1) \<Rightarrow> ?fork (tasks @ [t]) (h\<lparr>sh_channel := Some (channel_bind t ch), sh_owned_tasks := sh_owned_tasks h @ [t]\<rparr>) s1)"
  have observe: "unbound_step socks chans h2 s2 h' s' \<and> (err = None \<longrightarrow> \<not> handle_closed h' \<and> sh_owned_tasks h' = tasks \<and>
        length tasks = length ts + (if sh_channel h' = None then 0 else 1))"
    if obs: "?observe ts h2 s2 = (err, tasks, h', s')" and owned: "sh_owned_tasks h2 = ts" "\<not> handle_closed h2" for ts h2 s2
  proof (cases "sh_channel h2")
    case None
    obtain e s3 where f: "in_app (se_fork env ts) s2 = (e, s3)" by fastforce
    show ?thesis using obs None f owned fork_books [OF books f] by (simp add: unbound_step_def)
  next
    case (Some ch)
    obtain r s3 where r: "?new s2 = (r, s3)" by fastforce
    show ?thesis
    proof (cases r)
      case (Inl e)
      then show ?thesis using obs Some r new_task_books [OF books r] by (auto simp: unbound_step_def)
    next
      case (Inr t)
      obtain e s4 where f: "in_app (se_fork env (ts @ [t])) s3 = (e, s4)" by fastforce
      show ?thesis using obs Some r Inr f owned new_task_books [OF books r] fork_books [OF books f]
        by (auto simp: unbound_step_def handle_closed_def)
    qed
  qed
  obtain r s1 where r: "?new s = (r, s1)" by fastforce
  note n1 = new_task_books [OF books r]
  show ?thesis
  proof (cases r)
    case (Inl e)
    then show ?thesis using run r n1 by (auto simp: schedule_tasks_def Let_def unbound_step_def)
  next
    case (Inr t)
    let ?h1 = "h\<lparr>sh_listener_task := Some t, sh_owned_tasks := sh_owned_tasks h @ [t]\<rparr>"
    have u1: "unbound_step socks chans h s ?h1 s1" using n1 by (simp add: unbound_step_def)
    show ?thesis
    proof (cases has_wakeup)
      case False
      then have "?observe [t] ?h1 s1 = (err, tasks, h', s')" using run r Inr by (simp add: schedule_tasks_def Let_def)
      from observe [OF this] show ?thesis
        using unbound_step_trans [OF u1] none h False by (simp add: handle_closed_def control_tasks_def)
    next
      case True
      obtain r2 s2 where r2: "?new s1 = (r2, s2)" by fastforce
      note n2 = new_task_books [OF books r2]
      show ?thesis
      proof (cases r2)
        case i: (Inl e)
        then have "err = Some e" "h' = ?h1" "s' = s2" using run r Inr True r2 by (auto simp: schedule_tasks_def Let_def)
        then show ?thesis using u1 n2 by (simp add: unbound_step_def)
      next
        case i: (Inr t2)
        let ?h2 = "?h1\<lparr>sh_owned_tasks := sh_owned_tasks ?h1 @ [t2]\<rparr>"
        have u2: "unbound_step socks chans h s ?h2 s2" using u1 n2 by (simp add: unbound_step_def)
        have "?observe [t, t2] ?h2 s2 = (err, tasks, h', s')" using run r Inr True r2 i by (simp add: schedule_tasks_def Let_def)
        from observe [OF this] show ?thesis
          using unbound_step_trans [OF u2] none h True by (simp add: handle_closed_def control_tasks_def)
      qed
    qed
  qed
qed

end
