(* ===== verification/Starting.thy ===== *)
theory Starting
  imports Startup_Laws
begin

text \<open>
  The start of the server as a whole: whatever fails, what has been acquired is owned by the handle, has been released, or is
  owned by the error, whose retries release it and then the server for another start.
\<close>

section \<open>Retries of the errors\<close>

definition left_as :: "('w \<Rightarrow> 's set) \<Rightarrow> ('w \<Rightarrow> 'c set) \<Rightarrow> 'w app \<Rightarrow> 'w app \<Rightarrow> bool" where
  "left_as socks chans s0 s \<longleftrightarrow>
     ap_active s = ap_active s0 \<and> socks (ap_world s) = socks (ap_world s0) \<and> chans (ap_world s) = chans (ap_world s0)"

text \<open>The error of a start without a handle, after any retries.\<close>

definition uncleaned_ok ::
  "('s, 'a, 'c, 'o, 'e, 'w) start_env \<Rightarrow> ('w \<Rightarrow> 's set) \<Rightarrow> ('w \<Rightarrow> 'c set) \<Rightarrow> 'w app \<Rightarrow> invocation \<Rightarrow>
   ('e transport_error, ('s, 'c, 'o, 'e) bound \<times> 'w app) cleanup_error \<Rightarrow> ('s, 'c, 'o, 'e) bound \<Rightarrow> 'w app \<Rightarrow> bool" where
  "uncleaned_ok env socks chans s0 m ce b s \<longleftrightarrow>
     (if cleanup_complete (ce_transaction ce) then ce_notified ce \<and> left_as socks chans s0 s
      else \<not> ce_notified ce \<and> ce_callback ce = Some (release_action m) \<and> ap_active s = Some m \<and>
        owns (se_kernel env) socks chans (socks (ap_world s0)) (chans (ap_world s0)) (ce_transaction ce) b s)"

lemma uncleaned_retry:
  assumes books: "start_books env socks chans" and s0: "ap_active s0 = None" and ok: "uncleaned_ok env socks chans s0 m ce b s"
    and run: "retry_cleanup ce (b, s) = (res, ce1, (b1, s1))"
  shows "uncleaned_ok env socks chans s0 m ce1 b1 s1"
proof (cases "cleanup_complete (ce_transaction ce)")
  case True
  then show ?thesis using run ok retry_complete_stays [OF True, of "(b, s)"]
    by (auto simp: retry_cleanup_def notify_complete_def uncleaned_ok_def)
next
  case False
  have before: "\<not> ce_notified ce" "ce_callback ce = Some (release_action m)" "ap_active s = Some m"
    and owns: "owns (se_kernel env) socks chans (socks (ap_world s0)) (chans (ap_world s0)) (ce_transaction ce) b s"
    using ok False by (simp_all add: uncleaned_ok_def)
  obtain errs t b2 s2 where retry: "cleanup_retry (ce_transaction ce) (b, s) = (errs, t, (b2, s2))" by (metis prod_cases4)
  note after = owns_retry [OF books owns retry]
  show ?thesis
  proof (cases "cleanup_complete t")
    case True
    have "socks (ap_world s2) = socks (ap_world s0) \<and> chans (ap_world s2) = chans (ap_world s0)"
      using after True by (auto simp: owns_def owns_channel_def owns_listener_def cleanup_complete_def)
    then show ?thesis using run retry True before after s0
      by (auto simp: retry_cleanup_def notify_complete_def uncleaned_ok_def release_action_def release_invocation_def left_as_def)
  next
    case i: False
    then have "ce1 = ce\<lparr>ce_transaction := t\<rparr>" "b1 = b2" "s1 = s2" using run retry by (simp_all add: retry_cleanup_def)
    then show ?thesis using i before after by (simp add: uncleaned_ok_def)
  qed
qed

lemma uncleaned_retries:
  assumes books: "start_books env socks chans" and s0: "ap_active s0 = None"
  shows "uncleaned_ok env socks chans s0 m ce b s \<Longrightarrow> retry_times n ce (b, s) = (ce1, (b1, s1)) \<Longrightarrow>
    uncleaned_ok env socks chans s0 m ce1 b1 s1"
proof (induction n arbitrary: ce b s)
  case (Suc n)
  obtain res ce2 b2 s2 where r: "retry_cleanup ce (b, s) = (res, ce2, (b2, s2))" by (metis prod_cases4)
  show ?case using Suc.IH [OF uncleaned_retry [OF books s0 Suc.prems(1) r]] Suc.prems(2) r by simp
qed simp

text \<open>The error of a start with a handle.\<close>

definition unfinished_ok ::
  "('s, 'a, 'c, 'o, 'e, 'w) start_env \<Rightarrow> ('w \<Rightarrow> 's set) \<Rightarrow> ('w \<Rightarrow> 'c set) \<Rightarrow> 'w app \<Rightarrow> invocation \<Rightarrow> ('s, 'c, 'o, 'e) bound \<Rightarrow>
   ('e handle_error, (pystr, 'e) handle \<times> 'w app) cleanup_error \<Rightarrow> (pystr, 'e) handle \<Rightarrow> 'w app \<Rightarrow> bool" where
  "unfinished_ok env socks chans s0 m b ce h s \<longleftrightarrow>
     ce_callback ce = None \<and> handle_ended socks chans (socks (ap_world s0)) (chans (ap_world s0)) b m h s \<and>
     (if cleanup_complete (ce_transaction ce) then sh_finished h
      else \<not> sh_finished h \<and> (\<exists>key. cl_actions (ce_transaction ce) = [(key, retry_handle_cleanup (app_host env b m))]))"

lemma unfinished_retry:
  assumes books: "start_books env socks chans" and ok: "unfinished_ok env socks chans s0 m b ce h s"
    and run: "retry_cleanup ce (h, s) = (res, ce1, (h1, s1))"
  shows "unfinished_ok env socks chans s0 m b ce1 h1 s1"
proof (cases "cleanup_complete (ce_transaction ce)")
  case True
  then show ?thesis using run ok retry_complete_stays [OF True, of "(h, s)"]
    by (auto simp: retry_cleanup_def notify_complete_def unfinished_ok_def Let_def split: if_splits)
next
  case False
  let ?act = "retry_handle_cleanup (app_host env b m)"
  obtain key where key: "cl_actions (ce_transaction ce) = [(key, ?act)]" and cb: "ce_callback ce = None"
    and holds: "handle_holds socks chans (socks (ap_world s0)) (chans (ap_world s0)) b m h s"
    using ok False by (auto simp: unfinished_ok_def handle_ended_def)
  obtain h2 s2 where f: "finish_close (app_host env b m) True None h s = (h2, s2)" by fastforce
  note ended = finish_close_ended [OF books holds f]
  have act: "?act (h, s) = (if sh_finished h2 then None else Some (first_cleanup_error h2), (h2, s2))"
    by (simp add: retry_handle_cleanup_def finalize_def f)
  show ?thesis
  proof (cases "sh_finished h2")
    case True
    then show ?thesis using run key act cb ended
      by (auto simp: retry_cleanup_def cleanup_retry_def notify_complete_def unfinished_ok_def cleanup_complete_def dict_pop_def Let_def
          split: if_splits)
  next
    case i: False
    then show ?thesis using run key act cb ended
      by (auto simp: retry_cleanup_def cleanup_retry_def unfinished_ok_def cleanup_complete_def Let_def)
  qed
qed

lemma unfinished_retries:
  assumes books: "start_books env socks chans"
  shows "unfinished_ok env socks chans s0 m b ce h s \<Longrightarrow> retry_times n ce (h, s) = (ce1, (h1, s1)) \<Longrightarrow>
    unfinished_ok env socks chans s0 m b ce1 h1 s1"
proof (induction n arbitrary: ce h s)
  case (Suc n)
  obtain res ce2 h2 s2 where r: "retry_cleanup ce (h, s) = (res, ce2, (h2, s2))" by (metis prod_cases4)
  show ?case using Suc.IH [OF unfinished_retry [OF books Suc.prems(1) r]] Suc.prems(2) r by simp
qed simp

section \<open>The start\<close>

lemma handle_init_holds:
  assumes hold: "holding socks chans before_s before_c b (ap_world s)" and m: "ap_active s = Some m"
  shows "handle_holds socks chans before_s before_c b m (handle_init n channel (snd b \<noteq> None)) s"
  using hold m by (cases "snd b") (simp_all add: holding_def handle_holds_def handle_init_def)

lemma unbound_step_holding:
  "unbound_step socks chans h s h' s' \<Longrightarrow> holding socks chans before_s before_c b (ap_world s) \<Longrightarrow>
     holding socks chans before_s before_c b (ap_world s')"
  by (cases "snd b") (simp_all add: unbound_step_def holding_def)

text \<open>The outcome of a start from \<open>s0\<close>.\<close>

definition start_kept ::
  "('s, 'a, 'c, 'o, 'e, 'w) start_env \<Rightarrow> ('w \<Rightarrow> 's set) \<Rightarrow> ('w \<Rightarrow> 'c set) \<Rightarrow> nat \<Rightarrow> nat \<Rightarrow> 'w app \<Rightarrow>
   ('s, 'c, 'o, 'e, 'w) start_result \<Rightarrow> 'w app \<Rightarrow> bool" where
  "start_kept env socks chans fresh serving s0 result s \<longleftrightarrow>
     (case result of
        Started h b \<Rightarrow>
          ap_active s = Some (Serving serving) \<and> \<not> handle_closed h \<and> length (sh_owned_tasks h) = control_tasks (snd b \<noteq> None) h \<and>
          holding socks chans (socks (ap_world s0)) (chans (ap_world s0)) b (ap_world s)
      | StartRaised e \<Rightarrow> left_as socks chans s0 s
      | StartUncleaned e i ce b \<Rightarrow>
          ap_active s = Some (Marker fresh) \<and>
          (\<forall>n ce1 b1 s1. retry_times n ce (b, s) = (ce1, (b1, s1)) \<longrightarrow>
             (if cleanup_complete (ce_transaction ce1) then left_as socks chans s0 s1 else ap_active s1 = Some (Marker fresh)))
      | StartUnfinished e i ce h \<Rightarrow>
          ap_active s = Some (Serving serving) \<and>
          (\<forall>n ce1 h1 s1. retry_times n ce (h, s) = (ce1, (h1, s1)) \<longrightarrow>
             (if cleanup_complete (ce_transaction ce1) then sh_finished h1 \<and> left_as socks chans s0 s1
              else \<not> sh_finished h1 \<and> ap_active s1 = Some (Serving serving))))"

lemma start_ended_kept:
  assumes books: "start_books env socks chans" and s0: "ap_active s0 = None"
    and ended: "start_ended env socks chans (socks (ap_world s0)) (chans (ap_world s0)) (Marker fresh) result s"
  shows "start_kept env socks chans fresh serving s0 result s"
proof (cases result)
  case (StartUncleaned e i ce b)
  have "uncleaned_ok env socks chans s0 (Marker fresh) ce b s"
    using ended StartUncleaned by (simp add: start_ended_def uncleaned_ok_def)
  from uncleaned_retries [OF books s0 this] show ?thesis
    using ended StartUncleaned by (fastforce simp: start_kept_def start_ended_def uncleaned_ok_def)
qed (use ended s0 in \<open>auto simp: start_ended_def start_kept_def left_as_def\<close>)

text \<open>Once the handle is made.\<close>

lemma scheduled_kept:
  assumes books: "start_books env socks chans" and s0: "ap_active s0 = None" and m: "ap_active s = Some (Serving serving)"
    and hold: "holding socks chans (socks (ap_world s0)) (chans (ap_world s0)) b (ap_world s)"
    and sched: "schedule_tasks env (snd b \<noteq> None) (handle_init n channel (snd b \<noteq> None)) s = (err, tasks, h1, s1)"
    and run: "(case err of None \<Rightarrow> (Started h1 b, s1)
      | Some e \<Rightarrow> (case abort_startup (app_host env b (Serving serving)) tasks h1 s1 of
          (h2, s5) \<Rightarrow> (if sh_finished h2 then StartRaised (CauseHost e)
            else StartUnfinished (CauseHost e) (se_interrupt env (CauseHost e))
              (cleanup_error_init (handle_cleanup_transaction (app_host env b (Serving serving)) h2) None) h2, s5))) = (result, s')"
  shows "start_kept env socks chans fresh serving s0 result s'"
proof -
  let ?h = "handle_init n channel (snd b \<noteq> None)" and ?host = "app_host env b (Serving serving)"
  have init: "sh_owned_tasks ?h = []" "\<not> handle_closed ?h" by (simp_all add: handle_init_def handle_closed_def)
  note u = schedule_tasks_unbound [OF books init sched]
  show ?thesis
  proof (cases err)
    case None
    then have "result = Started h1 b" "s' = s1" using run by simp_all
    then show ?thesis using u None m unbound_step_holding [OF conjunct1 [OF u] hold]
      by (auto simp: start_kept_def unbound_step_def)
  next
    case (Some e)
    have "handle_holds socks chans (socks (ap_world s0)) (chans (ap_world s0)) b (Serving serving) h1 s1"
      by (rule unbound_step_holds [OF conjunct1 [OF u] handle_init_holds [OF hold m]])
    then have holds: "handle_holds socks chans (socks (ap_world s0)) (chans (ap_world s0)) b (Serving serving)
        (h1\<lparr>sh_close_requested := True, sh_owned_tasks := tasks\<rparr>) s1"
      by (cases "snd b") (simp_all add: handle_holds_def)
    obtain h2 s5 where ab: "abort_startup ?host tasks h1 s1 = (h2, s5)" by fastforce
    then have ended: "handle_ended socks chans (socks (ap_world s0)) (chans (ap_world s0)) b (Serving serving) h2 s5"
      by (intro finish_close_ended [OF books holds]) (simp add: abort_startup_def)
    show ?thesis
    proof (cases "sh_finished h2")
      case True
      then have "result = StartRaised (CauseHost e)" "s' = s5" using run Some ab by simp_all
      then show ?thesis using ended True s0 by (simp add: start_kept_def handle_ended_def left_as_def)
    next
      case False
      let ?ce = "cleanup_error_init (handle_cleanup_transaction ?host h2) None"
      have r: "result = StartUnfinished (CauseHost e) (se_interrupt env (CauseHost e)) ?ce h2" "s' = s5" using run Some ab False by simp_all
      have "unfinished_ok env socks chans s0 (Serving serving) b ?ce h2 s5"
        using ended False
        by (simp add: unfinished_ok_def cleanup_error_init_def handle_cleanup_transaction_def cleanup_add_def cleanup_init_def Let_def
            cleanup_complete_def)
      from unfinished_retries [OF books this] show ?thesis
        using r ended False s0
        by (fastforce simp: start_kept_def unfinished_ok_def handle_ended_def handle_holds_def left_as_def)
    qed
  qed
qed

text \<open>C27. A start loses nothing, whatever call of the kernel or of the scheduler fails. With a kernel that gives new sockets and
  channels and closes none whose close raised: a handle that is returned owns the one new listener, its wakeup channel if the
  kernel has one, its control tasks and the server; a start that raises a plain error has closed all it had opened and left the
  server free; and when a close failed too, the error that is raised keeps the server taken and, after any number of retries,
  is complete only when everything is closed and the server is free again.\<close>

theorem startup_keeps_or_releases:
  assumes books: "start_books env socks chans"
    and run: "bind_and_schedule env fresh serving host port config protocol given s = (result, s')"
  shows "start_kept env socks chans fresh serving s result s'"
proof (cases "check_binding host port protocol given (se_h2 env) = None \<and> ap_active s = None")
  case False
  then show ?thesis using run
    by (auto simp: bind_and_schedule_def reserve_invocation_def start_kept_def left_as_def split: option.splits)
next
  case True
  let ?m = "Marker fresh" and ?s1 = "s\<lparr>ap_active := Some (Marker fresh)\<rparr>"
  have reserve: "reserve_invocation fresh s = (Inr ?m, ?s1)" using True by (simp add: reserve_invocation_def)
  obtain r s2 where acq: "acquire env ?m host port config ?s1 = (r, s2)" by fastforce
  have acquired: "case r of
      Inl result \<Rightarrow> start_ended env socks chans (socks (ap_world s)) (chans (ap_world s)) ?m result s2
    | Inr b \<Rightarrow> ap_active s2 = Some ?m \<and> holding socks chans (socks (ap_world s)) (chans (ap_world s)) b (ap_world s2)"
    using acquire_ended [OF books _ acq] by (cases r) simp_all
  show ?thesis
  proof (cases r)
    case (Inl ended)
    then have "result = ended" "s' = s2" using run True reserve acq by (simp_all add: bind_and_schedule_def)
    then show ?thesis using start_ended_kept [OF books] acquired Inl True by simp
  next
    case (Inr b)
    let ?s3 = "s2\<lparr>ap_active := Some (Serving serving)\<rparr>"
    let ?channel = "if se_observed env then Some (channel_init (sc_max_route_error_events config)) else None"
    let ?h = "handle_init (sc_max_connections config) ?channel (snd b \<noteq> None)"
    obtain err tasks h1 s4 where sched: "schedule_tasks env (snd b \<noteq> None) ?h ?s3 = (err, tasks, h1, s4)" by (metis prod_cases4)
    have "replace_invocation ?m (Serving serving) s2 = (None, ?s3)" using acquired Inr by (simp add: replace_invocation_def)
    then have rest: "(case err of None \<Rightarrow> (Started h1 b, s4)
      | Some e \<Rightarrow> (case abort_startup (app_host env b (Serving serving)) tasks h1 s4 of
          (h2, s5) \<Rightarrow> (if sh_finished h2 then StartRaised (CauseHost e)
            else StartUnfinished (CauseHost e) (se_interrupt env (CauseHost e))
              (cleanup_error_init (handle_cleanup_transaction (app_host env b (Serving serving)) h2) None) h2, s5))) = (result, s')"
      using run True reserve acq Inr sched unfolding bind_and_schedule_def raise_startup_cleanup_def prod.case
      by (cases err) (simp_all add: Let_def)
    show ?thesis
      by (rule scheduled_kept [OF books _ _ _ sched rest]) (use True acquired Inr in simp_all)
  qed
qed

text \<open>A kernel whose world lists the open sockets and channels; the local address of the listener is not known, and the listener
  does not close the first time.\<close>

definition demo_kernel :: "(nat, unit, nat, unit, nat, bool \<times> nat list \<times> nat list) kernel" where
  "demo_kernel =
     \<lparr>k_resolve_passive_address = \<lambda>h p w. (Inr (), w),
      k_socket_open = \<lambda>a (f, ss, cs). (Inr (Suc (sum_list ss)), (f, Suc (sum_list ss) # ss, cs)),
      k_socket_setblocking = \<lambda>s b w. (None, w), k_socket_set_reuse_address = \<lambda>s b w. (None, w),
      k_socket_bind = \<lambda>s a w. (None, w), k_socket_listen = \<lambda>s b w. (None, w),
      k_socket_accept = \<lambda>s (f, ss, cs). (Inr (Suc (sum_list ss), ()), (f, Suc (sum_list ss) # ss, cs)),
      k_socket_local_address = \<lambda>s w. (Inr None, w), k_socket_peer_address = \<lambda>s w. (Inr None, w),
      k_socket_recv = \<lambda>s n w. (Inr None, w), k_socket_send = \<lambda>s d w. (Inr None, w),
      k_socket_close = \<lambda>s (f, ss, cs). if f then (Some 5, (False, ss, cs)) else (None, (f, removeAll s ss, cs)),
      k_socket_retry_mode = \<lambda>e op w. (Inr ModeOther, w), k_wait_readable = \<lambda>s w. (None, w),
      k_wait_writable = \<lambda>s w. (None, w),
      k_create_wakeup_channel = \<lambda>(f, ss, cs). (Inr (Suc (sum_list cs)), (f, ss, Suc (sum_list cs) # cs)),
      k_validate_io_wait_object = \<lambda>x w. (Inr (True, None), w), k_channel_callable = \<lambda>c n. True,
      k_channel_wait_object = \<lambda>c w. (Inr (), w), k_channel_notify = \<lambda>c w. (None, w), k_channel_drain = \<lambda>c w. (None, w),
      k_channel_close = \<lambda>c (f, ss, cs). (None, (f, ss, removeAll c cs))\<rparr>"

definition demo_start_env :: "(nat, unit, nat, unit, nat, bool \<times> nat list \<times> nat list) start_env" where
  "demo_start_env =
     \<lparr>se_kernel = demo_kernel,
      se_capabilities = Some \<lparr>cap_callable = \<lambda>name. True, cap_supports_tcp_server = True, cap_supports_wakeup_channel = True\<rparr>,
      se_callable = \<lambda>name. True,
      se_host = \<lparr>host_socket_close = \<lambda>c v. (None, v), host_listener_close = \<lambda>v. (None, v), host_wakeup_close = \<lambda>v. (None, v),
                 host_notify = \<lambda>v. (None, v), host_cancel = \<lambda>t v. (None, v), host_resume = \<lambda>t v. v, host_signal = \<lambda>t v. (None, v),
                 host_cursor = \<lambda>v. None, host_graceful = \<lambda>c v. (True, v), host_ws_shutdown = \<lambda>c v. v,
                 host_wake_observer = \<lambda>t v. v, host_new_task = \<lambda>v. (Inr 1, v), host_fork = \<lambda>t v. (None, v), host_finalized = \<lambda>v. v\<rparr>,
      se_fork = \<lambda>ts v. (None, v), se_interrupt = \<lambda>e. False, se_h2 = None, se_observed = True\<rparr>"

lemma demo_start_books: "start_books demo_start_env (\<lambda>(f, ss, cs). set ss) (\<lambda>(f, ss, cs). set cs)"
proof -
  have fresh: "Suc (sum_list w) \<notin> set w" for w :: "nat list"
    using member_le_sum_list [of "Suc (sum_list w)" w] by auto
  show ?thesis
    by (auto simp: start_books_def socket_books_def demo_start_env_def demo_kernel_def fresh Let_def split: prod.splits if_splits)
qed

lemma startup_keeps_or_releases_witness:
  "\<exists>e ce b s1. bind_and_schedule demo_start_env 1 2 (lit ''h'') 80 server_config_default (lit ''http1'') False
       \<lparr>ap_active = None, ap_world = (True, [], [])\<rparr> = (StartUncleaned e False ce b, s1) \<and> ap_active s1 = Some (Marker 1)"
proof -
  let ?s = "\<lparr>ap_active = None, ap_world = (True, [], [])\<rparr> :: (bool \<times> nat list \<times> nat list) app"
  obtain e ce b s1 where run: "bind_and_schedule demo_start_env 1 2 (lit ''h'') 80 server_config_default (lit ''http1'') False ?s =
      (StartUncleaned e False ce b, s1)"
  proof -
    have check: "check_binding (lit ''h'') 80 (lit ''http1'') False None = None"
      by (simp add: check_binding_def py_text)
    have init: "transport_init (se_capabilities demo_start_env) = Inr True"
      by (simp add: transport_init_def demo_start_env_def required_methods_def)
    have sels: "se_kernel demo_start_env = demo_kernel" "se_h2 demo_start_env = None" "se_interrupt demo_start_env = (\<lambda>e. False)"
      "k_channel_close demo_kernel = (\<lambda>c (f, ss, cs). (None, (f, ss, removeAll c cs)))"
      "k_socket_close demo_kernel = (\<lambda>s (f, ss, cs). if f then (Some 5, (False, ss, cs)) else (None, (f, removeAll s ss, cs)))"
      by (simp_all add: demo_start_env_def demo_kernel_def)
    have listener: "open_listener demo_kernel (lit ''h'') 80 n True (True, [], []) =
        (Acquired (new_handle (Suc 0)), (True, [Suc 0], []))" for n
      by (simp add: open_listener_def demo_kernel_def)
    have channel: "create_wakeup_channel demo_kernel True (True, [Suc 0], []) =
        (Acquired (Some \<lparr>wk_raw = Suc 0, wk_wait_object = (), wk_closed = False, wk_close_error = None\<rparr>), (True, [Suc 0], [Suc 0]))"
      by (simp add: create_wakeup_channel_def check_channel_def demo_kernel_def)
    have address: "local_address demo_kernel \<lparr>th_raw = Suc 0, th_closed = False, th_close_error = None\<rparr> (True, [Suc 0], [Suc 0]) =
        (Inl InvalidLocalAddress, (True, [Suc 0], [Suc 0]))"
      by (simp add: local_address_def demo_kernel_def)
    show ?thesis
      by (rule that)
        (simp add: bind_and_schedule_def check init listener channel address acquire_def in_app_def reserve_invocation_def Let_def
          roll_back_both_def wakeup_action_def wakeup_close_def listener_action_def transport_close_def new_handle_def [of "Suc 0"]
          raise_acquisition_cleanup_def sels)
  qed
  from startup_keeps_or_releases [OF demo_start_books run] run show ?thesis by (auto simp: start_kept_def)
qed

section \<open>\<open>listen\<close>\<close>











end
