(* ===== verification/Adapters.thy ===== *)
theory Adapters
  imports Dispatch
begin

text \<open>
  \<open>smallserver/adapters.py\<close>: the registry that names the execution adapters of an application and shuts them down, and the
  translation of an adapter's failure into an HTTP error. The adapters and their exception classes belong to SmallOS and are
  parameters.
\<close>

section \<open>The registry\<close>

record registry =
  ar_adapters :: "(pystr \<times> nat) list"
  ar_closed :: bool

text \<open>\<open>ad_callable\<close>: whether an adapter has a callable attribute; \<open>ad_regular\<close>: whether what was raised is an \<open>Exception\<close>;
  \<open>ad_xid\<close>: the non-ASCII code points that may start and continue an identifier.\<close>

record ('a, 'r, 'x, 'w) adapters =
  ad_callable :: "nat \<Rightarrow> pystr \<Rightarrow> bool"
  ad_call :: "nat \<Rightarrow> 'a \<Rightarrow> 'w \<Rightarrow> ('x + 'r) \<times> 'w"
  ad_shutdown :: "nat \<Rightarrow> bool \<Rightarrow> bool \<Rightarrow> 'w \<Rightarrow> 'x option \<times> 'w"
  ad_regular :: "'x \<Rightarrow> bool"
  ad_xid :: "(nat \<Rightarrow> bool) \<times> (nat \<Rightarrow> bool)"

datatype 'x registry_error = RegistryRaised py_error | AdapterRaised 'x | AdapterShutdown "(pystr \<times> 'x) list"

definition identifier_start :: "(nat \<Rightarrow> bool) \<times> (nat \<Rightarrow> bool) \<Rightarrow> nat \<Rightarrow> bool" where
  "identifier_start xid c = (65 \<le> c \<and> c \<le> 90 \<or> 97 \<le> c \<and> c \<le> 122 \<or> c = 95 \<or> 128 \<le> c \<and> fst xid c)"

definition is_identifier :: "(nat \<Rightarrow> bool) \<times> (nat \<Rightarrow> bool) \<Rightarrow> pystr \<Rightarrow> bool" where
  "is_identifier xid name =
     (case name of
        [] \<Rightarrow> False
      | c # cs \<Rightarrow> identifier_start xid c \<and>
          list_all (\<lambda>d. identifier_start xid d \<or> 48 \<le> d \<and> d \<le> 57 \<or> 128 \<le> d \<and> snd xid d) cs)"

fun registered_as :: "nat \<Rightarrow> (pystr \<times> nat) list \<Rightarrow> pystr option" where
  "registered_as a [] = None"
| "registered_as a ((name, b) # ads) = (if b = a then Some name else registered_as a ads)"

definition registry_register ::
  "('a, 'r, 'x, 'w) adapters \<Rightarrow> pystr \<Rightarrow> nat \<Rightarrow> registry \<Rightarrow> py_error + registry" where
  "registry_register env name a r =
     (if ar_closed r then Inl (RuntimeError (lit ''adapter registry is closed''))
      else if \<not> is_identifier (ad_xid env) name then Inl (ValueError (lit ''adapter name must be a non-empty identifier''))
      else if name \<in> fst ` set (ar_adapters r) then Inl (ValueError (lit ''adapter is already registered: '' @ name))
      else case registered_as a (ar_adapters r) of
             Some other \<Rightarrow> Inl (ValueError (lit ''adapter is already registered as: '' @ other))
           | None \<Rightarrow>
               (case find (\<lambda>attr. \<not> ad_callable env a attr) [lit ''call'', lit ''shutdown''] of
                  Some attr \<Rightarrow> Inl (TypeError (lit ''adapter must provide '' @ attr @ lit ''()''))
                | None \<Rightarrow> Inr (r\<lparr>ar_adapters := dict_set name a (ar_adapters r)\<rparr>)))"

fun register_each ::
  "('a, 'r, 'x, 'w) adapters \<Rightarrow> (pystr \<times> nat) list \<Rightarrow> registry \<Rightarrow> py_error + registry" where
  "register_each env [] r = Inr r"
| "register_each env ((name, a) # ads) r = bind_sum (registry_register env name a r) (register_each env ads)"

definition registry_init :: "('a, 'r, 'x, 'w) adapters \<Rightarrow> (pystr \<times> nat) list \<Rightarrow> py_error + registry" where
  "registry_init env ads = register_each env ads \<lparr>ar_adapters = [], ar_closed = False\<rparr>"

definition registry_get :: "pystr \<Rightarrow> registry \<Rightarrow> py_error + nat" where
  "registry_get name r =
     (case map_of (ar_adapters r) name of Some a \<Rightarrow> Inr a | None \<Rightarrow> Inl (KeyError (lit ''unknown adapter: '' @ name)))"

definition registry_call ::
  "('a, 'r, 'x, 'w) adapters \<Rightarrow> pystr \<Rightarrow> 'a \<Rightarrow> registry \<Rightarrow> 'w \<Rightarrow> ('x registry_error + 'r) \<times> 'w" where
  "registry_call env name args r w =
     (if ar_closed r then (Inl (RegistryRaised (RuntimeError (lit ''adapter registry is closed''))), w)
      else case registry_get name r of
             Inl err \<Rightarrow> (Inl (RegistryRaised err), w)
           | Inr a \<Rightarrow> (case ad_call env a args w of (res, w1) \<Rightarrow> (map_sum AdapterRaised id res, w1)))"

definition registry_names :: "registry \<Rightarrow> pystr list" where
  "registry_names r = map fst (ar_adapters r)"

section \<open>Shutdown\<close>

text \<open>The loop, with the failures and the first interrupt so far.\<close>

fun shutdown_each ::
  "('a, 'r, 'x, 'w) adapters \<Rightarrow> bool \<Rightarrow> bool \<Rightarrow> (pystr \<times> nat) list \<Rightarrow> (pystr \<times> 'x) list \<Rightarrow> 'x option \<Rightarrow> 'w \<Rightarrow>
   ((pystr \<times> 'x) list \<times> 'x option) \<times> 'w" where
  "shutdown_each env waiting cancel [] failures interrupt w = ((failures, interrupt), w)"
| "shutdown_each env waiting cancel ((name, a) # ads) failures interrupt w =
     (case ad_shutdown env a waiting cancel w of
        (None, w1) \<Rightarrow> shutdown_each env waiting cancel ads failures interrupt w1
      | (Some exc, w1) \<Rightarrow>
          if ad_regular env exc then shutdown_each env waiting cancel ads (failures @ [(name, exc)]) interrupt w1
          else shutdown_each env waiting cancel ads failures (if interrupt = None then Some exc else interrupt) w1)"

definition registry_shutdown ::
  "('a, 'r, 'x, 'w) adapters \<Rightarrow> bool \<Rightarrow> bool \<Rightarrow> registry \<Rightarrow> 'w \<Rightarrow> 'x registry_error option \<times> registry \<times> 'w" where
  "registry_shutdown env waiting cancel r w =
     (if ar_closed r then (None, r, w)
      else
        let r1 = r\<lparr>ar_closed := True\<rparr>
        in case shutdown_each env waiting cancel (rev (ar_adapters r1)) [] None w of
             ((failures, interrupt), w1) \<Rightarrow>
               (case interrupt of
                  Some exc \<Rightarrow> Some (AdapterRaised exc)
                | None \<Rightarrow> if failures \<noteq> [] then Some (AdapterShutdown failures) else None, r1, w1))"

definition shutdown_message :: "(pystr \<times> 'x) list \<Rightarrow> pystr" where
  "shutdown_message failures = lit ''adapter shutdown failed: '' @ join_with (lit '', '') (map fst failures)"

text \<open>\<open>raised\<close>: the body of the \<open>with\<close> statement raised.\<close>

definition registry_exit ::
  "('a, 'r, 'x, 'w) adapters \<Rightarrow> bool \<Rightarrow> registry \<Rightarrow> 'w \<Rightarrow> 'x registry_error option \<times> registry \<times> 'w" where
  "registry_exit env raised r w = registry_shutdown env True raised r w"

section \<open>Adapter failures as HTTP errors\<close>

datatype adapter_class = AdapterCapacityError | AdapterUnavailableError | AdapterClosedError | AdapterCancelledError

definition http_error_from_adapter :: "(adapter_class \<Rightarrow> bool) \<Rightarrow> py_error + int \<times> pystr" where
  "http_error_from_adapter instance_of =
     (if instance_of AdapterCapacityError then http_error_init 503 (lit ''service is at capacity'')
      else if instance_of AdapterUnavailableError \<or> instance_of AdapterClosedError
      then http_error_init 503 (lit ''service is unavailable'')
      else if instance_of AdapterCancelledError then http_error_init 503 (lit ''service operation was cancelled'')
      else http_error_init 500 (lit ''service execution failed''))"

section \<open>Every adapter is shut down\<close>

text \<open>The registry as it is after any registrations.\<close>

definition registry_wf :: "registry \<Rightarrow> bool" where
  "registry_wf r \<longleftrightarrow> dict_wf (ar_adapters r) \<and> distinct (map snd (ar_adapters r))"

lemma registered_as_None: "registered_as a ads = None \<Longrightarrow> a \<notin> snd ` set ads"
  by (induction ads) (force split: if_splits)+

lemma registry_register_wf:
  assumes wf: "registry_wf r" and reg: "registry_register env name a r = Inr r'"
  shows "registry_wf r' \<and> ar_closed r' = ar_closed r"
proof -
  have new: "name \<notin> fst ` set (ar_adapters r)" "a \<notin> snd ` set (ar_adapters r)"
    and r': "r' = r\<lparr>ar_adapters := dict_set name a (ar_adapters r)\<rparr>"
    using reg by (auto simp: registry_register_def dest!: registered_as_None split: if_splits option.splits)
  show ?thesis unfolding r' using wf new by (auto simp: registry_wf_def dict_set_new dict_wf_def)
qed

lemma register_each_wf: "register_each env ads r = Inr r' \<Longrightarrow> registry_wf r \<Longrightarrow> registry_wf r' \<and> ar_closed r' = ar_closed r"
proof (induction ads arbitrary: r)
  case (Cons ad ads)
  obtain name a where ad: "ad = (name, a)" by (cases ad)
  show ?case
  proof (cases "registry_register env name a r")
    case (Inr r1)
    then have "register_each env ads r1 = Inr r'" using Cons.prems(1) by (simp add: ad)
    then show ?thesis using registry_register_wf [OF Cons.prems(2) Inr] Cons.IH by metis
  qed (use Cons.prems in \<open>simp add: ad\<close>)
qed simp

lemma register_each_adapters: "register_each env ads r = Inr r' \<Longrightarrow> ar_adapters r' = ar_adapters r @ ads"
proof (induction ads arbitrary: r)
  case (Cons ad ads)
  obtain name a where ad: "ad = (name, a)" by (cases ad)
  show ?case
  proof (cases "registry_register env name a r")
    case (Inr r1)
    have "ar_adapters r1 = ar_adapters r @ [(name, a)]"
      using Inr by (auto simp: registry_register_def dict_set_new split: if_splits option.splits)
    then show ?thesis using Cons Inr by (simp add: ad)
  qed (use Cons.prems in \<open>simp add: ad\<close>)
qed simp

text \<open>The adapters with a record of every shutdown: which adapter, and what it raised.\<close>

definition recorded :: "('a, 'r, 'x, 'w) adapters \<Rightarrow> ('a, 'r, 'x, (nat \<times> 'x option) list \<times> 'w) adapters" where
  "recorded env =
     \<lparr>ad_callable = ad_callable env,
      ad_call = (\<lambda>a args (log, w). case ad_call env a args w of (res, w1) \<Rightarrow> (res, (log, w1))),
      ad_shutdown = (\<lambda>a waiting cancel (log, w).
        case ad_shutdown env a waiting cancel w of (out, w1) \<Rightarrow> (out, (log @ [(a, out)], w1))),
      ad_regular = ad_regular env, ad_xid = ad_xid env\<rparr>"

text \<open>What the loop keeps of a record.\<close>

definition raised_of :: "(nat \<times> 'x option) list \<Rightarrow> 'x list" where
  "raised_of log = map the (filter (\<lambda>out. out \<noteq> None) (map snd log))"

lemma raised_of_simps [simp]:
  "raised_of [] = []" "raised_of ((a, None) # log) = raised_of log" "raised_of ((a, Some x) # log) = x # raised_of log"
  by (simp_all add: raised_of_def)

lemma shutdown_each_recorded:
  assumes "shutdown_each (recorded env) waiting cancel ads failures interrupt (log0, w) = ((failures', interrupt'), (log1, w1))"
  obtains log where "log1 = log0 @ log" "map fst log = map snd ads"
    "map snd failures' = map snd failures @ filter (ad_regular env) (raised_of log)"
    "interrupt' = (if interrupt \<noteq> None then interrupt else find (\<lambda>x. \<not> ad_regular env x) (raised_of log))"
proof -
  have "\<exists>log. log1 = log0 @ log \<and> map fst log = map snd ads \<and>
      map snd failures' = map snd failures @ filter (ad_regular env) (raised_of log) \<and>
      interrupt' = (if interrupt \<noteq> None then interrupt else find (\<lambda>x. \<not> ad_regular env x) (raised_of log))"
    using assms
  proof (induction ads arbitrary: failures interrupt log0 w)
    case (Cons ad ads)
    obtain name a where ad: "ad = (name, a)" by (cases ad)
    obtain out w2 where run: "ad_shutdown env a waiting cancel w = (out, w2)" by fastforce
    let ?failures = "failures @ (case out of None \<Rightarrow> [] | Some x \<Rightarrow> if ad_regular env x then [(name, x)] else [])"
    let ?interrupt = "case out of None \<Rightarrow> interrupt
      | Some x \<Rightarrow> if ad_regular env x \<or> interrupt \<noteq> None then interrupt else Some x"
    have "shutdown_each (recorded env) waiting cancel ads ?failures ?interrupt (log0 @ [(a, out)], w2) =
        ((failures', interrupt'), (log1, w1))"
      using Cons.prems run by (auto simp: ad recorded_def split: option.splits if_splits)
    from Cons.IH [OF this] obtain log where "log1 = (log0 @ [(a, out)]) @ log" "map fst log = map snd ads"
      "map snd failures' = map snd ?failures @ filter (ad_regular env) (raised_of log)"
      "interrupt' = (if ?interrupt \<noteq> None then ?interrupt else find (\<lambda>x. \<not> ad_regular env x) (raised_of log))"
      by blast
    then show ?case by (intro exI [of _ "(a, out) # log"]) (auto simp: ad split: option.splits if_splits)
  qed simp
  then show thesis using that by blast
qed

text \<open>C37. Every adapter of a registry is shut down exactly once, the last registered first, however many of them raise and
  whatever they raise; the registry is closed then and a second shutdown does nothing. The outcome hides no failure: it is the
  first interrupt if there was one, else all the exceptions raised, in order, and success only when nothing was raised.\<close>

theorem registry_shutdown_complete:
  assumes "registry_init (recorded env) ads = Inr r"
    and "registry_shutdown (recorded env) waiting cancel r ([], w) = (outcome, r1, log, w1)"
  shows "map fst log = rev (map snd ads) \<and> distinct (map fst log) \<and> ar_closed r1 \<and>
    registry_shutdown (recorded env) waiting2 cancel2 r1 (log, w1) = (None, r1, log, w1) \<and>
    (case find (\<lambda>x. \<not> ad_regular env x) (raised_of log) of
       Some x \<Rightarrow> outcome = Some (AdapterRaised x)
     | None \<Rightarrow> (case outcome of
           None \<Rightarrow> raised_of log = []
         | Some (AdapterShutdown fs) \<Rightarrow> raised_of log \<noteq> [] \<and> map snd fs = raised_of log
         | _ \<Rightarrow> False))"
proof -
  have r: "ar_adapters r = ads" "registry_wf r" "\<not> ar_closed r"
    using assms(1) register_each_adapters register_each_wf
    by (fastforce simp: registry_init_def registry_wf_def dict_wf_def)+
  obtain failures interrupt where
    run: "shutdown_each (recorded env) waiting cancel (rev ads) [] None ([], w) = ((failures, interrupt), (log, w1))"
    and out: "r1 = r\<lparr>ar_closed := True\<rparr>" "outcome = (case interrupt of Some exc \<Rightarrow> Some (AdapterRaised exc)
      | None \<Rightarrow> if failures \<noteq> [] then Some (AdapterShutdown failures) else None)"
    using assms(2) r by (auto simp: registry_shutdown_def Let_def split: prod.splits)
  from shutdown_each_recorded [OF run]
  have log: "map fst log = map snd (rev ads)" "map snd failures = filter (ad_regular env) (raised_of log)"
    "interrupt = find (\<lambda>x. \<not> ad_regular env x) (raised_of log)" by auto
  have regular: "filter (ad_regular env) (raised_of log) = raised_of log" if "interrupt = None"
    using that log(3) by (simp add: find_None_iff filter_id_conv)
  show ?thesis
    using r log out regular
    by (auto simp: rev_map [symmetric] registry_wf_def registry_shutdown_def split: option.splits if_splits)
qed

definition demo_adapters :: "(unit, unit, nat, unit) adapters" where
  "demo_adapters =
     \<lparr>ad_callable = \<lambda>a attr. True, ad_call = \<lambda>a args w. (Inr (), w),
      ad_shutdown = \<lambda>a waiting cancel w. (if a = 7 then None else Some a, w),
      ad_regular = \<lambda>x. x < 9, ad_xid = (\<lambda>c. False, \<lambda>c. False)\<rparr>"

lemma registry_shutdown_complete_witness:
  "\<exists>r outcome r1 log w1.
     registry_init (recorded demo_adapters) [(lit ''a'', 8), (lit ''b'', 9), (lit ''c'', 7)] = Inr r \<and>
     registry_shutdown (recorded demo_adapters) True False r ([], ()) = (outcome, r1, log, w1) \<and>
     map fst log = [7, 9, 8] \<and> outcome = Some (AdapterRaised 9)"
proof -
  let ?r = "\<lparr>ar_adapters = [(lit ''a'', 8), (lit ''b'', 9), (lit ''c'', 7)], ar_closed = False\<rparr>"
  have init: "registry_init (recorded demo_adapters) [(lit ''a'', 8), (lit ''b'', 9), (lit ''c'', 7)] = Inr ?r"
    by (simp add: registry_init_def registry_register_def recorded_def demo_adapters_def is_identifier_def
        identifier_start_def py_text)
  have run: "registry_shutdown (recorded demo_adapters) True False ?r ([], ()) =
      (Some (AdapterRaised 9), ?r\<lparr>ar_closed := True\<rparr>, [(7, None), (9, Some 9), (8, Some 8)], ())"
    by (simp add: registry_shutdown_def recorded_def demo_adapters_def)
  show ?thesis using registry_shutdown_complete [OF init run] init run by auto
qed

end
