(* ===== verification/WS_Coordinator.thy ===== *)
theory WS_Coordinator
  imports WS_Tasks Server_Handle
begin

text \<open>
  The rest of \<open>smallserver/websocket.py\<close>: the object the application sees, the handler task, and the coordinator
  \<open>run_websocket_connection\<close> that spawns the tasks of a connection, waits for the handler and cleans up. A definition is
  one stretch of a task between two awaits. The server's handle and its host are those of \<open>Server_Handle\<close>; \<open>spawn\<close> is
  \<open>task.spawn\<close> of the coordinator's task and returns the new task or raises.
\<close>

section \<open>What the application sees\<close>

definition message_is_text :: "ws_data \<Rightarrow> bool" where
  "message_is_text m = (case m of TextData _ \<Rightarrow> True | BytesData _ \<Rightarrow> False)"

definition message_is_binary :: "ws_data \<Rightarrow> bool" where
  "message_is_binary m = (case m of TextData _ \<Rightarrow> False | BytesData _ \<Rightarrow> True)"

definition message_text :: "ws_data \<Rightarrow> py_error + pystr" where
  "message_text m = (case m of TextData t \<Rightarrow> Inr t | BytesData _ \<Rightarrow> Inl (TypeError (lit ''WebSocket message is binary'')))"

definition message_bytes :: "ws_data \<Rightarrow> py_error + bytes" where
  "message_bytes m = (case m of TextData _ \<Rightarrow> Inl (TypeError (lit ''WebSocket message is text'')) | BytesData b \<Rightarrow> Inr b)"

text \<open>\<open>receive_text\<close> and \<open>receive_bytes\<close>: \<open>Inr None\<close> waits. A message of the other kind is taken out of the inbox all the same.\<close>

definition socket_receive_text :: "bool \<Rightarrow> ('p, 'r, 'e) ws \<Rightarrow> (('e ws_failure + py_error) + pystr option) \<times> ('p, 'r, 'e) ws" where
  "socket_receive_text entry s =
     (case ws_receive entry s of
        (Inl e, s1) \<Rightarrow> (Inl (Inl e), s1)
      | (Inr None, s1) \<Rightarrow> (Inr None, s1)
      | (Inr (Some m), s1) \<Rightarrow> (map_sum Inr Some (message_text m), s1))"

definition socket_receive_bytes :: "bool \<Rightarrow> ('p, 'r, 'e) ws \<Rightarrow> (('e ws_failure + py_error) + bytes option) \<times> ('p, 'r, 'e) ws" where
  "socket_receive_bytes entry s =
     (case ws_receive entry s of
        (Inl e, s1) \<Rightarrow> (Inl (Inl e), s1)
      | (Inr None, s1) \<Rightarrow> (Inr None, s1)
      | (Inr (Some m), s1) \<Rightarrow> (map_sum Inr Some (message_bytes m), s1))"

definition socket_send_text :: "pystr \<Rightarrow> ('p, 'r, 'e) ws \<Rightarrow> ('e ws_failure + nat) \<times> ('p, 'r, 'e) ws" where
  "socket_send_text t s = send_message (TextData t) s"

definition socket_send_bytes :: "bytes \<Rightarrow> ('p, 'r, 'e) ws \<Rightarrow> ('e ws_failure + nat) \<times> ('p, 'r, 'e) ws" where
  "socket_send_bytes b s = send_message (BytesData b) s"

text \<open>\<open>__anext__\<close>: a disconnection ends the loop of the application.\<close>

datatype socket_next = NextWaits | NextMessage ws_data | NextStops

definition socket_anext :: "bool \<Rightarrow> ('p, 'r, 'e) ws \<Rightarrow> ('e ws_failure + socket_next) \<times> ('p, 'r, 'e) ws" where
  "socket_anext entry s =
     (case ws_receive entry s of
        (Inl (WSDisconnected code reason), s1) \<Rightarrow> (Inr NextStops, s1)
      | (Inl e, s1) \<Rightarrow> (Inl e, s1)
      | (Inr None, s1) \<Rightarrow> (Inr NextWaits, s1)
      | (Inr (Some m), s1) \<Rightarrow> (Inr (NextMessage m), s1))"

text \<open>\<open>find_module\<close> is \<open>importlib.import_module\<close>, \<open>None\<close> for an \<open>ImportError\<close>; the result is the two modules the names of
  \<open>_WSProtoAPI\<close> are taken from, or the message of \<open>WebSocketUnavailable\<close>.\<close>

definition load_wsproto :: "(pystr \<Rightarrow> 'm option) \<Rightarrow> pystr + 'm \<times> 'm" where
  "load_wsproto find_module =
     (let unavailable = lit ''WebSocket routes require the 'smallserver[websocket]' extra''
      in case find_module (lit ''wsproto.connection'') of
           None \<Rightarrow> Inl unavailable
         | Some connection \<Rightarrow>
             (case find_module (lit ''wsproto.events'') of None \<Rightarrow> Inl unavailable | Some events \<Rightarrow> Inr (connection, events)))"

section \<open>The coordinator's state\<close>

text \<open>What leaves a task: \<open>ExKilled\<close> is \<open>GeneratorExit\<close>, with which a waiting coroutine is closed.\<close>

datatype 'e exc = ExRaised "'e ws_failure" | ExKilled

fun exc_exits :: "'e exc \<Rightarrow> bool" where
  "exc_exits (ExRaised e) = is_exit e"
| "exc_exits ExKilled = False"

datatype 'e coordinator_pc = CoDeciding | CoJoining | CoClosing nat | CoDraining int | CoEnded "'e exc option"

record ('p, 'r, 'e) coordinator =
  co_pc :: "'e coordinator_pc"
  co_state :: "('p, 'r, 'e) ws"
  co_children :: "nat list"
  co_handler_error :: "'e exc option"

definition coordinator_init :: "('p, 'r, 'e) ws \<Rightarrow> ('p, 'r, 'e) coordinator" where
  "coordinator_init s = \<lparr>co_pc = CoDeciding, co_state = s, co_children = [], co_handler_error = None\<rparr>"

definition undecided :: "('p, 'r, 'e) ws \<Rightarrow> bool" where
  "undecided s = (ws_handshake s \<in> {HsPending, HsAccepting, HsRejecting})"

section \<open>The handler task\<close>

text \<open>\<open>await state.reject(response)\<close> outside the application: when it raised, an exit becomes the fatal error and goes on.\<close>

definition reject_failed :: "'e ws_failure \<Rightarrow> ('p, 'r, 'e) ws \<Rightarrow> 'e ws_failure option \<times> ('p, 'r, 'e) ws" where
  "reject_failed e s =
     (if is_exit e then (Some e, s\<lparr>ws_fatal_error := Some e\<rparr>) else (None, ws_disconnected 1006 [] s))"

text \<open>The handler ends with an exception on its way or sends the response first.\<close>

datatype 'e handler_next = HnSends bytes "'e exc option" | HnEnds "'e exc option"

definition handler_signals :: "('p, 'r, 'e) coordinator \<Rightarrow> ('p, 'r, 'e) coordinator" where
  "handler_signals k = k\<lparr>co_state := ws_signal (ws_coordinator_task (co_state k)) decision_signal (co_state k)\<rparr>"

definition handler_reject_failed ::
  "'e ws_failure \<Rightarrow> 'e exc option \<Rightarrow> ('p, 'r, 'e) coordinator \<Rightarrow> 'e handler_next \<times> ('p, 'r, 'e) coordinator" where
  "handler_reject_failed e raised k =
     (case reject_failed e (co_state k) of
        (Some e1, s) \<Rightarrow> (HnEnds (Some (ExRaised e1)), k\<lparr>co_state := s, co_handler_error := Some (ExRaised e1)\<rparr>)
      | (None, s) \<Rightarrow> (HnEnds raised, handler_signals (k\<lparr>co_state := s\<rparr>)))"

text \<open>\<open>outcome\<close> is how the application's handler ended; a result that is no awaitable raises a \<open>TypeError\<close>.\<close>

definition ws_handler_ended ::
  "'e exc option \<Rightarrow> ('p, 'r, 'e) coordinator \<Rightarrow> 'e handler_next \<times> ('p, 'r, 'e) coordinator" where
  "ws_handler_ended outcome k =
     (let raised = (case outcome of
            None \<Rightarrow> None | Some ExKilled \<Rightarrow> Some ExKilled | Some (ExRaised e) \<Rightarrow> if is_exit e then Some (ExRaised e) else None);
          k1 = (case outcome of
            None \<Rightarrow> k | Some ExKilled \<Rightarrow> k | Some (ExRaised (WSDisconnected code reason)) \<Rightarrow> k
          | Some (ExRaised e) \<Rightarrow> k\<lparr>co_handler_error := Some (ExRaised e)\<rparr>);
          k2 = (case raised of
            Some (ExRaised e) \<Rightarrow> if undecided (co_state k1) then k1\<lparr>co_state := fail_handshake e (co_state k1)\<rparr> else k1
          | _ \<Rightarrow> k1)
      in if ws_handshake (co_state k2) \<noteq> HsPending then (HnEnds raised, handler_signals k2)
         else case undecided_response (co_handler_error k2 \<noteq> None) of
                Inl e \<Rightarrow> (HnEnds (Some (ExRaised WSValue)), k2)
              | Inr resp \<Rightarrow>
                  (case ws_reject resp (co_state k2) of
                     (RejectSends payload, s) \<Rightarrow> (HnSends payload raised, k2\<lparr>co_state := s\<rparr>)
                   | (RejectFails e, s) \<Rightarrow> handler_reject_failed e raised (k2\<lparr>co_state := s\<rparr>)))"

definition ws_handler_answered ::
  "'e exc option \<Rightarrow> 'e exc option \<Rightarrow> ('p, 'r, 'e) coordinator \<Rightarrow> 'e handler_next \<times> ('p, 'r, 'e) coordinator" where
  "ws_handler_answered sent raised k =
     (case sent of
        None \<Rightarrow> (HnEnds raised, handler_signals (k\<lparr>co_state := reject_sent (co_state k)\<rparr>))
      | Some (ExRaised e) \<Rightarrow> handler_reject_failed e raised (k\<lparr>co_state := fail_handshake e (co_state k)\<rparr>)
      | Some ExKilled \<Rightarrow> (HnEnds raised, handler_signals (k\<lparr>co_state := ws_disconnected 1006 [] (co_state k)\<rparr>)))"

text \<open>The deadline task when the handshake has not been decided in time: what it sends, or what it raises as it ends.\<close>

definition deadline_rejects :: "('p, 'r, 'e) ws \<Rightarrow> ('e ws_failure option + bytes) \<times> ('p, 'r, 'e) ws" where
  "deadline_rejects s =
     (case response_text (lit ''WebSocket handshake timed out'') 408 [] of
        Inl e \<Rightarrow> (case reject_failed WSValue s of (r, s1) \<Rightarrow> (Inl r, s1))
      | Inr resp \<Rightarrow>
          (case ws_reject resp s of
             (RejectSends payload, s1) \<Rightarrow> (Inr payload, s1)
           | (RejectFails e, s1) \<Rightarrow> (case reject_failed e s1 of (r, s2) \<Rightarrow> (Inl r, s2))))"

definition deadline_answered :: "'e exc option \<Rightarrow> ('p, 'r, 'e) ws \<Rightarrow> 'e ws_failure option \<times> ('p, 'r, 'e) ws" where
  "deadline_answered sent s =
     (case sent of
        None \<Rightarrow> (None, reject_sent s)
      | Some (ExRaised e) \<Rightarrow> reject_failed e (fail_handshake e s)
      | Some ExKilled \<Rightarrow> (None, ws_disconnected 1006 [] s))"

section \<open>The coordinator's steps\<close>

datatype child = HandlerChild | DeadlineChild | WriterChild | ReaderChild

type_synonym ('p, 'r, 'e, 'a, 'x, 'v) coordinated = "('p, 'r, 'e) coordinator \<times> ('a, 'x) handle \<times> 'v"

type_synonym ('e, 'v) spawner = "child \<Rightarrow> 'v \<Rightarrow> ('e ws_failure + nat) \<times> 'v"

definition spawn_child ::
  "('e, 'v) spawner \<Rightarrow> child \<Rightarrow> ('p, 'r, 'e, 'a, 'x, 'v) coordinated \<Rightarrow> ('e ws_failure + nat) \<times> ('p, 'r, 'e, 'a, 'x, 'v) coordinated" where
  "spawn_child spawn child st =
     (case st of (k, h, v) \<Rightarrow>
        case spawn child v of
          (Inl e, v1) \<Rightarrow> (Inl e, k, h, v1)
        | (Inr t, v1) \<Rightarrow>
            (Inr t, k\<lparr>co_children := co_children k @ [t]\<rparr>, h\<lparr>sh_owned_tasks := sh_owned_tasks h @ [t]\<rparr>, v1))"

fun cancel_children :: "('x, 'v) host \<Rightarrow> nat \<Rightarrow> nat list \<Rightarrow> ('a, 'x) handle \<Rightarrow> 'v \<Rightarrow> ('a, 'x) handle \<times> 'v" where
  "cancel_children host task [] h v = (h, v)"
| "cancel_children host task (t # ts) h v =
     (if t = task then cancel_children host task ts h v
      else case cancel_or_retain_task host t h v of
             (cancelled, h1, v1) \<Rightarrow>
               cancel_children host task ts (if cancelled then h1\<lparr>sh_owned_tasks := remove1 t (sh_owned_tasks h1)\<rparr> else h1) v1)"

text \<open>The \<open>finally\<close> block; \<open>c\<close> is the stream. An exit raised by the shutdown (the handler's cancellation) leaves it at
  once, in place of what was on its way.\<close>

definition coordinator_end ::
  "('x, 'v) host \<Rightarrow> nat \<Rightarrow> nat \<Rightarrow> 'e exc option \<Rightarrow> ('p, 'r, 'e, 'a, 'x, 'v) coordinated \<Rightarrow> ('p, 'r, 'e, 'a, 'x, 'v) coordinated" where
  "coordinator_end host task c raised st =
     (case st of (k, h, v) \<Rightarrow>
        case request_shutdown 1001 (co_state k) of
          (Some e, s) \<Rightarrow> (k\<lparr>co_pc := CoEnded (Some (ExRaised e)), co_state := s\<rparr>, h, v)
        | (None, s) \<Rightarrow>
            (case cancel_children host task (co_children k) h v of
               (h1, v1) \<Rightarrow>
                 (k\<lparr>co_pc := CoEnded raised, co_state := s, co_children := []\<rparr>, websocket_ended c h1, v1)))"

text \<open>The test of the first loop, and what follows it.\<close>

definition coordinator_decides ::
  "('e, 'v) spawner \<Rightarrow> ('x, 'v) host \<Rightarrow> nat \<Rightarrow> nat \<Rightarrow> ('p, 'r, 'e, 'a, 'x, 'v) coordinated \<Rightarrow> ('p, 'r, 'e, 'a, 'x, 'v) coordinated" where
  "coordinator_decides spawn host task c st =
     (case st of (k, h, v) \<Rightarrow>
        if undecided (co_state k) then (k\<lparr>co_pc := CoDeciding\<rparr>, h, v)
        else if \<not> ws_accepted (co_state k)
        then coordinator_end host task c (map_option ExRaised (ws_fatal_error (co_state k))) st
        else case spawn_child spawn WriterChild st of
               (Inl e, st1) \<Rightarrow> coordinator_end host task c (Some (ExRaised e)) st1
             | (Inr t, (k1, h1, v1)) \<Rightarrow>
                 (case spawn_child spawn ReaderChild (k1\<lparr>co_state := writer_begun t (co_state k1)\<rparr>, h1, v1) of
                    (Inl e, st2) \<Rightarrow> coordinator_end host task c (Some (ExRaised e)) st2
                  | (Inr _, (k2, h2, v2)) \<Rightarrow> (k2\<lparr>co_pc := CoJoining\<rparr>, h2, v2)))"

definition coordinator_start ::
  "('e, 'v) spawner \<Rightarrow> ('x, 'v) host \<Rightarrow> nat \<Rightarrow> nat \<Rightarrow> ('p, 'r, 'e, 'a, 'x, 'v) coordinated \<Rightarrow> ('p, 'r, 'e, 'a, 'x, 'v) coordinated" where
  "coordinator_start spawn host task c st =
     (case st of (k, h, v) \<Rightarrow>
        case spawn_child spawn HandlerChild
               (k\<lparr>co_state := (co_state k)\<lparr>ws_coordinator_task := Some task\<rparr>\<rparr>, websocket_begun c h, v) of
          (Inl e, st1) \<Rightarrow> coordinator_end host task c (Some (ExRaised e)) st1
        | (Inr t, (k1, h1, v1)) \<Rightarrow>
            (case spawn_child spawn DeadlineChild (k1\<lparr>co_state := coordinator_begun task t (co_state k1)\<rparr>, h1, v1) of
               (Inl e, st2) \<Rightarrow> coordinator_end host task c (Some (ExRaised e)) st2
             | (Inr _, st2) \<Rightarrow> coordinator_decides spawn host task c st2))"

text \<open>The last loop, entered at \<open>now\<close>.\<close>

definition coordinator_drains ::
  "('x, 'v) host \<Rightarrow> nat \<Rightarrow> nat \<Rightarrow> int \<Rightarrow> ('p, 'r, 'e, 'a, 'x, 'v) coordinated \<Rightarrow> ('p, 'r, 'e, 'a, 'x, 'v) coordinated" where
  "coordinator_drains host task c now st =
     (case st of (k, h, v) \<Rightarrow>
        let deadline = now + wc_close_timeout (ws_config (co_state k))
        in if coordinator_waits now deadline (co_state k) then (k\<lparr>co_pc := CoDraining deadline\<rparr>, h, v)
           else coordinator_end host task c None st)"

text \<open>After the handler: the fatal error of the connection ends it, or the last Close is sent.\<close>

definition coordinator_last_close ::
  "('x, 'v) host \<Rightarrow> nat \<Rightarrow> nat \<Rightarrow> int \<Rightarrow> ('p, 'r, 'e, 'a, 'x, 'v) coordinated \<Rightarrow> ('p, 'r, 'e, 'a, 'x, 'v) coordinated" where
  "coordinator_last_close host task c now st =
     (case st of (k, h, v) \<Rightarrow>
        case ws_fatal_error (co_state k) of
          Some e \<Rightarrow> coordinator_end host task c (Some (ExRaised e)) st
        | None \<Rightarrow>
            (case coordinator_close (co_handler_error k \<noteq> None) now (co_state k) of
               (None, s) \<Rightarrow> coordinator_drains host task c now (k\<lparr>co_state := s\<rparr>, h, v)
             | (Some (Inl e), s) \<Rightarrow>
                 if is_exit e then coordinator_end host task c (Some (ExRaised e)) (k\<lparr>co_state := s\<rparr>, h, v)
                 else coordinator_drains host task c now (k\<lparr>co_state := s\<rparr>, h, v)
             | (Some (Inr cid), s) \<Rightarrow> (k\<lparr>co_pc := CoClosing cid, co_state := s\<rparr>, h, v)))"

text \<open>\<open>task.join(handler)\<close> is over, with what it raised. Everything but a disconnection is kept as the handler's error, also
  the \<open>GeneratorExit\<close> that closes the coordinator itself.\<close>

definition coordinator_joined ::
  "('x, 'v) host \<Rightarrow> nat \<Rightarrow> nat \<Rightarrow> 'e exc option \<Rightarrow> int \<Rightarrow> ('p, 'r, 'e, 'a, 'x, 'v) coordinated \<Rightarrow> ('p, 'r, 'e, 'a, 'x, 'v) coordinated" where
  "coordinator_joined host task c raised now st =
     (case st of (k, h, v) \<Rightarrow>
        let k1 = (case raised of
                    None \<Rightarrow> k
                  | Some (ExRaised (WSDisconnected code reason)) \<Rightarrow> k
                  | Some e \<Rightarrow> k\<lparr>co_handler_error := Some e\<rparr>)
        in case co_handler_error k1 of
             Some e \<Rightarrow>
               if exc_exits e then coordinator_end host task c (Some e) (k1, h, v)
               else coordinator_last_close host task c now (k1, h, v)
           | None \<Rightarrow> coordinator_last_close host task c now (k1, h, v))"

text \<open>A signal while the coordinator waits for its Close; it goes on waiting until the command is done.\<close>

definition coordinator_acked ::
  "('x, 'v) host \<Rightarrow> nat \<Rightarrow> nat \<Rightarrow> nat \<Rightarrow> int \<Rightarrow> ('p, 'r, 'e, 'a, 'x, 'v) coordinated \<Rightarrow> ('p, 'r, 'e, 'a, 'x, 'v) coordinated" where
  "coordinator_acked host task c cid now st =
     (case st of (k, h, v) \<Rightarrow>
        case command_result cid (co_state k) of
          None \<Rightarrow> st
        | Some None \<Rightarrow> coordinator_drains host task c now (k\<lparr>co_state := coordinator_close_sent (co_state k)\<rparr>, h, v)
        | Some (Some e) \<Rightarrow>
            if is_exit e then coordinator_end host task c (Some (ExRaised e)) st else coordinator_drains host task c now st)"

definition coordinator_woken ::
  "('x, 'v) host \<Rightarrow> nat \<Rightarrow> nat \<Rightarrow> int \<Rightarrow> int \<Rightarrow> ('p, 'r, 'e, 'a, 'x, 'v) coordinated \<Rightarrow> ('p, 'r, 'e, 'a, 'x, 'v) coordinated" where
  "coordinator_woken host task c deadline now st =
     (if coordinator_waits now deadline (co_state (fst st)) then st else coordinator_end host task c None st)"

text \<open>\<open>GeneratorExit\<close> at each of the waits.\<close>

definition coordinator_killed ::
  "('x, 'v) host \<Rightarrow> nat \<Rightarrow> nat \<Rightarrow> int \<Rightarrow> ('p, 'r, 'e, 'a, 'x, 'v) coordinated \<Rightarrow> ('p, 'r, 'e, 'a, 'x, 'v) coordinated" where
  "coordinator_killed host task c now st =
     (case co_pc (fst st) of
        CoDeciding \<Rightarrow> coordinator_end host task c (Some ExKilled) st
      | CoJoining \<Rightarrow> coordinator_joined host task c (Some ExKilled) now st
      | CoClosing cid \<Rightarrow> coordinator_drains host task c now st
      | CoDraining deadline \<Rightarrow> coordinator_end host task c (Some ExKilled) st
      | CoEnded raised \<Rightarrow> st)"

datatype 'e co_event = CoSignalled | CoJoined "'e exc option" int | CoAcked int | CoWoken int | CoKilled int

definition co_step ::
  "('e, 'v) spawner \<Rightarrow> ('x, 'v) host \<Rightarrow> nat \<Rightarrow> nat \<Rightarrow> 'e co_event \<Rightarrow> ('p, 'r, 'e, 'a, 'x, 'v) coordinated \<Rightarrow>
   ('p, 'r, 'e, 'a, 'x, 'v) coordinated option" where
  "co_step spawn host task c ev st =
     (case (co_pc (fst st), ev) of
        (CoDeciding, CoSignalled) \<Rightarrow> Some (coordinator_decides spawn host task c st)
      | (CoJoining, CoJoined raised now) \<Rightarrow> Some (coordinator_joined host task c raised now st)
      | (CoClosing cid, CoAcked now) \<Rightarrow> Some (coordinator_acked host task c cid now st)
      | (CoDraining deadline, CoWoken now) \<Rightarrow> Some (coordinator_woken host task c deadline now st)
      | (CoEnded raised, _) \<Rightarrow> None
      | (_, CoKilled now) \<Rightarrow> Some (coordinator_killed host task c now st)
      | _ \<Rightarrow> None)"

end
