(* ===== verification/WS_Children.thy ===== *)
theory WS_Children
  imports WS_Coordinator Configs
begin

text \<open>
  No task of a WebSocket connection is lost: the runs of the coordinator of \<open>smallserver/websocket.py\<close> with the rest of the
  program between its steps, and what becomes of the tasks it has spawned.
\<close>

section \<open>The scheduler\<close>





section \<open>Cancelling the children\<close>








section \<open>The invariant of a run\<close>




















section \<open>The stretches of the coordinator\<close>










section \<open>The properties\<close>


text \<open>A scheduler that refuses to cancel task 1.\<close>

definition demo_spawn :: "(nat, nat list) spawner" where
  "demo_spawn child v = (Inr (Suc (sum_list v)), v @ [Suc (sum_list v)])"

definition stubborn_host :: "(nat, nat list) host" where
  "stubborn_host =
     \<lparr>host_socket_close = (\<lambda>c v. (None, v)), host_listener_close = (\<lambda>v. (None, v)), host_wakeup_close = (\<lambda>v. (None, v)),
      host_notify = (\<lambda>v. (None, v)), host_cancel = (\<lambda>t v. (if t = 1 then Some 7 else None, v)), host_resume = (\<lambda>t v. v),
      host_signal = (\<lambda>t v. (None, v)), host_cursor = (\<lambda>v. None), host_graceful = (\<lambda>c v. (False, v)),
      host_ws_shutdown = (\<lambda>c v. v), host_wake_observer = (\<lambda>t v. v), host_new_task = (\<lambda>v. (Inl 0, v)),
      host_fork = (\<lambda>t v. (None, v)), host_finalized = (\<lambda>v. v)\<rparr>"









lemma enqueue_outcome:
  "case enqueue event size1 s of
     (Inl e, s') \<Rightarrow> \<not> is_exit e \<and> s' = s
   | (Inr cid, s') \<Rightarrow> ws_outbox s' \<noteq> [] \<and> ws_config s' = ws_config s"
  by (simp add: enqueue_def push_command_def ws_signal_def split: option.split)

lemma drains_waits:
  assumes "0 < wc_close_timeout (ws_config (co_state k))"
    and "ws_outbox (co_state k) \<noteq> [] \<or> ws_writer_busy (co_state k) \<or> \<not> ws_peer_closed (co_state k)"
  shows "coordinator_drains host task c now (k, h, v) =
    (k\<lparr>co_pc := CoDraining (now + wc_close_timeout (ws_config (co_state k)))\<rparr>, h, v)"
  using assms by (simp add: coordinator_drains_def Let_def coordinator_waits_def)

text \<open>The last Close after a \<open>GeneratorExit\<close>.\<close>

lemma killed_last_close:
  assumes err: "co_handler_error k = Some ExKilled" and fatal: "ws_fatal_error (co_state k) = None"
    and time: "0 < wc_close_timeout (ws_config (co_state k))"
    and more: "ws_outbox (co_state k) \<noteq> [] \<or> ws_writer_busy (co_state k) \<or> \<not> ws_peer_closed (co_state k)"
  shows "\<exists>k'. coordinator_last_close host task c now (k, h, v) = (k', h, v) \<and> co_children k' = co_children k \<and>
    ((\<exists>deadline. co_pc k' = CoDraining deadline) \<or>
     (\<exists>cid. co_pc k' = CoClosing cid \<and> ws_outbox (co_state k') \<noteq> [] \<and> ws_config (co_state k') = ws_config (co_state k)))"
proof (cases "ws_close_sent (co_state k)")
  case True
  then have "coordinator_last_close host task c now (k, h, v) = coordinator_drains host task c now (k, h, v)"
    by (simp add: coordinator_last_close_def fatal err coordinator_close_def)
  then show ?thesis by (simp add: drains_waits [OF time more])
next
  case False
  define s1 where "s1 = (co_state k)\<lparr>ws_close_deadline := Some (now + wc_close_timeout (ws_config (co_state k)))\<rparr>"
  obtain r s2 where e: "enqueue (OutClose 1011 (lit ''handler failed'')) 16 s1 = (r, s2)" by fastforce
  have close: "coordinator_close True now (co_state k) = (Some r, s2)"
    using False e by (simp add: coordinator_close_def s1_def)
  have after: "case r of Inl e \<Rightarrow> \<not> is_exit e \<and> s2 = s1 | Inr cid \<Rightarrow> ws_outbox s2 \<noteq> [] \<and> ws_config s2 = ws_config s1"
    using enqueue_outcome [of s1 "OutClose 1011 (lit ''handler failed'')" 16] unfolding e by (cases r) auto
  show ?thesis
  proof (cases r)
    case (Inl err1)
    have "coordinator_drains host task c now (k\<lparr>co_state := s1\<rparr>, h, v) =
        (k\<lparr>co_state := s1, co_pc := CoDraining (now + wc_close_timeout (ws_config s1))\<rparr>, h, v)"
      using drains_waits [of "k\<lparr>co_state := s1\<rparr>" host task c now h v] time more by (simp add: s1_def)
    then show ?thesis using after by (simp add: coordinator_last_close_def fatal err close Inl)
  next
    case (Inr cid)
    then show ?thesis using after by (simp add: coordinator_last_close_def fatal err close s1_def)
  qed
qed

text \<open>C39. Cancelling the coordinator while it waits for its handler does not end it. The \<open>GeneratorExit\<close> is caught with the
  handler's exceptions: unless an exit is on record or the connection has nothing left to send and the peer has
  closed, the coordinator goes on to another wait, with every task, the handle and the world as they were; the
  same happens to a second cancellation that comes while its Close is on the way.\<close>

theorem cancelled_coordinator_goes_on:
  assumes "co_pc k = CoJoining" and "ws_fatal_error (co_state k) = None"
    and "0 < wc_close_timeout (ws_config (co_state k))"
    and "ws_outbox (co_state k) \<noteq> [] \<or> ws_writer_busy (co_state k) \<or> \<not> ws_peer_closed (co_state k)"
  shows "\<exists>k'. co_step spawn host task c (CoKilled now) (k, h, v) = Some (k', h, v) \<and> co_children k' = co_children k \<and>
    ((\<exists>deadline. co_pc k' = CoDraining deadline) \<or>
     (\<exists>cid k''. co_pc k' = CoClosing cid \<and> co_children k'' = co_children k \<and>
        co_step spawn host task c (CoKilled now) (k', h, v) = Some (k'', h, v) \<and> (\<exists>deadline. co_pc k'' = CoDraining deadline)))"
proof -
  let ?k = "k\<lparr>co_handler_error := Some ExKilled\<rparr>"
  have kill: "co_step spawn host task c (CoKilled now) (k, h, v) = Some (coordinator_last_close host task c now (?k, h, v))"
    using assms(1) by (simp add: co_step_def coordinator_killed_def coordinator_joined_def)
  obtain k' where k': "coordinator_last_close host task c now (?k, h, v) = (k', h, v)" "co_children k' = co_children k"
    "(\<exists>deadline. co_pc k' = CoDraining deadline) \<or>
     (\<exists>cid. co_pc k' = CoClosing cid \<and> ws_outbox (co_state k') \<noteq> [] \<and> ws_config (co_state k') = ws_config (co_state k))"
    using killed_last_close [where k = ?k and host = host and task = task and c = c and now = now and h = h and v = v] assms(2-4) by auto
  have "\<exists>k''. co_children k'' = co_children k \<and> (\<exists>deadline. co_pc k'' = CoDraining deadline) \<and>
      co_step spawn host task c (CoKilled now) (k', h, v) = Some (k'', h, v)"
    if "co_pc k' = CoClosing cid" "ws_outbox (co_state k') \<noteq> []" "ws_config (co_state k') = ws_config (co_state k)" for cid
    using that drains_waits [of k' host task c now h v] assms(3) k'(2) by (simp add: co_step_def coordinator_killed_def)
  then show ?thesis using kill k' by auto
qed

lemma cancelled_coordinator_goes_on_witness:
  "\<exists>k'. co_step demo_spawn stubborn_host 0 9 (CoKilled 5)
     ((coordinator_init (ws_init (\<lambda>t log. None) ws_config_default 0 :: (unit, nat, nat) ws))\<lparr>co_pc := CoJoining, co_children := [1, 2, 3, 4]\<rparr>,
      handle_init 4 None True, [0]) = Some (k', handle_init 4 None True, [0]) \<and> co_children k' = [1, 2, 3, 4]"
  using cancelled_coordinator_goes_on
      [of "(coordinator_init (ws_init (\<lambda>t log. None) ws_config_default 0 :: (unit, nat, nat) ws))\<lparr>co_pc := CoJoining, co_children := [1, 2, 3, 4]\<rparr>"
        demo_spawn stubborn_host 0 9 5 "handle_init 4 None True" "[0]"]
  by (auto simp: coordinator_init_def ws_init_def ws_config_default_def)

end
