(* ===== verification/H2_Setup.thy ===== *)
theory H2_Setup
  imports H2_Protocol Startup
begin

text \<open>
  How \<open>H2Protocol\<close> of \<open>smallserver/http2.py\<close> sets hyper-h2 up: the options of the connection, the settings it advertises, and
  the overridden method that takes the content-length check away from the library. hyper-h2 is a parameter.
\<close>

text \<open>Timeouts in milliseconds.\<close>

definition h2_config_default :: h2_config where
  "h2_config_default =
     \<lparr>hc_max_concurrent_streams = 100, hc_max_header_count = 100, hc_max_header_bytes = 16 * 1024,
      hc_max_compressed_header_bytes = 16 * 1024, hc_max_body_bytes = 1024 * 1024,
      hc_max_connection_buffer_bytes = 4 * 1024 * 1024, hc_max_pending_output_bytes = 4 * 1024 * 1024,
      hc_max_response_body_bytes = 2 * 1024 * 1024, hc_max_control_output_bytes = 64 * 1024, hc_max_frame_size = 16 * 1024,
      hc_reader_frame_batch_size = 32, hc_handshake_timeout = 10000, hc_idle_timeout = 60000\<rparr>"

lemma h2_default_accepted: "h2_config_init h2_config_default = Inr h2_config_default"
  by (simp add: h2_config_init_def h2_config_default_def)

record h2_options =
  ho_client_side :: bool
  ho_header_encoding :: pystr
  ho_validate_inbound_headers :: bool
  ho_normalize_inbound_headers :: bool

definition h2_server_options :: h2_options where
  "h2_server_options =
     \<lparr>ho_client_side = False, ho_header_encoding = lit ''utf-8'', ho_validate_inbound_headers = True,
      ho_normalize_inbound_headers = False\<rparr>"

datatype h2_setting = MaxConcurrentStreams | MaxHeaderListSize | MaxFrameSize

definition h2_local_settings :: "h2_config \<Rightarrow> (h2_setting \<times> int) list" where
  "h2_local_settings c =
     [(MaxConcurrentStreams, hc_max_concurrent_streams c), (MaxHeaderListSize, hc_max_header_bytes c),
      (MaxFrameSize, hc_max_frame_size c)]"

text \<open>\<open>connect\<close> is the construction of the connection with the settings assigned.\<close>

definition h2_protocol_new ::
  "h2_module option \<Rightarrow> (h2_options \<Rightarrow> (h2_setting \<times> int) list \<Rightarrow> 'w) \<Rightarrow> h2_config option \<Rightarrow> startup_check + 'w h2_state" where
  "h2_protocol_new m connect config =
     (case require_http2 m of
        Some err \<Rightarrow> Inl err
      | None \<Rightarrow>
          (let c = (case config of None \<Rightarrow> h2_config_default | Some c \<Rightarrow> c)
           in Inr (h2_init c (connect h2_server_options (h2_local_settings c)))))"

text \<open>\<open>_begin_new_stream\<close>: \<open>super\<close> is the library's, \<open>checks_length\<close> whether the stream has a callable
  \<open>_initialize_content_length\<close>, and \<open>unchecked\<close> the stream with that method replaced by one that does nothing.\<close>

datatype 'x begin_error = BeginRaised 'x | BeginUnsupported pystr

definition begin_new_stream ::
  "(nat \<Rightarrow> 'w \<Rightarrow> ('x + 's) \<times> 'w) \<Rightarrow> ('s \<Rightarrow> bool) \<Rightarrow> ('s \<Rightarrow> 's) \<Rightarrow> nat \<Rightarrow> 'w \<Rightarrow> ('x begin_error + 's) \<times> 'w" where
  "begin_new_stream super checks_length unchecked sid w =
     (case super sid w of
        (Inl e, w1) \<Rightarrow> (Inl (BeginRaised e), w1)
      | (Inr stream, w1) \<Rightarrow>
          if \<not> checks_length stream
          then (Inl (BeginUnsupported (lit ''installed hyper-h2 4.x lacks required stream validation support'')), w1)
          else (Inr (unchecked stream), w1))"

end
