(* ===== verification/App_Routes.thy ===== *)
theory App_Routes
  imports Dispatch Configs
begin

text \<open>
  The registration side of \<open>SmallServer\<close> in \<open>smallserver/app.py\<close>: the constructor and the route decorators, and what a
  server whose routes are static answers. A decorator and its application to the handler are one operation here, as
  in \<open>@app.get(path)\<close>. That handlers are callable is left to the types.
\<close>

section \<open>The server object\<close>

record ('h, 'c, 'k) small_server =
  ss_router :: "('h, 'c) router"
  ss_ws_config :: ws_config
  ss_ws_routes :: "(pystr \<times> 'k ws_route) list"

text \<open>Times in milliseconds.\<close>

definition regex_config_default :: regex_config where
  "regex_config_default =
     \<lparr>rc_max_path_bytes = 8 * 1024, rc_max_pattern_length = 1024, rc_max_routes = 100, rc_match_timeout = 10,
      rc_total_match_timeout = 50, rc_max_named_captures = 20\<rparr>"

definition small_server_init :: "regex_config option \<Rightarrow> ws_config option \<Rightarrow> ('h, 'c, 'k) small_server" where
  "small_server_init regex_config websocket_config =
     \<lparr>ss_router = router_init (case regex_config of None \<Rightarrow> regex_config_default | Some c \<Rightarrow> c),
      ss_ws_config = (case websocket_config of None \<Rightarrow> ws_config_default | Some c \<Rightarrow> c), ss_ws_routes = []\<rparr>"

section \<open>The decorators\<close>

definition app_route :: "pystr \<Rightarrow> pystr list \<Rightarrow> 'h \<Rightarrow> ('h, 'c, 'k) small_server \<Rightarrow> py_error + ('h, 'c, 'k) small_server" where
  "app_route path methods h s =
     bind_sum (route_check path methods)
       (\<lambda>normalized. map_sum id (\<lambda>r. s\<lparr>ss_router := r\<rparr>) (add_static (ss_router s) path normalized h))"

definition app_get :: "pystr \<Rightarrow> 'h \<Rightarrow> ('h, 'c, 'k) small_server \<Rightarrow> py_error + ('h, 'c, 'k) small_server" where
  "app_get path = app_route path [lit ''GET'']"

definition app_post :: "pystr \<Rightarrow> 'h \<Rightarrow> ('h, 'c, 'k) small_server \<Rightarrow> py_error + ('h, 'c, 'k) small_server" where
  "app_post path = app_route path [lit ''POST'']"

definition app_put :: "pystr \<Rightarrow> 'h \<Rightarrow> ('h, 'c, 'k) small_server \<Rightarrow> py_error + ('h, 'c, 'k) small_server" where
  "app_put path = app_route path [lit ''PUT'']"

definition app_patch :: "pystr \<Rightarrow> 'h \<Rightarrow> ('h, 'c, 'k) small_server \<Rightarrow> py_error + ('h, 'c, 'k) small_server" where
  "app_patch path = app_route path [lit ''PATCH'']"

definition app_delete :: "pystr \<Rightarrow> 'h \<Rightarrow> ('h, 'c, 'k) small_server \<Rightarrow> py_error + ('h, 'c, 'k) small_server" where
  "app_delete path = app_route path [lit ''DELETE'']"

text \<open>\<open>eng\<close> is the regex package, \<open>None\<close> when it is not installed.\<close>

definition app_route_regex ::
  "('c, 'w) engine option \<Rightarrow> pystr \<Rightarrow> pystr list \<Rightarrow> 'h \<Rightarrow> ('h, 'c, 'k) small_server \<Rightarrow> route_error + ('h, 'c, 'k) small_server" where
  "app_route_regex eng pattern methods h s =
     (case normalize_methods methods of
        Inl e \<Rightarrow> Inl (RouteError e)
      | Inr normalized \<Rightarrow> map_sum id (\<lambda>r. s\<lparr>ss_router := r\<rparr>) (add_regex eng (ss_router s) pattern normalized h))"

definition app_get_regex ::
  "('c, 'w) engine option \<Rightarrow> pystr \<Rightarrow> 'h \<Rightarrow> ('h, 'c, 'k) small_server \<Rightarrow> route_error + ('h, 'c, 'k) small_server" where
  "app_get_regex eng pattern = app_route_regex eng pattern [lit ''GET'']"

definition app_post_regex ::
  "('c, 'w) engine option \<Rightarrow> pystr \<Rightarrow> 'h \<Rightarrow> ('h, 'c, 'k) small_server \<Rightarrow> route_error + ('h, 'c, 'k) small_server" where
  "app_post_regex eng pattern = app_route_regex eng pattern [lit ''POST'']"

definition app_put_regex ::
  "('c, 'w) engine option \<Rightarrow> pystr \<Rightarrow> 'h \<Rightarrow> ('h, 'c, 'k) small_server \<Rightarrow> route_error + ('h, 'c, 'k) small_server" where
  "app_put_regex eng pattern = app_route_regex eng pattern [lit ''PUT'']"

definition app_patch_regex ::
  "('c, 'w) engine option \<Rightarrow> pystr \<Rightarrow> 'h \<Rightarrow> ('h, 'c, 'k) small_server \<Rightarrow> route_error + ('h, 'c, 'k) small_server" where
  "app_patch_regex eng pattern = app_route_regex eng pattern [lit ''PATCH'']"

definition app_delete_regex ::
  "('c, 'w) engine option \<Rightarrow> pystr \<Rightarrow> 'h \<Rightarrow> ('h, 'c, 'k) small_server \<Rightarrow> route_error + ('h, 'c, 'k) small_server" where
  "app_delete_regex eng pattern = app_route_regex eng pattern [lit ''DELETE'']"

definition app_websocket ::
  "pystr \<Rightarrow> pystr list option \<Rightarrow> pystr list \<Rightarrow> 'k \<Rightarrow> ('h, 'c, 'k) small_server \<Rightarrow> py_error + ('h, 'c, 'k) small_server" where
  "app_websocket path origins subprotocols h s =
     bind_sum (websocket_check (ss_ws_routes s) path origins subprotocols)
       (\<lambda>checked. map_sum id (\<lambda>routes. s\<lparr>ss_ws_routes := routes\<rparr>) (websocket_register path checked h (ss_ws_routes s)))"

text \<open>The WebSocket routes are a registry too.\<close>

definition websocket_add ::
  "(pystr \<times> 'k ws_route) list \<Rightarrow> pystr \<Rightarrow> 'k ws_route \<Rightarrow> py_error + (pystr \<times> 'k ws_route) list" where
  "websocket_add routes path route = websocket_register path (wr_origins route, wr_subprotocols route) (wr_handler route) routes"

interpretation websocket_routes: registry map_of websocket_add "\<lambda>_ _. True" "\<lambda>_. True"
  by unfold_locales (auto simp: websocket_add_def websocket_register_def split: if_splits)

lemma app_websocket_route:
  assumes "app_websocket path origins subprotocols h s = Inr s1"
    and "add_all websocket_add (ss_ws_routes s1) later = Inr routes"
  shows "map_of routes path =
    Some \<lparr>wr_handler = h, wr_origins = map_option dedup origins, wr_subprotocols = dedup subprotocols\<rparr>"
proof (rule websocket_routes.registered_stays [OF TrueI _ assms(2)])
  show "map_of (ss_ws_routes s1) path =
      Some \<lparr>wr_handler = h, wr_origins = map_option dedup origins, wr_subprotocols = dedup subprotocols\<rparr>"
    using assms(1)
    by (auto simp: app_websocket_def bind_sum_Inr_iff websocket_check_def websocket_register_def Let_def split: if_splits)
qed

section \<open>A sequence of registrations\<close>

text \<open>An application that goes on after a registration that raised; \<open>register_static\<close> is one of them.\<close>

definition register_static :: "pystr \<times> pystr list \<times> 'h \<Rightarrow> ('h, 'c, 'k) small_server \<Rightarrow> ('h, 'c, 'k) small_server" where
  "register_static reg s = (case reg of (path, methods, h) \<Rightarrow> case app_route path methods h s of Inl _ \<Rightarrow> s | Inr s1 \<Rightarrow> s1)"

definition server_of :: "regex_config \<Rightarrow> (pystr \<times> pystr list \<times> 'h) list \<Rightarrow> ('h, 'c, 'k) small_server" where
  "server_of config regs = fold register_static regs (small_server_init (Some config) None)"

text \<open>The table they promise, without a router: a registration counts as a whole or not at all, and the first to claim a
  method of a path keeps it.\<close>

definition claim ::
  "pystr \<times> pystr list \<times> 'h \<Rightarrow> (pystr \<times> pystr \<Rightarrow> 'h option) \<Rightarrow> (pystr \<times> pystr \<Rightarrow> 'h option)" where
  "claim reg table =
     (case reg of (path, methods, h) \<Rightarrow>
        if starts_with (lit ''/'') path \<and> 63 \<notin> set path \<and> 35 \<notin> set path \<and> methods \<noteq> [] \<and>
           py_upper ` set methods \<subseteq> set supported_methods \<and> (\<forall>m \<in> set methods. table (py_upper m, path) = None)
        then (\<lambda>k. if snd k = path \<and> fst k \<in> py_upper ` set methods then Some h else table k)
        else table)"

definition promised :: "(pystr \<times> pystr list \<times> 'h) list \<Rightarrow> pystr \<times> pystr \<Rightarrow> 'h option" where
  "promised regs = fold claim regs (\<lambda>k. None)"

text \<open>The answer: the handler's, a 405 with the methods of the path in order, or a 404.\<close>

definition promised_answer ::
  "(pystr \<times> pystr list \<times> 'h) list \<Rightarrow> ('h, 'e, 'w) handlers \<Rightarrow> request \<Rightarrow> 'w \<Rightarrow> ('e dispatch_error + response) \<times> 'w" where
  "promised_answer regs hs r w =
     (case promised regs (py_upper (req_method r), req_path r) of
        Some h \<Rightarrow> call_handler hs h r w
      | None \<Rightarrow>
          let methods = sort (filter (\<lambda>m. promised regs (m, req_path r) \<noteq> None) supported_methods)
          in if methods = [] then (raised_py (response_text (lit ''not found'') 404 []), w)
             else (raised_py (response_text (lit ''method not allowed'') 405 (allow_header methods)), w))"

section \<open>The router keeps the promise\<close>

text \<open>Its table is the promised one and there is no regex route.\<close>

definition serves :: "(pystr \<times> pystr \<Rightarrow> 'h option) \<Rightarrow> ('h, 'c) router \<Rightarrow> bool" where
  "serves table r = (router_wf r \<and> rt_regex r = [] \<and> map_of (rt_static r) = table)"

lemma serves_None:
  assumes "serves table r"
  shows "table k = None \<longleftrightarrow> k \<notin> fst ` set (rt_static r)"
proof -
  have "table = map_of (rt_static r)" using assms by (simp add: serves_def)
  then show ?thesis by (simp only: map_of_eq_None_iff)
qed

lemma route_check_Inr_iff:
  "route_check path methods = Inr ns \<longleftrightarrow>
     starts_with (lit ''/'') path \<and> 63 \<notin> set path \<and> 35 \<notin> set path \<and> methods \<noteq> [] \<and>
     py_upper ` set methods \<subseteq> set supported_methods \<and> ns = dedup (map py_upper methods)"
  by (auto simp: route_check_def normalize_methods_def Let_def list_all_iff set_dedup dedup_Nil_iff)

lemma register_static_serves:
  assumes "serves table (ss_router s)"
  shows "serves (claim reg table) (ss_router (register_static reg s))"
proof -
  obtain path methods h where reg: "reg = (path, methods, h)" by (rule prod_cases3)
  let ?ns = "dedup (map py_upper methods)"
  have conflict: "static_conflict (rt_static (ss_router s)) path ?ns = None \<longleftrightarrow>
      (\<forall>m \<in> set methods. table (py_upper m, path) = None)"
    by (simp add: serves_None [OF assms] static_conflict_None_iff set_dedup)
  show ?thesis
  proof (cases "route_check path methods")
    case (Inl e)
    then have "\<nexists>ns. route_check path methods = Inr ns" by simp
    then have "claim reg table = table"
      unfolding route_check_Inr_iff by (simp only: reg claim_def prod.case) auto
    then show ?thesis using assms Inl by (simp add: reg register_static_def app_route_def)
  next
    case (Inr ns)
    then have ok: "starts_with (lit ''/'') path" "63 \<notin> set path" "35 \<notin> set path" "methods \<noteq> []"
      "py_upper ` set methods \<subseteq> set supported_methods" "ns = ?ns"
      unfolding route_check_Inr_iff by simp_all
    have nice: "methods_ok ?ns" using ok(4,5) by (simp add: methods_ok_def dedup_Nil_iff distinct_dedup set_dedup)
    show ?thesis
    proof (cases "\<forall>m \<in> set methods. table (py_upper m, path) = None")
      case True
      define r where "r = (ss_router s)\<lparr>rt_static := static_insert (rt_static (ss_router s)) path ?ns h\<rparr>"
      have add: "add_static (ss_router s) path ?ns h = Inr r" using True conflict by (simp add: add_static_def r_def)
      have "router_wf r" using assms add_static_wf [OF _ _ add] nice by (simp add: serves_def)
      moreover have "map_of (rt_static r) = claim reg table"
        using assms True ok by (auto simp: r_def map_of_static_insert reg claim_def serves_def set_dedup fun_eq_iff)
      ultimately show ?thesis using assms Inr ok(6) add
        by (simp add: serves_def reg register_static_def app_route_def r_def)
    next
      case False
      then have "\<exists>m. static_conflict (rt_static (ss_router s)) path ?ns = Some m" using conflict by auto
      then have "register_static reg s = s"
        using Inr ok(6) by (auto simp: reg register_static_def app_route_def add_static_def)
      moreover have "claim reg table = table" using False by (auto simp: reg claim_def)
      ultimately show ?thesis using assms by simp
    qed
  qed
qed

lemma registrations_serve:
  "serves table (ss_router s) \<Longrightarrow> serves (fold claim regs table) (ss_router (fold register_static regs s))"
  by (induction regs arbitrary: table s) (simp_all add: register_static_serves)

lemma server_of_serves:
  assumes "0 \<le> rc_max_routes config"
  shows "serves (promised regs) (ss_router (server_of config regs))"
  using registrations_serve [of "\<lambda>k. None" "small_server_init (Some config) None"] router_wf_init [OF assms]
  by (simp add: server_of_def promised_def small_server_init_def serves_def router_init_def)

lemma serves_methods:
  assumes "serves table r"
  shows "sort (static_methods_at r path) = sort (filter (\<lambda>m. table (m, path) \<noteq> None) supported_methods)"
proof -
  have wf: "router_wf r" using assms by (simp add: serves_def)
  have "set (static_methods_at r path) = set (filter (\<lambda>m. table (m, path) \<noteq> None) supported_methods)"
    using static_methods_supported [OF wf, of path] by (auto simp: static_methods_set serves_None [OF assms] simp del: not_None_eq)
  moreover have "distinct supported_methods" by (simp add: supported_methods_def py_text)
  ultimately show ?thesis
    using static_methods_distinct [OF wf, of path] by (simp only: sort_distinct_set distinct_filter)
qed

text \<open>C26. A server with static routes answers what its registrations promise. After any sequence of registrations, with
  methods in any case, some of which may raise: a request whose method, in any case, and path are claimed goes to the
  handler that claimed them first, in a registration that was valid and free as a whole; a claimed path with another
  method gets a 405 listing exactly the claimed methods in order; everything else gets a 404. The regex package and
  the clock are not used.\<close>

theorem static_server_answers:
  assumes "0 \<le> rc_max_routes config" and "req_path_params r = []" and "req_route_pattern r = None"
  shows "dispatch eng (ss_router (server_of config regs :: ('h, 'c, 'k) small_server)) hs r w = promised_answer regs hs r w"
proof -
  let ?rt = "ss_router (server_of config regs :: ('h, 'c, 'k) small_server)"
  have serves: "serves (promised regs) ?rt" by (rule server_of_serves [OF assms(1)])
  have table: "map_of (rt_static ?rt) = promised regs" and no_regex: "rt_regex ?rt = []"
    using serves by (simp_all add: serves_def)
  let ?methods = "sort (filter (\<lambda>m. promised regs (m, req_path r) \<noteq> None) supported_methods)"
  have resolved: "resolve eng ?rt (req_method r) (req_path r) w = (Inr (no_handler ?methods), w)"
    if "promised regs (py_upper (req_method r), req_path r) = None"
    using that by (simp add: resolve_def table no_regex serves_methods [OF serves])
  show ?thesis
  proof (cases "promised regs (py_upper (req_method r), req_path r)")
    case None
    then show ?thesis
      unfolding dispatch_def promised_answer_def by (simp add: static_handler_def table resolved Let_def del: not_None_eq)
  next
    case (Some h)
    then show ?thesis using assms(2,3) by (simp add: dispatch_def promised_answer_def static_handler_def table)
  qed
qed

text \<open>Two handlers for one path, the second of which comes too late for one of its methods and is refused as a whole.\<close>

definition demo_regs :: "(pystr \<times> pystr list \<times> nat) list" where
  "demo_regs = [(lit ''/a'', [lit ''get''], 1), (lit ''/a'', [lit ''POST'', lit ''GET''], 2), (lit ''/a'', [lit ''put''], 3)]"

lemma demo_promised:
  "promised demo_regs (lit ''GET'', lit ''/a'') = Some 1" "promised demo_regs (lit ''POST'', lit ''/a'') = None"
  "promised demo_regs (lit ''PUT'', lit ''/a'') = Some 3"
  by (simp_all add: promised_def demo_regs_def claim_def supported_methods_def py_upper_def upper1_def starts_with_def py_text)

definition demo_request :: "pystr \<Rightarrow> request" where
  "demo_request m =
     \<lparr>req_method = m, req_path = lit ''/a'', req_headers = [], req_body = [], req_version = lit ''HTTP/1.1'',
      req_raw_target = lit ''/a'', req_query_string = [], req_path_params = [], req_route_pattern = None\<rparr>"

lemma demo_upper: "py_upper (lit ''Get'') = lit ''GET''" "py_upper (lit ''POST'') = lit ''POST''"
  by (simp_all add: py_upper_def upper1_def py_text)

lemma static_server_answers_witness:
  "dispatch (literal_engine []) (ss_router (server_of regex_config_default demo_regs :: (nat, pystr, nat) small_server))
     (\<lambda>h r w. (RaisedException h, w)) (demo_request (lit ''Get'')) () = (Inl (DispatchException 1), ()) \<and>
   dispatch (literal_engine []) (ss_router (server_of regex_config_default demo_regs :: (nat, pystr, nat) small_server))
     (\<lambda>h r w. (RaisedException h, w)) (demo_request (lit ''POST'')) () =
     promised_answer demo_regs (\<lambda>h r w. (RaisedException h, w)) (demo_request (lit ''POST'')) ()"
proof -
  have limit: "0 \<le> rc_max_routes regex_config_default" by (simp add: regex_config_default_def)
  have plain: "req_path_params (demo_request m) = []" "req_route_pattern (demo_request m) = None" for m
    by (simp_all add: demo_request_def)
  have "promised_answer demo_regs (\<lambda>h r w. (RaisedException h, w)) (demo_request (lit ''Get'')) () = (Inl (DispatchException 1), ())"
    by (simp add: promised_answer_def demo_request_def demo_upper demo_promised call_handler_def)
  then show ?thesis
    unfolding static_server_answers [OF limit plain] by simp
qed

end
