(* ===== verification/Demo_Tasks.thy ===== *)
theory Demo_Tasks
  imports App_Routes WS_Coordinator WS_Messages
begin

text \<open>
  \<open>demo.py\<close>, the task list that ships with the server: its five JSON handlers on one path and the WebSocket echo. The
  store is the module's dict \<open>tasks\<close>. \<open>json.loads\<close> and \<open>json.dumps\<close> are parameters: \<open>loads\<close> returns a value, with the keys of
  an object once each, or \<open>Inl None\<close> for a \<open>JSONDecodeError\<close> and \<open>Inl (Some e)\<close> for another exception.
\<close>

section \<open>JSON values\<close>

text \<open>Of a float the handlers only ask whether it is zero, which is the flag.\<close>

datatype json =
  JNull | JBool bool | JInt int | JFloat bool | JStr pystr | JList "json list" | JObj "(pystr \<times> json) list"

definition json_truthy :: "json \<Rightarrow> bool" where
  "json_truthy v =
     (case v of
        JNull \<Rightarrow> False | JBool b \<Rightarrow> b | JInt i \<Rightarrow> i \<noteq> 0 | JFloat zero \<Rightarrow> \<not> zero | JStr s \<Rightarrow> s \<noteq> []
      | JList xs \<Rightarrow> xs \<noteq> [] | JObj d \<Rightarrow> d \<noteq> [])"

text \<open>\<open>not s.strip()\<close>, with the characters \<open>str.strip\<close> removes.\<close>

definition title_blank :: "pystr \<Rightarrow> bool" where
  "title_blank s =
     list_all (\<lambda>c. c \<in> {9..13} \<or> c \<in> {28..32} \<or> c \<in> {133, 160, 5760} \<or> c \<in> {8192..8202} \<or>
       c \<in> {8232, 8233, 8239, 8287, 12288}) s"

section \<open>The store\<close>

record demo_task =
  dt_id :: pystr
  dt_title :: pystr
  dt_done :: bool

type_synonym demo_store = "(pystr \<times> demo_task) list"

type_synonym json_loads = "pystr \<Rightarrow> py_error option + json"

type_synonym json_dumps = "json \<Rightarrow> py_error + pystr"

definition task_json :: "demo_task \<Rightarrow> json" where
  "task_json t = JObj [(lit ''id'', JStr (dt_id t)), (lit ''title'', JStr (dt_title t)), (lit ''done'', JBool (dt_done t))]"

definition store_json :: "demo_store \<Rightarrow> json" where
  "store_json ts = JObj [(lit ''tasks'', JList (map (\<lambda>e. task_json (snd e)) ts))]"

definition bad_request :: "string \<Rightarrow> py_error handler_result" where
  "bad_request detail = RaisedHTTPError 400 (lit detail)"

definition demo_reply :: "json_dumps \<Rightarrow> json \<Rightarrow> int \<Rightarrow> py_error handler_result" where
  "demo_reply dumps v status =
     (case response_json dumps v status [] of Inl e \<Rightarrow> RaisedException e | Inr resp \<Rightarrow> Replied resp)"

definition request_json :: "json_loads \<Rightarrow> request \<Rightarrow> py_error handler_result + (pystr \<times> json) list" where
  "request_json loads r =
     (case utf8_decode (req_body r) of
        None \<Rightarrow> Inl (bad_request ''request body must be a JSON object'')
      | Some body \<Rightarrow>
          (case loads body of
             Inl None \<Rightarrow> Inl (bad_request ''request body must be a JSON object'')
           | Inl (Some e) \<Rightarrow> Inl (RaisedException e)
           | Inr (JObj d) \<Rightarrow> Inr d
           | Inr _ \<Rightarrow> Inl (bad_request ''request body must be a JSON object'')))"

section \<open>The handlers\<close>

definition list_tasks :: "json_dumps \<Rightarrow> demo_store \<Rightarrow> py_error handler_result \<times> demo_store" where
  "list_tasks dumps ts = (demo_reply dumps (store_json ts) 200, ts)"

definition create_task ::
  "json_loads \<Rightarrow> json_dumps \<Rightarrow> request \<Rightarrow> demo_store \<Rightarrow> py_error handler_result \<times> demo_store" where
  "create_task loads dumps r ts =
     (case request_json loads r of
        Inl x \<Rightarrow> (x, ts)
      | Inr data \<Rightarrow>
          (case map_of data (lit ''title'') of
             Some (JStr title) \<Rightarrow>
               if title_blank title then (bad_request ''title is required'', ts)
               else (let t = \<lparr>dt_id = nat_str (length ts + 1), dt_title = title, dt_done = False\<rparr>
                     in (demo_reply dumps (task_json t) 201, dict_set (dt_id t) t ts))
           | _ \<Rightarrow> (bad_request ''title is required'', ts)))"

text \<open>The loop of \<open>replace_tasks\<close>; \<open>Some x\<close> is the exception that leaves it.\<close>

fun replace_loop :: "nat \<Rightarrow> json list \<Rightarrow> demo_store \<Rightarrow> py_error handler_result option \<times> demo_store" where
  "replace_loop position [] ts = (None, ts)"
| "replace_loop position (item # items) ts =
     (case item of
        JObj d \<Rightarrow>
          (case map_of d (lit ''title'') of
             Some (JStr title) \<Rightarrow>
               (let t = \<lparr>dt_id = nat_str position, dt_title = title,
                         dt_done = (case map_of d (lit ''done'') of None \<Rightarrow> False | Some v \<Rightarrow> json_truthy v)\<rparr>
                in replace_loop (position + 1) items (dict_set (dt_id t) t ts))
           | _ \<Rightarrow> (Some (bad_request ''each task needs a title''), ts))
      | _ \<Rightarrow> (Some (bad_request ''each task needs a title''), ts))"

definition replace_tasks ::
  "json_loads \<Rightarrow> json_dumps \<Rightarrow> request \<Rightarrow> demo_store \<Rightarrow> py_error handler_result \<times> demo_store" where
  "replace_tasks loads dumps r ts =
     (case request_json loads r of
        Inl x \<Rightarrow> (x, ts)
      | Inr data \<Rightarrow>
          (case map_of data (lit ''tasks'') of
             Some (JList items) \<Rightarrow>
               (case replace_loop 1 items [] of
                  (Some x, ts1) \<Rightarrow> (x, ts1)
                | (None, ts1) \<Rightarrow> (demo_reply dumps (store_json ts1) 200, ts1))
           | _ \<Rightarrow> (bad_request ''tasks must be a JSON list'', ts)))"

text \<open>Looking an id up in the dict: a list or an object is not hashable, other values that are no strings are not there.\<close>

definition find_task :: "(pystr \<times> json) list \<Rightarrow> demo_store \<Rightarrow> py_error + (pystr \<times> demo_task) option" where
  "find_task data ts =
     (case map_of data (lit ''id'') of
        Some (JList _) \<Rightarrow> Inl (TypeError (lit ''unhashable type: '' @ [39] @ lit ''list'' @ [39]))
      | Some (JObj _) \<Rightarrow> Inl (TypeError (lit ''unhashable type: '' @ [39] @ lit ''dict'' @ [39]))
      | Some (JStr i) \<Rightarrow> Inr (map_option (Pair i) (map_of ts i))
      | _ \<Rightarrow> Inr None)"

definition patch_done ::
  "json_dumps \<Rightarrow> (pystr \<times> json) list \<Rightarrow> pystr \<Rightarrow> demo_task \<Rightarrow> demo_store \<Rightarrow> py_error handler_result \<times> demo_store" where
  "patch_done dumps data i t ts =
     (case map_of data (lit ''done'') of
        None \<Rightarrow> (demo_reply dumps (task_json t) 200, ts)
      | Some (JBool b) \<Rightarrow>
          (let t1 = t\<lparr>dt_done := b\<rparr> in (demo_reply dumps (task_json t1) 200, dict_set i t1 ts))
      | Some _ \<Rightarrow> (bad_request ''done must be a boolean'', ts))"

definition patch_task ::
  "json_loads \<Rightarrow> json_dumps \<Rightarrow> request \<Rightarrow> demo_store \<Rightarrow> py_error handler_result \<times> demo_store" where
  "patch_task loads dumps r ts =
     (case request_json loads r of
        Inl x \<Rightarrow> (x, ts)
      | Inr data \<Rightarrow>
          (case find_task data ts of
             Inl e \<Rightarrow> (RaisedException e, ts)
           | Inr None \<Rightarrow> (RaisedHTTPError 404 (lit ''task not found''), ts)
           | Inr (Some (i, t)) \<Rightarrow>
               (case map_of data (lit ''title'') of
                  None \<Rightarrow> patch_done dumps data i t ts
                | Some (JStr title) \<Rightarrow>
                    if title_blank title then (bad_request ''title must be a non-empty string'', ts)
                    else (let t1 = t\<lparr>dt_title := title\<rparr> in patch_done dumps data i t1 (dict_set i t1 ts))
                | Some _ \<Rightarrow> (bad_request ''title must be a non-empty string'', ts))))"

definition delete_task :: "json_loads \<Rightarrow> request \<Rightarrow> demo_store \<Rightarrow> py_error handler_result \<times> demo_store" where
  "delete_task loads r ts =
     (case request_json loads r of
        Inl x \<Rightarrow> (x, ts)
      | Inr data \<Rightarrow>
          (case find_task data ts of
             Inl e \<Rightarrow> (RaisedException e, ts)
           | Inr None \<Rightarrow> (RaisedHTTPError 404 (lit ''task not found''), ts)
           | Inr (Some (i, t)) \<Rightarrow>
               (case response_init 204 [] [] of Inl e \<Rightarrow> RaisedException e | Inr resp \<Rightarrow> Replied resp, dict_pop i ts)))"

text \<open>One message of the echo loop.\<close>

definition websocket_echo :: "ws_data \<Rightarrow> ('p, 'r, 'e) ws \<Rightarrow> ('e ws_failure + nat) \<times> ('p, 'r, 'e) ws" where
  "websocket_echo m s =
     (if message_is_text m
      then (case message_text m of Inl e \<Rightarrow> (Inl WSValue, s) | Inr t \<Rightarrow> socket_send_text t s)
      else (case message_bytes m of Inl e \<Rightarrow> (Inl WSValue, s) | Inr b \<Rightarrow> socket_send_bytes b s))"

section \<open>The application\<close>

datatype demo_route = ListTasks | CreateTask | ReplaceTasks | PatchTask | DeleteTask

definition demo_handlers :: "json_loads \<Rightarrow> json_dumps \<Rightarrow> (demo_route, py_error, demo_store) handlers" where
  "demo_handlers loads dumps route r ts =
     (case route of
        ListTasks \<Rightarrow> list_tasks dumps ts
      | CreateTask \<Rightarrow> create_task loads dumps r ts
      | ReplaceTasks \<Rightarrow> replace_tasks loads dumps r ts
      | PatchTask \<Rightarrow> patch_task loads dumps r ts
      | DeleteTask \<Rightarrow> delete_task loads r ts)"

definition demo_app :: "py_error + (demo_route, pystr, unit) small_server" where
  "demo_app =
     bind_sum (app_get (lit ''/tasks'') ListTasks (small_server_init None None)) (\<lambda>s1.
     bind_sum (app_post (lit ''/tasks'') CreateTask s1) (\<lambda>s2.
     bind_sum (app_put (lit ''/tasks'') ReplaceTasks s2) (\<lambda>s3.
     bind_sum (app_patch (lit ''/tasks'') PatchTask s3) (\<lambda>s4.
     bind_sum (app_delete (lit ''/tasks'') DeleteTask s4) (app_websocket (lit ''/ws'') None [] ())))))"

section \<open>The routes answer with these handlers\<close>

lemma demo_app_table:
  assumes "demo_app = Inr s"
  shows "map_of (rt_static (ss_router s)) (lit ''POST'', lit ''/tasks'') = Some CreateTask"
    "map_of (rt_static (ss_router s)) (lit ''DELETE'', lit ''/tasks'') = Some DeleteTask"
  using assms
  by (auto simp: demo_app_def app_get_def app_post_def app_put_def app_patch_def app_delete_def app_websocket_def app_route_def
      small_server_init_def router_init_def route_check_def normalize_methods_def supported_methods_def add_static_def
      py_upper_def upper1_def starts_with_def websocket_check_def websocket_register_def dedup_def py_text)

lemma demo_dispatch:
  assumes "map_of (rt_static (ss_router s)) (py_upper (req_method r), req_path r) = Some route"
    and "req_path_params r = []" and "req_route_pattern r = None"
  shows "snd (dispatch eng (ss_router s) (demo_handlers loads dumps) r ts) = snd (demo_handlers loads dumps route r ts)"
  using assms
  by (simp add: dispatch_def static_handler_def call_handler_def split: prod.split handler_result.split)

section \<open>The ids\<close>

text \<open>As long as nothing is deleted, the ids are the positions.\<close>

definition numbered :: "demo_store \<Rightarrow> bool" where
  "numbered ts = (map fst ts = map nat_str [1..<Suc (length ts)])"

lemma numbered_Nil: "numbered []"
  by (simp add: numbered_def)

lemma dict_set_keys: "map fst (dict_set k v d) = (if k \<in> fst ` set d then map fst d else map fst d @ [k])"
  by (induction k v d rule: dict_set.induct) auto

lemma dict_set_length: "length (dict_set k v d) = (if k \<in> fst ` set d then length d else Suc (length d))"
proof -
  have "length (dict_set k v d) = length (map fst (dict_set k v d))" by simp
  then show ?thesis unfolding dict_set_keys by simp
qed

lemma dict_pop_length: "dict_wf d \<Longrightarrow> k \<in> fst ` set d \<Longrightarrow> length (dict_pop k d) = length d - 1"
proof (induction d)
  case (Cons e d)
  show ?case
  proof (cases "fst e = k")
    case True
    then have "k \<notin> fst ` set d" using Cons.prems(1) by (simp add: dict_wf_def)
    then have "dict_pop k d = d" by (rule dict_pop_absent)
    then show ?thesis using True by (simp add: dict_pop_def)
  next
    case False
    then have "k \<in> fst ` set d" "d \<noteq> []" using Cons.prems(2) by auto
    then show ?thesis using False Cons by (auto simp: dict_wf_def dict_pop_def length_greater_0_conv [symmetric] simp del: length_greater_0_conv)
  qed
qed simp

lemma numbered_keys: "numbered ts \<Longrightarrow> fst ` set ts = nat_str ` {1..length ts}"
proof -
  assume "numbered ts"
  then have "fst ` set ts = set (map nat_str [1..<Suc (length ts)])" unfolding numbered_def by (metis list.set_map)
  then show ?thesis by (simp add: atLeastLessThanSuc_atLeastAtMost del: upt_Suc)
qed

lemma numbered_wf: "numbered ts \<Longrightarrow> dict_wf ts"
  by (simp add: numbered_def dict_wf_def distinct_map inj_on_def del: upt_Suc)

text \<open>Creating and replacing keep the numbering.\<close>

lemma numbered_append: "numbered ts \<Longrightarrow> numbered (dict_set (nat_str (Suc (length ts))) t ts)"
  using numbered_keys [of ts] by (auto simp: numbered_def dict_set_keys dict_set_length)

lemma create_numbered: "numbered ts \<Longrightarrow> numbered (snd (create_task loads dumps r ts))"
  using numbered_append
  by (auto simp: create_task_def Let_def split: sum.split option.split json.split)

lemma replace_loop_numbered:
  "numbered ts \<Longrightarrow> numbered (snd (replace_loop (Suc (length ts)) items ts))"
proof (induction items arbitrary: ts)
  case (Cons item items)
  have "length (dict_set (nat_str (Suc (length ts))) t ts) = Suc (length ts)" for t
    using numbered_keys [OF Cons.prems] by (auto simp: dict_set_length)
  then have "numbered (snd (replace_loop (Suc (Suc (length ts))) items (dict_set (nat_str (Suc (length ts))) t ts)))" for t
    using Cons.IH [OF numbered_append [OF Cons.prems, of t]] by simp
  then show ?case using Cons.prems by (auto simp: Let_def split: json.split option.split)
qed simp

lemma replace_numbered: "numbered ts \<Longrightarrow> numbered (snd (replace_tasks loads dumps r ts))"
  using replace_loop_numbered [OF numbered_Nil]
  by (auto simp: replace_tasks_def split: sum.split option.split json.split prod.split) (metis snd_conv)+

text \<open>C40. The demo loses a task when one is created after a deletion. Ids are positions as long as nothing is deleted; delete
  any task but the last and create one, through the application's routes: the new task gets the id of the last
  one and takes its place, so the store has no more tasks than after the deletion.\<close>

theorem demo_create_overwrites:
  assumes "demo_app = Inr s" and "numbered ts"
    and "py_upper (req_method rd) = lit ''DELETE''" "req_path rd = lit ''/tasks''" "req_path_params rd = []" "req_route_pattern rd = None"
    and "request_json loads rd = Inr d" "map_of d (lit ''id'') = Some (JStr i)" "i \<in> fst ` set ts" "i \<noteq> nat_str (length ts)"
    and "py_upper (req_method rc) = lit ''POST''" "req_path rc = lit ''/tasks''" "req_path_params rc = []" "req_route_pattern rc = None"
    and "request_json loads rc = Inr d'" "map_of d' (lit ''title'') = Some (JStr title)" "\<not> title_blank title"
  shows "let deleted = snd (dispatch eng (ss_router s) (demo_handlers loads dumps) rd ts);
           after = snd (dispatch eng (ss_router s) (demo_handlers loads dumps) rc deleted);
           n = nat_str (length ts)
    in length deleted = length ts - 1 \<and> map_of deleted n = map_of ts n \<and> map_of ts n \<noteq> None \<and>
      length after = length deleted \<and> map_of after n = Some \<lparr>dt_id = n, dt_title = title, dt_done = False\<rparr>"
proof -
  let ?n = "nat_str (length ts)"
  obtain t where t: "map_of ts i = Some t" using assms(9) by (metis map_of_eq_None_iff not_None_eq)
  have "snd (dispatch eng (ss_router s) (demo_handlers loads dumps) rd ts) = snd (delete_task loads rd ts)"
    using demo_dispatch [of s rd DeleteTask] demo_app_table(2) [OF assms(1)] assms(3-6) by (simp add: demo_handlers_def)
  then have deleted: "snd (dispatch eng (ss_router s) (demo_handlers loads dumps) rd ts) = dict_pop i ts"
    using assms(7,8) t by (simp add: delete_task_def find_task_def)
  have len: "length (dict_pop i ts) = length ts - 1"
    by (rule dict_pop_length [OF numbered_wf [OF assms(2)] assms(9)])
  have "length ts \<noteq> 0" using assms(9) by auto
  then have keys: "?n \<in> fst ` set ts" "Suc (length (dict_pop i ts)) = length ts"
    unfolding numbered_keys [OF assms(2)] len by (auto intro!: imageI simp: Suc_le_eq)
  have kept: "?n \<in> fst ` set (dict_pop i ts)" using keys(1) assms(10) by (auto simp: dict_pop_def)
  have "snd (dispatch eng (ss_router s) (demo_handlers loads dumps) rc (dict_pop i ts)) = snd (create_task loads dumps rc (dict_pop i ts))"
    using demo_dispatch [of s rc CreateTask] demo_app_table(1) [OF assms(1)] assms(11-14) by (simp add: demo_handlers_def)
  then have created: "snd (dispatch eng (ss_router s) (demo_handlers loads dumps) rc (dict_pop i ts)) =
      dict_set ?n \<lparr>dt_id = ?n, dt_title = title, dt_done = False\<rparr> (dict_pop i ts)"
    using assms(15-17) keys(2) by (simp add: create_task_def Let_def)
  have "map_of ts ?n \<noteq> None" using keys(1) by (metis map_of_eq_None_iff)
  then show ?thesis
    using assms(10) keys(1) by (simp add: deleted created len dict_set_length kept)
qed

text \<open>Two tasks, of which the first is deleted. The parameter \<open>loads\<close> reads the two bodies.\<close>

definition demo_body :: "string \<Rightarrow> string \<Rightarrow> request" where
  "demo_body m body =
     \<lparr>req_method = lit m, req_path = lit ''/tasks'', req_headers = [], req_body = map of_nat (lit body), req_version = lit ''HTTP/1.1'',
      req_raw_target = lit ''/tasks'', req_query_string = [], req_path_params = [], req_route_pattern = None\<rparr>"

definition demo_loads :: json_loads where
  "demo_loads body = Inr (if body = lit ''D'' then JObj [(lit ''id'', JStr (nat_str 1))] else JObj [(lit ''title'', JStr (lit ''new''))])"

definition demo_two :: demo_store where
  "demo_two = [(nat_str 1, \<lparr>dt_id = nat_str 1, dt_title = lit ''a'', dt_done = False\<rparr>),
     (nat_str 2, \<lparr>dt_id = nat_str 2, dt_title = lit ''b'', dt_done = True\<rparr>)]"

lemma demo_app_exists: "\<exists>s. demo_app = Inr s"
  by (simp add: demo_app_def app_get_def app_post_def app_put_def app_patch_def app_delete_def app_websocket_def app_route_def
      small_server_init_def router_init_def route_check_def normalize_methods_def supported_methods_def add_static_def
      py_upper_def upper1_def starts_with_def websocket_check_def websocket_register_def dedup_def py_text)

lemma demo_bodies:
  "request_json demo_loads (demo_body m ''D'') = Inr [(lit ''id'', JStr (nat_str 1))]"
  "request_json demo_loads (demo_body m ''C'') = Inr [(lit ''title'', JStr (lit ''new''))]"
proof -
  have "utf8_decode (map of_nat (lit ''D'')) = Some (lit ''D'')" "utf8_decode (map of_nat (lit ''C'')) = Some (lit ''C'')"
    by (rule utf8_decode_encode, simp add: utf8_char_def py_text)+
  then show "request_json demo_loads (demo_body m ''D'') = Inr [(lit ''id'', JStr (nat_str 1))]"
    "request_json demo_loads (demo_body m ''C'') = Inr [(lit ''title'', JStr (lit ''new''))]"
    by (simp_all add: request_json_def demo_body_def demo_loads_def)
qed

definition silent_engine :: "(pystr, 'w) engine" where
  "silent_engine = \<lparr>eng_compile = Some, eng_groups = (\<lambda>c. []), eng_fullmatch = (\<lambda>c p t w. (NoMatch, w)), eng_clock = (\<lambda>w. (0, w))\<rparr>"

lemma demo_create_overwrites_witness:
  "\<exists>s. demo_app = Inr s \<and>
     map_of (snd (dispatch silent_engine (ss_router s) (demo_handlers demo_loads (\<lambda>v. Inr [])) (demo_body ''POST'' ''C'')
       (snd (dispatch silent_engine (ss_router s) (demo_handlers demo_loads (\<lambda>v. Inr [])) (demo_body ''DELETE'' ''D'') demo_two))))
       (nat_str 2) = Some \<lparr>dt_id = nat_str 2, dt_title = lit ''new'', dt_done = False\<rparr>"
proof -
  obtain s where s: "demo_app = Inr s" using demo_app_exists by blast
  have two: "numbered demo_two" "length demo_two = 2" "nat_str 1 \<in> fst ` set demo_two"
    by (simp_all add: numbered_def demo_two_def upt_rec)
  have plain: "py_upper (req_method (demo_body ''DELETE'' b)) = lit ''DELETE''" "py_upper (req_method (demo_body ''POST'' b)) = lit ''POST''"
    "req_path (demo_body m b) = lit ''/tasks''" "req_path_params (demo_body m b) = []" "req_route_pattern (demo_body m b) = None" for m b
    by (simp_all add: demo_body_def py_upper_def upper1_def py_text)
  have id1: "map_of [(lit ''id'', JStr (nat_str 1))] (lit ''id'') = Some (JStr (nat_str 1))" by simp
  have new: "map_of [(lit ''title'', JStr (lit ''new''))] (lit ''title'') = Some (JStr (lit ''new''))" "\<not> title_blank (lit ''new'')"
    by (simp_all add: title_blank_def py_text)
  have last1: "nat_str 1 \<noteq> nat_str (length demo_two)" by (simp add: two(2))
  show ?thesis
    using demo_create_overwrites [where eng = silent_engine and dumps = "\<lambda>v. Inr []",
        OF s two(1) plain(1,3,4,5) demo_bodies(1) id1 two(3) last1 plain(2,3,4,5) demo_bodies(2) new] s
    by (intro exI [of _ s]) (simp add: Let_def two(2))
qed

end
