(* ===== verification/Spec2Isabelle.thy ===== *)
theory Spec2Isabelle
  imports Http1_Parser Resolution Cleanup H2_Delivery H2_Requests WS_Frames Serving Finalizing Transport_Laws WS_Sessions Http1_Connection Configs H2_Watchdog H2_Output Starting Adapters WS_Children H2_Setup Demo_Tasks
begin

text \<open>
  A model of SmallServer, an HTTP framework whose servers run as tasks of the SmallOS scheduler, and the theorems that
  make it correct.

  \<^bold>\<open>The program.\<close> An application registers handlers with a \<open>SmallServer\<close> (\<open>app.py\<close>, \<open>routing.py\<close>) and starts it. The start
  resolves the configuration, acquires a listener and a wakeup channel from the kernel (\<open>_transport.py\<close>), builds a
  \<open>ServerHandle\<close> (\<open>server.py\<close>) and schedules an accept loop and control tasks. Each accepted stream gets a connection task:
  an HTTP/1.1 loop around \<open>HTTPRequestParser\<close>, which may hand over to the WebSocket coordinator (\<open>websocket.py\<close>), or an
  HTTP/2 loop around \<open>H2Protocol\<close> (\<open>http2.py\<close>). Requests go through \<open>dispatch\<close> to the handlers; matching timeouts go to the
  observer channel. A shutdown runs through the handle, and what could not be released is kept in cleanup
  transactions (\<open>errors.py\<close>) for a retry.

  \<^bold>\<open>The theories.\<close>
  \<^item> \<open>SS_Prelude\<close>, \<open>SS_Text\<close>: sums as results, searching and splitting, Python strings as lists of code points, their
    codecs and decimals. \<open>Registry\<close>: dicts as association lists, the locale \<open>registry\<close>. \<open>Incremental\<close>: the
    locales of readers fed with chunks.
  \<^item> \<open>Http_Values\<close> (\<open>http.py\<close>): \<open>Headers\<close>, \<open>Request\<close>, \<open>Response\<close> with their constructors and \<open>to_http1\<close>; serialised heads cannot be
    split.
  \<^item> \<open>Http1_Parser\<close> (\<open>server.py\<close>): \<open>HTTPRequestParser\<close> as a state and \<open>h1_feed\<close>; accepted requests obey every limit and so does
    what a waiting parser holds, independence of chunk boundaries, round trip.
  \<^item> \<open>Routing\<close>, \<open>Pattern_Groups\<close>, \<open>Resolution\<close> (\<open>routing.py\<close>): tables, registration, the scanner of group names, \<open>resolve\<close> with its
    limits; the table invariant, refinement of a reference for any clock, the time budget.
  \<^item> \<open>App_Routes\<close> (\<open>app.py\<close>): the constructor and the decorators; a server with static routes against the table its
    registrations promise.
  \<^item> \<open>Dispatch\<close>, \<open>Http1_Connection\<close> (\<open>app.py\<close>): \<open>dispatch\<close>, the upgrade dispatch, the HTTP/1.1 loop; a connection ends, does what a
    server does that gets all bytes at once, and answers at most once.
  \<^item> \<open>H2_Frames\<close>, \<open>H2_Protocol\<close>, \<open>H2_Setup\<close> (\<open>http2.py\<close>): the frame splitter, the protocol state with its operations, the options
    given to hyper-h2. \<open>H2_Accounting\<close>, \<open>H2_Runs\<close>, \<open>H2_Delivery\<close>, \<open>H2_Requests\<close>: exact counters, delivery of every response in
    order, checks on requests, bad requests that reset their own stream only, over every run. \<open>H2_Sample\<close> holds the sample the witnesses use.
  \<^item> \<open>H2_Connection\<close>, \<open>H2_Output\<close>, \<open>H2_Watchdog\<close> (\<open>app.py\<close>): the tasks of an HTTP/2 connection; output is never stranded, the
    idle limit is a window without activity.
  \<^item> \<open>WS_Frames\<close>, \<open>WS_Upgrade\<close>, \<open>WS_State\<close>, \<open>WS_Tasks\<close>, \<open>WS_Coordinator\<close> (\<open>websocket.py\<close>): the frame guard, the upgrade decision,
    \<open>_WebSocketState\<close>, its tasks, the coordinator and the handler task. \<open>WS_Mailboxes\<close>, \<open>WS_Messages\<close>, \<open>WS_Runs\<close>, \<open>WS_Sessions\<close>: messages in
    order and bounded mailboxes in every interleaving. \<open>WS_Children\<close>: no task of a connection is lost, also when cancelling
    one raises an exit.
  \<^item> \<open>Observer\<close>, \<open>Server_Handle\<close> (\<open>server.py\<close>, \<open>app.py\<close>): the observer channel, \<open>ServerHandle\<close> and the accept loop. \<open>Handle_Ownership\<close>,
    \<open>Handle_Steps\<close>, \<open>Serving\<close>, \<open>Finalizing\<close>: no accepted stream is lost, the accept loop is woken, the completion is called
    once, what \<open>finalize\<close> achieves.
  \<^item> \<open>Cleanup\<close> (\<open>errors.py\<close>), \<open>Transport\<close>, \<open>Transport_Laws\<close> (\<open>_transport.py\<close>): retryable cleanup, acquisitions with rollback, sending
    and receiving with retries.
  \<^item> \<open>Configs\<close> (\<open>server.py\<close>, \<open>runtime.py\<close>, \<open>websocket.py\<close>, \<open>app.py\<close>), \<open>Startup\<close>, \<open>Startup_Laws\<close>, \<open>Starting\<close> (\<open>app.py\<close>): the configuration and the
    start of a server; a failed start has released all, or owns what is left.
  \<^item> \<open>Adapters\<close> (\<open>adapters.py\<close>) and \<open>Demo_Tasks\<close> (\<open>demo.py\<close>): the adapter registry, and the demo application from its routes to its
    store.

  \<^bold>\<open>How code becomes definitions.\<close> Objects are records passed explicitly; exceptions are \<open>Inl\<close> of a sum or \<open>Some\<close> of an option.
  A task is cut at its awaits: one definition is one stretch that runs without interruption, and the theorems
  about interleavings quantify over the order of the stretches. Objects that the code tells apart with \<open>id()\<close> are
  numbers. Times are integers. Checks that an argument has the right Python type are left to the types where the
  type rules the other case out.

  \<^bold>\<open>Parameters.\<close> Code that is not in the repository is an argument: the kernel (\<open>kernel\<close>), the scheduler as the
  handle, the HTTP/2 tasks and the coordinator use it (\<open>host\<close>, \<open>h2_tasks\<close>, \<open>spawner\<close>), hyper-h2 (\<open>h2lib\<close>), wsproto
  (\<open>ws_lib\<close>), the regex package and the clock (\<open>engine\<close>), SHA-1, the adapters, the application's handlers, the JSON
  codec. The runtime a WebSocket state cancels its tasks with is its field \<open>ws_runtime\<close>, which says of each call whether it
  raises an exit. What a theorem asks of a parameter is a named predicate in its statement (\<open>wire_kernel\<close>, \<open>finite_stalls\<close>,
  \<open>truthful_engine\<close>, \<open>never_reuses\<close>, \<open>births\<close> and others), and its witness gives an instance.

  \<^bold>\<open>Bounds.\<close> The loops of the parsers and splitters recurse on the input, with a measure where they do not shrink it at
  every turn. \<open>slices\<close> has fuel equal to the length of the payload; it takes at least one byte a turn because
  \<open>write_chunk_bytes\<close> is positive. The loops that wait for the kernel are \<open>partial_function\<close>; that they return is proved under
  \<open>finite_stalls\<close> and \<open>reading_kernel\<close> (a kernel asks for finitely many retries), and for the connection loop because the
  parser waits for a bounded number of bytes. \<open>upper1\<close> is exact for the code points whose upper case is ASCII,
  which is all the comparison with method names needs.

  \<^bold>\<open>Interfaces.\<close> \<open>registry\<close> is interpreted by the static routes and the WebSocket routes; \<open>incremental_reader\<close> by the HTTP/1.1
  parser; \<open>bytewise_reader\<close>, which gives it, by the HTTP/2 splitter and the WebSocket guard.

  \<^bold>\<open>Not modelled.\<close> \<open>__init__.py\<close> only re-exports names. The \<open>Protocol\<close> classes of \<open>_transport.py\<close> and \<open>app.py\<close> describe code outside the
  repository; their methods are fields of the parameters. The locks guard single methods and make each one
  step. Priorities and names of tasks matter to the scheduler only; the check on priorities is in \<open>Configs\<close>. Plain
  getters, the overloads of \<open>listen\<close> and the unused \<open>ServerHandle._cancel_task\<close> are left out. The scripts under \<open>examples\<close> call
  SQLite, asyncio, threads and the server. An exit that \<open>request_shutdown\<close> passes on is modelled for the coordinator, and
  left out for the handle's own call of it, \<open>host_ws_shutdown\<close>. Benchmarks, tests and documents hold no code of the server.
\<close>

end
